(* ===== verification/Jc_Prelude.thy ===== *)
theory Jc_Prelude
  imports Main "HOL-Library.Word"
begin

unbundle bit_operations_syntax

text \<open>
  Shared vocabulary of the development: the machine types of the C code (the virtual machine is
  built for 32 bit hosts, \<open>jc_machdep.h\<close>, so a \<open>_jc_word\<close>, a pointer and a \<open>size_t\<close> are 32 bits
  wide), the exceptions the virtual machine stores (\<open>definitions.h\<close>), the failures of a C
  function, and a state-and-failure monad whose failing computations keep the state they reached.
  Then a small program logic for that monad: \<open>leads\<close> follows one run, \<open>safe\<close> says that a computation
  keeps an invariant and never faults, with one rule per combinator in the locale \<open>safe_steps\<close>.
\<close>

section \<open>Machine types\<close>

type_synonym u8 = "8 word"
type_synonym u16 = "16 word"
type_synonym u32 = "32 word"
type_synonym u64 = "64 word"

text \<open>A NUL-terminated C string that holds no NUL itself: the list of its bytes.\<close>

type_synonym cstr = "u8 list"

text \<open>The bytes of a character literal of the C source.\<close>

definition c_str :: "string \<Rightarrow> cstr" where
  "c_str cs = map of_char cs"

text \<open>The sign test and the value of a \<open>jint\<close> are read off its 32 bit pattern.\<close>

abbreviation jint_val :: "u32 \<Rightarrow> int" where
  "jint_val w \<equiv> sint w"

section \<open>Failures\<close>

text \<open>
  The exceptions generated by the virtual machine itself, in the order of the enumeration of
  \<open>definitions.h\<close>.
\<close>

datatype vmex =
    AbstractMethodError
  | ArithmeticException
  | ArrayIndexOutOfBoundsException
  | ArrayStoreException
  | ClassCastException
  | ClassCircularityError
  | ClassFormatError
  | ClassNotFoundException
  | CloneNotSupportedException
  | ExceptionInInitializerError
  | IOException
  | IllegalAccessError
  | IllegalAccessException
  | IllegalArgumentException
  | IllegalMonitorStateException
  | IllegalThreadStateException
  | IncompatibleClassChangeError
  | InstantiationError
  | InstantiationException
  | InternalError
  | InterruptedException
  | InvocationTargetException
  | LinkageError
  | NegativeArraySizeException
  | NoClassDefFoundError
  | NoSuchFieldError
  | NoSuchMethodError
  | NullPointerException
  | OutOfMemoryError
  | StackOverflowError
  | ThreadDeath
  | UnsatisfiedLinkError
  | UnsupportedClassVersionError

text \<open>
  What the C standard leaves undefined and the code does not guard against is a fault: an access
  outside the memory an array was given, a null pointer followed, a union read through a member
  that was not written, a failed \<open>_JC_ASSERT\<close>, a pointer to memory that is not there, a quotient that
  does not fit. \<open>Out_of_fuel\<close> is no behaviour of the code: it stops a
  loop of the model that is bounded by fuel, and is shown not to occur.
\<close>

datatype fault =
    Out_of_bounds
  | Null_dereference
  | Wrong_union_member
  | Assertion
  | Bad_address
  | Quotient_overflow
  | Out_of_fuel

datatype failure = Exn vmex | Fault fault

fun is_fault :: "failure \<Rightarrow> bool" where
  "is_fault (Exn e) = False"
| "is_fault (Fault f) = True"

section \<open>The state-and-failure monad\<close>

type_synonym ('s, 'a) mon = "'s \<Rightarrow> (failure + 'a) \<times> 's"

definition ret :: "'a \<Rightarrow> ('s, 'a) mon" where
  "ret x = (\<lambda>s. (Inr x, s))"

definition fails :: "failure \<Rightarrow> ('s, 'a) mon" where
  "fails e = (\<lambda>s. (Inl e, s))"

definition bindM :: "('s, 'a) mon \<Rightarrow> ('a \<Rightarrow> ('s, 'b) mon) \<Rightarrow> ('s, 'b) mon" where
  "bindM m f = (\<lambda>s. case m s of (Inl e, t) \<Rightarrow> (Inl e, t) | (Inr x, t) \<Rightarrow> f x t)"

definition thenM :: "('s, 'a) mon \<Rightarrow> ('s, 'b) mon \<Rightarrow> ('s, 'b) mon" where
  "thenM m n = bindM m (\<lambda>_. n)"

definition gets :: "('s \<Rightarrow> 'a) \<Rightarrow> ('s, 'a) mon" where
  "gets f = (\<lambda>s. (Inr (f s), s))"

definition modify :: "('s \<Rightarrow> 's) \<Rightarrow> ('s, unit) mon" where
  "modify f = (\<lambda>s. (Inr (), f s))"

definition assertM :: "failure \<Rightarrow> bool \<Rightarrow> ('s, unit) mon" where
  "assertM e b = (if b then ret () else fails e)"

text \<open>A call whose return status is ignored: its exception is dropped, its effect is kept.\<close>

definition ignoreM :: "('s, 'a) mon \<Rightarrow> ('s, unit) mon" where
  "ignoreM m = (\<lambda>s. case m s of
      (Inl (Exn e), t) \<Rightarrow> (Inr (), t)
    | (Inl (Fault f), t) \<Rightarrow> (Inl (Fault f), t)
    | (Inr x, t) \<Rightarrow> (Inr (), t))"

text \<open>The clean-up code behind a \<open>fail:\<close> label, run when an exception is on its way out.\<close>

definition on_failM :: "('s, 'a) mon \<Rightarrow> ('s, unit) mon \<Rightarrow> ('s, 'a) mon" where
  "on_failM m c = (\<lambda>s. case m s of
      (Inl (Exn e), t) \<Rightarrow> (case c t of (Inl e', u) \<Rightarrow> (Inl e', u) | (Inr _, u) \<Rightarrow> (Inl (Exn e), u))
    | r \<Rightarrow> r)"

text \<open>The loop \<open>for (i = 0; i < n; i++) xs[i] = m\<close>.\<close>

fun repeatM :: "nat \<Rightarrow> ('s, 'a) mon \<Rightarrow> ('s, 'a list) mon" where
  "repeatM 0 m = ret []"
| "repeatM (Suc n) m = bindM m (\<lambda>x. bindM (repeatM n m) (\<lambda>xs. ret (x # xs)))"

text \<open>The loop that replaces every element of an array by the result of a call.\<close>

fun mapM :: "('a \<Rightarrow> ('s, 'b) mon) \<Rightarrow> 'a list \<Rightarrow> ('s, 'b list) mon" where
  "mapM f [] = ret []"
| "mapM f (x # xs) = bindM (f x) (\<lambda>y. bindM (mapM f xs) (\<lambda>ys. ret (y # ys)))"

lemmas monad_defs = ret_def fails_def bindM_def thenM_def gets_def modify_def assertM_def
  ignoreM_def on_failM_def

lemma bindM_ret [simp]: "bindM (ret x) f = f x"
  by (simp add: bindM_def ret_def)

lemma bindM_fails [simp]: "bindM (fails e) f = fails e"
  by (simp add: bindM_def fails_def)

lemma bindM_assoc: "bindM (bindM m f) g = bindM m (\<lambda>x. bindM (f x) g)"
  by (rule ext) (simp add: bindM_def split: sum.splits prod.splits)

lemma bindM_Inr [simp]: "m s = (Inr x, t) \<Longrightarrow> bindM m f s = f x t"
  by (simp add: bindM_def)

lemma bindM_Inl [simp]: "m s = (Inl e, t) \<Longrightarrow> bindM m f s = (Inl e, t)"
  by (simp add: bindM_def)

lemma thenM_Inr [simp]: "m s = (Inr x, t) \<Longrightarrow> thenM m n s = n t"
  by (simp add: thenM_def)

lemma thenM_Inl [simp]: "m s = (Inl e, t) \<Longrightarrow> thenM m n s = (Inl e, t)"
  by (simp add: thenM_def)

text \<open>
  These equations are not simplification rules as they stand: the simplifier would contract them
  to equations between functions and lose the combinators.
\<close>

lemma ret_apply: "ret x s = (Inr x, s)"
  by (simp add: ret_def)

lemma fails_apply: "fails e s = (Inl e, s)"
  by (simp add: fails_def)

lemma ret_eq [simp]: "ret x s = (r, t) \<longleftrightarrow> r = Inr x \<and> t = s"
  by (auto simp: ret_def)

lemma fails_eq [simp]: "fails e s = (r, t) \<longleftrightarrow> r = Inl e \<and> t = s"
  by (auto simp: fails_def)

lemma case_ret [simp]: "(case ret x s of (r, t) \<Rightarrow> f r t) = f (Inr x) s"
  by (simp add: ret_def)

lemma case_fails [simp]: "(case fails e s of (r, t) \<Rightarrow> f r t) = f (Inl e) s"
  by (simp add: fails_def)

lemma gets_apply [simp]: "gets f s = (Inr (f s), s)"
  by (simp add: gets_def)

lemma modify_apply [simp]: "modify f s = (Inr (), f s)"
  by (simp add: modify_def)

lemma assertM_True [simp]: "assertM e True = ret ()"
  by (simp add: assertM_def)

lemma assertM_False [simp]: "assertM e False = fails e"
  by (simp add: assertM_def)

lemma bindM_Inr_E:
  assumes "bindM m f s = (Inr y, u)"
  obtains x t where "m s = (Inr x, t)" and "f x t = (Inr y, u)"
  using assms by (auto simp: bindM_def split: sum.splits prod.splits)

lemma thenM_Inr_E:
  assumes "thenM m n s = (Inr y, u)"
  obtains x t where "m s = (Inr x, t)" and "n t = (Inr y, u)"
  using assms by (auto simp: thenM_def elim: bindM_Inr_E)

lemma assertM_Inr [simp]: "assertM e b s = (Inr x, t) \<longleftrightarrow> b \<and> t = s"
  by (auto simp: assertM_def)

lemma repeatM_all:
  assumes "\<And>s x t. m s = (Inr x, t) \<Longrightarrow> R x" and "repeatM n m s = (Inr xs, t)"
  shows "\<forall>x \<in> set xs. R x"
  using assms(2) by (induction n arbitrary: s xs t) (auto elim!: bindM_Inr_E dest: assms(1))

lemma repeatM_length: "repeatM n m s = (Inr xs, t) \<Longrightarrow> length xs = n"
  by (induction n arbitrary: s xs t) (auto elim!: bindM_Inr_E)

section \<open>Runs from one state\<close>

text \<open>
  \<open>leads m s Q\<close>: run from \<open>s\<close>, the computation does not fault, and ends in \<open>Q\<close> when it returns a
  value (an exception may be stored at any point).
\<close>

definition leads :: "('s, 'a) mon \<Rightarrow> 's \<Rightarrow> ('a \<Rightarrow> 's \<Rightarrow> bool) \<Rightarrow> bool" where
  "leads m s Q \<longleftrightarrow> (case m s of (Inr x, t) \<Rightarrow> Q x t | (Inl e, t) \<Rightarrow> \<not> is_fault e)"

lemma leadsI:
  assumes "\<And>x t. m s = (Inr x, t) \<Longrightarrow> Q x t" and "\<And>f t. m s \<noteq> (Inl (Fault f), t)"
  shows "leads m s Q"
proof (cases "m s")
  case (Pair r t)
  show ?thesis
  proof (cases r)
    case (Inl e)
    with Pair assms(2) show ?thesis by (cases e) (auto simp: leads_def)
  next
    case (Inr x)
    with Pair assms(1) show ?thesis by (simp add: leads_def)
  qed
qed

lemma leadsD_Inr: "leads m s Q \<Longrightarrow> m s = (Inr x, t) \<Longrightarrow> Q x t"
  by (simp add: leads_def)

lemma leadsD_Fault: "leads m s Q \<Longrightarrow> m s = (Inl (Fault f), t) \<Longrightarrow> False"
  by (simp add: leads_def)

lemma leads_weaken: "leads m s R \<Longrightarrow> (\<And>x t. R x t \<Longrightarrow> Q x t) \<Longrightarrow> leads m s Q"
  by (auto simp: leads_def split: prod.splits sum.splits)

lemma leads_bind: "leads m s R \<Longrightarrow> (\<And>x t. R x t \<Longrightarrow> leads (f x) t Q) \<Longrightarrow> leads (bindM m f) s Q"
  by (fastforce simp: leads_def bindM_def split: prod.splits sum.splits)

lemma leads_then: "leads m s (\<lambda>_. R) \<Longrightarrow> (\<And>t. R t \<Longrightarrow> leads n t Q) \<Longrightarrow> leads (thenM m n) s Q"
  unfolding thenM_def by (rule leads_bind)

lemma leads_ret: "Q x s \<Longrightarrow> leads (ret x) s Q"
  by (simp add: leads_def)

lemma leads_fails: "leads (fails (Exn e)) s Q"
  by (simp add: leads_def)

lemma leads_gets: "Q (f s) s \<Longrightarrow> leads (gets f) s Q"
  by (simp add: leads_def)

lemma leads_modify: "Q () (f s) \<Longrightarrow> leads (modify f) s Q"
  by (simp add: leads_def)

lemma leads_assert: "(b \<Longrightarrow> Q () s) \<Longrightarrow> leads (assertM (Exn e) b) s Q"
  by (cases b) (auto simp: leads_def)

lemma leads_if: "(b \<Longrightarrow> leads m s Q) \<Longrightarrow> (\<not> b \<Longrightarrow> leads n s Q) \<Longrightarrow> leads (if b then m else n) s Q"
  by simp

text \<open>
  \<open>runs m s Q E F\<close> also says where the run is when it stores an exception (\<open>E\<close>), and in which
  states it can fault at all (\<open>F\<close>).
\<close>

definition runs ::
  "('s, 'a) mon \<Rightarrow> 's \<Rightarrow> ('a \<Rightarrow> 's \<Rightarrow> bool) \<Rightarrow> ('s \<Rightarrow> bool) \<Rightarrow> ('s \<Rightarrow> bool) \<Rightarrow> bool" where
  "runs m s Q E F \<longleftrightarrow> (case m s of
       (Inr x, t) \<Rightarrow> Q x t | (Inl (Exn e), t) \<Rightarrow> E t | (Inl (Fault f), t) \<Rightarrow> F t)"

lemma runsI:
  assumes "\<And>x t. m s = (Inr x, t) \<Longrightarrow> Q x t" and "\<And>e t. m s = (Inl (Exn e), t) \<Longrightarrow> E t"
    and "\<And>f t. m s = (Inl (Fault f), t) \<Longrightarrow> F t"
  shows "runs m s Q E F"
proof (cases "m s")
  case (Pair r t)
  show ?thesis
  proof (cases r)
    case (Inl e)
    with Pair assms(2,3) show ?thesis by (cases e) (auto simp: runs_def)
  next
    case (Inr x)
    with Pair assms(1) show ?thesis by (simp add: runs_def)
  qed
qed

lemma runsD_Inr: "runs m s Q E F \<Longrightarrow> m s = (Inr x, t) \<Longrightarrow> Q x t"
  by (simp add: runs_def)

lemma runsD_Exn: "runs m s Q E F \<Longrightarrow> m s = (Inl (Exn e), t) \<Longrightarrow> E t"
  by (simp add: runs_def)

lemma runsD_Fault: "runs m s Q E F \<Longrightarrow> m s = (Inl (Fault f), t) \<Longrightarrow> F t"
  by (simp add: runs_def)

lemma runs_weaken:
  "runs m s R D G \<Longrightarrow> (\<And>x t. R x t \<Longrightarrow> Q x t) \<Longrightarrow> (\<And>t. D t \<Longrightarrow> E t) \<Longrightarrow> (\<And>t. G t \<Longrightarrow> F t)
    \<Longrightarrow> runs m s Q E F"
  by (rule runsI) (auto dest: runsD_Inr runsD_Exn runsD_Fault)

lemma runs_bind:
  assumes m: "runs m s R E F" and f: "\<And>x t. R x t \<Longrightarrow> runs (f x) t Q E F"
  shows "runs (bindM m f) s Q E F"
proof (cases "m s")
  case (Pair r t)
  show ?thesis
  proof (cases r)
    case (Inl e)
    with Pair m show ?thesis by (cases e) (auto simp: runs_def)
  next
    case (Inr x)
    with Pair m have "R x t" by (auto dest: runsD_Inr)
    from f [OF this] Pair Inr show ?thesis by (simp add: runs_def)
  qed
qed

lemma runs_then:
  "runs m s (\<lambda>_. R) E F \<Longrightarrow> (\<And>t. R t \<Longrightarrow> runs n t Q E F) \<Longrightarrow> runs (thenM m n) s Q E F"
  unfolding thenM_def by (rule runs_bind)

lemma runs_ret: "Q x s \<Longrightarrow> runs (ret x) s Q E F"
  by (simp add: runs_def)

lemma runs_fails: "E s \<Longrightarrow> runs (fails (Exn e)) s Q E F"
  by (simp add: runs_def)

lemma runs_gets: "Q (f s) s \<Longrightarrow> runs (gets f) s Q E F"
  by (simp add: runs_def)

lemma runs_modify: "Q () (f s) \<Longrightarrow> runs (modify f) s Q E F"
  by (simp add: runs_def)

lemma runs_assert: "(b \<Longrightarrow> Q () s) \<Longrightarrow> (\<not> b \<Longrightarrow> E s) \<Longrightarrow> runs (assertM (Exn e) b) s Q E F"
  by (cases b) (auto simp: runs_def)

lemma runs_if:
  "(b \<Longrightarrow> runs m s Q E F) \<Longrightarrow> (\<not> b \<Longrightarrow> runs n s Q E F) \<Longrightarrow> runs (if b then m else n) s Q E F"
  by simp

section \<open>Lists updated in place\<close>

text \<open>The array store \<open>xs[i] = x\<close>: a fault when the index lies outside the array.\<close>

definition store :: "'a list \<Rightarrow> nat \<Rightarrow> 'a \<Rightarrow> failure + 'a list" where
  "store xs i x = (if i < length xs then Inr (xs[i := x]) else Inl (Fault Out_of_bounds))"

definition load :: "'a list \<Rightarrow> nat \<Rightarrow> failure + 'a" where
  "load xs i = (if i < length xs then Inr (xs ! i) else Inl (Fault Out_of_bounds))"

definition liftM :: "failure + 'a \<Rightarrow> ('s, 'a) mon" where
  "liftM r = (\<lambda>s. (r, s))"

lemma liftM_eq [simp]: "liftM r s = (q, t) \<longleftrightarrow> q = r \<and> t = s"
  by (auto simp: liftM_def)

lemma case_liftM [simp]: "(case liftM r s of (q, t) \<Rightarrow> f q t) = f r s"
  by (simp add: liftM_def)

lemma bindM_liftM_Inr [simp]: "bindM (liftM (Inr x)) f = f x"
  by (simp add: bindM_def liftM_def)

lemma bindM_liftM_Inl [simp]: "bindM (liftM (Inl e)) f = fails e"
  by (simp add: bindM_def liftM_def fails_def)

lemma runs_lift: "r = Inr x \<Longrightarrow> Q x s \<Longrightarrow> runs (liftM r) s Q E F"
  by (simp add: runs_def)

lemma load_in [simp]: "i < length xs \<Longrightarrow> load xs i = Inr (xs ! i)"
  by (simp add: load_def)

lemma store_in [simp]: "i < length xs \<Longrightarrow> store xs i x = Inr (xs[i := x])"
  by (simp add: store_def)

lemma load_Inr_iff: "load xs i = Inr x \<longleftrightarrow> i < length xs \<and> x = xs ! i"
  by (auto simp: load_def)

lemma store_Inr_iff: "store xs i x = Inr ys \<longleftrightarrow> i < length xs \<and> ys = xs[i := x]"
  by (auto simp: store_def)

section \<open>Safe computations\<close>

text \<open>
  The relational form of the logic, for computations that keep an invariant \<open>invar\<close> and only change
  the state along a reflexive and transitive relation \<open>rel\<close> (which fields may change, and how):
  \<open>safe invar rel m Q\<close> says that \<open>m\<close> never faults, and that its value satisfies \<open>Q\<close>.
\<close>

definition safe ::
  "('s \<Rightarrow> bool) \<Rightarrow> ('s \<Rightarrow> 's \<Rightarrow> bool) \<Rightarrow> ('s, 'a) mon \<Rightarrow> ('a \<Rightarrow> bool) \<Rightarrow> bool" where
  "safe invar rel m Q \<longleftrightarrow> (\<forall>s. invar s \<longrightarrow>
     (case m s of
        (Inr x, t) \<Rightarrow> invar t \<and> rel s t \<and> Q x
      | (Inl (Exn e), t) \<Rightarrow> invar t \<and> rel s t
      | (Inl (Fault f), t) \<Rightarrow> False))"

lemma safeI:
  assumes "\<And>s x t. invar s \<Longrightarrow> m s = (Inr x, t) \<Longrightarrow> invar t \<and> rel s t \<and> Q x"
    and "\<And>s e t. invar s \<Longrightarrow> m s = (Inl (Exn e), t) \<Longrightarrow> invar t \<and> rel s t"
    and "\<And>s f t. invar s \<Longrightarrow> m s = (Inl (Fault f), t) \<Longrightarrow> False"
  shows "safe invar rel m Q"
  unfolding safe_def
proof (intro allI impI)
  fix s
  assume s: "invar s"
  obtain r t where m: "m s = (r, t)" by (cases "m s")
  show "case m s of (Inr x, t) \<Rightarrow> invar t \<and> rel s t \<and> Q x
     | (Inl (Exn e), t) \<Rightarrow> invar t \<and> rel s t | (Inl (Fault f), t) \<Rightarrow> False"
  proof (cases r)
    case (Inl e)
    then show ?thesis using assms(2,3) [OF s] m by (cases e) auto
  next
    case (Inr x)
    then show ?thesis using assms(1) [OF s] m by auto
  qed
qed

lemma safeD_Inr: "safe invar rel m Q \<Longrightarrow> invar s \<Longrightarrow> m s = (Inr x, t) \<Longrightarrow> invar t \<and> rel s t \<and> Q x"
  by (fastforce simp: safe_def)

lemma safeD_Exn: "safe invar rel m Q \<Longrightarrow> invar s \<Longrightarrow> m s = (Inl (Exn e), t) \<Longrightarrow> invar t \<and> rel s t"
  by (fastforce simp: safe_def)

lemma safeD_Fault: "safe invar rel m Q \<Longrightarrow> invar s \<Longrightarrow> m s = (Inl (Fault f), t) \<Longrightarrow> False"
  by (fastforce simp: safe_def)

named_theorems safe_intros \<open>rules of the relational logic\<close>

locale safe_steps =
  fixes invar :: "'s \<Rightarrow> bool" and rel :: "'s \<Rightarrow> 's \<Rightarrow> bool"
  assumes rel_refl: "invar s \<Longrightarrow> rel s s"
    and rel_trans: "rel s t \<Longrightarrow> rel t u \<Longrightarrow> rel s u"
begin

lemma safe_ret: "Q x \<Longrightarrow> safe invar rel (ret x) Q"
  by (rule safeI) (auto intro: rel_refl)

lemma safe_fails: "safe invar rel (fails (Exn e)) Q"
  by (rule safeI) (auto intro: rel_refl)

lemma safe_gets: "(\<And>s. invar s \<Longrightarrow> Q (f s)) \<Longrightarrow> safe invar rel (gets f) Q"
  by (rule safeI) (auto intro: rel_refl)

lemma safe_assert: "(b \<Longrightarrow> Q ()) \<Longrightarrow> safe invar rel (assertM (Exn e) b) Q"
  by (cases b) (auto intro: safe_ret safe_fails)

lemma safe_lift: "r = Inr x \<Longrightarrow> Q x \<Longrightarrow> safe invar rel (liftM r) Q"
  by (rule safeI) (auto intro: rel_refl simp: liftM_def)

lemma safe_bind:
  assumes m: "safe invar rel m R" and f: "\<And>x. R x \<Longrightarrow> safe invar rel (f x) Q"
  shows "safe invar rel (bindM m f) Q"
proof -
  have "case bindM m f s of
        (Inr x, t) \<Rightarrow> invar t \<and> rel s t \<and> Q x
      | (Inl (Exn e), t) \<Rightarrow> invar t \<and> rel s t
      | (Inl (Fault g), t) \<Rightarrow> False" if s: "invar s" for s
  proof (cases "m s")
    case (Pair r t)
    show ?thesis
    proof (cases r)
      case (Inl e)
      with Pair s safeD_Exn [OF m s] safeD_Fault [OF m s] show ?thesis
        by (cases e) auto
    next
      case (Inr x)
      with Pair safeD_Inr [OF m s] have t: "invar t" "rel s t" "R x" by auto
      from f [OF t(3)] t(1) have
        "case f x t of (Inr y, u) \<Rightarrow> invar u \<and> rel t u \<and> Q y
         | (Inl (Exn e), u) \<Rightarrow> invar u \<and> rel t u | (Inl (Fault g), u) \<Rightarrow> False"
        by (simp add: safe_def)
      with Pair Inr t(2) show ?thesis
        by (auto split: prod.splits sum.splits failure.splits intro: rel_trans)
    qed
  qed
  then show ?thesis by (simp add: safe_def)
qed

lemma safe_then:
  "safe invar rel m (\<lambda>_. True) \<Longrightarrow> safe invar rel n Q \<Longrightarrow> safe invar rel (thenM m n) Q"
  unfolding thenM_def by (rule safe_bind)

lemma safe_assert_then:
  "(b \<Longrightarrow> safe invar rel n Q) \<Longrightarrow> safe invar rel (thenM (assertM (Exn e) b) n) Q"
  by (cases b) (simp_all add: thenM_def safe_fails)

lemma safe_repeat:
  assumes "safe invar rel m Q"
  shows "safe invar rel (repeatM n m) (list_all Q)"
proof (induction n)
  case 0
  show ?case by (auto intro!: safe_ret)
next
  case (Suc n)
  show ?case
    by (auto intro!: safe_bind [OF assms] safe_bind [OF Suc] safe_ret)
qed

end

lemma runs_safe:
  "safe invar rel m R \<Longrightarrow> invar s \<Longrightarrow>
    runs m s (\<lambda>x t. invar t \<and> rel s t \<and> R x) (\<lambda>t. invar t \<and> rel s t) (\<lambda>t. False)"
  by (rule runsI) (auto dest: safeD_Inr safeD_Exn safeD_Fault)

lemma leads_safe: "safe invar rel m R \<Longrightarrow> invar s \<Longrightarrow> leads m s (\<lambda>x t. invar t \<and> rel s t \<and> R x)"
  by (rule leadsI) (blast dest: safeD_Inr safeD_Fault)+

lemma safe_weaken: "safe invar rel m Q \<Longrightarrow> (\<And>x. Q x \<Longrightarrow> Q' x) \<Longrightarrow> safe invar rel m Q'"
  by (rule safeI) (blast dest: safeD_Inr safeD_Exn safeD_Fault)+

lemma safe_if [safe_intros]:
  "(b \<Longrightarrow> safe invar rel m Q) \<Longrightarrow> (\<not> b \<Longrightarrow> safe invar rel n Q) \<Longrightarrow> safe invar rel (if b then m else n) Q"
  by simp

lemma safe_option [safe_intros]:
  "(r = None \<Longrightarrow> safe invar rel m Q) \<Longrightarrow> (\<And>x. r = Some x \<Longrightarrow> safe invar rel (n x) Q)
    \<Longrightarrow> safe invar rel (case r of None \<Rightarrow> m | Some x \<Rightarrow> n x) Q"
  by (cases r) auto

section \<open>Computations inside a relation\<close>

text \<open>
  \<open>within R m\<close>: whatever the state and however the run ends, the state only changes along \<open>R\<close>.
\<close>

definition within :: "('s \<Rightarrow> 's \<Rightarrow> bool) \<Rightarrow> ('s, 'a) mon \<Rightarrow> bool" where
  "within R m \<longleftrightarrow> (\<forall>s. R s (snd (m s)))"

lemma withinD: "within R m \<Longrightarrow> m s = (r, t) \<Longrightarrow> R s t"
  by (metis within_def snd_conv)

lemma within_modify: "(\<And>s. R s (f s)) \<Longrightarrow> within R (modify f)"
  by (simp add: within_def)

lemma within_weaken: "within R m \<Longrightarrow> (\<And>s t. R s t \<Longrightarrow> R' s t) \<Longrightarrow> within R' m"
  by (simp add: within_def)

locale framed =
  fixes R :: "'s \<Rightarrow> 's \<Rightarrow> bool"
  assumes R_refl: "R s s"
    and R_trans: "R s t \<Longrightarrow> R t u \<Longrightarrow> R s u"
begin

lemma within_bind: "within R m \<Longrightarrow> (\<And>x. within R (f x)) \<Longrightarrow> within R (bindM m f)"
  unfolding within_def bindM_def
  by (simp split: prod.splits sum.splits) (metis R_trans snd_conv)

lemma within_then: "within R m \<Longrightarrow> within R n \<Longrightarrow> within R (thenM m n)"
  unfolding thenM_def by (rule within_bind)

lemma within_none:
  "within R (ret x)" "within R (fails e)" "within R (gets f)" "within R (liftM r)" "within R (assertM e b)"
  by (simp_all add: within_def ret_apply fails_apply liftM_def assertM_def R_refl)

lemma within_if: "(b \<Longrightarrow> within R m) \<Longrightarrow> (\<not> b \<Longrightarrow> within R n) \<Longrightarrow> within R (if b then m else n)"
  by simp

lemma within_option:
  "within R m \<Longrightarrow> (\<And>x. within R (n x)) \<Longrightarrow> within R (case r of None \<Rightarrow> m | Some x \<Rightarrow> n x)"
  by (cases r) auto

lemma within_repeat: "within R m \<Longrightarrow> within R (repeatM n m)"
  by (induction n) (auto intro: within_bind within_none)

lemma within_ignore: "within R m \<Longrightarrow> within R (ignoreM m)"
  unfolding within_def ignoreM_def
  by (auto split: prod.splits sum.splits failure.splits) (metis snd_conv)+

lemma within_on_fail: "within R m \<Longrightarrow> within R c \<Longrightarrow> within R (on_failM m c)"
  unfolding within_def on_failM_def
  by (auto split: prod.splits sum.splits failure.splits) (metis R_trans snd_conv)+

end

section \<open>Bits of machine words\<close>

text \<open>
  A word equation over fixed widths is proved bit by bit: the index is one of finitely many
  numerals and \<open>bit_simps\<close> evaluates both sides there.
\<close>

lemma nat_less_8E:
  assumes "n < (8::nat)"
  shows "n \<in> {0,1,2,3,4,5,6,7}"
  using assms by (simp, presburger)

lemma nat_less_16E:
  assumes "n < (16::nat)"
  shows "n \<in> {0,1,2,3,4,5,6,7,8,9,10,11,12,13,14,15}"
  using assms by (simp, presburger)

lemma nat_less_32E:
  assumes "n < (32::nat)"
  shows "n \<in> {0,1,2,3,4,5,6,7,8,9,10,11,12,13,14,15,16,17,18,19,20,21,22,23,24,25,26,27,28,29,30,31}"
  using assms by (simp, presburger)

lemma bit_word8_eqI:
  fixes a b :: u8
  assumes "\<And>n. n \<in> {0,1,2,3,4,5,6,7} \<Longrightarrow> bit a n = bit b n"
  shows "a = b"
  by (rule bit_word_eqI) (use assms nat_less_8E in auto)

lemma bit_word16_eqI:
  fixes a b :: u16
  assumes "\<And>n. n \<in> {0,1,2,3,4,5,6,7,8,9,10,11,12,13,14,15} \<Longrightarrow> bit a n = bit b n"
  shows "a = b"
proof (rule bit_word_eqI)
  fix n :: nat
  assume "n < LENGTH(16)"
  then have "n < 16" by simp
  from nat_less_16E [OF this] show "bit a n = bit b n" by (rule assms)
qed

lemma bit_word32_eqI:
  fixes a b :: u32
  assumes "\<And>n. n \<in> {0,1,2,3,4,5,6,7,8,9,10,11,12,13,14,15,16,17,18,19,20,21,22,23,24,25,26,27,28,
      29,30,31} \<Longrightarrow> bit a n = bit b n"
  shows "a = b"
proof (rule bit_word_eqI)
  fix n :: nat
  assume "n < LENGTH(32)"
  then have "n < 32" by simp
  from nat_less_32E [OF this] show "bit a n = bit b n" by (rule assms)
qed

lemma bit_small_word:
  fixes w :: "'a::len word"
  assumes "unat w < 2 ^ k" and "bit w n"
  shows "n < k"
proof (rule ccontr)
  assume "\<not> n < k"
  then have "(2::nat) ^ k \<le> 2 ^ n" by simp
  with assms(1) have "unat w < 2 ^ n" by linarith
  then have "\<not> odd (unat w div 2 ^ n)" by simp
  moreover have "bit (unat w) n" using assms(2) by (simp add: bit_unsigned_iff)
  ultimately show False by (simp add: bit_iff_odd)
qed

lemma unat_ucast_up:
  assumes "LENGTH('a::len) \<le> LENGTH('b::len)"
  shows "unat (ucast (w :: 'a word) :: 'b word) = unat w"
proof -
  have "unat w < 2 ^ LENGTH('a)" by (rule unsigned_less)
  also have "\<dots> \<le> 2 ^ LENGTH('b)" using assms by simp
  finally show ?thesis by (simp add: unsigned_ucast_eq take_bit_nat_eq_self)
qed

lemma unat_ucast_16_32 [simp]: "unat (ucast (w :: u16) :: u32) = unat w"
  by (rule unat_ucast_up) simp

lemma unat_ucast_8_16 [simp]: "unat (ucast (w :: u8) :: u16) = unat w"
  by (rule unat_ucast_up) simp

lemma unat_ucast_8_32 [simp]: "unat (ucast (w :: u8) :: u32) = unat w"
  by (rule unat_ucast_up) simp

text \<open>The sign of a \<open>jint\<close>.\<close>

lemma sint_small:
  fixes w :: u32
  assumes "unat w < 2 ^ 31"
  shows "sint w = int (unat w)"
proof -
  have "int (unat w) < int (2 ^ 31)" using assms by (simp only: of_nat_less_iff)
  then have lt: "uint w < 2 ^ 31" by simp
  have "(- (2 ^ 31) :: int) \<le> 0" by simp
  also have "0 \<le> uint w" by simp
  finally have "signed_take_bit 31 (uint w) = uint w"
    using lt by (rule signed_take_bit_int_eq_self)
  then show ?thesis by (simp add: sint_uint)
qed

lemma of_nat_unat_16_32 [simp]: "of_nat (unat (w :: u16)) = (ucast w :: u32)"
  by (simp add: word_unat_eq_iff unat_of_nat take_bit_nat_eq_self
      order_less_trans [OF unsigned_less])

end
