(* ===== verification/Cf_Types.thy ===== *)
theory Cf_Types
  imports Jc_Prelude
begin

text \<open>
  The data of the class file parser: the opcodes, constant pool tags and structures of
  \<open>libjc/cf_parse.h\<close>, the access flags and type indices of \<open>include/jc_defs.h\<close> it uses, and the
  table of bytecode names of \<open>libjc/tables.c\<close>, which the parser consults to reject unknown
  opcodes. A C pointer that may be null is an \<open>option\<close>; a pointer to an array and its length are
  a list and the count, kept apart because the C code fills in the count first.
\<close>

section \<open>Opcodes\<close>

abbreviation JC_aaload :: u8 where "JC_aaload \<equiv> 0x32"
abbreviation JC_aastore :: u8 where "JC_aastore \<equiv> 0x53"
abbreviation JC_aconst_null :: u8 where "JC_aconst_null \<equiv> 0x01"
abbreviation JC_aload :: u8 where "JC_aload \<equiv> 0x19"
abbreviation JC_aload_0 :: u8 where "JC_aload_0 \<equiv> 0x2a"
abbreviation JC_aload_1 :: u8 where "JC_aload_1 \<equiv> 0x2b"
abbreviation JC_aload_2 :: u8 where "JC_aload_2 \<equiv> 0x2c"
abbreviation JC_aload_3 :: u8 where "JC_aload_3 \<equiv> 0x2d"
abbreviation JC_anewarray :: u8 where "JC_anewarray \<equiv> 0xbd"
abbreviation JC_areturn :: u8 where "JC_areturn \<equiv> 0xb0"
abbreviation JC_arraylength :: u8 where "JC_arraylength \<equiv> 0xbe"
abbreviation JC_astore :: u8 where "JC_astore \<equiv> 0x3a"
abbreviation JC_astore_0 :: u8 where "JC_astore_0 \<equiv> 0x4b"
abbreviation JC_astore_1 :: u8 where "JC_astore_1 \<equiv> 0x4c"
abbreviation JC_astore_2 :: u8 where "JC_astore_2 \<equiv> 0x4d"
abbreviation JC_astore_3 :: u8 where "JC_astore_3 \<equiv> 0x4e"
abbreviation JC_athrow :: u8 where "JC_athrow \<equiv> 0xbf"
abbreviation JC_baload :: u8 where "JC_baload \<equiv> 0x33"
abbreviation JC_bastore :: u8 where "JC_bastore \<equiv> 0x54"
abbreviation JC_bipush :: u8 where "JC_bipush \<equiv> 0x10"
abbreviation JC_caload :: u8 where "JC_caload \<equiv> 0x34"
abbreviation JC_castore :: u8 where "JC_castore \<equiv> 0x55"
abbreviation JC_checkcast :: u8 where "JC_checkcast \<equiv> 0xc0"
abbreviation JC_d2f :: u8 where "JC_d2f \<equiv> 0x90"
abbreviation JC_d2i :: u8 where "JC_d2i \<equiv> 0x8e"
abbreviation JC_d2l :: u8 where "JC_d2l \<equiv> 0x8f"
abbreviation JC_dadd :: u8 where "JC_dadd \<equiv> 0x63"
abbreviation JC_daload :: u8 where "JC_daload \<equiv> 0x31"
abbreviation JC_dastore :: u8 where "JC_dastore \<equiv> 0x52"
abbreviation JC_dcmpg :: u8 where "JC_dcmpg \<equiv> 0x98"
abbreviation JC_dcmpl :: u8 where "JC_dcmpl \<equiv> 0x97"
abbreviation JC_dconst_0 :: u8 where "JC_dconst_0 \<equiv> 0x0e"
abbreviation JC_dconst_1 :: u8 where "JC_dconst_1 \<equiv> 0x0f"
abbreviation JC_ddiv :: u8 where "JC_ddiv \<equiv> 0x6f"
abbreviation JC_dload :: u8 where "JC_dload \<equiv> 0x18"
abbreviation JC_dload_0 :: u8 where "JC_dload_0 \<equiv> 0x26"
abbreviation JC_dload_1 :: u8 where "JC_dload_1 \<equiv> 0x27"
abbreviation JC_dload_2 :: u8 where "JC_dload_2 \<equiv> 0x28"
abbreviation JC_dload_3 :: u8 where "JC_dload_3 \<equiv> 0x29"
abbreviation JC_dmul :: u8 where "JC_dmul \<equiv> 0x6b"
abbreviation JC_dneg :: u8 where "JC_dneg \<equiv> 0x77"
abbreviation JC_drem :: u8 where "JC_drem \<equiv> 0x73"
abbreviation JC_dreturn :: u8 where "JC_dreturn \<equiv> 0xaf"
abbreviation JC_dstore :: u8 where "JC_dstore \<equiv> 0x39"
abbreviation JC_dstore_0 :: u8 where "JC_dstore_0 \<equiv> 0x47"
abbreviation JC_dstore_1 :: u8 where "JC_dstore_1 \<equiv> 0x48"
abbreviation JC_dstore_2 :: u8 where "JC_dstore_2 \<equiv> 0x49"
abbreviation JC_dstore_3 :: u8 where "JC_dstore_3 \<equiv> 0x4a"
abbreviation JC_dsub :: u8 where "JC_dsub \<equiv> 0x67"
abbreviation JC_dup :: u8 where "JC_dup \<equiv> 0x59"
abbreviation JC_dup_x1 :: u8 where "JC_dup_x1 \<equiv> 0x5a"
abbreviation JC_dup_x2 :: u8 where "JC_dup_x2 \<equiv> 0x5b"
abbreviation JC_dup2 :: u8 where "JC_dup2 \<equiv> 0x5c"
abbreviation JC_dup2_x1 :: u8 where "JC_dup2_x1 \<equiv> 0x5d"
abbreviation JC_dup2_x2 :: u8 where "JC_dup2_x2 \<equiv> 0x5e"
abbreviation JC_f2d :: u8 where "JC_f2d \<equiv> 0x8d"
abbreviation JC_f2i :: u8 where "JC_f2i \<equiv> 0x8b"
abbreviation JC_f2l :: u8 where "JC_f2l \<equiv> 0x8c"
abbreviation JC_fadd :: u8 where "JC_fadd \<equiv> 0x62"
abbreviation JC_faload :: u8 where "JC_faload \<equiv> 0x30"
abbreviation JC_fastore :: u8 where "JC_fastore \<equiv> 0x51"
abbreviation JC_fcmpg :: u8 where "JC_fcmpg \<equiv> 0x96"
abbreviation JC_fcmpl :: u8 where "JC_fcmpl \<equiv> 0x95"
abbreviation JC_fconst_0 :: u8 where "JC_fconst_0 \<equiv> 0x0b"
abbreviation JC_fconst_1 :: u8 where "JC_fconst_1 \<equiv> 0x0c"
abbreviation JC_fconst_2 :: u8 where "JC_fconst_2 \<equiv> 0x0d"
abbreviation JC_fdiv :: u8 where "JC_fdiv \<equiv> 0x6e"
abbreviation JC_fload :: u8 where "JC_fload \<equiv> 0x17"
abbreviation JC_fload_0 :: u8 where "JC_fload_0 \<equiv> 0x22"
abbreviation JC_fload_1 :: u8 where "JC_fload_1 \<equiv> 0x23"
abbreviation JC_fload_2 :: u8 where "JC_fload_2 \<equiv> 0x24"
abbreviation JC_fload_3 :: u8 where "JC_fload_3 \<equiv> 0x25"
abbreviation JC_fmul :: u8 where "JC_fmul \<equiv> 0x6a"
abbreviation JC_fneg :: u8 where "JC_fneg \<equiv> 0x76"
abbreviation JC_frem :: u8 where "JC_frem \<equiv> 0x72"
abbreviation JC_freturn :: u8 where "JC_freturn \<equiv> 0xae"
abbreviation JC_fstore :: u8 where "JC_fstore \<equiv> 0x38"
abbreviation JC_fstore_0 :: u8 where "JC_fstore_0 \<equiv> 0x43"
abbreviation JC_fstore_1 :: u8 where "JC_fstore_1 \<equiv> 0x44"
abbreviation JC_fstore_2 :: u8 where "JC_fstore_2 \<equiv> 0x45"
abbreviation JC_fstore_3 :: u8 where "JC_fstore_3 \<equiv> 0x46"
abbreviation JC_fsub :: u8 where "JC_fsub \<equiv> 0x66"
abbreviation JC_getfield :: u8 where "JC_getfield \<equiv> 0xb4"
abbreviation JC_getstatic :: u8 where "JC_getstatic \<equiv> 0xb2"
abbreviation JC_goto :: u8 where "JC_goto \<equiv> 0xa7"
abbreviation JC_goto_w :: u8 where "JC_goto_w \<equiv> 0xc8"
abbreviation JC_i2b :: u8 where "JC_i2b \<equiv> 0x91"
abbreviation JC_i2c :: u8 where "JC_i2c \<equiv> 0x92"
abbreviation JC_i2d :: u8 where "JC_i2d \<equiv> 0x87"
abbreviation JC_i2f :: u8 where "JC_i2f \<equiv> 0x86"
abbreviation JC_i2l :: u8 where "JC_i2l \<equiv> 0x85"
abbreviation JC_i2s :: u8 where "JC_i2s \<equiv> 0x93"
abbreviation JC_iadd :: u8 where "JC_iadd \<equiv> 0x60"
abbreviation JC_iaload :: u8 where "JC_iaload \<equiv> 0x2e"
abbreviation JC_iand :: u8 where "JC_iand \<equiv> 0x7e"
abbreviation JC_iastore :: u8 where "JC_iastore \<equiv> 0x4f"
abbreviation JC_iconst_m1 :: u8 where "JC_iconst_m1 \<equiv> 0x02"
abbreviation JC_iconst_0 :: u8 where "JC_iconst_0 \<equiv> 0x03"
abbreviation JC_iconst_1 :: u8 where "JC_iconst_1 \<equiv> 0x04"
abbreviation JC_iconst_2 :: u8 where "JC_iconst_2 \<equiv> 0x05"
abbreviation JC_iconst_3 :: u8 where "JC_iconst_3 \<equiv> 0x06"
abbreviation JC_iconst_4 :: u8 where "JC_iconst_4 \<equiv> 0x07"
abbreviation JC_iconst_5 :: u8 where "JC_iconst_5 \<equiv> 0x08"
abbreviation JC_idiv :: u8 where "JC_idiv \<equiv> 0x6c"
abbreviation JC_if_acmpeq :: u8 where "JC_if_acmpeq \<equiv> 0xa5"
abbreviation JC_if_acmpne :: u8 where "JC_if_acmpne \<equiv> 0xa6"
abbreviation JC_if_icmpeq :: u8 where "JC_if_icmpeq \<equiv> 0x9f"
abbreviation JC_if_icmpne :: u8 where "JC_if_icmpne \<equiv> 0xa0"
abbreviation JC_if_icmplt :: u8 where "JC_if_icmplt \<equiv> 0xa1"
abbreviation JC_if_icmpge :: u8 where "JC_if_icmpge \<equiv> 0xa2"
abbreviation JC_if_icmpgt :: u8 where "JC_if_icmpgt \<equiv> 0xa3"
abbreviation JC_if_icmple :: u8 where "JC_if_icmple \<equiv> 0xa4"
abbreviation JC_ifeq :: u8 where "JC_ifeq \<equiv> 0x99"
abbreviation JC_ifne :: u8 where "JC_ifne \<equiv> 0x9a"
abbreviation JC_iflt :: u8 where "JC_iflt \<equiv> 0x9b"
abbreviation JC_ifge :: u8 where "JC_ifge \<equiv> 0x9c"
abbreviation JC_ifgt :: u8 where "JC_ifgt \<equiv> 0x9d"
abbreviation JC_ifle :: u8 where "JC_ifle \<equiv> 0x9e"
abbreviation JC_ifnonnull :: u8 where "JC_ifnonnull \<equiv> 0xc7"
abbreviation JC_ifnull :: u8 where "JC_ifnull \<equiv> 0xc6"
abbreviation JC_iinc :: u8 where "JC_iinc \<equiv> 0x84"
abbreviation JC_iload :: u8 where "JC_iload \<equiv> 0x15"
abbreviation JC_iload_0 :: u8 where "JC_iload_0 \<equiv> 0x1a"
abbreviation JC_iload_1 :: u8 where "JC_iload_1 \<equiv> 0x1b"
abbreviation JC_iload_2 :: u8 where "JC_iload_2 \<equiv> 0x1c"
abbreviation JC_iload_3 :: u8 where "JC_iload_3 \<equiv> 0x1d"
abbreviation JC_imul :: u8 where "JC_imul \<equiv> 0x68"
abbreviation JC_ineg :: u8 where "JC_ineg \<equiv> 0x74"
abbreviation JC_instanceof :: u8 where "JC_instanceof \<equiv> 0xc1"
abbreviation JC_invokeinterface :: u8 where "JC_invokeinterface \<equiv> 0xb9"
abbreviation JC_invokespecial :: u8 where "JC_invokespecial \<equiv> 0xb7"
abbreviation JC_invokestatic :: u8 where "JC_invokestatic \<equiv> 0xb8"
abbreviation JC_invokevirtual :: u8 where "JC_invokevirtual \<equiv> 0xb6"
abbreviation JC_ior :: u8 where "JC_ior \<equiv> 0x80"
abbreviation JC_irem :: u8 where "JC_irem \<equiv> 0x70"
abbreviation JC_ireturn :: u8 where "JC_ireturn \<equiv> 0xac"
abbreviation JC_ishl :: u8 where "JC_ishl \<equiv> 0x78"
abbreviation JC_ishr :: u8 where "JC_ishr \<equiv> 0x7a"
abbreviation JC_istore :: u8 where "JC_istore \<equiv> 0x36"
abbreviation JC_istore_0 :: u8 where "JC_istore_0 \<equiv> 0x3b"
abbreviation JC_istore_1 :: u8 where "JC_istore_1 \<equiv> 0x3c"
abbreviation JC_istore_2 :: u8 where "JC_istore_2 \<equiv> 0x3d"
abbreviation JC_istore_3 :: u8 where "JC_istore_3 \<equiv> 0x3e"
abbreviation JC_isub :: u8 where "JC_isub \<equiv> 0x64"
abbreviation JC_iushr :: u8 where "JC_iushr \<equiv> 0x7c"
abbreviation JC_ixor :: u8 where "JC_ixor \<equiv> 0x82"
abbreviation JC_jsr :: u8 where "JC_jsr \<equiv> 0xa8"
abbreviation JC_jsr_w :: u8 where "JC_jsr_w \<equiv> 0xc9"
abbreviation JC_l2d :: u8 where "JC_l2d \<equiv> 0x8a"
abbreviation JC_l2f :: u8 where "JC_l2f \<equiv> 0x89"
abbreviation JC_l2i :: u8 where "JC_l2i \<equiv> 0x88"
abbreviation JC_ladd :: u8 where "JC_ladd \<equiv> 0x61"
abbreviation JC_laload :: u8 where "JC_laload \<equiv> 0x2f"
abbreviation JC_land :: u8 where "JC_land \<equiv> 0x7f"
abbreviation JC_lastore :: u8 where "JC_lastore \<equiv> 0x50"
abbreviation JC_lcmp :: u8 where "JC_lcmp \<equiv> 0x94"
abbreviation JC_lconst_0 :: u8 where "JC_lconst_0 \<equiv> 0x09"
abbreviation JC_lconst_1 :: u8 where "JC_lconst_1 \<equiv> 0x0a"
abbreviation JC_ldc :: u8 where "JC_ldc \<equiv> 0x12"
abbreviation JC_ldc_w :: u8 where "JC_ldc_w \<equiv> 0x13"
abbreviation JC_ldc2_w :: u8 where "JC_ldc2_w \<equiv> 0x14"
abbreviation JC_ldiv :: u8 where "JC_ldiv \<equiv> 0x6d"
abbreviation JC_lload :: u8 where "JC_lload \<equiv> 0x16"
abbreviation JC_lload_0 :: u8 where "JC_lload_0 \<equiv> 0x1e"
abbreviation JC_lload_1 :: u8 where "JC_lload_1 \<equiv> 0x1f"
abbreviation JC_lload_2 :: u8 where "JC_lload_2 \<equiv> 0x20"
abbreviation JC_lload_3 :: u8 where "JC_lload_3 \<equiv> 0x21"
abbreviation JC_lmul :: u8 where "JC_lmul \<equiv> 0x69"
abbreviation JC_lneg :: u8 where "JC_lneg \<equiv> 0x75"
abbreviation JC_lookupswitch :: u8 where "JC_lookupswitch \<equiv> 0xab"
abbreviation JC_lor :: u8 where "JC_lor \<equiv> 0x81"
abbreviation JC_lrem :: u8 where "JC_lrem \<equiv> 0x71"
abbreviation JC_lreturn :: u8 where "JC_lreturn \<equiv> 0xad"
abbreviation JC_lshl :: u8 where "JC_lshl \<equiv> 0x79"
abbreviation JC_lshr :: u8 where "JC_lshr \<equiv> 0x7b"
abbreviation JC_lstore :: u8 where "JC_lstore \<equiv> 0x37"
abbreviation JC_lstore_0 :: u8 where "JC_lstore_0 \<equiv> 0x3f"
abbreviation JC_lstore_1 :: u8 where "JC_lstore_1 \<equiv> 0x40"
abbreviation JC_lstore_2 :: u8 where "JC_lstore_2 \<equiv> 0x41"
abbreviation JC_lstore_3 :: u8 where "JC_lstore_3 \<equiv> 0x42"
abbreviation JC_lsub :: u8 where "JC_lsub \<equiv> 0x65"
abbreviation JC_lushr :: u8 where "JC_lushr \<equiv> 0x7d"
abbreviation JC_lxor :: u8 where "JC_lxor \<equiv> 0x83"
abbreviation JC_monitorenter :: u8 where "JC_monitorenter \<equiv> 0xc2"
abbreviation JC_monitorexit :: u8 where "JC_monitorexit \<equiv> 0xc3"
abbreviation JC_multianewarray :: u8 where "JC_multianewarray \<equiv> 0xc5"
abbreviation JC_new :: u8 where "JC_new \<equiv> 0xbb"
abbreviation JC_newarray :: u8 where "JC_newarray \<equiv> 0xbc"
abbreviation JC_nop :: u8 where "JC_nop \<equiv> 0x00"
abbreviation JC_pop :: u8 where "JC_pop \<equiv> 0x57"
abbreviation JC_pop2 :: u8 where "JC_pop2 \<equiv> 0x58"
abbreviation JC_putfield :: u8 where "JC_putfield \<equiv> 0xb5"
abbreviation JC_putstatic :: u8 where "JC_putstatic \<equiv> 0xb3"
abbreviation JC_ret :: u8 where "JC_ret \<equiv> 0xa9"
abbreviation JC_return :: u8 where "JC_return \<equiv> 0xb1"
abbreviation JC_saload :: u8 where "JC_saload \<equiv> 0x35"
abbreviation JC_sastore :: u8 where "JC_sastore \<equiv> 0x56"
abbreviation JC_sipush :: u8 where "JC_sipush \<equiv> 0x11"
abbreviation JC_swap :: u8 where "JC_swap \<equiv> 0x5f"
abbreviation JC_tableswitch :: u8 where "JC_tableswitch \<equiv> 0xaa"
abbreviation JC_wide :: u8 where "JC_wide \<equiv> 0xc4"

text \<open>The pseudo-bytecode of \<open>definitions.h\<close> the resolver puts in place of \<open>ldc\<close> of a string.\<close>

abbreviation JC_ldc_string :: u8 where "JC_ldc_string \<equiv> 0xe0"

text \<open>
  \<open>_jc_bytecode_names\<close>, in the order of its initialisers (the table is in two parts here). An
  opcode without an entry has a null name.
\<close>

definition bytecode_names_a_i :: "(u8 \<times> string) list" where
  "bytecode_names_a_i = [
     (JC_aaload, ''aaload''),
     (JC_aastore, ''aastore''),
     (JC_aconst_null, ''aconst_null''),
     (JC_aload, ''aload''),
     (JC_aload_0, ''aload_0''),
     (JC_aload_1, ''aload_1''),
     (JC_aload_2, ''aload_2''),
     (JC_aload_3, ''aload_3''),
     (JC_anewarray, ''anewarray''),
     (JC_areturn, ''areturn''),
     (JC_arraylength, ''arraylength''),
     (JC_astore, ''astore''),
     (JC_astore_0, ''astore_0''),
     (JC_astore_1, ''astore_1''),
     (JC_astore_2, ''astore_2''),
     (JC_astore_3, ''astore_3''),
     (JC_athrow, ''athrow''),
     (JC_baload, ''baload''),
     (JC_bastore, ''bastore''),
     (JC_bipush, ''bipush''),
     (JC_caload, ''caload''),
     (JC_castore, ''castore''),
     (JC_checkcast, ''checkcast''),
     (JC_d2f, ''d2f''),
     (JC_d2i, ''d2i''),
     (JC_d2l, ''d2l''),
     (JC_dadd, ''dadd''),
     (JC_daload, ''daload''),
     (JC_dastore, ''dastore''),
     (JC_dcmpg, ''dcmpg''),
     (JC_dcmpl, ''dcmpl''),
     (JC_dconst_0, ''dconst_0''),
     (JC_dconst_1, ''dconst_1''),
     (JC_ddiv, ''ddiv''),
     (JC_dload, ''dload''),
     (JC_dload_0, ''dload_0''),
     (JC_dload_1, ''dload_1''),
     (JC_dload_2, ''dload_2''),
     (JC_dload_3, ''dload_3''),
     (JC_dmul, ''dmul''),
     (JC_dneg, ''dneg''),
     (JC_drem, ''drem''),
     (JC_dreturn, ''dreturn''),
     (JC_dstore, ''dstore''),
     (JC_dstore_0, ''dstore_0''),
     (JC_dstore_1, ''dstore_1''),
     (JC_dstore_2, ''dstore_2''),
     (JC_dstore_3, ''dstore_3''),
     (JC_dsub, ''dsub''),
     (JC_dup, ''dup''),
     (JC_dup_x1, ''dup_x1''),
     (JC_dup_x2, ''dup_x2''),
     (JC_dup2, ''dup2''),
     (JC_dup2_x1, ''dup2_x1''),
     (JC_dup2_x2, ''dup2_x2''),
     (JC_f2d, ''f2d''),
     (JC_f2i, ''f2i''),
     (JC_f2l, ''f2l''),
     (JC_fadd, ''fadd''),
     (JC_faload, ''faload''),
     (JC_fastore, ''fastore''),
     (JC_fcmpg, ''fcmpg''),
     (JC_fcmpl, ''fcmpl''),
     (JC_fconst_0, ''fconst_0''),
     (JC_fconst_1, ''fconst_1''),
     (JC_fconst_2, ''fconst_2''),
     (JC_fdiv, ''fdiv''),
     (JC_fload, ''fload''),
     (JC_fload_0, ''fload_0''),
     (JC_fload_1, ''fload_1''),
     (JC_fload_2, ''fload_2''),
     (JC_fload_3, ''fload_3''),
     (JC_fmul, ''fmul''),
     (JC_fneg, ''fneg''),
     (JC_frem, ''frem''),
     (JC_freturn, ''freturn''),
     (JC_fstore, ''fstore''),
     (JC_fstore_0, ''fstore_0''),
     (JC_fstore_1, ''fstore_1''),
     (JC_fstore_2, ''fstore_2''),
     (JC_fstore_3, ''fstore_3''),
     (JC_fsub, ''fsub''),
     (JC_getfield, ''getfield''),
     (JC_getstatic, ''getstatic''),
     (JC_goto, ''goto''),
     (JC_goto_w, ''goto_w''),
     (JC_i2b, ''i2b''),
     (JC_i2c, ''i2c''),
     (JC_i2d, ''i2d''),
     (JC_i2f, ''i2f''),
     (JC_i2l, ''i2l''),
     (JC_i2s, ''i2s''),
     (JC_iadd, ''iadd''),
     (JC_iaload, ''iaload''),
     (JC_iand, ''iand''),
     (JC_iastore, ''iastore''),
     (JC_iconst_m1, ''iconst_m1''),
     (JC_iconst_0, ''iconst_0''),
     (JC_iconst_1, ''iconst_1''),
     (JC_iconst_2, ''iconst_2''),
     (JC_iconst_3, ''iconst_3''),
     (JC_iconst_4, ''iconst_4'')]"

definition bytecode_names_i_w :: "(u8 \<times> string) list" where
  "bytecode_names_i_w = [
     (JC_iconst_5, ''iconst_5''),
     (JC_idiv, ''idiv''),
     (JC_if_acmpeq, ''if_acmpeq''),
     (JC_if_acmpne, ''if_acmpne''),
     (JC_if_icmpeq, ''if_icmpeq''),
     (JC_if_icmpne, ''if_icmpne''),
     (JC_if_icmplt, ''if_icmplt''),
     (JC_if_icmpge, ''if_icmpge''),
     (JC_if_icmpgt, ''if_icmpgt''),
     (JC_if_icmple, ''if_icmple''),
     (JC_ifeq, ''ifeq''),
     (JC_ifne, ''ifne''),
     (JC_iflt, ''iflt''),
     (JC_ifge, ''ifge''),
     (JC_ifgt, ''ifgt''),
     (JC_ifle, ''ifle''),
     (JC_ifnonnull, ''ifnonnull''),
     (JC_ifnull, ''ifnull''),
     (JC_iinc, ''iinc''),
     (JC_iload, ''iload''),
     (JC_iload_0, ''iload_0''),
     (JC_iload_1, ''iload_1''),
     (JC_iload_2, ''iload_2''),
     (JC_iload_3, ''iload_3''),
     (JC_imul, ''imul''),
     (JC_ineg, ''ineg''),
     (JC_instanceof, ''instanceof''),
     (JC_invokeinterface, ''invokeinterface''),
     (JC_invokespecial, ''invokespecial''),
     (JC_invokestatic, ''invokestatic''),
     (JC_invokevirtual, ''invokevirtual''),
     (JC_ior, ''ior''),
     (JC_irem, ''irem''),
     (JC_ireturn, ''ireturn''),
     (JC_ishl, ''ishl''),
     (JC_ishr, ''ishr''),
     (JC_istore, ''istore''),
     (JC_istore_0, ''istore_0''),
     (JC_istore_1, ''istore_1''),
     (JC_istore_2, ''istore_2''),
     (JC_istore_3, ''istore_3''),
     (JC_isub, ''isub''),
     (JC_iushr, ''iushr''),
     (JC_ixor, ''ixor''),
     (JC_jsr, ''jsr''),
     (JC_jsr_w, ''jsr_w''),
     (JC_l2d, ''l2d''),
     (JC_l2f, ''l2f''),
     (JC_l2i, ''l2i''),
     (JC_ladd, ''ladd''),
     (JC_laload, ''laload''),
     (JC_land, ''land''),
     (JC_lastore, ''lastore''),
     (JC_lcmp, ''lcmp''),
     (JC_lconst_0, ''lconst_0''),
     (JC_lconst_1, ''lconst_1''),
     (JC_ldc, ''ldc''),
     (JC_ldc_w, ''ldc_w''),
     (JC_ldc_string, ''ldc_string''),
     (JC_ldc2_w, ''ldc2_w''),
     (JC_ldiv, ''ldiv''),
     (JC_lload, ''lload''),
     (JC_lload_0, ''lload_0''),
     (JC_lload_1, ''lload_1''),
     (JC_lload_2, ''lload_2''),
     (JC_lload_3, ''lload_3''),
     (JC_lmul, ''lmul''),
     (JC_lneg, ''lneg''),
     (JC_lookupswitch, ''lookupswitch''),
     (JC_lor, ''lor''),
     (JC_lrem, ''lrem''),
     (JC_lreturn, ''lreturn''),
     (JC_lshl, ''lshl''),
     (JC_lshr, ''lshr''),
     (JC_lstore, ''lstore''),
     (JC_lstore_0, ''lstore_0''),
     (JC_lstore_1, ''lstore_1''),
     (JC_lstore_2, ''lstore_2''),
     (JC_lstore_3, ''lstore_3''),
     (JC_lsub, ''lsub''),
     (JC_lushr, ''lushr''),
     (JC_lxor, ''lxor''),
     (JC_monitorenter, ''monitorenter''),
     (JC_monitorexit, ''monitorexit''),
     (JC_multianewarray, ''multianewarray''),
     (JC_new, ''new''),
     (JC_newarray, ''newarray''),
     (JC_nop, ''nop''),
     (JC_pop, ''pop''),
     (JC_pop2, ''pop2''),
     (JC_putfield, ''putfield''),
     (JC_putstatic, ''putstatic''),
     (JC_ret, ''ret''),
     (JC_return, ''return''),
     (JC_saload, ''saload''),
     (JC_sastore, ''sastore''),
     (JC_sipush, ''sipush''),
     (JC_swap, ''swap''),
     (JC_tableswitch, ''tableswitch''),
     (JC_wide, ''wide'')]"

definition bytecode_name :: "u8 \<Rightarrow> string option" where
  "bytecode_name op = map_of (bytecode_names_a_i @ bytecode_names_i_w) op"

section \<open>Tags, flags and type indices\<close>

abbreviation CONSTANT_Utf8 :: u8 where "CONSTANT_Utf8 \<equiv> 1"
abbreviation CONSTANT_Integer :: u8 where "CONSTANT_Integer \<equiv> 3"
abbreviation CONSTANT_Float :: u8 where "CONSTANT_Float \<equiv> 4"
abbreviation CONSTANT_Long :: u8 where "CONSTANT_Long \<equiv> 5"
abbreviation CONSTANT_Double :: u8 where "CONSTANT_Double \<equiv> 6"
abbreviation CONSTANT_Class :: u8 where "CONSTANT_Class \<equiv> 7"
abbreviation CONSTANT_String :: u8 where "CONSTANT_String \<equiv> 8"
abbreviation CONSTANT_Fieldref :: u8 where "CONSTANT_Fieldref \<equiv> 9"
abbreviation CONSTANT_Methodref :: u8 where "CONSTANT_Methodref \<equiv> 10"
abbreviation CONSTANT_InterfaceMethodref :: u8 where "CONSTANT_InterfaceMethodref \<equiv> 11"
abbreviation CONSTANT_NameAndType :: u8 where "CONSTANT_NameAndType \<equiv> 12"

abbreviation ACC_PUBLIC :: u16 where "ACC_PUBLIC \<equiv> 0x0001"
abbreviation ACC_PRIVATE :: u16 where "ACC_PRIVATE \<equiv> 0x0002"
abbreviation ACC_PROTECTED :: u16 where "ACC_PROTECTED \<equiv> 0x0004"
abbreviation ACC_STATIC :: u16 where "ACC_STATIC \<equiv> 0x0008"
abbreviation ACC_FINAL :: u16 where "ACC_FINAL \<equiv> 0x0010"
abbreviation ACC_SUPER :: u16 where "ACC_SUPER \<equiv> 0x0020"
abbreviation ACC_SYNCHRONIZED :: u16 where "ACC_SYNCHRONIZED \<equiv> 0x0020"
abbreviation ACC_VOLATILE :: u16 where "ACC_VOLATILE \<equiv> 0x0040"
abbreviation ACC_NATIVE :: u16 where "ACC_NATIVE \<equiv> 0x0100"
abbreviation ACC_INTERFACE :: u16 where "ACC_INTERFACE \<equiv> 0x0200"
abbreviation ACC_ABSTRACT :: u16 where "ACC_ABSTRACT \<equiv> 0x0400"
abbreviation ACC_STRICT :: u16 where "ACC_STRICT \<equiv> 0x0800"

text \<open>\<open>_JC_ACC_TEST\<close>, on the flags themselves.\<close>

definition acc_test :: "u16 \<Rightarrow> u16 \<Rightarrow> bool" where
  "acc_test flags flag \<longleftrightarrow> flags AND flag \<noteq> 0"

abbreviation JC_TYPE_BOOLEAN :: u8 where "JC_TYPE_BOOLEAN \<equiv> 1"
abbreviation JC_TYPE_BYTE :: u8 where "JC_TYPE_BYTE \<equiv> 2"
abbreviation JC_TYPE_CHAR :: u8 where "JC_TYPE_CHAR \<equiv> 3"
abbreviation JC_TYPE_SHORT :: u8 where "JC_TYPE_SHORT \<equiv> 4"
abbreviation JC_TYPE_INT :: u8 where "JC_TYPE_INT \<equiv> 5"
abbreviation JC_TYPE_LONG :: u8 where "JC_TYPE_LONG \<equiv> 6"
abbreviation JC_TYPE_FLOAT :: u8 where "JC_TYPE_FLOAT \<equiv> 7"
abbreviation JC_TYPE_DOUBLE :: u8 where "JC_TYPE_DOUBLE \<equiv> 8"
abbreviation JC_TYPE_VOID :: u8 where "JC_TYPE_VOID \<equiv> 9"
abbreviation JC_TYPE_REFERENCE :: u8 where "JC_TYPE_REFERENCE \<equiv> 10"

text \<open>The element type codes of \<open>newarray\<close>.\<close>

abbreviation T_boolean :: u8 where "T_boolean \<equiv> 4"
abbreviation T_char :: u8 where "T_char \<equiv> 5"
abbreviation T_float :: u8 where "T_float \<equiv> 6"
abbreviation T_double :: u8 where "T_double \<equiv> 7"
abbreviation T_byte :: u8 where "T_byte \<equiv> 8"
abbreviation T_short :: u8 where "T_short \<equiv> 9"
abbreviation T_int :: u8 where "T_int \<equiv> 10"
abbreviation T_long :: u8 where "T_long \<equiv> 11"

text \<open>\<open>_jc_sig_types\<close>: the type a signature letter stands for, 0 for any other byte.\<close>

definition sig_type :: "u8 \<Rightarrow> u8" where
  "sig_type c =
    (if c = of_char (CHR ''Z'') then JC_TYPE_BOOLEAN
     else if c = of_char (CHR ''B'') then JC_TYPE_BYTE
     else if c = of_char (CHR ''C'') then JC_TYPE_CHAR
     else if c = of_char (CHR ''S'') then JC_TYPE_SHORT
     else if c = of_char (CHR ''I'') then JC_TYPE_INT
     else if c = of_char (CHR ''J'') then JC_TYPE_LONG
     else if c = of_char (CHR ''F'') then JC_TYPE_FLOAT
     else if c = of_char (CHR ''D'') then JC_TYPE_DOUBLE
     else if c = of_char (CHR ''V'') then JC_TYPE_VOID
     else if c = of_char (CHR ''L'') then JC_TYPE_REFERENCE
     else if c = of_char (CHR ''['') then JC_TYPE_REFERENCE
     else 0)"

text \<open>\<open>_jc_field_type_sort\<close>; entries without an initialiser are 0.\<close>

definition field_type_sort :: "u8 \<Rightarrow> int" where
  "field_type_sort t =
    (if t = JC_TYPE_BOOLEAN then 4
     else if t = JC_TYPE_BYTE then 4
     else if t = JC_TYPE_CHAR then 3
     else if t = JC_TYPE_SHORT then 3
     else if t = JC_TYPE_INT then 2
     else if t = JC_TYPE_FLOAT then 2
     else if t = JC_TYPE_LONG then 1
     else if t = JC_TYPE_DOUBLE then 1
     else 0)"

section \<open>Structures\<close>

record cf_ref =
  ref_class :: cstr
  ref_name :: cstr
  ref_descriptor :: cstr

text \<open>
  The union of a constant: \<open>Uninit\<close> is the zeroed union of a constant not parsed yet. Floats are
  kept as the bit patterns the class file holds.
\<close>

datatype cf_value =
    Uninit
  | Class_val cstr
  | Ref_val cf_ref
  | NameAndType_val cstr cstr
  | String_val cstr
  | Integer_val u32
  | Long_val u64
  | Float_val u32
  | Double_val u64
  | Utf8_val cstr

record cf_constant =
  const_type :: u8
  const_val :: cf_value

definition zero_constant :: cf_constant where
  "zero_constant = \<lparr>const_type = 0, const_val = Uninit\<rparr>"

record cf_lookup =
  lk_match :: u32
  lk_target :: u32

record cf_lookupswitch =
  lsw_default :: u32
  lsw_pairs :: "cf_lookup list"

record cf_tableswitch =
  tsw_default :: u32
  tsw_low :: u32
  tsw_high :: u32
  tsw_targets :: "u32 list"

text \<open>The extra information of an instruction; \<open>No_info\<close> is the zeroed union.\<close>

datatype insn_info =
    No_info
  | Fieldref_info cf_ref
  | Iinc_info u16 u16
  | Invoke_info cf_ref
  | Multianewarray_info cstr u8
  | Newarray_info u8
  | Lookupswitch_info cf_lookupswitch
  | Tableswitch_info cf_tableswitch
  | Branch_info u32
  | Local_info u16
  | Immediate_info u32
  | Type_info cstr
  | Constant_info cf_constant

record cf_insn =
  opcode :: u8
  info :: insn_info

record cf_linenum =
  ln_offset :: u16
  ln_line :: u16

record cf_linemap =
  lm_index :: u32
  lm_line :: u16

record cf_trap =
  trap_start :: u32
  trap_end :: u32
  trap_target :: u32
  trap_type :: "cstr option"

record cf_code =
  max_stack :: u16
  max_locals :: u16
  num_traps :: u16
  num_linemaps :: u16
  num_insns :: u32
  insns :: "cf_insn list"
  traps :: "cf_trap list"
  linemaps :: "cf_linemap list"

record cf_inner_class =
  ic_inner :: "cstr option"
  ic_outer :: "cstr option"
  ic_name :: "cstr option"
  ic_flags :: u16

datatype attr_info =
    No_attr
  | ConstantValue_attr cf_constant
  | SourceFile_attr cstr
  | Exceptions_attr "cstr list"
  | InnerClasses_attr "cf_inner_class list"
  | Code_attr "u8 list"
  | LineNumberTable_attr "cf_linenum list"

record cf_attr =
  attr_name :: "cstr option"
  attr_length :: u32
  attr_info :: attr_info

definition zero_attr :: cf_attr where
  "zero_attr = \<lparr>attr_name = None, attr_length = 0, attr_info = No_attr\<rparr>"

record cf_field =
  f_flags :: u16
  f_name :: cstr
  f_descriptor :: cstr
  f_num_attributes :: u16
  f_attributes :: "cf_attr list"
  f_initial_value :: "cf_constant option"

definition zero_field :: cf_field where
  "zero_field = \<lparr>f_flags = 0, f_name = [], f_descriptor = [], f_num_attributes = 0,
     f_attributes = [], f_initial_value = None\<rparr>"

record cf_method =
  m_flags :: u16
  m_name :: cstr
  m_descriptor :: cstr
  m_num_attributes :: u16
  m_attributes :: "cf_attr list"
  m_exceptions :: "cstr list option"
  m_code :: "u8 list option"

definition zero_method :: cf_method where
  "zero_method = \<lparr>m_flags = 0, m_name = [], m_descriptor = [], m_num_attributes = 0,
     m_attributes = [], m_exceptions = None, m_code = None\<rparr>"

text \<open>
  The class file. An array pointer is \<open>None\<close> until the array has been allocated, while its count
  is already set.
\<close>

record classfile =
  minor_version :: u16
  major_version :: u16
  access_flags :: u16
  num_constants :: u16
  constants :: "cf_constant list"
  cf_name :: cstr
  superclass :: "cstr option"
  interfaces :: "cstr list"
  num_fields :: u16
  cf_fields :: "cf_field list option"
  num_methods :: u16
  cf_methods :: "cf_method list option"
  num_attributes :: u16
  cf_attributes :: "cf_attr list option"
  inner_classes :: "cf_inner_class list option"
  source_file :: "cstr option"

definition zero_classfile :: classfile where
  "zero_classfile = \<lparr>minor_version = 0, major_version = 0, access_flags = 0, num_constants = 0,
     constants = [], cf_name = [], superclass = None, interfaces = [], num_fields = 0,
     cf_fields = None, num_methods = 0, cf_methods = None, num_attributes = 0, cf_attributes = None,
     inner_classes = None, source_file = None\<rparr>"

text \<open>
  The parse state: the buffer the \<open>bytes\<close> pointer points into, at offset \<open>ps_base\<close> of it, the number
  of bytes that belong to the structure being parsed, the position, the class file under
  construction, and the attribute the current call of \<open>_jc_parse_attribute\<close> fills in. Memory comes
  from \<open>malloc\<close>: \<open>ps_memok k n\<close> says whether the \<open>k\<close>-th allocation, of \<open>n\<close> bytes, succeeds.
\<close>

record parse_state =
  ps_buf :: "u8 list"
  ps_base :: nat
  ps_length :: u32
  ps_pos :: u32
  ps_cfile :: classfile
  ps_attr :: cf_attr
  ps_nalloc :: nat
  ps_memok :: "nat \<Rightarrow> u32 \<Rightarrow> bool"

type_synonym 'a parser = "(parse_state, 'a) mon"

end
