(* ===== verification/Utf.thy ===== *)
theory Utf
  imports Jc_Prelude
begin

text \<open>
  The modified UTF-8 coder of \<open>libjc/utf.c\<close>. A Java character is 16 bits wide; the encoding has
  one, two or three bytes per character and never contains a zero byte, so that encoded strings
  can be NUL-terminated. The C functions have a dry-run mode (\<open>buf == NULL\<close>) that only counts; here
  the number they return is the length of what they would write.
\<close>

text \<open>
  \<open>_jc_utf_decode\<close>: the characters written to the buffer, \<open>None\<close> for the return value -1. The
  position \<open>i\<close> of the loop is the number of bytes already consumed.
\<close>

fun utf_decode :: "u8 list \<Rightarrow> u16 list option" where
  "utf_decode [] = Some []"
| "utf_decode (b # bs) =
    (if b AND 0x80 = 0 then
       (if b = 0 then None
        else map_option (\<lambda>cs. ucast b # cs) (utf_decode bs))
     else if b AND 0xe0 = 0xc0 then
       (case bs of
          [] \<Rightarrow> None
        | b1 # bs1 \<Rightarrow>
            if b1 AND 0xc0 \<noteq> 0x80 then None
            else map_option
              (\<lambda>cs. (push_bit 6 (ucast (b AND 0x1f)) OR ucast (b1 AND 0x3f)) # cs)
              (utf_decode bs1))
     else if b AND 0xf0 = 0xe0 then
       (case bs of
          b1 # b2 # bs2 \<Rightarrow>
            if b1 AND 0xc0 \<noteq> 0x80 then None
            else if b2 AND 0xc0 \<noteq> 0x80 then None
            else map_option
              (\<lambda>cs. (push_bit 12 (ucast (b AND 0x0f))
                      OR push_bit 6 (ucast (b1 AND 0x3f)) OR ucast (b2 AND 0x3f)) # cs)
              (utf_decode bs2)
        | _ \<Rightarrow> None)
     else None)"

definition utf_decode_len :: "u8 list \<Rightarrow> int" where
  "utf_decode_len bs = (case utf_decode bs of None \<Rightarrow> -1 | Some cs \<Rightarrow> int (length cs))"

text \<open>The bytes \<open>_jc_utf_encode\<close> writes for one character, and for the whole array.\<close>

definition utf_encode_char :: "u16 \<Rightarrow> u8 list" where
  "utf_encode_char ch =
    (if 0x01 \<le> ch \<and> ch \<le> 0x7f then [ucast ch]
     else if ch AND 0xf800 = 0 then
       [0xc0 OR (ucast (drop_bit 6 ch) AND 0x1f), 0x80 OR (ucast ch AND 0x3f)]
     else
       [0xe0 OR (ucast (drop_bit 12 ch) AND 0x0f), 0x80 OR (ucast (drop_bit 6 ch) AND 0x3f),
        0x80 OR (ucast ch AND 0x3f)])"

fun utf_encode :: "u16 list \<Rightarrow> u8 list" where
  "utf_encode [] = []"
| "utf_encode (ch # chs) = utf_encode_char ch @ utf_encode chs"

section \<open>The coder is a bijection onto its image\<close>

lemma utf_small:
  fixes ch :: u16
  assumes "0x01 \<le> ch" "ch \<le> 0x7f" 
  shows "(ucast ch :: u8) AND 0x80 = 0" "ucast (ucast ch :: u8) = ch" "(ucast ch :: u8) \<noteq> 0"
proof -
  have "unat ch < 2 ^ 7" using assms(2) by (simp add: word_le_nat_alt)
  then have hi: "\<And>n. bit ch n \<Longrightarrow> n < 7" by (rule bit_small_word)
  show "(ucast ch :: u8) AND 0x80 = 0"
    by (rule bit_word8_eqI) (auto simp: bit_simps dest: hi)
  show eq: "ucast (ucast ch :: u8) = ch"
    by (rule bit_word16_eqI) (auto simp: bit_simps dest: hi)
  show "(ucast ch :: u8) \<noteq> 0"
  proof
    assume "(ucast ch :: u8) = 0"
    with eq have "ch = 0" by (metis unsigned_0)
    with assms(1) show False by simp
  qed
qed

lemma utf_two:
  fixes ch :: u16
  assumes "ch AND 0xf800 = 0"
  shows "push_bit 6 (ucast ((0xc0 OR (ucast (drop_bit 6 ch) AND 0x1f)) AND 0x1f :: u8))
      OR ucast ((0x80 OR (ucast ch AND 0x3f)) AND 0x3f :: u8) = ch"
proof (rule bit_word16_eqI)
  fix n :: nat
  assume n: "n \<in> {0,1,2,3,4,5,6,7,8,9,10,11,12,13,14,15}"
  have "\<not> bit (ch AND 0xf800) n" using assms by simp
  with n show "bit (push_bit 6 (ucast ((0xc0 OR (ucast (drop_bit 6 ch) AND 0x1f)) AND 0x1f :: u8))
      OR ucast ((0x80 OR (ucast ch AND 0x3f)) AND 0x3f :: u8) :: u16) n \<longleftrightarrow> bit ch n"
    by (elim insertE emptyE; simp add: bit_simps)
qed

lemma utf_three:
  fixes ch :: u16
  shows "push_bit 12 (ucast ((0xe0 OR (ucast (drop_bit 12 ch) AND 0x0f)) AND 0x0f :: u8))
      OR push_bit 6 (ucast ((0x80 OR (ucast (drop_bit 6 ch) AND 0x3f)) AND 0x3f :: u8))
      OR ucast ((0x80 OR (ucast ch AND 0x3f)) AND 0x3f :: u8) = ch"
  by (rule bit_word16_eqI, elim insertE emptyE; simp add: bit_simps)

lemma utf_lead:
  fixes x :: u8
  shows "(0xc0 OR (x AND 0x1f)) AND 0x80 \<noteq> 0" "(0xc0 OR (x AND 0x1f)) AND 0xe0 = 0xc0"
    "(0xe0 OR (x AND 0x0f)) AND 0x80 \<noteq> 0" "(0xe0 OR (x AND 0x0f)) AND 0xe0 = 0xe0"
    "(0xe0 OR (x AND 0x0f)) AND 0xf0 = 0xe0" "(0x80 OR (x AND 0x3f)) AND 0xc0 = 0x80"
proof -
  have "bit ((0xc0 OR (x AND 0x1f)) AND 0x80) 7" "bit ((0xe0 OR (x AND 0x0f)) AND 0x80) 7"
    by (simp_all add: bit_simps)
  then show "(0xc0 OR (x AND 0x1f)) AND 0x80 \<noteq> 0" "(0xe0 OR (x AND 0x0f)) AND 0x80 \<noteq> 0"
    by auto
  show "(0xc0 OR (x AND 0x1f)) AND 0xe0 = 0xc0" "(0xe0 OR (x AND 0x0f)) AND 0xe0 = 0xe0"
    "(0xe0 OR (x AND 0x0f)) AND 0xf0 = 0xe0" "(0x80 OR (x AND 0x3f)) AND 0xc0 = 0x80"
    by (rule bit_word8_eqI, elim insertE emptyE; simp add: bit_simps)+
qed

text \<open>
  C8: Decoding what \<open>_jc_utf_encode\<close> writes gives back the characters, for every array of 16 bit
  characters, the NUL character (two bytes), surrogates and \<open>0xffff\<close> included.
\<close>

theorem utf_decode_encode: "utf_decode (utf_encode chs) = Some chs"
proof (induction chs)
  case Nil
  show ?case by simp
next
  case (Cons ch chs)
  then show ?case
    by (auto simp: utf_encode_char_def utf_small utf_lead utf_two utf_three not_le)
qed

lemma utf_encode_char_no_nul: "0 \<notin> set (utf_encode_char ch)"
proof -
  have "\<not> bit (0 :: u8) 7" by simp
  moreover have "bit (0xc0 OR (x AND 0x1f) :: u8) 7" "bit (0xe0 OR (x AND 0x0f) :: u8) 7"
    "bit (0x80 OR (x AND 0x3f) :: u8) 7" for x
    by (simp_all add: bit_simps)
  ultimately have "0xc0 OR (x AND 0x1f) \<noteq> (0 :: u8)" "0xe0 OR (x AND 0x0f) \<noteq> (0 :: u8)"
    "0x80 OR (x AND 0x3f) \<noteq> (0 :: u8)" for x
    by metis+
  then show ?thesis
    by (auto simp: utf_encode_char_def utf_small(3) dest: sym)
qed

lemma utf_encode_no_nul: "0 \<notin> set (utf_encode chs)"
  by (induction chs) (simp_all add: utf_encode_char_no_nul)

lemma utf_encode_length:
  "length chs \<le> length (utf_encode chs) \<and> length (utf_encode chs) \<le> 3 * length chs"
  by (induction chs) (auto simp: utf_encode_char_def)

lemma utf_decode_no_nul:
  "utf_decode bs = Some cs \<Longrightarrow> 0 \<notin> set bs"
proof (induction bs arbitrary: cs rule: utf_decode.induct)
  case 1
  show ?case by simp
next
  case (2 b bs)
  then show ?case
    by (auto split: if_splits list.splits)
qed

lemma utf_decode_len_bounds:
  "utf_decode bs = Some cs \<Longrightarrow> length cs \<le> length bs \<and> length bs \<le> 3 * length cs"
proof (induction bs arbitrary: cs rule: utf_decode.induct)
  case 1
  then show ?case by simp
next
  case (2 b bs)
  then show ?case
    by (fastforce split: if_splits list.splits)
qed

text \<open>
  The encoder never writes a zero byte and at most three bytes per character, and the decoder
  refuses every byte array that holds a zero byte; a decoded string is never longer than its
  encoding. So the strings of a class file can be NUL-terminated without changing them, and a
  buffer of three bytes per character is always large enough.
\<close>

theorem utf_nul_free_and_bounded:
  "0 \<notin> set (utf_encode chs) \<and> length (utf_encode chs) \<le> 3 * length chs \<and>
   (0 \<in> set bs \<longrightarrow> utf_decode_len bs = -1) \<and>
   utf_decode_len bs \<le> int (length bs)"
proof (intro conjI impI)
  show "utf_decode_len bs = -1" if "0 \<in> set bs"
    using that utf_decode_no_nul [of bs]
    by (cases "utf_decode bs") (auto simp: utf_decode_len_def)
  show "utf_decode_len bs \<le> int (length bs)"
    using utf_decode_len_bounds [of bs] by (auto simp: utf_decode_len_def split: option.splits)
qed (simp_all add: utf_encode_no_nul utf_encode_length)

theorem utf_nul_free_and_bounded_witness:
  "0 \<in> set [0x41, 0 :: u8] \<and> utf_decode_len [0x41, 0] = -1"
  using utf_nul_free_and_bounded [of "[]" "[0x41, 0]"] by simp

end
