(* ===== verification/Cf_Reader.thy ===== *)
theory Cf_Reader
  imports Cf_Types Utf
begin

text \<open>
  The primitive readers at the end of \<open>libjc/cf_parse.c\<close>: single bytes, big-endian integers,
  floats, UTF-8 strings, constant pool references, and the sub-state used for an attribute. Every
  multi-byte reader is built on \<open>_jc_parse_uint8\<close>; what they rely on is stated by the locale
  \<open>byte_source\<close>, interpreted below on the parse state.
\<close>

section \<open>Memory and positions\<close>

text \<open>\<open>_jc_vm_alloc\<close> and \<open>_jc_vm_zalloc\<close>, of \<open>n\<close> bytes.\<close>

definition vm_alloc :: "u32 \<Rightarrow> unit parser" where
  "vm_alloc n = (\<lambda>s.
     (if ps_memok s (ps_nalloc s) n then (Inr (), s\<lparr>ps_nalloc := Suc (ps_nalloc s)\<rparr>)
      else (Inl (Exn OutOfMemoryError), s\<lparr>ps_nalloc := Suc (ps_nalloc s)\<rparr>)))"

text \<open>The expression \<open>s->bytes[s->pos]\<close>: no check of the length, a fault outside the buffer.\<close>

definition byte_at_pos :: "u8 parser" where
  "byte_at_pos = (\<lambda>s. (load (ps_buf s) (ps_base s + unat (ps_pos s)), s))"

definition set_pos :: "u32 \<Rightarrow> unit parser" where
  "set_pos p = modify (\<lambda>s. s\<lparr>ps_pos := p\<rparr>)"

definition advance :: "u32 \<Rightarrow> unit parser" where
  "advance n = modify (\<lambda>s. s\<lparr>ps_pos := ps_pos s + n\<rparr>)"

section \<open>Integers\<close>

definition parse_uint8 :: "u8 parser" where
  "parse_uint8 = (\<lambda>s.
     if ps_length s \<le> ps_pos s then (Inl (Exn ClassFormatError), s)
     else (case load (ps_buf s) (ps_base s + unat (ps_pos s)) of
             Inl e \<Rightarrow> (Inl e, s)
           | Inr b \<Rightarrow> (Inr b, s\<lparr>ps_pos := ps_pos s + 1\<rparr>)))"

text \<open>The loop of the integer readers: \<open>value = (value << 8) | byte\<close>, \<open>n\<close> times.\<close>

fun parse_be :: "('s, u8) mon \<Rightarrow> nat \<Rightarrow> 'w::len word \<Rightarrow> ('s, 'w word) mon" where
  "parse_be get8 0 value = ret value"
| "parse_be get8 (Suc n) value =
     bindM get8 (\<lambda>byte. parse_be get8 n (push_bit 8 value OR ucast byte))"

definition parse_uint16 :: "u16 parser" where
  "parse_uint16 = parse_be parse_uint8 2 0"

definition parse_uint32 :: "u32 parser" where
  "parse_uint32 = parse_be parse_uint8 4 0"

definition parse_integer :: "u32 parser" where
  "parse_integer = parse_uint32"

definition parse_long :: "u64 parser" where
  "parse_long = parse_be parse_uint8 8 0"

text \<open>
  \<open>_jc_parse_float\<close> and \<open>_jc_parse_double\<close> read the bytes and let \<open>_JC_FCONST\<close>, \<open>_JC_DCONST\<close> put
  them together, most significant first: the bit pattern of the value.
\<close>

fun be_word :: "u8 list \<Rightarrow> 'w::len word \<Rightarrow> 'w word" where
  "be_word [] value = value"
| "be_word (b # bs) value = be_word bs (push_bit 8 value OR ucast b)"

definition parse_float :: "u32 parser" where
  "parse_float = bindM (repeatM 4 parse_uint8) (\<lambda>b. ret (be_word b 0))"

definition parse_double :: "u64 parser" where
  "parse_double = bindM (repeatM 8 parse_uint8) (\<lambda>b. ret (be_word b 0))"

section \<open>Strings\<close>

text \<open>
  \<open>_jc_parse_utf8\<close>: the bytes of the string. \<open>_jc_utf_decode\<close> reads them all unless it meets an
  invalid one; a string that does not lie inside the buffer is a fault either way.
\<close>

definition read_bytes :: "nat \<Rightarrow> u8 list parser" where
  "read_bytes n = (\<lambda>s.
     let from = ps_base s + unat (ps_pos s)
     in if from + n \<le> length (ps_buf s) then (Inr (take n (drop from (ps_buf s))), s)
        else (Inl (Fault Out_of_bounds), s))"

definition parse_utf8_body :: "u16 \<Rightarrow> u8 list parser" where
  "parse_utf8_body len = (\<lambda>s.
     if ps_length s < ps_pos s + ucast len then (Inl (Exn ClassFormatError), s)
     else (case read_bytes (unat len) s of
         (Inl e, t) \<Rightarrow> (Inl e, t)
       | (Inr utf, t) \<Rightarrow>
           if utf_decode utf = None then (Inl (Exn ClassFormatError), t)
           else (Inr utf, t\<lparr>ps_pos := ps_pos t + ucast len\<rparr>)))"

definition parse_utf8 :: "u8 list parser" where
  "parse_utf8 = bindM parse_uint16 parse_utf8_body"

section \<open>Constant pool references\<close>

text \<open>A set of constant types, \<open>1 << type\<close> or-ed together in the C code, is a list of tags.\<close>

definition parse_cpool_index :: "u8 list \<Rightarrow> u16 \<Rightarrow> cf_constant parser" where
  "parse_cpool_index types cp_index =
     bindM (gets ps_cfile) (\<lambda>cfile.
       if cp_index < 1 \<or> num_constants cfile \<le> cp_index then fails (Exn ClassFormatError)
       else bindM (liftM (load (constants cfile) (unat cp_index - 1))) (\<lambda>c.
         if types \<noteq> [] \<and> const_type c \<notin> set types then fails (Exn ClassFormatError)
         else ret c))"

definition parse_cpool_index8 :: "u8 list \<Rightarrow> bool \<Rightarrow> cf_constant option parser" where
  "parse_cpool_index8 types optional =
     bindM parse_uint8 (\<lambda>cp_index.
       if cp_index = 0 \<and> optional then ret None
       else bindM (parse_cpool_index types (ucast cp_index)) (\<lambda>c. ret (Some c)))"

definition parse_cpool_index16 :: "u8 list \<Rightarrow> bool \<Rightarrow> cf_constant option parser" where
  "parse_cpool_index16 types optional =
     bindM parse_uint16 (\<lambda>cp_index.
       if cp_index = 0 \<and> optional then ret None
       else bindM (parse_cpool_index types cp_index) (\<lambda>c. ret (Some c)))"

text \<open>
  Reading a member of the union of a constant: a fault when another member was stored, and when
  the constant pointer is null.
\<close>

fun union_Utf8 :: "cf_value \<Rightarrow> failure + cstr" where
  "union_Utf8 (Utf8_val u) = Inr u"
| "union_Utf8 _ = Inl (Fault Wrong_union_member)"

fun union_Class :: "cf_value \<Rightarrow> failure + cstr" where
  "union_Class (Class_val u) = Inr u"
| "union_Class _ = Inl (Fault Wrong_union_member)"

fun union_Ref :: "cf_value \<Rightarrow> failure + cf_ref" where
  "union_Ref (Ref_val r) = Inr r"
| "union_Ref _ = Inl (Fault Wrong_union_member)"

fun union_NameAndType :: "cf_value \<Rightarrow> failure + cstr \<times> cstr" where
  "union_NameAndType (NameAndType_val n d) = Inr (n, d)"
| "union_NameAndType _ = Inl (Fault Wrong_union_member)"

fun non_null :: "'a option \<Rightarrow> failure + 'a" where
  "non_null (Some x) = Inr x"
| "non_null None = Inl (Fault Null_dereference)"

definition parse_class :: "bool \<Rightarrow> cstr option parser" where
  "parse_class optional =
     bindM (parse_cpool_index16 [CONSTANT_Class] optional) (\<lambda>cp.
       case cp of None \<Rightarrow> ret None
       | Some c \<Rightarrow> bindM (liftM (union_Class (const_val c))) (\<lambda>u. ret (Some u)))"

definition parse_string :: "bool \<Rightarrow> cstr option parser" where
  "parse_string optional =
     bindM (parse_cpool_index16 [CONSTANT_Utf8] optional) (\<lambda>cp.
       case cp of None \<Rightarrow> ret None
       | Some c \<Rightarrow> bindM (liftM (union_Utf8 (const_val c))) (\<lambda>u. ret (Some u)))"

text \<open>The same with \<open>optional\<close> false, where the result is dereferenced without a check.\<close>

definition parse_class1 :: "cstr parser" where
  "parse_class1 = bindM (parse_class False) (\<lambda>r. liftM (non_null r))"

definition parse_string1 :: "cstr parser" where
  "parse_string1 = bindM (parse_string False) (\<lambda>r. liftM (non_null r))"

definition parse_ref :: "u8 \<Rightarrow> cf_ref parser" where
  "parse_ref type =
     bindM (parse_cpool_index16 [type] False) (\<lambda>cp.
     bindM (liftM (non_null cp)) (\<lambda>c.
     liftM (union_Ref (const_val c))))"

definition parse_fieldref :: "cf_ref parser" where
  "parse_fieldref = parse_ref CONSTANT_Fieldref"

definition parse_methodref :: "cf_ref parser" where
  "parse_methodref = parse_ref CONSTANT_Methodref"

definition parse_interfacemethodref :: "cf_ref parser" where
  "parse_interfacemethodref = parse_ref CONSTANT_InterfaceMethodref"

definition parse_local8 :: "u16 \<Rightarrow> u16 parser" where
  "parse_local8 mlocals =
     bindM parse_uint8 (\<lambda>index.
       if mlocals \<le> ucast index then fails (Exn ClassFormatError) else ret (ucast index))"

definition parse_local16 :: "u16 \<Rightarrow> u16 parser" where
  "parse_local16 mlocals =
     bindM parse_uint16 (\<lambda>index.
       if mlocals \<le> index then fails (Exn ClassFormatError) else ret index)"

section \<open>Sub-states\<close>

text \<open>
  \<open>_jc_sub_state\<close>, and the position of the outer state moved behind the sub-structure: the inner
  state has its own \<open>bytes\<close>, \<open>length\<close> and \<open>pos\<close>, and shares the class file. The assertion of
  \<open>_jc_sub_state\<close> is the check its caller has just made.
\<close>

definition with_sub_state :: "u32 \<Rightarrow> 'a parser \<Rightarrow> 'a parser" where
  "with_sub_state len m = (\<lambda>s.
     (case m (s\<lparr>ps_base := ps_base s + unat (ps_pos s), ps_length := len, ps_pos := 0\<rparr>) of
        (r, t) \<Rightarrow>
          (r, t\<lparr>ps_base := ps_base s, ps_length := ps_length s, ps_pos := ps_pos s + len\<rparr>)))"

section \<open>The interface of the byte reader\<close>

text \<open>
  What the multi-byte readers rely on: a state holds the bytes that are left; a read takes the
  first of them, and stores a ClassFormatError when there is none.
\<close>

locale byte_source =
  fixes get8 :: "('s, u8) mon"
    and rest :: "'s \<Rightarrow> u8 list"
    and invar :: "'s \<Rightarrow> bool"
  assumes get8_Cons:
      "invar s \<Longrightarrow> rest s = b # bs \<Longrightarrow> \<exists>t. get8 s = (Inr b, t) \<and> rest t = bs \<and> invar t"
    and get8_Nil:
      "invar s \<Longrightarrow> rest s = [] \<Longrightarrow> get8 s = (Inl (Exn ClassFormatError), s)"
begin

lemma be_read:
  "invar s \<Longrightarrow> n \<le> length (rest s) \<Longrightarrow>
    \<exists>t. parse_be get8 n w s = (Inr (be_word (take n (rest s)) w), t)
        \<and> rest t = drop n (rest s) \<and> invar t"
proof (induction n arbitrary: s w)
  case 0
  then show ?case by simp
next
  case (Suc n)
  then obtain b bs where r: "rest s = b # bs" by (cases "rest s") auto
  from get8_Cons [OF Suc.prems(1) r] obtain t where
    t: "get8 s = (Inr b, t)" "rest t = bs" "invar t" by blast
  with Suc.prems r Suc.IH [of t "push_bit 8 w OR ucast b"] show ?case by auto
qed

lemma be_truncated:
  "invar s \<Longrightarrow> length (rest s) < n \<Longrightarrow>
    \<exists>t. parse_be get8 n w s = (Inl (Exn ClassFormatError), t) \<and> rest t = [] \<and> invar t"
proof (induction n arbitrary: s w)
  case 0
  then show ?case by simp
next
  case (Suc n)
  show ?case
  proof (cases "rest s")
    case Nil
    with get8_Nil [OF Suc.prems(1)] Suc.prems show ?thesis by simp
  next
    case (Cons b bs)
    from get8_Cons [OF Suc.prems(1) Cons] obtain t where
      t: "get8 s = (Inr b, t)" "rest t = bs" "invar t" by blast
    with Suc.prems Cons Suc.IH [of t "push_bit 8 w OR ucast b"] show ?thesis by auto
  qed
qed

lemma bytes_read:
  "invar s \<Longrightarrow> n \<le> length (rest s) \<Longrightarrow>
    \<exists>t. repeatM n get8 s = (Inr (take n (rest s)), t) \<and> rest t = drop n (rest s) \<and> invar t"
proof (induction n arbitrary: s)
  case 0
  then show ?case by simp
next
  case (Suc n)
  then obtain b bs where r: "rest s = b # bs" by (cases "rest s") auto
  from get8_Cons [OF Suc.prems(1) r] obtain t where
    t: "get8 s = (Inr b, t)" "rest t = bs" "invar t" by blast
  with Suc.prems r Suc.IH [of t] show ?case by auto
qed

lemma be_never_faults: "invar s \<Longrightarrow> parse_be get8 n w s \<noteq> (Inl (Fault f), t)"
  using be_read [of s n w] be_truncated [of s n w] by (cases "n \<le> length (rest s)") auto

end

section \<open>The parse state as a byte source\<close>

text \<open>
  A well-formed parse state: the position is inside the structure, the structure inside the
  buffer, and the buffer no larger than an object can be on a 32 bit host.
\<close>

definition ps_ok :: "parse_state \<Rightarrow> bool" where
  "ps_ok s \<longleftrightarrow> ps_pos s \<le> ps_length s \<and> ps_base s + unat (ps_length s) \<le> length (ps_buf s)
     \<and> length (ps_buf s) < 2 ^ 31"

definition ps_rest :: "parse_state \<Rightarrow> u8 list" where
  "ps_rest s = take (unat (ps_length s) - unat (ps_pos s))
                 (drop (ps_base s + unat (ps_pos s)) (ps_buf s))"

definition ps_like :: "parse_state \<Rightarrow> parse_state \<Rightarrow> bool" where
  "ps_like s t \<longleftrightarrow> ps_pos s \<le> ps_pos t \<and>
     t = s\<lparr>ps_pos := ps_pos t, ps_nalloc := ps_nalloc t\<rparr>"

lemma ps_like_refl: "ps_like s s"
  by (simp add: ps_like_def)

lemma ps_like_trans: "ps_like s t \<Longrightarrow> ps_like t u \<Longrightarrow> ps_like s u"
  unfolding ps_like_def
  by (metis (no_types, lifting) order_trans parse_state.surjective parse_state.update_convs(4,7))

lemma ps_ok_pos: "ps_ok s \<Longrightarrow> unat (ps_pos s) \<le> unat (ps_length s)"
  by (simp add: ps_ok_def word_le_nat_alt)

lemma length_ps_rest: "ps_ok s \<Longrightarrow> length (ps_rest s) = unat (ps_length s) - unat (ps_pos s)"
  using ps_ok_pos [of s] by (simp add: ps_ok_def ps_rest_def) linarith

lemma unat_pos_plus:
  assumes "ps_ok s" and "unat (ps_pos s) + n \<le> unat (ps_length s)"
  shows "unat (ps_pos s + of_nat n) = unat (ps_pos s) + n"
proof -
  have b: "unat (ps_length s) < 2 ^ 32" using unsigned_less [of "ps_length s"] by simp
  with assms(2) have n: "n < 2 ^ 32" and pn: "unat (ps_pos s) + n < 2 ^ 32" by linarith+
  from n have "unat (of_nat n :: u32) = n" by (simp add: unat_of_nat take_bit_nat_eq_self)
  with pn show ?thesis by (simp add: unat_plus_simple unat_word_ariths)
qed

lemma parse_uint8_some:
  assumes ok: "ps_ok s" and r: "ps_rest s = b # bs"
  shows "parse_uint8 s = (Inr b, s\<lparr>ps_pos := ps_pos s + 1\<rparr>)
    \<and> ps_ok (s\<lparr>ps_pos := ps_pos s + 1\<rparr>) \<and> ps_rest (s\<lparr>ps_pos := ps_pos s + 1\<rparr>) = bs
    \<and> unat (ps_pos s + 1) = Suc (unat (ps_pos s))"
proof -
  from length_ps_rest [OF ok] r have lt: "unat (ps_pos s) < unat (ps_length s)" by simp
  have p1: "unat (ps_pos s + 1) = Suc (unat (ps_pos s))"
    using unat_pos_plus [OF ok, of 1] lt by simp
  have inb: "ps_base s + unat (ps_pos s) < length (ps_buf s)"
    using ok lt by (simp add: ps_ok_def)
  from inb have d: "drop (ps_base s + unat (ps_pos s)) (ps_buf s)
      = ps_buf s ! (ps_base s + unat (ps_pos s))
        # drop (Suc (ps_base s + unat (ps_pos s))) (ps_buf s)"
    by (simp add: Cons_nth_drop_Suc)
  have "unat (ps_length s) - unat (ps_pos s) = Suc (unat (ps_length s) - Suc (unat (ps_pos s)))"
    using lt by simp
  with r d have b: "b = ps_buf s ! (ps_base s + unat (ps_pos s))"
    and bs: "bs = take (unat (ps_length s) - Suc (unat (ps_pos s)))
        (drop (Suc (ps_base s + unat (ps_pos s))) (ps_buf s))"
    by (simp_all add: ps_rest_def)
  show ?thesis
    using ok lt inb p1
    by (auto simp: parse_uint8_def ps_ok_def ps_rest_def b bs word_le_nat_alt)
qed

lemma parse_uint8_none:
  assumes "ps_ok s" and "ps_rest s = []"
  shows "parse_uint8 s = (Inl (Exn ClassFormatError), s)"
proof -
  from assms length_ps_rest [OF assms(1)] ps_ok_pos [OF assms(1)]
  have "unat (ps_length s) = unat (ps_pos s)" by simp
  then show ?thesis by (simp add: parse_uint8_def word_le_nat_alt)
qed

text \<open>
  The reader of the code is a byte source over the states that differ from a given one in the
  position only.
\<close>

interpretation ps: byte_source parse_uint8 ps_rest
  "\<lambda>s. ps_ok s \<and> s\<lparr>ps_pos := 0\<rparr> = s0\<lparr>ps_pos := 0\<rparr>" for s0
proof unfold_locales
  fix s b bs
  assume s: "ps_ok s \<and> s\<lparr>ps_pos := 0\<rparr> = s0\<lparr>ps_pos := 0\<rparr>" and r: "ps_rest s = b # bs"
  from s parse_uint8_some [OF _ r]
  show "\<exists>t. parse_uint8 s = (Inr b, t) \<and> ps_rest t = bs
      \<and> ps_ok t \<and> t\<lparr>ps_pos := 0\<rparr> = s0\<lparr>ps_pos := 0\<rparr>"
    by auto
next
  fix s
  assume "ps_ok s \<and> s\<lparr>ps_pos := 0\<rparr> = s0\<lparr>ps_pos := 0\<rparr>" and "ps_rest s = []"
  then show "parse_uint8 s = (Inl (Exn ClassFormatError), s)"
    by (simp add: parse_uint8_none)
qed

lemma ps_eq_pos:
  assumes "t\<lparr>ps_pos := 0\<rparr> = s\<lparr>ps_pos := 0\<rparr>"
  shows "t = s\<lparr>ps_pos := ps_pos t\<rparr>"
  using assms by (metis (no_types, lifting) parse_state.surjective parse_state.update_convs(4))

lemma ps_same_but_pos:
  assumes t: "ps_ok t" "t\<lparr>ps_pos := 0\<rparr> = s\<lparr>ps_pos := 0\<rparr>" and s: "ps_ok s"
    and len: "length (ps_rest t) + n = length (ps_rest s)"
  shows "t = s\<lparr>ps_pos := ps_pos s + of_nat n\<rparr>"
proof -
  from ps_eq_pos [OF t(2)] have te: "t = s\<lparr>ps_pos := ps_pos t\<rparr>" .
  then have tl: "ps_length t = ps_length s"
    by (metis parse_state.select_convs(3) parse_state.surjective parse_state.update_convs(4))
  from len s t(1) tl ps_ok_pos [OF s] ps_ok_pos [OF t(1)]
  have e: "unat (ps_pos t) = unat (ps_pos s) + n" "unat (ps_pos s) + n \<le> unat (ps_length s)"
    by (auto simp: length_ps_rest)
  from unat_pos_plus [OF s e(2)] e(1) have "ps_pos t = ps_pos s + of_nat n"
    by (metis word_unat_eq_iff)
  with te show ?thesis by simp
qed

text \<open>What a big-endian read of \<open>n\<close> bytes returns and where it leaves the position.\<close>

lemma parse_be_some:
  assumes ok: "ps_ok s" and n: "n \<le> length (ps_rest s)"
  shows "parse_be parse_uint8 n w s
      = (Inr (be_word (take n (ps_rest s)) w), s\<lparr>ps_pos := ps_pos s + of_nat n\<rparr>)
    \<and> ps_ok (s\<lparr>ps_pos := ps_pos s + of_nat n\<rparr>)
    \<and> ps_rest (s\<lparr>ps_pos := ps_pos s + of_nat n\<rparr>) = drop n (ps_rest s)"
proof -
  from ps.be_read [of s s n w] ok n obtain t where
    t: "parse_be parse_uint8 n w s = (Inr (be_word (take n (ps_rest s)) w), t)"
      "ps_rest t = drop n (ps_rest s)" "ps_ok t" "t\<lparr>ps_pos := 0\<rparr> = s\<lparr>ps_pos := 0\<rparr>"
    by auto
  have "t = s\<lparr>ps_pos := ps_pos s + of_nat n\<rparr>"
    by (rule ps_same_but_pos [OF t(3,4) ok]) (use t(2) n in simp)
  with t show ?thesis by simp
qed

lemma parse_be_none:
  assumes ok: "ps_ok s" and n: "length (ps_rest s) < n"
  shows "parse_be parse_uint8 n w s = (Inl (Exn ClassFormatError), s\<lparr>ps_pos := ps_length s\<rparr>)"
proof -
  from ps.be_truncated [of s s n w] ok n obtain t where
    t: "parse_be parse_uint8 n w s = (Inl (Exn ClassFormatError), t)"
      "ps_rest t = []" "ps_ok t" "t\<lparr>ps_pos := 0\<rparr> = s\<lparr>ps_pos := 0\<rparr>"
    by auto
  from ps_eq_pos [OF t(4)] have te: "t = s\<lparr>ps_pos := ps_pos t\<rparr>" .
  then have tl: "ps_length t = ps_length s"
    by (metis parse_state.select_convs(3) parse_state.surjective parse_state.update_convs(4))
  from t(2,3) tl ps_ok_pos [OF t(3)] have "unat (ps_pos t) = unat (ps_length s)"
    using length_ps_rest [OF t(3)] by simp
  then have "ps_pos t = ps_length s" by (metis word_unat_eq_iff)
  with te t(1) show ?thesis by simp
qed

section \<open>Well-formed constant pools\<close>

text \<open>
  A constant is typed when the union member written into it is the one its tag announces. While the
  pool is being parsed only the constants with a tag in \<open>S\<close> are.
\<close>

fun value_tag :: "cf_value \<Rightarrow> u8 set" where
  "value_tag Uninit = {0}"
| "value_tag (Class_val _) = {CONSTANT_Class}"
| "value_tag (Ref_val _) = {CONSTANT_Fieldref, CONSTANT_Methodref, CONSTANT_InterfaceMethodref}"
| "value_tag (NameAndType_val _ _) = {CONSTANT_NameAndType}"
| "value_tag (String_val _) = {CONSTANT_String}"
| "value_tag (Integer_val _) = {CONSTANT_Integer}"
| "value_tag (Long_val _) = {CONSTANT_Long}"
| "value_tag (Float_val _) = {CONSTANT_Float}"
| "value_tag (Double_val _) = {CONSTANT_Double}"
| "value_tag (Utf8_val _) = {CONSTANT_Utf8}"

definition const_typed :: "cf_constant \<Rightarrow> bool" where
  "const_typed c \<longleftrightarrow> const_type c \<in> value_tag (const_val c)"

definition cpool_typed :: "u8 set \<Rightarrow> classfile \<Rightarrow> bool" where
  "cpool_typed S cf \<longleftrightarrow>
     length (constants cf) = unat (num_constants cf) - 1 \<and>
     (\<forall>c \<in> set (constants cf). const_type c \<in> S \<longrightarrow> const_typed c)"

definition ps_inv :: "u8 set \<Rightarrow> parse_state \<Rightarrow> bool" where
  "ps_inv S s \<longleftrightarrow> ps_ok s \<and> cpool_typed S (ps_cfile s)"

lemma const_typed_Utf8: "const_typed c \<Longrightarrow> const_type c = CONSTANT_Utf8 \<Longrightarrow> \<exists>u. const_val c = Utf8_val u"
  by (cases "const_val c") (auto simp: const_typed_def)

lemma const_typed_Class: "const_typed c \<Longrightarrow> const_type c = CONSTANT_Class \<Longrightarrow> \<exists>u. const_val c = Class_val u"
  by (cases "const_val c") (auto simp: const_typed_def)

lemma const_typed_NameAndType:
  "const_typed c \<Longrightarrow> const_type c = CONSTANT_NameAndType \<Longrightarrow> \<exists>n d. const_val c = NameAndType_val n d"
  by (cases "const_val c") (auto simp: const_typed_def)

lemma const_typed_Ref:
  "const_typed c \<Longrightarrow>
    const_type c \<in> {CONSTANT_Fieldref, CONSTANT_Methodref, CONSTANT_InterfaceMethodref} \<Longrightarrow>
    \<exists>r. const_val c = Ref_val r"
  by (cases "const_val c") (auto simp: const_typed_def)

section \<open>The readers are safe\<close>

text \<open>
  From a well-formed parse state and constant pool no reader faults: each returns a value, or
  stores an exception, and moves the position forward only.
\<close>

interpretation rd: safe_steps "ps_inv S" ps_like for S
  by unfold_locales (auto intro: ps_like_refl ps_like_trans)

abbreviation reads :: "u8 set \<Rightarrow> 'a parser \<Rightarrow> ('a \<Rightarrow> bool) \<Rightarrow> bool" where
  "reads S \<equiv> safe (ps_inv S) ps_like"

lemmas reads_rules = rd.safe_bind rd.safe_then rd.safe_assert_then rd.safe_repeat rd.safe_ret
  rd.safe_fails

lemma ps_inv_pos:
  "ps_inv S s \<Longrightarrow> ps_ok (s\<lparr>ps_pos := p\<rparr>) \<Longrightarrow> ps_inv S (s\<lparr>ps_pos := p\<rparr>)"
  by (simp add: ps_inv_def)

lemma ps_like_pos:
  "ps_ok s \<Longrightarrow> unat (ps_pos s) + n \<le> unat (ps_length s) \<Longrightarrow> ps_like s (s\<lparr>ps_pos := ps_pos s + of_nat n\<rparr>)"
  using unat_pos_plus [of s n] by (simp add: ps_like_def word_le_nat_alt)

lemma reads_uint8: "reads S parse_uint8 (\<lambda>_. True)"
proof (rule safeI)
  fix s x t
  assume s: "ps_inv S s" and m: "parse_uint8 s = (Inr x, t)"
  then have ok: "ps_ok s" by (simp add: ps_inv_def)
  show "ps_inv S t \<and> ps_like s t \<and> True"
  proof (cases "ps_rest s")
    case Nil
    with m parse_uint8_none [OF ok] show ?thesis by simp
  next
    case (Cons b bs)
    from length_ps_rest [OF ok] Cons have "unat (ps_pos s) + 1 \<le> unat (ps_length s)" by simp
    with m s parse_uint8_some [OF ok Cons] ps_like_pos [OF ok, of 1] show ?thesis
      by (auto intro: ps_inv_pos)
  qed
next
  fix s e t
  assume s: "ps_inv S s" and m: "parse_uint8 s = (Inl (Exn e), t)"
  then have ok: "ps_ok s" by (simp add: ps_inv_def)
  show "ps_inv S t \<and> ps_like s t"
    using m s parse_uint8_none [OF ok] parse_uint8_some [OF ok]
    by (cases "ps_rest s") (auto intro: ps_like_refl)
next
  fix s f t
  assume s: "ps_inv S s" and m: "parse_uint8 s = (Inl (Fault f), t)"
  then have ok: "ps_ok s" by (simp add: ps_inv_def)
  show False
    using m parse_uint8_none [OF ok] parse_uint8_some [OF ok] by (cases "ps_rest s") auto
qed

lemma reads_be: "reads S (parse_be parse_uint8 n w) (\<lambda>_. True)"
  by (induction n arbitrary: w) (auto intro: rd.safe_bind rd.safe_ret reads_uint8)

lemma reads_ints:
  "reads S parse_uint16 (\<lambda>_. True)" "reads S parse_uint32 (\<lambda>_. True)"
  "reads S parse_integer (\<lambda>_. True)" "reads S parse_long (\<lambda>_. True)"
  by (simp_all add: parse_uint16_def parse_uint32_def parse_integer_def parse_long_def reads_be)

lemma reads_floats: "reads S parse_float (\<lambda>_. True)" "reads S parse_double (\<lambda>_. True)"
proof -
  have "reads S (repeatM n parse_uint8) (\<lambda>_. True)" for n
    by (rule safe_weaken [OF rd.safe_repeat [OF reads_uint8]]) simp
  then show "reads S parse_float (\<lambda>_. True)" "reads S parse_double (\<lambda>_. True)"
    unfolding parse_float_def parse_double_def
    by (auto intro!: rd.safe_bind [where R = "\<lambda>_. True"] rd.safe_ret)
qed

lemma reads_alloc: "reads S (vm_alloc n) (\<lambda>_. True)"
  by (rule safeI)
    (auto simp: vm_alloc_def ps_inv_def ps_ok_def ps_like_def split: if_splits)

lemma reads_cpool_index:
  "reads S (parse_cpool_index types i)
     (\<lambda>c. (types \<noteq> [] \<longrightarrow> const_type c \<in> set types) \<and> (const_type c \<in> S \<longrightarrow> const_typed c))"
proof -
  have "load (constants cf) (unat i - 1) = Inr (constants cf ! (unat i - 1))
      \<and> constants cf ! (unat i - 1) \<in> set (constants cf)"
    if "cpool_typed S cf" "\<not> (i < 1 \<or> num_constants cf \<le> i)" for cf :: classfile
  proof -
    from that(2) have "unat i < unat (num_constants cf)" "1 \<le> unat i"
      by (auto simp: word_less_nat_alt word_le_nat_alt)
    with that(1) have "unat i - 1 < length (constants cf)" by (simp add: cpool_typed_def)
    then show ?thesis by simp
  qed
  then show ?thesis
    unfolding parse_cpool_index_def
    by (intro rd.safe_bind [where R = "cpool_typed S"] rd.safe_gets safe_if rd.safe_fails)
      (auto simp: ps_inv_def cpool_typed_def intro!: rd.safe_ret rd.safe_fails)
qed

lemma reads_cpool_index16:
  "reads S (parse_cpool_index16 types opt)
     (\<lambda>r. (r = None \<longrightarrow> opt) \<and> (\<forall>c. r = Some c \<longrightarrow>
        (types \<noteq> [] \<longrightarrow> const_type c \<in> set types) \<and> (const_type c \<in> S \<longrightarrow> const_typed c)))"
  unfolding parse_cpool_index16_def
  by (intro rd.safe_bind [OF reads_ints(1)] safe_if rd.safe_ret rd.safe_bind [OF reads_cpool_index])
    auto

lemma reads_cpool_index8:
  "reads S (parse_cpool_index8 types opt)
     (\<lambda>r. (r = None \<longrightarrow> opt) \<and> (\<forall>c. r = Some c \<longrightarrow>
        (types \<noteq> [] \<longrightarrow> const_type c \<in> set types) \<and> (const_type c \<in> S \<longrightarrow> const_typed c)))"
  unfolding parse_cpool_index8_def
  by (intro rd.safe_bind [OF reads_uint8] safe_if rd.safe_ret rd.safe_bind [OF reads_cpool_index])
    auto

lemma reads_class:
  assumes "CONSTANT_Class \<in> S"
  shows "reads S (parse_class opt) (\<lambda>r. r = None \<longrightarrow> opt)"
  unfolding parse_class_def
  by (rule rd.safe_bind [OF reads_cpool_index16])
    (use assms in \<open>auto intro!: safe_option rd.safe_ret dest!: const_typed_Class\<close>)

lemma reads_string:
  assumes "CONSTANT_Utf8 \<in> S"
  shows "reads S (parse_string opt) (\<lambda>r. r = None \<longrightarrow> opt)"
  unfolding parse_string_def
  by (rule rd.safe_bind [OF reads_cpool_index16])
    (use assms in \<open>auto intro!: safe_option rd.safe_ret dest!: const_typed_Utf8\<close>)

lemma reads_class1: "CONSTANT_Class \<in> S \<Longrightarrow> reads S parse_class1 (\<lambda>_. True)"
  unfolding parse_class1_def
  by (rule rd.safe_bind [OF reads_class]) (auto intro: rd.safe_lift elim: not_None_eq [THEN iffD1, elim_format])

lemma reads_string1: "CONSTANT_Utf8 \<in> S \<Longrightarrow> reads S parse_string1 (\<lambda>_. True)"
  unfolding parse_string1_def
  by (rule rd.safe_bind [OF reads_string]) (auto intro: rd.safe_lift elim: not_None_eq [THEN iffD1, elim_format])

lemma reads_ref:
  assumes "t \<in> {CONSTANT_Fieldref, CONSTANT_Methodref, CONSTANT_InterfaceMethodref}" and "t \<in> S"
  shows "reads S (parse_ref t) (\<lambda>_. True)"
  unfolding parse_ref_def
proof (rule rd.safe_bind [OF reads_cpool_index16])
  fix cp
  assume cp: "(cp = None \<longrightarrow> False) \<and> (\<forall>c. cp = Some c \<longrightarrow>
      ([t] \<noteq> [] \<longrightarrow> const_type c \<in> set [t]) \<and> (const_type c \<in> S \<longrightarrow> const_typed c))"
  then obtain c where c: "cp = Some c" by auto
  with cp assms(2) have "const_type c = t" "const_typed c" by auto
  with assms(1) const_typed_Ref [of c] obtain r where "const_val c = Ref_val r" by auto
  with c show "reads S (bindM (liftM (non_null cp)) (\<lambda>c. liftM (union_Ref (const_val c)))) (\<lambda>_. True)"
    by (auto intro: rd.safe_lift)
qed

lemma reads_locals: "reads S (parse_local8 n) (\<lambda>i. i < n)" "reads S (parse_local16 n) (\<lambda>i. i < n)"
  unfolding parse_local8_def parse_local16_def
  by (auto intro!: rd.safe_bind [OF reads_uint8] rd.safe_bind [OF reads_ints(1)] safe_if
      rd.safe_ret rd.safe_fails simp: not_le)

text \<open>
  \<open>_jc_parse_utf8\<close> returns the bytes at the position, all of them inside the structure and none of
  them zero.
\<close>

lemma ps_length_bound: "ps_ok s \<Longrightarrow> unat (ps_length s) < 2 ^ 31"
  by (simp add: ps_ok_def)

lemma fits_iff:
  assumes ok: "ps_ok s"
  shows "ps_pos s + ucast (n :: u16) \<le> ps_length s
    \<longleftrightarrow> unat (ps_pos s) + unat n \<le> unat (ps_length s)"
proof -
  have "unat n < 2 ^ 16" using unsigned_less [of n] by simp
  then have "unat (ps_pos s) + unat n < 2 ^ 32"
    using ps_ok_pos [OF ok] ps_length_bound [OF ok] by simp
  then have "unat (ps_pos s + ucast n) = unat (ps_pos s) + unat n"
    by (simp add: unat_word_ariths)
  then show ?thesis by (simp add: word_le_nat_alt)
qed

lemma parse_utf8_inner:
  assumes "ps_ok s" and "ps_pos s + ucast (n :: u16) \<le> ps_length s"
  shows "read_bytes (unat n) s = (Inr (take (unat n) (ps_rest s)), s)"
    and "ps_ok (s\<lparr>ps_pos := ps_pos s + ucast n\<rparr>)"
    and "ps_like s (s\<lparr>ps_pos := ps_pos s + ucast n\<rparr>)"
proof -
  from assms have le: "unat (ps_pos s) + unat n \<le> unat (ps_length s)"
    by (simp add: fits_iff)
  from assms(1) le show "read_bytes (unat n) s = (Inr (take (unat n) (ps_rest s)), s)"
    by (auto simp: read_bytes_def ps_rest_def ps_ok_def Let_def min_def)
  show "ps_ok (s\<lparr>ps_pos := ps_pos s + ucast n\<rparr>)"
    using assms by (simp add: ps_ok_def)
  show "ps_like s (s\<lparr>ps_pos := ps_pos s + ucast n\<rparr>)"
    using ps_like_pos [OF assms(1) le] by simp
qed

lemma parse_utf8_body_eq:
  assumes "ps_ok s"
  shows "parse_utf8_body n s =
    (if unat (ps_pos s) + unat n \<le> unat (ps_length s) \<and> utf_decode (take (unat n) (ps_rest s)) \<noteq> None
     then (Inr (take (unat n) (ps_rest s)), s\<lparr>ps_pos := ps_pos s + ucast n\<rparr>)
     else (Inl (Exn ClassFormatError), s))"
  using parse_utf8_inner(1) [OF assms, of n] fits_iff [OF assms, of n]
  by (auto simp: parse_utf8_body_def not_less)

lemma reads_utf8: "reads S parse_utf8 (\<lambda>u. 0 \<notin> set u)"
proof -
  have "reads S (parse_utf8_body n) (\<lambda>u. 0 \<notin> set u)" for n
  proof (rule safeI)
    fix s x t
    assume s: "ps_inv S s" and m: "parse_utf8_body n s = (Inr x, t)"
    then have ok: "ps_ok s" by (simp add: ps_inv_def)
    with m s parse_utf8_inner(2,3) [OF ok, of n] show "ps_inv S t \<and> ps_like s t \<and> 0 \<notin> set x"
      by (auto simp: parse_utf8_body_eq fits_iff split: if_splits
          intro: ps_inv_pos dest: utf_decode_no_nul)
  next
    fix s e t
    assume "ps_inv S s" and "parse_utf8_body n s = (Inl (Exn e), t)"
    then show "ps_inv S t \<and> ps_like s t"
      by (auto simp: parse_utf8_body_eq ps_inv_def split: if_splits intro: ps_like_refl)
  next
    fix s f t
    assume "ps_inv S s" and "parse_utf8_body n s = (Inl (Fault f), t)"
    then show False
      by (auto simp: parse_utf8_body_eq ps_inv_def split: if_splits)
  qed
  then show ?thesis
    unfolding parse_utf8_def by (rule rd.safe_bind [OF reads_ints(1)])
qed

end
