(* ===== verification/Cf_Cpool.thy ===== *)
theory Cf_Cpool
  imports Cf_Reader
begin

text \<open>
  The constant pool parser of \<open>libjc/cf_parse.c\<close>: \<open>_jc_scan_constant\<close>, \<open>_jc_parse_constant\<close> and the
  five passes of \<open>_jc_parse_cpool\<close>. The first pass records the type of every constant and adds up
  the sizes of the strings; the others parse, in this order, the strings, the Class and String
  constants, the NameAndType constants and the rest, so that a constant is only dereferenced after
  it was filled in.
\<close>

section \<open>One constant\<close>

definition scan_fixed :: "u32 \<Rightarrow> u32 parser" where
  "scan_fixed len = (\<lambda>s.
     if ps_length s < ps_pos s + len then (Inl (Exn ClassFormatError), s)
     else (Inr len, s\<lparr>ps_pos := ps_pos s + len\<rparr>))"

text \<open>\<open>_jc_scan_constant\<close>: steps over a constant and returns its length.\<close>

definition scan_constant :: "u32 parser" where
  "scan_constant =
     bindM (gets (\<lambda>s. ps_length s \<le> ps_pos s)) (\<lambda>at_end.
       if at_end then fails (Exn ClassFormatError)
       else bindM byte_at_pos (\<lambda>tag.
         if tag \<in> {CONSTANT_Class, CONSTANT_String} then scan_fixed 3
         else if tag \<in> {CONSTANT_Fieldref, CONSTANT_Methodref, CONSTANT_InterfaceMethodref,
             CONSTANT_Integer, CONSTANT_Float, CONSTANT_NameAndType} then scan_fixed 5
         else if tag \<in> {CONSTANT_Long, CONSTANT_Double} then scan_fixed 9
         else if tag = CONSTANT_Utf8 then
           thenM (advance 1) (bindM parse_utf8 (\<lambda>utf. ret (3 + of_nat (length utf))))
         else fails (Exn ClassFormatError)))"

text \<open>Reading and writing \<open>cfile->constants[i]\<close>.\<close>

definition get_constant :: "nat \<Rightarrow> cf_constant parser" where
  "get_constant i = bindM (gets ps_cfile) (\<lambda>cf. liftM (load (constants cf) i))"

definition put_constant :: "nat \<Rightarrow> (cf_constant \<Rightarrow> cf_constant) \<Rightarrow> unit parser" where
  "put_constant i f =
     bindM (get_constant i) (\<lambda>c.
       modify (\<lambda>s. s\<lparr>ps_cfile := (ps_cfile s)\<lparr>constants := (constants (ps_cfile s))[i := f c]\<rparr>\<rparr>))"

text \<open>
  The \<open>switch\<close> of \<open>_jc_parse_constant\<close>, after the type byte: the union member to store, or \<open>None\<close>
  where the code stores nothing. Looking up a Utf8 constant and taking its string is what
  \<open>parse_string1\<close> does, looking up a Class constant and taking its name what \<open>parse_class1\<close> does.
\<close>

definition parse_constant_info :: "u8 \<Rightarrow> cf_value option parser" where
  "parse_constant_info type =
    (if type = CONSTANT_Class then bindM parse_string1 (\<lambda>u. ret (Some (Class_val u)))
     else if type \<in> {CONSTANT_Fieldref, CONSTANT_Methodref, CONSTANT_InterfaceMethodref} then
       bindM parse_class1 (\<lambda>cls.
       bindM (parse_cpool_index16 [CONSTANT_NameAndType] False) (\<lambda>cp2.
       bindM (liftM (non_null cp2)) (\<lambda>c2.
       bindM (liftM (union_NameAndType (const_val c2))) (\<lambda>nt.
         ret (Some (Ref_val \<lparr>ref_class = cls, ref_name = fst nt, ref_descriptor = snd nt\<rparr>))))))
     else if type = CONSTANT_String then bindM parse_string1 (\<lambda>u. ret (Some (String_val u)))
     else if type = CONSTANT_Integer then bindM parse_integer (\<lambda>v. ret (Some (Integer_val v)))
     else if type = CONSTANT_Float then bindM parse_float (\<lambda>v. ret (Some (Float_val v)))
     else if type = CONSTANT_Long then bindM parse_long (\<lambda>v. ret (Some (Long_val v)))
     else if type = CONSTANT_Double then bindM parse_double (\<lambda>v. ret (Some (Double_val v)))
     else if type = CONSTANT_NameAndType then
       bindM parse_string1 (\<lambda>n. bindM parse_string1 (\<lambda>d. ret (Some (NameAndType_val n d))))
     else if type = CONSTANT_Utf8 then bindM parse_utf8 (\<lambda>_. ret None)
     else fails (Exn ClassFormatError))"

definition parse_constant :: "nat \<Rightarrow> unit parser" where
  "parse_constant i =
     bindM parse_uint8 (\<lambda>type.
     thenM (put_constant i (\<lambda>c. c\<lparr>const_type := type\<rparr>)) (
     bindM (parse_constant_info type) (\<lambda>v.
       case v of None \<Rightarrow> ret () | Some u \<Rightarrow> put_constant i (\<lambda>c. c\<lparr>const_val := u\<rparr>))))"

section \<open>The passes\<close>

text \<open>
  The first pass, from index \<open>i\<close>; \<open>sum_len\<close> is \<open>strings_size\<close>. The type byte is read before
  \<open>_jc_scan_constant\<close> has checked that there is a byte left.
\<close>

function cpool_scan :: "nat \<Rightarrow> nat \<Rightarrow> u32 \<Rightarrow> u32 parser" where
  "cpool_scan n i sum_len =
    (if i < n then
       bindM byte_at_pos (\<lambda>type.
       thenM (put_constant (i - 1) (\<lambda>c. c\<lparr>const_type := type\<rparr>)) (
       bindM scan_constant (\<lambda>const_size.
         if type = CONSTANT_Utf8 then cpool_scan n (i + 1) (sum_len + ((const_size - 3) + 1))
         else if type = CONSTANT_Long \<or> type = CONSTANT_Double then
           (if n \<le> i + 1 then fails (Exn ClassFormatError) else cpool_scan n (i + 2) sum_len)
         else cpool_scan n (i + 1) sum_len)))
     else ret sum_len)"
  by pat_completeness auto
termination
  by (relation "measure (\<lambda>(n, i, sum_len). n - i)") auto

declare cpool_scan.simps [simp del]

text \<open>
  The later passes have one shape: for every index, do what the pass does with a constant of this
  type, then step over the second slot of a long or double.
\<close>

definition next_index :: "u8 \<Rightarrow> nat \<Rightarrow> nat" where
  "next_index type i = (if type = CONSTANT_Long \<or> type = CONSTANT_Double then i + 2 else i + 1)"

lemma next_index_gt [simp]: "i < next_index type i"
  by (simp add: next_index_def)

function cpool_pass :: "(nat \<Rightarrow> u8 \<Rightarrow> unit parser) \<Rightarrow> nat \<Rightarrow> nat \<Rightarrow> unit parser" where
  "cpool_pass act n i =
    (if i < n then
       bindM (get_constant (i - 1)) (\<lambda>c.
       thenM (act (i - 1) (const_type c)) (
       cpool_pass act n (next_index (const_type c) i)))
     else ret ())"
  by pat_completeness auto
termination
  by (relation "measure (\<lambda>(act, n, i). n - i)") (auto intro: diff_less_mono2)

declare cpool_pass.simps [simp del]

definition pass_utf8 :: "nat \<Rightarrow> u8 \<Rightarrow> unit parser" where
  "pass_utf8 i type =
    (if type = CONSTANT_Utf8 then
       thenM (advance 1) (bindM parse_utf8 (\<lambda>utf.
         put_constant i (\<lambda>c. c\<lparr>const_val := Utf8_val utf\<rparr>)))
     else ignoreM scan_constant)"

definition pass_class_string :: "nat \<Rightarrow> u8 \<Rightarrow> unit parser" where
  "pass_class_string i type =
    (if type = CONSTANT_Class \<or> type = CONSTANT_String then parse_constant i
     else ignoreM scan_constant)"

definition pass_name_type :: "nat \<Rightarrow> u8 \<Rightarrow> unit parser" where
  "pass_name_type i type =
    (if type = CONSTANT_NameAndType then parse_constant i else ignoreM scan_constant)"

definition pass_rest :: "nat \<Rightarrow> u8 \<Rightarrow> unit parser" where
  "pass_rest i type =
    (if type \<in> {CONSTANT_Utf8, CONSTANT_Class, CONSTANT_String, CONSTANT_NameAndType}
     then ignoreM scan_constant else parse_constant i)"

definition set_cfile :: "(classfile \<Rightarrow> classfile) \<Rightarrow> unit parser" where
  "set_cfile f = modify (\<lambda>s. s\<lparr>ps_cfile := f (ps_cfile s)\<rparr>)"

text \<open>
  The part of \<open>_jc_parse_cpool\<close> behind the allocation of the array of constants, which is zeroed
  then: the five passes, and the memory for the strings.
\<close>

definition parse_cpool_passes :: "nat \<Rightarrow> unit parser" where
  "parse_cpool_passes n =
     bindM (gets ps_pos) (\<lambda>cpool_start.
     bindM (cpool_scan n 1 0) (\<lambda>strings_size.
     thenM (if 0 < strings_size then vm_alloc strings_size else ret ()) (
     thenM (set_pos cpool_start) (
     thenM (cpool_pass pass_utf8 n 1) (
     thenM (set_pos cpool_start) (
     thenM (cpool_pass pass_class_string n 1) (
     thenM (set_pos cpool_start) (
     thenM (cpool_pass pass_name_type n 1) (
     thenM (set_pos cpool_start) (
     cpool_pass pass_rest n 1))))))))))"

text \<open>\<open>_jc_parse_cpool\<close>; a \<open>_jc_cf_constant\<close> takes 16 bytes.\<close>

definition parse_cpool_body :: "unit parser" where
  "parse_cpool_body =
     bindM parse_uint16 (\<lambda>num.
     thenM (set_cfile (\<lambda>cf. cf\<lparr>num_constants := num\<rparr>)) (
     thenM (assertM (Exn ClassFormatError) (num \<noteq> 0)) (
     thenM (vm_alloc ((ucast num - 1) * 16)) (
     thenM (set_cfile (\<lambda>cf. cf\<lparr>constants := replicate (unat num - 1) zero_constant\<rparr>)) (
     parse_cpool_passes (unat num))))))"

definition parse_cpool :: "unit parser" where
  "parse_cpool = on_failM parse_cpool_body
     (set_cfile (\<lambda>cf. cf\<lparr>constants := [], num_constants := 0\<rparr>))"

section \<open>How much the parsers consume\<close>

text \<open>\<open>takes k m\<close>: when \<open>m\<close> returns, it has only moved the position, by \<open>k\<close> bytes.\<close>

definition takes :: "u32 \<Rightarrow> 'a parser \<Rightarrow> bool" where
  "takes k m \<longleftrightarrow> (\<forall>s x t. ps_ok s \<longrightarrow> m s = (Inr x, t) \<longrightarrow>
     ps_ok t \<and> t = s\<lparr>ps_pos := ps_pos s + k\<rparr>)"

lemma takesD: "takes k m \<Longrightarrow> ps_ok s \<Longrightarrow> m s = (Inr x, t) \<Longrightarrow> ps_ok t \<and> t = s\<lparr>ps_pos := ps_pos s + k\<rparr>"
  by (auto simp: takes_def)

lemma takes_bind:
  assumes "takes k m" and "\<And>x. takes l (f x)"
  shows "takes (k + l) (bindM m f)"
  unfolding takes_def
proof (intro allI impI)
  fix s y u
  assume s: "ps_ok s" and m: "bindM m f s = (Inr y, u)"
  from m obtain x t where x: "m s = (Inr x, t)" "f x t = (Inr y, u)"
    by (rule bindM_Inr_E)
  from takesD [OF assms(1) s x(1)] have t: "ps_ok t" "t = s\<lparr>ps_pos := ps_pos s + k\<rparr>" by auto
  from takesD [OF assms(2) t(1) x(2)] t(2)
  show "ps_ok u \<and> u = s\<lparr>ps_pos := ps_pos s + (k + l)\<rparr>"
    by (auto simp: add.assoc)
qed

lemma takes_bind0: "takes k m \<Longrightarrow> (\<And>x. takes 0 (f x)) \<Longrightarrow> takes k (bindM m f)"
  using takes_bind [of k m 0 f] by simp

lemma takes_0bind: "takes 0 m \<Longrightarrow> (\<And>x. takes k (f x)) \<Longrightarrow> takes k (bindM m f)"
  using takes_bind [of 0 m k f] by simp

lemma takes_none: "takes 0 (ret x)" "takes k (fails e)" "takes 0 (gets f)" "takes 0 (liftM r)"
  by (auto simp: takes_def liftM_def)

lemma takes_if: "(b \<Longrightarrow> takes k m) \<Longrightarrow> (\<not> b \<Longrightarrow> takes k n) \<Longrightarrow> takes k (if b then m else n)"
  by simp

lemma takes_option:
  "(r = None \<Longrightarrow> takes k m) \<Longrightarrow> (\<And>x. r = Some x \<Longrightarrow> takes k (n x))
    \<Longrightarrow> takes k (case r of None \<Rightarrow> m | Some x \<Rightarrow> n x)"
  by (cases r) auto

lemma takes_uint8: "takes 1 parse_uint8"
  unfolding takes_def
proof (intro allI impI)
  fix s x t
  assume s: "ps_ok s" and m: "parse_uint8 s = (Inr x, t)"
  show "ps_ok t \<and> t = s\<lparr>ps_pos := ps_pos s + 1\<rparr>"
    using m parse_uint8_some [OF s] parse_uint8_none [OF s] by (cases "ps_rest s") auto
qed

lemma takes_be: "takes (of_nat n) (parse_be parse_uint8 n w)"
proof (induction n arbitrary: w)
  case 0
  then show ?case by (simp add: takes_none)
next
  case (Suc n)
  have "takes (1 + of_nat n) (parse_be parse_uint8 (Suc n) w)"
    unfolding parse_be.simps by (rule takes_bind [OF takes_uint8]) (rule Suc)
  then show ?case by simp
qed

lemma takes_bytes: "takes (of_nat n) (repeatM n parse_uint8)"
proof (induction n)
  case 0
  then show ?case by (simp add: takes_none)
next
  case (Suc n)
  have "takes (1 + of_nat n) (repeatM (Suc n) parse_uint8)"
    unfolding repeatM.simps
    by (rule takes_bind [OF takes_uint8]) (rule takes_bind0 [OF Suc takes_none(1)])
  then show ?case by simp
qed

lemma takes_ints:
  "takes 2 parse_uint16" "takes 4 parse_uint32" "takes 4 parse_integer" "takes 8 parse_long"
  "takes 4 parse_float" "takes 8 parse_double"
  using takes_be [of 2] takes_be [of 4] takes_be [of 8] takes_bytes [of 4] takes_bytes [of 8]
  by (auto simp: parse_uint16_def parse_uint32_def parse_integer_def parse_long_def
      parse_float_def parse_double_def intro: takes_bind0 takes_none)

lemma takes_cpool_index: "takes 0 (parse_cpool_index types i)"
  unfolding parse_cpool_index_def by (intro takes_0bind takes_if takes_none)

lemma takes_cpool_index16: "takes 2 (parse_cpool_index16 types opt)"
  unfolding parse_cpool_index16_def
  by (intro takes_bind0 [OF takes_ints(1)] takes_if takes_none takes_0bind takes_cpool_index)

lemma takes_cpool_index8: "takes 1 (parse_cpool_index8 types opt)"
  unfolding parse_cpool_index8_def
  by (intro takes_bind0 [OF takes_uint8] takes_if takes_none takes_0bind takes_cpool_index)

lemma takes_refs: "takes 2 parse_class1" "takes 2 parse_string1" "takes 2 (parse_ref ty)"
  unfolding parse_class1_def parse_string1_def parse_class_def parse_string_def parse_ref_def
  by (intro takes_bind0 takes_cpool_index16 takes_option takes_none)+

section \<open>The bytes of the pool\<close>

text \<open>
  The tag of the constant that starts at byte \<open>p\<close> of the structure, its size, and whether a whole
  constant of that size is there.
\<close>

definition tag_at :: "parse_state \<Rightarrow> nat \<Rightarrow> u8" where
  "tag_at s p = ps_buf s ! (ps_base s + p)"

definition utf_len_at :: "parse_state \<Rightarrow> nat \<Rightarrow> u16" where
  "utf_len_at s p = be_word (take 2 (drop (ps_base s + p + 1) (ps_buf s))) 0"

definition utf_at :: "parse_state \<Rightarrow> nat \<Rightarrow> u8 list" where
  "utf_at s p = take (unat (utf_len_at s p)) (drop (ps_base s + p + 3) (ps_buf s))"

definition size_at :: "parse_state \<Rightarrow> nat \<Rightarrow> nat" where
  "size_at s p =
    (if tag_at s p \<in> {CONSTANT_Class, CONSTANT_String} then 3
     else if tag_at s p \<in> {CONSTANT_Long, CONSTANT_Double} then 9
     else if tag_at s p = CONSTANT_Utf8 then 3 + unat (utf_len_at s p)
     else 5)"

definition all_tags :: "u8 set" where
  "all_tags = {CONSTANT_Utf8, CONSTANT_Integer, CONSTANT_Float, CONSTANT_Long, CONSTANT_Double,
     CONSTANT_Class, CONSTANT_String, CONSTANT_Fieldref, CONSTANT_Methodref,
     CONSTANT_InterfaceMethodref, CONSTANT_NameAndType}"

definition fits_at :: "parse_state \<Rightarrow> nat \<Rightarrow> bool" where
  "fits_at s p \<longleftrightarrow> tag_at s p \<in> all_tags \<and> p + size_at s p \<le> unat (ps_length s)
     \<and> (tag_at s p = CONSTANT_Utf8 \<longrightarrow> utf_decode (utf_at s p) \<noteq> None)"

lemma scan_fixed_eq:
  assumes ok: "ps_ok s" and k: "k < 16"
  shows "scan_fixed (of_nat k) s =
    (if unat (ps_pos s) + k \<le> unat (ps_length s)
     then (Inr (of_nat k), s\<lparr>ps_pos := ps_pos s + of_nat k\<rparr>) else (Inl (Exn ClassFormatError), s))"
proof -
  from k have "unat (of_nat k :: u16) = k" "ucast (of_nat k :: u16) = (of_nat k :: u32)"
    by (simp_all add: unat_of_nat take_bit_nat_eq_self unsigned_of_nat)
  with fits_iff [OF ok, of "of_nat k"] show ?thesis
    by (auto simp: scan_fixed_def not_less [symmetric])
qed

lemma parse_utf8_at:
  assumes ok: "ps_ok s" and p: "ps_pos s < ps_length s"
  shows "thenM (advance 1) parse_utf8 s =
    (if unat (ps_pos s) + 3 + unat (utf_len_at s (unat (ps_pos s))) \<le> unat (ps_length s)
        \<and> utf_decode (utf_at s (unat (ps_pos s))) \<noteq> None
     then (Inr (utf_at s (unat (ps_pos s))),
           s\<lparr>ps_pos := ps_pos s + of_nat (3 + unat (utf_len_at s (unat (ps_pos s))))\<rparr>)
     else (Inl (Exn ClassFormatError), snd (thenM (advance 1) parse_utf8 s)))"
    and "ps_ok (snd (thenM (advance 1) parse_utf8 s))"
    and "\<exists>q. snd (thenM (advance 1) parse_utf8 s) = s\<lparr>ps_pos := q\<rparr>"
proof -
  let ?s = "s\<lparr>ps_pos := ps_pos s + 1\<rparr>"
  let ?p = "unat (ps_pos s)"
  have p1: "?p + 1 \<le> unat (ps_length s)" using p by (simp add: word_less_nat_alt)
  have u1: "unat (ps_pos s + 1) = ?p + 1" using unat_pos_plus [OF ok, of 1] p1 by simp
  have ok1: "ps_ok ?s" using ok p1 u1 by (simp add: ps_ok_def word_le_nat_alt)
  have lr: "length (ps_rest ?s) = unat (ps_length s) - (?p + 1)"
    using length_ps_rest [OF ok1] u1 by simp
  have go: "thenM (advance 1) parse_utf8 s = parse_utf8 ?s"
    by (simp add: advance_def thenM_def bindM_def)
  have "(thenM (advance 1) parse_utf8 s =
    (if ?p + 3 + unat (utf_len_at s ?p) \<le> unat (ps_length s) \<and> utf_decode (utf_at s ?p) \<noteq> None
     then (Inr (utf_at s ?p), s\<lparr>ps_pos := ps_pos s + of_nat (3 + unat (utf_len_at s ?p))\<rparr>)
     else (Inl (Exn ClassFormatError), snd (thenM (advance 1) parse_utf8 s))))
    \<and> ps_ok (snd (thenM (advance 1) parse_utf8 s))
    \<and> (\<exists>q. snd (thenM (advance 1) parse_utf8 s) = s\<lparr>ps_pos := q\<rparr>)"
  proof (cases "2 \<le> length (ps_rest ?s)")
    case False
    then have "parse_utf8 ?s = (Inl (Exn ClassFormatError), ?s\<lparr>ps_pos := ps_length s\<rparr>)"
      using parse_be_none [OF ok1, of 2 "0 :: u16"] by (simp add: parse_utf8_def parse_uint16_def)
    moreover have "ps_ok (?s\<lparr>ps_pos := ps_length s\<rparr>)" using ok by (simp add: ps_ok_def)
    moreover have "\<not> ?p + 3 + unat (utf_len_at s ?p) \<le> unat (ps_length s)"
      using False lr p1 by simp
    ultimately show ?thesis unfolding go by auto
  next
    case True
    let ?n = "be_word (take 2 (ps_rest ?s)) 0 :: u16"
    let ?t = "s\<lparr>ps_pos := ps_pos s + 3\<rparr>"
    have n: "?n = utf_len_at s ?p"
      using True lr u1 by (simp add: utf_len_at_def ps_rest_def min_def add.assoc)
    from parse_be_some [OF ok1 True, of "0 :: u16"]
    have r: "parse_uint16 ?s = (Inr ?n, ?t)" and okt: "ps_ok ?t"
      by (simp_all add: parse_uint16_def add.assoc)
    have u3: "unat (ps_pos s + 3) = ?p + 3"
      using unat_pos_plus [OF ok, of 3] True lr p1 by simp
    have dec: "?p + 3 + unat (utf_len_at s ?p) \<le> unat (ps_length s) \<Longrightarrow>
        take (unat (utf_len_at s ?p)) (ps_rest ?t) = utf_at s ?p"
      by (simp add: ps_rest_def utf_at_def u3 min_def add.assoc)
    have pos: "ps_pos s + 3 + ucast (utf_len_at s ?p)
        = ps_pos s + (of_nat (3 + unat (utf_len_at s ?p)) :: u32)"
      by (simp add: add.assoc)
    have eq: "parse_utf8 ?s = parse_utf8_body (utf_len_at s ?p) ?t"
      by (simp add: parse_utf8_def r n)
    have ok3: "?p + 3 + unat (utf_len_at s ?p) \<le> unat (ps_length s) \<Longrightarrow>
        ps_ok (s\<lparr>ps_pos := ps_pos s + of_nat (3 + unat (utf_len_at s ?p))\<rparr>)"
      using okt parse_utf8_inner(2) [OF okt, of "utf_len_at s ?p"]
        fits_iff [OF okt, of "utf_len_at s ?p"] u3 pos by simp
    show ?thesis
      unfolding go eq parse_utf8_body_eq [OF okt]
      using okt dec u3 ok3 by (auto simp: add.assoc)
  qed
  then show "thenM (advance 1) parse_utf8 s =
    (if ?p + 3 + unat (utf_len_at s ?p) \<le> unat (ps_length s) \<and> utf_decode (utf_at s ?p) \<noteq> None
     then (Inr (utf_at s ?p), s\<lparr>ps_pos := ps_pos s + of_nat (3 + unat (utf_len_at s ?p))\<rparr>)
     else (Inl (Exn ClassFormatError), snd (thenM (advance 1) parse_utf8 s)))"
    and "ps_ok (snd (thenM (advance 1) parse_utf8 s))"
    and "\<exists>q. snd (thenM (advance 1) parse_utf8 s) = s\<lparr>ps_pos := q\<rparr>"
    by blast+
qed

text \<open>What \<open>_jc_scan_constant\<close> does, in terms of the bytes.\<close>

lemma scan_constant_end:
  "ps_ok s \<Longrightarrow> ps_pos s = ps_length s \<Longrightarrow> scan_constant s = (Inl (Exn ClassFormatError), s)"
  by (simp add: scan_constant_def fails_apply)

lemma scan_constant_eq:
  assumes ok: "ps_ok s" and p: "ps_pos s < ps_length s"
  shows "fits_at s (unat (ps_pos s)) \<Longrightarrow>
      scan_constant s = (Inr (of_nat (size_at s (unat (ps_pos s)))),
        s\<lparr>ps_pos := ps_pos s + of_nat (size_at s (unat (ps_pos s)))\<rparr>)" (is "?fits \<Longrightarrow> ?yes")
    and "\<not> fits_at s (unat (ps_pos s)) \<Longrightarrow>
      \<exists>q. scan_constant s = (Inl (Exn ClassFormatError), s\<lparr>ps_pos := q\<rparr>) \<and> ps_ok (s\<lparr>ps_pos := q\<rparr>)"
proof -
  let ?p = "unat (ps_pos s)"
  let ?tag = "tag_at s ?p"
  have p1: "?p < unat (ps_length s)" using p by (simp add: word_less_nat_alt)
  have inb: "ps_base s + ?p < length (ps_buf s)" using ok p1 by (simp add: ps_ok_def)
  have tag: "byte_at_pos s = (Inr ?tag, s)"
    using inb by (simp add: byte_at_pos_def tag_at_def)
  note utf = parse_utf8_at [OF ok p]
  note fx = scan_fixed_eq [OF ok, of 3] scan_fixed_eq [OF ok, of 5] scan_fixed_eq [OF ok, of 9]
  have go: "scan_constant s =
     (if ?tag \<in> {CONSTANT_Class, CONSTANT_String} then scan_fixed 3 s
      else if ?tag \<in> {CONSTANT_Fieldref, CONSTANT_Methodref, CONSTANT_InterfaceMethodref,
             CONSTANT_Integer, CONSTANT_Float, CONSTANT_NameAndType} then scan_fixed 5 s
      else if ?tag \<in> {CONSTANT_Long, CONSTANT_Double} then scan_fixed 9 s
      else if ?tag = CONSTANT_Utf8 then
        bindM (thenM (advance 1) parse_utf8) (\<lambda>utf. ret (3 + of_nat (length utf))) s
      else (Inl (Exn ClassFormatError), s))"
    using p tag by (simp add: scan_constant_def not_le [symmetric] thenM_def bindM_assoc fails_apply)
  have len: "?p + 3 + unat (utf_len_at s ?p) \<le> unat (ps_length s) \<Longrightarrow>
      length (utf_at s ?p) = unat (utf_len_at s ?p)"
    using ok by (simp add: utf_at_def ps_ok_def) linarith
  show "?yes" if f: ?fits
  proof -
    from f have le: "?p + size_at s ?p \<le> unat (ps_length s)" and tags: "?tag \<in> all_tags"
      by (auto simp: fits_at_def)
    show ?thesis
    proof (cases "?tag = CONSTANT_Utf8")
      case True
      then have sz: "size_at s ?p = 3 + unat (utf_len_at s ?p)" by (simp add: size_at_def)
      from f True have "utf_decode (utf_at s ?p) \<noteq> None" by (simp add: fits_at_def)
      with utf(1) le sz have "thenM (advance 1) parse_utf8 s
          = (Inr (utf_at s ?p), s\<lparr>ps_pos := ps_pos s + of_nat (size_at s ?p)\<rparr>)"
        by (simp add: add.assoc)
      with True len le sz show ?thesis unfolding go by simp
    next
      case False
      with tags le fx show ?thesis
        unfolding go by (auto simp: size_at_def all_tags_def)
    qed
  qed
  assume nf: "\<not> ?fits"
  obtain q where q: "snd (thenM (advance 1) parse_utf8 s) = s\<lparr>ps_pos := q\<rparr>"
      "ps_ok (s\<lparr>ps_pos := q\<rparr>)"
    using utf(2,3) by auto
  have s: "s = s\<lparr>ps_pos := ps_pos s\<rparr>" by simp
  show "\<exists>q. scan_constant s = (Inl (Exn ClassFormatError), s\<lparr>ps_pos := q\<rparr>) \<and> ps_ok (s\<lparr>ps_pos := q\<rparr>)"
  proof (cases "?tag = CONSTANT_Utf8")
    case True
    with nf utf(1) q have "thenM (advance 1) parse_utf8 s = (Inl (Exn ClassFormatError), s\<lparr>ps_pos := q\<rparr>)"
      by (auto simp: fits_at_def size_at_def all_tags_def split: if_splits)
    with True q show ?thesis unfolding go by auto
  next
    case False
    with nf fx have "scan_constant s = (Inl (Exn ClassFormatError), s)"
      unfolding go by (auto simp: fits_at_def size_at_def all_tags_def)
    with ok s show ?thesis by metis
  qed
qed

lemma scan_constant_moves:
  assumes ok: "ps_ok s" and f: "fits_at s (unat (ps_pos s))"
  shows "ps_ok (s\<lparr>ps_pos := ps_pos s + of_nat (size_at s (unat (ps_pos s)))\<rparr>)"
    and "unat (ps_pos s + of_nat (size_at s (unat (ps_pos s))))
      = unat (ps_pos s) + size_at s (unat (ps_pos s))"
proof -
  from f have le: "unat (ps_pos s) + size_at s (unat (ps_pos s)) \<le> unat (ps_length s)"
    by (simp add: fits_at_def)
  from unat_pos_plus [OF ok le] show u: "unat (ps_pos s + of_nat (size_at s (unat (ps_pos s))))
      = unat (ps_pos s) + size_at s (unat (ps_pos s))" .
  from u le ok show "ps_ok (s\<lparr>ps_pos := ps_pos s + of_nat (size_at s (unat (ps_pos s)))\<rparr>)"
    by (simp add: ps_ok_def word_le_nat_alt)
qed

lemma fits_at_pos: "fits_at s p \<Longrightarrow> p < unat (ps_length s)"
  by (auto simp: fits_at_def size_at_def split: if_splits)

section \<open>The layout of the pool\<close>

text \<open>
  \<open>laid s n i p\<close>: from byte \<open>p\<close> on the structure holds the constants \<open>i\<close>, ..., \<open>n - 1\<close>, the types
  recorded for them are their tags, and the second slot of a long or double keeps the type 0.
\<close>

inductive laid :: "parse_state \<Rightarrow> nat \<Rightarrow> nat \<Rightarrow> nat \<Rightarrow> bool" for s n where
  laid_end: "n \<le> i \<Longrightarrow> laid s n i p"
| laid_const: "i < n \<Longrightarrow> fits_at s p \<Longrightarrow>
    const_type (constants (ps_cfile s) ! (i - 1)) = tag_at s p \<Longrightarrow>
    (tag_at s p \<in> {CONSTANT_Long, CONSTANT_Double} \<Longrightarrow>
       i + 1 < n \<and> const_type (constants (ps_cfile s) ! i) = 0) \<Longrightarrow>
    laid s n (next_index (tag_at s p) i) (p + size_at s p) \<Longrightarrow> laid s n i p"

inductive_cases laid_E: "laid s n i p"

text \<open>The same buffer and class file, but for the values of the constants.\<close>

definition same_types :: "parse_state \<Rightarrow> parse_state \<Rightarrow> bool" where
  "same_types s t \<longleftrightarrow> ps_buf t = ps_buf s \<and> ps_base t = ps_base s \<and> ps_length t = ps_length s \<and>
     map const_type (constants (ps_cfile t)) = map const_type (constants (ps_cfile s)) \<and>
     num_constants (ps_cfile t) = num_constants (ps_cfile s)"

lemma same_types_refl: "same_types s s"
  by (simp add: same_types_def)

lemma same_types_trans: "same_types s t \<Longrightarrow> same_types t u \<Longrightarrow> same_types s u"
  by (simp add: same_types_def)

lemma same_types_at:
  assumes "same_types s t"
  shows "tag_at t p = tag_at s p" "size_at t p = size_at s p" "fits_at t p = fits_at s p"
    "utf_at t p = utf_at s p"
  using assms
  by (simp_all add: same_types_def tag_at_def size_at_def fits_at_def utf_at_def utf_len_at_def)

lemma same_types_nth:
  assumes "same_types s t" and "i < length (constants (ps_cfile s))"
  shows "const_type (constants (ps_cfile t) ! i) = const_type (constants (ps_cfile s) ! i)"
proof -
  from assms have "map const_type (constants (ps_cfile t)) ! i = map const_type (constants (ps_cfile s)) ! i"
      "length (constants (ps_cfile t)) = length (constants (ps_cfile s))"
    by (auto simp: same_types_def dest: map_eq_imp_length_eq)
  with assms(2) show ?thesis by simp
qed

lemma laid_same_types:
  assumes "laid s n i p" and "same_types s t" and "n - 1 \<le> length (constants (ps_cfile s))" and "1 \<le> i"
  shows "laid t n i p"
  using assms(1,4)
proof (induction rule: laid.induct)
  case (laid_end i p)
  then show ?case by (auto intro: laid.laid_end)
next
  case (laid_const i p)
  have e: "1 \<le> next_index (tag_at s p) i" by (simp add: next_index_def)
  have "i - 1 < length (constants (ps_cfile s))" using laid_const assms(3) by linarith
  then have a: "const_type (constants (ps_cfile t) ! (i - 1)) = tag_at t p"
    using same_types_nth [OF assms(2)] laid_const(3) same_types_at(1) [OF assms(2)] by simp
  have b: "i + 1 < n \<and> const_type (constants (ps_cfile t) ! i) = 0"
    if "tag_at t p \<in> {CONSTANT_Long, CONSTANT_Double}"
  proof -
    from that laid_const(4) same_types_at(1) [OF assms(2)]
    have z: "i + 1 < n" "const_type (constants (ps_cfile s) ! i) = 0" by auto
    then have "i < length (constants (ps_cfile s))" using assms(3) by linarith
    from same_types_nth [OF assms(2) this] z show ?thesis by simp
  qed
  from laid_const(6) [OF e] have c: "laid t n (next_index (tag_at t p) i) (p + size_at t p)"
    by (simp add: same_types_at [OF assms(2)])
  from laid_const(2) have d: "fits_at t p" by (simp add: same_types_at [OF assms(2)])
  show ?case by (rule laid.laid_const [OF laid_const(1) d a b c])
qed

section \<open>The first pass\<close>

text \<open>What a state looks like after writing the type of constant \<open>k\<close>, or the whole constant.\<close>

definition with_constant :: "nat \<Rightarrow> cf_constant \<Rightarrow> parse_state \<Rightarrow> parse_state" where
  "with_constant k c s =
     s\<lparr>ps_cfile := (ps_cfile s)\<lparr>constants := (constants (ps_cfile s))[k := c]\<rparr>\<rparr>"

lemma put_constant_eq:
  "k < length (constants (ps_cfile s)) \<Longrightarrow>
    put_constant k f s = (Inr (), with_constant k (f (constants (ps_cfile s) ! k)) s)"
  by (simp add: put_constant_def get_constant_def with_constant_def bindM_def liftM_def modify_def)

lemma get_constant_eq:
  "k < length (constants (ps_cfile s)) \<Longrightarrow> get_constant k s = (Inr (constants (ps_cfile s) ! k), s)"
  by (simp add: get_constant_def bindM_def liftM_def)

lemma with_constant_sel [simp]:
  "ps_buf (with_constant k c s) = ps_buf s" "ps_base (with_constant k c s) = ps_base s"
  "ps_length (with_constant k c s) = ps_length s" "ps_pos (with_constant k c s) = ps_pos s"
  "ps_nalloc (with_constant k c s) = ps_nalloc s" "ps_memok (with_constant k c s) = ps_memok s"
  "constants (ps_cfile (with_constant k c s)) = (constants (ps_cfile s))[k := c]"
  "num_constants (ps_cfile (with_constant k c s)) = num_constants (ps_cfile s)"
  by (simp_all add: with_constant_def)

lemma with_constant_at [simp]:
  "tag_at (with_constant k c s) p = tag_at s p" "size_at (with_constant k c s) p = size_at s p"
  "fits_at (with_constant k c s) p = fits_at s p" "utf_at (with_constant k c s) p = utf_at s p"
  "ps_ok (with_constant k c s) = ps_ok s"
  by (simp_all add: tag_at_def size_at_def fits_at_def utf_at_def utf_len_at_def ps_ok_def)

lemma pos_at [simp]:
  "tag_at (s\<lparr>ps_pos := q\<rparr>) p = tag_at s p" "size_at (s\<lparr>ps_pos := q\<rparr>) p = size_at s p"
  "fits_at (s\<lparr>ps_pos := q\<rparr>) p = fits_at s p" "utf_at (s\<lparr>ps_pos := q\<rparr>) p = utf_at s p"
  by (simp_all add: tag_at_def size_at_def fits_at_def utf_at_def utf_len_at_def)

text \<open>
  What the first pass has done when it stops at index \<open>i\<close>: same structure, same number of constants,
  nothing written below \<open>i\<close>.
\<close>

definition scanned_from :: "nat \<Rightarrow> parse_state \<Rightarrow> parse_state \<Rightarrow> bool" where
  "scanned_from i s t \<longleftrightarrow> ps_buf t = ps_buf s \<and> ps_base t = ps_base s \<and> ps_length t = ps_length s \<and>
     num_constants (ps_cfile t) = num_constants (ps_cfile s) \<and>
     length (constants (ps_cfile t)) = length (constants (ps_cfile s)) \<and>
     (\<forall>j. Suc j < i \<longrightarrow> constants (ps_cfile t) ! j = constants (ps_cfile s) ! j) \<and> ps_ok t"

lemma scanned_from_trans:
  "scanned_from i s t \<Longrightarrow> scanned_from j t u \<Longrightarrow> i \<le> j \<Longrightarrow> scanned_from i s u"
  by (simp add: scanned_from_def)

lemma scanned_from_const:
  "ps_ok (s\<lparr>ps_pos := q\<rparr>) \<Longrightarrow> ps_ok s \<Longrightarrow> scanned_from (Suc k) s ((with_constant k c s)\<lparr>ps_pos := q\<rparr>)"
  by (simp add: scanned_from_def ps_ok_def)

lemma scan_step:
  assumes ok: "ps_ok s" and extra: "ps_base s + unat (ps_length s) < length (ps_buf s)"
    and i: "1 \<le> i" "i < n" and len: "length (constants (ps_cfile s)) = n - 1"
  defines "p \<equiv> unat (ps_pos s)"
  defines "s' \<equiv> with_constant (i - 1) ((constants (ps_cfile s) ! (i - 1))\<lparr>const_type := tag_at s p\<rparr>) s"
  shows "fits_at s p \<and> ps_pos s < ps_length s \<Longrightarrow>
      cpool_scan n i a s =
       (if tag_at s p = CONSTANT_Utf8
        then cpool_scan n (i + 1) (a + ((of_nat (size_at s p) - 3) + 1))
        else if tag_at s p = CONSTANT_Long \<or> tag_at s p = CONSTANT_Double
        then (if n \<le> i + 1 then fails (Exn ClassFormatError) else cpool_scan n (i + 2) a)
        else cpool_scan n (i + 1) a) (s'\<lparr>ps_pos := ps_pos s + of_nat (size_at s p)\<rparr>)"
    and "\<not> (fits_at s p \<and> ps_pos s < ps_length s) \<Longrightarrow>
      \<exists>t. cpool_scan n i a s = (Inl (Exn ClassFormatError), t)"
proof -
  have ple: "p \<le> unat (ps_length s)" using ok by (simp add: p_def ps_ok_pos)
  then have tag: "byte_at_pos s = (Inr (tag_at s p), s)"
    using extra by (simp add: byte_at_pos_def tag_at_def p_def)
  have put: "put_constant (i - 1) (\<lambda>c. c\<lparr>const_type := tag_at s p\<rparr>) s = (Inr (), s')"
    unfolding s'_def using i len by (intro put_constant_eq) simp
  have s': "ps_ok s'" "ps_pos s' = ps_pos s" "ps_length s' = ps_length s"
    "\<And>q. tag_at s' q = tag_at s q" "\<And>q. size_at s' q = size_at s q" "\<And>q. fits_at s' q = fits_at s q"
    using ok by (simp_all add: s'_def)
  have pl: "ps_pos s \<le> ps_length s" using ok by (simp add: ps_ok_def)
  have go: "cpool_scan n i a s = bindM scan_constant (\<lambda>const_size.
         if tag_at s p = CONSTANT_Utf8 then cpool_scan n (i + 1) (a + ((const_size - 3) + 1))
         else if tag_at s p = CONSTANT_Long \<or> tag_at s p = CONSTANT_Double then
           (if n \<le> i + 1 then fails (Exn ClassFormatError) else cpool_scan n (i + 2) a)
         else cpool_scan n (i + 1) a) s'"
    by (subst cpool_scan.simps) (use i tag put in \<open>simp add: thenM_def\<close>)
  show "cpool_scan n i a s =
       (if tag_at s p = CONSTANT_Utf8
        then cpool_scan n (i + 1) (a + ((of_nat (size_at s p) - 3) + 1))
        else if tag_at s p = CONSTANT_Long \<or> tag_at s p = CONSTANT_Double
        then (if n \<le> i + 1 then fails (Exn ClassFormatError) else cpool_scan n (i + 2) a)
        else cpool_scan n (i + 1) a) (s'\<lparr>ps_pos := ps_pos s + of_nat (size_at s p)\<rparr>)"
    if f: "fits_at s p \<and> ps_pos s < ps_length s"
  proof -
    from f s' have lt: "ps_pos s' < ps_length s'" by simp
    from scan_constant_eq(1) [OF s'(1) lt] s' f
    have "scan_constant s' = (Inr (of_nat (size_at s p)), s'\<lparr>ps_pos := ps_pos s + of_nat (size_at s p)\<rparr>)"
      by (simp add: p_def)
    then show ?thesis unfolding go by simp
  qed
  show "\<exists>t. cpool_scan n i a s = (Inl (Exn ClassFormatError), t)"
    if f: "\<not> (fits_at s p \<and> ps_pos s < ps_length s)"
  proof (cases "ps_pos s < ps_length s")
    case False
    then have "scan_constant s' = (Inl (Exn ClassFormatError), s')"
      using pl s' by (intro scan_constant_end) auto
    then show ?thesis unfolding go by simp
  next
    case True
    then have lt: "ps_pos s' < ps_length s'" using s' by simp
    from f True scan_constant_eq(2) [OF s'(1) lt] s'
    obtain q where "scan_constant s' = (Inl (Exn ClassFormatError), s'\<lparr>ps_pos := q\<rparr>)"
      by (auto simp: p_def)
    then show ?thesis unfolding go by simp
  qed
qed

lemma scanned_from_at:
  assumes "scanned_from i s t"
  shows "tag_at t p = tag_at s p" "size_at t p = size_at s p" "fits_at t p = fits_at s p"
  using assms
  by (simp_all add: scanned_from_def tag_at_def size_at_def fits_at_def utf_at_def utf_len_at_def)

lemma scan_next:
  "fits_at s p \<Longrightarrow> tag_at s p \<in> {CONSTANT_Long, CONSTANT_Double} \<longrightarrow> i + 1 < n \<Longrightarrow>
   (if tag_at s p = CONSTANT_Utf8 then cpool_scan n (i + 1) b
    else if tag_at s p = CONSTANT_Long \<or> tag_at s p = CONSTANT_Double
    then (if n \<le> i + 1 then fails (Exn ClassFormatError) else cpool_scan n (i + 2) a)
    else cpool_scan n (i + 1) a) u
   = cpool_scan n (next_index (tag_at s p) i) (if tag_at s p = CONSTANT_Utf8 then b else a) u"
  by (auto simp: next_index_def)

lemma laid_after_scan:
  assumes i: "1 \<le> i" "i < n" and len: "length (constants (ps_cfile s)) = n - 1"
    and f: "fits_at s p" and long: "tag_at s p \<in> {CONSTANT_Long, CONSTANT_Double} \<longrightarrow> i + 1 < n"
    and zero: "\<forall>j. i \<le> j \<and> j < n - 1 \<longrightarrow> const_type (constants (ps_cfile s) ! j) = 0"
    and c: "const_type (constants (ps_cfile s) ! (i - 1)) = tag_at s p"
    and t: "scanned_from (next_index (tag_at s p) i) s t"
    and l: "laid t n (next_index (tag_at s p) i) (p + size_at s p)"
  shows "laid t n i p"
proof (rule laid.laid_const)
  note at = scanned_from_at [OF t]
  have keep: "Suc j < next_index (tag_at s p) i \<Longrightarrow> constants (ps_cfile t) ! j = constants (ps_cfile s) ! j" for j
    using t by (simp add: scanned_from_def)
  show "i < n" by (rule i)
  show "fits_at t p" using f at by simp
  show "const_type (constants (ps_cfile t) ! (i - 1)) = tag_at t p"
    using keep [of "i - 1"] next_index_gt [of i "tag_at s p"] i c at by simp
  show "laid t n (next_index (tag_at t p) i) (p + size_at t p)" using l at by simp
  assume tag: "tag_at t p \<in> {CONSTANT_Long, CONSTANT_Double}"
  then have lt: "i + 1 < n" and nx: "next_index (tag_at s p) i = i + 2"
    using long at by (auto simp: next_index_def)
  then show "i + 1 < n \<and> const_type (constants (ps_cfile t) ! i) = 0"
    using keep [of i] zero by auto
qed

lemma cpool_scan_laid:
  assumes "ps_ok s" and "ps_base s + unat (ps_length s) < length (ps_buf s)"
    and "1 \<le> i" and "length (constants (ps_cfile s)) = n - 1"
    and "\<forall>j. i \<le> Suc j \<and> j < n - 1 \<longrightarrow> const_type (constants (ps_cfile s) ! j) = 0"
  shows "case cpool_scan n i a s of
      (Inr b, t) \<Rightarrow> scanned_from i s t \<and> laid t n i (unat (ps_pos s))
    | (Inl e, t) \<Rightarrow> \<not> is_fault e"
  using assms
proof (induction "n - i" arbitrary: i a s rule: less_induct)
  case less
  let ?p = "unat (ps_pos s)"
  show ?case
  proof (cases "i < n")
    case False
    then show ?thesis
      using less.prems by (subst cpool_scan.simps) (auto simp: scanned_from_def ret_apply intro: laid_end)
  next
    case i: True
    let ?tag = "tag_at s ?p"
    let ?c = "(constants (ps_cfile s) ! (i - 1))\<lparr>const_type := ?tag\<rparr>"
    let ?s = "(with_constant (i - 1) ?c s)\<lparr>ps_pos := ps_pos s + of_nat (size_at s ?p)\<rparr>"
    note step = scan_step [OF less.prems(1,2,3) i less.prems(4), of a]
    show ?thesis
    proof (cases "fits_at s ?p \<and> ps_pos s < ps_length s
        \<and> (?tag \<in> {CONSTANT_Long, CONSTANT_Double} \<longrightarrow> i + 1 < n)")
      case False
      have "\<exists>t. cpool_scan n i a s = (Inl (Exn ClassFormatError), t)"
      proof (cases "fits_at s ?p \<and> ps_pos s < ps_length s")
        case True
        with False have "?tag \<in> {CONSTANT_Long, CONSTANT_Double}" "n \<le> i + 1" by auto
        with True show ?thesis by (subst step(1)) (auto simp: fails_apply)
      next
        case False
        then show ?thesis by (rule step(2))
      qed
      then show ?thesis by auto
    next
      case True
      then have f: "fits_at s ?p" and lt: "ps_pos s < ps_length s"
        and long: "?tag \<in> {CONSTANT_Long, CONSTANT_Double} \<longrightarrow> i + 1 < n" by auto
      have rec: "cpool_scan n i a s = cpool_scan n (next_index ?tag i)
          (if ?tag = CONSTANT_Utf8 then a + ((of_nat (size_at s ?p) - 3) + 1) else a) ?s"
        by (subst step(1)) (use f lt scan_next [OF f long] in simp_all)
      note mv = scan_constant_moves [OF less.prems(1) f]
      have ok': "ps_ok ?s" using mv(1) less.prems(1) by (simp add: ps_ok_def)
      have ge: "i < next_index ?tag i" by simp
      have zero': "\<forall>j. i \<le> j \<and> j < n - 1 \<longrightarrow> const_type (constants (ps_cfile ?s) ! j) = 0"
        using less.prems(3,5) by (auto simp: nth_list_update)
      have one: "1 \<le> next_index ?tag i" using ge less.prems(3) by linarith
      have zero'': "\<forall>j. next_index ?tag i \<le> Suc j \<and> j < n - 1
          \<longrightarrow> const_type (constants (ps_cfile ?s) ! j) = 0"
        using zero' ge by (meson less_Suc_eq_le order_less_le_trans)
      have IH: "case cpool_scan n (next_index ?tag i) b ?s of
          (Inr _, t) \<Rightarrow> scanned_from (next_index ?tag i) ?s t
              \<and> laid t n (next_index ?tag i) (unat (ps_pos ?s))
        | (Inl e, t) \<Rightarrow> \<not> is_fault e" for b
        by (rule less.hyps [OF _ ok' _ one _ zero'']) (use i ge less.prems in \<open>simp_all add: diff_less_mono2\<close>)
      have sf: "scanned_from i s ?s"
        using scanned_from_const [of _ s "i - 1"] ok' less.prems(1,3) by (simp add: scanned_from_def)
      have fin: "scanned_from i s t \<and> laid t n i ?p"
        if t: "scanned_from (next_index ?tag i) ?s t" "laid t n (next_index ?tag i) (unat (ps_pos ?s))" for t
      proof
        show "scanned_from i s t" by (rule scanned_from_trans [OF sf t(1)]) (simp add: less_imp_le)
        show "laid t n i ?p"
          by (rule laid_after_scan [where s = ?s])
            (use less.prems(3,4) i f long zero' t mv(2) in simp_all)
      qed
      show ?thesis
        unfolding rec using IH [of "if ?tag = CONSTANT_Utf8 then a + ((of_nat (size_at s ?p) - 3) + 1) else a"]
          fin by (auto split: prod.splits sum.splits)
    qed
  qed
qed

section \<open>The later passes\<close>

text \<open>
  An action of a pass, on a constant whose type is known: it fills in the constant (or leaves it) and
  moves to the next one. \<open>S\<close> are the types the pool is typed for, \<open>N\<close> those the pass adds.
\<close>

definition acts :: "u8 set \<Rightarrow> u8 set \<Rightarrow> (nat \<Rightarrow> u8 \<Rightarrow> unit parser) \<Rightarrow> bool" where
  "acts S N act \<longleftrightarrow> (\<forall>s i. ps_inv S s \<and> i < length (constants (ps_cfile s)) \<and>
     fits_at s (unat (ps_pos s)) \<and> const_type (constants (ps_cfile s) ! i) = tag_at s (unat (ps_pos s)) \<longrightarrow>
     (case act i (tag_at s (unat (ps_pos s))) s of
        (Inr _, t) \<Rightarrow> \<exists>c. t = (with_constant i c s)\<lparr>ps_pos := ps_pos s + of_nat (size_at s (unat (ps_pos s)))\<rparr>
          \<and> const_type c = tag_at s (unat (ps_pos s)) \<and> (const_type c \<in> S \<union> N \<longrightarrow> const_typed c)
      | (Inl e, t) \<Rightarrow> \<not> is_fault e))"

lemma actsD:
  assumes "acts S N act" and "ps_inv S s" and "i < length (constants (ps_cfile s))"
    and "fits_at s (unat (ps_pos s))" and "const_type (constants (ps_cfile s) ! i) = tag_at s (unat (ps_pos s))"
  shows "case act i (tag_at s (unat (ps_pos s))) s of
        (Inr _, t) \<Rightarrow> \<exists>c. t = (with_constant i c s)\<lparr>ps_pos := ps_pos s + of_nat (size_at s (unat (ps_pos s)))\<rparr>
          \<and> const_type c = tag_at s (unat (ps_pos s)) \<and> (const_type c \<in> S \<union> N \<longrightarrow> const_typed c)
      | (Inl e, t) \<Rightarrow> \<not> is_fault e"
  by (rule assms(1) [unfolded acts_def, rule_format]) (use assms in simp)

lemma cpool_typed_nth:
  "cpool_typed S cf \<longleftrightarrow> length (constants cf) = unat (num_constants cf) - 1 \<and>
     (\<forall>j < length (constants cf). const_type (constants cf ! j) \<in> S \<longrightarrow> const_typed (constants cf ! j))"
  by (auto simp: cpool_typed_def all_set_conv_all_nth)

lemma nth_update_iff: "j < length xs \<Longrightarrow> xs[i := c] ! j = (if i = j then c else xs ! j)"
  by simp

lemma with_constant_inv:
  assumes s: "ps_inv S s" and f: "fits_at s (unat (ps_pos s))" and c: "const_type c \<in> S \<longrightarrow> const_typed c"
  shows "ps_inv S ((with_constant i c s)\<lparr>ps_pos := ps_pos s + of_nat (size_at s (unat (ps_pos s)))\<rparr>)"
proof -
  from s f scan_constant_moves(1) have "ps_ok (s\<lparr>ps_pos := ps_pos s + of_nat (size_at s (unat (ps_pos s)))\<rparr>)"
    by (auto simp: ps_inv_def)
  with s c show ?thesis
    by (auto simp: ps_inv_def cpool_typed_nth nth_update_iff ps_ok_def)
qed

lemma with_constant_same_types:
  "const_type c = const_type (constants (ps_cfile s) ! i) \<Longrightarrow> i < length (constants (ps_cfile s)) \<Longrightarrow>
    same_types s ((with_constant i c s)\<lparr>ps_pos := q\<rparr>)"
  by (simp add: same_types_def map_update list_update_same_conv)

lemma cpool_pass_end:
  assumes s: "ps_inv S s" and i: "n \<le> i" and len: "length (constants (ps_cfile s)) = n - 1"
    and N: "\<forall>j. Suc j < i \<and> j < n - 1 \<longrightarrow> const_type (constants (ps_cfile s) ! j) \<in> N
      \<longrightarrow> const_typed (constants (ps_cfile s) ! j)"
  shows "ps_inv (S \<union> N) s"
proof -
  have "const_typed (constants (ps_cfile s) ! j)"
    if "j < n - 1" and "const_type (constants (ps_cfile s) ! j) \<in> N" for j
  proof -
    from that(1) i have "Suc j < i" by linarith
    with that N show ?thesis by simp
  qed
  with s len show ?thesis by (auto simp: ps_inv_def cpool_typed_nth)
qed

lemma cpool_pass_typed:
  assumes act: "acts S N act" and N0: "0 \<notin> N"
    and "ps_inv S s" and "1 \<le> i" and "length (constants (ps_cfile s)) = n - 1"
    and "laid s n i (unat (ps_pos s))"
    and "\<forall>j. Suc j < i \<and> j < n - 1 \<longrightarrow> const_type (constants (ps_cfile s) ! j) \<in> N
      \<longrightarrow> const_typed (constants (ps_cfile s) ! j)"
  shows "case cpool_pass act n i s of
      (Inr _, t) \<Rightarrow> ps_inv (S \<union> N) t \<and> same_types s t
    | (Inl e, t) \<Rightarrow> \<not> is_fault e"
  using assms(3-)
proof (induction "n - i" arbitrary: i s rule: less_induct)
  case less
  let ?p = "unat (ps_pos s)" and ?cs = "constants (ps_cfile s)"
  let ?tag = "tag_at s ?p"
  show ?case
  proof (cases "i < n")
    case False
    then have "n \<le> i" by simp
    from False cpool_pass_end [OF less.prems(1) this less.prems(3,5)] show ?thesis
      by (subst cpool_pass.simps) (simp add: ret_apply same_types_refl)
  next
    case i: True
    have k: "i - 1 < length ?cs" using i less.prems by simp
    from less.prems(4) i have lay: "fits_at s ?p" "const_type (?cs ! (i - 1)) = ?tag"
      "?tag \<in> {CONSTANT_Long, CONSTANT_Double} \<Longrightarrow> i + 1 < n \<and> const_type (?cs ! i) = 0"
      "laid s n (next_index ?tag i) (?p + size_at s ?p)"
      by (auto elim: laid_E)
    have go: "cpool_pass act n i s = thenM (act (i - 1) ?tag) (cpool_pass act n (next_index ?tag i)) s"
      by (subst cpool_pass.simps) (use i lay(2) get_constant_eq [OF k] in simp)
    note A = actsD [OF act less.prems(1) k lay(1,2)]
    obtain r t where rt: "act (i - 1) ?tag s = (r, t)" by (cases "act (i - 1) ?tag s")
    show ?thesis
    proof (cases r)
      case (Inl e)
      with A rt show ?thesis unfolding go by simp
    next
      case (Inr x)
      with A rt obtain c where
        t: "t = (with_constant (i - 1) c s)\<lparr>ps_pos := ps_pos s + of_nat (size_at s ?p)\<rparr>"
        and c: "const_type c = ?tag" "const_type c \<in> S \<union> N \<longrightarrow> const_typed c"
        by auto
      from rt Inr have go': "cpool_pass act n i s = cpool_pass act n (next_index ?tag i) t"
        unfolding go by simp
      have inv_t: "ps_inv S t" unfolding t by (rule with_constant_inv [OF less.prems(1) lay(1)]) (use c in simp)
      have st: "same_types s t" unfolding t by (rule with_constant_same_types [OF _ k]) (use c lay(2) in simp)
      have gt: "i < next_index ?tag i" by simp
      then have one: "1 \<le> next_index ?tag i" by linarith
      have pos: "unat (ps_pos t) = ?p + size_at s ?p"
        using less.prems(1) scan_constant_moves(2) [OF _ lay(1)] by (simp add: t ps_inv_def)
      have lt: "laid t n (next_index ?tag i) (unat (ps_pos t))"
        unfolding pos by (rule laid_same_types [OF lay(4) st]) (use less.prems(3,2) one in simp_all)
      have typed: "const_typed (constants (ps_cfile t) ! j)"
        if j: "Suc j < next_index ?tag i" "j < n - 1" "const_type (constants (ps_cfile t) ! j) \<in> N" for j
      proof -
        have "Suc j < i \<or> j = i - 1 \<or> j = i \<and> ?tag \<in> {CONSTANT_Long, CONSTANT_Double}"
          using j(1) less.prems(2) by (auto simp: next_index_def split: if_splits)
        then consider "Suc j < i" | "j = i - 1" | "j = i" "?tag \<in> {CONSTANT_Long, CONSTANT_Double}"
          by blast
        then show ?thesis
        proof cases
          case 1
          then have "j \<noteq> i - 1" by simp
          with 1 j less.prems(5) show ?thesis by (simp add: t)
        next
          case 2
          with k j c show ?thesis by (simp add: t)
        next
          case 3
          with lay(3) less.prems(2) have "const_type (constants (ps_cfile t) ! j) = 0" by (simp add: t)
          with j(3) N0 show ?thesis by simp
        qed
      qed
      have IH: "case cpool_pass act n (next_index ?tag i) t of
          (Inr _, u) \<Rightarrow> ps_inv (S \<union> N) u \<and> same_types t u | (Inl e, u) \<Rightarrow> \<not> is_fault e"
        by (rule less.hyps [OF _ inv_t one _ lt])
          (use i gt typed less.prems(2,3) in \<open>simp_all add: t diff_less_mono2\<close>)
      then show ?thesis unfolding go' using same_types_trans [OF st] by (auto split: prod.splits sum.splits)
    qed
  qed
qed

section \<open>The actions of the passes\<close>

lemma same_constant: "i < length (constants (ps_cfile s)) \<Longrightarrow> with_constant i (constants (ps_cfile s) ! i) s = s"
  by (simp add: with_constant_def)

lemma acts_scan:
  assumes s: "ps_inv S s" and i: "i < length (constants (ps_cfile s))" and f: "fits_at s (unat (ps_pos s))"
  shows "ignoreM scan_constant s = (Inr (),
      (with_constant i (constants (ps_cfile s) ! i) s)\<lparr>ps_pos := ps_pos s + of_nat (size_at s (unat (ps_pos s)))\<rparr>)"
  using scan_constant_eq(1) [of s] s f fits_at_pos [OF f] same_constant [OF i]
  by (simp add: ignoreM_def ps_inv_def word_less_nat_alt)

lemma typed_old:
  "ps_inv S s \<Longrightarrow> i < length (constants (ps_cfile s)) \<Longrightarrow>
    const_type (constants (ps_cfile s) ! i) \<in> S \<Longrightarrow> const_typed (constants (ps_cfile s) ! i)"
  by (simp add: ps_inv_def cpool_typed_nth)

lemma acts_pass_utf8: "acts {} {CONSTANT_Utf8} pass_utf8"
  unfolding acts_def
proof (intro allI impI, elim conjE)
  fix s :: parse_state and i
  let ?p = "unat (ps_pos s)" and ?c = "constants (ps_cfile s) ! i"
  assume s: "ps_inv {} s" and i: "i < length (constants (ps_cfile s))" and f: "fits_at s ?p"
    and ty: "const_type ?c = tag_at s ?p"
  show "case pass_utf8 i (tag_at s ?p) s of
        (Inr _, t) \<Rightarrow> \<exists>c. t = (with_constant i c s)\<lparr>ps_pos := ps_pos s + of_nat (size_at s ?p)\<rparr>
          \<and> const_type c = tag_at s ?p \<and> (const_type c \<in> {} \<union> {CONSTANT_Utf8} \<longrightarrow> const_typed c)
      | (Inl e, t) \<Rightarrow> \<not> is_fault e"
  proof (cases "tag_at s ?p = CONSTANT_Utf8")
    case False
    with acts_scan [OF s i f] ty show ?thesis by (auto simp: pass_utf8_def)
  next
    case True
    have ok: "ps_ok s" and lt: "ps_pos s < ps_length s"
      using s fits_at_pos [OF f] by (auto simp: ps_inv_def word_less_nat_alt)
    from f True have fit: "?p + 3 + unat (utf_len_at s ?p) \<le> unat (ps_length s)"
        "utf_decode (utf_at s ?p) \<noteq> None" "size_at s ?p = 3 + unat (utf_len_at s ?p)"
      by (auto simp: fits_at_def size_at_def)
    let ?s = "s\<lparr>ps_pos := ps_pos s + of_nat (size_at s ?p)\<rparr>"
    from parse_utf8_at(1) [OF ok lt] fit
    have u: "thenM (advance 1) parse_utf8 s = (Inr (utf_at s ?p), ?s)" by simp
    have "pass_utf8 i (tag_at s ?p) s
        = bindM (thenM (advance 1) parse_utf8)
            (\<lambda>utf. put_constant i (\<lambda>c. c\<lparr>const_val := Utf8_val utf\<rparr>)) s"
      using True by (simp add: pass_utf8_def thenM_def bindM_assoc)
    also have "\<dots> = (Inr (), with_constant i (?c\<lparr>const_val := Utf8_val (utf_at s ?p)\<rparr>) ?s)"
      using u i by (simp add: put_constant_eq)
    finally have r: "pass_utf8 i (tag_at s ?p) s
        = (Inr (), (with_constant i (?c\<lparr>const_val := Utf8_val (utf_at s ?p)\<rparr>) s)
            \<lparr>ps_pos := ps_pos s + of_nat (size_at s ?p)\<rparr>)"
      by (simp add: with_constant_def)
    show ?thesis unfolding r
      using True ty by (auto intro!: exI [of _ "?c\<lparr>const_val := Utf8_val (utf_at s ?p)\<rparr>"] simp: const_typed_def)
  qed
qed

text \<open>The types a constant of a given type refers to.\<close>

definition needs :: "u8 \<Rightarrow> u8 set" where
  "needs type =
    (if type \<in> {CONSTANT_Class, CONSTANT_String, CONSTANT_NameAndType} then {CONSTANT_Utf8}
     else if type \<in> {CONSTANT_Fieldref, CONSTANT_Methodref, CONSTANT_InterfaceMethodref}
     then {CONSTANT_Class, CONSTANT_NameAndType} else {})"

definition fixed_size :: "u8 \<Rightarrow> u32" where
  "fixed_size type =
    (if type \<in> {CONSTANT_Class, CONSTANT_String} then 2
     else if type \<in> {CONSTANT_Long, CONSTANT_Double} then 8 else 4)"

lemma takes_constant_info:
  assumes "type \<noteq> CONSTANT_Utf8"
  shows "takes (fixed_size type) (parse_constant_info type)"
proof -
  have "takes (2 + 2) (bindM parse_class1 (\<lambda>cls.
       bindM (parse_cpool_index16 [CONSTANT_NameAndType] False) (\<lambda>cp2.
       bindM (liftM (non_null cp2)) (\<lambda>c2.
       bindM (liftM (union_NameAndType (const_val c2))) (\<lambda>nt.
         ret (Some (Ref_val \<lparr>ref_class = cls, ref_name = fst nt, ref_descriptor = snd nt\<rparr>)))))))"
    by (intro takes_bind takes_refs takes_bind0 takes_cpool_index16 takes_none)
  moreover have "takes (2 + 2) (bindM parse_string1 (\<lambda>n. bindM parse_string1 (\<lambda>d.
      ret (Some (NameAndType_val n d)))))"
    by (intro takes_bind takes_refs takes_bind0 takes_none)
  ultimately show ?thesis
    using assms unfolding parse_constant_info_def fixed_size_def
    by (auto intro!: takes_bind0 takes_ints takes_refs takes_none)
qed

lemma reads_constant_info:
  assumes "type \<noteq> CONSTANT_Utf8" and "needs type \<subseteq> S"
  shows "reads S (parse_constant_info type) (\<lambda>r. \<exists>v. r = Some v \<and> type \<in> value_tag v)"
proof -
  have nt: "reads S (bindM (liftM (union_NameAndType (const_val c))) (\<lambda>nt.
         ret (Some (Ref_val \<lparr>ref_class = cls, ref_name = fst nt, ref_descriptor = snd nt\<rparr>))))
       (\<lambda>r. \<exists>v. r = Some v \<and> type' \<in> value_tag v)"
    if "type' \<in> {CONSTANT_Fieldref, CONSTANT_Methodref, CONSTANT_InterfaceMethodref}"
      and "const_type c = CONSTANT_NameAndType" "const_typed c" for c cls type'
  proof -
    from that const_typed_NameAndType obtain n d where "const_val c = NameAndType_val n d" by blast
    with that(1) show ?thesis by (auto intro!: rd.safe_ret)
  qed
  show ?thesis
    using assms unfolding parse_constant_info_def needs_def
    by (auto intro!: safe_if rd.safe_bind [OF reads_string1] rd.safe_bind [OF reads_class1]
        rd.safe_bind [OF reads_cpool_index16] rd.safe_bind [OF reads_ints(3)]
        rd.safe_bind [OF reads_ints(4)] rd.safe_bind [OF reads_floats(1)]
        rd.safe_bind [OF reads_floats(2)] rd.safe_ret rd.safe_fails nt)
qed

lemma size_fixed:
  "tag_at s p \<noteq> CONSTANT_Utf8 \<Longrightarrow> (of_nat (size_at s p) :: u32) = 1 + fixed_size (tag_at s p)"
  by (simp add: size_at_def fixed_size_def)

lemma ps_inv_rest:
  assumes s: "ps_inv S s" and f: "fits_at s (unat (ps_pos s))"
  shows "parse_uint8 s = (Inr (tag_at s (unat (ps_pos s))), s\<lparr>ps_pos := ps_pos s + 1\<rparr>)"
    and "ps_inv S (s\<lparr>ps_pos := ps_pos s + 1\<rparr>)"
proof -
  have ok: "ps_ok s" and lt: "unat (ps_pos s) < unat (ps_length s)"
    using s fits_at_pos [OF f] by (auto simp: ps_inv_def)
  have inb: "ps_base s + unat (ps_pos s) < length (ps_buf s)" using ok lt by (simp add: ps_ok_def)
  with lt show "parse_uint8 s = (Inr (tag_at s (unat (ps_pos s))), s\<lparr>ps_pos := ps_pos s + 1\<rparr>)"
    by (simp add: parse_uint8_def tag_at_def word_le_nat_alt)
  then show "ps_inv S (s\<lparr>ps_pos := ps_pos s + 1\<rparr>)"
    using safeD_Inr [OF reads_uint8 s] by auto
qed

text \<open>A call of \<open>_jc_parse_constant\<close> on a constant whose type byte has been recorded before.\<close>

lemma parse_constant_acts:
  assumes s: "ps_inv S s" and i: "i < length (constants (ps_cfile s))" and f: "fits_at s (unat (ps_pos s))"
    and ty: "const_type (constants (ps_cfile s) ! i) = tag_at s (unat (ps_pos s))"
    and nu: "tag_at s (unat (ps_pos s)) \<noteq> CONSTANT_Utf8" and nd: "needs (tag_at s (unat (ps_pos s))) \<subseteq> S"
  shows "case parse_constant i s of
        (Inr _, t) \<Rightarrow> \<exists>c. t = (with_constant i c s)\<lparr>ps_pos := ps_pos s + of_nat (size_at s (unat (ps_pos s)))\<rparr>
          \<and> const_type c = tag_at s (unat (ps_pos s)) \<and> const_typed c
      | (Inl e, t) \<Rightarrow> \<not> is_fault e"
proof -
  let ?p = "unat (ps_pos s)"
  let ?tag = "tag_at s ?p" and ?c = "constants (ps_cfile s) ! i"
  let ?s = "s\<lparr>ps_pos := ps_pos s + 1\<rparr>"
  note u8 = ps_inv_rest [OF s f]
  have c: "?c\<lparr>const_type := ?tag\<rparr> = ?c" using ty by (cases ?c) simp
  have "put_constant i (\<lambda>c. c\<lparr>const_type := ?tag\<rparr>) ?s = (Inr (), ?s)"
    using i same_constant [of i ?s] c by (simp add: put_constant_eq)
  then have go: "parse_constant i s = bindM (parse_constant_info ?tag) (\<lambda>v.
       case v of None \<Rightarrow> ret () | Some u \<Rightarrow> put_constant i (\<lambda>c. c\<lparr>const_val := u\<rparr>)) ?s"
    using u8(1) by (simp add: parse_constant_def)
  note R = reads_constant_info [OF nu nd]
  obtain r t where rt: "parse_constant_info ?tag ?s = (r, t)" by (cases "parse_constant_info ?tag ?s")
  show ?thesis
  proof (cases r)
    case (Inl e)
    with rt safeD_Fault [OF R u8(2)] show ?thesis unfolding go by (cases e) auto
  next
    case (Inr x)
    with rt safeD_Inr [OF R u8(2)] obtain v where v: "x = Some v" "?tag \<in> value_tag v" by blast
    have "ps_ok ?s" using u8(2) by (simp add: ps_inv_def)
    from takesD [OF takes_constant_info [OF nu] this rt [unfolded Inr]]
    have t: "t = s\<lparr>ps_pos := ps_pos s + of_nat (size_at s ?p)\<rparr>"
      using size_fixed [OF nu] by (simp add: add.assoc)
    have "parse_constant i s = (Inr (), with_constant i (?c\<lparr>const_val := v\<rparr>) t)"
      using rt Inr v(1) i t by (simp add: go put_constant_eq)
    moreover have "const_typed (?c\<lparr>const_val := v\<rparr>)" using v(2) ty by (simp add: const_typed_def)
    ultimately show ?thesis
      using ty t by (auto intro!: exI [of _ "?c\<lparr>const_val := v\<rparr>"] simp: with_constant_def)
  qed
qed

lemma acts_if:
  assumes N: "\<And>tag. tag \<in> N \<Longrightarrow> tag \<noteq> CONSTANT_Utf8 \<and> needs tag \<subseteq> S"
    and act: "\<And>i tag. tag \<in> all_tags \<Longrightarrow>
      act i tag = (if tag \<in> N then parse_constant i else ignoreM scan_constant)"
  shows "acts S N act"
  unfolding acts_def
proof (intro allI impI, elim conjE)
  fix s :: parse_state and i
  let ?p = "unat (ps_pos s)" and ?c = "constants (ps_cfile s) ! i"
  assume s: "ps_inv S s" and i: "i < length (constants (ps_cfile s))" and f: "fits_at s ?p"
    and ty: "const_type ?c = tag_at s ?p"
  from f have tag: "tag_at s ?p \<in> all_tags" by (simp add: fits_at_def)
  show "case act i (tag_at s ?p) s of
        (Inr _, t) \<Rightarrow> \<exists>c. t = (with_constant i c s)\<lparr>ps_pos := ps_pos s + of_nat (size_at s ?p)\<rparr>
          \<and> const_type c = tag_at s ?p \<and> (const_type c \<in> S \<union> N \<longrightarrow> const_typed c)
      | (Inl e, t) \<Rightarrow> \<not> is_fault e"
  proof (cases "tag_at s ?p \<in> N")
    case True
    with parse_constant_acts [OF s i f ty] N act tag show ?thesis by (auto split: prod.splits sum.splits)
  next
    case False
    with acts_scan [OF s i f] act tag ty typed_old [OF s i] show ?thesis by auto
  qed
qed

lemma acts_pass_class_string: "acts {CONSTANT_Utf8} {CONSTANT_Class, CONSTANT_String} pass_class_string"
  by (rule acts_if) (auto simp: needs_def pass_class_string_def)

lemma acts_pass_name_type:
  "acts {CONSTANT_Utf8, CONSTANT_Class, CONSTANT_String} {CONSTANT_NameAndType} pass_name_type"
  by (rule acts_if) (auto simp: needs_def pass_name_type_def)

lemma acts_pass_rest:
  "acts {CONSTANT_Utf8, CONSTANT_Class, CONSTANT_String, CONSTANT_NameAndType}
    (all_tags - {CONSTANT_Utf8, CONSTANT_Class, CONSTANT_String, CONSTANT_NameAndType}) pass_rest"
  by (rule acts_if) (auto simp: needs_def pass_rest_def all_tags_def)

section \<open>The pool parser\<close>

lemma leads_alloc:
  "ps_inv S s \<Longrightarrow> leads (vm_alloc n) s (\<lambda>_ t. \<exists>k. t = s\<lparr>ps_nalloc := k\<rparr>)"
  by (auto simp: leads_def vm_alloc_def)

lemma set_cfile_apply: "set_cfile f s = (Inr (), s\<lparr>ps_cfile := f (ps_cfile s)\<rparr>)"
  by (simp add: set_cfile_def modify_def)

text \<open>The state in front of each pass: back at the start of the pool, typed for \<open>S\<close>.\<close>

definition pool_ready :: "parse_state \<Rightarrow> u32 \<Rightarrow> nat \<Rightarrow> u8 set \<Rightarrow> parse_state \<Rightarrow> bool" where
  "pool_ready s0 start n S t \<longleftrightarrow> ps_inv S t \<and> length (constants (ps_cfile t)) = n - 1 \<and>
     ps_pos t = start \<and> laid t n 1 (unat start) \<and>
     ps_buf t = ps_buf s0 \<and> ps_base t = ps_base s0 \<and> ps_length t = ps_length s0"

lemma pass_ready:
  assumes act: "acts S N act" and N0: "0 \<notin> N" and r: "pool_ready s0 start n S s"
  shows "leads (cpool_pass act n 1) s (\<lambda>_ t. pool_ready s0 start n (S \<union> N) (t\<lparr>ps_pos := start\<rparr>)
      \<and> ps_inv (S \<union> N) t)"
proof -
  have s: "ps_inv S s" "length (constants (ps_cfile s)) = n - 1" "laid s n 1 (unat (ps_pos s))"
      "ps_pos s = start"
    using r by (auto simp: pool_ready_def)
  from cpool_pass_typed [OF act N0 s(1) _ s(2,3)]
  have "leads (cpool_pass act n 1) s (\<lambda>_ t. ps_inv (S \<union> N) t \<and> same_types s t)"
    by (auto simp: leads_def)
  then show ?thesis
  proof (rule leads_weaken)
    fix t
    assume t: "ps_inv (S \<union> N) t \<and> same_types s t"
    then have st: "same_types s t" by simp
    from laid_same_types [OF s(3) st] s(2) have "laid t n 1 (unat start)" by (simp add: s(4))
    moreover have "same_types t (t\<lparr>ps_pos := start\<rparr>)" by (simp add: same_types_def)
    moreover have len: "length (constants (ps_cfile t)) = n - 1"
      using st s(2) by (auto simp: same_types_def dest: map_eq_imp_length_eq)
    ultimately have "laid (t\<lparr>ps_pos := start\<rparr>) n 1 (unat start)" using laid_same_types by fastforce
    moreover have "ps_inv (S \<union> N) (t\<lparr>ps_pos := start\<rparr>)"
      using t s(1,4) by (auto simp: ps_inv_def ps_ok_def same_types_def)
    ultimately show "pool_ready s0 start n (S \<union> N) (t\<lparr>ps_pos := start\<rparr>) \<and> ps_inv (S \<union> N) t"
      using t r len by (simp add: pool_ready_def same_types_def)
  qed
qed

lemma leads_set_pos: "Q () (s\<lparr>ps_pos := p\<rparr>) \<Longrightarrow> leads (set_pos p) s Q"
  by (simp add: set_pos_def leads_modify)

lemma leads_set_pos_then: "leads m (s\<lparr>ps_pos := p\<rparr>) Q \<Longrightarrow> leads (thenM (set_pos p) m) s Q"
  by (rule leads_then [where R = "\<lambda>t. t = s\<lparr>ps_pos := p\<rparr>"]) (auto intro: leads_set_pos)

lemma pass_then:
  assumes act: "acts S N act" "0 \<notin> N" and t: "pool_ready s0 start n S t" and S': "S' = S \<union> N"
    and m: "\<And>u. pool_ready s0 start n S' u \<Longrightarrow> leads m u Q"
  shows "leads (thenM (cpool_pass act n 1) (thenM (set_pos start) m)) t Q"
  by (rule leads_then [OF pass_ready [OF act t]]) (rule leads_set_pos_then, rule m, simp add: S')

lemma passes_typed:
  assumes s: "ps_ok s" and extra: "ps_base s + unat (ps_length s) < length (ps_buf s)"
    and len: "length (constants (ps_cfile s)) = n - 1" and num: "n = unat (num_constants (ps_cfile s))"
    and zero: "\<forall>j < n - 1. constants (ps_cfile s) ! j = zero_constant"
  shows "leads (parse_cpool_passes n) s (\<lambda>_ t. ps_inv all_tags t \<and> ps_buf t = ps_buf s
     \<and> ps_base t = ps_base s \<and> ps_length t = ps_length s)"
proof -
  let ?p = "ps_pos s"
  have scan: "leads (cpool_scan n 1 0) s (\<lambda>_ t. scanned_from 1 s t \<and> laid t n 1 (unat ?p))"
  proof -
    have "\<forall>j. 1 \<le> Suc j \<and> j < n - 1 \<longrightarrow> const_type (constants (ps_cfile s) ! j) = 0"
      using zero by (simp add: zero_constant_def)
    from cpool_scan_laid [OF s extra order.refl len this, of 0] show ?thesis unfolding leads_def .
  qed
  have ready: "pool_ready s ?p n {} (t\<lparr>ps_nalloc := k, ps_pos := ?p\<rparr>)"
    if t: "scanned_from 1 s t \<and> laid t n 1 (unat ?p)" for t k
  proof -
    have "same_types t (t\<lparr>ps_nalloc := k, ps_pos := ?p\<rparr>)" by (simp add: same_types_def)
    with t len laid_same_types have "laid (t\<lparr>ps_nalloc := k, ps_pos := ?p\<rparr>) n 1 (unat ?p)"
      by (fastforce simp: scanned_from_def)
    with t len num s show ?thesis
      by (simp add: pool_ready_def scanned_from_def ps_inv_def cpool_typed_nth ps_ok_def)
  qed
  have rest: "leads (thenM (cpool_pass pass_utf8 n 1) (thenM (set_pos ?p) (
       thenM (cpool_pass pass_class_string n 1) (thenM (set_pos ?p) (
       thenM (cpool_pass pass_name_type n 1) (thenM (set_pos ?p) (cpool_pass pass_rest n 1))))))) u
       (\<lambda>_ t. ps_inv all_tags t \<and> ps_buf t = ps_buf s \<and> ps_base t = ps_base s
            \<and> ps_length t = ps_length s)"
    if u: "pool_ready s ?p n {} u" for u
  proof (rule pass_then [OF acts_pass_utf8 _ u], simp, rule refl,
      rule pass_then [OF acts_pass_class_string], simp, simp, rule refl,
      rule pass_then [OF acts_pass_name_type], simp, simp add: insert_commute, rule refl)
    fix v
    assume "pool_ready s ?p n ({CONSTANT_Utf8, CONSTANT_Class, CONSTANT_String} \<union> {CONSTANT_NameAndType}) v"
    then have v: "pool_ready s ?p n
        {CONSTANT_Utf8, CONSTANT_Class, CONSTANT_String, CONSTANT_NameAndType} v"
      by (simp add: insert_commute)
    have all: "{CONSTANT_Utf8, CONSTANT_Class, CONSTANT_String, CONSTANT_NameAndType} \<union>
        (all_tags - {CONSTANT_Utf8, CONSTANT_Class, CONSTANT_String, CONSTANT_NameAndType}) = all_tags"
      by (auto simp: all_tags_def)
    show "leads (cpool_pass pass_rest n 1) v (\<lambda>_ t. ps_inv all_tags t \<and> ps_buf t = ps_buf s
        \<and> ps_base t = ps_base s \<and> ps_length t = ps_length s)"
      by (rule leads_weaken [OF pass_ready [OF acts_pass_rest _ v, unfolded all]])
        (auto simp: pool_ready_def all_tags_def)
  qed
  show ?thesis
    unfolding parse_cpool_passes_def
  proof (rule leads_bind [OF leads_gets [where Q = "\<lambda>x t. x = ?p \<and> t = s"]], simp, elim conjE, hypsubst,
      rule leads_bind [OF scan], rule leads_then, rule leads_if)
    fix u x
    assume u: "scanned_from 1 s u \<and> laid u n 1 (unat ?p)"
    let ?R = "\<lambda>t. \<exists>k. t = u\<lparr>ps_nalloc := k\<rparr>"
    show "leads (vm_alloc x) u (\<lambda>_. ?R)" by (auto simp: leads_def vm_alloc_def)
    have "u = u\<lparr>ps_nalloc := ps_nalloc u\<rparr>" by simp
    then have "?R u" by (rule exI)
    then show "leads (ret ()) u (\<lambda>_. ?R)" by (rule leads_ret)
    fix t
    assume "?R t"
    then obtain k where "t = u\<lparr>ps_nalloc := k\<rparr>" by blast
    with rest [OF ready [OF u, of k]] show "leads (thenM (set_pos ?p) (thenM (cpool_pass pass_utf8 n 1)
       (thenM (set_pos ?p) (thenM (cpool_pass pass_class_string n 1) (thenM (set_pos ?p) (
       thenM (cpool_pass pass_name_type n 1) (thenM (set_pos ?p) (cpool_pass pass_rest n 1)))))))) t
       (\<lambda>_ t. ps_inv all_tags t \<and> ps_buf t = ps_buf s \<and> ps_base t = ps_base s
            \<and> ps_length t = ps_length s)"
      by (intro leads_set_pos_then) simp
  qed
qed

lemma parse_cpool_body_typed:
  assumes ok: "ps_ok s" and extra: "ps_base s + unat (ps_length s) < length (ps_buf s)"
  shows "leads parse_cpool_body s (\<lambda>_ t. ps_inv all_tags t \<and> ps_buf t = ps_buf s
     \<and> ps_base t = ps_base s \<and> ps_length t = ps_length s)" (is "leads _ _ ?Q")
proof -
  define same where "same n t \<longleftrightarrow> ps_ok t \<and> ps_buf t = ps_buf s \<and> ps_base t = ps_base s
      \<and> ps_length t = ps_length s \<and> num_constants (ps_cfile t) = n" for n t
  have num: "leads parse_uint16 s (\<lambda>_ t. ps_ok t \<and> ps_buf t = ps_buf s \<and> ps_base t = ps_base s
      \<and> ps_length t = ps_length s)"
  proof (rule leadsI)
    fix x t
    assume "parse_uint16 s = (Inr x, t)"
    from takesD [OF takes_ints(1) ok this]
    show "ps_ok t \<and> ps_buf t = ps_buf s \<and> ps_base t = ps_base s \<and> ps_length t = ps_length s" by auto
  next
    fix f t
    show "parse_uint16 s \<noteq> (Inl (Fault f), t)"
      unfolding parse_uint16_def by (rule ps.be_never_faults) (use ok in simp)
  qed
  have passes: "leads (parse_cpool_passes (unat n)) u ?Q"
    if u: "\<exists>t. same n t \<and> u = t\<lparr>ps_cfile := (ps_cfile t)\<lparr>constants := replicate (unat n - 1) zero_constant\<rparr>\<rparr>"
    for n u
  proof -
    from u have ok': "ps_ok u" and eq: "ps_buf u = ps_buf s" "ps_base u = ps_base s" "ps_length u = ps_length s"
      "num_constants (ps_cfile u) = n" "constants (ps_cfile u) = replicate (unat n - 1) zero_constant"
      by (auto simp: same_def ps_ok_def)
    have x: "ps_base u + unat (ps_length u) < length (ps_buf u)" using extra eq(1-3) by simp
    have l: "length (constants (ps_cfile u)) = unat n - 1" by (simp only: eq(5) length_replicate)
    have z: "\<forall>j < unat n - 1. constants (ps_cfile u) ! j = zero_constant"
      unfolding eq(5) by (intro allI impI nth_replicate)
    have n: "unat n = unat (num_constants (ps_cfile u))" by (simp only: eq(4))
    show ?thesis
      by (rule leads_weaken [OF passes_typed [OF ok' x l n z]]) (simp only: eq(1-3))
  qed
  show ?thesis
    unfolding parse_cpool_body_def
  proof (rule leads_bind [OF num], rule leads_then, simp add: set_cfile_def, rule leads_modify)
    fix n t
    assume t: "ps_ok t \<and> ps_buf t = ps_buf s \<and> ps_base t = ps_base s \<and> ps_length t = ps_length s"
    show "same n (t\<lparr>ps_cfile := (ps_cfile t)\<lparr>num_constants := n\<rparr>\<rparr>)"
      using t by (auto simp: same_def ps_ok_def)
  next
    fix n t
    assume t: "same n t"
    show "leads (thenM (assertM (Exn ClassFormatError) (n \<noteq> 0)) (thenM (vm_alloc ((ucast n - 1) * 16))
        (thenM (set_cfile (constants_update (\<lambda>_. replicate (unat n - 1) zero_constant)))
        (parse_cpool_passes (unat n))))) t ?Q"
    proof (rule leads_then [where R = "same n"], rule leads_assert, rule t,
        rule leads_then [where R = "same n"])
      fix u
      assume u: "same n u"
      show "leads (vm_alloc ((ucast n - 1) * 16)) u (\<lambda>_. same n)"
        using u by (auto simp: leads_def vm_alloc_def same_def ps_ok_def)
    next
      fix u
      assume u: "same n u"
      show "leads (thenM (set_cfile (constants_update (\<lambda>_. replicate (unat n - 1) zero_constant)))
        (parse_cpool_passes (unat n))) u ?Q"
        by (rule leads_then [OF _ passes]) (use u in \<open>auto simp: leads_def set_cfile_apply\<close>)
    qed
  qed
qed


text \<open>A parse state at the start of a structure of \<open>n\<close> bytes, with memory for any array below 2 GB.\<close>

definition fresh_state :: "u8 list \<Rightarrow> u32 \<Rightarrow> parse_state" where
  "fresh_state bytes n = \<lparr>ps_buf = bytes, ps_base = 0, ps_length = n, ps_pos = 0,
     ps_cfile = zero_classfile, ps_attr = zero_attr, ps_nalloc = 0, ps_memok = (\<lambda>_ n. n < 0x80000000)\<rparr>"

definition sample_pool :: "u8 list" where
  "sample_pool = [0, 5, CONSTANT_Class, 0, 2, CONSTANT_Utf8, 0, 1, 65, CONSTANT_Long, 0, 0, 0, 0, 0, 0, 0, 7, 0]"


text \<open>
  The byte behind the structure is really read: when the pool is cut off in front of its first
  constant and the buffer ends there, the first pass reads \<open>s->bytes[s->pos]\<close> outside the buffer
  before \<open>_jc_scan_constant\<close> has a chance to find the class file truncated.
\<close>

theorem parse_cpool_overread:
  assumes ok: "ps_ok s" and stop: "ps_base s + unat (ps_length s) = length (ps_buf s)"
    and two: "length (ps_rest s) = 2" and num: "1 < (be_word (ps_rest s) 0 :: u16)"
    and mem: "ps_memok s (ps_nalloc s) ((ucast (be_word (ps_rest s) 0 :: u16) - 1) * 16)"
  shows "fst (parse_cpool s) = Inl (Fault Out_of_bounds)"
proof -
  let ?n = "be_word (ps_rest s) 0 :: u16"
  let ?s = "s\<lparr>ps_pos := ps_pos s + 2\<rparr>"
  have read: "parse_uint16 s = (Inr ?n, ?s)"
    using parse_be_some [OF ok, of 2 "0 :: u16"] two by (simp add: parse_uint16_def)
  have "unat (ps_pos s + 2) = unat (ps_pos s) + 2" "unat (ps_pos s) + 2 = unat (ps_length s)"
    using unat_pos_plus [OF ok, of 2] length_ps_rest [OF ok] two by auto
  then have far: "\<not> ps_base s + unat (ps_pos s + 2) < length (ps_buf s)" using stop by simp
  from num have n: "?n \<noteq> 0" "1 < unat ?n" by (auto simp: word_less_nat_alt)
  have scan: "cpool_scan (unat ?n) 1 0 t = (Inl (Fault Out_of_bounds), t)"
    if "ps_buf t = ps_buf s" "ps_base t = ps_base s" "ps_pos t = ps_pos s + 2" for t
    using that far n by (subst cpool_scan.simps) (simp add: byte_at_pos_def load_def bindM_def)
  have "fst (parse_cpool_body s) = Inl (Fault Out_of_bounds)"
    using mem n
    by (simp add: parse_cpool_body_def parse_cpool_passes_def read thenM_def bindM_def set_cfile_def
        vm_alloc_def ret_apply scan [unfolded One_nat_def])
  then show ?thesis
    by (auto simp: parse_cpool_def on_failM_def split: prod.splits sum.splits failure.splits)
qed

theorem parse_cpool_overread_witness:
  "fst (parse_cpool (fresh_state [0, 2] 2)) = Inl (Fault Out_of_bounds)"
  by (rule parse_cpool_overread) (simp_all add: fresh_state_def ps_ok_def ps_rest_def)

end
