(* ===== verification/Cf_Attr.thy ===== *)
theory Cf_Attr
  imports Cf_Cpool
begin

text \<open>
  Attributes in \<open>libjc/cf_parse.c\<close>: \<open>_jc_parse_attribute\<close>, \<open>_jc_parse_inner_class\<close> and
  \<open>_jc_free_attribute\<close>. The attribute the C function fills in through its pointer is \<open>ps_attr\<close> of the
  state, because after a failure its caller still looks at what has been filled in.
\<close>

section \<open>The parser\<close>

definition set_attr :: "(cf_attr \<Rightarrow> cf_attr) \<Rightarrow> unit parser" where
  "set_attr f = modify (\<lambda>s. s\<lparr>ps_attr := f (ps_attr s)\<rparr>)"

definition parse_inner_class :: "cf_inner_class parser" where
  "parse_inner_class =
     bindM (parse_class True) (\<lambda>inner.
     bindM (parse_class True) (\<lambda>outer.
     bindM (parse_string True) (\<lambda>name.
     bindM parse_uint16 (\<lambda>flags.
       ret \<lparr>ic_inner = inner, ic_outer = outer, ic_name = name, ic_flags = flags\<rparr>))))"

definition parse_linenum :: "cf_linenum parser" where
  "parse_linenum = bindM parse_uint16 (\<lambda>off. bindM parse_uint16 (\<lambda>line.
     ret \<lparr>ln_offset = off, ln_line = line\<rparr>))"

text \<open>
  The further parsing of the individual attributes, in the sub-state. A class pointer takes 4 bytes,
  a \<open>_jc_cf_inner_class\<close> 16 and a \<open>_jc_cf_linenum\<close> 4.
\<close>

definition parse_ConstantValue :: "u32 \<Rightarrow> unit parser" where
  "parse_ConstantValue len =
    (if len \<noteq> 2 then fails (Exn ClassFormatError)
     else bindM (parse_cpool_index16 [CONSTANT_Long, CONSTANT_Float, CONSTANT_Double,
            CONSTANT_Integer, CONSTANT_String] False) (\<lambda>cp.
          bindM (liftM (non_null cp)) (\<lambda>c. set_attr (\<lambda>a. a\<lparr>attr_info := ConstantValue_attr c\<rparr>))))"

definition parse_SourceFile :: "u32 \<Rightarrow> unit parser" where
  "parse_SourceFile len =
    (if len \<noteq> 2 then fails (Exn ClassFormatError)
     else bindM parse_string1 (\<lambda>u. set_attr (\<lambda>a. a\<lparr>attr_info := SourceFile_attr u\<rparr>)))"

definition parse_Exceptions :: "u32 \<Rightarrow> unit parser" where
  "parse_Exceptions len =
     bindM parse_uint16 (\<lambda>n.
       if len \<noteq> 2 + 2 * ucast n then fails (Exn ClassFormatError)
       else thenM (vm_alloc (ucast n * 4)) (
            bindM (repeatM (unat n) parse_class1) (\<lambda>es.
            set_attr (\<lambda>a. a\<lparr>attr_info := Exceptions_attr es\<rparr>))))"

definition parse_InnerClasses :: "u32 \<Rightarrow> unit parser" where
  "parse_InnerClasses len =
     bindM parse_uint16 (\<lambda>n.
       if len \<noteq> 2 + 8 * ucast n then fails (Exn ClassFormatError)
       else thenM (vm_alloc (ucast n * 16)) (
            bindM (repeatM (unat n) parse_inner_class) (\<lambda>cs.
            set_attr (\<lambda>a. a\<lparr>attr_info := InnerClasses_attr cs\<rparr>))))"

definition parse_Code :: "u32 \<Rightarrow> unit parser" where
  "parse_Code len =
     thenM (vm_alloc len) (
     bindM (read_bytes (unat len)) (\<lambda>bytes.
     set_attr (\<lambda>a. a\<lparr>attr_info := Code_attr bytes\<rparr>)))"

definition parse_LineNumberTable :: "unit parser" where
  "parse_LineNumberTable =
     bindM parse_uint16 (\<lambda>n.
     thenM (vm_alloc (ucast n * 4)) (
     bindM (repeatM (unat n) parse_linenum) (\<lambda>ls.
     set_attr (\<lambda>a. a\<lparr>attr_info := LineNumberTable_attr ls\<rparr>))))"

definition parse_attribute_info :: "cstr \<Rightarrow> u32 \<Rightarrow> unit parser" where
  "parse_attribute_info name len =
    (if name = c_str ''ConstantValue'' then parse_ConstantValue len
     else if name = c_str ''SourceFile'' then parse_SourceFile len
     else if name = c_str ''Exceptions'' then parse_Exceptions len
     else if name = c_str ''InnerClasses'' then parse_InnerClasses len
     else if name = c_str ''Code'' then parse_Code len
     else if name = c_str ''LineNumberTable'' then parse_LineNumberTable
     else ret ())"

text \<open>\<open>_jc_parse_attribute\<close>; the test for a truncated class file is made in \<open>size_t\<close>, and can wrap.\<close>

definition parse_attribute :: "unit parser" where
  "parse_attribute =
     bindM parse_string1 (\<lambda>name.
     thenM (set_attr (\<lambda>a. a\<lparr>attr_name := Some name\<rparr>)) (
     bindM parse_uint32 (\<lambda>len.
     thenM (set_attr (\<lambda>a. a\<lparr>attr_length := len\<rparr>)) (
     bindM (gets (\<lambda>s. ps_length s < ps_pos s + len)) (\<lambda>truncated.
       if truncated then fails (Exn ClassFormatError)
       else with_sub_state len (parse_attribute_info name len))))))"

text \<open>
  \<open>_jc_free_attribute\<close>: the name goes to \<open>strcmp\<close>, so a null name is a fault; the arrays are freed,
  and the attribute is zeroed.
\<close>

definition free_attribute :: "cf_attr \<Rightarrow> failure + cf_attr" where
  "free_attribute a = (case attr_name a of
     None \<Rightarrow> Inl (Fault Null_dereference) | Some name \<Rightarrow> Inr zero_attr)"

section \<open>What a reader leaves alone\<close>

text \<open>
  Every reader leaves the buffer, the window on it, the class file and the name and length of the
  attribute alone, whatever the state is and however the run ends.
\<close>

definition frame :: "parse_state \<Rightarrow> parse_state \<Rightarrow> bool" where
  "frame s t \<longleftrightarrow> ps_buf t = ps_buf s \<and> ps_base t = ps_base s \<and> ps_length t = ps_length s \<and>
     ps_cfile t = ps_cfile s \<and> ps_memok t = ps_memok s \<and>
     attr_name (ps_attr t) = attr_name (ps_attr s) \<and> attr_length (ps_attr t) = attr_length (ps_attr s)"

abbreviation frames :: "'a parser \<Rightarrow> bool" where
  "frames \<equiv> within frame"

lemma frame_refl [simp]: "frame s s"
  by (simp add: frame_def)

lemma frame_trans: "frame s t \<Longrightarrow> frame t u \<Longrightarrow> frame s u"
  by (simp add: frame_def)

interpretation fr: framed frame
  by unfold_locales (rule frame_refl, rule frame_trans)

lemma frames_uint8: "frames parse_uint8"
  by (auto simp: within_def frame_def parse_uint8_def split: sum.splits)

lemma frames_be: "frames (parse_be parse_uint8 n w)"
  by (induction n arbitrary: w) (auto intro: fr.within_bind frames_uint8 fr.within_none)

lemma frames_ints: "frames parse_uint16" "frames parse_uint32" "frames parse_integer" "frames parse_long"
  by (simp_all add: parse_uint16_def parse_uint32_def parse_integer_def parse_long_def frames_be)

lemma frames_alloc: "frames (vm_alloc n)"
  by (simp add: within_def frame_def vm_alloc_def)

lemma frames_read_bytes: "frames (read_bytes n)"
  by (simp add: within_def frame_def read_bytes_def Let_def)

lemma frames_index:
  "frames (parse_cpool_index types i)" "frames (parse_cpool_index8 types opt)"
  "frames (parse_cpool_index16 types opt)"
proof -
  show i: "frames (parse_cpool_index types i)" for i
    unfolding parse_cpool_index_def by (intro fr.within_bind fr.within_if fr.within_none)
  show "frames (parse_cpool_index8 types opt)" "frames (parse_cpool_index16 types opt)"
    unfolding parse_cpool_index8_def parse_cpool_index16_def
    by (intro fr.within_bind fr.within_if fr.within_none frames_uint8 frames_ints i)+
qed

lemma frames_strings:
  "frames (parse_class opt)" "frames (parse_string opt)" "frames parse_class1" "frames parse_string1"
  "frames (parse_ref ty)"
  unfolding parse_class_def parse_string_def parse_class1_def parse_string1_def parse_ref_def
  by (intro fr.within_bind fr.within_option fr.within_none frames_index)+

lemma frames_set_attr:
  "(\<And>a. attr_name (f a) = attr_name a \<and> attr_length (f a) = attr_length a) \<Longrightarrow> frames (set_attr f)"
  by (simp add: within_def frame_def set_attr_def)

lemmas frames_rules = fr.within_bind fr.within_then fr.within_if fr.within_option fr.within_none frames_uint8
  frames_ints frames_alloc frames_read_bytes fr.within_repeat frames_index frames_strings frames_set_attr

lemma frames_attribute_info: "frames (parse_attribute_info name len)"
  unfolding parse_attribute_info_def parse_ConstantValue_def parse_SourceFile_def
    parse_Exceptions_def parse_InnerClasses_def parse_Code_def parse_LineNumberTable_def
    parse_inner_class_def parse_linenum_def
  by (intro frames_rules) simp_all

section \<open>Well-formed attributes\<close>

lemma c_str_inj [simp]: "c_str x = c_str y \<longleftrightarrow> x = y"
proof -
  have "(of_char c :: u8) = of_char d \<Longrightarrow> c = d" for c d
  proof -
    assume e: "(of_char c :: u8) = of_char d"
    then have "unat (of_nat (of_char c) :: u8) = unat (of_nat (of_char d) :: u8)"
      by (simp add: of_nat_of_char)
    moreover have "of_char c' < (256 :: nat)" for c'
      by (metis mod_less_divisor of_char_mod_256 zero_less_numeral)
    ultimately have "of_char c = (of_char d :: nat)" by (simp add: unat_of_nat take_bit_nat_eq_self)
    then show "c = d" by simp
  qed
  then have "inj (of_char :: char \<Rightarrow> u8)" by (intro injI)
  then show ?thesis by (simp add: c_str_def inj_map_eq_map)
qed

text \<open>What the parser guarantees of the union of an attribute it has accepted.\<close>

definition info_wf :: "cstr \<Rightarrow> u32 \<Rightarrow> attr_info \<Rightarrow> bool" where
  "info_wf name len i \<longleftrightarrow>
     (name = c_str ''ConstantValue'' \<longrightarrow> (\<exists>c. i = ConstantValue_attr c \<and> const_typed c \<and>
        const_type c \<in> {CONSTANT_Long, CONSTANT_Float, CONSTANT_Double, CONSTANT_Integer, CONSTANT_String})) \<and>
     (name = c_str ''SourceFile'' \<longrightarrow> (\<exists>u. i = SourceFile_attr u)) \<and>
     (name = c_str ''Exceptions'' \<longrightarrow> (\<exists>es. i = Exceptions_attr es \<and> unat len = 2 + 2 * length es)) \<and>
     (name = c_str ''InnerClasses'' \<longrightarrow> (\<exists>cs. i = InnerClasses_attr cs \<and> unat len = 2 + 8 * length cs)) \<and>
     (name = c_str ''Code'' \<longrightarrow> (\<exists>bs. i = Code_attr bs \<and> length bs = unat len)) \<and>
     (name = c_str ''LineNumberTable'' \<longrightarrow> (\<exists>ls. i = LineNumberTable_attr ls))"

definition attr_wf :: "cf_attr \<Rightarrow> bool" where
  "attr_wf a \<longleftrightarrow> (\<exists>name. attr_name a = Some name \<and> info_wf name (attr_length a) (attr_info a))"

section \<open>The attribute parser is safe\<close>

lemma ps_like_frame:
  assumes "ps_like s t"
  shows "frame s t"
proof -
  from assms obtain p k where "t = s\<lparr>ps_pos := p, ps_nalloc := k\<rparr>"
    unfolding ps_like_def by blast
  then show ?thesis by (simp add: frame_def)
qed

abbreviation pool_inv :: "parse_state \<Rightarrow> bool" where
  "pool_inv \<equiv> ps_inv all_tags"

interpretation ra: safe_steps pool_inv frame
  by unfold_locales (auto intro: frame_trans)

lemma all_tags_mem:
  "CONSTANT_Utf8 \<in> all_tags" "CONSTANT_Class \<in> all_tags" "CONSTANT_Fieldref \<in> all_tags"
  "CONSTANT_Methodref \<in> all_tags" "CONSTANT_InterfaceMethodref \<in> all_tags"
  by (simp_all add: all_tags_def)

text \<open>A reader, run from a well-formed state.\<close>

lemma runs_reads:
  assumes "reads all_tags m R" and "pool_inv s"
  shows "runs m s (\<lambda>x t. pool_inv t \<and> frame s t \<and> R x) (\<lambda>t. pool_inv t \<and> frame s t) (\<lambda>_. False)"
  by (rule runs_weaken [OF runs_safe [OF assms]]) (auto intro: ps_like_frame)

lemma runs_frame_trans:
  assumes "frame s t"
    and "runs m t (\<lambda>x u. pool_inv u \<and> frame t u \<and> Q x u) (\<lambda>u. pool_inv u \<and> frame t u) F"
  shows "runs m t (\<lambda>x u. pool_inv u \<and> frame s u \<and> Q x u) (\<lambda>u. pool_inv u \<and> frame s u) F"
  by (rule runs_weaken [OF assms(2)]) (auto intro: frame_trans [OF assms(1)])

lemma runs_reads_bind:
  assumes m: "reads all_tags m R" and s: "pool_inv s"
    and f: "\<And>x t. pool_inv t \<Longrightarrow> frame s t \<Longrightarrow> R x \<Longrightarrow>
      runs (f x) t (\<lambda>y u. pool_inv u \<and> frame t u \<and> Q y u) (\<lambda>u. pool_inv u \<and> frame t u) F"
  shows "runs (bindM m f) s (\<lambda>y u. pool_inv u \<and> frame s u \<and> Q y u) (\<lambda>u. pool_inv u \<and> frame s u) F"
proof (rule runs_bind)
  show "runs m s (\<lambda>x t. pool_inv t \<and> frame s t \<and> R x) (\<lambda>u. pool_inv u \<and> frame s u) F"
    by (rule runs_weaken [OF runs_reads [OF m s]]) auto
  show "runs (f x) t (\<lambda>y u. pool_inv u \<and> frame s u \<and> Q y u) (\<lambda>u. pool_inv u \<and> frame s u) F"
    if "pool_inv t \<and> frame s t \<and> R x" for x t
    using that by (blast intro: runs_frame_trans f)
qed

lemma runs_reads_then:
  assumes m: "reads all_tags m (\<lambda>_. True)" and s: "pool_inv s"
    and f: "\<And>t. pool_inv t \<Longrightarrow> frame s t \<Longrightarrow>
      runs n t (\<lambda>y u. pool_inv u \<and> frame t u \<and> Q y u) (\<lambda>u. pool_inv u \<and> frame t u) F"
  shows "runs (thenM m n) s (\<lambda>y u. pool_inv u \<and> frame s u \<and> Q y u) (\<lambda>u. pool_inv u \<and> frame s u) F"
  unfolding thenM_def by (rule runs_reads_bind [OF m s]) (rule f)

lemma runs_set_info:
  "pool_inv s \<Longrightarrow> P i \<Longrightarrow> runs (set_attr (\<lambda>a. a\<lparr>attr_info := i\<rparr>)) s
     (\<lambda>_ u. pool_inv u \<and> frame s u \<and> P (attr_info (ps_attr u))) (\<lambda>u. pool_inv u \<and> frame s u) F"
  unfolding set_attr_def by (rule runs_modify) (simp add: ps_inv_def ps_ok_def frame_def)

lemma reads_inner_class: "reads all_tags parse_inner_class (\<lambda>_. True)"
  unfolding parse_inner_class_def
  by (intro rd.safe_bind [OF reads_class] rd.safe_bind [OF reads_string] rd.safe_bind [OF reads_ints(1)]
      rd.safe_ret) (simp_all add: all_tags_mem)

lemma reads_linenum: "reads all_tags parse_linenum (\<lambda>_. True)"
  unfolding parse_linenum_def
  by (intro rd.safe_bind [OF reads_ints(1)] rd.safe_ret) simp

lemma reads_repeat: "reads all_tags m (\<lambda>_. True) \<Longrightarrow> reads all_tags (repeatM n m) (\<lambda>xs. length xs = n)"
proof -
  assume m: "reads all_tags m (\<lambda>_. True)"
  have "reads all_tags (repeatM n m) (\<lambda>_. True)"
    by (rule safe_weaken [OF rd.safe_repeat [OF m]]) simp
  then show ?thesis by (auto simp: safe_def repeatM_length split: prod.splits sum.splits failure.splits)
qed

text \<open>What the further parsing of an attribute \<open>name\<close> leads to, from a well-formed sub-state.\<close>

abbreviation info_run :: "cstr \<Rightarrow> u32 \<Rightarrow> unit parser \<Rightarrow> parse_state \<Rightarrow> bool" where
  "info_run name len m s \<equiv> runs m s
     (\<lambda>_ t. pool_inv t \<and> frame s t \<and> info_wf name len (attr_info (ps_attr t)))
     (\<lambda>t. pool_inv t \<and> frame s t) (\<lambda>_. False)"

lemma run_fail: "pool_inv s \<Longrightarrow> runs (fails (Exn e)) s Q (\<lambda>t. pool_inv t \<and> frame s t) F"
  by (simp add: runs_fails)

lemma run_ConstantValue:
  assumes s: "pool_inv s"
  shows "info_run (c_str ''ConstantValue'') len (parse_ConstantValue len) s"
  unfolding parse_ConstantValue_def
proof (rule runs_if, rule run_fail [OF s], rule runs_reads_bind [OF reads_cpool_index16 s])
  fix cp t
  assume t: "pool_inv t" and cp: "(cp = None \<longrightarrow> False) \<and> (\<forall>c. cp = Some c \<longrightarrow>
      ([CONSTANT_Long, CONSTANT_Float, CONSTANT_Double, CONSTANT_Integer, CONSTANT_String] \<noteq> [] \<longrightarrow>
        const_type c \<in> set [CONSTANT_Long, CONSTANT_Float, CONSTANT_Double, CONSTANT_Integer, CONSTANT_String])
      \<and> (const_type c \<in> all_tags \<longrightarrow> const_typed c))"
  then obtain c where c: "cp = Some c" by auto
  with cp have ty: "const_type c \<in> {CONSTANT_Long, CONSTANT_Float, CONSTANT_Double, CONSTANT_Integer, CONSTANT_String}"
    by auto
  then have "const_type c \<in> all_tags" by (auto simp: all_tags_def)
  with cp c have typed: "const_typed c" by blast
  show "info_run (c_str ''ConstantValue'') len (bindM (liftM (non_null cp))
      (\<lambda>c. set_attr (\<lambda>a. a\<lparr>attr_info := ConstantValue_attr c\<rparr>))) t"
    unfolding c non_null.simps bindM_liftM_Inr
    by (rule runs_set_info [OF t]) (use ty typed in \<open>simp add: info_wf_def\<close>)
qed

lemma run_SourceFile:
  assumes s: "pool_inv s"
  shows "info_run (c_str ''SourceFile'') len (parse_SourceFile len) s"
  unfolding parse_SourceFile_def
  by (rule runs_if, rule run_fail [OF s], rule runs_reads_bind [OF reads_string1 s],
      rule all_tags_mem, rule runs_set_info, assumption, simp add: info_wf_def)

lemma unat_table: "unat (2 + 2 * ucast (n :: u16) :: u32) = 2 + 2 * unat n"
  "unat (2 + 8 * ucast (n :: u16) :: u32) = 2 + 8 * unat n"
proof -
  have "unat n < 65536" using unsigned_less [of n] by simp
  then show "unat (2 + 2 * ucast n :: u32) = 2 + 2 * unat n"
    "unat (2 + 8 * ucast n :: u32) = 2 + 8 * unat n"
    by (simp_all add: unat_word_ariths)
qed

lemma run_Exceptions:
  assumes s: "pool_inv s"
  shows "info_run (c_str ''Exceptions'') len (parse_Exceptions len) s"
  unfolding parse_Exceptions_def
proof (rule runs_reads_bind [OF reads_ints(1) s], rule runs_if, rule run_fail, assumption,
    rule runs_reads_then [OF reads_alloc], assumption,
    rule runs_reads_bind [OF reads_repeat [OF reads_class1]], rule all_tags_mem, assumption)
  fix n :: u16 and u es
  assume len: "\<not> len \<noteq> 2 + 2 * ucast n" and u: "pool_inv u" and es: "length (es :: cstr list) = unat n"
  show "info_run (c_str ''Exceptions'') len (set_attr (\<lambda>a. a\<lparr>attr_info := Exceptions_attr es\<rparr>)) u"
    by (rule runs_set_info [OF u]) (use len es in \<open>simp add: info_wf_def unat_table\<close>)
qed

lemma run_InnerClasses:
  assumes s: "pool_inv s"
  shows "info_run (c_str ''InnerClasses'') len (parse_InnerClasses len) s"
  unfolding parse_InnerClasses_def
proof (rule runs_reads_bind [OF reads_ints(1) s], rule runs_if, rule run_fail, assumption,
    rule runs_reads_then [OF reads_alloc], assumption,
    rule runs_reads_bind [OF reads_repeat [OF reads_inner_class]], assumption)
  fix n :: u16 and u cs
  assume len: "\<not> len \<noteq> 2 + 8 * ucast n" and u: "pool_inv u" and cs: "length (cs :: cf_inner_class list) = unat n"
  show "info_run (c_str ''InnerClasses'') len (set_attr (\<lambda>a. a\<lparr>attr_info := InnerClasses_attr cs\<rparr>)) u"
    by (rule runs_set_info [OF u]) (use len cs in \<open>simp add: info_wf_def unat_table\<close>)
qed

lemma run_LineNumberTable:
  assumes s: "pool_inv s"
  shows "info_run (c_str ''LineNumberTable'') len parse_LineNumberTable s"
  unfolding parse_LineNumberTable_def
proof (rule runs_reads_bind [OF reads_ints(1) s], rule runs_reads_then [OF reads_alloc], assumption,
    rule runs_reads_bind [OF reads_repeat [OF reads_linenum]], assumption)
  fix u ls
  assume u: "pool_inv u"
  show "info_run (c_str ''LineNumberTable'') len (set_attr (\<lambda>a. a\<lparr>attr_info := LineNumberTable_attr ls\<rparr>)) u"
    by (rule runs_set_info [OF u]) (simp add: info_wf_def)
qed


text \<open>
  The memory an array can be given is below \<open>2 ^ 31\<close> bytes, half of the address space of the host
  (the documented limit of \<open>malloc\<close>, \<open>PTRDIFF_MAX\<close>).
\<close>

definition mem_limit :: "parse_state \<Rightarrow> bool" where
  "mem_limit s \<longleftrightarrow> (\<forall>k n. ps_memok s k n \<longrightarrow> unat n < 2 ^ 31)"

lemma run_Code:
  assumes s: "pool_inv s" and pos: "ps_pos s = 0" "ps_length s = len"
  shows "info_run (c_str ''Code'') len (parse_Code len) s"
  unfolding parse_Code_def
proof (rule runs_then [where R = "\<lambda>t. \<exists>k. t = s\<lparr>ps_nalloc := k\<rparr>"])
  show "runs (vm_alloc len) s (\<lambda>_ t. \<exists>k. t = s\<lparr>ps_nalloc := k\<rparr>) (\<lambda>t. pool_inv t \<and> frame s t) (\<lambda>_. False)"
    using s by (auto simp: runs_def vm_alloc_def ps_inv_def ps_ok_def frame_def)
next
  fix t
  assume "\<exists>k. t = s\<lparr>ps_nalloc := k\<rparr>"
  then obtain k where t: "t = s\<lparr>ps_nalloc := k\<rparr>" by blast
  have inb: "ps_base s + unat len \<le> length (ps_buf s)" using s pos by (simp add: ps_inv_def ps_ok_def)
  let ?bs = "take (unat len) (drop (ps_base s) (ps_buf s))"
  have r: "read_bytes (unat len) t = (Inr ?bs, t)"
    using inb pos by (simp add: read_bytes_def t)
  have "info_run (c_str ''Code'') len (set_attr (\<lambda>a. a\<lparr>attr_info := Code_attr ?bs\<rparr>)) t"
    by (rule runs_set_info) (use s inb t in \<open>auto simp: info_wf_def ps_inv_def ps_ok_def\<close>)
  then have go: "runs (bindM (read_bytes (unat len)) (\<lambda>bytes. set_attr (\<lambda>a. a\<lparr>attr_info := Code_attr bytes\<rparr>))) t
      (\<lambda>_ u. pool_inv u \<and> frame t u \<and> info_wf (c_str ''Code'') len (attr_info (ps_attr u)))
      (\<lambda>u. pool_inv u \<and> frame t u) (\<lambda>_. False)"
    using r by (simp add: runs_def)
  have "frame s t" by (simp add: t frame_def)
  from runs_frame_trans [OF this go]
  show "runs (bindM (read_bytes (unat len)) (\<lambda>bytes. set_attr (\<lambda>a. a\<lparr>attr_info := Code_attr bytes\<rparr>))) t
      (\<lambda>_ u. pool_inv u \<and> frame s u \<and> info_wf (c_str ''Code'') len (attr_info (ps_attr u)))
      (\<lambda>u. pool_inv u \<and> frame s u) (\<lambda>_. False)" .
qed

lemma run_info:
  assumes s: "pool_inv s" and pos: "ps_pos s = 0" "ps_length s = len"
  shows "info_run name len (parse_attribute_info name len) s"
  unfolding parse_attribute_info_def
  by (intro runs_if; (hypsubst)?; rule run_ConstantValue [OF s] run_SourceFile [OF s] run_Exceptions [OF s]
      run_InnerClasses [OF s] run_Code [OF s pos] run_LineNumberTable [OF s] runs_ret)
    (use s in \<open>simp add: info_wf_def\<close>)

section \<open>The sub-state of an attribute\<close>

definition sub_state :: "u32 \<Rightarrow> parse_state \<Rightarrow> parse_state" where
  "sub_state len s = s\<lparr>ps_base := ps_base s + unat (ps_pos s), ps_length := len, ps_pos := 0\<rparr>"

text \<open>When the sum of the truncation test does not wrap, the sub-state lies inside the structure.\<close>

lemma sub_state_inv:
  assumes s: "pool_inv s" and fits: "\<not> ps_length s < ps_pos s + len" and small: "unat len < 2 ^ 31"
  shows "pool_inv (sub_state len s)"
proof -
  from s have ok: "ps_ok s" by (simp add: ps_inv_def)
  have "unat (ps_pos s) + unat len < 2 ^ 32"
    using ps_ok_pos [OF ok] ps_length_bound [OF ok] small by simp
  then have "unat (ps_pos s + len) = unat (ps_pos s) + unat len" by (simp add: unat_word_ariths)
  with fits have "unat (ps_pos s) + unat len \<le> unat (ps_length s)"
    by (simp add: not_less word_le_nat_alt)
  with s show ?thesis by (simp add: ps_inv_def ps_ok_def sub_state_def)
qed

text \<open>
  Coming back from the sub-state: the window is restored and the position is behind the attribute,
  which is inside the structure because of the test, even if its sum has wrapped.
\<close>

lemma sub_state_restore:
  assumes s: "pool_inv s" and fits: "\<not> ps_length s < ps_pos s + len" and t: "frame (sub_state len s) t"
  defines "t' \<equiv> t\<lparr>ps_base := ps_base s, ps_length := ps_length s, ps_pos := ps_pos s + len\<rparr>"
  shows "pool_inv t'" and "frame s t'"
  using s fits t by (auto simp: t'_def sub_state_def frame_def ps_inv_def ps_ok_def)

text \<open>
  A faulting run of the attribute parser is recognised by the length the attribute claims to have.
\<close>

definition claims_too_much :: "parse_state \<Rightarrow> bool" where
  "claims_too_much t \<longleftrightarrow> 2 ^ 31 \<le> unat (attr_length (ps_attr t))"

lemma run_sub_state:
  assumes s: "pool_inv s" and len: "attr_length (ps_attr s) = len"
    and fits: "\<not> ps_length s < ps_pos s + len" and small: "unat len < 2 ^ 31"
  shows "info_run name len (with_sub_state len (parse_attribute_info name len)) s"
proof -
  have r: "info_run name len (parse_attribute_info name len) (sub_state len s)"
    by (rule run_info [OF sub_state_inv [OF s fits small]]) (simp_all add: sub_state_def)
  obtain q t where qt: "parse_attribute_info name len (sub_state len s) = (q, t)" by fastforce
  then have go: "with_sub_state len (parse_attribute_info name len) s
      = (q, t\<lparr>ps_base := ps_base s, ps_length := ps_length s, ps_pos := ps_pos s + len\<rparr>)"
    by (simp add: with_sub_state_def sub_state_def)
  note restored = sub_state_restore [OF s fits withinD [OF frames_attribute_info qt]]
  show ?thesis
    using r qt restored unfolding runs_def go by (auto split: sum.splits failure.splits)
qed

text \<open>
  An attribute that claims \<open>2 ^ 31\<close> bytes or more and is accepted all the same is a line number table
  or one that is skipped: the lengths of the others are checked, and no memory is given for the code.
\<close>

lemma large_info:
  assumes big: "2 ^ 31 \<le> unat len" and lim: "mem_limit s"
    and r: "parse_attribute_info name len s = (Inr (), t)"
  shows "info_wf name len (attr_info (ps_attr t))"
proof -
  have no2: "len \<noteq> 2" "len \<noteq> 2 + 2 * ucast (n :: u16)" "len \<noteq> 2 + 8 * ucast (n :: u16)" for n
  proof -
    have "unat n < 65536" using unsigned_less [of n] by simp
    then show "len \<noteq> 2" "len \<noteq> 2 + 2 * ucast n" "len \<noteq> 2 + 8 * ucast n"
      using big unat_table [of n] by auto
  qed
  have "parse_ConstantValue len s \<noteq> (Inr (), t)" "parse_SourceFile len s \<noteq> (Inr (), t)"
    using no2(1) by (simp_all add: parse_ConstantValue_def parse_SourceFile_def fails_apply)
  moreover have "parse_Exceptions len s \<noteq> (Inr (), t)" "parse_InnerClasses len s \<noteq> (Inr (), t)"
    unfolding parse_Exceptions_def parse_InnerClasses_def
    by (auto simp: no2(2,3) elim!: bindM_Inr_E)
  moreover have "parse_Code len s \<noteq> (Inr (), t)"
    using big lim by (auto simp: parse_Code_def vm_alloc_def mem_limit_def not_less [symmetric]
        elim!: thenM_Inr_E split: if_splits)
  ultimately have "name \<noteq> c_str ''ConstantValue''" "name \<noteq> c_str ''SourceFile''"
    "name \<noteq> c_str ''Exceptions''" "name \<noteq> c_str ''InnerClasses''" "name \<noteq> c_str ''Code''"
    using r by (auto simp: parse_attribute_info_def)
  moreover have "name = c_str ''LineNumberTable'' \<Longrightarrow> \<exists>ls. attr_info (ps_attr t) = LineNumberTable_attr ls"
    using r by (auto simp: parse_attribute_info_def parse_LineNumberTable_def set_attr_def
        elim!: thenM_Inr_E bindM_Inr_E)
  ultimately show ?thesis by (simp add: info_wf_def)
qed

section \<open>The whole attribute\<close>

definition keeps :: "parse_state \<Rightarrow> parse_state \<Rightarrow> bool" where
  "keeps s t \<longleftrightarrow> ps_buf t = ps_buf s \<and> ps_base t = ps_base s \<and> ps_length t = ps_length s \<and>
     ps_cfile t = ps_cfile s \<and> ps_memok t = ps_memok s"

lemma keeps_refl [simp]: "keeps s s"
  by (simp add: keeps_def)

lemma keeps_trans: "keeps s t \<Longrightarrow> keeps t u \<Longrightarrow> keeps s u"
  by (simp add: keeps_def)

lemma frame_keeps: "frame s t \<Longrightarrow> keeps s t"
  by (simp add: frame_def keeps_def)

lemma run_large_sub_state:
  assumes s: "pool_inv s" and len: "attr_length (ps_attr s) = len" and lim: "mem_limit s"
    and fits: "\<not> ps_length s < ps_pos s + len" and big: "2 ^ 31 \<le> unat len"
  shows "runs (with_sub_state len (parse_attribute_info name len)) s
     (\<lambda>_ t. pool_inv t \<and> frame s t \<and> info_wf name len (attr_info (ps_attr t)))
     (\<lambda>t. pool_inv t \<and> frame s t) claims_too_much"
proof -
  obtain q t where qt: "parse_attribute_info name len (sub_state len s) = (q, t)" by fastforce
  then have go: "with_sub_state len (parse_attribute_info name len) s
      = (q, t\<lparr>ps_base := ps_base s, ps_length := ps_length s, ps_pos := ps_pos s + len\<rparr>)"
    by (simp add: with_sub_state_def sub_state_def)
  have f: "frame (sub_state len s) t" by (rule withinD [OF frames_attribute_info qt])
  note restored = sub_state_restore [OF s fits f]
  have "mem_limit (sub_state len s)" using lim by (simp add: mem_limit_def sub_state_def)
  from large_info [OF big this] qt
  have "q = Inr () \<Longrightarrow> info_wf name len (attr_info (ps_attr t))" by simp
  moreover have "claims_too_much t"
    using f big len by (simp add: claims_too_much_def frame_def sub_state_def)
  ultimately show ?thesis
    using restored unfolding runs_def go
    by (auto simp: claims_too_much_def split: sum.splits failure.splits)
qed

lemma keeps_attr:
  assumes "pool_inv t" and "keeps s t"
  shows "pool_inv (t\<lparr>ps_attr := a\<rparr>)" and "keeps s (t\<lparr>ps_attr := a\<rparr>)"
  using assms by (simp_all add: ps_inv_def ps_ok_def keeps_def)

lemma runs_keeps:
  assumes "reads all_tags m R" and "pool_inv t" and "keeps s t"
  shows "runs m t (\<lambda>x u. pool_inv u \<and> keeps s u \<and> frame t u \<and> R x) (\<lambda>u. pool_inv u \<and> keeps s u) F"
  by (rule runs_weaken [OF runs_reads [OF assms(1,2)]])
    (use assms(3) in \<open>auto intro: keeps_trans frame_keeps\<close>)

lemma run_attribute:
  assumes s: "pool_inv s" and lim: "mem_limit s"
  shows "runs parse_attribute s
     (\<lambda>_ t. pool_inv t \<and> keeps s t \<and> attr_wf (ps_attr t)) (\<lambda>t. pool_inv t \<and> keeps s t) claims_too_much"
  unfolding parse_attribute_def
proof (rule runs_bind [OF runs_keeps [OF reads_string1 s keeps_refl]], rule all_tags_mem, elim conjE,
    rule runs_then [where R = "\<lambda>u. pool_inv u \<and> keeps s u \<and> attr_name (ps_attr u) = Some name" for name])
  fix name t
  assume t: "pool_inv t" "keeps s t"
  show "runs (set_attr (\<lambda>a. a\<lparr>attr_name := Some name\<rparr>)) t
      (\<lambda>_ u. pool_inv u \<and> keeps s u \<and> attr_name (ps_attr u) = Some name)
      (\<lambda>t. pool_inv t \<and> keeps s t) claims_too_much"
    unfolding set_attr_def by (rule runs_modify) (use keeps_attr [OF t] in simp)
next
  fix name u
  assume u: "pool_inv u \<and> keeps s u \<and> attr_name (ps_attr u) = Some name"
  then have u': "pool_inv u" "keeps s u" by simp_all
  show "runs (bindM parse_uint32 (\<lambda>len. thenM (set_attr (\<lambda>a. a\<lparr>attr_length := len\<rparr>))
     (bindM (gets (\<lambda>s. ps_length s < ps_pos s + len)) (\<lambda>truncated.
       if truncated then fails (Exn ClassFormatError)
       else with_sub_state len (parse_attribute_info name len))))) u
     (\<lambda>_ t. pool_inv t \<and> keeps s t \<and> attr_wf (ps_attr t)) (\<lambda>t. pool_inv t \<and> keeps s t) claims_too_much"
  proof (rule runs_bind [OF runs_keeps [OF reads_ints(2) u']], elim conjE,
      rule runs_then [where R = "\<lambda>v. pool_inv v \<and> keeps s v \<and> attr_name (ps_attr v) = Some name
        \<and> attr_length (ps_attr v) = len" for len])
    fix len t
    assume t: "pool_inv t" "keeps s t" "frame u t"
    show "runs (set_attr (\<lambda>a. a\<lparr>attr_length := len\<rparr>)) t
        (\<lambda>_ v. pool_inv v \<and> keeps s v \<and> attr_name (ps_attr v) = Some name \<and> attr_length (ps_attr v) = len)
        (\<lambda>t. pool_inv t \<and> keeps s t) claims_too_much"
      unfolding set_attr_def
      by (rule runs_modify) (use keeps_attr [OF t(1,2)] t(3) u in \<open>simp add: frame_def\<close>)
  next
    fix len v
    assume v: "pool_inv v \<and> keeps s v \<and> attr_name (ps_attr v) = Some name \<and> attr_length (ps_attr v) = len"
    have limv: "mem_limit v" using v lim by (simp add: keeps_def mem_limit_def)
    show "runs (bindM (gets (\<lambda>s. ps_length s < ps_pos s + len)) (\<lambda>truncated.
       if truncated then fails (Exn ClassFormatError)
       else with_sub_state len (parse_attribute_info name len))) v
     (\<lambda>_ t. pool_inv t \<and> keeps s t \<and> attr_wf (ps_attr t)) (\<lambda>t. pool_inv t \<and> keeps s t) claims_too_much"
    proof (rule runs_bind [OF runs_gets [where Q = "\<lambda>b w. w = v \<and> b = (ps_length v < ps_pos v + len)"]],
        simp, elim conjE, hypsubst, rule runs_if)
      show "runs (fails (Exn ClassFormatError)) v
         (\<lambda>_ t. pool_inv t \<and> keeps s t \<and> attr_wf (ps_attr t)) (\<lambda>t. pool_inv t \<and> keeps s t) claims_too_much"
        by (rule runs_fails) (use v in simp)
    next
      assume fits: "\<not> ps_length v < ps_pos v + len"
      have wf: "attr_wf (ps_attr w)" if "frame v w" "info_wf name len (attr_info (ps_attr w))" for w
        using that v by (simp add: attr_wf_def frame_def)
      have kp: "frame v w \<Longrightarrow> keeps s w" for w using v by (blast intro: keeps_trans frame_keeps)
      have "runs (with_sub_state len (parse_attribute_info name len)) v
         (\<lambda>_ t. pool_inv t \<and> frame v t \<and> info_wf name len (attr_info (ps_attr t)))
         (\<lambda>t. pool_inv t \<and> frame v t) claims_too_much"
      proof (cases "unat len < 2 ^ 31")
        case True
        show ?thesis by (rule runs_weaken [OF run_sub_state [OF _ _ fits True]]) (use v in auto)
      next
        case False
        then show ?thesis by (intro run_large_sub_state) (use v limv fits in auto)
      qed
      then show "runs (with_sub_state len (parse_attribute_info name len)) v
         (\<lambda>_ t. pool_inv t \<and> keeps s t \<and> attr_wf (ps_attr t)) (\<lambda>t. pool_inv t \<and> keeps s t) claims_too_much"
        by (rule runs_weaken) (auto intro: wf kp)
    qed
  qed
qed

text \<open>
  C4: From a well-formed state \<open>_jc_parse_attribute\<close> returns an attribute whose union member is the
  one its name announces (with the lengths the format demands), or stores an exception, and leaves
  the window on the class file as it was; the only runs that touch memory outside the buffer are
  those of an attribute claiming \<open>2 ^ 31\<close> bytes or more.
\<close>

theorem parse_attribute_safe:
  assumes "ps_inv all_tags s" and "mem_limit s"
  shows "case parse_attribute s of
      (Inr _, t) \<Rightarrow> ps_inv all_tags t \<and> keeps s t \<and> attr_wf (ps_attr t)
    | (Inl (Exn e), t) \<Rightarrow> ps_inv all_tags t \<and> keeps s t
    | (Inl (Fault f), t) \<Rightarrow> 2 ^ 31 \<le> unat (attr_length (ps_attr t))"
  using run_attribute [OF assms] unfolding runs_def claims_too_much_def .

text \<open>A parse state over given bytes, with a pool of Utf8 constants.\<close>

definition named_state :: "string list \<Rightarrow> u8 list \<Rightarrow> parse_state" where
  "named_state names bytes = (fresh_state bytes (of_nat (length bytes)))
     \<lparr>ps_cfile := zero_classfile\<lparr>num_constants := of_nat (Suc (length names)),
        constants := map (\<lambda>n. \<lparr>const_type = CONSTANT_Utf8, const_val = Utf8_val (c_str n)\<rparr>) names\<rparr>\<rparr>"

theorem parse_attribute_safe_witness:
  "attr_info (ps_attr (snd (parse_attribute (named_state [''SourceFile'', ''A.java''] [0, 1, 0, 0, 0, 2, 0, 2]))))
     = SourceFile_attr (c_str ''A.java'') \<and>
   (case parse_attribute (named_state [''SourceFile'', ''A.java''] [0, 1, 0, 0, 0, 2, 0, 2]) of
      (Inr _, t) \<Rightarrow> ps_inv all_tags t
        \<and> keeps (named_state [''SourceFile'', ''A.java''] [0, 1, 0, 0, 0, 2, 0, 2]) t \<and> attr_wf (ps_attr t)
    | (Inl (Exn e), t) \<Rightarrow> ps_inv all_tags t
        \<and> keeps (named_state [''SourceFile'', ''A.java''] [0, 1, 0, 0, 0, 2, 0, 2]) t
    | (Inl (Fault f), t) \<Rightarrow> 2 ^ 31 \<le> unat (attr_length (ps_attr t)))"
proof
  show "attr_info (ps_attr (snd (parse_attribute
      (named_state [''SourceFile'', ''A.java''] [0, 1, 0, 0, 0, 2, 0, 2])))) = SourceFile_attr (c_str ''A.java'')"
    by code_simp
  let ?s = "named_state [''SourceFile'', ''A.java''] [0, 1, 0, 0, 0, 2, 0, 2]"
  have "ps_inv all_tags ?s"
    by (simp add: named_state_def fresh_state_def ps_inv_def ps_ok_def cpool_typed_def const_typed_def)
  moreover have "mem_limit ?s"
    by (simp add: mem_limit_def named_state_def fresh_state_def word_less_nat_alt)
  ultimately show "case parse_attribute ?s of
      (Inr _, t) \<Rightarrow> ps_inv all_tags t \<and> keeps ?s t \<and> attr_wf (ps_attr t)
    | (Inl (Exn e), t) \<Rightarrow> ps_inv all_tags t \<and> keeps ?s t
    | (Inl (Fault f), t) \<Rightarrow> 2 ^ 31 \<le> unat (attr_length (ps_attr t))"
    by (rule parse_attribute_safe)
qed

text \<open>
  Such runs exist: a line number table whose length makes the sum of the truncation test wrap is
  not found truncated, and its entries are read from beyond the end of the buffer.
\<close>

theorem parse_attribute_overread:
  "fst (parse_attribute (named_state [''LineNumberTable''] [0, 1, 0xff, 0xff, 0xff, 0xfe, 0, 1]))
     = Inl (Fault Out_of_bounds)"
  by code_simp

end
