(* ===== verification/Cf_Decode.thy ===== *)
theory Cf_Decode
  imports Cf_Attr
begin

text \<open>
  The decoder of \<open>_jc_parse_bytecode\<close> in \<open>libjc/cf_parse.c\<close>: one instruction, from its opcode to its
  operands. Branch targets are still bytecode offsets here. The operands of the switch instructions
  are stored into arrays whose size in bytes is computed in \<open>size_t\<close>; a store outside the array the
  code has allocated is a fault.
\<close>

section \<open>Opcode groups\<close>

text \<open>The \<open>case\<close> labels, in the order of the \<open>switch\<close>.\<close>

definition local_ops :: "u8 list" where
  "local_ops = [JC_aload, JC_astore, JC_dload, JC_dstore, JC_fload, JC_fstore, JC_iload, JC_istore,
     JC_lload, JC_lstore, JC_ret]"

text \<open>The one-byte forms: the opcode they stand for and the index of the local.\<close>

definition short_form :: "u8 \<Rightarrow> (u8 \<times> u16) option" where
  "short_form op =
    (if op \<in> {JC_aload_0, JC_aload_1, JC_aload_2, JC_aload_3} then Some (JC_aload, ucast (op - JC_aload_0))
     else if op \<in> {JC_astore_0, JC_astore_1, JC_astore_2, JC_astore_3}
     then Some (JC_astore, ucast (op - JC_astore_0))
     else if op \<in> {JC_dload_0, JC_dload_1, JC_dload_2, JC_dload_3} then Some (JC_dload, ucast (op - JC_dload_0))
     else if op \<in> {JC_dstore_0, JC_dstore_1, JC_dstore_2, JC_dstore_3}
     then Some (JC_dstore, ucast (op - JC_dstore_0))
     else if op \<in> {JC_fload_0, JC_fload_1, JC_fload_2, JC_fload_3} then Some (JC_fload, ucast (op - JC_fload_0))
     else if op \<in> {JC_fstore_0, JC_fstore_1, JC_fstore_2, JC_fstore_3}
     then Some (JC_fstore, ucast (op - JC_fstore_0))
     else if op \<in> {JC_iload_0, JC_iload_1, JC_iload_2, JC_iload_3} then Some (JC_iload, ucast (op - JC_iload_0))
     else if op \<in> {JC_istore_0, JC_istore_1, JC_istore_2, JC_istore_3}
     then Some (JC_istore, ucast (op - JC_istore_0))
     else if op \<in> {JC_lload_0, JC_lload_1, JC_lload_2, JC_lload_3} then Some (JC_lload, ucast (op - JC_lload_0))
     else if op \<in> {JC_lstore_0, JC_lstore_1, JC_lstore_2, JC_lstore_3}
     then Some (JC_lstore, ucast (op - JC_lstore_0))
     else None)"

definition type_ops :: "u8 list" where
  "type_ops = [JC_anewarray, JC_checkcast, JC_instanceof, JC_new]"

definition field_ops :: "u8 list" where
  "field_ops = [JC_getfield, JC_getstatic, JC_putfield, JC_putstatic]"

definition branch_ops :: "u8 list" where
  "branch_ops = [JC_goto, JC_if_acmpeq, JC_if_acmpne, JC_if_icmpeq, JC_if_icmpne, JC_if_icmplt,
     JC_if_icmpge, JC_if_icmpgt, JC_if_icmple, JC_ifeq, JC_ifne, JC_iflt, JC_ifge, JC_ifgt, JC_ifle,
     JC_ifnonnull, JC_ifnull, JC_jsr]"

definition invoke_ops :: "u8 list" where
  "invoke_ops = [JC_invokespecial, JC_invokestatic, JC_invokevirtual]"

section \<open>Operands\<close>

definition mk_insn :: "u8 \<Rightarrow> insn_info \<Rightarrow> cf_insn" where
  "mk_insn op i = \<lparr>opcode = op, info = i\<rparr>"

text \<open>\<open>(signed char)value8\<close> and \<open>(jshort)value16\<close>, widened.\<close>

abbreviation sx8 :: "u8 \<Rightarrow> u32" where "sx8 b \<equiv> signed_take_bit 7 (ucast b)"
abbreviation sx16 :: "u16 \<Rightarrow> u32" where "sx16 h \<equiv> signed_take_bit 15 (ucast h)"

definition decode_branch16 :: "u8 \<Rightarrow> u32 \<Rightarrow> cf_insn parser" where
  "decode_branch16 op insn_offset =
     bindM parse_uint16 (\<lambda>v. ret (mk_insn op (Branch_info (insn_offset + sx16 v))))"

definition decode_branch32 :: "u8 \<Rightarrow> u32 \<Rightarrow> cf_insn parser" where
  "decode_branch32 op insn_offset =
     bindM parse_integer (\<lambda>v. ret (mk_insn (op - (JC_jsr_w - JC_jsr)) (Branch_info (v + insn_offset))))"

definition decode_iinc :: "u16 \<Rightarrow> cf_insn parser" where
  "decode_iinc mlocals =
     bindM (parse_local8 mlocals) (\<lambda>i. bindM parse_uint8 (\<lambda>v.
       ret (mk_insn JC_iinc (Iinc_info i (signed_take_bit 7 (ucast v))))))"

definition decode_invokeinterface :: "cf_insn parser" where
  "decode_invokeinterface =
     bindM parse_interfacemethodref (\<lambda>r. bindM parse_uint8 (\<lambda>_. bindM parse_uint8 (\<lambda>_.
       ret (mk_insn JC_invokeinterface (Invoke_info r)))))"

definition decode_ldc :: "cf_constant option parser \<Rightarrow> u8 \<Rightarrow> cf_insn parser" where
  "decode_ldc index op = bindM index (\<lambda>cp. bindM (liftM (non_null cp)) (\<lambda>c.
     ret (mk_insn op (Constant_info c))))"

definition decode_multianewarray :: "cf_insn parser" where
  "decode_multianewarray = bindM parse_class1 (\<lambda>u. bindM parse_uint8 (\<lambda>dims.
     ret (mk_insn JC_multianewarray (Multianewarray_info u dims))))"

text \<open>The element type of \<open>newarray\<close>.\<close>

definition newarray_type :: "u8 \<Rightarrow> u8 option" where
  "newarray_type v =
    (if v = T_boolean then Some JC_TYPE_BOOLEAN
     else if v = T_char then Some JC_TYPE_CHAR
     else if v = T_float then Some JC_TYPE_FLOAT
     else if v = T_double then Some JC_TYPE_DOUBLE
     else if v = T_byte then Some JC_TYPE_BYTE
     else if v = T_short then Some JC_TYPE_SHORT
     else if v = T_int then Some JC_TYPE_INT
     else if v = T_long then Some JC_TYPE_LONG
     else None)"

definition decode_newarray :: "cf_insn parser" where
  "decode_newarray = bindM parse_uint8 (\<lambda>v. case newarray_type v of
       None \<Rightarrow> fails (Exn ClassFormatError)
     | Some t \<Rightarrow> ret (mk_insn JC_newarray (Newarray_info t)))"

definition decode_wide :: "u16 \<Rightarrow> cf_insn parser" where
  "decode_wide mlocals = bindM parse_uint8 (\<lambda>op.
     if op \<in> set local_ops then
       bindM (parse_local16 mlocals) (\<lambda>i. ret (mk_insn op (Local_info i)))
     else if op = JC_iinc then
       bindM (parse_local16 mlocals) (\<lambda>i. bindM parse_uint16 (\<lambda>v. ret (mk_insn op (Iinc_info i v))))
     else fails (Exn ClassFormatError))"

section \<open>The switch instructions\<close>

fun parse_pad :: "nat \<Rightarrow> unit parser" where
  "parse_pad 0 = ret ()"
| "parse_pad (Suc n) = bindM parse_uint8 (\<lambda>v.
     if v \<noteq> 0 then fails (Exn ClassFormatError) else parse_pad n)"

definition switch_pad :: "u32 \<Rightarrow> unit parser" where
  "switch_pad start = bindM (gets ps_pos) (\<lambda>pos. parse_pad (3 - unat (((pos - start) + 3) mod 4)))"

text \<open>
  The match pairs of a \<open>lookupswitch\<close>: \<open>prev\<close> are those parsed so far, \<open>cap\<close> is the number of pairs
  there is memory for, \<open>n\<close> the number still to be parsed.
\<close>

fun parse_pairs :: "u32 \<Rightarrow> nat \<Rightarrow> nat \<Rightarrow> cf_lookup list \<Rightarrow> cf_lookup list parser" where
  "parse_pairs insn_offset cap 0 prev = ret prev"
| "parse_pairs insn_offset cap (Suc n) prev =
     bindM parse_integer (\<lambda>m.
     thenM (assertM (Fault Out_of_bounds) (length prev < cap)) (
       if prev \<noteq> [] \<and> jint_val m \<le> jint_val (lk_match (last prev)) then fails (Exn ClassFormatError)
       else bindM parse_integer (\<lambda>t.
         parse_pairs insn_offset cap n (prev @ [\<lparr>lk_match = m, lk_target = t + insn_offset\<rparr>]))))"

text \<open>
  A \<open>_jc_cf_lookupswitch\<close> takes 8 bytes and 8 for each pair; the size passed to \<open>_jc_vm_alloc\<close> is a
  32 bit number.
\<close>

definition decode_lookupswitch :: "u32 \<Rightarrow> u32 \<Rightarrow> cf_insn parser" where
  "decode_lookupswitch start insn_offset =
     thenM (switch_pad start) (
     bindM parse_integer (\<lambda>dflt.
     bindM parse_integer (\<lambda>num_pairs.
     if jint_val num_pairs < 0 then fails (Exn ClassFormatError)
     else let bytes = 8 + num_pairs * 8 in
       thenM (vm_alloc bytes) (
       thenM (assertM (Fault Out_of_bounds) (8 \<le> bytes)) (
       bindM (parse_pairs insn_offset ((unat bytes - 8) div 8) (unat num_pairs) []) (\<lambda>ps.
         ret (mk_insn JC_lookupswitch
           (Lookupswitch_info \<lparr>lsw_default = dflt + insn_offset, lsw_pairs = ps\<rparr>))))))))"

fun parse_targets :: "u32 \<Rightarrow> nat \<Rightarrow> nat \<Rightarrow> u32 list \<Rightarrow> u32 list parser" where
  "parse_targets insn_offset cap 0 prev = ret prev"
| "parse_targets insn_offset cap (Suc n) prev =
     bindM parse_integer (\<lambda>t.
     thenM (assertM (Fault Out_of_bounds) (length prev < cap)) (
       parse_targets insn_offset cap n (prev @ [t + insn_offset])))"

text \<open>
  A \<open>_jc_cf_tableswitch\<close> takes 12 bytes and 4 for each target. The number of targets is computed in
  \<open>jint\<close>, where it can overflow; the overflow is taken to wrap, and a negative number of targets is
  none.
\<close>

definition num_targets :: "u32 \<Rightarrow> u32 \<Rightarrow> u32" where
  "num_targets low high = high - low + 1"

definition decode_tableswitch :: "u32 \<Rightarrow> u32 \<Rightarrow> cf_insn parser" where
  "decode_tableswitch start insn_offset =
     thenM (switch_pad start) (
     bindM parse_integer (\<lambda>dflt.
     bindM parse_integer (\<lambda>low.
     bindM parse_integer (\<lambda>high.
     if jint_val high < jint_val low then fails (Exn ClassFormatError)
     else let bytes = 12 + num_targets low high * 4 in
       thenM (vm_alloc bytes) (
       thenM (assertM (Fault Out_of_bounds) (12 \<le> bytes)) (
       bindM (parse_targets insn_offset ((unat bytes - 12) div 4)
                (nat (jint_val (num_targets low high))) []) (\<lambda>ts.
         ret (mk_insn JC_tableswitch (Tableswitch_info
           \<lparr>tsw_default = dflt + insn_offset, tsw_low = low, tsw_high = high, tsw_targets = ts\<rparr>)))))))))"

section \<open>The instruction\<close>

text \<open>The \<open>switch\<close> on the opcode; \<open>start\<close> is the position of the first bytecode.\<close>

definition decode_insn :: "u16 \<Rightarrow> u32 \<Rightarrow> u32 \<Rightarrow> u8 \<Rightarrow> cf_insn parser" where
  "decode_insn mlocals start insn_offset op =
    (if op \<in> set local_ops then
       bindM (parse_local8 mlocals) (\<lambda>i. ret (mk_insn op (Local_info i)))
     else case short_form op of Some (op', i) \<Rightarrow> ret (mk_insn op' (Local_info i)) | None \<Rightarrow>
     if op \<in> set type_ops then bindM parse_class1 (\<lambda>u. ret (mk_insn op (Type_info u)))
     else if op = JC_bipush then bindM parse_uint8 (\<lambda>v. ret (mk_insn op (Immediate_info (sx8 v))))
     else if op \<in> set field_ops then bindM parse_fieldref (\<lambda>r. ret (mk_insn op (Fieldref_info r)))
     else if op \<in> set branch_ops then decode_branch16 op insn_offset
     else if op = JC_jsr_w \<or> op = JC_goto_w then decode_branch32 op insn_offset
     else if op = JC_iinc then decode_iinc mlocals
     else if op = JC_invokeinterface then decode_invokeinterface
     else if op \<in> set invoke_ops then bindM parse_methodref (\<lambda>r. ret (mk_insn op (Invoke_info r)))
     else if op = JC_ldc then decode_ldc (parse_cpool_index8
         [CONSTANT_Integer, CONSTANT_Float, CONSTANT_String, CONSTANT_Class] False) op
     else if op = JC_ldc_w then decode_ldc (parse_cpool_index16
         [CONSTANT_Integer, CONSTANT_Float, CONSTANT_String, CONSTANT_Class] False) JC_ldc
     else if op = JC_ldc2_w then decode_ldc (parse_cpool_index16
         [CONSTANT_Long, CONSTANT_Double] False) JC_ldc2_w
     else if op = JC_lookupswitch then decode_lookupswitch start insn_offset
     else if op = JC_tableswitch then decode_tableswitch start insn_offset
     else if op = JC_multianewarray then decode_multianewarray
     else if op = JC_newarray then decode_newarray
     else if op = JC_sipush then bindM parse_uint16 (\<lambda>v. ret (mk_insn op (Immediate_info (sx16 v))))
     else if op = JC_wide then decode_wide mlocals
     else ret (mk_insn op No_info))"

section \<open>Decoding moves forward\<close>

text \<open>
  \<open>decodes m Q\<close>: from a well-formed state \<open>m\<close> returns a value in \<open>Q\<close>, further on in the same
  structure, or stores an exception, or makes an access outside an array.
\<close>

fun bounds_failure :: "failure \<Rightarrow> bool" where
  "bounds_failure (Exn e) = True"
| "bounds_failure (Fault f) = (f = Out_of_bounds)"

definition decodes :: "'a parser \<Rightarrow> ('a \<Rightarrow> bool) \<Rightarrow> bool" where
  "decodes m Q \<longleftrightarrow> (\<forall>s. pool_inv s \<longrightarrow> (case m s of
       (Inr x, t) \<Rightarrow> pool_inv t \<and> ps_like s t \<and> Q x
     | (Inl e, t) \<Rightarrow> bounds_failure e))"

lemma decodesD_Inr: "decodes m Q \<Longrightarrow> pool_inv s \<Longrightarrow> m s = (Inr x, t) \<Longrightarrow> pool_inv t \<and> ps_like s t \<and> Q x"
  by (force simp: decodes_def)

lemma decodesD_Inl: "decodes m Q \<Longrightarrow> pool_inv s \<Longrightarrow> m s = (Inl e, t) \<Longrightarrow> bounds_failure e"
  by (force simp: decodes_def)

lemma decodesI:
  assumes "\<And>s x t. pool_inv s \<Longrightarrow> m s = (Inr x, t) \<Longrightarrow> pool_inv t \<and> ps_like s t \<and> Q x"
    and "\<And>s e t. pool_inv s \<Longrightarrow> m s = (Inl e, t) \<Longrightarrow> bounds_failure e"
  shows "decodes m Q"
  unfolding decodes_def by (auto split: prod.splits sum.splits dest: assms)

lemma decodes_reads: "reads all_tags m Q \<Longrightarrow> decodes m Q"
proof (rule decodesI)
  fix s e t
  assume "reads all_tags m Q" and "pool_inv s" and "m s = (Inl e, t)"
  then show "bounds_failure e" by (cases e) (auto dest: safeD_Fault)
qed (auto dest: safeD_Inr)

lemma decodes_bind:
  assumes m: "decodes m R" and f: "\<And>x. R x \<Longrightarrow> decodes (f x) Q"
  shows "decodes (bindM m f) Q"
proof (rule decodesI)
  fix s y u
  assume s: "pool_inv s" and r: "bindM m f s = (Inr y, u)"
  then obtain x t where x: "m s = (Inr x, t)" "f x t = (Inr y, u)" by (blast elim: bindM_Inr_E)
  from decodesD_Inr [OF m s x(1)] have t: "pool_inv t" "ps_like s t" "R x" by auto
  from decodesD_Inr [OF f [OF t(3)] t(1) x(2)] t(2) show "pool_inv u \<and> ps_like s u \<and> Q y"
    by (blast intro: ps_like_trans)
next
  fix s e u
  assume s: "pool_inv s" and r: "bindM m f s = (Inl e, u)"
  show "bounds_failure e"
  proof (cases "m s")
    case (Pair q t)
    show ?thesis
    proof (cases q)
      case (Inl e')
      with Pair r decodesD_Inl [OF m s] show ?thesis by simp
    next
      case (Inr x)
      with Pair decodesD_Inr [OF m s] have "pool_inv t" "R x" by auto
      with Pair Inr r decodesD_Inl [OF f] show ?thesis by simp
    qed
  qed
qed

lemma decodes_then: "decodes m (\<lambda>_. True) \<Longrightarrow> decodes n Q \<Longrightarrow> decodes (thenM m n) Q"
  unfolding thenM_def by (rule decodes_bind)

lemma decodes_ret: "Q x \<Longrightarrow> decodes (ret x) Q"
  by (rule decodesI) (auto intro: ps_like_refl)

lemma decodes_fails: "decodes (fails (Exn e)) Q"
  by (rule decodesI) auto

lemma decodes_assert: "(b \<Longrightarrow> decodes n Q) \<Longrightarrow> decodes (thenM (assertM (Fault Out_of_bounds) b) n) Q"
  by (cases b) (auto simp: thenM_def intro: decodesI)

lemma decodes_if: "(b \<Longrightarrow> decodes m Q) \<Longrightarrow> (\<not> b \<Longrightarrow> decodes n Q) \<Longrightarrow> decodes (if b then m else n) Q"
  by simp

lemma decodes_gets: "decodes (gets f) (\<lambda>_. True)"
  by (rule decodesI) (auto intro: ps_like_refl)

lemmas decodes_readers = reads_uint8 [THEN decodes_reads] reads_ints [THEN decodes_reads]
  reads_locals [THEN decodes_reads] reads_alloc [THEN decodes_reads]
  reads_class1 [OF all_tags_mem(2), THEN decodes_reads]

lemma decodes_refs:
  "decodes parse_fieldref (\<lambda>_. True)" "decodes parse_methodref (\<lambda>_. True)"
  "decodes parse_interfacemethodref (\<lambda>_. True)"
  unfolding parse_fieldref_def parse_methodref_def parse_interfacemethodref_def
  by (rule decodes_reads, rule reads_ref, simp, rule all_tags_mem)+

section \<open>Well-formed instructions\<close>

text \<open>
  What the decoder promises of an instruction: the member of its union is the one its opcode calls
  for, an explicit local index is below \<open>max_locals\<close>, the matches of a \<open>lookupswitch\<close> increase, a
  \<open>tableswitch\<close> has its targets, a loaded constant has a type the opcode allows, and the opcode is
  none of those the decoder rewrites.
\<close>

definition rewritten_op :: "u8 \<Rightarrow> bool" where
  "rewritten_op op \<longleftrightarrow> op \<in> {JC_goto_w, JC_jsr_w, JC_ldc_w, JC_wide} \<or> short_form op \<noteq> None"

definition ldc_tags :: "u8 set" where
  "ldc_tags = {CONSTANT_Integer, CONSTANT_Float, CONSTANT_String, CONSTANT_Class}"

fun info_fits :: "u16 \<Rightarrow> u8 \<Rightarrow> insn_info \<Rightarrow> bool" where
  "info_fits ml op (Local_info i) \<longleftrightarrow> op \<in> set local_ops \<and> (i < ml \<or> i \<le> 3)"
| "info_fits ml op (Type_info u) \<longleftrightarrow> op \<in> set type_ops"
| "info_fits ml op (Immediate_info v) \<longleftrightarrow> op = JC_bipush \<or> op = JC_sipush"
| "info_fits ml op (Fieldref_info r) \<longleftrightarrow> op \<in> set field_ops"
| "info_fits ml op (Branch_info v) \<longleftrightarrow> op \<in> set branch_ops"
| "info_fits ml op (Iinc_info i v) \<longleftrightarrow> op = JC_iinc \<and> i < ml"
| "info_fits ml op (Invoke_info r) \<longleftrightarrow> op = JC_invokeinterface \<or> op \<in> set invoke_ops"
| "info_fits ml op (Constant_info c) \<longleftrightarrow> const_typed c \<and>
     (op = JC_ldc \<and> const_type c \<in> ldc_tags \<or>
      op = JC_ldc2_w \<and> const_type c \<in> {CONSTANT_Long, CONSTANT_Double})"
| "info_fits ml op (Lookupswitch_info l) \<longleftrightarrow> op = JC_lookupswitch \<and>
     sorted_wrt (\<lambda>a b. jint_val (lk_match a) < jint_val (lk_match b)) (lsw_pairs l)"
| "info_fits ml op (Tableswitch_info l) \<longleftrightarrow> op = JC_tableswitch \<and>
     jint_val (tsw_low l) \<le> jint_val (tsw_high l) \<and>
     length (tsw_targets l) = nat (jint_val (num_targets (tsw_low l) (tsw_high l)))"
| "info_fits ml op (Multianewarray_info u dims) \<longleftrightarrow> op = JC_multianewarray"
| "info_fits ml op (Newarray_info ty) \<longleftrightarrow> op = JC_newarray \<and> ty \<in> {JC_TYPE_BOOLEAN, JC_TYPE_BYTE,
     JC_TYPE_CHAR, JC_TYPE_SHORT, JC_TYPE_INT, JC_TYPE_LONG, JC_TYPE_FLOAT, JC_TYPE_DOUBLE}"
| "info_fits ml op No_info \<longleftrightarrow> op \<notin> set local_ops \<union> set type_ops \<union> set field_ops \<union>
     set branch_ops \<union> set invoke_ops \<union> {JC_bipush, JC_sipush, JC_iinc, JC_invokeinterface, JC_ldc,
     JC_ldc2_w, JC_lookupswitch, JC_tableswitch, JC_multianewarray, JC_newarray}"

definition insn_wf :: "u16 \<Rightarrow> cf_insn \<Rightarrow> bool" where
  "insn_wf ml insn \<longleftrightarrow> info_fits ml (opcode insn) (info insn) \<and> \<not> rewritten_op (opcode insn)"

lemmas op_groups = local_ops_def type_ops_def field_ops_def branch_ops_def invoke_ops_def

lemma decodes_pad: "decodes (parse_pad n) (\<lambda>_. True)"
  by (induction n) (auto intro!: decodes_ret decodes_bind [OF decodes_readers(1)] decodes_if decodes_fails)

lemma decodes_switch_pad: "decodes (switch_pad start) (\<lambda>_. True)"
  unfolding switch_pad_def by (intro decodes_bind [OF decodes_gets] decodes_pad)

lemma sorted_wrt_snoc:
  "transp R \<Longrightarrow> sorted_wrt R xs \<Longrightarrow> (xs \<noteq> [] \<Longrightarrow> R (last xs) x) \<Longrightarrow> sorted_wrt R (xs @ [x])"
  by (cases xs rule: rev_cases) (auto simp: sorted_wrt_append, meson transpD)

lemma decodes_pairs:
  assumes "sorted_wrt (\<lambda>a b. jint_val (lk_match a) < jint_val (lk_match b)) prev"
  shows "decodes (parse_pairs off cap n prev)
    (sorted_wrt (\<lambda>a b. jint_val (lk_match a) < jint_val (lk_match b)))"
  using assms
proof (induction n arbitrary: prev)
  case 0
  then show ?case by (auto intro: decodes_ret)
next
  case (Suc n)
  have "sorted_wrt (\<lambda>a b. jint_val (lk_match a) < jint_val (lk_match b))
      (prev @ [\<lparr>lk_match = m, lk_target = t\<rparr>])"
    if "\<not> (prev \<noteq> [] \<and> jint_val m \<le> jint_val (lk_match (last prev)))" for m t
    by (rule sorted_wrt_snoc [OF _ Suc.prems]) (use that in \<open>auto intro: transpI\<close>)
  then show ?case
    by (auto intro!: decodes_bind [OF decodes_readers(4)] decodes_assert decodes_if decodes_fails Suc.IH)
qed

lemma decodes_targets: "decodes (parse_targets off cap n prev) (\<lambda>ts. length ts = length prev + n)"
proof (induction n arbitrary: prev)
  case 0
  then show ?case by (auto intro: decodes_ret)
next
  case (Suc n)
  from Suc [of "prev @ [t]" for t] show ?case
    by (auto intro!: decodes_bind [OF decodes_readers(4)] decodes_assert)
qed

lemma decodes_lookupswitch: "decodes (decode_lookupswitch start off) (insn_wf ml)"
  unfolding decode_lookupswitch_def Let_def
  by (intro decodes_then [OF decodes_switch_pad] decodes_bind [OF decodes_readers(4)] decodes_if
      decodes_fails decodes_then [OF decodes_readers(8)] decodes_assert decodes_bind [OF decodes_pairs]
      decodes_ret)
    (auto simp: insn_wf_def mk_insn_def rewritten_op_def short_form_def)

lemma decodes_tableswitch: "decodes (decode_tableswitch start off) (insn_wf ml)"
  unfolding decode_tableswitch_def Let_def
  by (intro decodes_then [OF decodes_switch_pad] decodes_bind [OF decodes_readers(4)] decodes_if
      decodes_fails decodes_then [OF decodes_readers(8)] decodes_assert decodes_bind [OF decodes_targets]
      decodes_ret)
    (auto simp: insn_wf_def mk_insn_def rewritten_op_def short_form_def)

lemma decodes_index:
  assumes "types \<noteq> []" and "set types \<subseteq> all_tags"
  shows "decodes (parse_cpool_index16 types False)
      (\<lambda>r. \<exists>c. r = Some c \<and> const_type c \<in> set types \<and> const_typed c)"
    and "decodes (parse_cpool_index8 types False)
      (\<lambda>r. \<exists>c. r = Some c \<and> const_type c \<in> set types \<and> const_typed c)"
  using assms
  by (auto intro!: decodes_reads safe_weaken [OF reads_cpool_index16] safe_weaken [OF reads_cpool_index8])

lemma decodes_ldc:
  assumes "decodes index (\<lambda>r. \<exists>c. r = Some c \<and> const_type c \<in> set types \<and> const_typed c)"
    and "\<And>c. const_type c \<in> set types \<Longrightarrow> const_typed c \<Longrightarrow> insn_wf ml (mk_insn op (Constant_info c))"
  shows "decodes (decode_ldc index op) (insn_wf ml)"
  unfolding decode_ldc_def
  by (rule decodes_bind [OF assms(1)]) (auto intro!: decodes_ret assms(2))

lemma short_form_wf: "short_form op = Some (op', i) \<Longrightarrow> insn_wf ml (mk_insn op' (Local_info i))"
  by (auto simp: short_form_def insn_wf_def mk_insn_def rewritten_op_def local_ops_def split: if_splits)

lemma plain_op:
  "op \<in> set (local_ops @ type_ops @ field_ops @ branch_ops @ invoke_ops @ [JC_bipush, JC_sipush, JC_iinc,
     JC_ldc, JC_ldc2_w]) \<Longrightarrow> \<not> rewritten_op op"
proof -
  have "list_all (\<lambda>op. \<not> rewritten_op op) (local_ops @ type_ops @ field_ops @ branch_ops @ invoke_ops @
      [JC_bipush, JC_sipush, JC_iinc, JC_ldc, JC_ldc2_w])"
    by code_simp
  then show "op \<in> set (local_ops @ type_ops @ field_ops @ branch_ops @ invoke_ops @ [JC_bipush,
      JC_sipush, JC_iinc, JC_ldc, JC_ldc2_w]) \<Longrightarrow> \<not> rewritten_op op"
    unfolding list_all_iff by blast
qed

lemma local_ops_wf: "op \<in> set local_ops \<Longrightarrow> i < ml \<Longrightarrow> insn_wf ml (mk_insn op (Local_info i))"
  using plain_op [of op] by (simp add: insn_wf_def mk_insn_def)

lemma decodes_wide: "decodes (decode_wide ml) (insn_wf ml)"
  unfolding decode_wide_def
  by (intro decodes_bind [OF decodes_readers(1)] decodes_if decodes_bind [OF decodes_readers(7)]
      decodes_bind [OF decodes_readers(2)] decodes_ret decodes_fails)
    (simp_all add: local_ops_wf insn_wf_def mk_insn_def plain_op)

lemma decodes_small:
  "decodes (decode_iinc ml) (insn_wf ml)" "decodes decode_invokeinterface (insn_wf ml)"
  "decodes decode_multianewarray (insn_wf ml)" "decodes decode_newarray (insn_wf ml)"
proof -
  show "decodes (decode_iinc ml) (insn_wf ml)"
    unfolding decode_iinc_def
    by (intro decodes_bind [OF decodes_readers(6)] decodes_bind [OF decodes_readers(1)] decodes_ret)
      (simp add: insn_wf_def mk_insn_def rewritten_op_def short_form_def)
  show "decodes decode_invokeinterface (insn_wf ml)"
    unfolding decode_invokeinterface_def
    by (intro decodes_bind [OF decodes_refs(3)] decodes_bind [OF decodes_readers(1)] decodes_ret)
      (simp add: insn_wf_def mk_insn_def rewritten_op_def short_form_def)
  show "decodes decode_multianewarray (insn_wf ml)"
    unfolding decode_multianewarray_def
    by (intro decodes_bind [OF decodes_readers(9)] decodes_bind [OF decodes_readers(1)] decodes_ret)
      (simp add: insn_wf_def mk_insn_def rewritten_op_def short_form_def)
  have "newarray_type v = Some t \<Longrightarrow> insn_wf ml (mk_insn JC_newarray (Newarray_info t))" for v t
    by (auto simp: newarray_type_def insn_wf_def mk_insn_def rewritten_op_def short_form_def split: if_splits)
  then show "decodes decode_newarray (insn_wf ml)"
    unfolding decode_newarray_def
    by (intro decodes_bind [OF decodes_readers(1)])
      (auto intro!: decodes_ret decodes_fails split: option.splits)
qed

lemma branch_wf: "op \<in> set branch_ops \<Longrightarrow> insn_wf ml (mk_insn op (Branch_info v))"
  using plain_op [of op] by (simp add: insn_wf_def mk_insn_def)

lemma decodes_branch:
  "op \<in> set branch_ops \<Longrightarrow> decodes (decode_branch16 op off) (insn_wf ml)"
  "op = JC_jsr_w \<or> op = JC_goto_w \<Longrightarrow> decodes (decode_branch32 op off) (insn_wf ml)"
proof -
  show "op \<in> set branch_ops \<Longrightarrow> decodes (decode_branch16 op off) (insn_wf ml)"
    unfolding decode_branch16_def
    by (intro decodes_bind [OF decodes_readers(2)] decodes_ret) (rule branch_wf)
  assume "op = JC_jsr_w \<or> op = JC_goto_w"
  then have "op - (JC_jsr_w - JC_jsr) \<in> set branch_ops" by (auto simp: branch_ops_def)
  then show "decodes (decode_branch32 op off) (insn_wf ml)"
    unfolding decode_branch32_def
    by (intro decodes_bind [OF decodes_readers(4)] decodes_ret) (rule branch_wf)
qed

lemma decodes_plain_groups:
  "op \<in> set type_ops \<Longrightarrow> insn_wf ml (mk_insn op (Type_info u))"
  "op \<in> set field_ops \<Longrightarrow> insn_wf ml (mk_insn op (Fieldref_info r))"
  "op \<in> set invoke_ops \<Longrightarrow> insn_wf ml (mk_insn op (Invoke_info r))"
  "op = JC_bipush \<or> op = JC_sipush \<Longrightarrow> insn_wf ml (mk_insn op (Immediate_info v))"
  using plain_op [of op] by (auto simp: insn_wf_def mk_insn_def)

lemma constant_wf:
  "const_type c \<in> set [CONSTANT_Integer, CONSTANT_Float, CONSTANT_String, CONSTANT_Class] \<Longrightarrow> const_typed c \<Longrightarrow>
    insn_wf ml (mk_insn JC_ldc (Constant_info c))"
  "const_type c \<in> set [CONSTANT_Long, CONSTANT_Double] \<Longrightarrow> const_typed c \<Longrightarrow>
    insn_wf ml (mk_insn JC_ldc2_w (Constant_info c))"
  using plain_op [of JC_ldc] plain_op [of JC_ldc2_w] by (simp_all add: insn_wf_def mk_insn_def ldc_tags_def)

lemma decodes_constants:
  "decodes (decode_ldc (parse_cpool_index8
     [CONSTANT_Integer, CONSTANT_Float, CONSTANT_String, CONSTANT_Class] False) JC_ldc) (insn_wf ml)"
  "decodes (decode_ldc (parse_cpool_index16
     [CONSTANT_Integer, CONSTANT_Float, CONSTANT_String, CONSTANT_Class] False) JC_ldc) (insn_wf ml)"
  "decodes (decode_ldc (parse_cpool_index16 [CONSTANT_Long, CONSTANT_Double] False) JC_ldc2_w) (insn_wf ml)"
  by (rule decodes_ldc [OF decodes_index(2)]; (erule (1) constant_wf)?; simp add: all_tags_def)
    (rule decodes_ldc [OF decodes_index(1)]; (erule (1) constant_wf)?; simp add: all_tags_def)+

lemma decodes_insn: "decodes (decode_insn ml start off op) (insn_wf ml)"
  unfolding decode_insn_def
proof (intro decodes_if, goal_cases)
  case 1
  then show ?case by (intro decodes_bind [OF decodes_readers(6)] decodes_ret) (rule local_ops_wf)
next
  case nl: 2
  show ?case
  proof (cases "short_form op")
    case (Some p)
    then show ?thesis by (cases p) (auto intro: decodes_ret short_form_wf)
  next
    case ns: None
    have plain: "insn_wf ml (mk_insn op No_info)"
      if "op \<notin> set type_ops" "op \<noteq> JC_bipush" "op \<notin> set field_ops" "op \<notin> set branch_ops"
        "\<not> (op = JC_jsr_w \<or> op = JC_goto_w)" "op \<noteq> JC_iinc" "op \<noteq> JC_invokeinterface"
        "op \<notin> set invoke_ops" "op \<noteq> JC_ldc" "op \<noteq> JC_ldc_w" "op \<noteq> JC_ldc2_w" "op \<noteq> JC_lookupswitch"
        "op \<noteq> JC_tableswitch" "op \<noteq> JC_multianewarray" "op \<noteq> JC_newarray" "op \<noteq> JC_sipush" "op \<noteq> JC_wide"
      using that nl ns by (simp add: insn_wf_def mk_insn_def rewritten_op_def)
    show ?thesis
      unfolding ns option.case
    proof (intro decodes_if, goal_cases)
      case 1
      then show ?case by (intro decodes_bind [OF decodes_readers(9)] decodes_ret) (rule decodes_plain_groups)
    next
      case 2
      then show ?case by (intro decodes_bind [OF decodes_readers(1)] decodes_ret) (simp add: decodes_plain_groups)
    next
      case 3
      then show ?case by (intro decodes_bind [OF decodes_refs(1)] decodes_ret) (rule decodes_plain_groups)
    next
      case 4
      then show ?case by (intro decodes_branch)
    next
      case 5
      then show ?case by (intro decodes_branch)
    next
      case 6
      show ?case by (rule decodes_small)
    next
      case 7
      show ?case by (rule decodes_small)
    next
      case 8
      then show ?case by (intro decodes_bind [OF decodes_refs(2)] decodes_ret) (rule decodes_plain_groups)
    next
      case 9
      then show ?case by (simp only: decodes_constants)
    next
      case 10
      show ?case by (rule decodes_constants)
    next
      case 11
      show ?case by (rule decodes_constants)
    next
      case 12
      show ?case by (rule decodes_lookupswitch)
    next
      case 13
      show ?case by (rule decodes_tableswitch)
    next
      case 14
      show ?case by (rule decodes_small)
    next
      case 15
      show ?case by (rule decodes_small)
    next
      case 16
      then show ?case by (intro decodes_bind [OF decodes_readers(2)] decodes_ret) (simp add: decodes_plain_groups)
    next
      case 17
      show ?case by (rule decodes_wide)
    next
      case 18
      then show ?case by (intro decodes_ret plain)
    qed
  qed
qed

end
