(* ===== verification/Cf_Bytecode.thy ===== *)
theory Cf_Bytecode
  imports Cf_Decode
begin

text \<open>
  The two passes of \<open>_jc_parse_bytecode\<close>, \<open>_jc_map_offset\<close> and \<open>_jc_parse_code\<close> of
  \<open>libjc/cf_parse.c\<close>. The first pass decodes the instructions one after the other and records the
  index of each in the offset map, the second replaces the branch targets, which are bytecode
  offsets, by instruction indices.
\<close>

section \<open>Pass one\<close>

definition zero_insn :: cf_insn where
  "zero_insn = mk_insn 0 No_info"

text \<open>
  The loop: \<open>inum\<close> instructions are decoded, \<open>omap\<close> is the offset map and \<open>arr\<close> the instruction
  array, both with room for \<open>code_length\<close> entries. The position is compared with \<open>end\<close> for equality
  only, and the opcode is read without a check.
\<close>

fun bytecode_loop ::
  "nat \<Rightarrow> u16 \<Rightarrow> u32 \<Rightarrow> u32 \<Rightarrow> nat \<Rightarrow> u32 list \<Rightarrow> cf_insn list \<Rightarrow> (nat \<times> u32 list \<times> cf_insn list) parser"
where
  "bytecode_loop 0 ml start stop inum omap arr = fails (Fault Out_of_fuel)"
| "bytecode_loop (Suc fuel) ml start stop inum omap arr =
     bindM (gets ps_pos) (\<lambda>pos.
     if pos = stop then ret (inum, omap, arr)
     else let insn_offset = pos - start in
       bindM (liftM (store omap (unat insn_offset) (of_nat inum))) (\<lambda>omap'.
       bindM byte_at_pos (\<lambda>op.
       thenM (advance 1) (
       bindM (liftM (store arr inum (mk_insn op No_info))) (\<lambda>arr'.
       if bytecode_name op = None then fails (Exn ClassFormatError)
       else bindM (decode_insn ml start insn_offset op) (\<lambda>insn.
         bytecode_loop fuel ml start stop (Suc inum) omap' (arr'[inum := insn])))))))"

section \<open>Pass two\<close>

text \<open>\<open>_jc_map_offset\<close>\<close>

definition map_offset :: "u32 \<Rightarrow> u32 list \<Rightarrow> u32 \<Rightarrow> ('s, u32) mon" where
  "map_offset code_length omap target =
    (if target = 0 then ret target
     else if jint_val target < 0 \<or> code_length \<le> target then fails (Exn ClassFormatError)
     else bindM (liftM (load omap (unat target))) (\<lambda>v.
       if v = 0 then fails (Exn ClassFormatError) else ret v))"

text \<open>The body of the loop over the instructions.\<close>

definition map_pair :: "u32 \<Rightarrow> u32 list \<Rightarrow> cf_lookup \<Rightarrow> ('s, cf_lookup) mon" where
  "map_pair code_length omap p =
     bindM (map_offset code_length omap (lk_target p)) (\<lambda>t. ret (p\<lparr>lk_target := t\<rparr>))"

definition map_insn :: "u32 \<Rightarrow> u32 list \<Rightarrow> cf_insn \<Rightarrow> ('s, cf_insn) mon" where
  "map_insn code_length omap insn =
    (if opcode insn \<in> set branch_ops then (case info insn of
         Branch_info t \<Rightarrow> bindM (map_offset code_length omap t) (\<lambda>t'. ret (insn\<lparr>info := Branch_info t'\<rparr>))
       | _ \<Rightarrow> fails (Fault Wrong_union_member))
     else if opcode insn = JC_lookupswitch then (case info insn of
         Lookupswitch_info l \<Rightarrow>
           bindM (map_offset code_length omap (lsw_default l)) (\<lambda>d.
           bindM (mapM (map_pair code_length omap) (lsw_pairs l)) (\<lambda>ps.
             ret (insn\<lparr>info := Lookupswitch_info (l\<lparr>lsw_default := d, lsw_pairs := ps\<rparr>)\<rparr>)))
       | _ \<Rightarrow> fails (Fault Wrong_union_member))
     else if opcode insn = JC_tableswitch then (case info insn of
         Tableswitch_info l \<Rightarrow>
           bindM (map_offset code_length omap (tsw_default l)) (\<lambda>d.
           bindM (mapM (map_offset code_length omap) (tsw_targets l)) (\<lambda>ts.
             ret (insn\<lparr>info := Tableswitch_info (l\<lparr>tsw_default := d, tsw_targets := ts\<rparr>)\<rparr>)))
       | _ \<Rightarrow> fails (Fault Wrong_union_member))
     else ret insn)"

text \<open>
  \<open>_jc_parse_bytecode\<close>: the number of instructions, the offset map, the instructions. The fuel is
  more than the number of bytes that are left.
\<close>

definition parse_bytecode :: "u16 \<Rightarrow> u32 \<Rightarrow> u32 list \<Rightarrow> cf_insn list \<Rightarrow> (nat \<times> u32 list \<times> cf_insn list) parser" where
  "parse_bytecode ml code_length omap arr =
     bindM (gets (\<lambda>s. (ps_pos s, Suc (length (ps_buf s))))) (\<lambda>(start, fuel).
     bindM (bytecode_loop fuel ml start (start + code_length) 0 omap arr) (\<lambda>(n, omap', arr').
     bindM (mapM (map_insn code_length omap') (take n arr')) (\<lambda>js.
       ret (n, omap', js @ drop n arr'))))"

section \<open>The Code attribute\<close>

definition parse_trap :: "u32 \<Rightarrow> u32 list \<Rightarrow> u32 \<Rightarrow> cf_trap parser" where
  "parse_trap code_length omap ninsns =
     bindM parse_uint16 (\<lambda>v. bindM (map_offset code_length omap (ucast v)) (\<lambda>from.
     bindM parse_uint16 (\<lambda>v. bindM (if ucast v = code_length then ret ninsns
                                  else map_offset code_length omap (ucast v)) (\<lambda>to.
     bindM parse_uint16 (\<lambda>v. bindM (map_offset code_length omap (ucast v)) (\<lambda>target.
     if jint_val to \<le> jint_val from then fails (Exn ClassFormatError)
     else bindM (parse_class True) (\<lambda>ty.
       ret \<lparr>trap_start = from, trap_end = to, trap_target = target, trap_type = ty\<rparr>)))))))"

fun union_LineNumberTable :: "attr_info \<Rightarrow> failure + cf_linenum list" where
  "union_LineNumberTable (LineNumberTable_attr ls) = Inr ls"
| "union_LineNumberTable _ = Inl (Fault Wrong_union_member)"

text \<open>A \<open>_jc_cf_linemap\<close> takes 8 bytes.\<close>

definition map_linenum :: "u32 \<Rightarrow> u32 list \<Rightarrow> cf_linenum \<Rightarrow> ('s, cf_linemap) mon" where
  "map_linenum code_length omap l =
     bindM (map_offset code_length omap (ucast (ln_offset l))) (\<lambda>i.
       ret \<lparr>lm_index = i, lm_line = ln_line l\<rparr>)"

definition parse_linemaps :: "u32 \<Rightarrow> u32 list \<Rightarrow> cf_attr \<Rightarrow> cf_linemap list parser" where
  "parse_linemaps code_length omap a =
     bindM (liftM (union_LineNumberTable (attr_info a))) (\<lambda>ls.
     thenM (if 0 < length ls then vm_alloc (of_nat (length ls) * 8) else ret ()) (
     bindM (mapM (map_linenum code_length omap) ls) (\<lambda>lms.
     bindM (liftM (free_attribute a)) (\<lambda>_. ret lms))))"

text \<open>The loop over the attributes, left at the first line number table.\<close>

fun parse_code_attrs :: "nat \<Rightarrow> u32 \<Rightarrow> u32 list \<Rightarrow> cf_linemap list parser" where
  "parse_code_attrs 0 code_length omap = ret []"
| "parse_code_attrs (Suc n) code_length omap =
     thenM (modify (\<lambda>s. s\<lparr>ps_attr := zero_attr\<rparr>)) (
     thenM parse_attribute (
     bindM (gets ps_attr) (\<lambda>a.
     bindM (liftM (non_null (attr_name a))) (\<lambda>name.
     if name = c_str ''LineNumberTable'' then parse_linemaps code_length omap a
     else bindM (liftM (free_attribute a)) (\<lambda>_. parse_code_attrs n code_length omap)))))"

text \<open>
  \<open>_jc_parse_code\<close>: an entry of the offset map takes 4 bytes, a \<open>_jc_cf_insn\<close> 12 and a \<open>_jc_cf_trap\<close>
  16. The sizes of the first two arrays are computed in \<open>size_t\<close>.
\<close>

definition parse_code_tables :: "u32 \<Rightarrow> u32 list \<Rightarrow> u32 \<Rightarrow> (u16 \<times> cf_trap list \<times> cf_linemap list) parser" where
  "parse_code_tables code_length omap ninsns =
     bindM parse_uint16 (\<lambda>ntraps.
     bindM (gets (\<lambda>s. ps_length s < ps_pos s + ucast ntraps * 8)) (\<lambda>truncated.
     if truncated then fails (Exn ClassFormatError)
     else thenM (if 0 < ntraps then vm_alloc (ucast ntraps * 16) else ret ()) (
       bindM (repeatM (unat ntraps) (parse_trap code_length omap ninsns)) (\<lambda>ts.
       bindM parse_uint16 (\<lambda>num_attrs.
       bindM (parse_code_attrs (unat num_attrs) code_length omap) (\<lambda>lms.
         ret (ntraps, ts, lms)))))))"

definition parse_code_body :: "cf_code parser" where
  "parse_code_body =
     bindM parse_uint16 (\<lambda>stack.
     bindM parse_uint16 (\<lambda>locals.
     bindM parse_uint32 (\<lambda>code_length.
     bindM (gets (\<lambda>s. ps_length s < ps_pos s + code_length)) (\<lambda>overflow.
     if overflow then fails (Exn ClassFormatError)
     else
       thenM (vm_alloc (code_length * 4)) (
       thenM (vm_alloc (code_length * 12)) (
       bindM (parse_bytecode locals code_length
                (replicate (unat (code_length * 4) div 4) 0)
                (replicate (unat (code_length * 12) div 12) zero_insn)) (\<lambda>(n, omap, arr).
       bindM (parse_code_tables code_length omap (of_nat n)) (\<lambda>(ntraps, ts, lms).
         ret \<lparr>max_stack = stack, max_locals = locals, num_traps = ntraps,
              num_linemaps = of_nat (length lms), num_insns = of_nat n, insns = arr,
              traps = ts, linemaps = lms\<rparr>))))))))"

text \<open>The parse state \<open>_jc_parse_code\<close> starts from: the copied bytes of the attribute.\<close>

definition code_state :: "classfile \<Rightarrow> u8 list \<Rightarrow> (nat \<Rightarrow> u32 \<Rightarrow> bool) \<Rightarrow> parse_state" where
  "code_state cf bytes memok = \<lparr>ps_buf = bytes, ps_base = 0, ps_length = of_nat (length bytes),
     ps_pos = 0, ps_cfile = cf, ps_attr = zero_attr, ps_nalloc = 0, ps_memok = memok\<rparr>"

definition parse_code :: "classfile \<Rightarrow> u8 list \<Rightarrow> (nat \<Rightarrow> u32 \<Rightarrow> bool) \<Rightarrow> failure + cf_code" where
  "parse_code cf bytes memok = fst (parse_code_body (code_state cf bytes memok))"

section \<open>What the first pass computes\<close>

text \<open>
  The specification of the first pass, without arrays or indices: \<open>listing s ml start stop p ls\<close> says
  that the instructions from position \<open>p\<close> to \<open>stop\<close> are \<open>ls\<close>, each with its offset, every one decoded
  where the one before it ends.
\<close>

inductive listing :: "parse_state \<Rightarrow> u16 \<Rightarrow> u32 \<Rightarrow> u32 \<Rightarrow> u32 \<Rightarrow> (u32 \<times> cf_insn) list \<Rightarrow> bool"
  for s ml start stop
where
  listing_end: "listing s ml start stop stop []"
| listing_insn: "p \<noteq> stop \<Longrightarrow> load (ps_buf s) (ps_base s + unat p) = Inr op \<Longrightarrow> bytecode_name op \<noteq> None \<Longrightarrow>
    decode_insn ml start (p - start) op (s\<lparr>ps_pos := p + 1, ps_nalloc := k\<rparr>) = (Inr insn, t) \<Longrightarrow>
    listing s ml start stop (ps_pos t) ls \<Longrightarrow> listing s ml start stop p ((p - start, insn) # ls)"

text \<open>The buffer ends where the structure does.\<close>

definition exact :: "parse_state \<Rightarrow> bool" where
  "exact s \<longleftrightarrow> pool_inv s \<and> ps_base s + unat (ps_length s) = length (ps_buf s)"

lemma ps_like_eq: "ps_like s t \<Longrightarrow> t = s\<lparr>ps_pos := ps_pos t, ps_nalloc := ps_nalloc t\<rparr>"
  unfolding ps_like_def by blast

lemma exact_like: "exact s \<Longrightarrow> pool_inv t \<Longrightarrow> ps_like s t \<Longrightarrow> exact t"
  using ps_like_frame [of s t] by (simp add: exact_def frame_def)

lemma listing_like:
  assumes "listing t ml start stop p ls" and "ps_like s t"
  shows "listing s ml start stop p ls"
  using assms(1)
proof (induction rule: listing.induct)
  case listing_end
  show ?case by (rule listing.listing_end)
next
  case (listing_insn p op k insn u ls)
  obtain q m where t: "t = s\<lparr>ps_pos := q, ps_nalloc := m\<rparr>" using ps_like_eq [OF assms(2)] by blast
  from listing_insn show ?case by (intro listing.listing_insn) (simp_all add: t)
qed

lemma liftM_store:
  "liftM (store xs i x) s = (Inr ys, t) \<longleftrightarrow> t = s \<and> i < length xs \<and> ys = xs[i := x]"
  by (auto simp: store_def)

text \<open>One turn of the loop.\<close>

lemma opcode_read:
  assumes s: "exact s" and b: "byte_at_pos s = (Inr op, s')"
  shows "s' = s" and "load (ps_buf s) (ps_base s + unat (ps_pos s)) = Inr op"
    and "exact (s\<lparr>ps_pos := ps_pos s + 1\<rparr>)" and "ps_like s (s\<lparr>ps_pos := ps_pos s + 1\<rparr>)"
    and "unat (ps_pos s + 1) = unat (ps_pos s) + 1"
proof -
  from b show "s' = s" and ld: "load (ps_buf s) (ps_base s + unat (ps_pos s)) = Inr op"
    by (auto simp: byte_at_pos_def)
  have ok: "ps_ok s" using s by (simp add: exact_def ps_inv_def)
  from ld s have lt: "unat (ps_pos s) + 1 \<le> unat (ps_length s)" by (simp add: load_Inr_iff exact_def)
  from unat_pos_plus [OF ok, of 1] lt show u: "unat (ps_pos s + 1) = unat (ps_pos s) + 1" by simp
  with s lt show "exact (s\<lparr>ps_pos := ps_pos s + 1\<rparr>)"
    by (simp add: exact_def ps_inv_def ps_ok_def word_le_nat_alt)
  from ps_like_pos [OF ok, of 1] lt show "ps_like s (s\<lparr>ps_pos := ps_pos s + 1\<rparr>)" by simp
qed

lemma loop_step:
  assumes s: "exact s" and r: "bytecode_loop (Suc fuel) ml start stop inum omap arr s = (Inr x, u)"
    and go: "ps_pos s \<noteq> stop"
  obtains op insn t where "load (ps_buf s) (ps_base s + unat (ps_pos s)) = Inr op" and "bytecode_name op \<noteq> None"
    and "decode_insn ml start (ps_pos s - start) op (s\<lparr>ps_pos := ps_pos s + 1\<rparr>) = (Inr insn, t)"
    and "exact t" and "ps_like s t" and "insn_wf ml insn" and "unat (ps_pos s) < unat (ps_pos t)"
    and "unat (ps_pos s - start) < length omap" and "inum < length arr"
    and "bytecode_loop fuel ml start stop (Suc inum) (omap[unat (ps_pos s - start) := of_nat inum])
           (arr[inum := insn]) t = (Inr x, u)"
proof -
  let ?o = "unat (ps_pos s - start)"
  from r go have "bindM (liftM (store omap ?o (of_nat inum))) (\<lambda>omap'.
       bindM byte_at_pos (\<lambda>op.
       thenM (advance 1) (
       bindM (liftM (store arr inum (mk_insn op No_info))) (\<lambda>arr'.
       if bytecode_name op = None then fails (Exn ClassFormatError)
       else bindM (decode_insn ml start (ps_pos s - start) op) (\<lambda>insn.
         bytecode_loop fuel ml start stop (Suc inum) omap' (arr'[inum := insn])))))) s = (Inr x, u)"
    by (simp add: Let_def)
  then obtain omap' s1 where o: "liftM (store omap ?o (of_nat inum)) s = (Inr omap', s1)"
    and r1: "bindM byte_at_pos (\<lambda>op. thenM (advance 1) (
       bindM (liftM (store arr inum (mk_insn op No_info))) (\<lambda>arr'.
       if bytecode_name op = None then fails (Exn ClassFormatError)
       else bindM (decode_insn ml start (ps_pos s - start) op) (\<lambda>insn.
         bytecode_loop fuel ml start stop (Suc inum) omap' (arr'[inum := insn]))))) s1 = (Inr x, u)"
    by (rule bindM_Inr_E)
  from o have o': "s1 = s" "?o < length omap" "omap' = omap[?o := of_nat inum]"
    unfolding liftM_store by simp_all
  from r1 obtain op s2 where b: "byte_at_pos s = (Inr op, s2)"
    and r2: "thenM (advance 1) (
       bindM (liftM (store arr inum (mk_insn op No_info))) (\<lambda>arr'.
       if bytecode_name op = None then fails (Exn ClassFormatError)
       else bindM (decode_insn ml start (ps_pos s - start) op) (\<lambda>insn.
         bytecode_loop fuel ml start stop (Suc inum) omap' (arr'[inum := insn])))) s2 = (Inr x, u)"
    unfolding o' by (rule bindM_Inr_E)
  note op = opcode_read [OF s b]
  let ?s = "s\<lparr>ps_pos := ps_pos s + 1\<rparr>"
  from r2 have "bindM (liftM (store arr inum (mk_insn op No_info))) (\<lambda>arr'.
       if bytecode_name op = None then fails (Exn ClassFormatError)
       else bindM (decode_insn ml start (ps_pos s - start) op) (\<lambda>insn.
         bytecode_loop fuel ml start stop (Suc inum) omap' (arr'[inum := insn]))) ?s = (Inr x, u)"
    by (simp add: thenM_def bindM_def advance_def op(1))
  then obtain arr' s3 where a: "liftM (store arr inum (mk_insn op No_info)) ?s = (Inr arr', s3)"
    and r3: "(if bytecode_name op = None then fails (Exn ClassFormatError)
       else bindM (decode_insn ml start (ps_pos s - start) op) (\<lambda>insn.
         bytecode_loop fuel ml start stop (Suc inum) omap' (arr'[inum := insn]))) s3 = (Inr x, u)"
    by (rule bindM_Inr_E)
  from a have a': "s3 = ?s" "inum < length arr" "arr' = arr[inum := mk_insn op No_info]"
    unfolding liftM_store by simp_all
  from r3 have nm: "bytecode_name op \<noteq> None"
    by (cases "bytecode_name op = None") (simp_all add: fails_apply)
  with r3 obtain insn t where d: "decode_insn ml start (ps_pos s - start) op ?s = (Inr insn, t)"
    and r4: "bytecode_loop fuel ml start stop (Suc inum) omap' (arr'[inum := insn]) t = (Inr x, u)"
    unfolding a' by (auto elim: bindM_Inr_E)
  from op(3) have "pool_inv ?s" by (simp add: exact_def)
  from decodesD_Inr [OF decodes_insn this d]
  have t: "pool_inv t" "ps_like ?s t" "insn_wf ml insn" by auto
  from t(2) op(5) have "unat (ps_pos s) < unat (ps_pos t)" by (simp add: ps_like_def word_le_nat_alt)
  moreover have "exact t" by (rule exact_like [OF op(3) t(1,2)])
  moreover have "ps_like s t" by (rule ps_like_trans [OF op(4) t(2)])
  ultimately show thesis
    using that [OF op(2) nm d] t(3) o' a' r4 by (simp add: list_update_overwrite)
qed

text \<open>
  What the loop has done to the two arrays when it stops: the instructions of the listing follow
  those already there, the map sends the offset of each to its index and is otherwise unchanged.
\<close>

definition loop_result :: "parse_state \<Rightarrow> u16 \<Rightarrow> u32 \<Rightarrow> u32 \<Rightarrow> nat \<Rightarrow> u32 list \<Rightarrow> cf_insn list \<Rightarrow>
    (u32 \<times> cf_insn) list \<Rightarrow> nat \<times> u32 list \<times> cf_insn list \<Rightarrow> bool" where
  "loop_result s ml start stop inum omap arr ls = (\<lambda>(n, omap', arr').
     n = inum + length ls \<and> n \<le> length arr \<and> length omap' = length omap \<and>
     arr' = take inum arr @ map snd ls @ drop n arr \<and>
     (\<forall>i < length ls. unat (fst (ls ! i)) < length omap \<and> omap' ! unat (fst (ls ! i)) = of_nat (inum + i)) \<and>
     (\<forall>p < length omap. p \<notin> (\<lambda>l. unat (fst l)) ` set ls \<longrightarrow> omap' ! p = omap ! p) \<and>
     sorted_wrt (<) (map (\<lambda>l. unat (fst l)) ls) \<and>
     (\<forall>l \<in> set ls. unat (ps_pos s - start) \<le> unat (fst l) \<and> insn_wf ml (snd l)))"

lemma loop_result_Cons:
  assumes r: "loop_result t ml start stop (Suc inum) (omap[o1 := of_nat inum]) (arr[inum := insn]) ls x"
    and o1: "o1 = unat off" "off = ps_pos s - start" "o1 < length omap" and i: "inum < length arr"
    and lt: "o1 < unat (ps_pos t - start)" and wf: "insn_wf ml insn"
  shows "loop_result s ml start stop inum omap arr ((off, insn) # ls) x"
proof -
  obtain n omap' arr' where x: "x = (n, omap', arr')" by (cases x)
  from r x have n: "n = Suc (inum + length ls)" "n \<le> length arr" and len: "length omap' = length omap"
    and arr': "arr' = take (Suc inum) (arr[inum := insn]) @ map snd ls @ drop n (arr[inum := insn])"
    and idx: "\<And>j. j < length ls \<Longrightarrow> unat (fst (ls ! j)) < length omap
        \<and> omap' ! unat (fst (ls ! j)) = of_nat (Suc inum + j)"
    and oth: "\<And>p. p < length omap \<Longrightarrow> p \<notin> (\<lambda>l. unat (fst l)) ` set ls \<Longrightarrow>
        omap' ! p = omap[o1 := of_nat inum] ! p"
    and srt: "sorted_wrt (<) (map (\<lambda>l. unat (fst l)) ls)"
    and low: "\<And>l. l \<in> set ls \<Longrightarrow> unat (ps_pos t - start) \<le> unat (fst l) \<and> insn_wf ml (snd l)"
    by (auto simp: loop_result_def)
  have above: "l \<in> set ls \<Longrightarrow> o1 < unat (fst l)" for l using low lt by fastforce
  then have fresh: "o1 \<notin> (\<lambda>l. unat (fst l)) ` set ls" by force
  have "take (Suc inum) (arr[inum := insn]) = take inum arr @ [insn]"
    using i by (simp add: take_Suc_conv_app_nth)
  moreover have "drop n (arr[inum := insn]) = drop n arr" using n by simp
  ultimately have a: "arr' = take inum arr @ map snd ((off, insn) # ls) @ drop n arr" by (simp add: arr')
  have b: "unat (fst (((off, insn) # ls) ! j)) < length omap
      \<and> omap' ! unat (fst (((off, insn) # ls) ! j)) = of_nat (inum + j)"
    if "j < length ((off, insn) # ls)" for j
  proof (cases j)
    case 0
    then show ?thesis using o1 oth [OF o1(3) fresh] by simp
  next
    case (Suc k)
    then show ?thesis using that idx [of k] by simp
  qed
  have c: "omap' ! p = omap ! p"
    if "p < length omap" "p \<notin> (\<lambda>l. unat (fst l)) ` set ((off, insn) # ls)" for p
    using that oth [of p] o1 by auto
  show ?thesis
    unfolding x loop_result_def prod.case
    using n len a b c srt above low wf o1 lt by (auto intro: less_imp_le order_trans)
qed

lemma bytecode_loop_listing:
  assumes "bytecode_loop fuel ml start stop inum omap arr s = (Inr x, u)" and "exact s"
    and "unat start \<le> unat (ps_pos s)" and "inum \<le> length arr"
  shows "\<exists>ls. listing s ml start stop (ps_pos s) ls \<and> loop_result s ml start stop inum omap arr ls x
     \<and> exact u \<and> ps_like s u \<and> ps_pos u = stop"
  using assms
proof (induction fuel arbitrary: inum omap arr s)
  case 0
  then show ?case by simp
next
  case (Suc fuel)
  show ?case
  proof (cases "ps_pos s = stop")
    case True
    with Suc.prems have "x = (inum, omap, arr)" "u = s" by simp_all
    with True Suc.prems(2,4) show ?thesis
      by (auto intro!: exI [of _ "[]"] listing_end ps_like_refl simp: loop_result_def)
  next
    case False
    from Suc.prems(2,1) False obtain op insn t where
      ld: "load (ps_buf s) (ps_base s + unat (ps_pos s)) = Inr op" and nm: "bytecode_name op \<noteq> None"
      and d: "decode_insn ml start (ps_pos s - start) op (s\<lparr>ps_pos := ps_pos s + 1\<rparr>) = (Inr insn, t)"
      and t: "exact t" "ps_like s t" and wf: "insn_wf ml insn" and lt: "unat (ps_pos s) < unat (ps_pos t)"
      and om: "unat (ps_pos s - start) < length omap" and ar: "inum < length arr"
      and rec: "bytecode_loop fuel ml start stop (Suc inum) (omap[unat (ps_pos s - start) := of_nat inum])
           (arr[inum := insn]) t = (Inr x, u)"
      by (rule loop_step)
    from Suc.IH [OF rec t(1)] Suc.prems(3) lt ar obtain ls where
      ls: "listing t ml start stop (ps_pos t) ls"
        "loop_result t ml start stop (Suc inum) (omap[unat (ps_pos s - start) := of_nat inum]) (arr[inum := insn]) ls x"
        "exact u" "ps_like t u" "ps_pos u = stop"
      by auto
    have sub: "unat (q - start) = unat q - unat start" if "unat start \<le> unat q" for q :: u32
      using that by (simp add: unat_sub word_le_nat_alt)
    have "listing s ml start stop (ps_pos s) ((ps_pos s - start, insn) # ls)"
    proof (rule listing.listing_insn [OF False ld nm])
      show "decode_insn ml start (ps_pos s - start) op
          (s\<lparr>ps_pos := ps_pos s + 1, ps_nalloc := ps_nalloc s\<rparr>) = (Inr insn, t)"
        using d by simp
      show "listing s ml start stop (ps_pos t) ls" by (rule listing_like [OF ls(1) t(2)])
    qed
    moreover have "loop_result s ml start stop inum omap arr ((ps_pos s - start, insn) # ls) x"
      by (rule loop_result_Cons [OF ls(2) refl refl om ar _ wf])
        (use Suc.prems(3) lt in \<open>simp add: sub\<close>)
    ultimately show ?thesis using ls(3,4,5) t(2) by (blast intro: ps_like_trans)
  qed
qed

section \<open>What the second pass computes\<close>

text \<open>A bytecode offset is resolved to the index of the instruction of the listing that starts there.\<close>

definition resolves :: "(u32 \<times> cf_insn) list \<Rightarrow> u32 \<Rightarrow> u32 \<Rightarrow> bool" where
  "resolves ls v w \<longleftrightarrow> (\<exists>j < length ls. fst (ls ! j) = v \<and> w = of_nat j)"

definition resolved :: "(u32 \<times> cf_insn) list \<Rightarrow> cf_insn \<Rightarrow> cf_insn \<Rightarrow> bool" where
  "resolved ls a b \<longleftrightarrow> opcode b = opcode a \<and> (case info a of
       Branch_info v \<Rightarrow> (\<exists>w. info b = Branch_info w \<and> resolves ls v w)
     | Lookupswitch_info l \<Rightarrow> (\<exists>l'. info b = Lookupswitch_info l'
         \<and> resolves ls (lsw_default l) (lsw_default l')
         \<and> list_all2 (\<lambda>p q. lk_match q = lk_match p \<and> resolves ls (lk_target p) (lk_target q))
             (lsw_pairs l) (lsw_pairs l'))
     | Tableswitch_info l \<Rightarrow> (\<exists>l'. info b = Tableswitch_info l' \<and> tsw_low l' = tsw_low l \<and> tsw_high l' = tsw_high l
         \<and> resolves ls (tsw_default l) (tsw_default l')
         \<and> list_all2 (resolves ls) (tsw_targets l) (tsw_targets l'))
     | i \<Rightarrow> info b = i)"

text \<open>The offset map of a listing that starts at its first bytecode.\<close>

definition offset_map_of :: "(u32 \<times> cf_insn) list \<Rightarrow> u32 list \<Rightarrow> bool" where
  "offset_map_of ls omap \<longleftrightarrow> (ls \<noteq> [] \<longrightarrow> fst (ls ! 0) = 0) \<and>
     (\<forall>i < length ls. unat (fst (ls ! i)) < length omap \<and> omap ! unat (fst (ls ! i)) = of_nat i) \<and>
     (\<forall>p < length omap. p \<notin> (\<lambda>l. unat (fst l)) ` set ls \<longrightarrow> omap ! p = 0)"

lemma map_offset_state: "map_offset len omap v s = (Inr w, t) \<Longrightarrow> t = s"
  by (auto simp: map_offset_def load_def elim!: bindM_Inr_E split: if_splits)

lemma map_offset_Inr:
  assumes om: "offset_map_of ls omap" and r: "map_offset len omap v s = (Inr w, t)"
  shows "v = 0 \<and> w = 0 \<or> resolves ls v w"
proof (cases "v = 0")
  case True
  with r show ?thesis by (simp add: map_offset_def)
next
  case False
  with r have w: "unat v < length omap" "w = omap ! unat v" "w \<noteq> 0"
    by (auto simp: map_offset_def load_def elim!: bindM_Inr_E split: if_splits)
  with om have "unat v \<in> (\<lambda>l. unat (fst l)) ` set ls" by (auto simp: offset_map_of_def)
  then obtain j where j: "j < length ls" "unat v = unat (fst (ls ! j))"
    by (auto simp: in_set_conv_nth)
  with om w have "w = of_nat j" by (simp add: offset_map_of_def)
  with j show ?thesis by (auto simp: resolves_def word_unat_eq_iff)
qed

lemma map_offset_resolves:
  "offset_map_of ls omap \<Longrightarrow> ls \<noteq> [] \<Longrightarrow> map_offset len omap v s = (Inr w, t) \<Longrightarrow> resolves ls v w"
  using map_offset_Inr [of ls omap len v s w t] by (force simp: resolves_def offset_map_of_def)

lemma mapM_Inr:
  assumes "\<And>x s y t. x \<in> set xs \<Longrightarrow> f x s = (Inr y, t) \<Longrightarrow> t = s \<and> R x y"
    and "mapM f xs s = (Inr ys, t)"
  shows "t = s \<and> list_all2 R xs ys"
  using assms
proof (induction xs arbitrary: ys t)
  case Nil
  then show ?case by simp
next
  case (Cons x xs)
  from Cons.prems(2) obtain y u zs where y: "f x s = (Inr y, u)" "mapM f xs u = (Inr zs, t)" "ys = y # zs"
    by (auto elim!: bindM_Inr_E)
  with Cons.prems(1) have u: "u = s" "R x y" by auto
  with Cons.IH [of zs t] Cons.prems(1) y have "t = s \<and> list_all2 R xs zs" by auto
  with u y show ?case by simp
qed

lemma map_pair_Inr:
  assumes "offset_map_of ls omap" and "ls \<noteq> []" and "map_pair len omap p s = (Inr q, t)"
  shows "t = s \<and> lk_match q = lk_match p \<and> resolves ls (lk_target p) (lk_target q)"
  using assms(3) map_offset_resolves [OF assms(1,2)] map_offset_state
  by (fastforce simp: map_pair_def elim!: bindM_Inr_E)

text \<open>The instructions the second pass looks at have branch targets.\<close>

definition other_ops :: "u8 list" where
  "other_ops = local_ops @ type_ops @ field_ops @ invoke_ops @ [JC_bipush, JC_sipush, JC_iinc,
     JC_invokeinterface, JC_ldc, JC_ldc2_w, JC_multianewarray, JC_newarray]"

lemma target_ops_disjoint:
  "op \<in> set (branch_ops @ [JC_lookupswitch, JC_tableswitch]) \<Longrightarrow> op \<notin> set other_ops"
proof -
  have "list_all (\<lambda>op. op \<notin> set other_ops) (branch_ops @ [JC_lookupswitch, JC_tableswitch])"
    by code_simp
  then show "op \<in> set (branch_ops @ [JC_lookupswitch, JC_tableswitch]) \<Longrightarrow> op \<notin> set other_ops"
    unfolding list_all_iff by blast
qed

lemma switch_not_branch: "JC_lookupswitch \<notin> set branch_ops" "JC_tableswitch \<notin> set branch_ops"
  by (simp_all add: branch_ops_def)

lemma target_cases:
  assumes wf: "insn_wf ml a"
  obtains (branch) v where "info a = Branch_info v" "opcode a \<in> set branch_ops"
    | (lookup) l where "info a = Lookupswitch_info l" "opcode a = JC_lookupswitch"
    | (table) l where "info a = Tableswitch_info l" "opcode a = JC_tableswitch"
    | (other) "\<forall>v. info a \<noteq> Branch_info v" "\<forall>l. info a \<noteq> Lookupswitch_info l" "\<forall>l. info a \<noteq> Tableswitch_info l"
        "opcode a \<notin> set branch_ops" "opcode a \<noteq> JC_lookupswitch" "opcode a \<noteq> JC_tableswitch"
proof (cases "info a")
  case (Branch_info v)
  with wf branch show thesis by (simp add: insn_wf_def)
next
  case (Lookupswitch_info l)
  with wf lookup show thesis by (simp add: insn_wf_def)
next
  case (Tableswitch_info l)
  with wf table show thesis by (simp add: insn_wf_def)
next
  case No_info
  with wf other show thesis by (simp add: insn_wf_def)
qed (rule other; use wf target_ops_disjoint [of "opcode a"] in \<open>force simp: insn_wf_def other_ops_def\<close>)+

lemma map_insn_Inr:
  assumes om: "offset_map_of ls omap" and ne: "ls \<noteq> []" and wf: "insn_wf ml a"
    and r: "map_insn len omap a s = (Inr b, t)"
  shows "t = s \<and> resolved ls a b"
proof -
  note mo = map_offset_resolves [OF om ne] and ms = map_offset_state
  from wf show ?thesis
  proof (cases rule: target_cases)
    case branch
    with r show ?thesis by (auto simp: map_insn_def resolved_def elim!: bindM_Inr_E dest: mo ms)
  next
    case (lookup l)
    then have "opcode a \<notin> set branch_ops" by (simp add: branch_ops_def)
    with lookup r obtain d u ps w where d: "map_offset len omap (lsw_default l) s = (Inr d, u)"
      and ps: "mapM (map_pair len omap) (lsw_pairs l) u = (Inr ps, w)"
      and b: "b = a\<lparr>info := Lookupswitch_info (l\<lparr>lsw_default := d, lsw_pairs := ps\<rparr>)\<rparr>" "t = w"
      by (auto simp: map_insn_def elim!: bindM_Inr_E)
    from ms [OF d] mo [OF d] mapM_Inr [OF map_pair_Inr [OF om ne] ps] b lookup(1) show ?thesis
      by (auto simp: resolved_def)
  next
    case (table l)
    then have "opcode a \<notin> set branch_ops" by (simp add: branch_ops_def)
    with table r obtain d u ts w where d: "map_offset len omap (tsw_default l) s = (Inr d, u)"
      and ts: "mapM (map_offset len omap) (tsw_targets l) u = (Inr ts, w)"
      and b: "b = a\<lparr>info := Tableswitch_info (l\<lparr>tsw_default := d, tsw_targets := ts\<rparr>)\<rparr>" "t = w"
      by (auto simp: map_insn_def elim!: bindM_Inr_E)
    have "w = u \<and> list_all2 (resolves ls) (tsw_targets l) ts"
      by (rule mapM_Inr [OF _ ts]) (intro conjI; (erule ms | erule mo))
    with ms [OF d] mo [OF d] b table(1) show ?thesis by (auto simp: resolved_def)
  next
    case other
    with r show ?thesis by (auto simp: map_insn_def resolved_def split: insn_info.splits)
  qed
qed

section \<open>Parsed code\<close>

lemma listing_first: "listing s ml start stop start ls \<Longrightarrow> ls \<noteq> [] \<Longrightarrow> fst (ls ! 0) = 0"
  by (erule listing.cases) auto

lemma parse_bytecode_Inr:
  assumes s: "exact s"
    and r: "parse_bytecode ml len (replicate k 0) (replicate m zero_insn) s = (Inr (n, omap, arr), t)"
  shows "\<exists>ls. listing s ml (ps_pos s) (ps_pos s + len) (ps_pos s) ls \<and> n = length ls \<and> n \<le> m
     \<and> offset_map_of ls omap \<and> (\<forall>l \<in> set ls. insn_wf ml (snd l))
     \<and> sorted_wrt (<) (map (\<lambda>l. unat (fst l)) ls)
     \<and> list_all2 (resolved ls) (map snd ls) (take n arr)
     \<and> exact t \<and> ps_like s t \<and> ps_pos t = ps_pos s + len"
proof -
  from r obtain omap' arr' u js where
    l: "bytecode_loop (Suc (length (ps_buf s))) ml (ps_pos s) (ps_pos s + len) 0 (replicate k 0)
          (replicate m zero_insn) s = (Inr (n, omap, arr'), u)"
    and p2: "mapM (map_insn len omap) (take n arr') u = (Inr js, t)" and arr: "arr = js @ drop n arr'"
    by (auto simp: parse_bytecode_def elim!: bindM_Inr_E)
  from bytecode_loop_listing [OF l s order.refl] obtain ls where
    ls: "listing s ml (ps_pos s) (ps_pos s + len) (ps_pos s) ls"
    and res: "loop_result s ml (ps_pos s) (ps_pos s + len) 0 (replicate k 0) (replicate m zero_insn) ls (n, omap, arr')"
    and u: "exact u" "ps_like s u" "ps_pos u = ps_pos s + len"
    by auto
  from res have n: "n = length ls" "n \<le> m" and a: "take n arr' = map snd ls"
    and wf: "\<forall>l \<in> set ls. insn_wf ml (snd l)" and srt: "sorted_wrt (<) (map (\<lambda>l. unat (fst l)) ls)"
    by (auto simp: loop_result_def)
  have om: "offset_map_of ls omap"
    using res listing_first [OF ls] by (auto simp: loop_result_def offset_map_of_def)
  have "t = u \<and> list_all2 (resolved ls) (take n arr') js"
  proof (rule mapM_Inr [OF _ p2])
    fix x v y w
    assume x: "x \<in> set (take n arr')" and m: "map_insn len omap x v = (Inr y, w)"
    from x a wf have "insn_wf ml x" "ls \<noteq> []" by auto
    with map_insn_Inr [OF om _ _ m] show "w = v \<and> resolved ls x y" by blast
  qed
  then have "t = u" "list_all2 (resolved ls) (map snd ls) js" by (simp_all add: a)
  moreover from this(2) have "length js = n" by (auto simp: n dest: list_all2_lengthD)
  then have "take n arr = js" by (simp add: arr)
  ultimately show ?thesis using ls n om wf srt u by (intro exI [of _ ls]) simp
qed

text \<open>The initial state of \<open>_jc_parse_code\<close>.\<close>

lemma code_state_exact:
  "cpool_typed all_tags cf \<Longrightarrow> length bytes < 2 ^ 31 \<Longrightarrow> exact (code_state cf bytes memok)"
  by (simp add: exact_def code_state_def ps_inv_def ps_ok_def unat_of_nat take_bit_nat_eq_self)

lemma takes_alloc: "vm_alloc n s = (Inr x, t) \<Longrightarrow> t = s\<lparr>ps_nalloc := Suc (ps_nalloc s)\<rparr>"
  by (simp add: vm_alloc_def split: if_splits)

text \<open>The code length, the four bytes at offset 4 of the attribute.\<close>

definition code_length_of :: "u8 list \<Rightarrow> u32" where
  "code_length_of bytes = be_word (take 4 (drop 4 bytes)) 0"

lemma exact_read:
  assumes "exact s" and "takes k m" and "decodes m Q" and "m s = (Inr x, t)"
  shows "exact t \<and> t = s\<lparr>ps_pos := ps_pos s + k\<rparr>"
proof -
  from assms(1) have s: "pool_inv s" "ps_ok s" by (simp_all add: exact_def ps_inv_def)
  from decodesD_Inr [OF assms(3) s(1) assms(4)] have "pool_inv t" "ps_like s t" by simp_all
  from exact_like [OF assms(1) this] takesD [OF assms(2) s(2) assms(4)] show ?thesis by simp
qed

lemma parse_code_parts:
  assumes r: "parse_code cf bytes memok = Inr code"
    and cf: "cpool_typed all_tags cf" and small: "length bytes < 2 ^ 31"
  defines "len \<equiv> code_length_of bytes"
  obtains s omap arr t ls v where
    "s = (code_state cf bytes memok)\<lparr>ps_pos := 8, ps_nalloc := 2\<rparr>"
    and "listing s (max_locals code) 8 (8 + len) 8 ls" and "unat (num_insns code) = length ls"
    and "length ls < 2 ^ 31" and "offset_map_of ls omap" and "\<forall>l \<in> set ls. insn_wf (max_locals code) (snd l)"
    and "sorted_wrt (<) (map (\<lambda>l. unat (fst l)) ls)"
    and "list_all2 (resolved ls) (map snd ls) (take (length ls) (insns code))"
    and "exact t" and "ps_pos t = 8 + len"
    and "parse_code_tables len omap (num_insns code) t = (Inr (num_traps code, traps code, linemaps code), v)"
proof -
  let ?s0 = "code_state cf bytes memok"
  have s0: "exact ?s0" by (rule code_state_exact [OF cf small])
  from r obtain stack s1 locals s2 len' s3 where
    u1: "parse_uint16 ?s0 = (Inr stack, s1)" and u2: "parse_uint16 s1 = (Inr locals, s2)"
    and u3: "parse_uint32 s2 = (Inr len', s3)"
    and r1: "\<exists>v. (if ps_length s3 < ps_pos s3 + len' then fails (Exn ClassFormatError)
       else thenM (vm_alloc (len' * 4)) (thenM (vm_alloc (len' * 12)) (
       bindM (parse_bytecode locals len' (replicate (unat (len' * 4) div 4) 0)
                (replicate (unat (len' * 12) div 12) zero_insn)) (\<lambda>(n, omap, arr).
       bindM (parse_code_tables len' omap (of_nat n)) (\<lambda>(ntraps, ts, lms).
         ret \<lparr>max_stack = stack, max_locals = locals, num_traps = ntraps,
              num_linemaps = of_nat (length lms), num_insns = of_nat n, insns = arr,
              traps = ts, linemaps = lms\<rparr>))))) s3 = (Inr code, v)"
    unfolding parse_code_def
    by (cases "parse_code_body ?s0") (auto simp: parse_code_body_def elim!: bindM_Inr_E)
  have p0: "ps_pos ?s0 = 0" by (simp add: code_state_def)
  have e1: "exact s1" "s1 = ?s0\<lparr>ps_pos := 2\<rparr>"
    using exact_read [OF s0 takes_ints(1) decodes_readers(2) u1] by (auto simp: p0)
  have e2: "exact s2" "s2 = ?s0\<lparr>ps_pos := 4\<rparr>"
    using exact_read [OF e1(1) takes_ints(1) decodes_readers(2) u2] by (auto simp: e1(2))
  have e3: "exact s3" "s3 = ?s0\<lparr>ps_pos := 8\<rparr>"
    using exact_read [OF e2(1) takes_ints(2) decodes_readers(3) u3] by (auto simp: e2(2))
  have ok2: "ps_ok s2" using e2(1) by (simp add: exact_def ps_inv_def)
  have "4 \<le> length (ps_rest s2)"
    using parse_be_none [OF ok2, of 4 "0 :: u32"] u3 by (force simp: parse_uint32_def not_less)
  with parse_be_some [OF ok2, of 4 "0 :: u32"] u3 have "len' = be_word (take 4 (ps_rest s2)) 0"
    by (simp add: parse_uint32_def)
  moreover have "take 4 (ps_rest s2) = take 4 (drop 4 bytes)"
    using small by (simp add: ps_rest_def e2(2) code_state_def unat_of_nat take_bit_nat_eq_self)
  ultimately have len': "len' = len" by (simp add: len_def code_length_of_def)
  from r1 obtain s4 where a: "s4 = s3\<lparr>ps_nalloc := Suc (Suc 0)\<rparr>"
    and "\<exists>v. (bindM (parse_bytecode locals len (replicate (unat (len * 4) div 4) 0)
                (replicate (unat (len * 12) div 12) zero_insn)) (\<lambda>(n, omap, arr).
       bindM (parse_code_tables len omap (of_nat n)) (\<lambda>(ntraps, ts, lms).
         ret \<lparr>max_stack = stack, max_locals = locals, num_traps = ntraps,
              num_linemaps = of_nat (length lms), num_insns = of_nat n, insns = arr,
              traps = ts, linemaps = lms\<rparr>))) s4 = (Inr code, v)"
    by (auto simp: len' e3(2) code_state_def fails_apply elim!: thenM_Inr_E dest!: takes_alloc split: if_splits)
  then obtain n omap arr t where
    pb: "parse_bytecode locals len (replicate (unat (len * 4) div 4) 0)
                (replicate (unat (len * 12) div 12) zero_insn) s4 = (Inr (n, omap, arr), t)"
    and pt: "\<exists>v. bindM (parse_code_tables len omap (of_nat n)) (\<lambda>(ntraps, ts, lms).
         ret \<lparr>max_stack = stack, max_locals = locals, num_traps = ntraps,
              num_linemaps = of_nat (length lms), num_insns = of_nat n, insns = arr,
              traps = ts, linemaps = lms\<rparr>) t = (Inr code, v)"
    by (auto elim!: bindM_Inr_E)
  from pt obtain ntraps ts lms v where
    tb: "parse_code_tables len omap (of_nat n) t = (Inr (ntraps, ts, lms), v)"
    and code: "code = \<lparr>max_stack = stack, max_locals = locals, num_traps = ntraps,
              num_linemaps = of_nat (length lms), num_insns = of_nat n, insns = arr,
              traps = ts, linemaps = lms\<rparr>"
    by (auto elim!: bindM_Inr_E)
  have e4: "exact s4" using e3(1) by (simp add: a exact_def ps_inv_def ps_ok_def)
  have p4: "ps_pos s4 = 8" by (simp add: a e3(2))
  from parse_bytecode_Inr [OF e4 pb] obtain ls where
    ls: "listing s4 locals 8 (8 + len) 8 ls" "n = length ls" "n \<le> unat (len * 12) div 12"
      "offset_map_of ls omap" "\<forall>l \<in> set ls. insn_wf locals (snd l)"
      "sorted_wrt (<) (map (\<lambda>l. unat (fst l)) ls)" "list_all2 (resolved ls) (map snd ls) (take n arr)"
      "exact t" "ps_pos t = 8 + len"
    unfolding p4 by blast
  have "unat (len * 12) < 2 ^ 32" using unsigned_less [of "len * 12"] by simp
  with ls(3) have small_n: "n < 2 ^ 31" by simp
  then have "unat (of_nat n :: u32) = n" by (simp add: unat_of_nat take_bit_nat_eq_self)
  then show thesis
    using that [of s4 ls omap t v] ls tb small_n by (simp add: code a e3(2) numeral_2_eq_2)
qed

text \<open>
  C2: The code \<open>_jc_parse_code\<close> returns is the disassembly of its bytes: there is a list of
  instructions with their bytecode offsets, each decoded where the one before ends, filling the
  code exactly; the instruction array holds them in order, with every branch and switch target
  replaced by the index of the instruction that starts at the target offset, and the rest of each
  instruction unchanged and well-formed.
\<close>

theorem parse_code_disassembles:
  assumes "parse_code cf bytes memok = Inr code"
    and "cpool_typed all_tags cf" and "length bytes < 2 ^ 31"
  shows "\<exists>ls. listing ((code_state cf bytes memok)\<lparr>ps_pos := 8, ps_nalloc := 2\<rparr>) (max_locals code)
        8 (8 + code_length_of bytes) 8 ls
     \<and> unat (num_insns code) = length ls
     \<and> sorted_wrt (<) (map (\<lambda>l. unat (fst l)) ls)
     \<and> (\<forall>l \<in> set ls. insn_wf (max_locals code) (snd l))
     \<and> list_all2 (resolved ls) (map snd ls) (take (length ls) (insns code))"
  by (rule parse_code_parts [OF assms]) blast

text \<open>An entry of the trap table and of the line number table, in terms of the listing.\<close>

definition trap_wf :: "u32 \<Rightarrow> cf_trap \<Rightarrow> bool" where
  "trap_wf n tr \<longleftrightarrow> unat (trap_start tr) < unat (trap_end tr) \<and> trap_end tr \<le> n \<and> trap_target tr < n"

lemma small_index:
  assumes n: "unat n = length ls" "length ls < 2 ^ 31" and w: "w = 0 \<and> 0 < n \<or> resolves ls v w"
  shows "w < n" and "jint_val w = int (unat w)"
proof -
  have lt: "unat w < length ls"
    using w n by (auto simp: resolves_def unat_of_nat take_bit_nat_eq_self word_less_nat_alt)
  then show "w < n" using n by (simp add: word_less_nat_alt)
  show "jint_val w = int (unat w)"
    using lt n(2) by (simp add: sint_small)
qed

lemma map_offset_index:
  assumes om: "offset_map_of ls omap" and n: "unat n = length ls" "length ls < 2 ^ 31"
    and r: "map_offset len omap v s = (Inr w, t)"
  shows "w = 0 \<or> w < n" and "jint_val w = int (unat w)"
  using map_offset_Inr [OF om r] small_index [OF n, of w v] by auto

lemma parse_trap_wf:
  assumes om: "offset_map_of ls omap" and n: "unat n = length ls" "length ls < 2 ^ 31"
    and r: "parse_trap len omap n s = (Inr tr, t)"
  shows "trap_wf n tr"
proof -
  from r obtain v1 v2 v3 i j k and s1 s2 s3 s4 s5 s6 :: parse_state where
    fin: "(if jint_val j \<le> jint_val i then fails (Exn ClassFormatError)
       else bindM (parse_class True) (\<lambda>ty.
         ret \<lparr>trap_start = i, trap_end = j, trap_target = k, trap_type = ty\<rparr>)) s6 = (Inr tr, t)"
    and m1: "map_offset len omap (ucast (v1 :: u16)) s1 = (Inr i, s2)"
    and m2: "(if ucast (v2 :: u16) = len then ret n else map_offset len omap (ucast v2)) s3 = (Inr j, s4)"
    and m3: "map_offset len omap (ucast (v3 :: u16)) s5 = (Inr k, s6)"
    unfolding parse_trap_def by (elim bindM_Inr_E) (rule that; assumption)
  from fin have ijk: "trap_start tr = i" "trap_end tr = j" "trap_target tr = k"
    and ord: "\<not> jint_val (trap_end tr) \<le> jint_val (trap_start tr)"
    by (auto elim!: bindM_Inr_E split: if_splits)
  note st = m1 [folded ijk] and tg = m3 [folded ijk]
  from m2 have en: "trap_end tr = n \<or> (\<exists>v (s1 :: parse_state) t1. map_offset len omap v s1 = (Inr (trap_end tr), t1))"
    unfolding ijk by (auto split: if_splits)
  note idx = map_offset_index [OF om n]
  have "jint_val n = int (unat n)" using n by (simp add: sint_small)
  with en have e: "jint_val (trap_end tr) = int (unat (trap_end tr))"
    by (auto dest: idx(2))
  have le: "trap_end tr \<le> n" using en by (auto dest: idx(1))
  from ord have lt: "unat (trap_start tr) < unat (trap_end tr)"
    unfolding e idx(2) [OF st] by (simp only: of_nat_le_iff not_le)
  then have "0 < n" using le by (auto simp: word_less_nat_alt word_le_nat_alt)
  with idx(1) [OF tg] have "trap_target tr < n" by auto
  with lt le show ?thesis by (simp add: trap_wf_def)
qed

lemma parse_linemaps_index:
  assumes om: "offset_map_of ls omap" and n: "unat n = length ls" "length ls < 2 ^ 31"
    and r: "parse_linemaps len omap a s = (Inr lms, t)"
  shows "\<forall>lm \<in> set lms. lm_index lm = 0 \<or> lm_index lm < n"
proof -
  from r obtain us and s1 t1 :: parse_state where m: "mapM (map_linenum len omap) us s1 = (Inr lms, t1)"
    unfolding parse_linemaps_def
    by (elim bindM_Inr_E thenM_Inr_E) (simp only: ret_eq sum.inject)
  have "t1 = s1 \<and> list_all2 (\<lambda>_ lm. lm_index lm = 0 \<or> lm_index lm < n) us lms"
  proof (rule mapM_Inr [OF _ m])
    fix x v y w
    assume "map_linenum len omap x v = (Inr y, w)"
    then show "w = v \<and> (lm_index y = 0 \<or> lm_index y < n)"
      unfolding map_linenum_def
      by (auto elim!: bindM_Inr_E dest: map_offset_state map_offset_index(1) [OF om n])
  qed
  then show ?thesis by (auto simp: list_all2_conv_all_nth in_set_conv_nth)
qed

lemma parse_code_attrs_index:
  assumes om: "offset_map_of ls omap" and n: "unat n = length ls" "length ls < 2 ^ 31"
    and r: "parse_code_attrs k len omap s = (Inr lms, t)"
  shows "\<forall>lm \<in> set lms. lm_index lm = 0 \<or> lm_index lm < n"
  using r
proof (induction k arbitrary: s)
  case 0
  then show ?case by simp
next
  case (Suc k)
  from Suc.prems obtain a name u where
    "(if name = c_str ''LineNumberTable'' then parse_linemaps len omap a
     else bindM (liftM (free_attribute a)) (\<lambda>_. parse_code_attrs k len omap)) u = (Inr lms, t)"
    by (auto elim!: bindM_Inr_E thenM_Inr_E)
  then show ?case
    using parse_linemaps_index [OF om n] Suc.IH by (fastforce elim!: bindM_Inr_E split: if_splits)
qed


section \<open>The loop ends\<close>

text \<open>A computation whose only failures are exceptions and accesses outside an array.\<close>

definition bounded :: "('s, 'a) mon \<Rightarrow> bool" where
  "bounded m \<longleftrightarrow> (\<forall>s e t. m s = (Inl e, t) \<longrightarrow> bounds_failure e)"

lemma boundedD: "bounded m \<Longrightarrow> m s = (Inl e, t) \<Longrightarrow> bounds_failure e"
  unfolding bounded_def by blast

lemma bounded_bind: "bounded m \<Longrightarrow> (\<And>x. bounded (f x)) \<Longrightarrow> bounded (bindM m f)"
  unfolding bounded_def bindM_def by (fastforce split: prod.splits sum.splits)

lemma bounded_ret: "bounded (ret x)"
  by (simp add: bounded_def)

lemma bounded_fails: "bounds_failure e \<Longrightarrow> bounded (fails e)"
  by (simp add: bounded_def)

lemma bounded_if: "bounded m \<Longrightarrow> bounded n \<Longrightarrow> bounded (if b then m else n)"
  by simp

lemma bounded_load: "bounded (liftM (load xs i))"
  by (auto simp: bounded_def load_def split: if_splits)

lemma bounded_mapM: "(\<And>x. x \<in> set xs \<Longrightarrow> bounded (f x)) \<Longrightarrow> bounded (mapM f xs)"
  by (induction xs) (auto intro: bounded_bind bounded_ret)

lemma bounded_map_offset: "bounded (map_offset len omap v)"
  unfolding map_offset_def
  by (intro bounded_if bounded_ret bounded_fails bounded_bind bounded_load) simp_all

lemma bounded_map_pair: "bounded (map_pair len omap p)"
  unfolding map_pair_def by (intro bounded_bind bounded_map_offset bounded_ret)

lemma bounded_map_insn:
  assumes wf: "insn_wf ml a"
  shows "bounded (map_insn len omap a)"
  using wf
proof (cases rule: target_cases)
  case (branch v)
  then show ?thesis
    by (simp add: map_insn_def) (intro bounded_bind bounded_map_offset bounded_ret)
next
  case (lookup l)
  then show ?thesis
    by (simp add: map_insn_def switch_not_branch)
      (intro bounded_bind bounded_map_offset bounded_mapM bounded_map_pair bounded_ret)
next
  case (table l)
  then show ?thesis
    by (simp add: map_insn_def switch_not_branch)
      (intro bounded_bind bounded_map_offset bounded_mapM bounded_ret)
next
  case other
  then show ?thesis by (simp add: map_insn_def bounded_ret)
qed

lemma bounded_store: "bounded (liftM (store xs i x))"
  by (auto simp: bounded_def store_def split: if_splits)

lemma bounded_byte: "bounded byte_at_pos"
  by (auto simp: bounded_def byte_at_pos_def load_def split: if_splits)

text \<open>One turn of the loop that does not end in a value, and does not go on, fails that way too.\<close>

lemma bytecode_loop_bounded:
  assumes "exact s" and "unat (ps_length s) - unat (ps_pos s) < fuel"
    and "bytecode_loop fuel ml start stop inum omap arr s = (Inl e, u)"
  shows "bounds_failure e"
  using assms
proof (induction fuel arbitrary: inum omap arr s)
  case 0
  then show ?case by simp
next
  case (Suc fuel)
  let ?o = "unat (ps_pos s - start)"
  have go: "ps_pos s \<noteq> stop" using Suc.prems(3) by auto
  obtain r1 s1 where b: "byte_at_pos s = (r1, s1)" by fastforce
  define K where "K = (\<lambda>omap' op. thenM (advance 1) (
       bindM (liftM (store arr inum (mk_insn op No_info))) (\<lambda>arr'.
       if bytecode_name op = None then fails (Exn ClassFormatError)
       else bindM (decode_insn ml start (ps_pos s - start) op) (\<lambda>insn.
         bytecode_loop fuel ml start stop (Suc inum) omap' (arr'[inum := insn])))))"
  have unf: "bindM (liftM (store omap ?o (of_nat inum))) (\<lambda>omap'. bindM byte_at_pos (K omap')) s = (Inl e, u)"
    using Suc.prems(3) go by (simp add: Let_def K_def)
  show ?case
  proof (cases "?o < length omap \<and> (\<exists>op. r1 = Inr op) \<and> inum < length arr")
    case False
    show ?thesis
    proof (cases "?o < length omap")
      case ol: True
      then have unf1: "bindM byte_at_pos (K (omap[?o := of_nat inum])) s = (Inl e, u)"
        using unf by (simp add: store_def)
      show ?thesis
      proof (cases r1)
        case (Inl e1)
        with b unf1 have "e = e1" by simp
        with boundedD [OF bounded_byte b [unfolded Inl]] show ?thesis by simp
      next
        case (Inr op)
        with False ol have "\<not> inum < length arr" by simp
        with b Inr unf1 show ?thesis
          by (auto simp: K_def thenM_def bindM_def advance_def store_def liftM_def)
      qed
    next
      case False
      with unf have "fails (Fault Out_of_bounds) s = (Inl e, u)" by (simp add: store_def)
      then show ?thesis by (auto simp: fails_apply)
    qed
  next
    case True
    then obtain op where op: "r1 = Inr op" "?o < length omap" "inum < length arr" by blast
    note rd = opcode_read [OF Suc.prems(1) b [unfolded op(1)]]
    let ?s = "s\<lparr>ps_pos := ps_pos s + 1\<rparr>"
    have run: "(if bytecode_name op = None then fails (Exn ClassFormatError)
       else bindM (decode_insn ml start (ps_pos s - start) op) (\<lambda>insn.
         bytecode_loop fuel ml start stop (Suc inum) (omap[?o := of_nat inum])
           (arr[inum := mk_insn op No_info, inum := insn]))) ?s = (Inl e, u)"
      using unf op b rd(1) by (simp add: K_def store_def thenM_def bindM_def advance_def)
    have inv_s: "pool_inv ?s" using rd(3) by (simp add: exact_def)
    obtain r2 t where d: "decode_insn ml start (ps_pos s - start) op ?s = (r2, t)" by fastforce
    show ?thesis
    proof (cases "bytecode_name op = None")
      case True
      with run show ?thesis by (auto simp: fails_apply)
    next
      case nm: False
      show ?thesis
      proof (cases r2)
        case (Inl e2)
        with d run nm decodesD_Inl [OF decodes_insn inv_s] show ?thesis by simp
      next
        case (Inr insn)
        from decodesD_Inr [OF decodes_insn inv_s d [unfolded Inr]]
        have t: "pool_inv t" "ps_like ?s t" by auto
        have "unat (ps_pos s) < unat (ps_pos t)" "unat (ps_length t) = unat (ps_length s)"
          using t(2) rd(5) ps_like_frame [OF t(2)] by (auto simp: ps_like_def word_le_nat_alt frame_def)
        moreover have "unat (ps_pos t) \<le> unat (ps_length t)"
          using t(1) by (auto simp: ps_inv_def intro: ps_ok_pos)
        ultimately have "unat (ps_length t) - unat (ps_pos t) < fuel" using Suc.prems(2) by linarith
        with Suc.IH [OF exact_like [OF rd(3) t]] run nm d Inr show ?thesis by simp
      qed
    qed
  qed
qed

text \<open>
  C7: The decoding loop of \<open>_jc_parse_bytecode\<close> ends on every input: run on code that fills its
  buffer exactly it returns its instructions, stores an exception, or has made an access outside one
  of its arrays; the fuel of the model never runs out and no union is read through the wrong member.
\<close>

theorem parse_bytecode_ends:
  assumes s: "exact s"
  shows "case parse_bytecode ml len (replicate k 0) (replicate m zero_insn) s of
      (Inr _, t) \<Rightarrow> exact t \<and> ps_pos t = ps_pos s + len
    | (Inl (Exn e), t) \<Rightarrow> True
    | (Inl (Fault f), t) \<Rightarrow> f = Out_of_bounds"
proof -
  have fuel: "unat (ps_length s) - unat (ps_pos s) < Suc (length (ps_buf s))"
    using s unfolding exact_def by linarith
  obtain r t where rt: "parse_bytecode ml len (replicate k 0) (replicate m zero_insn) s = (r, t)" by fastforce
  have fail: "bounds_failure e" if "r = Inl e" for e
  proof -
    obtain q u where l: "bytecode_loop (Suc (length (ps_buf s))) ml (ps_pos s) (ps_pos s + len) 0
        (replicate k 0) (replicate m zero_insn) s = (q, u)" by fastforce
    show ?thesis
    proof (cases q)
      case (Inl e')
      with l rt that have "e = e'" by (simp add: parse_bytecode_def del: bytecode_loop.simps)
      with bytecode_loop_bounded [OF s fuel l [unfolded Inl]] show ?thesis by simp
    next
      case (Inr x)
      obtain n omap arr where x: "x = (n, omap, arr)" by (cases x)
      from bytecode_loop_listing [OF l [unfolded Inr] s order.refl] obtain ls where
        res: "loop_result s ml (ps_pos s) (ps_pos s + len) 0 (replicate k 0) (replicate m zero_insn) ls x"
        by auto
      then have "take n arr = map snd ls" "\<forall>l \<in> set ls. insn_wf ml (snd l)"
        by (auto simp: loop_result_def x)
      then have "bounded (mapM (map_insn len omap) (take n arr))"
        by (auto intro!: bounded_mapM bounded_map_insn)
      then have "bounded (bindM (mapM (map_insn len omap) (take n arr)) (\<lambda>js. ret (n, omap, js @ drop n arr)))"
        by (intro bounded_bind bounded_ret)
      moreover have "(bindM (mapM (map_insn len omap) (take n arr)) (\<lambda>js. ret (n, omap, js @ drop n arr))) u = (Inl e, t)"
        using rt l Inr that by (simp add: parse_bytecode_def x del: bytecode_loop.simps)
      ultimately show ?thesis by (rule boundedD)
    qed
  qed
  show ?thesis
  proof (cases r)
    case (Inl e)
    with fail rt show ?thesis by (cases e) auto
  next
    case (Inr x)
    obtain n omap arr where "x = (n, omap, arr)" by (cases x)
    with parse_bytecode_Inr [OF s] rt Inr show ?thesis by fastforce
  qed
qed

section \<open>Where the arrays are left\<close>


text \<open>
  The smallest such code: \<open>bipush\<close> is its only byte, the operand is the first byte of the trap count,
  and the second one is taken for an opcode at offset 2 of a map with one entry.
\<close>

definition straddling_code :: "u8 list" where
  "straddling_code = [0, 1, 0, 0, 0, 0, 0, 1, JC_bipush, 0, 0, 0, 0]"

lemma straddling_code_faults:
  "parse_code zero_classfile straddling_code (\<lambda>_ _. True) = Inl (Fault Out_of_bounds)"
  by code_simp


text \<open>
  The index of a local in the one-byte forms is not compared with \<open>max_locals\<close>, that of the
  explicit forms is: in a method without locals \<open>aload_3\<close> is accepted and \<open>aload\<close> never is.
\<close>

theorem short_local_unchecked:
  "decode_insn 0 start off JC_aload_3 s = (Inr (mk_insn JC_aload (Local_info 3)), s) \<and>
   fst (decode_insn 0 start off JC_aload s) \<noteq> Inr insn"
proof
  show "decode_insn 0 start off JC_aload_3 s = (Inr (mk_insn JC_aload (Local_info 3)), s)"
    by (simp add: decode_insn_def local_ops_def short_form_def)
  have "decode_insn 0 start off JC_aload s = bindM (parse_local8 0) (\<lambda>i. ret (mk_insn JC_aload (Local_info i))) s"
    by (simp add: decode_insn_def local_ops_def)
  then show "fst (decode_insn 0 start off JC_aload s) \<noteq> Inr insn"
    by (auto simp: parse_local8_def bindM_def fails_apply split: prod.splits sum.splits)
qed

lemma parse_pairs_no_room:
  "0 < n \<Longrightarrow> parse_integer s = (Inr m, t) \<Longrightarrow> fst (parse_pairs off 0 n [] s) = Inl (Fault Out_of_bounds)"
  by (cases n) (simp_all add: thenM_def fails_apply)

lemma lookupswitch_no_room:
  assumes "switch_pad start s = (Inr (), s1)" and "parse_integer s1 = (Inr d, s2)"
    and "parse_integer s2 = (Inr n, s3)" and "\<not> jint_val n < 0" and "0 < unat n" and "n * 8 = 0"
    and "vm_alloc 8 s3 = (Inr (), s4)" and "parse_integer s4 = (Inr m, s5)"
  shows "fst (decode_lookupswitch start off s) = Inl (Fault Out_of_bounds)"
proof -
  obtain u where "parse_pairs off 0 (unat n) [] s4 = (Inl (Fault Out_of_bounds), u)"
    using parse_pairs_no_room [OF assms(5,8)] by (metis prod.collapse)
  with assms show ?thesis by (simp add: decode_lookupswitch_def Let_def thenM_def)
qed

text \<open>
  A \<open>lookupswitch\<close> that claims \<open>2 ^ 29\<close> pairs is given memory for none of them, because the size
  passed to the allocator wraps to 8 bytes, and its first pair is stored outside that memory.
\<close>

theorem lookupswitch_overflow:
  "fst (decode_lookupswitch 0 0 (fresh_state [0, 0, 0, 0, 0x20, 0, 0, 0, 0, 0, 0, 1] 12))
     = Inl (Fault Out_of_bounds)"
proof -
  let ?s = "\<lambda>p k. (fresh_state [0, 0, 0, 0, 0x20, 0, 0, 0, 0, 0, 0, 1] 12)\<lparr>ps_pos := p, ps_nalloc := k\<rparr>"
  have s0: "fresh_state [0, 0, 0, 0, 0x20, 0, 0, 0, 0, 0, 0, 1] 12 = ?s 0 0"
    by (simp add: fresh_state_def)
  have ok: "ps_ok (?s p k)" if "p \<le> 12" for p k using that by (simp add: ps_ok_def fresh_state_def)
  have rest: "ps_rest (?s 0 0) = [0, 0, 0, 0, 0x20, 0, 0, 0, 0, 0, 0, 1]"
    "ps_rest (?s 4 0) = [0x20, 0, 0, 0, 0, 0, 0, 1]" "ps_rest (?s 8 (Suc 0)) = [0, 0, 0, 1]"
    by (simp_all add: ps_rest_def fresh_state_def)
  have pad: "switch_pad 0 (?s 0 0) = (Inr (), ?s 0 0)"
    by (simp add: switch_pad_def fresh_state_def ret_apply)
  have i1: "parse_integer (?s 0 0) = (Inr 0, ?s 4 0)"
    using parse_be_some [OF ok, of 0 4 0 "0 :: u32"] by (simp add: rest parse_integer_def parse_uint32_def)
  have i2: "parse_integer (?s 4 0) = (Inr 0x20000000, ?s 8 0)"
    using parse_be_some [OF ok, of 4 4 0 "0 :: u32"] by (simp add: rest parse_integer_def parse_uint32_def)
  have i3: "\<exists>m t. parse_integer (?s 8 (Suc 0)) = (Inr m, t)"
    using parse_be_some [OF ok, of 8 4 "Suc 0" "0 :: u32"] by (simp add: rest parse_integer_def parse_uint32_def)
  have al: "vm_alloc 8 (?s 8 0) = (Inr (), ?s 8 (Suc 0))"
    by (simp add: vm_alloc_def fresh_state_def)
  obtain m t where "parse_integer (?s 8 (Suc 0)) = (Inr m, t)" using i3 by blast
  from lookupswitch_no_room [OF pad i1 i2 _ _ _ al this]
  have "fst (decode_lookupswitch 0 0 (?s 0 0)) = Inl (Fault Out_of_bounds)" by simp
  then show ?thesis by (simp only: s0 [symmetric])
qed

section \<open>Examples\<close>

text \<open>A method that jumps over a \<open>nop\<close>, with one trap.\<close>

definition sample_code :: "u8 list" where
  "sample_code = [0, 1, 0, 1, 0, 0, 0, 5, JC_goto, 0, 4, JC_nop, JC_return,
     0, 1, 0, 0, 0, 4, 0, 4, 0, 0, 0, 0]"

definition sample_parsed :: cf_code where
  "sample_parsed = \<lparr>max_stack = 1, max_locals = 1, num_traps = 1, num_linemaps = 0, num_insns = 3,
      insns = [mk_insn JC_goto (Branch_info 2), mk_insn JC_nop No_info, mk_insn JC_return No_info,
               zero_insn, zero_insn],
      traps = [\<lparr>trap_start = 0, trap_end = 2, trap_target = 2, trap_type = None\<rparr>], linemaps = []\<rparr>"

lemma sample_code_parses: "parse_code zero_classfile sample_code (\<lambda>_ _. True) = Inr sample_parsed"
  by code_simp

lemma zero_pool_typed: "cpool_typed all_tags zero_classfile"
  by (simp add: cpool_typed_def zero_classfile_def)

lemma sample_code_length: "length sample_code < 2 ^ 31" "code_length_of sample_code = 5"
  by (simp_all add: sample_code_def code_length_of_def)

theorem parse_code_disassembles_witness:
  "parse_code zero_classfile sample_code (\<lambda>_ _. True) = Inr sample_parsed \<and>
   (\<exists>ls. listing ((code_state zero_classfile sample_code (\<lambda>_ _. True))\<lparr>ps_pos := 8, ps_nalloc := 2\<rparr>)
       (max_locals sample_parsed) 8 (8 + 5) 8 ls \<and>
     unat (num_insns sample_parsed) = length ls \<and> sorted_wrt (<) (map (\<lambda>l. unat (fst l)) ls) \<and>
     (\<forall>l \<in> set ls. insn_wf (max_locals sample_parsed) (snd l)) \<and>
     list_all2 (resolved ls) (map snd ls) (take (length ls) (insns sample_parsed)))"
  using parse_code_disassembles [OF sample_code_parses zero_pool_typed sample_code_length(1)]
  unfolding sample_code_length(2) by (intro conjI sample_code_parses)


theorem parse_bytecode_ends_witness:
  "exact ((code_state zero_classfile sample_code (\<lambda>_ _. True))\<lparr>ps_pos := 8\<rparr>) \<and>
   (case parse_bytecode 1 5 (replicate 5 0) (replicate 5 zero_insn)
       ((code_state zero_classfile sample_code (\<lambda>_ _. True))\<lparr>ps_pos := 8\<rparr>) of
      (Inr _, t) \<Rightarrow> exact t
        \<and> ps_pos t = ps_pos ((code_state zero_classfile sample_code (\<lambda>_ _. True))\<lparr>ps_pos := 8\<rparr>) + 5
    | (Inl (Exn e), t) \<Rightarrow> True
    | (Inl (Fault f), t) \<Rightarrow> f = Out_of_bounds)"
proof
  show s: "exact ((code_state zero_classfile sample_code (\<lambda>_ _. True))\<lparr>ps_pos := 8\<rparr>)"
    by (simp add: exact_def ps_inv_def ps_ok_def cpool_typed_def code_state_def sample_code_def
        zero_classfile_def)
  show "case parse_bytecode 1 5 (replicate 5 0) (replicate 5 zero_insn)
       ((code_state zero_classfile sample_code (\<lambda>_ _. True))\<lparr>ps_pos := 8\<rparr>) of
      (Inr _, t) \<Rightarrow> exact t
        \<and> ps_pos t = ps_pos ((code_state zero_classfile sample_code (\<lambda>_ _. True))\<lparr>ps_pos := 8\<rparr>) + 5
    | (Inl (Exn e), t) \<Rightarrow> True
    | (Inl (Fault f), t) \<Rightarrow> f = Out_of_bounds"
    by (rule parse_bytecode_ends [OF s])
qed

end
