(* ===== verification/Jc_Order.thy ===== *)
theory Jc_Order
  imports Jc_Prelude "HOL-Library.Multiset"
begin

text \<open>
  The C library functions \<open>strcmp\<close> and \<open>qsort\<close>, and what sorted tables ask of a comparison function:
  the interface \<open>comparison\<close>, with rules that build comparisons from keys and from other comparisons.
\<close>

section \<open>Strings\<close>

text \<open>\<open>strcmp\<close>: the sign of the comparison, of unsigned bytes.\<close>

fun strcmp :: "cstr \<Rightarrow> cstr \<Rightarrow> int" where
  "strcmp [] [] = 0"
| "strcmp [] (y # ys) = -1"
| "strcmp (x # xs) [] = 1"
| "strcmp (x # xs) (y # ys) = (if x < y then -1 else if y < x then 1 else strcmp xs ys)"

section \<open>Sorting by a comparison\<close>

text \<open>
  \<open>qsort\<close> leaves the array sorted by the comparison it is given; elements that compare equal are kept
  in their order here, which the C library does not promise and nothing below relies on.
\<close>

fun insert_by :: "('a \<Rightarrow> 'a \<Rightarrow> int) \<Rightarrow> 'a \<Rightarrow> 'a list \<Rightarrow> 'a list" where
  "insert_by cmp x [] = [x]"
| "insert_by cmp x (y # ys) = (if cmp x y \<le> 0 then x # y # ys else y # insert_by cmp x ys)"

definition qsort :: "('a \<Rightarrow> 'a \<Rightarrow> int) \<Rightarrow> 'a list \<Rightarrow> 'a list" where
  "qsort cmp xs = foldr (insert_by cmp) xs []"

text \<open>
  What sorting by a comparison needs, as an interface: the signs of comparisons are antisymmetric
  and transitive. The orders of the class file and of the splay trees provide it.
\<close>

locale comparison =
  fixes cmp :: "'a \<Rightarrow> 'a \<Rightarrow> int"
  assumes swap: "cmp y x < 0 \<longleftrightarrow> 0 < cmp x y"
    and cmp_trans: "cmp x y \<le> 0 \<Longrightarrow> cmp y z \<le> 0 \<Longrightarrow> cmp x z \<le> 0"
begin

lemma nonneg: "0 \<le> cmp x y \<longleftrightarrow> cmp y x \<le> 0"
  using swap [of x y] by (simp flip: not_less)

lemma swap_zero: "cmp y x = 0 \<longleftrightarrow> cmp x y = 0"
  using nonneg [of x y] nonneg [of y x] by linarith

lemma refl_zero [simp]: "cmp x x = 0"
  using swap [of x x] by linarith

lemma less_trans: "cmp x y < 0 \<Longrightarrow> cmp y z \<le> 0 \<Longrightarrow> cmp x z < 0"
  using nonneg [of x z] nonneg [of x y] cmp_trans [of y z x] by linarith

lemma less_trans2: "cmp x y \<le> 0 \<Longrightarrow> cmp y z < 0 \<Longrightarrow> cmp x z < 0"
  using nonneg [of x z] nonneg [of y z] cmp_trans [of z x y] by linarith

lemma mset_insert_by: "mset (insert_by cmp x ys) = add_mset x (mset ys)"
  by (induction ys) auto

lemma mset_qsort: "mset (qsort cmp xs) = mset xs"
  by (induction xs) (simp_all add: qsort_def mset_insert_by)

lemma set_insert_by: "set (insert_by cmp x ys) = insert x (set ys)"
  by (simp add: mset_insert_by flip: set_mset_mset)

lemma set_qsort: "set (qsort cmp xs) = set xs"
  by (simp add: mset_qsort flip: set_mset_mset)

lemma sorted_insert_by:
  "sorted_wrt (\<lambda>x y. cmp x y \<le> 0) ys \<Longrightarrow> sorted_wrt (\<lambda>x y. cmp x y \<le> 0) (insert_by cmp x ys)"
proof (induction ys)
  case (Cons y ys)
  show ?case
  proof (cases "cmp x y \<le> 0")
    case True
    with Cons.prems show ?thesis by (auto intro: cmp_trans)
  next
    case False
    with swap [of x y] have "cmp y x \<le> 0" by simp
    with False Cons show ?thesis by (auto simp: set_insert_by)
  qed
qed simp

lemma sorted_qsort: "sorted_wrt (\<lambda>x y. cmp x y \<le> 0) (qsort cmp xs)"
  by (induction xs) (simp_all add: qsort_def sorted_insert_by)

lemma list_all_qsort: "list_all P (qsort cmp xs) \<longleftrightarrow> list_all P xs"
  by (simp add: list_all_iff set_qsort)

lemma length_qsort: "length (qsort cmp xs) = length xs"
  by (simp add: mset_qsort flip: size_mset)

end

lemma strcmp_swap: "strcmp y x = - strcmp x y"
  by (induction x y rule: strcmp.induct) auto

lemma strcmp_trans: "strcmp x y \<le> 0 \<Longrightarrow> strcmp y z \<le> 0 \<Longrightarrow> strcmp x z \<le> 0"
proof (induction x z arbitrary: y rule: strcmp.induct)
  case (3 a x)
  then show ?case by (cases y) (auto split: if_splits)
next
  case (4 a x b z)
  then show ?case by (cases y) (auto split: if_splits)
qed auto

lemma strcmp_zero: "strcmp x y = 0 \<longleftrightarrow> x = y"
  by (induction x y rule: strcmp.induct) auto

text \<open>Two comparisons made one after the other, the second for ties of the first.\<close>

lemma comparison_lex:
  assumes "comparison c" and "comparison d"
  shows "comparison (\<lambda>x y. if c x y \<noteq> 0 then c x y else d x y)"
proof
  fix x y z
  note swap = comparison.swap [OF assms(1)] and trans = comparison.cmp_trans [OF assms(1)]
  show "(if c y x \<noteq> 0 then c y x else d y x) < 0 \<longleftrightarrow> 0 < (if c x y \<noteq> 0 then c x y else d x y)"
    using swap [of y x] comparison.swap [OF assms(2), of y x] comparison.swap_zero [OF assms(1), of x y] by simp
  assume xy: "(if c x y \<noteq> 0 then c x y else d x y) \<le> 0" and yz: "(if c y z \<noteq> 0 then c y z else d y z) \<le> 0"
  then have le: "c x y \<le> 0" "c y z \<le> 0" by (auto split: if_splits)
  show "(if c x z \<noteq> 0 then c x z else d x z) \<le> 0"
  proof (cases "c x z = 0")
    case True
    then have "c z x = 0" by (simp add: comparison.swap_zero [OF assms(1)])
    with le have "c y x \<le> 0" "c z y \<le> 0" using trans [of y z x] trans [of z x y] by auto
    with le have "c x y = 0" "c y z = 0"
      using comparison.nonneg [OF assms(1), of x y] comparison.nonneg [OF assms(1), of y z] by auto
    with True xy yz show ?thesis by (auto intro: comparison.cmp_trans [OF assms(2)])
  next
    case False
    with trans [OF le] show ?thesis by simp
  qed
qed

lemma comparison_diff: "comparison (\<lambda>x y. k x - k y :: int)"
  by unfold_locales auto

lemma comparison_key:
  assumes "comparison c"
  shows "comparison (\<lambda>x y. c (k x) (k y))"
  by (rule comparison.intro) (rule comparison.swap [OF assms], rule comparison.cmp_trans [OF assms])

interpretation str: comparison strcmp
proof
  show "strcmp y x < 0 \<longleftrightarrow> 0 < strcmp x y" for x y using strcmp_swap [of y x] by linarith
qed (rule strcmp_trans)

lemmas comparison_str = comparison_key [OF str.comparison_axioms]


section \<open>Binary search\<close>

text \<open>
  \<open>bsearch\<close>: the comparison of the key with an element is a function of the element; the search is over
  the elements from \<open>l\<close> and before \<open>u\<close>.
\<close>

function bsearch_loop :: "('a \<Rightarrow> int) \<Rightarrow> 'a list \<Rightarrow> nat \<Rightarrow> nat \<Rightarrow> 'a option" where
  "bsearch_loop cmp xs l u =
    (if u \<le> l then None
     else let k = (l + u) div 2; c = cmp (xs ! k) in
       if c < 0 then bsearch_loop cmp xs l k
       else if 0 < c then bsearch_loop cmp xs (k + 1) u
       else Some (xs ! k))"
  by pat_completeness auto
termination by (relation "measure (\<lambda>(cmp, xs, l, u). u - l)") auto

declare bsearch_loop.simps [simp del]

definition bsearch :: "('a \<Rightarrow> int) \<Rightarrow> 'a list \<Rightarrow> 'a option" where
  "bsearch cmp xs = bsearch_loop cmp xs 0 (length xs)"

text \<open>In a list sorted by the comparison, one that compares equal is found when there is one.\<close>

abbreviation falling :: "('a \<Rightarrow> int) \<Rightarrow> 'a list \<Rightarrow> bool" where
  "falling cmp xs \<equiv> sorted_wrt (\<lambda>x y. (cmp x < 0 \<longrightarrow> cmp y < 0) \<and> (0 < cmp y \<longrightarrow> 0 < cmp x)) xs"

lemma bsearch_loop_finds:
  "falling cmp xs \<Longrightarrow> u \<le> length xs \<Longrightarrow> (case bsearch_loop cmp xs l u of
      Some x \<Rightarrow> x \<in> set xs \<and> cmp x = 0 | None \<Rightarrow> (\<forall>i. l \<le> i \<and> i < u \<longrightarrow> cmp (xs ! i) \<noteq> 0))"
proof (induction cmp xs l u rule: bsearch_loop.induct)
  case (1 cmp xs l u)
  let ?k = "(l + u) div 2"
  consider (empty) "u \<le> l" | (low) "l < u" "cmp (xs ! ?k) < 0" | (high) "l < u" "0 < cmp (xs ! ?k)" | (hit) "l < u" "cmp (xs ! ?k) = 0"
    by linarith
  then show ?case
  proof cases
    case low
    have rest: "cmp (xs ! i) \<noteq> 0" if "?k \<le> i" "i < u" for i
      using sorted_wrt_nth_less [OF "1.prems"(1), of ?k i] low that "1.prems"(2) by (cases "i = ?k") auto
    have "bsearch_loop cmp xs l u = bsearch_loop cmp xs l ?k" using low by (subst bsearch_loop.simps) (simp add: Let_def)
    then show ?thesis using "1.IH"(1) [OF _ refl refl] low "1.prems" rest
      by (fastforce split: option.splits simp: not_le)
  next
    case high
    have "?k < length xs" using high(1) "1.prems"(2) by simp
    then have rest: "cmp (xs ! i) \<noteq> 0" if "l \<le> i" "i \<le> ?k" for i
      using sorted_wrt_nth_less [OF "1.prems"(1), of i ?k] high that "1.prems"(2) by (cases "i = ?k") auto
    have "bsearch_loop cmp xs l u = bsearch_loop cmp xs (?k + 1) u" using high by (subst bsearch_loop.simps) (simp add: Let_def)
    then show ?thesis using "1.IH"(2) [OF _ refl refl] high "1.prems" rest
      by (fastforce split: option.splits simp: Suc_le_eq not_le)
  next
    case hit
    then show ?thesis using "1.prems"(2) by (subst bsearch_loop.simps) (simp add: Let_def)
  qed (simp add: bsearch_loop.simps)
qed

lemma bsearch_finds:
  assumes "falling cmp xs"
  shows "bsearch cmp xs = Some x \<Longrightarrow> x \<in> set xs \<and> cmp x = 0" and "bsearch cmp xs = None \<Longrightarrow> \<forall>x \<in> set xs. cmp x \<noteq> 0"
  using bsearch_loop_finds [OF assms, of "length xs" 0] by (auto simp: bsearch_def in_set_conv_nth)

end
