(* ===== verification/Cf_Member.thy ===== *)
theory Cf_Member
  imports Cf_Attr Jc_Order
begin

text \<open>
  The members of a class: \<open>_jc_parse_field\<close> and \<open>_jc_parse_method\<close> of \<open>libjc/cf_parse.c\<close>, and the
  orders \<open>_jc_field_sorter\<close> and \<open>_jc_method_sorter\<close> the members are sorted by.
\<close>

section \<open>Fields\<close>

fun union_ConstantValue :: "attr_info \<Rightarrow> failure + cf_constant" where
  "union_ConstantValue (ConstantValue_attr c) = Inr c"
| "union_ConstantValue _ = Inl (Fault Wrong_union_member)"

fun union_Code :: "attr_info \<Rightarrow> failure + u8 list" where
  "union_Code (Code_attr bs) = Inr bs"
| "union_Code _ = Inl (Fault Wrong_union_member)"

fun union_Exceptions :: "attr_info \<Rightarrow> failure + cstr list" where
  "union_Exceptions (Exceptions_attr es) = Inr es"
| "union_Exceptions _ = Inl (Fault Wrong_union_member)"

fun union_SourceFile :: "attr_info \<Rightarrow> failure + cstr" where
  "union_SourceFile (SourceFile_attr u) = Inr u"
| "union_SourceFile _ = Inl (Fault Wrong_union_member)"

fun union_InnerClasses :: "attr_info \<Rightarrow> failure + cf_inner_class list" where
  "union_InnerClasses (InnerClasses_attr cs) = Inr cs"
| "union_InnerClasses _ = Inl (Fault Wrong_union_member)"

text \<open>The next element of an array of attributes, which has been zeroed.\<close>

definition next_attribute :: "cf_attr parser" where
  "next_attribute =
     thenM (modify (\<lambda>s. s\<lparr>ps_attr := zero_attr\<rparr>)) (thenM parse_attribute (gets ps_attr))"

fun field_attrs :: "nat \<Rightarrow> cf_constant option \<Rightarrow> (cf_attr list \<times> cf_constant option) parser" where
  "field_attrs 0 iv = ret ([], iv)"
| "field_attrs (Suc n) iv =
     bindM next_attribute (\<lambda>a.
     bindM (liftM (non_null (attr_name a))) (\<lambda>name.
     bindM (if name = c_str ''ConstantValue''
            then bindM (liftM (union_ConstantValue (attr_info a))) (\<lambda>c. ret (Some c)) else ret iv) (\<lambda>iv'.
     bindM (field_attrs n iv') (\<lambda>(as, iv''). ret (a # as, iv'')))))"

definition flag_count :: "u16 \<Rightarrow> nat" where
  "flag_count flags = of_bool (acc_test flags ACC_PRIVATE) + of_bool (acc_test flags ACC_PROTECTED)
     + of_bool (acc_test flags ACC_PUBLIC)"

text \<open>The \<open>switch\<close> on the type of the constant in a \<open>ConstantValue\<close> attribute.\<close>

definition value_type_ok :: "u8 \<Rightarrow> cstr \<Rightarrow> bool" where
  "value_type_ok type desc =
    (if type = CONSTANT_Integer then
       desc \<in> {c_str ''Z'', c_str ''B'', c_str ''C'', c_str ''S'', c_str ''I''}
     else if type = CONSTANT_Long then desc = c_str ''J''
     else if type = CONSTANT_Float then desc = c_str ''F''
     else if type = CONSTANT_Double then desc = c_str ''D''
     else if type = CONSTANT_String then desc = c_str ''Ljava/lang/String;''
     else False)"

fun check_values :: "cstr \<Rightarrow> cf_attr list \<Rightarrow> unit parser" where
  "check_values desc [] = ret ()"
| "check_values desc (a # as) =
     bindM (liftM (non_null (attr_name a))) (\<lambda>name.
     if name = c_str ''ConstantValue'' then
       bindM (liftM (union_ConstantValue (attr_info a))) (\<lambda>c.
         if value_type_ok (const_type c) desc then check_values desc as
         else fails (Exn ClassFormatError))
     else check_values desc as)"

text \<open>
  \<open>_jc_parse_field\<close>; a \<open>_jc_cf_attr\<close> takes 24 bytes. After a failure the code zeroes the field, which
  is what it was before.
\<close>

definition parse_field :: "cf_field parser" where
  "parse_field =
     bindM parse_uint16 (\<lambda>flags.
     bindM parse_string1 (\<lambda>name.
     bindM parse_string1 (\<lambda>desc.
     bindM parse_uint16 (\<lambda>nattrs.
     thenM (if 0 < nattrs then vm_alloc (ucast nattrs * 24) else ret ()) (
     bindM (field_attrs (unat nattrs) None) (\<lambda>(as, iv).
     bindM (gets (\<lambda>s. acc_test (access_flags (ps_cfile s)) ACC_INTERFACE)) (\<lambda>interface.
     if 1 < flag_count flags then fails (Exn ClassFormatError)
     else if flags AND (ACC_FINAL OR ACC_VOLATILE) = ACC_FINAL OR ACC_VOLATILE
     then fails (Exn ClassFormatError)
     else if interface \<and> flags \<noteq> ACC_PUBLIC OR ACC_STATIC OR ACC_FINAL then fails (Exn ClassFormatError)
     else thenM (check_values desc as) (
       ret \<lparr>f_flags = flags, f_name = name, f_descriptor = desc, f_num_attributes = nattrs,
            f_attributes = as, f_initial_value = iv\<rparr>))))))))"

section \<open>Methods\<close>

fun method_attrs :: "nat \<Rightarrow> u8 list option \<Rightarrow> cstr list option \<Rightarrow>
    (cf_attr list \<times> u8 list option \<times> cstr list option) parser" where
  "method_attrs 0 code exc = ret ([], code, exc)"
| "method_attrs (Suc n) code exc =
     bindM next_attribute (\<lambda>a.
     bindM (liftM (non_null (attr_name a))) (\<lambda>name.
     bindM (if name = c_str ''Code'' then
              (if code \<noteq> None then fails (Exn ClassFormatError)
               else bindM (liftM (union_Code (attr_info a))) (\<lambda>bs. ret (Some bs, exc)))
            else if name = c_str ''Exceptions'' then
              bindM (liftM (union_Exceptions (attr_info a))) (\<lambda>es. ret (code, Some es))
            else ret (code, exc)) (\<lambda>(code', exc').
     bindM (method_attrs n code' exc') (\<lambda>(as, code'', exc''). ret (a # as, code'', exc'')))))"

text \<open>The checks of the flags of a method; the first argument says that the class is an interface.\<close>

definition method_flags_ok :: "bool \<Rightarrow> cstr \<Rightarrow> u16 \<Rightarrow> bool" where
  "method_flags_ok interface name flags \<longleftrightarrow>
     \<not> (name = c_str ''<init>'' \<and>
        flags AND NOT (ACC_PRIVATE OR ACC_PROTECTED OR ACC_PUBLIC OR ACC_STRICT) \<noteq> 0) \<and>
     \<not> (name = c_str ''<clinit>'' \<and> \<not> acc_test flags ACC_STATIC) \<and>
     \<not> 1 < flag_count flags \<and>
     \<not> (acc_test flags ACC_ABSTRACT \<and>
        flags AND (ACC_FINAL OR ACC_NATIVE OR ACC_PRIVATE OR ACC_STATIC OR ACC_STRICT OR ACC_SYNCHRONIZED) \<noteq> 0) \<and>
     \<not> (interface \<and> name \<noteq> c_str ''<clinit>'' \<and> flags \<noteq> ACC_ABSTRACT OR ACC_PUBLIC)"

definition parse_method :: "cf_method parser" where
  "parse_method =
     bindM parse_uint16 (\<lambda>flags.
     bindM parse_string1 (\<lambda>name.
     bindM parse_string1 (\<lambda>desc.
     bindM parse_uint16 (\<lambda>nattrs.
     thenM (if 0 < nattrs then vm_alloc (ucast nattrs * 24) else ret ()) (
     bindM (method_attrs (unat nattrs) None None) (\<lambda>(as, code, exc).
     bindM (gets (\<lambda>s. acc_test (access_flags (ps_cfile s)) ACC_INTERFACE)) (\<lambda>interface.
     if (acc_test flags ACC_NATIVE \<or> acc_test flags ACC_ABSTRACT) \<noteq> (code = None)
     then fails (Exn ClassFormatError)
     else if \<not> method_flags_ok interface name flags then fails (Exn ClassFormatError)
     else ret \<lparr>m_flags = flags, m_name = name, m_descriptor = desc, m_num_attributes = nattrs,
               m_attributes = as, m_exceptions = exc, m_code = code\<rparr>)))))))"

section \<open>Sorting\<close>

text \<open>The first byte of a string, 0 for the empty one.\<close>

definition first_byte :: "cstr \<Rightarrow> u8" where
  "first_byte u = (case u of [] \<Rightarrow> 0 | b # bs \<Rightarrow> b)"

definition field_sorter :: "cf_field \<Rightarrow> cf_field \<Rightarrow> int" where
  "field_sorter f1 f2 =
    (let ptype1 = sig_type (first_byte (f_descriptor f1));
         ptype2 = sig_type (first_byte (f_descriptor f2));
         d1 = of_bool (\<not> acc_test (f_flags f1) ACC_STATIC) - of_bool (\<not> acc_test (f_flags f2) ACC_STATIC);
         d2 = field_type_sort ptype1 - field_type_sort ptype2;
         d3 = strcmp (f_name f1) (f_name f2)
     in if d1 \<noteq> 0 then d1 else if d2 \<noteq> 0 then d2 else if d3 \<noteq> 0 then d3
        else strcmp (f_descriptor f1) (f_descriptor f2))"

definition method_sorter :: "cf_method \<Rightarrow> cf_method \<Rightarrow> int" where
  "method_sorter m1 m2 =
    (let d = strcmp (m_name m1) (m_name m2)
     in if d \<noteq> 0 then d else strcmp (m_descriptor m1) (m_descriptor m2))"

interpretation fld: comparison field_sorter
proof -
  show "comparison field_sorter"
    unfolding field_sorter_def Let_def
    by (rule comparison_lex [OF comparison_diff comparison_lex [OF comparison_diff
          comparison_lex [OF comparison_str comparison_str]]])
qed

interpretation mth: comparison method_sorter
  unfolding method_sorter_def Let_def
  by (rule comparison_lex [OF comparison_str comparison_str])

section \<open>Parsing members\<close>

text \<open>
  \<open>steady cf m Q\<close>: while the class file is \<open>cf\<close>, the parser \<open>m\<close> only moves the position and fills
  the attribute it is given, returns a value in \<open>Q\<close> or stores an exception, and does not fault unless
  an attribute claims too many bytes.
\<close>

definition ready :: "parse_state \<Rightarrow> bool" where
  "ready s \<longleftrightarrow> pool_inv s \<and> mem_limit s"

definition steady :: "classfile \<Rightarrow> 'a parser \<Rightarrow> ('a \<Rightarrow> bool) \<Rightarrow> bool" where
  "steady cf m Q \<longleftrightarrow> (\<forall>s. ready s \<and> ps_cfile s = cf \<longrightarrow>
     runs m s (\<lambda>x t. ready t \<and> keeps s t \<and> Q x) (\<lambda>t. ready t \<and> keeps s t) claims_too_much)"

lemma keeps_ready: "ready s \<Longrightarrow> pool_inv t \<Longrightarrow> keeps s t \<Longrightarrow> ready t"
  by (simp add: ready_def mem_limit_def keeps_def)

lemma steadyD:
  "steady cf m Q \<Longrightarrow> ready s \<Longrightarrow> ps_cfile s = cf \<Longrightarrow>
    runs m s (\<lambda>x t. ready t \<and> keeps s t \<and> Q x) (\<lambda>t. ready t \<and> keeps s t) claims_too_much"
  by (simp add: steady_def)

lemma steadyI:
  "(\<And>s. ready s \<Longrightarrow> ps_cfile s = cf \<Longrightarrow>
      runs m s (\<lambda>x t. ready t \<and> keeps s t \<and> Q x) (\<lambda>t. ready t \<and> keeps s t) claims_too_much)
    \<Longrightarrow> steady cf m Q"
  by (simp add: steady_def)

lemma steady_reads: "reads all_tags m Q \<Longrightarrow> steady cf m Q"
proof (rule steadyI)
  fix s
  assume m: "reads all_tags m Q" and s: "ready s"
  then have "pool_inv s" by (simp add: ready_def)
  then show "runs m s (\<lambda>x t. ready t \<and> keeps s t \<and> Q x) (\<lambda>t. ready t \<and> keeps s t) claims_too_much"
    by (rule runs_weaken [OF runs_reads [OF m]]) (auto intro: keeps_ready [OF s] frame_keeps)
qed

lemma steady_bind:
  assumes m: "steady cf m R" and f: "\<And>x. R x \<Longrightarrow> steady cf (f x) Q"
  shows "steady cf (bindM m f) Q"
proof (rule steadyI, rule runs_bind)
  fix s
  assume s: "ready s" "ps_cfile s = cf"
  show "runs m s (\<lambda>x t. ready t \<and> keeps s t \<and> R x) (\<lambda>t. ready t \<and> keeps s t) claims_too_much"
    by (rule steadyD [OF m s])
  fix x t
  assume t: "ready t \<and> keeps s t \<and> R x"
  then have "ps_cfile t = cf" using s by (simp add: keeps_def)
  with t show "runs (f x) t (\<lambda>y u. ready u \<and> keeps s u \<and> Q y) (\<lambda>u. ready u \<and> keeps s u) claims_too_much"
    by (intro runs_weaken [OF steadyD [OF f]]) (auto intro: keeps_trans)
qed

lemma steady_then: "steady cf m (\<lambda>_. True) \<Longrightarrow> steady cf n Q \<Longrightarrow> steady cf (thenM m n) Q"
  unfolding thenM_def by (rule steady_bind)

lemma steady_ret: "Q x \<Longrightarrow> steady cf (ret x) Q"
  by (rule steadyI, rule runs_ret) simp

lemma steady_fails: "steady cf (fails (Exn e)) Q"
  by (rule steadyI, rule runs_fails) simp

lemma steady_if: "(b \<Longrightarrow> steady cf m Q) \<Longrightarrow> (\<not> b \<Longrightarrow> steady cf n Q) \<Longrightarrow> steady cf (if b then m else n) Q"
  by simp

lemma steady_gets_cfile: "steady cf (gets (\<lambda>s. f (ps_cfile s))) (\<lambda>x. x = f cf)"
  by (rule steadyI, rule runs_gets) simp

lemma steady_weaken: "steady cf m Q \<Longrightarrow> (\<And>x. Q x \<Longrightarrow> R x) \<Longrightarrow> steady cf m R"
  by (rule steadyI, rule runs_weaken [OF steadyD], assumption+) auto

lemma steady_attribute: "steady cf next_attribute attr_wf"
proof (rule steadyI)
  fix s
  assume s: "ready s"
  let ?s = "s\<lparr>ps_attr := zero_attr\<rparr>"
  have k: "keeps s ?s" and r: "pool_inv ?s" "mem_limit ?s"
    using s by (simp_all add: keeps_def ready_def ps_inv_def ps_ok_def mem_limit_def)
  have go: "runs (thenM parse_attribute (gets ps_attr)) ?s
     (\<lambda>a t. ready t \<and> keeps s t \<and> attr_wf a) (\<lambda>t. ready t \<and> keeps s t) claims_too_much"
  proof (rule runs_then)
    show "runs parse_attribute ?s (\<lambda>_ t. ready t \<and> keeps s t \<and> attr_wf (ps_attr t))
        (\<lambda>t. ready t \<and> keeps s t) claims_too_much"
      by (rule runs_weaken [OF run_attribute [OF r]])
        (auto intro: keeps_ready [OF s] keeps_trans [OF k])
  qed (auto intro: runs_gets)
  show "runs next_attribute s (\<lambda>a t. ready t \<and> keeps s t \<and> attr_wf a)
      (\<lambda>t. ready t \<and> keeps s t) claims_too_much"
    unfolding next_attribute_def
    by (rule runs_then [where R = "\<lambda>t. t = ?s"], rule runs_modify, simp, hypsubst, rule go)
qed

lemmas steady_u16 = reads_ints(1) [THEN steady_reads]
lemmas steady_alloc = reads_alloc [THEN steady_reads]
lemmas steady_class = reads_class1 [OF all_tags_mem(2), THEN steady_reads]
lemmas steady_string = reads_string1 [OF all_tags_mem(1), THEN steady_reads]

text \<open>What the parser promises of a field and of a method.\<close>

definition value_attr_ok :: "cstr \<Rightarrow> cf_attr \<Rightarrow> bool" where
  "value_attr_ok desc a \<longleftrightarrow> (attr_name a = Some (c_str ''ConstantValue'') \<longrightarrow>
     (\<exists>c. attr_info a = ConstantValue_attr c \<and> value_type_ok (const_type c) desc))"

definition field_ok :: "bool \<Rightarrow> cf_field \<Rightarrow> bool" where
  "field_ok interface f \<longleftrightarrow>
     flag_count (f_flags f) \<le> 1 \<and>
     f_flags f AND (ACC_FINAL OR ACC_VOLATILE) \<noteq> ACC_FINAL OR ACC_VOLATILE \<and>
     (interface \<longrightarrow> f_flags f = ACC_PUBLIC OR ACC_STATIC OR ACC_FINAL) \<and>
     length (f_attributes f) = unat (f_num_attributes f) \<and>
     list_all attr_wf (f_attributes f) \<and> list_all (value_attr_ok (f_descriptor f)) (f_attributes f) \<and>
     (\<forall>c. f_initial_value f = Some c \<longrightarrow> const_typed c \<and> value_type_ok (const_type c) (f_descriptor f))"

text \<open>The code of a method is the contents of its \<open>Code\<close> attribute, of which there is at most one.\<close>

definition code_attrs :: "cf_attr list \<Rightarrow> u8 list list" where
  "code_attrs as = concat (map (\<lambda>a. case attr_info a of Code_attr bs \<Rightarrow> [bs] | _ \<Rightarrow> [])
     (filter (\<lambda>a. attr_name a = Some (c_str ''Code'')) as))"

definition code_from :: "u8 list option \<Rightarrow> cf_attr list \<Rightarrow> u8 list option \<Rightarrow> bool" where
  "code_from code as code' \<longleftrightarrow>
     (case code of None \<Rightarrow> code_attrs as = (case code' of None \<Rightarrow> [] | Some bs \<Rightarrow> [bs])
      | Some bs \<Rightarrow> code_attrs as = [] \<and> code' = Some bs)"

definition method_ok :: "bool \<Rightarrow> cf_method \<Rightarrow> bool" where
  "method_ok interface m \<longleftrightarrow>
     method_flags_ok interface (m_name m) (m_flags m) \<and>
     (m_code m = None \<longleftrightarrow> acc_test (m_flags m) ACC_NATIVE \<or> acc_test (m_flags m) ACC_ABSTRACT) \<and>
     length (m_attributes m) = unat (m_num_attributes m) \<and> list_all attr_wf (m_attributes m) \<and>
     code_from None (m_attributes m) (m_code m)"

lemma attr_wf_ConstantValue:
  "attr_wf a \<Longrightarrow> attr_name a = Some (c_str ''ConstantValue'') \<Longrightarrow>
    \<exists>c. attr_info a = ConstantValue_attr c \<and> const_typed c"
  by (auto simp: attr_wf_def info_wf_def)

lemma attr_wf_name: "attr_wf a \<Longrightarrow> \<exists>name. attr_name a = Some name \<and> info_wf name (attr_length a) (attr_info a)"
  by (simp add: attr_wf_def)

text \<open>The attributes of a field, and the constant its \<open>initial_value\<close> ends up with.\<close>

definition values_from :: "cf_constant option \<Rightarrow> cf_attr list \<Rightarrow> cf_constant option \<Rightarrow> bool" where
  "values_from iv as iv' \<longleftrightarrow> (\<forall>c. iv' = Some c \<longrightarrow> iv = Some c \<or>
     (\<exists>a \<in> set as. attr_name a = Some (c_str ''ConstantValue'') \<and> attr_info a = ConstantValue_attr c))"

lemma steady_field_attrs:
  "steady cf (field_attrs n iv) (\<lambda>(as, iv'). length as = n \<and> list_all attr_wf as \<and> values_from iv as iv')"
proof (induction n arbitrary: iv)
  case 0
  show ?case by (auto intro!: steady_ret simp: values_from_def)
next
  case (Suc n)
  show ?case
    unfolding field_attrs.simps
  proof (rule steady_bind [OF steady_attribute])
    fix a
    assume a: "attr_wf a"
    then obtain name where nm: "attr_name a = Some name" by (auto simp: attr_wf_def)
    have rest: "steady cf (bindM (field_attrs n iv') (\<lambda>(as, iv''). ret (a # as, iv'')))
        (\<lambda>(as, iv''). length as = Suc n \<and> list_all attr_wf as \<and> values_from iv as iv'')"
      if "values_from iv [a] iv'" for iv'
      by (rule steady_bind [OF Suc]) (use that a in \<open>auto simp: values_from_def intro!: steady_ret\<close>)
    show "steady cf (bindM (liftM (non_null (attr_name a))) (\<lambda>name.
       bindM (if name = c_str ''ConstantValue''
              then bindM (liftM (union_ConstantValue (attr_info a))) (\<lambda>c. ret (Some c)) else ret iv) (\<lambda>iv'.
       bindM (field_attrs n iv') (\<lambda>(as, iv''). ret (a # as, iv'')))))
        (\<lambda>(as, iv''). length as = Suc n \<and> list_all attr_wf as \<and> values_from iv as iv'')"
    proof (cases "name = c_str ''ConstantValue''")
      case True
      with attr_wf_ConstantValue [OF a] nm obtain c where c: "attr_info a = ConstantValue_attr c" by auto
      show ?thesis by (simp add: nm True c) (rule rest, use nm True c in \<open>simp add: values_from_def\<close>)
    next
      case False
      with nm show ?thesis by simp (rule rest, simp add: values_from_def)
    qed
  qed
qed


lemma check_values_assert:
  "list_all attr_wf as \<Longrightarrow>
    check_values desc as = assertM (Exn ClassFormatError) (list_all (value_attr_ok desc) as)"
proof (induction as)
  case (Cons a as)
  then obtain name where nm: "attr_name a = Some name" by (auto simp: attr_wf_def)
  show ?case
  proof (cases "name = c_str ''ConstantValue''")
    case True
    with attr_wf_ConstantValue [of a] Cons nm obtain c where "attr_info a = ConstantValue_attr c" by auto
    with Cons nm True show ?thesis by (simp add: value_attr_ok_def)
  next
    case False
    with Cons nm show ?thesis by (simp add: value_attr_ok_def)
  qed
qed simp

lemma steady_assert: "(b \<Longrightarrow> Q ()) \<Longrightarrow> steady cf (assertM (Exn e) b) Q"
  by (rule steadyI, rule runs_assert) simp_all

lemma initial_value_ok:
  assumes "values_from None as iv" and "list_all attr_wf as" and "list_all (value_attr_ok desc) as"
    and "iv = Some c"
  shows "const_typed c \<and> value_type_ok (const_type c) desc"
proof -
  from assms(1,4) obtain a where a: "a \<in> set as" "attr_name a = Some (c_str ''ConstantValue'')"
    "attr_info a = ConstantValue_attr c" by (auto simp: values_from_def)
  with assms(2) attr_wf_ConstantValue [of a] have "const_typed c" by (auto simp: list_all_iff)
  moreover from a assms(3) have "value_type_ok (const_type c) desc"
    by (auto simp: list_all_iff value_attr_ok_def)
  ultimately show ?thesis ..
qed

abbreviation of_interface :: "classfile \<Rightarrow> bool" where
  "of_interface cf \<equiv> acc_test (access_flags cf) ACC_INTERFACE"

lemma steady_member:
  "(\<And>flags name desc nattrs. steady cf (f flags name desc nattrs) Q) \<Longrightarrow>
    steady cf (bindM parse_uint16 (\<lambda>flags. bindM parse_string1 (\<lambda>name. bindM parse_string1 (\<lambda>desc.
      bindM parse_uint16 (\<lambda>nattrs. thenM (if 0 < nattrs then vm_alloc (ucast nattrs * 24) else ret ())
        (f flags name desc nattrs)))))) Q"
  by (intro steady_bind [OF steady_u16] steady_bind [OF steady_string] steady_then
      steady_if steady_alloc steady_ret TrueI)

lemma steady_parse_field: "steady cf parse_field (field_ok (of_interface cf))"
  unfolding parse_field_def
proof (intro steady_member steady_bind [OF steady_field_attrs], (erule case_prodE)?, (elim conjE)?, simp only: prod.case,
    intro steady_bind [OF steady_gets_cfile] steady_if steady_fails, simp_all only:)
  fix flags nattrs :: u16 and name desc :: cstr and as iv
  assume as: "list_all attr_wf as" "length as = unat nattrs" "values_from None as iv"
    and ok: "\<not> 1 < flag_count flags" "flags AND (ACC_FINAL OR ACC_VOLATILE) \<noteq> ACC_FINAL OR ACC_VOLATILE"
      "\<not> (of_interface cf \<and> flags \<noteq> ACC_PUBLIC OR ACC_STATIC OR ACC_FINAL)"
  show "steady cf (thenM (check_values desc as)
      (ret \<lparr>f_flags = flags, f_name = name, f_descriptor = desc, f_num_attributes = nattrs,
           f_attributes = as, f_initial_value = iv\<rparr>)) (field_ok (of_interface cf))"
    unfolding check_values_assert [OF as(1)] thenM_def
    by (rule steady_bind [OF steady_assert [where Q = "\<lambda>_. list_all (value_attr_ok desc) as"]])
      (use as ok initial_value_ok [OF as(3,1)] in \<open>auto simp: field_ok_def intro: steady_ret\<close>)
qed


lemma attr_wf_Code:
  "attr_wf a \<Longrightarrow> attr_name a = Some (c_str ''Code'') \<Longrightarrow> \<exists>bs. attr_info a = Code_attr bs"
  by (auto simp: attr_wf_def info_wf_def)

lemma attr_wf_Exceptions:
  "attr_wf a \<Longrightarrow> attr_name a = Some (c_str ''Exceptions'') \<Longrightarrow> \<exists>es. attr_info a = Exceptions_attr es"
  by (auto simp: attr_wf_def info_wf_def)

definition method_attrs_ok ::
  "nat \<Rightarrow> u8 list option \<Rightarrow> cf_attr list \<times> u8 list option \<times> cstr list option \<Rightarrow> bool" where
  "method_attrs_ok n code r \<longleftrightarrow>
     length (fst r) = n \<and> list_all attr_wf (fst r) \<and> code_from code (fst r) (fst (snd r))"

lemma steady_method_attrs: "steady cf (method_attrs n code exc) (method_attrs_ok n code)"
proof (induction n arbitrary: code exc)
  case 0
  show ?case by (auto intro!: steady_ret simp: method_attrs_ok_def code_from_def code_attrs_def split: option.splits)
next
  case (Suc n)
  show ?case
    unfolding method_attrs.simps
  proof (rule steady_bind [OF steady_attribute])
    fix a
    assume a: "attr_wf a"
    then obtain name where nm: "attr_name a = Some name" by (auto simp: attr_wf_def)
    have rest: "steady cf (bindM (method_attrs n code' exc') (\<lambda>(as, code'', exc''). ret (a # as, code'', exc'')))
        (method_attrs_ok (Suc n) code)"
      if "\<And>as c. code_from code' as c \<Longrightarrow> code_from code (a # as) c" for code' exc'
      by (rule steady_bind [OF Suc]) (use that a in \<open>auto intro!: steady_ret simp: method_attrs_ok_def\<close>)
    show "steady cf (bindM (liftM (non_null (attr_name a))) (\<lambda>name.
       bindM (if name = c_str ''Code'' then
                (if code \<noteq> None then fails (Exn ClassFormatError)
                 else bindM (liftM (union_Code (attr_info a))) (\<lambda>bs. ret (Some bs, exc)))
              else if name = c_str ''Exceptions'' then
                bindM (liftM (union_Exceptions (attr_info a))) (\<lambda>es. ret (code, Some es))
              else ret (code, exc)) (\<lambda>(code', exc').
       bindM (method_attrs n code' exc') (\<lambda>(as, code'', exc''). ret (a # as, code'', exc'')))))
        (method_attrs_ok (Suc n) code)"
    proof (cases "name = c_str ''Code''")
      case True
      with attr_wf_Code [OF a] nm obtain bs where c: "attr_info a = Code_attr bs" by auto
      then have more: "code_from (Some bs) as d \<Longrightarrow> code_from None (a # as) d" for as d
        using nm True by (auto simp: code_from_def code_attrs_def)
      show ?thesis
      proof (cases code)
        case None
        with nm True c show ?thesis by simp (rule rest [unfolded None], rule more)
      next
        case (Some bs')
        with nm True show ?thesis by (simp add: steady_fails)
      qed
    next
      case False
      then have same: "code_from code as c \<Longrightarrow> code_from code (a # as) c" for as c
        using nm by (cases code) (simp_all add: code_from_def code_attrs_def)
      show ?thesis
      proof (cases "name = c_str ''Exceptions''")
        case True
        with attr_wf_Exceptions [OF a] nm obtain es where "attr_info a = Exceptions_attr es" by auto
        with True nm show ?thesis by simp (rule rest, rule same)
      next
        case False
        with nm \<open>name \<noteq> c_str ''Code''\<close> show ?thesis by simp (rule rest, rule same)
      qed
    qed
  qed
qed

lemma steady_parse_method: "steady cf parse_method (method_ok (of_interface cf))"
  unfolding parse_method_def
proof (rule steady_member, rule steady_bind [OF steady_method_attrs])
  fix flags nattrs :: u16 and name desc :: cstr and r
  assume ok: "method_attrs_ok (unat nattrs) None r"
  obtain as code exc where r: "r = (as, code, exc)" by (cases r)
  show "steady cf (case r of (as, code, exc) \<Rightarrow>
      bindM (gets (\<lambda>s. of_interface (ps_cfile s))) (\<lambda>interface.
      if (acc_test flags ACC_NATIVE \<or> acc_test flags ACC_ABSTRACT) \<noteq> (code = None)
      then fails (Exn ClassFormatError)
      else if \<not> method_flags_ok interface name flags then fails (Exn ClassFormatError)
      else ret \<lparr>m_flags = flags, m_name = name, m_descriptor = desc, m_num_attributes = nattrs,
                m_attributes = as, m_exceptions = exc, m_code = code\<rparr>)) (method_ok (of_interface cf))"
    unfolding r prod.case
    by (intro steady_bind [OF steady_gets_cfile] steady_if steady_fails steady_ret)
      (use ok r in \<open>auto simp: method_ok_def method_attrs_ok_def\<close>)
qed

end
