(* ===== verification/Cf_Class.thy ===== *)
theory Cf_Class
  imports Cf_Member
begin

text \<open>
  The class file itself: \<open>_jc_parse_classfile\<close> and \<open>_jc_destroy_classfile\<close> of \<open>libjc/cf_parse.c\<close>.
\<close>

section \<open>The class file\<close>

text \<open>The checks of the access flags of a class, and of its name.\<close>

definition class_flags_ok :: "u16 \<Rightarrow> bool" where
  "class_flags_ok flags =
    (if acc_test flags ACC_INTERFACE
     then flags AND NOT (ACC_PUBLIC OR ACC_SUPER) = ACC_INTERFACE OR ACC_ABSTRACT
     else \<not> (acc_test flags ACC_FINAL \<and> acc_test flags ACC_ABSTRACT))"

definition class_name_ok :: "cstr \<Rightarrow> bool" where
  "class_name_ok name \<longleftrightarrow> \<not> (first_byte name = of_char (CHR ''['') \<or> of_char (CHR ''.'') \<in> set name)"

definition version_ok :: "u16 \<Rightarrow> u16 \<Rightarrow> bool" where
  "version_ok major minor \<longleftrightarrow> (major = 45 \<and> 3 \<le> minor) \<or> (46 \<le> major \<and> major \<le> 48)"

definition parse_header :: "unit parser" where
  "parse_header =
     bindM parse_uint32 (\<lambda>magic.
     thenM (assertM (Exn ClassFormatError) (magic = 0xcafebabe)) (
     bindM parse_uint16 (\<lambda>minor. thenM (set_cfile (\<lambda>cf. cf\<lparr>minor_version := minor\<rparr>)) (
     bindM parse_uint16 (\<lambda>major. thenM (set_cfile (\<lambda>cf. cf\<lparr>major_version := major\<rparr>)) (
     thenM (assertM (Exn UnsupportedClassVersionError) (version_ok major minor)) (
     thenM parse_cpool (
     bindM parse_uint16 (\<lambda>flags. thenM (set_cfile (\<lambda>cf. cf\<lparr>access_flags := flags\<rparr>)) (
     bindM parse_class1 (\<lambda>name. thenM (set_cfile (\<lambda>cf. cf\<lparr>cf_name := name\<rparr>)) (
     thenM (assertM (Exn ClassFormatError) (class_name_ok name)) (
     assertM (Exn ClassFormatError) (class_flags_ok flags))))))))))))))"

definition parse_superclass :: "unit parser" where
  "parse_superclass =
     bindM (gets ps_cfile) (\<lambda>cf.
     if cf_name cf = c_str ''java/lang/Object'' then
       bindM parse_uint16 (\<lambda>cp_index.
       thenM (assertM (Exn ClassFormatError) (cp_index = 0)) (
       assertM (Exn ClassFormatError)
         (access_flags cf AND (ACC_PUBLIC OR ACC_ABSTRACT OR ACC_INTERFACE OR ACC_FINAL) = ACC_PUBLIC)))
     else
       bindM parse_class1 (\<lambda>super.
       thenM (set_cfile (\<lambda>cf. cf\<lparr>superclass := Some super\<rparr>)) (
       assertM (Exn ClassFormatError) (first_byte super \<noteq> of_char (CHR ''['')))))"

definition parse_interface :: "cstr parser" where
  "parse_interface = bindM parse_class1 (\<lambda>u.
     if first_byte u = of_char (CHR ''['') then fails (Exn ClassFormatError) else ret u)"

definition parse_interfaces :: "unit parser" where
  "parse_interfaces =
     bindM parse_uint16 (\<lambda>n.
     thenM (if 0 < n then vm_alloc (ucast n * 4) else ret ()) (
     bindM (repeatM (unat n) parse_interface) (\<lambda>ifs.
     set_cfile (\<lambda>cf. cf\<lparr>interfaces := ifs\<rparr>))))"

text \<open>
  The arrays of the class file are allocated zeroed and filled element by element; a
  \<open>_jc_cf_field\<close> takes 24 bytes, a \<open>_jc_cf_method\<close> 28.
\<close>

definition put_field :: "nat \<Rightarrow> cf_field \<Rightarrow> unit parser" where
  "put_field i f = set_cfile (\<lambda>cf. cf\<lparr>cf_fields := map_option (\<lambda>fs. fs[i := f]) (cf_fields cf)\<rparr>)"

definition put_method :: "nat \<Rightarrow> cf_method \<Rightarrow> unit parser" where
  "put_method i m = set_cfile (\<lambda>cf. cf\<lparr>cf_methods := map_option (\<lambda>ms. ms[i := m]) (cf_methods cf)\<rparr>)"

definition put_attr :: "nat \<Rightarrow> cf_attr \<Rightarrow> unit parser" where
  "put_attr i a = set_cfile (\<lambda>cf. cf\<lparr>cf_attributes := map_option (\<lambda>as. as[i := a]) (cf_attributes cf)\<rparr>)"

fun fields_loop :: "nat \<Rightarrow> nat \<Rightarrow> unit parser" where
  "fields_loop 0 i = ret ()"
| "fields_loop (Suc n) i = bindM parse_field (\<lambda>f. thenM (put_field i f) (fields_loop n (Suc i)))"

fun methods_loop :: "nat \<Rightarrow> nat \<Rightarrow> unit parser" where
  "methods_loop 0 i = ret ()"
| "methods_loop (Suc n) i = bindM parse_method (\<lambda>m. thenM (put_method i m) (methods_loop n (Suc i)))"

text \<open>
  The loop over the attributes of the class; after a failure the element holds what
  \<open>_jc_parse_attribute\<close> has filled in.
\<close>

definition class_attribute :: "nat \<Rightarrow> cf_attr parser" where
  "class_attribute i =
     thenM (modify (\<lambda>s. s\<lparr>ps_attr := zero_attr\<rparr>)) (
     thenM (on_failM parse_attribute (bindM (gets ps_attr) (put_attr i))) (
     bindM (gets ps_attr) (\<lambda>a. thenM (put_attr i a) (ret a))))"

fun attributes_loop :: "nat \<Rightarrow> nat \<Rightarrow> unit parser" where
  "attributes_loop 0 i = ret ()"
| "attributes_loop (Suc n) i =
     bindM (class_attribute i) (\<lambda>a.
     bindM (liftM (non_null (attr_name a))) (\<lambda>name.
     thenM (if name = c_str ''InnerClasses'' then
              bindM (liftM (union_InnerClasses (attr_info a))) (\<lambda>ics.
                set_cfile (\<lambda>cf. cf\<lparr>inner_classes := Some ics\<rparr>))
            else if name = c_str ''SourceFile'' then
              bindM (liftM (union_SourceFile (attr_info a))) (\<lambda>u.
                set_cfile (\<lambda>cf. cf\<lparr>source_file := Some u\<rparr>))
            else ret ())
       (attributes_loop n (Suc i))))"

definition parse_fields :: "unit parser" where
  "parse_fields =
     bindM parse_uint16 (\<lambda>n. thenM (set_cfile (\<lambda>cf. cf\<lparr>num_fields := n\<rparr>)) (
     thenM (if 0 < n
            then thenM (vm_alloc (ucast n * 24))
                   (set_cfile (\<lambda>cf. cf\<lparr>cf_fields := Some (replicate (unat n) zero_field)\<rparr>))
            else ret ()) (
     thenM (fields_loop (unat n) 0) (
     set_cfile (\<lambda>cf. cf\<lparr>cf_fields := map_option (qsort field_sorter) (cf_fields cf)\<rparr>)))))"

definition parse_methods :: "unit parser" where
  "parse_methods =
     bindM parse_uint16 (\<lambda>n. thenM (set_cfile (\<lambda>cf. cf\<lparr>num_methods := n\<rparr>)) (
     thenM (if 0 < n
            then thenM (vm_alloc (ucast n * 28))
                   (set_cfile (\<lambda>cf. cf\<lparr>cf_methods := Some (replicate (unat n) zero_method)\<rparr>))
            else ret ()) (
     thenM (methods_loop (unat n) 0) (
     set_cfile (\<lambda>cf. cf\<lparr>cf_methods := map_option (qsort method_sorter) (cf_methods cf)\<rparr>)))))"

definition parse_attributes :: "unit parser" where
  "parse_attributes =
     bindM parse_uint16 (\<lambda>n. thenM (set_cfile (\<lambda>cf. cf\<lparr>num_attributes := n\<rparr>)) (
     thenM (if 0 < n
            then thenM (vm_alloc (ucast n * 24))
                   (set_cfile (\<lambda>cf. cf\<lparr>cf_attributes := Some (replicate (unat n) zero_attr)\<rparr>))
            else ret ()) (
     attributes_loop (unat n) 0)))"

definition parse_members :: "unit parser" where
  "parse_members =
     thenM parse_fields (
     thenM parse_methods (
     thenM parse_attributes (
     bindM (gets (\<lambda>s. ps_pos s = ps_length s)) (\<lambda>at_end. assertM (Exn ClassFormatError) at_end))))"

definition parse_classfile_body :: "int \<Rightarrow> unit parser" where
  "parse_classfile_body howmuch =
     thenM parse_header (
     if howmuch \<le> 0 then ret ()
     else thenM parse_superclass (thenM parse_interfaces (
       if howmuch \<le> 1 then ret () else parse_members)))"

section \<open>Destroying a class file\<close>

fun free_all :: "cf_attr list \<Rightarrow> failure + unit" where
  "free_all [] = Inr ()"
| "free_all (a # as) = (case free_attribute a of Inl e \<Rightarrow> Inl e | Inr _ \<Rightarrow> free_all as)"

text \<open>
  The loops of \<open>_jc_destroy_classfile\<close>, in which an array is indexed up to its count: a null array
  with a count that is not 0 is a fault.
\<close>

definition elements :: "u16 \<Rightarrow> 'a list option \<Rightarrow> failure + 'a list" where
  "elements n arr =
    (if n = 0 then Inr []
     else case arr of None \<Rightarrow> Inl (Fault Null_dereference)
          | Some xs \<Rightarrow> if unat n \<le> length xs then Inr (take (unat n) xs) else Inl (Fault Out_of_bounds))"

fun free_each :: "cf_attr list list \<Rightarrow> failure + unit" where
  "free_each [] = Inr ()"
| "free_each (x # xs) = (case free_all (rev x) of Inl e \<Rightarrow> Inl e | Inr _ \<Rightarrow> free_each xs)"

definition destroy_classfile :: "classfile \<Rightarrow> failure + unit" where
  "destroy_classfile cf =
    (case elements (num_fields cf) (cf_fields cf) of Inl e \<Rightarrow> Inl e | Inr fs \<Rightarrow>
     case free_each (map f_attributes fs) of Inl e \<Rightarrow> Inl e | Inr _ \<Rightarrow>
     case elements (num_methods cf) (cf_methods cf) of Inl e \<Rightarrow> Inl e | Inr ms \<Rightarrow>
     case free_each (map m_attributes ms) of Inl e \<Rightarrow> Inl e | Inr _ \<Rightarrow>
     case elements (num_attributes cf) (cf_attributes cf) of Inl e \<Rightarrow> Inl e | Inr as \<Rightarrow>
     free_all (rev as))"

text \<open>
  \<open>_jc_parse_classfile\<close>, on a state over the bytes of the file; a \<open>_jc_classfile\<close> takes 64 bytes. The
  parsed class file is in the final state.
\<close>

definition parse_classfile :: "int \<Rightarrow> unit parser" where
  "parse_classfile howmuch =
     thenM (vm_alloc 64) (
     thenM (set_cfile (\<lambda>_. zero_classfile)) (
     on_failM (parse_classfile_body howmuch)
       (bindM (gets ps_cfile) (\<lambda>cf. liftM (destroy_classfile cf)))))"

section \<open>The constant pool parser leaves the rest alone\<close>

definition beside_pool :: "classfile \<Rightarrow> classfile" where
  "beside_pool cf = cf\<lparr>constants := [], num_constants := 0\<rparr>"

definition pool_frame :: "parse_state \<Rightarrow> parse_state \<Rightarrow> bool" where
  "pool_frame s t \<longleftrightarrow> ps_buf t = ps_buf s \<and> ps_base t = ps_base s \<and> ps_length t = ps_length s \<and>
     ps_memok t = ps_memok s \<and> beside_pool (ps_cfile t) = beside_pool (ps_cfile s)"

interpretation pf: framed pool_frame
  by unfold_locales (auto simp: pool_frame_def)

lemma pool_within_frames: "frames m \<Longrightarrow> within pool_frame m"
  by (erule within_weaken) (simp add: frame_def pool_frame_def)

lemma pool_within_pos: "within pool_frame (set_pos p)" "within pool_frame (advance n)"
  by (simp_all add: set_pos_def advance_def within_def pool_frame_def)

lemma pool_within_set_pool:
  "(\<And>cf. beside_pool (f cf) = beside_pool cf) \<Longrightarrow> within pool_frame (set_cfile f)"
  unfolding set_cfile_def by (rule within_modify) (simp add: pool_frame_def)

lemma pool_within_utf8: "within pool_frame parse_utf8"
proof -
  have "within pool_frame (parse_utf8_body len)" for len
    by (auto simp: within_def pool_frame_def parse_utf8_body_def read_bytes_def Let_def)
  then show ?thesis
    unfolding parse_utf8_def by (rule pf.within_bind [OF pool_within_frames [OF frames_ints(1)]])
qed

lemma pool_within_byte: "within pool_frame byte_at_pos"
  by (simp add: within_def pool_frame_def byte_at_pos_def)

lemma pool_within_scan_fixed: "within pool_frame (scan_fixed n)"
  by (simp add: within_def pool_frame_def scan_fixed_def)

lemmas pool_within_rules = pf.within_bind pf.within_then pf.within_none pf.within_if pf.within_option
  pf.within_ignore pool_within_pos pool_within_utf8 pool_within_byte pool_within_scan_fixed
  frames_ints [THEN pool_within_frames] frames_strings [THEN pool_within_frames]
  frames_index [THEN pool_within_frames] frames_alloc [THEN pool_within_frames]
  frames_uint8 [THEN pool_within_frames] fr.within_repeat [OF frames_uint8, THEN pool_within_frames]

lemma pool_within_scan: "within pool_frame scan_constant"
  unfolding scan_constant_def by (intro pool_within_rules)

lemma pool_within_put: "within pool_frame (put_constant i f)"
  unfolding put_constant_def get_constant_def
  by (intro pool_within_rules within_modify) (simp add: pool_frame_def beside_pool_def)

lemma pool_within_constant: "within pool_frame (parse_constant i)"
  unfolding parse_constant_def parse_constant_info_def parse_float_def parse_double_def
  by (intro pool_within_rules pool_within_put)

lemma pool_within_cpool_scan: "within pool_frame (cpool_scan n i len)"
proof (induction n i len rule: cpool_scan.induct)
  case (1 n i len)
  show ?case
    by (subst cpool_scan.simps)
      (intro pool_within_rules pool_within_put pool_within_scan 1; assumption)
qed

lemma pool_within_pass: "(\<And>i ty. within pool_frame (act i ty)) \<Longrightarrow> within pool_frame (cpool_pass act n i)"
proof (induction act n i rule: cpool_pass.induct)
  case (1 act n i)
  then show ?case
    by (subst cpool_pass.simps) (auto intro!: pool_within_rules simp: get_constant_def)
qed

lemma pool_within_cpool: "within pool_frame parse_cpool"
proof -
  have "within pool_frame (pass_utf8 i ty)" "within pool_frame (pass_class_string i ty)"
    "within pool_frame (pass_name_type i ty)" "within pool_frame (pass_rest i ty)" for i ty
    unfolding pass_utf8_def pass_class_string_def pass_name_type_def pass_rest_def
    by (intro pool_within_rules pool_within_put pool_within_constant pool_within_scan)+
  then show ?thesis
    unfolding parse_cpool_def parse_cpool_body_def parse_cpool_passes_def
    by (intro pf.within_on_fail pool_within_rules pool_within_pass pool_within_cpool_scan
        pool_within_set_pool) (simp_all add: beside_pool_def)
qed

section \<open>The stages of the class file parser\<close>

text \<open>
  \<open>stage E F P m Q\<close>: from a well-formed state, with one readable byte behind the class file, whose
  class file satisfies \<open>P\<close>, the parser \<open>m\<close> ends in such a state with a class file and a value in \<open>Q\<close>,
  or stores an exception with a class file in \<open>E\<close>, or faults in a state in \<open>F\<close>.
\<close>

definition loaded :: "parse_state \<Rightarrow> bool" where
  "loaded s \<longleftrightarrow> ready s \<and> ps_base s + unat (ps_length s) < length (ps_buf s)"

definition stage ::
  "(classfile \<Rightarrow> bool) \<Rightarrow> (parse_state \<Rightarrow> bool) \<Rightarrow> (classfile \<Rightarrow> bool) \<Rightarrow> 'a parser \<Rightarrow>
    ('a \<Rightarrow> classfile \<Rightarrow> bool) \<Rightarrow> bool"
where
  "stage E F P m Q \<longleftrightarrow> (\<forall>s. loaded s \<and> P (ps_cfile s) \<longrightarrow>
     runs m s (\<lambda>x t. loaded t \<and> Q x (ps_cfile t)) (\<lambda>t. E (ps_cfile t)) F)"

lemma stageD:
  "stage E F P m Q \<Longrightarrow> loaded s \<Longrightarrow> P (ps_cfile s) \<Longrightarrow>
    runs m s (\<lambda>x t. loaded t \<and> Q x (ps_cfile t)) (\<lambda>t. E (ps_cfile t)) F"
  by (simp add: stage_def)

lemma stageI:
  "(\<And>s. loaded s \<Longrightarrow> P (ps_cfile s) \<Longrightarrow>
      runs m s (\<lambda>x t. loaded t \<and> Q x (ps_cfile t)) (\<lambda>t. E (ps_cfile t)) F) \<Longrightarrow> stage E F P m Q"
  by (simp add: stage_def)

lemma stage_bind:
  assumes m: "stage E F P m R" and f: "\<And>x. stage E F (R x) (f x) Q"
  shows "stage E F P (bindM m f) Q"
proof (rule stageI, rule runs_bind)
  fix s
  assume "loaded s" and "P (ps_cfile s)"
  then show "runs m s (\<lambda>x t. loaded t \<and> R x (ps_cfile t)) (\<lambda>t. E (ps_cfile t)) F" by (rule stageD [OF m])
  show "runs (f x) t (\<lambda>y u. loaded u \<and> Q y (ps_cfile u)) (\<lambda>u. E (ps_cfile u)) F"
    if "loaded t \<and> R x (ps_cfile t)" for x t
    using that by (intro stageD [OF f]) auto
qed

lemma stage_then: "stage E F P m (\<lambda>_. R) \<Longrightarrow> stage E F R n Q \<Longrightarrow> stage E F P (thenM m n) Q"
  unfolding thenM_def by (rule stage_bind)

lemma stage_weaken:
  "stage E F P m R \<Longrightarrow> (\<And>x cf. R x cf \<Longrightarrow> Q x cf) \<Longrightarrow> stage E F P m Q"
  by (rule stageI, rule runs_weaken [OF stageD], assumption+) auto

lemma stage_strengthen: "stage E F P m Q \<Longrightarrow> (\<And>cf. P' cf \<Longrightarrow> P cf) \<Longrightarrow> stage E F P' m Q"
  by (simp add: stage_def)

lemma stage_ret: "(\<And>cf. P cf \<Longrightarrow> Q x cf) \<Longrightarrow> stage E F P (ret x) Q"
  by (rule stageI, rule runs_ret) simp

lemma stage_fails: "(\<And>cf. P cf \<Longrightarrow> E cf) \<Longrightarrow> stage E F P (fails (Exn e)) Q"
  by (rule stageI, rule runs_fails) simp

lemma stage_if:
  "(b \<Longrightarrow> stage E F P m Q) \<Longrightarrow> (\<not> b \<Longrightarrow> stage E F P n Q) \<Longrightarrow> stage E F P (if b then m else n) Q"
  by simp

lemma stage_assert:
  "(\<And>cf. b \<Longrightarrow> P cf \<Longrightarrow> Q () cf) \<Longrightarrow> (\<And>cf. \<not> b \<Longrightarrow> P cf \<Longrightarrow> E cf)
    \<Longrightarrow> stage E F P (assertM (Exn e) b) Q"
  by (rule stageI, rule runs_assert) simp_all

lemma loaded_keeps: "loaded s \<Longrightarrow> ready t \<Longrightarrow> keeps s t \<Longrightarrow> loaded t"
  by (simp add: loaded_def keeps_def)

lemma stage_steady:
  assumes "\<And>cf. P cf \<Longrightarrow> steady cf m (R cf)" and "\<And>cf. P cf \<Longrightarrow> E cf"
  shows "stage E claims_too_much P m (\<lambda>x cf. P cf \<and> R cf x)"
proof (rule stageI)
  fix s
  assume s: "loaded s" "P (ps_cfile s)"
  then have "ready s" by (simp add: loaded_def)
  from steadyD [OF assms(1) [OF s(2)] this refl] show
    "runs m s (\<lambda>x t. loaded t \<and> P (ps_cfile t) \<and> R (ps_cfile t) x) (\<lambda>t. E (ps_cfile t)) claims_too_much"
    by (rule runs_weaken) (use s assms(2) in \<open>auto simp: keeps_def intro: loaded_keeps\<close>)
qed

lemma stage_reads:
  assumes "reads all_tags m R" and "\<And>cf. P cf \<Longrightarrow> E cf"
  shows "stage E F P m (\<lambda>x cf. P cf \<and> R x)"
proof (rule stageI)
  fix s
  assume s: "loaded s" "P (ps_cfile s)"
  then have "pool_inv s" by (simp add: loaded_def ready_def)
  from runs_reads [OF assms(1) this] show
    "runs m s (\<lambda>x t. loaded t \<and> P (ps_cfile t) \<and> R x) (\<lambda>t. E (ps_cfile t)) F"
    by (rule runs_weaken)
      (use s assms(2) in \<open>auto simp: frame_def loaded_def ready_def mem_limit_def\<close>)
qed

lemma loaded_cfile:
  "loaded s \<Longrightarrow> constants cf = constants (ps_cfile s) \<Longrightarrow> num_constants cf = num_constants (ps_cfile s)
    \<Longrightarrow> loaded (s\<lparr>ps_cfile := cf\<rparr>)"
  by (simp add: loaded_def ready_def ps_inv_def ps_ok_def cpool_typed_def mem_limit_def)

lemma stage_set:
  "(\<And>cf. constants (f cf) = constants cf \<and> num_constants (f cf) = num_constants cf)
    \<Longrightarrow> (\<And>cf. P cf \<Longrightarrow> Q () (f cf)) \<Longrightarrow> stage E F P (set_cfile f) Q"
  unfolding set_cfile_def by (rule stageI, rule runs_modify) (simp add: loaded_cfile)

lemma stage_gets: "(\<And>cf. P cf \<Longrightarrow> Q (f cf) cf) \<Longrightarrow> stage E F P (gets (\<lambda>s. f (ps_cfile s))) Q"
  by (rule stageI, rule runs_gets) simp

lemma stage_cpool:
  assumes "\<And>cf cf'. P cf \<Longrightarrow> beside_pool cf' = beside_pool cf \<Longrightarrow> P cf' \<and> E cf'"
  shows "stage E F P parse_cpool (\<lambda>_. P)"
proof (rule stageI)
  fix s
  assume s: "loaded s" "P (ps_cfile s)"
  have out: "pool_frame s t" if "parse_cpool s = (r, t)" for r t
    using withinD [OF pool_within_cpool that] .
  have "leads parse_cpool_body s (\<lambda>_ t. pool_inv t \<and> ps_buf t = ps_buf s
     \<and> ps_base t = ps_base s \<and> ps_length t = ps_length s)"
    using s by (intro parse_cpool_body_typed) (auto simp: loaded_def ready_def ps_inv_def)
  then have "leads parse_cpool s (\<lambda>_ t. pool_inv t)"
    by (auto simp: leads_def parse_cpool_def on_failM_def set_cfile_def split: prod.splits sum.splits failure.splits)
  then show "runs parse_cpool s (\<lambda>x t. loaded t \<and> P (ps_cfile t)) (\<lambda>t. E (ps_cfile t)) F"
    using s assms [OF s(2)] out
    by (intro runsI)
      (fastforce simp: leads_def loaded_def ready_def mem_limit_def pool_frame_def)+
qed

section \<open>What each stage promises\<close>

text \<open>No member table has been started.\<close>

definition plain :: "classfile \<Rightarrow> bool" where
  "plain cf \<longleftrightarrow> num_fields cf = 0 \<and> cf_fields cf = None \<and> num_methods cf = 0 \<and> cf_methods cf = None \<and>
     num_attributes cf = 0 \<and> cf_attributes cf = None"

definition header_ok :: "classfile \<Rightarrow> bool" where
  "header_ok cf \<longleftrightarrow> version_ok (major_version cf) (minor_version cf) \<and> class_name_ok (cf_name cf) \<and>
     class_flags_ok (access_flags cf)"

definition supers_ok :: "classfile \<Rightarrow> bool" where
  "supers_ok cf \<longleftrightarrow>
     (if cf_name cf = c_str ''java/lang/Object''
      then superclass cf = None \<and>
        access_flags cf AND (ACC_PUBLIC OR ACC_ABSTRACT OR ACC_INTERFACE OR ACC_FINAL) = ACC_PUBLIC
      else (\<exists>u. superclass cf = Some u \<and> first_byte u \<noteq> of_char (CHR ''[''))) \<and>
     list_all (\<lambda>u. first_byte u \<noteq> of_char (CHR ''['')) (interfaces cf)"

abbreviation none_of :: "parse_state \<Rightarrow> bool" where
  "none_of \<equiv> \<lambda>_. False"

text \<open>The same rules, for the first step of a sequence.\<close>

lemma stage_reads_bind:
  assumes "reads all_tags m R" and "\<And>cf. P cf \<Longrightarrow> E cf" and "\<And>x. stage E F P (f x) Q"
  shows "stage E F P (bindM m f) Q"
  by (rule stage_bind [OF stage_reads [OF assms(1,2)] stage_strengthen [OF assms(3)]]) simp_all

lemma stage_reads_then:
  "reads all_tags m R \<Longrightarrow> (\<And>cf. P cf \<Longrightarrow> E cf) \<Longrightarrow> stage E F P n Q \<Longrightarrow> stage E F P (thenM m n) Q"
  unfolding thenM_def by (rule stage_reads_bind)

lemma stage_assert_then:
  "(\<And>cf. P cf \<Longrightarrow> E cf) \<Longrightarrow> (b \<Longrightarrow> stage E F P n Q) \<Longrightarrow> stage E F P (thenM (assertM (Exn e) b) n) Q"
  by (cases b) (simp_all add: thenM_def stage_fails)

lemma stage_set_then:
  "(\<And>cf. constants (f cf) = constants cf \<and> num_constants (f cf) = num_constants cf)
    \<Longrightarrow> (\<And>cf. P cf \<Longrightarrow> P' (f cf)) \<Longrightarrow> stage E F P' n Q \<Longrightarrow> stage E F P (thenM (set_cfile f) n) Q"
  by (rule stage_then [OF stage_set])

lemmas stage_u16 = stage_reads_bind [OF reads_ints(1)]
lemmas stage_u32 = stage_reads_bind [OF reads_ints(2)]
lemmas stage_class = stage_reads_bind [OF reads_class1 [OF all_tags_mem(2)]]
lemmas stage_alloc = stage_reads_then [OF reads_alloc]

lemma stage_header:
  "stage plain F (\<lambda>cf. plain cf \<and> superclass cf = None \<and> interfaces cf = []) parse_header
     (\<lambda>_ cf. plain cf \<and> superclass cf = None \<and> interfaces cf = [] \<and> header_ok cf)"
proof -
  let ?P = "\<lambda>cf. plain cf \<and> superclass cf = None \<and> interfaces cf = []"
  have pool: "stage plain F (\<lambda>cf. ?P cf \<and> minor_version cf = mi \<and> major_version cf = ma) parse_cpool
      (\<lambda>_ cf. ?P cf \<and> minor_version cf = mi \<and> major_version cf = ma)" for mi ma
  proof (rule stage_cpool)
    fix cf cf'
    assume "beside_pool cf' = beside_pool cf"
    then have "f (beside_pool cf') = f (beside_pool cf)" for f :: "classfile \<Rightarrow> 'x" by simp
    note this [of num_fields] this [of cf_fields] this [of num_methods] this [of cf_methods]
      this [of num_attributes] this [of cf_attributes] this [of superclass] this [of interfaces]
      this [of minor_version] this [of major_version]
    then show "?P cf \<and> minor_version cf = mi \<and> major_version cf = ma \<Longrightarrow>
        (?P cf' \<and> minor_version cf' = mi \<and> major_version cf' = ma) \<and> plain cf'"
      by (simp add: beside_pool_def plain_def)
  qed
  show ?thesis
    unfolding parse_header_def
    apply (rule stage_u32, simp, rule stage_assert_then, simp)
    apply (rule stage_u16, simp, rule stage_set_then [where P' = "\<lambda>cf. ?P cf \<and> minor_version cf = mi" for mi],
        simp, simp add: plain_def)
    apply (rule stage_u16, simp, rule stage_set_then [where P' = "\<lambda>cf. ?P cf \<and> minor_version cf = mi
        \<and> major_version cf = ma" for mi ma], simp, simp add: plain_def)
    apply (rule stage_assert_then, simp, rule stage_then [OF pool])
    apply (rule stage_u16, simp, rule stage_set_then [where P' = "\<lambda>cf. ?P cf \<and> minor_version cf = mi
        \<and> major_version cf = ma \<and> access_flags cf = fl" for mi ma fl], simp, simp add: plain_def)
    apply (rule stage_class, simp, rule stage_set_then [where P' = "\<lambda>cf. ?P cf \<and> minor_version cf = mi
        \<and> major_version cf = ma \<and> access_flags cf = fl \<and> cf_name cf = nm" for mi ma fl nm],
        simp, simp add: plain_def)
    apply (rule stage_assert_then, simp, rule stage_assert)
     apply (simp_all add: header_ok_def)
    done
qed

lemma stage_superclass:
  "stage plain F (\<lambda>cf. plain cf \<and> superclass cf = None \<and> interfaces cf = [] \<and> header_ok cf) parse_superclass
     (\<lambda>_ cf. plain cf \<and> header_ok cf \<and> supers_ok cf)"
  unfolding parse_superclass_def
proof (rule stage_bind [OF stage_gets [where f = "\<lambda>c. c" and Q = "\<lambda>x cf. x = cf \<and> plain cf
    \<and> superclass cf = None \<and> interfaces cf = [] \<and> header_ok cf"]], simp, rule stage_if)
  fix x
  let ?P = "\<lambda>cf. x = cf \<and> plain cf \<and> superclass cf = None \<and> interfaces cf = [] \<and> header_ok cf"
  show "stage plain F ?P (bindM parse_uint16 (\<lambda>cp_index.
       thenM (assertM (Exn ClassFormatError) (cp_index = 0)) (
       assertM (Exn ClassFormatError)
         (access_flags x AND (ACC_PUBLIC OR ACC_ABSTRACT OR ACC_INTERFACE OR ACC_FINAL) = ACC_PUBLIC))))
     (\<lambda>_ cf. plain cf \<and> header_ok cf \<and> supers_ok cf)" if "cf_name x = c_str ''java/lang/Object''"
    by (rule stage_u16, simp, rule stage_assert_then, simp, rule stage_assert)
      (use that in \<open>auto simp: supers_ok_def\<close>)
  show "stage plain F ?P (bindM parse_class1 (\<lambda>super.
       thenM (set_cfile (\<lambda>cf. cf\<lparr>superclass := Some super\<rparr>)) (
       assertM (Exn ClassFormatError) (first_byte super \<noteq> of_char (CHR ''['')))))
     (\<lambda>_ cf. plain cf \<and> header_ok cf \<and> supers_ok cf)" if "cf_name x \<noteq> c_str ''java/lang/Object''"
    by (rule stage_class, simp, rule stage_set_then [where P' = "\<lambda>cf. plain cf \<and> header_ok cf
        \<and> cf_name cf = cf_name x \<and> superclass cf = Some u \<and> interfaces cf = []" for u], simp,
        simp add: plain_def header_ok_def, rule stage_assert)
      (use that in \<open>auto simp: supers_ok_def\<close>)
qed

lemma reads_interface: "reads all_tags parse_interface (\<lambda>u. first_byte u \<noteq> of_char (CHR ''[''))"
  unfolding parse_interface_def
  by (rule rd.safe_bind [OF reads_class1 [OF all_tags_mem(2)]], rule safe_if)
    (auto intro: rd.safe_fails rd.safe_ret)

lemma stage_interfaces:
  "stage plain F (\<lambda>cf. plain cf \<and> header_ok cf \<and> supers_ok cf) parse_interfaces
     (\<lambda>_ cf. plain cf \<and> header_ok cf \<and> supers_ok cf)"
  unfolding parse_interfaces_def
proof (rule stage_u16, simp, rule stage_reads_then)
  fix n :: u16
  show "reads all_tags (if 0 < n then vm_alloc (ucast n * 4) else ret ()) (\<lambda>_. True)"
    by (rule safe_if) (auto intro: reads_alloc rd.safe_ret)
  show "stage plain F (\<lambda>cf. plain cf \<and> header_ok cf \<and> supers_ok cf)
     (bindM (repeatM (unat n) parse_interface) (\<lambda>ifs. set_cfile (\<lambda>cf. cf\<lparr>interfaces := ifs\<rparr>)))
     (\<lambda>_ cf. plain cf \<and> header_ok cf \<and> supers_ok cf)"
    by (rule stage_bind [OF stage_reads [OF rd.safe_repeat [OF reads_interface]]], simp, rule stage_set)
      (auto simp: plain_def header_ok_def supers_ok_def)
qed simp

section \<open>The member tables\<close>

text \<open>
  A table of \<open>k\<close> zeroed elements of which the first \<open>i\<close> are filled in and satisfy \<open>ok\<close>; there is no
  array for a table of no elements.
\<close>

definition filled :: "('a \<Rightarrow> bool) \<Rightarrow> nat \<Rightarrow> u16 \<Rightarrow> 'a list option \<Rightarrow> bool" where
  "filled ok i k arr \<longleftrightarrow>
     (case arr of None \<Rightarrow> k = 0 | Some xs \<Rightarrow> length xs = unat k \<and> list_all ok (take i xs))"

lemma filled_start: "k \<noteq> 0 \<Longrightarrow> filled ok 0 k (Some (replicate (unat k) x))"
  by (simp add: filled_def)

lemma filled_put:
  "filled ok i k arr \<Longrightarrow> i < unat k \<Longrightarrow> ok x \<Longrightarrow> filled ok (Suc i) k (map_option (\<lambda>xs. xs[i := x]) arr)"
  by (auto simp: filled_def take_Suc_conv_app_nth split: option.splits)

lemma filled_elements: "filled ok (unat k) k arr \<Longrightarrow> \<exists>xs. elements k arr = Inr xs \<and> list_all ok xs"
  by (auto simp: filled_def elements_def split: option.splits)

text \<open>What is already known of the class file when its members are parsed.\<close>

definition base_ok :: "bool \<Rightarrow> classfile \<Rightarrow> bool" where
  "base_ok i cf \<longleftrightarrow> header_ok cf \<and> supers_ok cf \<and> of_interface cf = i"

definition fields_ok :: "bool \<Rightarrow> classfile \<Rightarrow> bool" where
  "fields_ok i cf \<longleftrightarrow> (\<exists>fs. elements (num_fields cf) (cf_fields cf) = Inr fs \<and>
     list_all (field_ok i) fs \<and> sorted_wrt (\<lambda>f g. field_sorter f g \<le> 0) fs)"

definition methods_ok :: "bool \<Rightarrow> classfile \<Rightarrow> bool" where
  "methods_ok i cf \<longleftrightarrow> (\<exists>ms. elements (num_methods cf) (cf_methods cf) = Inr ms \<and>
     list_all (method_ok i) ms \<and> sorted_wrt (\<lambda>m n. method_sorter m n \<le> 0) ms)"

definition attributes_ok :: "classfile \<Rightarrow> bool" where
  "attributes_ok cf \<longleftrightarrow> (\<exists>as. elements (num_attributes cf) (cf_attributes cf) = Inr as \<and> list_all attr_wf as)"

text \<open>These do not look at the tables that come later.\<close>

lemma base_ok_later [simp]:
  "base_ok i (cf\<lparr>num_fields := n\<rparr>) = base_ok i cf" "base_ok i (cf\<lparr>cf_fields := fs\<rparr>) = base_ok i cf"
  "base_ok i (cf\<lparr>num_methods := n\<rparr>) = base_ok i cf" "base_ok i (cf\<lparr>cf_methods := ms\<rparr>) = base_ok i cf"
  "base_ok i (cf\<lparr>num_attributes := n\<rparr>) = base_ok i cf" "base_ok i (cf\<lparr>cf_attributes := as\<rparr>) = base_ok i cf"
  "base_ok i (cf\<lparr>inner_classes := ics\<rparr>) = base_ok i cf" "base_ok i (cf\<lparr>source_file := u\<rparr>) = base_ok i cf"
  by (simp_all add: base_ok_def header_ok_def supers_ok_def)

lemma base_ok_interface: "base_ok i cf \<Longrightarrow> of_interface cf = i"
  by (simp add: base_ok_def)

lemma fields_ok_later [simp]:
  "fields_ok i (cf\<lparr>num_methods := n\<rparr>) = fields_ok i cf" "fields_ok i (cf\<lparr>cf_methods := ms\<rparr>) = fields_ok i cf"
  "fields_ok i (cf\<lparr>num_attributes := n\<rparr>) = fields_ok i cf" "fields_ok i (cf\<lparr>cf_attributes := as\<rparr>) = fields_ok i cf"
  "fields_ok i (cf\<lparr>inner_classes := ics\<rparr>) = fields_ok i cf" "fields_ok i (cf\<lparr>source_file := u\<rparr>) = fields_ok i cf"
  by (simp_all add: fields_ok_def)

lemma methods_ok_later [simp]:
  "methods_ok i (cf\<lparr>num_attributes := n\<rparr>) = methods_ok i cf" "methods_ok i (cf\<lparr>cf_attributes := as\<rparr>) = methods_ok i cf"
  "methods_ok i (cf\<lparr>inner_classes := ics\<rparr>) = methods_ok i cf" "methods_ok i (cf\<lparr>source_file := u\<rparr>) = methods_ok i cf"
  by (simp_all add: methods_ok_def)

abbreviation anything :: "classfile \<Rightarrow> bool" where
  "anything \<equiv> \<lambda>_. True"

lemma sorted_elements:
  assumes "filled ok (unat k) k arr" and "comparison cmp"
  shows "\<exists>xs. elements k (map_option (qsort cmp) arr) = Inr xs \<and> list_all ok xs \<and> sorted_wrt (\<lambda>x y. cmp x y \<le> 0) xs"
  using assms(1) comparison.length_qsort [OF assms(2)] comparison.list_all_qsort [OF assms(2)]
    comparison.sorted_qsort [OF assms(2)]
  by (auto simp: filled_def elements_def split: option.splits)

lemma stage_fields_loop:
  "stage anything claims_too_much
     (\<lambda>cf. base_ok b cf \<and> filled (field_ok b) i (num_fields cf) (cf_fields cf) \<and> unat (num_fields cf) = i + n
       \<and> num_methods cf = 0 \<and> cf_methods cf = None \<and> num_attributes cf = 0 \<and> cf_attributes cf = None)
     (fields_loop n i)
     (\<lambda>_ cf. base_ok b cf \<and> filled (field_ok b) (i + n) (num_fields cf) (cf_fields cf) \<and> unat (num_fields cf) = i + n
       \<and> num_methods cf = 0 \<and> cf_methods cf = None \<and> num_attributes cf = 0 \<and> cf_attributes cf = None)"
proof (induction n arbitrary: i)
  case 0
  show ?case by (simp add: stage_ret)
next
  case (Suc n)
  show ?case
    unfolding fields_loop.simps put_field_def
    by (rule stage_bind [OF stage_steady [OF steady_parse_field]], simp,
        rule stage_set_then [OF _ _ stage_weaken [OF Suc.IH [of "Suc i"]]])
      (auto intro: filled_put simp: base_ok_interface)
qed

lemma stage_methods_loop:
  "stage anything claims_too_much
     (\<lambda>cf. base_ok b cf \<and> fields_ok b cf \<and> filled (method_ok b) i (num_methods cf) (cf_methods cf)
       \<and> unat (num_methods cf) = i + n \<and> num_attributes cf = 0 \<and> cf_attributes cf = None)
     (methods_loop n i)
     (\<lambda>_ cf. base_ok b cf \<and> fields_ok b cf \<and> filled (method_ok b) (i + n) (num_methods cf) (cf_methods cf)
       \<and> unat (num_methods cf) = i + n \<and> num_attributes cf = 0 \<and> cf_attributes cf = None)"
proof (induction n arbitrary: i)
  case 0
  show ?case by (simp add: stage_ret)
next
  case (Suc n)
  show ?case
    unfolding methods_loop.simps put_method_def
    by (rule stage_bind [OF stage_steady [OF steady_parse_method]], simp,
        rule stage_set_then [OF _ _ stage_weaken [OF Suc.IH [of "Suc i"]]])
      (auto intro: filled_put simp: base_ok_interface)
qed

abbreviation attributes_at :: "bool \<Rightarrow> nat \<Rightarrow> nat \<Rightarrow> classfile \<Rightarrow> bool" where
  "attributes_at b i k \<equiv> \<lambda>cf. base_ok b cf \<and> fields_ok b cf \<and> methods_ok b cf \<and>
     filled attr_wf i (num_attributes cf) (cf_attributes cf) \<and> unat (num_attributes cf) = k"

lemma attributes_at_put:
  "attributes_at b i k cf \<Longrightarrow> i < k \<Longrightarrow> attr_wf a \<Longrightarrow>
    attributes_at b (Suc i) k (cf\<lparr>cf_attributes := map_option (\<lambda>as. as[i := a]) (cf_attributes cf)\<rparr>)"
  by (auto intro: filled_put)

lemma attributes_at_set:
  "attributes_at b i k cf \<Longrightarrow> attributes_at b i k (cf\<lparr>inner_classes := x\<rparr>)"
  "attributes_at b i k cf \<Longrightarrow> attributes_at b i k (cf\<lparr>source_file := y\<rparr>)"
  by simp_all

lemma stage_class_attribute:
  assumes i: "i < k"
  shows "stage anything claims_too_much (attributes_at b i k) (class_attribute i)
     (\<lambda>a cf. attributes_at b (Suc i) k cf \<and> attr_wf a)"
proof (rule stageI)
  fix s
  assume s: "loaded s" and P: "attributes_at b i k (ps_cfile s)"
  let ?s = "s\<lparr>ps_attr := zero_attr\<rparr>"
  have k: "keeps s ?s" and r: "pool_inv ?s" "mem_limit ?s" "loaded ?s"
    using s by (simp_all add: keeps_def loaded_def ready_def ps_inv_def ps_ok_def mem_limit_def)
  obtain q t where qt: "parse_attribute ?s = (q, t)" by fastforce
  note run = run_attribute [OF r(1,2), unfolded runs_def qt]
  have keep: "loaded t \<and> attributes_at b i k (ps_cfile t)" if "pool_inv t" "keeps ?s t"
    using that s P k
    by (auto simp: keeps_def loaded_def ready_def mem_limit_def)
  show "runs (class_attribute i) s (\<lambda>a t. loaded t \<and> attributes_at b (Suc i) k (ps_cfile t) \<and> attr_wf a)
      (\<lambda>t. anything (ps_cfile t)) claims_too_much"
  proof (cases q)
    case (Inl e)
    with run show ?thesis
      by (cases e) (simp_all add: class_attribute_def thenM_def bindM_def on_failM_def qt put_attr_def
          set_cfile_def runs_def)
  next
    case (Inr u)
    with run have t: "pool_inv t" "keeps ?s t" "attr_wf (ps_attr t)" by simp_all
    let ?cf = "(ps_cfile t)\<lparr>cf_attributes := map_option (\<lambda>as. as[i := ps_attr t]) (cf_attributes (ps_cfile t))\<rparr>"
    have "class_attribute i s = (Inr (ps_attr t), t\<lparr>ps_cfile := ?cf\<rparr>)"
      using Inr by (simp add: class_attribute_def thenM_def bindM_def on_failM_def qt put_attr_def
          set_cfile_def ret_apply)
    moreover have "loaded (t\<lparr>ps_cfile := ?cf\<rparr>)" using keep [OF t(1,2)] by (simp add: loaded_cfile)
    moreover have "attributes_at b (Suc i) k ?cf" using keep [OF t(1,2)] i t(3) by (intro attributes_at_put) auto
    ultimately show ?thesis using t(3) by (simp add: runs_def)
  qed
qed

lemma attr_wf_tables:
  "attr_wf a \<Longrightarrow> attr_name a = Some (c_str ''InnerClasses'') \<Longrightarrow> \<exists>ics. attr_info a = InnerClasses_attr ics"
  "attr_wf a \<Longrightarrow> attr_name a = Some (c_str ''SourceFile'') \<Longrightarrow> \<exists>u. attr_info a = SourceFile_attr u"
  by (auto simp: attr_wf_def info_wf_def)

lemma stage_attributes_loop:
  "i + n = k \<Longrightarrow> stage anything claims_too_much (attributes_at b i k) (attributes_loop n i) (\<lambda>_. attributes_at b k k)"
proof (induction n arbitrary: i)
  case 0
  then show ?case by (simp add: stage_ret)
next
  case (Suc n)
  then have i: "i < k" and rest: "stage anything claims_too_much (attributes_at b (Suc i) k)
      (attributes_loop n (Suc i)) (\<lambda>_. attributes_at b k k)" by simp_all
  show ?case
    unfolding attributes_loop.simps
  proof (rule stage_bind [OF stage_class_attribute [OF i]])
    fix a :: cf_attr
    let ?m = "bindM (liftM (non_null (attr_name a))) (\<lambda>name.
     thenM (if name = c_str ''InnerClasses'' then
              bindM (liftM (union_InnerClasses (attr_info a))) (\<lambda>ics.
                set_cfile (\<lambda>cf. cf\<lparr>inner_classes := Some ics\<rparr>))
            else if name = c_str ''SourceFile'' then
              bindM (liftM (union_SourceFile (attr_info a))) (\<lambda>u.
                set_cfile (\<lambda>cf. cf\<lparr>source_file := Some u\<rparr>))
            else ret ())
       (attributes_loop n (Suc i)))"
    have "stage anything claims_too_much (attributes_at b (Suc i) k) ?m (\<lambda>_. attributes_at b k k)"
      if a: "attr_wf a"
    proof -
      from a obtain name where nm: "attr_name a = Some name" by (auto simp: attr_wf_def)
      show ?thesis
        unfolding nm non_null.simps bindM_liftM_Inr
      proof (rule stage_then [OF _ rest], intro stage_if)
        assume "name = c_str ''InnerClasses''"
        with attr_wf_tables(1) [OF a] nm obtain ics where "attr_info a = InnerClasses_attr ics" by auto
        then show "stage anything claims_too_much (attributes_at b (Suc i) k)
            (bindM (liftM (union_InnerClasses (attr_info a))) (\<lambda>ics.
               set_cfile (\<lambda>cf. cf\<lparr>inner_classes := Some ics\<rparr>))) (\<lambda>_. attributes_at b (Suc i) k)"
          by (simp add: stage_set attributes_at_set)
      next
        assume "name = c_str ''SourceFile''"
        with attr_wf_tables(2) [OF a] nm obtain u where "attr_info a = SourceFile_attr u" by auto
        then show "stage anything claims_too_much (attributes_at b (Suc i) k)
            (bindM (liftM (union_SourceFile (attr_info a))) (\<lambda>u.
               set_cfile (\<lambda>cf. cf\<lparr>source_file := Some u\<rparr>))) (\<lambda>_. attributes_at b (Suc i) k)"
          by (simp add: stage_set attributes_at_set)
      qed (rule stage_ret, assumption)
    qed
    then show "stage anything claims_too_much (\<lambda>cf. attributes_at b (Suc i) k cf \<and> attr_wf a) ?m
        (\<lambda>_. attributes_at b k k)"
      by (auto simp: stage_def)
  qed
qed

section \<open>The parser as a whole\<close>

text \<open>The steps \<open>num = ...; array = zalloc(num);\<close> in front of each loop.\<close>

lemma stage_table:
  assumes start: "\<And>n cf. P cf \<Longrightarrow> PA n (setn n cf)" and none: "\<And>cf. PA 0 cf \<Longrightarrow> PB 0 cf"
    and some: "\<And>n cf. n \<noteq> 0 \<Longrightarrow> PA n cf \<Longrightarrow> PB n (seta n cf)"
    and pool: "\<And>n cf. constants (setn n cf) = constants cf \<and> num_constants (setn n cf) = num_constants cf"
      "\<And>n cf. constants (seta n cf) = constants cf \<and> num_constants (seta n cf) = num_constants cf"
    and rest: "\<And>n. stage anything F (PB n) (rest n) Q"
  shows "stage anything F P (bindM parse_uint16 (\<lambda>n. thenM (set_cfile (setn n)) (
     thenM (if 0 < n then thenM (vm_alloc (f n)) (set_cfile (seta n)) else ret ()) (rest n)))) Q"
proof (rule stage_u16, simp)
  fix n :: u16
  show "stage anything F P (thenM (set_cfile (setn n)) (thenM (if 0 < n then thenM (vm_alloc (f n))
     (set_cfile (seta n)) else ret ()) (rest n))) Q"
  proof (rule stage_set_then [where P' = "PA n"])
  show "stage anything F (PA n) (thenM (if 0 < n then thenM (vm_alloc (f n)) (set_cfile (seta n)) else ret ())
     (rest n)) Q"
  proof (rule stage_then [OF stage_if rest])
    show "stage anything F (PA n) (thenM (vm_alloc (f n)) (set_cfile (seta n))) (\<lambda>_. PB n)" if "0 < n"
      by (rule stage_alloc, simp, rule stage_set) (use that some pool(2) in \<open>simp_all add: word_gt_0\<close>)
    show "stage anything F (PA n) (ret ()) (\<lambda>_. PB n)" if "\<not> 0 < n"
      by (rule stage_ret) (use that none in \<open>simp add: word_gt_0\<close>)
  qed
  qed (use pool(1) start in auto)
qed

lemma stage_fields:
  "stage anything claims_too_much (\<lambda>cf. base_ok b cf \<and> plain cf) parse_fields
     (\<lambda>_ cf. base_ok b cf \<and> fields_ok b cf \<and> num_methods cf = 0 \<and> cf_methods cf = None
       \<and> num_attributes cf = 0 \<and> cf_attributes cf = None)"
  unfolding parse_fields_def
proof (rule stage_table [where
      PA = "\<lambda>n cf. base_ok b cf \<and> cf_fields cf = None \<and> num_fields cf = n \<and> num_methods cf = 0
        \<and> cf_methods cf = None \<and> num_attributes cf = 0 \<and> cf_attributes cf = None" and
      PB = "\<lambda>n cf. base_ok b cf \<and> filled (field_ok b) 0 (num_fields cf) (cf_fields cf) \<and> unat (num_fields cf) = unat n
        \<and> num_methods cf = 0 \<and> cf_methods cf = None \<and> num_attributes cf = 0 \<and> cf_attributes cf = None"])
  fix n :: u16
  show "stage anything claims_too_much
     (\<lambda>cf. base_ok b cf \<and> filled (field_ok b) 0 (num_fields cf) (cf_fields cf) \<and> unat (num_fields cf) = unat n
        \<and> num_methods cf = 0 \<and> cf_methods cf = None \<and> num_attributes cf = 0 \<and> cf_attributes cf = None)
     (thenM (fields_loop (unat n) 0)
       (set_cfile (\<lambda>cf. cf\<lparr>cf_fields := map_option (qsort field_sorter) (cf_fields cf)\<rparr>)))
     (\<lambda>_ cf. base_ok b cf \<and> fields_ok b cf \<and> num_methods cf = 0 \<and> cf_methods cf = None
       \<and> num_attributes cf = 0 \<and> cf_attributes cf = None)"
    by (rule stage_then [OF stage_fields_loop [of b 0, simplified]], rule stage_set)
      (auto simp: fields_ok_def intro: sorted_elements fld.comparison_axioms)
qed (auto simp: plain_def filled_start filled_def)

lemma stage_methods:
  "stage anything claims_too_much (\<lambda>cf. base_ok b cf \<and> fields_ok b cf \<and> num_methods cf = 0
       \<and> cf_methods cf = None \<and> num_attributes cf = 0 \<and> cf_attributes cf = None) parse_methods
     (\<lambda>_ cf. base_ok b cf \<and> fields_ok b cf \<and> methods_ok b cf \<and> num_attributes cf = 0 \<and> cf_attributes cf = None)"
  unfolding parse_methods_def
proof (rule stage_table [where
      PA = "\<lambda>n cf. base_ok b cf \<and> fields_ok b cf \<and> cf_methods cf = None \<and> num_methods cf = n
        \<and> num_attributes cf = 0 \<and> cf_attributes cf = None" and
      PB = "\<lambda>n cf. base_ok b cf \<and> fields_ok b cf \<and> filled (method_ok b) 0 (num_methods cf) (cf_methods cf)
        \<and> unat (num_methods cf) = unat n \<and> num_attributes cf = 0 \<and> cf_attributes cf = None"])
  fix n :: u16
  show "stage anything claims_too_much
     (\<lambda>cf. base_ok b cf \<and> fields_ok b cf \<and> filled (method_ok b) 0 (num_methods cf) (cf_methods cf)
        \<and> unat (num_methods cf) = unat n \<and> num_attributes cf = 0 \<and> cf_attributes cf = None)
     (thenM (methods_loop (unat n) 0)
       (set_cfile (\<lambda>cf. cf\<lparr>cf_methods := map_option (qsort method_sorter) (cf_methods cf)\<rparr>)))
     (\<lambda>_ cf. base_ok b cf \<and> fields_ok b cf \<and> methods_ok b cf \<and> num_attributes cf = 0 \<and> cf_attributes cf = None)"
    by (rule stage_then [OF stage_methods_loop [of b 0, simplified]], rule stage_set)
      (auto simp: methods_ok_def intro: sorted_elements mth.comparison_axioms)
qed (auto simp: filled_start filled_def)

lemma stage_attributes:
  "stage anything claims_too_much (\<lambda>cf. base_ok b cf \<and> fields_ok b cf \<and> methods_ok b cf
       \<and> num_attributes cf = 0 \<and> cf_attributes cf = None) parse_attributes
     (\<lambda>_ cf. base_ok b cf \<and> fields_ok b cf \<and> methods_ok b cf \<and> attributes_ok cf)"
  unfolding parse_attributes_def
proof (rule stage_table [where
      PA = "\<lambda>n cf. base_ok b cf \<and> fields_ok b cf \<and> methods_ok b cf \<and> cf_attributes cf = None
        \<and> num_attributes cf = n" and
      PB = "\<lambda>n. attributes_at b 0 (unat n)"])
  fix n :: u16
  show "stage anything claims_too_much (attributes_at b 0 (unat n)) (attributes_loop (unat n) 0)
     (\<lambda>_ cf. base_ok b cf \<and> fields_ok b cf \<and> methods_ok b cf \<and> attributes_ok cf)"
    by (rule stage_weaken [OF stage_attributes_loop])
      (auto simp: attributes_ok_def intro: filled_elements)
qed (auto simp: filled_start filled_def)

definition class_wf :: "classfile \<Rightarrow> bool" where
  "class_wf cf \<longleftrightarrow> header_ok cf \<and> supers_ok cf \<and> fields_ok (of_interface cf) cf \<and>
     methods_ok (of_interface cf) cf \<and> attributes_ok cf"

lemma stage_gets_any: "stage E F P (gets f) (\<lambda>_. P)"
  by (rule stageI, rule runs_gets) simp

lemma stage_members:
  "stage anything claims_too_much (\<lambda>cf. header_ok cf \<and> supers_ok cf \<and> plain cf) parse_members (\<lambda>_. class_wf)"
proof -
  have "stage anything claims_too_much (\<lambda>cf. base_ok b cf \<and> plain cf) parse_members (\<lambda>_. class_wf)" for b
    unfolding parse_members_def
    by (rule stage_then [OF stage_fields], rule stage_then [OF stage_methods],
        rule stage_then [OF stage_attributes], rule stage_bind [OF stage_gets_any], rule stage_assert)
      (auto simp: class_wf_def base_ok_def)
  then show ?thesis
    unfolding stage_def by (metis base_ok_def)
qed

text \<open>The first steps of the body, on a class file object that has just been zeroed.\<close>

abbreviation zeroed :: "classfile \<Rightarrow> bool" where
  "zeroed \<equiv> \<lambda>cf. plain cf \<and> superclass cf = None \<and> interfaces cf = []"

lemma stage_partial:
  "howmuch \<le> 1 \<Longrightarrow> stage plain F zeroed (parse_classfile_body howmuch)
     (\<lambda>_ cf. plain cf \<and> header_ok cf \<and> (0 < howmuch \<longrightarrow> supers_ok cf))"
  unfolding parse_classfile_body_def
  by (rule stage_then [OF stage_header], rule stage_if, rule stage_ret, simp,
      rule stage_then [OF stage_superclass], rule stage_then [OF stage_interfaces])
    (simp add: stage_ret)

lemma stage_anything: "stage E F P m Q \<Longrightarrow> stage anything F P m Q"
  unfolding stage_def by (blast intro: runs_weaken)

lemma stage_full:
  "1 < howmuch \<Longrightarrow> stage anything claims_too_much zeroed (parse_classfile_body howmuch) (\<lambda>_. class_wf)"
  unfolding parse_classfile_body_def
  by (rule stage_then [OF stage_anything [OF stage_header]], simp,
      rule stage_then [OF stage_anything [OF stage_superclass]],
      rule stage_then [OF stage_anything [OF stage_interfaces]], rule stage_strengthen [OF stage_members]) auto

lemma at_end_members:
  assumes "parse_members s = (Inr u, t)"
  shows "ps_pos t = ps_length t"
  using assms by (auto simp: parse_members_def elim!: thenM_Inr_E bindM_Inr_E)

lemma at_end_body:
  assumes "parse_classfile_body howmuch s = (Inr u, t)" and "1 < howmuch"
  shows "ps_pos t = ps_length t"
  using assms by (auto simp: parse_classfile_body_def elim!: thenM_Inr_E intro: at_end_members)

text \<open>Where the run of \<open>_jc_parse_classfile\<close> is when the class file object has been allocated.\<close>

lemma parse_classfile_steps:
  assumes s: "ps_ok s" "mem_limit s" "ps_base s + unat (ps_length s) < length (ps_buf s)"
  obtains e where "parse_classfile howmuch s = (Inl (Exn e), s\<lparr>ps_nalloc := Suc (ps_nalloc s)\<rparr>)"
  | u where "loaded u" and "zeroed (ps_cfile u)"
    and "parse_classfile howmuch s = on_failM (parse_classfile_body howmuch)
       (bindM (gets ps_cfile) (\<lambda>cf. liftM (destroy_classfile cf))) u"
proof (cases "ps_memok s (ps_nalloc s) 64")
  case True
  let ?u = "s\<lparr>ps_nalloc := Suc (ps_nalloc s), ps_cfile := zero_classfile\<rparr>"
  have "loaded ?u"
    using s by (simp add: loaded_def ready_def ps_inv_def ps_ok_def cpool_typed_def zero_classfile_def mem_limit_def)
  moreover have "zeroed (ps_cfile ?u)" by (simp add: plain_def zero_classfile_def)
  ultimately show ?thesis
    using True by (intro that(2) [of ?u]) (simp_all add: parse_classfile_def vm_alloc_def set_cfile_def)
next
  case False
  then show ?thesis by (intro that(1)) (simp add: parse_classfile_def vm_alloc_def)
qed

text \<open>Destroying a class file whose tables are complete, or not begun.\<close>

lemma free_all_wf: "list_all attr_wf as \<Longrightarrow> free_all as = Inr ()"
  by (induction as) (auto simp: free_attribute_def attr_wf_def)

lemma free_each_wf: "list_all (list_all attr_wf) xs \<Longrightarrow> free_each xs = Inr ()"
  by (induction xs) (simp_all add: free_all_wf)

lemma destroy_wf:
  assumes "class_wf cf"
  shows "destroy_classfile cf = Inr ()"
proof -
  from assms obtain fs ms as where tables: "elements (num_fields cf) (cf_fields cf) = Inr fs"
    "elements (num_methods cf) (cf_methods cf) = Inr ms"
    "elements (num_attributes cf) (cf_attributes cf) = Inr as"
    and ok: "list_all (field_ok (of_interface cf)) fs" "list_all (method_ok (of_interface cf)) ms" "list_all attr_wf as"
    by (auto simp: class_wf_def fields_ok_def methods_ok_def attributes_ok_def)
  have "free_each (map f_attributes fs) = Inr ()" "free_each (map m_attributes ms) = Inr ()" "free_all (rev as) = Inr ()"
    using ok by (auto intro!: free_each_wf free_all_wf simp: list_all_iff field_ok_def method_ok_def)
  with tables show ?thesis by (simp add: destroy_classfile_def)
qed

lemma destroy_plain: "plain cf \<Longrightarrow> destroy_classfile cf = Inr ()"
  by (simp add: plain_def destroy_classfile_def elements_def)

text \<open>
  C1: When \<open>_jc_parse_classfile\<close> parses a whole class file and returns it, the magic number has been
  followed by a supported version, the name and the access flags of the class pass the checks of the
  format, the superclass is missing for \<open>java/lang/Object\<close> only and no supertype is an array, every
  field and method has the flags, the constant value and the code its kind demands, both tables are
  sorted by their sorters, every attribute holds the union member of its name, all bytes have been
  consumed, and destroying the class file follows no null pointer.
\<close>

theorem parse_classfile_wf:
  assumes "ps_ok s" and "mem_limit s" and "ps_base s + unat (ps_length s) < length (ps_buf s)"
    and "1 < howmuch" and r: "parse_classfile howmuch s = (Inr u, t)"
  shows "class_wf (ps_cfile t) \<and> ps_pos t = ps_length t \<and> destroy_classfile (ps_cfile t) = Inr ()"
  using assms(1-3)
proof (cases rule: parse_classfile_steps [where howmuch = howmuch])
  case (2 v)
  then have body: "parse_classfile_body howmuch v = (Inr u, t)"
    using r by (auto simp: on_failM_def split: prod.splits sum.splits failure.splits)
  have "class_wf (ps_cfile t)"
    using runsD_Inr [OF stageD [OF stage_full [OF assms(4)] 2(1,2)] body] by simp
  with at_end_body [OF body assms(4)] destroy_wf show ?thesis by simp
qed (use r in simp)

text \<open>The smallest class that has something of everything: a constant field and an abstract method.\<close>

definition sample_class :: "u8 list" where
  "sample_class =
     [0xca, 0xfe, 0xba, 0xbe, 0, 0, 0, 46, 0, 7,
      1, 0, 1, 65, 7, 0, 1, 1, 0, 1, 73, 1, 0, 13, 67, 111, 110, 115, 116, 97, 110, 116, 86, 97, 108, 117, 101,
      3, 0, 0, 0, 9, 1, 0, 3, 40, 41, 86,
      4, 0, 0, 2, 0, 2, 0, 0,
      0, 1, 0, 8, 0, 1, 0, 3, 0, 1, 0, 4, 0, 0, 0, 2, 0, 5,
      0, 1, 4, 1, 0, 1, 0, 6, 0, 0,
      0, 0]"

theorem parse_classfile_wf_witness:
  "map f_initial_value (the (cf_fields (ps_cfile (snd (parse_classfile 2 (fresh_state (sample_class @ [0])
       (of_nat (length sample_class)))))))) = [Some \<lparr>const_type = CONSTANT_Integer, const_val = Integer_val 9\<rparr>] \<and>
   class_wf (ps_cfile (snd (parse_classfile 2 (fresh_state (sample_class @ [0]) (of_nat (length sample_class))))))"
proof -
  let ?s = "fresh_state (sample_class @ [0]) (of_nat (length sample_class))"
  have r: "fst (parse_classfile 2 ?s) = Inr ()" by code_simp
  have "ps_ok ?s" "mem_limit ?s" "ps_base ?s + unat (ps_length ?s) < length (ps_buf ?s)"
    by (simp_all add: fresh_state_def sample_class_def ps_ok_def mem_limit_def word_less_nat_alt)
  with r have "class_wf (ps_cfile (snd (parse_classfile 2 ?s)))"
    using parse_classfile_wf [of ?s 2 "()" "snd (parse_classfile 2 ?s)"] by (simp add: prod_eq_iff)
  moreover have "map f_initial_value (the (cf_fields (ps_cfile (snd (parse_classfile 2 ?s)))))
      = [Some \<lparr>const_type = CONSTANT_Integer, const_val = Integer_val 9\<rparr>]" by code_simp
  ultimately show ?thesis by simp
qed

text \<open>
  C5: Asked only for the name of the class (\<open>howmuch = 0\<close>) or for its supertypes (\<open>howmuch = 1\<close>), the
  parser makes no access outside the buffer and reads no union through a wrong member, whatever the
  bytes are, as long as one byte behind the class file is readable; on failure the clean-up code does
  not fault either.
\<close>

theorem parse_classfile_partial_safe:
  assumes "ps_ok s" and "mem_limit s" and "ps_base s + unat (ps_length s) < length (ps_buf s)"
    and "howmuch \<le> 1"
  shows "case parse_classfile howmuch s of
      (Inr _, t) \<Rightarrow> header_ok (ps_cfile t) \<and> (0 < howmuch \<longrightarrow> supers_ok (ps_cfile t))
    | (Inl e, t) \<Rightarrow> \<not> is_fault e"
  using assms(1-3)
proof (cases rule: parse_classfile_steps [where howmuch = howmuch])
  case (2 v)
  have run: "runs (parse_classfile_body howmuch) v
     (\<lambda>x t. loaded t \<and> plain (ps_cfile t) \<and> header_ok (ps_cfile t) \<and> (0 < howmuch \<longrightarrow> supers_ok (ps_cfile t)))
     (\<lambda>t. plain (ps_cfile t)) none_of"
    by (rule stageD [OF stage_partial [OF assms(4)] 2(1,2)])
  then show ?thesis
    unfolding 2(3) runs_def on_failM_def
    by (auto simp: destroy_plain liftM_def bindM_def split: prod.splits sum.splits failure.splits)
qed simp

theorem parse_classfile_partial_safe_witness:
  "cf_name (ps_cfile (snd (parse_classfile 1 (fresh_state (sample_class @ [0]) (of_nat (length sample_class))))))
     = c_str ''A'' \<and>
   (case parse_classfile 1 (fresh_state (sample_class @ [0]) (of_nat (length sample_class))) of
      (Inr _, t) \<Rightarrow> header_ok (ps_cfile t) \<and> ((0::int) < 1 \<longrightarrow> supers_ok (ps_cfile t))
    | (Inl e, t) \<Rightarrow> \<not> is_fault e)"
proof
  let ?s = "fresh_state (sample_class @ [0]) (of_nat (length sample_class))"
  show "cf_name (ps_cfile (snd (parse_classfile 1 ?s))) = c_str ''A''" by code_simp
  have "ps_ok ?s" "mem_limit ?s" "ps_base ?s + unat (ps_length ?s) < length (ps_buf ?s)"
    by (simp_all add: fresh_state_def sample_class_def ps_ok_def mem_limit_def word_less_nat_alt)
  then show "case parse_classfile 1 ?s of
      (Inr _, t) \<Rightarrow> header_ok (ps_cfile t) \<and> ((0::int) < 1 \<longrightarrow> supers_ok (ps_cfile t))
    | (Inl e, t) \<Rightarrow> \<not> is_fault e"
    by (rule parse_classfile_partial_safe) simp
qed


end
