(* ===== verification/Splay.thy ===== *)
theory Splay
  imports Jc_Order "HOL-Library.Tree"
begin

text \<open>
  Splay trees, \<open>libjc/splay.c\<close>: top-down splaying on linked nodes that are embedded in the items they
  index. The nodes live in a store of addresses, so that sharing and null pointers are what they are
  in the code; the store is related to binary trees, and the operations to operations on the sorted
  sequence of the items.
\<close>

section \<open>Nodes and links\<close>

type_synonym addr = nat

text \<open>
  A node and the item it is embedded in, at \<open>_JC_NODE2ITEM\<close>: the address of the one stands for the
  address of the other. The field \<open>inserted\<close> exists in debugging builds only.
\<close>

record 'i splay_node =
  sn_left :: "addr option"
  sn_right :: "addr option"
  sn_item :: 'i

text \<open>
  The tree with the memory of its nodes, and the local variable \<open>fixed\<close> of \<open>_jc_splay\<close>, of which
  only the links are used. The comparison function is an argument of the operations.
\<close>

record 'i splay_tree =
  st_nodes :: "addr \<rightharpoonup> 'i splay_node"
  st_root :: "addr option"
  st_size :: int
  fixed_left :: "addr option"
  fixed_right :: "addr option"

text \<open>The variables \<open>left\<close> and \<open>right\<close> (\<open>lft\<close> and \<open>rgt\<close> below) point to \<open>fixed\<close> or to a node.\<close>

datatype link = Fixed | At addr

definition node_at :: "addr \<Rightarrow> ('i splay_tree, 'i splay_node) mon" where
  "node_at a = (\<lambda>s. case st_nodes s a of
     None \<Rightarrow> (Inl (Fault Null_dereference), s) | Some n \<Rightarrow> (Inr n, s))"

definition the_node :: "addr option \<Rightarrow> ('i splay_tree, addr) mon" where
  "the_node p = (case p of None \<Rightarrow> fails (Fault Null_dereference) | Some a \<Rightarrow> ret a)"

definition put_node :: "addr \<Rightarrow> 'i splay_node \<Rightarrow> ('i splay_tree, unit) mon" where
  "put_node a n = modify (\<lambda>s. s\<lparr>st_nodes := (st_nodes s)(a \<mapsto> n)\<rparr>)"

definition set_left :: "link \<Rightarrow> addr option \<Rightarrow> ('i splay_tree, unit) mon" where
  "set_left l p = (case l of Fixed \<Rightarrow> modify (\<lambda>s. s\<lparr>fixed_left := p\<rparr>)
     | At a \<Rightarrow> bindM (node_at a) (\<lambda>n. put_node a (n\<lparr>sn_left := p\<rparr>)))"

definition set_right :: "link \<Rightarrow> addr option \<Rightarrow> ('i splay_tree, unit) mon" where
  "set_right l p = (case l of Fixed \<Rightarrow> modify (\<lambda>s. s\<lparr>fixed_right := p\<rparr>)
     | At a \<Rightarrow> bindM (node_at a) (\<lambda>n. put_node a (n\<lparr>sn_right := p\<rparr>)))"

section \<open>Splaying\<close>

definition rotate_right :: "addr \<Rightarrow> addr \<Rightarrow> ('i splay_tree, unit) mon" where
  "rotate_right node temp = bindM (node_at temp) (\<lambda>t.
     thenM (set_left (At node) (sn_right t)) (set_right (At temp) (Some node)))"

definition rotate_left :: "addr \<Rightarrow> addr \<Rightarrow> ('i splay_tree, unit) mon" where
  "rotate_left node temp = bindM (node_at temp) (\<lambda>t.
     thenM (set_right (At node) (sn_left t)) (set_left (At temp) (Some node)))"

text \<open>The steps marked \<open>link right\<close> and \<open>link left\<close>: the next node of the search.\<close>

definition link_right :: "link \<Rightarrow> addr \<Rightarrow> ('i splay_tree, addr option) mon" where
  "link_right rgt node = thenM (set_left rgt (Some node)) (
     bindM (node_at node) (\<lambda>n. ret (sn_left n)))"

definition link_left :: "link \<Rightarrow> addr \<Rightarrow> ('i splay_tree, addr option) mon" where
  "link_left lft node = thenM (set_right lft (Some node)) (
     bindM (node_at node) (\<lambda>n. ret (sn_right n)))"

text \<open>The loop: \<open>left\<close>, \<open>right\<close>, \<open>node\<close> and \<open>*match\<close> at its end. The first argument is fuel.\<close>

fun splay_loop :: "nat \<Rightarrow> ('i \<Rightarrow> 'i \<Rightarrow> int) \<Rightarrow> 'i \<Rightarrow> link \<Rightarrow> link \<Rightarrow> addr option \<Rightarrow>
    ('i splay_tree, link \<times> link \<times> addr option \<times> bool) mon" where
  "splay_loop 0 cmp key lft rgt node = fails (Fault Out_of_fuel)"
| "splay_loop (Suc fuel) cmp key lft rgt None = ret (lft, rgt, None, False)"
| "splay_loop (Suc fuel) cmp key lft rgt (Some node) =
     bindM (node_at node) (\<lambda>n.
     if cmp key (sn_item n) < 0 then
       (case sn_left n of None \<Rightarrow> ret (lft, rgt, Some node, False)
        | Some temp \<Rightarrow> bindM (node_at temp) (\<lambda>t.
            if cmp key (sn_item t) < 0 then
              thenM (rotate_right node temp) (bindM (node_at temp) (\<lambda>t'.
                if sn_left t' = None then ret (lft, rgt, Some temp, False)
                else bindM (link_right rgt temp) (splay_loop fuel cmp key lft (At temp))))
            else bindM (link_right rgt node) (splay_loop fuel cmp key lft (At node))))
     else if 0 < cmp key (sn_item n) then
       (case sn_right n of None \<Rightarrow> ret (lft, rgt, Some node, False)
        | Some temp \<Rightarrow> bindM (node_at temp) (\<lambda>t.
            if 0 < cmp key (sn_item t) then
              thenM (rotate_left node temp) (bindM (node_at temp) (\<lambda>t'.
                if sn_right t' = None then ret (lft, rgt, Some temp, False)
                else bindM (link_left lft temp) (splay_loop fuel cmp key (At temp) rgt)))
            else bindM (link_left lft node) (splay_loop fuel cmp key (At node) rgt)))
     else ret (lft, rgt, Some node, True))"

definition reassemble :: "link \<Rightarrow> link \<Rightarrow> addr \<Rightarrow> ('i splay_tree, unit) mon" where
  "reassemble lft rgt node =
     bindM (node_at node) (\<lambda>n. thenM (set_right lft (sn_left n)) (
     bindM (node_at node) (\<lambda>n. thenM (set_left rgt (sn_right n)) (
     bindM (gets fixed_right) (\<lambda>p. thenM (set_left (At node) p) (
     bindM (gets fixed_left) (\<lambda>p. set_right (At node) p)))))))"

text \<open>\<open>_jc_splay\<close>: the new root of the sub-tree, and \<open>*match\<close>. Every turn of the loop goes down one level.\<close>

definition splay :: "('i \<Rightarrow> 'i \<Rightarrow> int) \<Rightarrow> 'i \<Rightarrow> addr option \<Rightarrow> ('i splay_tree, addr option \<times> bool) mon" where
  "splay cmp key node =
     thenM (modify (\<lambda>s. s\<lparr>fixed_left := None, fixed_right := None\<rparr>)) (
     if node = None then ret (None, False)
     else bindM (gets (\<lambda>s. Suc (nat (st_size s)))) (\<lambda>fuel.
       bindM (splay_loop fuel cmp key Fixed Fixed node) (\<lambda>(lft, rgt, node', match).
       bindM (the_node node') (\<lambda>a.
       thenM (reassemble lft rgt a) (ret (Some a, match))))))"

section \<open>Operations\<close>

definition splay_init :: "(addr \<rightharpoonup> 'i splay_node) \<Rightarrow> 'i splay_tree" where
  "splay_init nodes = \<lparr>st_nodes = nodes, st_root = None, st_size = 0, fixed_left = None, fixed_right = None\<rparr>"

definition set_root :: "addr option \<Rightarrow> ('i splay_tree, unit) mon" where
  "set_root p = modify (\<lambda>s. s\<lparr>st_root := p\<rparr>)"

definition splay_find :: "('i \<Rightarrow> 'i \<Rightarrow> int) \<Rightarrow> 'i \<Rightarrow> ('i splay_tree, addr option) mon" where
  "splay_find cmp item =
     bindM (gets st_root) (\<lambda>root.
     bindM (splay cmp item root) (\<lambda>(root', match).
     thenM (set_root root') (ret (if match then root' else None))))"

text \<open>\<open>_jc_splay_insert\<close> of the item at an address.\<close>

definition splay_insert :: "('i \<Rightarrow> 'i \<Rightarrow> int) \<Rightarrow> addr \<Rightarrow> ('i splay_tree, unit) mon" where
  "splay_insert cmp new_node =
     bindM (node_at new_node) (\<lambda>new.
     bindM (gets st_root) (\<lambda>root.
     thenM
       (if root = None then thenM (set_left (At new_node) None) (set_right (At new_node) None)
        else bindM (splay cmp (sn_item new) root) (\<lambda>(root', match).
          thenM (set_root root') (
          bindM (the_node root') (\<lambda>r.
          bindM (node_at r) (\<lambda>n.
          if cmp (sn_item new) (sn_item n) < 0 then
            thenM (set_left (At new_node) (sn_left n)) (
            thenM (set_right (At new_node) (Some r)) (set_left (At r) None))
          else
            thenM (set_right (At new_node) (sn_right n)) (
            thenM (set_left (At new_node) (Some r)) (set_right (At r) None)))))))
       (modify (\<lambda>s. s\<lparr>st_root := Some new_node, st_size := st_size s + 1\<rparr>))))"

definition splay_remove :: "('i \<Rightarrow> 'i \<Rightarrow> int) \<Rightarrow> 'i \<Rightarrow> ('i splay_tree, unit) mon" where
  "splay_remove cmp item =
     bindM (gets st_root) (\<lambda>root.
     bindM (splay cmp item root) (\<lambda>(root', found).
     bindM (the_node root') (\<lambda>r.
     bindM (node_at r) (\<lambda>n.
     bindM (if sn_left n = None then ret (sn_right n)
            else bindM (splay cmp item (sn_left n)) (\<lambda>(new_root, found').
              bindM (the_node new_root) (\<lambda>w.
              bindM (node_at r) (\<lambda>n'.
              thenM (set_right (At w) (sn_right n')) (ret new_root))))) (\<lambda>new_root.
     modify (\<lambda>s. s\<lparr>st_root := new_root, st_size := st_size s - 1\<rparr>))))))"

text \<open>
  \<open>_jc_splay_list\<close>: the array is the stack, which grows upward, and the list, which grows downward.
\<close>

fun list_loop :: "nat \<Rightarrow> nat \<Rightarrow> nat \<Rightarrow> addr option \<Rightarrow> addr list \<Rightarrow> ('i splay_tree, addr list) mon" where
  "list_loop 0 depth nxt node stack = fails (Fault Out_of_fuel)"
| "list_loop (Suc fuel) depth nxt (Some a) stack =
     bindM (liftM (store stack depth a)) (\<lambda>stack'.
     bindM (node_at a) (\<lambda>n. list_loop fuel (Suc depth) nxt (sn_right n) stack'))"
| "list_loop (Suc fuel) depth nxt None stack =
    (if depth = 0 then ret stack
     else bindM (liftM (load stack (depth - 1))) (\<lambda>a.
       if nxt = 0 then fails (Fault Out_of_bounds)
       else bindM (liftM (store stack (nxt - 1) a)) (\<lambda>stack'.
         bindM (node_at a) (\<lambda>n. list_loop fuel (depth - 1) (nxt - 1) (sn_left n) stack'))))"

definition splay_list :: "addr list \<Rightarrow> ('i splay_tree, addr list) mon" where
  "splay_list items = bindM (gets (\<lambda>s. (nat (st_size s), st_root s))) (\<lambda>(n, root).
     list_loop (2 * n + 1) 0 n root items)"

section \<open>Splaying a binary tree\<close>

text \<open>
  The same search on trees. What has been linked to the left and to the right is a list of nodes with
  their outer sub-tree, the last one linked first.
\<close>

type_synonym 'x ctx = "('x \<times> 'x tree) list"

inductive search :: "('x \<Rightarrow> int) \<Rightarrow> 'x ctx \<Rightarrow> 'x ctx \<Rightarrow> 'x tree \<Rightarrow> 'x ctx \<Rightarrow> 'x ctx \<Rightarrow> 'x tree \<Rightarrow> bool \<Rightarrow> bool"
  for d :: "'x \<Rightarrow> int" where
  found: "d x = 0 \<Longrightarrow> search d L R (Node l x r) L R (Node l x r) True"
| right_end: "d x < 0 \<Longrightarrow> search d L R (Node Leaf x r) L R (Node Leaf x r) False"
| right_right_end: "d x < 0 \<Longrightarrow> d y < 0 \<Longrightarrow>
    search d L R (Node (Node Leaf y lr) x r) L R (Node Leaf y (Node lr x r)) False"
| right_right: "d x < 0 \<Longrightarrow> d y < 0 \<Longrightarrow> ll \<noteq> Leaf \<Longrightarrow> search d L ((y, Node lr x r) # R) ll L' R' t m \<Longrightarrow>
    search d L R (Node (Node ll y lr) x r) L' R' t m"
| right_link: "d x < 0 \<Longrightarrow> \<not> d y < 0 \<Longrightarrow> search d L ((x, r) # R) (Node ll y lr) L' R' t m \<Longrightarrow>
    search d L R (Node (Node ll y lr) x r) L' R' t m"
| left_end: "0 < d x \<Longrightarrow> search d L R (Node l x Leaf) L R (Node l x Leaf) False"
| left_left_end: "0 < d x \<Longrightarrow> 0 < d y \<Longrightarrow>
    search d L R (Node l x (Node rl y Leaf)) L R (Node (Node l x rl) y Leaf) False"
| left_left: "0 < d x \<Longrightarrow> 0 < d y \<Longrightarrow> rr \<noteq> Leaf \<Longrightarrow> search d ((y, Node l x rl) # L) R rr L' R' t m \<Longrightarrow>
    search d L R (Node l x (Node rl y rr)) L' R' t m"
| left_link: "0 < d x \<Longrightarrow> \<not> 0 < d y \<Longrightarrow> search d ((x, l) # L) R (Node rl y rr) L' R' t m \<Longrightarrow>
    search d L R (Node l x (Node rl y rr)) L' R' t m"

text \<open>The search always ends, because it goes down.\<close>

lemma search_ends: "t \<noteq> Leaf \<Longrightarrow> \<exists>L' R' t' m. search d L R t L' R' t' m"
proof (induction t arbitrary: L R rule: measure_induct_rule [of size])
  case (less t)
  then obtain l x r where t: "t = Node l x r" by (cases t) auto
  consider "d x = 0" | "d x < 0" | "0 < d x" by linarith
  then show ?case
  proof cases
    case 1
    then show ?thesis unfolding t by (blast intro: search.intros)
  next
    case 2
    show ?thesis
    proof (cases l)
      case (Node ll y lr)
      with less.IH [of ll] less.IH [of "Node ll y lr"] 2 show ?thesis
        unfolding t by (cases "d y < 0"; cases "ll = Leaf") (fastforce intro: search.intros)+
    qed (use 2 t in \<open>blast intro: search.intros\<close>)
  next
    case 3
    show ?thesis
    proof (cases r)
      case (Node rl y rr)
      with less.IH [of rr] less.IH [of "Node rl y rr"] 3 show ?thesis
        unfolding t by (cases "0 < d y"; cases "rr = Leaf") (fastforce intro: search.intros)+
    qed (use 3 t in \<open>blast intro: search.intros\<close>)
  qed
qed

fun build_left :: "'x ctx \<Rightarrow> 'x tree \<Rightarrow> 'x tree" where
  "build_left [] t = t"
| "build_left ((x, l) # L) t = build_left L (Node l x t)"

fun build_right :: "'x ctx \<Rightarrow> 'x tree \<Rightarrow> 'x tree" where
  "build_right [] t = t"
| "build_right ((x, r) # R) t = build_right R (Node t x r)"

text \<open>The items of a context, in order.\<close>

fun items_left :: "'x ctx \<Rightarrow> 'x list" where
  "items_left [] = []"
| "items_left ((x, l) # L) = items_left L @ inorder l @ [x]"

fun items_right :: "'x ctx \<Rightarrow> 'x list" where
  "items_right [] = []"
| "items_right ((x, r) # R) = x # inorder r @ items_right R"

lemma inorder_build_left: "inorder (build_left L t) = items_left L @ inorder t"
  by (induction L t rule: build_left.induct) auto

lemma inorder_build_right: "inorder (build_right R t) = inorder t @ items_right R"
  by (induction R t rule: build_right.induct) auto

lemma search_items:
  "search d L R t L' R' t' m \<Longrightarrow>
     items_left L' @ inorder t' @ items_right R' = items_left L @ inorder t @ items_right R"
  by (induction rule: search.induct) auto

text \<open>
  A key cuts a sequence: once it is not above an item, it is below all later ones. Then the search
  leaves smaller items on the left and larger ones on the right.
\<close>

definition cut :: "('x \<Rightarrow> int) \<Rightarrow> 'x list \<Rightarrow> bool" where
  "cut d xs \<longleftrightarrow> sorted_wrt (\<lambda>x y. d x \<le> 0 \<longrightarrow> d y < 0) xs"

lemma search_sides:
  assumes "search d L R t L' R' t' m" and "cut d (inorder t)"
    and "\<forall>x \<in> set (items_left L). 0 < d x" and "\<forall>x \<in> set (items_right R). d x < 0"
  shows "(\<forall>x \<in> set (items_left L'). 0 < d x) \<and> (\<forall>x \<in> set (items_right R'). d x < 0)"
  using assms
  by (induction rule: search.induct) (fastforce simp: cut_def sorted_wrt_append)+

text \<open>Where the search can stop.\<close>

lemma search_stops:
  "search d L R t L' R' t' m \<Longrightarrow>
     \<exists>l x r. t' = Node l x r \<and> (if m then d x = 0 else (d x < 0 \<and> l = Leaf) \<or> (0 < d x \<and> r = Leaf))"
  by (induction rule: search.induct) auto

section \<open>Trees and contexts in the store\<close>

type_synonym 'i nodes = "addr \<rightharpoonup> 'i splay_node"

fun tree_at :: "'i nodes \<Rightarrow> addr option \<Rightarrow> (addr \<times> 'i) tree \<Rightarrow> bool" where
  "tree_at ns p Leaf \<longleftrightarrow> p = None"
| "tree_at ns p (Node l (a, i) r) \<longleftrightarrow> p = Some a \<and>
     (\<exists>lp rp. ns a = Some \<lparr>sn_left = lp, sn_right = rp, sn_item = i\<rparr> \<and> tree_at ns lp l \<and> tree_at ns rp r)"

text \<open>The variable that points to the last node of a context, and the link that hangs on it.\<close>

fun hook :: "(addr \<times> 'i) ctx \<Rightarrow> link" where
  "hook [] = Fixed"
| "hook (((a, i), t) # C) = At a"

fun slot_left :: "'i nodes \<Rightarrow> addr option \<Rightarrow> (addr \<times> 'i) ctx \<Rightarrow> addr option" where
  "slot_left ns fx [] = fx"
| "slot_left ns fx (((a, i), t) # C) = (case ns a of None \<Rightarrow> None | Some n \<Rightarrow> sn_left n)"

fun slot_right :: "'i nodes \<Rightarrow> addr option \<Rightarrow> (addr \<times> 'i) ctx \<Rightarrow> addr option" where
  "slot_right ns fx [] = fx"
| "slot_right ns fx (((a, i), t) # C) = (case ns a of None \<Rightarrow> None | Some n \<Rightarrow> sn_right n)"

fun left_at :: "'i nodes \<Rightarrow> addr option \<Rightarrow> (addr \<times> 'i) ctx \<Rightarrow> bool" where
  "left_at ns fx [] \<longleftrightarrow> True"
| "left_at ns fx (((a, i), t) # C) \<longleftrightarrow> slot_right ns fx C = Some a \<and> left_at ns fx C \<and>
     (\<exists>lp rp. ns a = Some \<lparr>sn_left = lp, sn_right = rp, sn_item = i\<rparr> \<and> tree_at ns lp t)"

fun right_at :: "'i nodes \<Rightarrow> addr option \<Rightarrow> (addr \<times> 'i) ctx \<Rightarrow> bool" where
  "right_at ns fx [] \<longleftrightarrow> True"
| "right_at ns fx (((a, i), t) # C) \<longleftrightarrow> slot_left ns fx C = Some a \<and> right_at ns fx C \<and>
     (\<exists>lp rp. ns a = Some \<lparr>sn_left = lp, sn_right = rp, sn_item = i\<rparr> \<and> tree_at ns rp t)"

text \<open>They depend on their own nodes only.\<close>

lemma tree_at_other [simp]: "a \<notin> fst ` set (inorder t) \<Longrightarrow> tree_at (ns(a := n)) p t = tree_at ns p t"
  by (induction ns p t rule: tree_at.induct) (auto simp: image_Un)

lemma slot_other [simp]:
  "a \<notin> fst ` set (items_right C) \<Longrightarrow> slot_left (ns(a := n)) fx C = slot_left ns fx C"
  "a \<notin> fst ` set (items_left C) \<Longrightarrow> slot_right (ns(a := n)) fx C = slot_right ns fx C"
  by (cases "(ns, fx, C)" rule: slot_left.cases; simp)+

lemma left_at_other [simp]: "a \<notin> fst ` set (items_left C) \<Longrightarrow> left_at (ns(a := n)) fx C = left_at ns fx C"
  by (induction ns fx C rule: left_at.induct) (auto simp: image_Un)

lemma right_at_other [simp]: "a \<notin> fst ` set (items_right C) \<Longrightarrow> right_at (ns(a := n)) fx C = right_at ns fx C"
  by (induction ns fx C rule: right_at.induct) (auto simp: image_Un)

section \<open>The steps of the loop\<close>

lemma node_at_Some [simp]: "st_nodes s a = Some n \<Longrightarrow> node_at a s = (Inr n, s)"
  by (simp add: node_at_def)

lemma set_links [simp]:
  "set_left Fixed p s = (Inr (), s\<lparr>fixed_left := p\<rparr>)"
  "set_right Fixed p s = (Inr (), s\<lparr>fixed_right := p\<rparr>)"
  "st_nodes s a = Some n \<Longrightarrow> set_left (At a) p s = (Inr (), s\<lparr>st_nodes := (st_nodes s)(a \<mapsto> n\<lparr>sn_left := p\<rparr>)\<rparr>)"
  "st_nodes s a = Some n \<Longrightarrow> set_right (At a) p s = (Inr (), s\<lparr>st_nodes := (st_nodes s)(a \<mapsto> n\<lparr>sn_right := p\<rparr>)\<rparr>)"
  by (simp_all add: set_left_def set_right_def put_node_def bindM_def)

text \<open>
  The situation in the middle of a search: two contexts and a sub-tree in the store, all nodes
  distinct, and the nodes outside of them, the root and the size as they were in \<open>s0\<close>.
\<close>

definition seq :: "'x ctx \<Rightarrow> 'x tree \<Rightarrow> 'x ctx \<Rightarrow> 'x list" where
  "seq L t R = items_left L @ inorder t @ items_right R"

definition apart :: "'i splay_tree \<Rightarrow> addr set \<Rightarrow> 'i splay_tree \<Rightarrow> bool" where
  "apart s A t \<longleftrightarrow> (\<forall>a. a \<notin> A \<longrightarrow> st_nodes t a = st_nodes s a) \<and> st_root t = st_root s \<and> st_size t = st_size s"

definition scene ::
  "'i splay_tree \<Rightarrow> 'i splay_tree \<Rightarrow> (addr \<times> 'i) ctx \<Rightarrow> addr option \<Rightarrow> (addr \<times> 'i) tree \<Rightarrow> (addr \<times> 'i) ctx \<Rightarrow> bool"
where
  "scene s0 s L p t R \<longleftrightarrow> distinct (map fst (seq L t R)) \<and> tree_at (st_nodes s) p t \<and> left_at (st_nodes s) (fixed_right s) L \<and>
     right_at (st_nodes s) (fixed_left s) R \<and>
     apart s0 (fst ` set (seq L t R)) s"

lemma rotate_right_step:
  assumes "scene s0 s L (Some a) (Node (Node ll (b, j) lr) (a, i) r) R"
  shows "\<exists>s'. rotate_right a b s = (Inr (), s') \<and> scene s0 s' L (Some b) (Node ll (b, j) (Node lr (a, i) r)) R"
proof -
  from assms obtain lp rp lp' rp' where a: "st_nodes s a = Some \<lparr>sn_left = Some b, sn_right = rp, sn_item = i\<rparr>"
    and b: "st_nodes s b = Some \<lparr>sn_left = lp', sn_right = rp', sn_item = j\<rparr>"
    by (auto simp: scene_def)
  with assms have ab: "a \<noteq> b" by (auto simp: scene_def seq_def)
  let ?s = "s\<lparr>st_nodes := (st_nodes s)(a \<mapsto> \<lparr>sn_left = rp', sn_right = rp, sn_item = i\<rparr>,
      b \<mapsto> \<lparr>sn_left = lp', sn_right = Some a, sn_item = j\<rparr>)\<rparr>"
  have "rotate_right a b s = (Inr (), ?s)" using a b ab by (simp add: rotate_right_def)
  moreover have "scene s0 ?s L (Some b) (Node ll (b, j) (Node lr (a, i) r)) R"
    using assms a b ab by (auto simp: scene_def seq_def apart_def image_Un)
  ultimately show ?thesis by blast
qed

lemma rotate_left_step:
  assumes "scene s0 s L (Some a) (Node l (a, i) (Node rl (b, j) rr)) R"
  shows "\<exists>s'. rotate_left a b s = (Inr (), s') \<and> scene s0 s' L (Some b) (Node (Node l (a, i) rl) (b, j) rr) R"
proof -
  from assms obtain lp rp lp' rp' where a: "st_nodes s a = Some \<lparr>sn_left = lp, sn_right = Some b, sn_item = i\<rparr>"
    and b: "st_nodes s b = Some \<lparr>sn_left = lp', sn_right = rp', sn_item = j\<rparr>"
    by (auto simp: scene_def)
  with assms have ab: "a \<noteq> b" by (auto simp: scene_def seq_def)
  let ?s = "s\<lparr>st_nodes := (st_nodes s)(a \<mapsto> \<lparr>sn_left = lp, sn_right = lp', sn_item = i\<rparr>,
      b \<mapsto> \<lparr>sn_left = Some a, sn_right = rp', sn_item = j\<rparr>)\<rparr>"
  have "rotate_left a b s = (Inr (), ?s)" using a b ab by (simp add: rotate_left_def)
  moreover have "scene s0 ?s L (Some b) (Node (Node l (a, i) rl) (b, j) rr) R"
    using assms a b ab by (auto simp: scene_def seq_def apart_def image_Un)
  ultimately show ?thesis by blast
qed

lemma link_right_step:
  assumes "scene s0 s L (Some a) (Node l (a, i) r) R"
  shows "\<exists>s' p. link_right (hook R) a s = (Inr p, s') \<and> scene s0 s' L p l (((a, i), r) # R)"
proof -
  from assms obtain lp rp where a: "st_nodes s a = Some \<lparr>sn_left = lp, sn_right = rp, sn_item = i\<rparr>"
    by (auto simp: scene_def)
  show ?thesis
  proof (cases R)
    case Nil
    have "link_right (hook R) a s = (Inr lp, s\<lparr>fixed_left := Some a\<rparr>)"
      using a Nil by (simp add: link_right_def)
    moreover have "scene s0 (s\<lparr>fixed_left := Some a\<rparr>) L lp l (((a, i), r) # R)"
      using assms a Nil by (auto simp: scene_def seq_def apart_def)
    ultimately show ?thesis by blast
  next
    case (Cons x R')
    obtain b j u where x: "x = ((b, j), u)" by (metis surj_pair)
    from assms Cons x obtain lb rb where b: "st_nodes s b = Some \<lparr>sn_left = lb, sn_right = rb, sn_item = j\<rparr>"
      and ab: "a \<noteq> b" by (auto simp: scene_def seq_def)
    let ?s = "s\<lparr>st_nodes := (st_nodes s)(b \<mapsto> \<lparr>sn_left = Some a, sn_right = rb, sn_item = j\<rparr>)\<rparr>"
    have "link_right (hook R) a s = (Inr lp, ?s)"
      using a b ab Cons x by (simp add: link_right_def)
    moreover have "scene s0 ?s L lp l (((a, i), r) # R)"
      using assms a b ab Cons x by (auto simp: scene_def seq_def apart_def image_Un)
    ultimately show ?thesis by blast
  qed
qed

lemma link_left_step:
  assumes "scene s0 s L (Some a) (Node l (a, i) r) R"
  shows "\<exists>s' p. link_left (hook L) a s = (Inr p, s') \<and> scene s0 s' (((a, i), l) # L) p r R"
proof -
  from assms obtain lp rp where a: "st_nodes s a = Some \<lparr>sn_left = lp, sn_right = rp, sn_item = i\<rparr>"
    by (auto simp: scene_def)
  show ?thesis
  proof (cases L)
    case Nil
    have "link_left (hook L) a s = (Inr rp, s\<lparr>fixed_right := Some a\<rparr>)"
      using a Nil by (simp add: link_left_def)
    moreover have "scene s0 (s\<lparr>fixed_right := Some a\<rparr>) (((a, i), l) # L) rp r R"
      using assms a Nil by (auto simp: scene_def seq_def apart_def)
    ultimately show ?thesis by blast
  next
    case (Cons x L')
    obtain b j u where x: "x = ((b, j), u)" by (metis surj_pair)
    from assms Cons x obtain lb rb where b: "st_nodes s b = Some \<lparr>sn_left = lb, sn_right = rb, sn_item = j\<rparr>"
      and ab: "a \<noteq> b" by (auto simp: scene_def seq_def)
    let ?s = "s\<lparr>st_nodes := (st_nodes s)(b \<mapsto> \<lparr>sn_left = lb, sn_right = Some a, sn_item = j\<rparr>)\<rparr>"
    have "link_left (hook L) a s = (Inr rp, ?s)"
      using a b ab Cons x by (simp add: link_left_def)
    moreover have "scene s0 ?s (((a, i), l) # L) rp r R"
      using assms a b ab Cons x by (auto simp: scene_def seq_def apart_def image_Un)
    ultimately show ?thesis by blast
  qed
qed

lemma tree_at_None [simp]: "tree_at ns None t \<longleftrightarrow> t = Leaf"
  by (cases t) (auto elim: tree_at.elims)

lemma tree_at_link: "tree_at ns p t \<Longrightarrow> p = None \<longleftrightarrow> t = Leaf"
  by (cases t) (auto elim: tree_at.elims)

lemma scene_node:
  assumes "scene s0 s L p (Node l (a, i) r) R"
  obtains lp rp where "p = Some a" and "st_nodes s a = Some \<lparr>sn_left = lp, sn_right = rp, sn_item = i\<rparr>"
    and "tree_at (st_nodes s) lp l" and "tree_at (st_nodes s) rp r"
  using assms that by (auto simp: scene_def)

text \<open>
  The loop, run on a scene, finds what the search on trees finds, and ends in a scene.
\<close>

lemma splay_loop_search:
  assumes "search (\<lambda>x. cmp key (snd x)) L R t L' R' t' m" and "scene s0 s L p t R" and "size t \<le> fuel"
  shows "\<exists>s' a. splay_loop (Suc fuel) cmp key (hook L) (hook R) p s = (Inr (hook L', hook R', Some a, m), s')
    \<and> scene s0 s' L' (Some a) t' R'"
  using assms
proof (induction arbitrary: s p fuel rule: search.induct)
  case (found x L R l r)
  obtain a i where x: "x = (a, i)" by fastforce
  obtain lp rp where "p = Some a" "st_nodes s a = Some \<lparr>sn_left = lp, sn_right = rp, sn_item = i\<rparr>"
    by (rule scene_node [OF found(2) [unfolded x]])
  with found x show ?case by simp
next
  case (right_end x L R r)
  obtain a i where x: "x = (a, i)" by fastforce
  obtain lp rp where "p = Some a" "st_nodes s a = Some \<lparr>sn_left = lp, sn_right = rp, sn_item = i\<rparr>" "lp = None"
    by (rule scene_node [OF right_end(2) [unfolded x]]) simp
  with right_end x show ?case by simp
next
  case (left_end x L R l)
  obtain a i where x: "x = (a, i)" by fastforce
  obtain lp rp where "p = Some a" "st_nodes s a = Some \<lparr>sn_left = lp, sn_right = rp, sn_item = i\<rparr>" "rp = None"
    by (rule scene_node [OF left_end(2) [unfolded x]]) simp
  with left_end x show ?case by simp
next
  case (right_right_end x y L R lr r)
  obtain a i b j where x: "x = (a, i)" and y: "y = (b, j)" by fastforce
  note sc = right_right_end(3) [unfolded x y]
  obtain lp rp lq rq where a: "p = Some a" "st_nodes s a = Some \<lparr>sn_left = Some b, sn_right = rp, sn_item = i\<rparr>"
    and b: "st_nodes s b = Some \<lparr>sn_left = lq, sn_right = rq, sn_item = j\<rparr>"
    by (rule scene_node [OF sc]) auto
  obtain s1 where r: "rotate_right a b s = (Inr (), s1)" and sc1: "scene s0 s1 L (Some b) (Node Leaf (b, j) (Node lr (a, i) r)) R"
    using rotate_right_step [OF sc [unfolded a(1)]] by blast
  obtain l1 r1 where "st_nodes s1 b = Some \<lparr>sn_left = l1, sn_right = r1, sn_item = j\<rparr>" "l1 = None"
    by (rule scene_node [OF sc1]) simp
  with right_right_end(1,2) a b r sc1 x y show ?case by simp
next
  case (right_right x y ll L lr r R L' R' t m)
  obtain a i b j where x: "x = (a, i)" and y: "y = (b, j)" by fastforce
  note sc = right_right.prems(1) [unfolded x y]
  obtain lp rp lq rq where a: "p = Some a" "st_nodes s a = Some \<lparr>sn_left = Some b, sn_right = rp, sn_item = i\<rparr>"
    and b: "st_nodes s b = Some \<lparr>sn_left = lq, sn_right = rq, sn_item = j\<rparr>"
    by (rule scene_node [OF sc]) auto
  obtain s1 where r: "rotate_right a b s = (Inr (), s1)" and sc1: "scene s0 s1 L (Some b) (Node ll (b, j) (Node lr (a, i) r)) R"
    using rotate_right_step [OF sc [unfolded a(1)]] by blast
  obtain l1 r1 where b1: "st_nodes s1 b = Some \<lparr>sn_left = l1, sn_right = r1, sn_item = j\<rparr>" "l1 \<noteq> None"
    by (rule scene_node [OF sc1]) (use right_right(3) tree_at_link in blast)
  obtain s2 q where lk: "link_right (hook R) b s1 = (Inr q, s2)" and sc2: "scene s0 s2 L q ll (((b, j), Node lr (a, i) r) # R)"
    using link_right_step [OF sc1] by blast
  obtain k where k: "fuel = Suc k" "size ll \<le> k" using right_right.prems(2) by (cases fuel) auto
  from right_right.IH [unfolded x y, OF sc2 k(2)] right_right.hyps(1,2) x y a b r b1 lk k(1) show ?case by auto
next
  case (right_link x y L r R ll lr L' R' t m)
  obtain a i b j where x: "x = (a, i)" and y: "y = (b, j)" by fastforce
  note sc = right_link.prems(1) [unfolded x y]
  obtain lp rp lq rq where a: "p = Some a" "st_nodes s a = Some \<lparr>sn_left = Some b, sn_right = rp, sn_item = i\<rparr>"
    and b: "st_nodes s b = Some \<lparr>sn_left = lq, sn_right = rq, sn_item = j\<rparr>"
    by (rule scene_node [OF sc]) auto
  obtain s2 q where lk: "link_right (hook R) a s = (Inr q, s2)" and sc2: "scene s0 s2 L q (Node ll (b, j) lr) (((a, i), r) # R)"
    using link_right_step [OF sc [unfolded a(1)]] by blast
  obtain k where k: "fuel = Suc k" "size (Node ll (b, j) lr) \<le> k" using right_link.prems(2) y by (cases fuel) auto
  from right_link.IH [unfolded x y, OF sc2 k(2)] right_link.hyps(1,2) x y a b lk k(1) show ?case by simp
next
  case (left_left_end x y L R l rl)
  obtain a i b j where x: "x = (a, i)" and y: "y = (b, j)" by fastforce
  note sc = left_left_end(3) [unfolded x y]
  obtain lp rp lq rq where a: "p = Some a" "st_nodes s a = Some \<lparr>sn_left = lp, sn_right = Some b, sn_item = i\<rparr>"
    and b: "st_nodes s b = Some \<lparr>sn_left = lq, sn_right = rq, sn_item = j\<rparr>"
    by (rule scene_node [OF sc]) auto
  obtain s1 where r: "rotate_left a b s = (Inr (), s1)" and sc1: "scene s0 s1 L (Some b) (Node (Node l (a, i) rl) (b, j) Leaf) R"
    using rotate_left_step [OF sc [unfolded a(1)]] by blast
  obtain l1 r1 where "st_nodes s1 b = Some \<lparr>sn_left = l1, sn_right = r1, sn_item = j\<rparr>" "r1 = None"
    by (rule scene_node [OF sc1]) simp
  with left_left_end(1,2) a b r sc1 x y show ?case by simp
next
  case (left_left x y rr l rl L R L' R' t m)
  obtain a i b j where x: "x = (a, i)" and y: "y = (b, j)" by fastforce
  note sc = left_left.prems(1) [unfolded x y]
  obtain lp rp lq rq where a: "p = Some a" "st_nodes s a = Some \<lparr>sn_left = lp, sn_right = Some b, sn_item = i\<rparr>"
    and b: "st_nodes s b = Some \<lparr>sn_left = lq, sn_right = rq, sn_item = j\<rparr>"
    by (rule scene_node [OF sc]) auto
  obtain s1 where r: "rotate_left a b s = (Inr (), s1)" and sc1: "scene s0 s1 L (Some b) (Node (Node l (a, i) rl) (b, j) rr) R"
    using rotate_left_step [OF sc [unfolded a(1)]] by blast
  obtain l1 r1 where b1: "st_nodes s1 b = Some \<lparr>sn_left = l1, sn_right = r1, sn_item = j\<rparr>" "r1 \<noteq> None"
    by (rule scene_node [OF sc1]) (use left_left(3) tree_at_link in blast)
  obtain s2 q where lk: "link_left (hook L) b s1 = (Inr q, s2)" and sc2: "scene s0 s2 (((b, j), Node l (a, i) rl) # L) q rr R"
    using link_left_step [OF sc1] by blast
  obtain k where k: "fuel = Suc k" "size rr \<le> k" using left_left.prems(2) by (cases fuel) auto
  from left_left.IH [unfolded x y, OF sc2 k(2)] left_left.hyps(1,2) x y a b r b1 lk k(1) show ?case by auto
next
  case (left_link x y l L R rl rr L' R' t m)
  obtain a i b j where x: "x = (a, i)" and y: "y = (b, j)" by fastforce
  note sc = left_link.prems(1) [unfolded x y]
  obtain lp rp lq rq where a: "p = Some a" "st_nodes s a = Some \<lparr>sn_left = lp, sn_right = Some b, sn_item = i\<rparr>"
    and b: "st_nodes s b = Some \<lparr>sn_left = lq, sn_right = rq, sn_item = j\<rparr>"
    by (rule scene_node [OF sc]) auto
  obtain s2 q where lk: "link_left (hook L) a s = (Inr q, s2)" and sc2: "scene s0 s2 (((a, i), l) # L) q (Node rl (b, j) rr) R"
    using link_left_step [OF sc [unfolded a(1)]] by blast
  obtain k where k: "fuel = Suc k" "size (Node rl (b, j) rr) \<le> k" using left_link.prems(2) y by (cases fuel) auto
  from left_link.IH [unfolded x y, OF sc2 k(2)] left_link.hyps(1,2) x y a b lk k(1) show ?case by simp
qed

section \<open>Putting the parts together\<close>

lemma tree_at_build_left:
  "left_at ns fx L \<Longrightarrow> slot_right ns fx L = p \<Longrightarrow> tree_at ns p t \<Longrightarrow> tree_at ns fx (build_left L t)"
proof (induction L t arbitrary: p rule: build_left.induct)
  case (2 x l L t)
  obtain a i where "x = (a, i)" by fastforce
  with 2 show ?case by auto
qed simp

lemma tree_at_build_right:
  "right_at ns fx R \<Longrightarrow> slot_left ns fx R = p \<Longrightarrow> tree_at ns p t \<Longrightarrow> tree_at ns fx (build_right R t)"
proof (induction R t arbitrary: p rule: build_right.induct)
  case (2 x l L t)
  obtain a i where "x = (a, i)" by fastforce
  with 2 show ?case by auto
qed simp

lemma set_right_hook:
  assumes "left_at (st_nodes s) (fixed_right s) L" and "distinct (map fst (items_left L))"
  shows "\<exists>s'. set_right (hook L) p s = (Inr (), s') \<and> left_at (st_nodes s') (fixed_right s') L
     \<and> slot_right (st_nodes s') (fixed_right s') L = p \<and> fixed_left s' = fixed_left s
     \<and> apart s (fst ` set (items_left L)) s'"
proof (cases L)
  case Nil
  then show ?thesis by (simp add: apart_def)
next
  case (Cons x L')
  then obtain b j u where "x = ((b, j), u)" by (metis surj_pair)
  with assms Cons show ?thesis by (auto simp: apart_def image_Un)
qed

lemma set_left_hook:
  assumes "right_at (st_nodes s) (fixed_left s) R" and "distinct (map fst (items_right R))"
  shows "\<exists>s'. set_left (hook R) p s = (Inr (), s') \<and> right_at (st_nodes s') (fixed_left s') R
     \<and> slot_left (st_nodes s') (fixed_left s') R = p \<and> fixed_right s' = fixed_right s
     \<and> apart s (fst ` set (items_right R)) s'"
proof (cases R)
  case Nil
  then show ?thesis by (simp add: apart_def)
next
  case (Cons x R')
  then obtain b j u where "x = ((b, j), u)" by (metis surj_pair)
  with assms Cons show ?thesis by (auto simp: apart_def image_Un)
qed

lemma tree_at_apart:
  assumes "apart s A s'" and "A \<inter> fst ` set (inorder t) = {}"
  shows "tree_at (st_nodes s') p t = tree_at (st_nodes s) p t"
proof -
  have "\<forall>x \<in> set (inorder t). st_nodes s' (fst x) = st_nodes s (fst x)" using assms by (auto simp: apart_def)
  then show ?thesis by (induction "st_nodes s'" p t rule: tree_at.induct) auto
qed

lemma right_at_apart:
  assumes "apart s A s'" and "A \<inter> fst ` set (items_right R) = {}" and "fixed_left s' = fixed_left s"
  shows "right_at (st_nodes s') (fixed_left s') R = right_at (st_nodes s) (fixed_left s) R"
proof -
  have slot: "slot_left (st_nodes s') fx C = slot_left (st_nodes s) fx C"
    if "A \<inter> fst ` set (items_right C) = {}" for fx C
    using that assms(1) by (cases "(st_nodes s, fx, C)" rule: slot_left.cases) (auto simp: apart_def)
  from assms show ?thesis
    by (induction "st_nodes s" "fixed_left s" R rule: right_at.induct)
      (auto simp: slot tree_at_apart image_Un apart_def Int_Un_distrib)
qed

lemma apart_trans: "apart s A t \<Longrightarrow> apart t B u \<Longrightarrow> A \<subseteq> C \<Longrightarrow> B \<subseteq> C \<Longrightarrow> apart s C u"
  unfolding apart_def by (metis subsetD)

lemma reassemble_scene:
  assumes sc: "scene s0 s L (Some a) (Node l (a, i) r) R"
  shows "\<exists>s'. reassemble (hook L) (hook R) a s = (Inr (), s')
    \<and> tree_at (st_nodes s') (Some a) (Node (build_left L l) (a, i) (build_right R r))
    \<and> apart s0 (fst ` set (seq L (Node l (a, i) r) R)) s'"
proof -
  let ?A = "fst ` set (seq L (Node l (a, i) r) R)"
  obtain lp rp where a: "st_nodes s a = Some \<lparr>sn_left = lp, sn_right = rp, sn_item = i\<rparr>"
    and tl: "tree_at (st_nodes s) lp l" and tr: "tree_at (st_nodes s) rp r"
    by (rule scene_node [OF sc]) auto
  have d: "distinct (map fst (items_left L))" "distinct (map fst (items_right R))"
    "a \<notin> fst ` set (items_left L)" "a \<notin> fst ` set (items_right R)" "a \<notin> fst ` set (inorder l)"
    "a \<notin> fst ` set (inorder r)"
    "fst ` set (items_left L) \<inter> fst ` set (inorder l) = {}" "fst ` set (items_left L) \<inter> fst ` set (inorder r) = {}"
    "fst ` set (items_left L) \<inter> fst ` set (items_right R) = {}"
    "fst ` set (items_right R) \<inter> fst ` set (inorder l) = {}" "fst ` set (items_right R) \<inter> fst ` set (inorder r) = {}"
    using sc by (auto simp: scene_def seq_def image_Un)
  from sc have at: "left_at (st_nodes s) (fixed_right s) L" "right_at (st_nodes s) (fixed_left s) R"
    and ap: "apart s0 ?A s" by (simp_all add: scene_def)
  obtain s1 where s1: "set_right (hook L) lp s = (Inr (), s1)" "left_at (st_nodes s1) (fixed_right s1) L"
    "slot_right (st_nodes s1) (fixed_right s1) L = lp" "fixed_left s1 = fixed_left s"
    "apart s (fst ` set (items_left L)) s1"
    using set_right_hook [OF at(1) d(1)] by blast
  have a1: "st_nodes s1 a = Some \<lparr>sn_left = lp, sn_right = rp, sn_item = i\<rparr>"
    using s1(5) a d(3) by (simp add: apart_def)
  have t1: "tree_at (st_nodes s1) (fixed_right s1) (build_left L l)" "tree_at (st_nodes s1) rp r"
    "right_at (st_nodes s1) (fixed_left s1) R"
    using tree_at_build_left [OF s1(2,3)] tree_at_apart [OF s1(5) d(7)] tl tree_at_apart [OF s1(5) d(8)] tr
      right_at_apart [OF s1(5) d(9) s1(4)] at(2) by simp_all
  obtain s2 where s2: "set_left (hook R) rp s1 = (Inr (), s2)" "right_at (st_nodes s2) (fixed_left s2) R"
    "slot_left (st_nodes s2) (fixed_left s2) R = rp" "fixed_right s2 = fixed_right s1"
    "apart s1 (fst ` set (items_right R)) s2"
    using set_left_hook [OF t1(3) d(2)] by blast
  have a2: "st_nodes s2 a = Some \<lparr>sn_left = lp, sn_right = rp, sn_item = i\<rparr>"
    using s2(5) a1 d(4) by (simp add: apart_def)
  have "fst ` set (items_right R) \<inter> fst ` set (inorder (build_left L l)) = {}"
    using d(9,10) by (auto simp: inorder_build_left)
  then have t2: "tree_at (st_nodes s2) (fixed_right s2) (build_left L l)"
    "tree_at (st_nodes s2) (fixed_left s2) (build_right R r)"
    using tree_at_apart [OF s2(5)] t1(1) s2(4) tree_at_build_right [OF s2(2,3)] tree_at_apart [OF s2(5) d(11)] t1(2)
    by simp_all
  let ?n = "\<lparr>sn_left = fixed_right s2, sn_right = fixed_left s2, sn_item = i\<rparr>"
  let ?s = "s2\<lparr>st_nodes := (st_nodes s2)(a \<mapsto> ?n)\<rparr>"
  have "reassemble (hook L) (hook R) a s = (Inr (), ?s)"
    using a a1 a2 s1(1) s2(1) by (simp add: reassemble_def)
  moreover have "tree_at (st_nodes ?s) (Some a) (Node (build_left L l) (a, i) (build_right R r))"
    using t2 d(3-6) by (simp add: inorder_build_left inorder_build_right image_Un)
  moreover have "apart s0 ?A s1" by (rule apart_trans [OF ap s1(5)]) (auto simp: seq_def)
  then have "apart s0 ?A s2" by (rule apart_trans [OF _ s2(5)]) (auto simp: seq_def)
  then have "apart s0 ?A ?s" by (auto simp: apart_def seq_def)
  ultimately show ?thesis by blast
qed

text \<open>
  \<open>_jc_splay\<close> on a tree in the store. When the key cuts the items, the new root splits them: the key
  belongs to the left or to the right of the root, or matches it.
\<close>

definition splits :: "('i \<Rightarrow> int) \<Rightarrow> (addr \<times> 'i) tree \<Rightarrow> 'i \<Rightarrow> (addr \<times> 'i) tree \<Rightarrow> bool \<Rightarrow> bool" where
  "splits d l i r m \<longleftrightarrow> (m \<longleftrightarrow> d i = 0) \<and>
     (d i \<le> 0 \<longrightarrow> (\<forall>x \<in> set (inorder l). 0 < d (snd x)) \<and> (\<forall>x \<in> set (inorder r). d (snd x) < 0)) \<and>
     (0 \<le> d i \<longrightarrow> (\<forall>x \<in> set (inorder l). 0 < d (snd x)) \<and> (\<forall>x \<in> set (inorder r). d (snd x) < 0))"

lemma cut_append: "cut d (xs @ x # ys) \<longleftrightarrow> cut d xs \<and> cut d ys \<and> (\<forall>y \<in> set xs. 0 < d y \<or> d x < 0) \<and>
     (d x \<le> 0 \<longrightarrow> (\<forall>y \<in> set ys. d y < 0)) \<and> (\<forall>z \<in> set xs. \<forall>y \<in> set ys. 0 < d z \<or> d y < 0)"
  by (auto simp: cut_def sorted_wrt_append not_less)

lemma splay_run:
  assumes t: "tree_at (st_nodes s) p t" and d: "distinct (map fst (inorder t))" and ne: "t \<noteq> Leaf"
    and fuel: "size t \<le> nat (st_size s)" and c: "cut (\<lambda>x. cmp key (snd x)) (inorder t)"
  obtains s' a l i r m where "splay cmp key p s = (Inr (Some a, m), s')"
    and "tree_at (st_nodes s') (Some a) (Node l (a, i) r)" and "inorder (Node l (a, i) r) = inorder t"
    and "apart s (fst ` set (inorder t)) s'" and "splits (cmp key) l i r m"
proof -
  let ?d = "\<lambda>x. cmp key (snd x)"
  let ?s = "s\<lparr>fixed_left := None, fixed_right := None\<rparr>"
  from t ne have p: "p \<noteq> None" by (auto dest: tree_at_link)
  obtain L R u m where sr: "search ?d [] [] t L R u m" using search_ends [OF ne] by metis
  from search_stops [OF sr] obtain l x r where u: "u = Node l x r"
    and st: "if m then ?d x = 0 else (?d x < 0 \<and> l = Leaf) \<or> (0 < ?d x \<and> r = Leaf)" by blast
  obtain a i where x: "x = (a, i)" by fastforce
  have "scene s ?s [] p t []" using t d by (simp add: scene_def seq_def apart_def)
  from splay_loop_search [where cmp = cmp and key = key, OF sr this fuel] u x obtain s1 b where
    loop: "splay_loop (Suc (nat (st_size s))) cmp key Fixed Fixed p ?s = (Inr (hook L, hook R, Some b, m), s1)"
    and sc: "scene s s1 L (Some b) (Node l (a, i) r) R" by auto
  from sc have b: "b = a" by (simp add: scene_def)
  obtain s2 where re: "reassemble (hook L) (hook R) a s1 = (Inr (), s2)"
    and t2: "tree_at (st_nodes s2) (Some a) (Node (build_left L l) (a, i) (build_right R r))"
    and ap: "apart s (fst ` set (seq L (Node l (a, i) r) R)) s2"
    using reassemble_scene [OF sc [unfolded b]] by blast
  have io: "inorder (Node (build_left L l) (a, i) (build_right R r)) = inorder t"
    using search_items [OF sr] u x by (simp add: inorder_build_left inorder_build_right)
  have eq: "seq L (Node l (a, i) r) R = inorder t"
    using search_items [OF sr] u x by (simp add: seq_def)
  have sides: "\<forall>y \<in> set (items_left L). 0 < ?d y" "\<forall>y \<in> set (items_right R). ?d y < 0"
    using search_sides [OF sr c] by simp_all
  have c': "cut ?d ((items_left L @ inorder l) @ (a, i) # (inorder r @ items_right R))"
    using c io by (simp add: inorder_build_left inorder_build_right)
  have "splits (cmp key) (build_left L l) i (build_right R r) m"
    using st c' sides x unfolding splits_def inorder_build_left inorder_build_right cut_append
    by (auto split: if_splits)
  moreover have "splay cmp key p s = (Inr (Some a, m), s2)"
    using p loop re b by (auto simp: splay_def the_node_def)
  ultimately show ?thesis using that t2 io ap eq by simp
qed

section \<open>The tree as a sorted sequence\<close>

definition holds :: "'i splay_tree \<Rightarrow> (addr \<times> 'i) list \<Rightarrow> bool" where
  "holds s xs \<longleftrightarrow> distinct (map fst xs) \<and> st_size s = int (length xs) \<and>
     (\<exists>t. tree_at (st_nodes s) (st_root s) t \<and> inorder t = xs)"

definition sorted_items :: "('i \<Rightarrow> 'i \<Rightarrow> int) \<Rightarrow> (addr \<times> 'i) list \<Rightarrow> bool" where
  "sorted_items cmp xs \<longleftrightarrow> sorted_wrt (\<lambda>x y. cmp (snd x) (snd y) < 0) xs"

lemma sorted_cut:
  assumes "comparison cmp" and "sorted_items cmp xs"
  shows "cut (\<lambda>x. cmp key (snd x)) xs"
  using assms(2) unfolding sorted_items_def cut_def
  by (rule sorted_wrt_mono_rel [rotated]) (blast intro: comparison.less_trans2 [OF assms(1)])

lemma holds_root:
  assumes "comparison cmp" and "holds s xs" and "sorted_items cmp xs" and "st_root s \<noteq> None"
  obtains s' a l i r m where "splay cmp key (st_root s) s = (Inr (Some a, m), s')"
    and "tree_at (st_nodes s') (Some a) (Node l (a, i) r)" and "xs = inorder l @ (a, i) # inorder r"
    and "apart s (fst ` set xs) s'" and "splits (cmp key) l i r m"
proof -
  from assms(2) obtain t where t: "tree_at (st_nodes s) (st_root s) t" "inorder t = xs" "distinct (map fst xs)"
    "st_size s = int (length xs)" by (auto simp: holds_def)
  then have ne: "t \<noteq> Leaf" "size t \<le> nat (st_size s)" using assms(4) by (auto simp flip: length_inorder)
  have d: "distinct (map fst (inorder t))" using t by simp
  have c: "cut (\<lambda>x. cmp key (snd x)) (inorder t)" using sorted_cut [OF assms(1,3)] t(2) by simp
  show ?thesis
    by (rule splay_run [where cmp = cmp and key = key, OF t(1) d ne c], rule that) (use t(2) in auto)
qed

lemma holds_empty: "holds s xs \<Longrightarrow> st_root s = None \<longleftrightarrow> xs = []"
proof -
  assume "holds s xs"
  then obtain t where "tree_at (st_nodes s) (st_root s) t" "inorder t = xs" by (auto simp: holds_def)
  then show ?thesis by (cases t) (auto dest: tree_at_link)
qed

lemma holdsI:
  assumes "tree_at (st_nodes s) (st_root s) t" and "inorder t = xs"
    and "distinct (map fst xs)" and "st_size s = int (length xs)"
  shows "holds s xs"
  using assms by (auto simp: holds_def)

text \<open>The address of the item that matches the key.\<close>

definition lookup :: "('i \<Rightarrow> int) \<Rightarrow> (addr \<times> 'i) list \<Rightarrow> addr option" where
  "lookup d xs = map_option fst (find (\<lambda>x. d (snd x) = 0) xs)"

lemma find_skip: "\<forall>x \<in> set xs. \<not> P x \<Longrightarrow> find P (xs @ ys) = find P ys"
  by (induction xs) auto

lemma find_nothing: "\<forall>x \<in> set xs. \<not> P x \<Longrightarrow> find P xs = None"
  by (simp add: find_None_iff)

lemma splits_sides:
  assumes "splits d l i r m"
  shows "\<forall>x \<in> set (inorder l). 0 < d (snd x)" and "\<forall>x \<in> set (inorder r). d (snd x) < 0" and "m \<longleftrightarrow> d i = 0"
  using assms unfolding splits_def by (metis linear)+

lemma splits_filter:
  assumes "splits d l i r m"
  shows "filter (\<lambda>x. 0 < d (snd x)) (inorder l) = inorder l" "filter (\<lambda>x. d (snd x) < 0) (inorder l) = []"
    "filter (\<lambda>x. 0 < d (snd x)) (inorder r) = []" "filter (\<lambda>x. d (snd x) < 0) (inorder r) = inorder r"
    "filter (\<lambda>x. d (snd x) \<noteq> 0) (inorder l) = inorder l" "filter (\<lambda>x. d (snd x) \<noteq> 0) (inorder r) = inorder r"
  using splits_sides(1,2) [OF assms] by (auto simp: filter_id_conv filter_empty_conv)

lemma lookup_split:
  assumes "splits d l i r m"
  shows "lookup d (inorder l @ (a, i) # inorder r) = (if m then Some a else None)"
proof -
  have "\<forall>x \<in> set (inorder l). d (snd x) \<noteq> 0" "\<forall>x \<in> set (inorder r). d (snd x) \<noteq> 0"
    using splits_sides(1,2) [OF assms] by fastforce+
  then show ?thesis using splits_sides(3) [OF assms] by (simp add: lookup_def find_skip find_nothing)
qed

lemma splay_None: "splay cmp key None s = (Inr (None, False), s\<lparr>fixed_left := None, fixed_right := None\<rparr>)"
  by (simp add: splay_def)

lemma find_run:
  assumes "comparison cmp" and "holds s xs" and "sorted_items cmp xs"
  shows "\<exists>s'. splay_find cmp key s = (Inr (lookup (cmp key) xs), s') \<and> holds s' xs
     \<and> (\<forall>a. a \<notin> fst ` set xs \<longrightarrow> st_nodes s' a = st_nodes s a)"
proof (cases "st_root s")
  case None
  with holds_empty [OF assms(2)] assms(2) show ?thesis
    by (auto simp: splay_find_def splay_None set_root_def lookup_def holds_def)
next
  case (Some p)
  obtain s' a l i r m where run: "splay cmp key (st_root s) s = (Inr (Some a, m), s')"
    and t: "tree_at (st_nodes s') (Some a) (Node l (a, i) r)" and xs: "xs = inorder l @ (a, i) # inorder r"
    and ap: "apart s (fst ` set xs) s'" and sp: "splits (cmp key) l i r m"
    by (rule holds_root [where key = key, OF assms]) (use Some in auto)
  have "splay_find cmp key s = (Inr (lookup (cmp key) xs), s'\<lparr>st_root := Some a\<rparr>)"
    using run lookup_split [OF sp] xs by (simp add: splay_find_def set_root_def)
  moreover have "holds (s'\<lparr>st_root := Some a\<rparr>) xs"
    using t xs ap assms(2) by (auto simp: holds_def apart_def intro!: exI [of _ "Node l (a, i) r"] simp del: tree_at.simps)
  ultimately show ?thesis using ap by (auto simp: apart_def)
qed

text \<open>A new item is added between the smaller and the larger ones.\<close>

definition add_item :: "('i \<Rightarrow> 'i \<Rightarrow> int) \<Rightarrow> addr \<Rightarrow> 'i \<Rightarrow> (addr \<times> 'i) list \<Rightarrow> (addr \<times> 'i) list" where
  "add_item cmp w k xs = filter (\<lambda>x. 0 < cmp k (snd x)) xs @ (w, k) # filter (\<lambda>x. cmp k (snd x) < 0) xs"

lemma sorted_items_insert:
  fixes cmp :: "'i \<Rightarrow> 'i \<Rightarrow> int"
  assumes cmp: "comparison cmp" and srt: "sorted_items cmp xs"
  shows "sorted_items cmp (filter (\<lambda>x. 0 < cmp k (snd x)) xs @ (w, k) # filter (\<lambda>x. cmp k (snd x) < 0) xs)"
proof -
  have low: "cmp (snd x) k < 0" if "0 < cmp k (snd x)" for x :: "addr \<times> 'i"
    using that comparison.swap [OF cmp] by blast
  moreover have "cmp (snd x) (snd y) < 0" if "0 < cmp k (snd x)" "cmp k (snd y) < 0" for x y :: "addr \<times> 'i"
    using comparison.less_trans2 [OF cmp less_imp_le [OF low [OF that(1)]] that(2)] .
  ultimately show ?thesis
    using srt by (auto simp: sorted_items_def sorted_wrt_append sorted_wrt_filter)
qed

lemma insert_run:
  assumes cmp: "comparison cmp" and h: "holds s xs" and srt: "sorted_items cmp xs"
    and n: "st_nodes s w = Some n" and new: "w \<notin> fst ` set xs" "\<forall>x \<in> set xs. cmp (sn_item n) (snd x) \<noteq> 0"
  shows "\<exists>s'. splay_insert cmp w s = (Inr (), s') \<and> holds s' (add_item cmp w (sn_item n) xs)
     \<and> sorted_items cmp (add_item cmp w (sn_item n) xs)
     \<and> (\<forall>a. a \<notin> insert w (fst ` set xs) \<longrightarrow> st_nodes s' a = st_nodes s a)"
proof -
  let ?d = "\<lambda>x. cmp (sn_item n) (snd x)"
  let ?ys = "filter (\<lambda>x. 0 < ?d x) xs @ (w, sn_item n) # filter (\<lambda>x. ?d x < 0) xs"
  have "\<exists>s'. splay_insert cmp w s = (Inr (), s') \<and> holds s' ?ys
     \<and> (\<forall>a. a \<notin> insert w (fst ` set xs) \<longrightarrow> st_nodes s' a = st_nodes s a)"
  proof (cases "st_root s")
    case None
    with holds_empty [OF h] h n show ?thesis
      by (cases n) (auto simp: splay_insert_def holds_def intro!: exI [of _ "Node Leaf (w, sn_item n) Leaf"])
  next
    case (Some p)
    obtain s' a l i r m where run: "splay cmp (sn_item n) (st_root s) s = (Inr (Some a, m), s')"
      and t: "tree_at (st_nodes s') (Some a) (Node l (a, i) r)" and xs: "xs = inorder l @ (a, i) # inorder r"
      and ap: "apart s (fst ` set xs) s'" and sp: "splits (cmp (sn_item n)) l i r m"
      by (rule holds_root [where key = "sn_item n", OF cmp h srt]) (use Some in auto)
    note fl = splits_filter [OF sp]
    from t obtain lp rp where a: "st_nodes s' a = Some \<lparr>sn_left = lp, sn_right = rp, sn_item = i\<rparr>"
      and tl: "tree_at (st_nodes s') lp l" and tr: "tree_at (st_nodes s') rp r" by auto
    have w: "st_nodes s' w = Some n" "w \<noteq> a" "w \<notin> fst ` set (inorder l)" "w \<notin> fst ` set (inorder r)"
      using n ap new(1) xs by (auto simp: apart_def)
    have da: "a \<notin> fst ` set (inorder l)" "a \<notin> fst ` set (inorder r)" "distinct (map fst xs)" "st_size s' = int (length xs)"
      using h xs ap by (auto simp: holds_def apart_def)
    show ?thesis
    proof (cases "cmp (sn_item n) i < 0")
      case True
      let ?s = "s'\<lparr>st_root := Some w, st_size := st_size s' + 1, st_nodes := (st_nodes s')
        (w \<mapsto> \<lparr>sn_left = lp, sn_right = Some a, sn_item = sn_item n\<rparr>, a \<mapsto> \<lparr>sn_left = None, sn_right = rp, sn_item = i\<rparr>)\<rparr>"
      have run': "splay_insert cmp w s = (Inr (), ?s)"
        using Some n run a w True by (cases n) (simp add: splay_insert_def set_root_def the_node_def)
      moreover have "tree_at (st_nodes ?s) (Some w) (Node l (w, sn_item n) (Node Leaf (a, i) r))"
        using tl tr w da by simp
      moreover have "?ys = inorder l @ (w, sn_item n) # (a, i) # inorder r"
        using True fl xs by simp
      ultimately have "holds ?s ?ys"
        by (intro holdsI [where t = "Node l (w, sn_item n) (Node Leaf (a, i) r)"]) (use da(3,4) xs w in auto)
      with run' show ?thesis using ap xs by (auto simp: apart_def)
    next
      case False
      then have pos: "0 < cmp (sn_item n) i" using new(2) xs by force
      let ?s = "s'\<lparr>st_root := Some w, st_size := st_size s' + 1, st_nodes := (st_nodes s')
        (w \<mapsto> \<lparr>sn_left = Some a, sn_right = rp, sn_item = sn_item n\<rparr>, a \<mapsto> \<lparr>sn_left = lp, sn_right = None, sn_item = i\<rparr>)\<rparr>"
      have run': "splay_insert cmp w s = (Inr (), ?s)"
        using Some n run a w False by (cases n) (simp add: splay_insert_def set_root_def the_node_def)
      moreover have "tree_at (st_nodes ?s) (Some w) (Node (Node l (a, i) Leaf) (w, sn_item n) r)"
        using tl tr w da by simp
      moreover have "?ys = inorder l @ (a, i) # (w, sn_item n) # inorder r"
        using pos fl xs by simp
      ultimately have "holds ?s ?ys"
        by (intro holdsI [where t = "Node (Node l (a, i) Leaf) (w, sn_item n) r"]) (use da(3,4) xs w in auto)
      with run' show ?thesis using ap xs by (auto simp: apart_def)
    qed
  qed
  then show ?thesis using sorted_items_insert [OF cmp srt] unfolding add_item_def by blast
qed

lemma filter_unequal:
  assumes "splits d l i r m" and "d i = 0"
  shows "filter (\<lambda>x. d (snd x) \<noteq> 0) (inorder l @ (a, i) # inorder r) = inorder l @ inorder r"
  using splits_filter(5,6) [OF assms(1)] assms(2) by simp

lemma remove_run:
  assumes cmp: "comparison cmp" and h: "holds s xs" and srt: "sorted_items cmp xs"
    and mem: "\<exists>x \<in> set xs. cmp key (snd x) = 0"
  shows "\<exists>s'. splay_remove cmp key s = (Inr (), s') \<and> holds s' (filter (\<lambda>x. cmp key (snd x) \<noteq> 0) xs)
     \<and> sorted_items cmp (filter (\<lambda>x. cmp key (snd x) \<noteq> 0) xs)
     \<and> (\<forall>a. a \<notin> fst ` set xs \<longrightarrow> st_nodes s' a = st_nodes s a)"
proof -
  have srt': "sorted_items cmp (filter P xs)" for P using srt by (simp add: sorted_items_def sorted_wrt_filter)
  from holds_empty [OF h] mem have "st_root s \<noteq> None" by auto
  then obtain s' a l i r m where run: "splay cmp key (st_root s) s = (Inr (Some a, m), s')"
    and t: "tree_at (st_nodes s') (Some a) (Node l (a, i) r)" and xs: "xs = inorder l @ (a, i) # inorder r"
    and ap: "apart s (fst ` set xs) s'" and sp: "splits (cmp key) l i r m"
    by (rule holds_root [where key = key, OF cmp h srt])
  from mem xs splits_sides [OF sp] have i: "cmp key i = 0" by fastforce
  note ys = filter_unequal [OF sp i, of a, folded xs]
  from t obtain lp rp where a: "st_nodes s' a = Some \<lparr>sn_left = lp, sn_right = rp, sn_item = i\<rparr>"
    and tl: "tree_at (st_nodes s') lp l" and tr: "tree_at (st_nodes s') rp r" by auto
  have da: "distinct (map fst xs)" "st_size s' = int (length xs)"
    using h ap by (auto simp: holds_def apart_def)
  have "\<exists>s''. splay_remove cmp key s = (Inr (), s'') \<and> holds s'' (inorder l @ inorder r)
     \<and> (\<forall>a. a \<notin> fst ` set xs \<longrightarrow> st_nodes s'' a = st_nodes s' a)"
  proof (cases "l = Leaf")
    case True
    with tl have "lp = None" by (simp add: tree_at_link)
    with run a have "splay_remove cmp key s = (Inr (), s'\<lparr>st_root := rp, st_size := st_size s' - 1\<rparr>)"
      by (simp add: splay_remove_def the_node_def)
    with True tr da xs show ?thesis by (auto simp: holds_def)
  next
    case False
    have lp: "lp \<noteq> None" using tree_at_link [OF tl] False by simp
    have d: "distinct (map fst (inorder l))" "size l \<le> nat (st_size s')"
      using da xs by (auto simp flip: length_inorder)
    have c: "cut (\<lambda>x. cmp key (snd x)) (inorder l)"
      using sorted_cut [OF cmp srt] xs by (simp add: cut_def sorted_wrt_append)
    obtain s2 b l' j r' m' where run2: "splay cmp key lp s' = (Inr (Some b, m'), s2)"
      and t2: "tree_at (st_nodes s2) (Some b) (Node l' (b, j) r')" and io: "inorder (Node l' (b, j) r') = inorder l"
      and ap2: "apart s' (fst ` set (inorder l)) s2" and sp2: "splits (cmp key) l' j r' m'"
      by (rule splay_run [where cmp = cmp and key = key, OF tl d(1) False d(2) c])
    have r': "r' = Leaf"
    proof (cases r')
      case (Node u y v)
      then have "y \<in> set (inorder r')" "y \<in> set (inorder l)" by (auto simp flip: io)
      then have "cmp key (snd y) < 0" "0 < cmp key (snd y)"
        using splits_sides(2) [OF sp2] splits_sides(1) [OF sp] by blast+
      then show ?thesis by simp
    qed simp
    from t2 r' obtain lq where b: "st_nodes s2 b = Some \<lparr>sn_left = lq, sn_right = None, sn_item = j\<rparr>"
      and tl': "tree_at (st_nodes s2) lq l'" by auto
    have dis: "a \<notin> fst ` set (inorder l)" "fst ` set (inorder l) \<inter> fst ` set (inorder r) = {}"
      "b \<in> fst ` set (inorder l)" "b \<notin> fst ` set (inorder l')"
      using da(1) xs io d(1) r' by (auto simp flip: io)
    have a2: "st_nodes s2 a = Some \<lparr>sn_left = lp, sn_right = rp, sn_item = i\<rparr>"
      using a ap2 dis(1) by (simp add: apart_def)
    have tr2: "tree_at (st_nodes s2) rp r" using tr tree_at_apart [OF ap2 dis(2)] by simp
    let ?s = "s2\<lparr>st_nodes := (st_nodes s2)(b \<mapsto> \<lparr>sn_left = lq, sn_right = rp, sn_item = j\<rparr>),
      st_root := Some b, st_size := st_size s2 - 1\<rparr>"
    have "splay_remove cmp key s = (Inr (), ?s)"
      using run a lp run2 a2 b by (auto simp: splay_remove_def the_node_def)
    moreover have "b \<notin> fst ` set (inorder r)" using dis(2,3) by blast
    then have "tree_at (st_nodes ?s) (Some b) (Node l' (b, j) r)" using tl' tr2 dis(4) by simp
    moreover have "inorder (Node l' (b, j) r) = inorder l @ inorder r" using io r' by simp
    moreover have "st_size s2 = int (length xs)" using ap2 da(2) by (simp add: apart_def)
    ultimately show ?thesis
      using da(1) xs dis(3) ap2 by (auto simp: holds_def apart_def intro!: exI [of _ "Node l' (b, j) r"] simp del: tree_at.simps)
  qed
  moreover have "sorted_items cmp (inorder l @ inorder r)"
    using srt' [of "\<lambda>x. cmp key (snd x) \<noteq> 0"] ys by simp
  ultimately show ?thesis using ys ap by (auto simp: apart_def)
qed

section \<open>The interface\<close>

text \<open>
  What the tables of the virtual machine ask of a tree of items: \<open>represents s xs\<close> says that the tree
  in \<open>s\<close> holds the sequence \<open>xs\<close>, \<open>cell\<close> is the memory.
\<close>

locale item_table = comparison cmp for cmp :: "'i \<Rightarrow> 'i \<Rightarrow> int" +
  fixes represents :: "'s \<Rightarrow> (addr \<times> 'i) list \<Rightarrow> bool"
    and cell :: "'s \<Rightarrow> addr \<rightharpoonup> 'n" and content :: "'n \<Rightarrow> 'i"
    and find_op :: "'i \<Rightarrow> ('s, addr option) mon"
    and insert_op :: "addr \<Rightarrow> ('s, unit) mon"
    and remove_op :: "'i \<Rightarrow> ('s, unit) mon"
  assumes represents_sorted: "represents s xs \<Longrightarrow> sorted_items cmp xs"
    and find_law: "represents s xs \<Longrightarrow> \<exists>s'. find_op key s = (Inr (lookup (cmp key) xs), s') \<and> represents s' xs
      \<and> (\<forall>a. a \<notin> fst ` set xs \<longrightarrow> cell s' a = cell s a)"
    and insert_law: "represents s xs \<Longrightarrow> cell s w = Some n \<Longrightarrow> w \<notin> fst ` set xs \<Longrightarrow>
      \<forall>x \<in> set xs. cmp (content n) (snd x) \<noteq> 0 \<Longrightarrow>
      \<exists>s'. insert_op w s = (Inr (), s') \<and> represents s' (add_item cmp w (content n) xs)
      \<and> (\<forall>a. a \<notin> insert w (fst ` set xs) \<longrightarrow> cell s' a = cell s a)"
    and remove_law: "represents s xs \<Longrightarrow> \<exists>x \<in> set xs. cmp key (snd x) = 0 \<Longrightarrow>
      \<exists>s'. remove_op key s = (Inr (), s') \<and> represents s' (filter (\<lambda>x. cmp key (snd x) \<noteq> 0) xs)
      \<and> (\<forall>a. a \<notin> fst ` set xs \<longrightarrow> cell s' a = cell s a)"
begin

text \<open>The sequence as a map: at most one item compares equal to a key.\<close>

lemma lookup_iff:
  assumes "represents s xs"
  shows "lookup (cmp key) xs = Some a \<longleftrightarrow> (\<exists>i. (a, i) \<in> set xs \<and> cmp key i = 0)"
proof -
  have "sorted_wrt (\<lambda>x y. cmp (snd x) (snd y) < 0) xs"
    using represents_sorted [OF assms] by (simp add: sorted_items_def)
  then show ?thesis
  proof (induction xs)
    case (Cons x xs)
    have "cmp key (snd y) < 0" if "y \<in> set xs" "cmp key (snd x) = 0" for y
      using Cons.prems that less_trans2 [of key "snd x" "snd y"] by simp
    then have "\<not> (\<exists>i. (a, i) \<in> set xs \<and> cmp key i = 0)" if "cmp key (snd x) = 0"
      using that by force
    with Cons show ?case by (cases x) (auto simp: lookup_def)
  qed (simp add: lookup_def)
qed

lemma lookup_none: "lookup (cmp key) xs = None \<longleftrightarrow> (\<forall>x \<in> set xs. cmp key (snd x) \<noteq> 0)"
  by (force simp: lookup_def find_None_iff)

lemma set_add_item:
  assumes "\<forall>x \<in> set xs. cmp k (snd x) \<noteq> 0"
  shows "set (add_item cmp w k xs) = insert (w, k) (set xs)"
  using assms by (auto simp: add_item_def)

text \<open>An inserted item is found, one that was removed is not.\<close>

lemma find_inserted:
  assumes "represents s xs" and "cell s w = Some n" and "w \<notin> fst ` set xs"
    and "\<forall>x \<in> set xs. cmp (content n) (snd x) \<noteq> 0"
  shows "\<exists>s' s''. insert_op w s = (Inr (), s') \<and> find_op (content n) s' = (Inr (Some w), s'')"
proof -
  obtain s' where s': "insert_op w s = (Inr (), s')" "represents s' (add_item cmp w (content n) xs)"
    using insert_law [OF assms] by blast
  moreover have "lookup (cmp (content n)) (add_item cmp w (content n) xs) = Some w"
    using lookup_iff [OF s'(2)] set_add_item [OF assms(4)] by force
  ultimately show ?thesis using find_law [OF s'(2), of "content n"] by auto
qed

lemma find_removed:
  assumes "represents s xs" and "\<exists>x \<in> set xs. cmp key (snd x) = 0"
  shows "\<exists>s' s''. remove_op key s = (Inr (), s') \<and> find_op key s' = (Inr None, s'')"
proof -
  obtain s' where s': "remove_op key s = (Inr (), s')" "represents s' (filter (\<lambda>x. cmp key (snd x) \<noteq> 0) xs)"
    using remove_law [OF assms] by blast
  moreover have "lookup (cmp key) (filter (\<lambda>x. cmp key (snd x) \<noteq> 0) xs) = None" by (auto simp: lookup_none)
  ultimately show ?thesis using find_law [OF s'(2), of key] by auto
qed

end

sublocale comparison \<subseteq> spl: item_table cmp "\<lambda>s xs. holds s xs \<and> sorted_items cmp xs" st_nodes sn_item
    "splay_find cmp" "splay_insert cmp" "splay_remove cmp"
proof (unfold_locales, goal_cases)
  case (2 s xs key)
  then show ?case using find_run [OF comparison_axioms, of s xs key] by blast
next
  case (3 s xs w n)
  then show ?case using insert_run [OF comparison_axioms, of s xs w n] by blast
next
  case (4 s xs key)
  then show ?case using remove_run [OF comparison_axioms, of s xs key] by blast
qed simp

context comparison begin

lemmas inserted_found = spl.find_inserted
lemmas removed_lost = spl.find_removed

end

text \<open>
  C11: \<open>_jc_splay_find\<close> returns the item of the tree that compares equal to the key, or \<open>NULL\<close> if there
  is none; the tree is restructured but holds the same items in the same order, the nodes outside the
  tree are not touched, and no null pointer is followed.
\<close>

theorem splay_find_lookup:
  assumes "comparison cmp" and "holds s xs" and "sorted_items cmp xs"
  shows "\<exists>s'. splay_find cmp key s = (Inr (lookup (cmp key) xs), s') \<and> holds s' xs
     \<and> (\<forall>a. a \<notin> fst ` set xs \<longrightarrow> st_nodes s' a = st_nodes s a)"
  by (rule find_run [OF assms])

text \<open>
  C12: \<open>_jc_splay_insert\<close> of an item whose key is not in the tree puts it at its place in the order of
  the items and keeps all others; then a search finds it.
\<close>

theorem splay_insert_sorted:
  assumes cmp: "comparison cmp" and h: "holds s xs" and srt: "sorted_items cmp xs"
    and n: "st_nodes s w = Some n" and new: "w \<notin> fst ` set xs" "\<forall>x \<in> set xs. cmp (sn_item n) (snd x) \<noteq> 0"
  shows "\<exists>s' s''. splay_insert cmp w s = (Inr (), s') \<and> holds s' (add_item cmp w (sn_item n) xs)
     \<and> sorted_items cmp (add_item cmp w (sn_item n) xs)
     \<and> splay_find cmp (sn_item n) s' = (Inr (Some w), s'')"
  using insert_run [OF assms] comparison.inserted_found [OF cmp, of s xs w n] h srt n new by auto

text \<open>
  C13: \<open>_jc_splay_remove\<close> of an item that is in the tree takes out this item and no other; then a search does not find it.
\<close>

theorem splay_remove_filter:
  assumes cmp: "comparison cmp" and h: "holds s xs" and srt: "sorted_items cmp xs"
    and mem: "\<exists>x \<in> set xs. cmp key (snd x) = 0"
  shows "\<exists>s' s''. splay_remove cmp key s = (Inr (), s') \<and> holds s' (filter (\<lambda>x. cmp key (snd x) \<noteq> 0) xs)
     \<and> sorted_items cmp (filter (\<lambda>x. cmp key (snd x) \<noteq> 0) xs)
     \<and> splay_find cmp key s' = (Inr None, s'')"
  using remove_run [OF assms] comparison.removed_lost [OF cmp, of s xs key] h srt mem by auto

section \<open>The list of the items\<close>

text \<open>
  A sub-tree costs two turns for each node. While it is listed, its ancestors stay on the stack below
  \<open>depth\<close>, and what has been listed stays above \<open>next\<close>.
\<close>

lemma list_loop_tree:
  assumes "tree_at (st_nodes s) p t" and "depth + size t \<le> nxt" and "nxt \<le> length stack"
  shows "\<exists>stack'. list_loop (2 * size t + fuel) depth nxt p stack s = list_loop fuel depth (nxt - size t) None stack' s
     \<and> length stack' = length stack \<and> take depth stack' = take depth stack
     \<and> drop (nxt - size t) stack' = map fst (inorder t) @ drop nxt stack"
  using assms
proof (induction t arbitrary: p depth nxt stack fuel)
  case Leaf
  then show ?case by (auto simp: tree_at_link intro: exI [of _ stack])
next
  case (Node l x r)
  obtain a i where x: "x = (a, i)" by force
  with Node.prems(1) obtain lp rp where a: "p = Some a" "st_nodes s a = Some \<lparr>sn_left = lp, sn_right = rp, sn_item = i\<rparr>"
    and tl: "tree_at (st_nodes s) lp l" and tr: "tree_at (st_nodes s) rp r" by auto
  have room: "depth < length stack" "Suc depth + size r \<le> nxt" "nxt \<le> length (stack[depth := a])"
    using Node.prems(2,3) by auto
  obtain stack1 where s1: "length stack1 = length stack" "take (Suc depth) stack1 = take (Suc depth) (stack[depth := a])"
    "drop (nxt - size r) stack1 = map fst (inorder r) @ drop nxt (stack[depth := a])"
    and run1: "list_loop (2 * size r + Suc (2 * size l + fuel)) (Suc depth) nxt rp (stack[depth := a]) s =
      list_loop (Suc (2 * size l + fuel)) (Suc depth) (nxt - size r) None stack1 s"
    using Node.IH(2) [OF tr room(2,3)] by fastforce
  have a1: "stack1 ! depth = a"
    using arg_cong [OF s1(2), of "\<lambda>xs. xs ! depth"] room(1) by simp
  define nxt' where "nxt' = nxt - size r - 1"
  let ?stack2 = "stack1[nxt' := a]"
  have nxt': "nxt - size r = Suc nxt'" "depth + size l \<le> nxt'" "nxt' \<le> length ?stack2" "nxt' < length stack1"
    using Node.prems(2,3) s1(1) by (auto simp: nxt'_def)
  obtain stack3 where s3: "length stack3 = length stack" "take depth stack3 = take depth ?stack2"
    "drop (nxt' - size l) stack3 = map fst (inorder l) @ drop nxt' ?stack2"
    and run2: "list_loop (2 * size l + fuel) depth nxt' lp ?stack2 s = list_loop fuel depth (nxt' - size l) None stack3 s"
    using Node.IH(1) [OF tl nxt'(2,3)] s1(1) by fastforce
  have "list_loop (2 * size (Node l x r) + fuel) depth nxt p stack s =
      list_loop (Suc (2 * size r + Suc (2 * size l + fuel))) depth nxt (Some a) stack s"
    by (simp add: a(1) algebra_simps)
  also have "\<dots> = list_loop (Suc (2 * size l + fuel)) (Suc depth) (nxt - size r) None stack1 s"
    using run1 a(2) room(1) by (simp add: node_at_def)
  also have "\<dots> = list_loop fuel depth (nxt' - size l) None stack3 s"
    using run2 a a1 nxt' s1(1) room(1) by (simp add: node_at_def)
  finally have run: "list_loop (2 * size (Node l x r) + fuel) depth nxt p stack s =
      list_loop fuel depth (nxt - size (Node l x r)) None stack3 s" by (simp add: nxt'_def add.commute)
  have sz: "nxt - size (Node l x r) = nxt' - size l" by (simp add: nxt'_def)
  have "take depth stack1 = take depth stack"
    using arg_cong [OF s1(2), of "take depth"] by simp
  then have "take depth stack3 = take depth stack"
    using s3(2) nxt'(2) by simp
  moreover have "drop nxt' ?stack2 = a # drop (Suc nxt') stack1"
    using Cons_nth_drop_Suc [of nxt' ?stack2] nxt'(4) by simp
  then have "drop (nxt - size (Node l x r)) stack3 = map fst (inorder (Node l x r)) @ drop nxt stack"
    using s3(3) s1(3) nxt'(1) room(2) x sz by simp
  ultimately show ?case using run s3(1) by blast
qed

text \<open>
  \<open>_jc_splay_list\<close> writes the items in their order into the array, whose memory is its stack as
  well: the stack and the list never meet, and no index leaves the array.
\<close>

theorem splay_list_items:
  assumes "holds s xs" and "length xs \<le> length items"
  shows "splay_list items s = (Inr (map fst xs @ drop (length xs) items), s)"
proof -
  from assms(1) obtain t where t: "tree_at (st_nodes s) (st_root s) t" "inorder t = xs" "st_size s = int (length xs)"
    by (auto simp: holds_def)
  then have n: "size t = length xs" by (simp flip: length_inorder)
  obtain stack' where "list_loop (2 * length xs + 1) 0 (length xs) (st_root s) items s = list_loop 1 0 0 None stack' s"
    "stack' = map fst xs @ drop (length xs) items"
    using list_loop_tree [OF t(1), where depth = 0 and nxt = "length xs" and stack = items and fuel = 1] n t(2) assms(2)
    by auto
  then show ?thesis using t(3) by (simp add: splay_list_def)
qed

section \<open>A tree of three items\<close>

definition sample_nodes :: "addr \<rightharpoonup> int splay_node" where
  "sample_nodes = [1 \<mapsto> \<lparr>sn_left = None, sn_right = None, sn_item = 10\<rparr>,
     2 \<mapsto> \<lparr>sn_left = Some 1, sn_right = Some 3, sn_item = 20\<rparr>,
     3 \<mapsto> \<lparr>sn_left = None, sn_right = None, sn_item = 30\<rparr>,
     4 \<mapsto> \<lparr>sn_left = None, sn_right = None, sn_item = 25\<rparr>]"

definition sample_tree :: "int splay_tree" where
  "sample_tree = (splay_init sample_nodes)\<lparr>st_root := Some 2, st_size := 3\<rparr>"

lemma sample_holds: "holds sample_tree [(1, 10), (2, 20), (3, 30)]"
  by (rule holdsI [where t = "Node (Node Leaf (1, 10) Leaf) (2, 20) (Node Leaf (3, 30) Leaf)"])
    (simp_all add: sample_tree_def sample_nodes_def splay_init_def)

lemma sample_sorted: "sorted_items (\<lambda>x y. x - y) [(1, 10), (2, 20), (3, 30 :: int)]"
  by (simp add: sorted_items_def)

lemma splay_find_lookup_witness:
  "fst (splay_find (\<lambda>x y. x - y) 30 sample_tree) = Inr (Some 3)
   \<and> fst (splay_find (\<lambda>x y. x - y) 25 sample_tree) = Inr None"
  using splay_find_lookup [OF comparison_diff [where k = "\<lambda>x. x"] sample_holds sample_sorted, of 30]
    splay_find_lookup [OF comparison_diff [where k = "\<lambda>x. x"] sample_holds sample_sorted, of 25]
  by (auto simp: lookup_def)

lemma splay_insert_sorted_witness:
  "\<exists>s'. splay_insert (\<lambda>x y. x - y) 4 sample_tree = (Inr (), s')
     \<and> holds s' [(1, 10), (2, 20), (4, 25), (3, 30)]"
  using splay_insert_sorted [OF comparison_diff [where k = "\<lambda>x. x"] sample_holds sample_sorted,
      of 4 "\<lparr>sn_left = None, sn_right = None, sn_item = 25\<rparr>"]
  by (auto simp: sample_tree_def splay_init_def sample_nodes_def add_item_def)

lemma splay_remove_filter_witness:
  "\<exists>s'. splay_remove (\<lambda>x y. x - y) 20 sample_tree = (Inr (), s') \<and> holds s' [(1, 10), (3, 30)]"
  using splay_remove_filter [OF comparison_diff [where k = "\<lambda>x. x"] sample_holds sample_sorted, of 20] by auto

lemma splay_list_items_witness:
  "splay_list [0, 0, 0, 7] sample_tree = (Inr [1, 2, 3, 7], sample_tree)"
  using splay_list_items [OF sample_holds, of "[0, 0, 0, 7]"] by simp

end
