(* ===== verification/Class_File.thy ===== *)
theory Class_File
  imports Splay
begin

text \<open>
  The class file table of the virtual machine, \<open>libjc/class_file.c\<close> with the reference counts of
  \<open>libjc/class_bytes.c\<close>: a splay tree of reference-counted nodes, one for every class file seen.
  The abstract table is a finite map from class names to entries.
\<close>

section \<open>State\<close>

text \<open>The bytes of a class file, shared and reference-counted; the function \<open>freer\<close> returns their memory.\<close>

record classbytes =
  cb_bytes :: "u8 list"
  cb_hash :: u64
  cb_refs :: u32

record class_node =
  cn_name :: cstr
  cn_refs :: u32
  cn_hash :: u64
  cn_bytes :: "addr option"

text \<open>The fields \<open>classfiles\<close> and \<open>generation_enabled\<close> of the virtual machine, and the memory of the bytes.\<close>

record class_table =
  classfiles :: "class_node splay_tree"
  generation_enabled :: bool
  bytes_mem :: "addr \<rightharpoonup> classbytes"

definition classfile_tree_compare :: "class_node \<Rightarrow> class_node \<Rightarrow> int" where
  "classfile_tree_compare node1 node2 = strcmp (cn_name node1) (cn_name node2)"

definition on_tree :: "(class_node splay_tree, 'a) mon \<Rightarrow> (class_table, 'a) mon" where
  "on_tree m = (\<lambda>s. case m (classfiles s) of (r, t) \<Rightarrow> (r, s\<lparr>classfiles := t\<rparr>))"

section \<open>Class bytes\<close>

definition the_bytes :: "addr \<Rightarrow> (class_table, classbytes) mon" where
  "the_bytes b = (\<lambda>s. case bytes_mem s b of
     None \<Rightarrow> (Inl (Fault Null_dereference), s) | Some c \<Rightarrow> (Inr c, s))"

text \<open>The compare-and-swap loops add and subtract one atomically.\<close>

definition dup_classbytes :: "addr \<Rightarrow> (class_table, addr) mon" where
  "dup_classbytes b = bindM (the_bytes b) (\<lambda>c.
     thenM (modify (\<lambda>s. s\<lparr>bytes_mem := (bytes_mem s)(b \<mapsto> c\<lparr>cb_refs := cb_refs c + 1\<rparr>)\<rparr>)) (ret b))"

definition free_classbytes :: "addr option \<Rightarrow> (class_table, unit) mon" where
  "free_classbytes p = (case p of None \<Rightarrow> ret ()
     | Some b \<Rightarrow> bindM (the_bytes b) (\<lambda>c.
         modify (\<lambda>s. s\<lparr>bytes_mem := (bytes_mem s)(b := if cb_refs c - 1 = 0 then None
           else Some (c\<lparr>cb_refs := cb_refs c - 1\<rparr>))\<rparr>)))"

section \<open>Class file nodes\<close>

text \<open>A key on the stack of the caller: only its name is set.\<close>

definition name_key :: "cstr \<Rightarrow> class_node" where
  "name_key name = \<lparr>cn_name = name, cn_refs = 0, cn_hash = 0, cn_bytes = None\<rparr>"

definition node_info :: "addr \<Rightarrow> (class_table, class_node) mon" where
  "node_info a = bindM (on_tree (node_at a)) (\<lambda>n. ret (sn_item n))"

definition set_info :: "addr \<Rightarrow> class_node \<Rightarrow> (class_table, unit) mon" where
  "set_info a i = on_tree (bindM (node_at a) (\<lambda>n. put_node a (n\<lparr>sn_item := i\<rparr>)))"

definition free_node :: "addr \<Rightarrow> (class_table, unit) mon" where
  "free_node a = on_tree (modify (\<lambda>t. t\<lparr>st_nodes := (st_nodes t)(a := None)\<rparr>))"

text \<open>
  \<open>_jc_ref_class_node\<close>. The argument \<open>mem\<close> is the memory that \<open>malloc\<close> finds for a new node, or None.
\<close>

definition new_class_node :: "addr option \<Rightarrow> cstr \<Rightarrow> u64 \<Rightarrow> addr option \<Rightarrow> (class_table, addr) mon" where
  "new_class_node mem name hash cbytes = (case mem of
     None \<Rightarrow> fails (Exn OutOfMemoryError)
   | Some a \<Rightarrow>
       bindM (case cbytes of None \<Rightarrow> ret None | Some b \<Rightarrow> bindM (dup_classbytes b) (\<lambda>b. ret (Some b))) (\<lambda>bytes.
       thenM (on_tree (put_node a \<lparr>sn_left = None, sn_right = None,
         sn_item = \<lparr>cn_name = name, cn_refs = 1, cn_hash = hash, cn_bytes = bytes\<rparr>\<rparr>)) (
       thenM (on_tree (splay_insert classfile_tree_compare a)) (ret a))))"

definition ref_class_node :: "addr option \<Rightarrow> cstr \<Rightarrow> u64 \<Rightarrow> addr option \<Rightarrow> (class_table, addr) mon" where
  "ref_class_node mem name hash cbytes' =
     bindM (gets generation_enabled) (\<lambda>gen.
     let cbytes = (if gen then cbytes' else None) in
     bindM (on_tree (splay_find classfile_tree_compare (name_key name))) (\<lambda>found.
     case found of
       Some a \<Rightarrow> bindM (node_info a) (\<lambda>node.
         if hash \<noteq> cn_hash node then fails (Exn LinkageError)
         else thenM (case cbytes of
             Some b \<Rightarrow> if cn_bytes node = None
               then bindM (dup_classbytes b) (\<lambda>b. set_info a (node\<lparr>cn_bytes := Some b\<rparr>)) else ret ()
           | None \<Rightarrow> ret ())
           (bindM (node_info a) (\<lambda>node. thenM (set_info a (node\<lparr>cn_refs := cn_refs node + 1\<rparr>)) (ret a))))
     | None \<Rightarrow> new_class_node mem name hash cbytes))"

text \<open>The common part of \<open>_jc_unref_class_node\<close> and of the loop of \<open>_jc_unref_class_deps\<close>.\<close>

definition drop_ref :: "addr \<Rightarrow> (class_table, unit) mon" where
  "drop_ref a =
     bindM (node_info a) (\<lambda>node.
     thenM (set_info a (node\<lparr>cn_refs := cn_refs node - 1\<rparr>)) (
     if cn_refs node - 1 = 0 then
       thenM (on_tree (splay_remove classfile_tree_compare (node\<lparr>cn_refs := 0\<rparr>))) (
       thenM (free_classbytes (cn_bytes node)) (free_node a))
     else ret ()))"

text \<open>\<open>_jc_unref_class_node\<close>: the new value of \<open>*nodep\<close>.\<close>

definition unref_class_node :: "addr option \<Rightarrow> (class_table, addr option) mon" where
  "unref_class_node nodep = (case nodep of None \<Rightarrow> ret None | Some a \<Rightarrow> thenM (drop_ref a) (ret None))"

fun unref_class_deps :: "cstr list \<Rightarrow> (class_table, unit) mon" where
  "unref_class_deps [] = ret ()"
| "unref_class_deps (name # deps) =
     bindM (on_tree (splay_find classfile_tree_compare (name_key name))) (\<lambda>found.
     bindM (case found of None \<Rightarrow> fails (Fault Null_dereference) | Some a \<Rightarrow> ret a) (\<lambda>a.
     thenM (drop_ref a) (unref_class_deps deps)))"

section \<open>The abstract table\<close>

lemma compare_key [simp]: "classfile_tree_compare (name_key (cn_name i)) = classfile_tree_compare i"
  by (simp add: fun_eq_iff classfile_tree_compare_def name_key_def)

lemma compare_zero: "classfile_tree_compare i j = 0 \<longleftrightarrow> cn_name i = cn_name j"
  by (simp add: classfile_tree_compare_def strcmp_zero)

interpretation cls: comparison classfile_tree_compare
  unfolding classfile_tree_compare_def [abs_def] by (rule comparison_str)

text \<open>A table maps the name of every node to its address and its contents.\<close>

type_synonym table = "cstr \<rightharpoonup> addr \<times> class_node"

definition table_of :: "(addr \<times> class_node) list \<Rightarrow> table \<Rightarrow> bool" where
  "table_of xs T \<longleftrightarrow> (\<forall>name a i. T name = Some (a, i) \<longleftrightarrow> (a, i) \<in> set xs \<and> cn_name i = name)"

definition table :: "class_table \<Rightarrow> table \<Rightarrow> bool" where
  "table s T \<longleftrightarrow> (\<exists>xs. holds (classfiles s) xs \<and> sorted_items classfile_tree_compare xs \<and> table_of xs T)"

text \<open>
  Reference counts of the bytes: the nodes of the table hold one each, and \<open>ext\<close> counts the others.
  No bytes remain when all references are gone.
\<close>

definition held :: "table \<Rightarrow> cstr \<Rightarrow> addr option" where
  "held T name = Option.bind (T name) (\<lambda>x. cn_bytes (snd x))"

definition users :: "table \<Rightarrow> addr \<Rightarrow> cstr set" where
  "users T b = {name. held T name = Some b}"

definition count_of :: "(addr \<rightharpoonup> classbytes) \<Rightarrow> addr \<Rightarrow> nat" where
  "count_of mem b = (case mem b of None \<Rightarrow> 0 | Some c \<Rightarrow> unat (cb_refs c))"

definition bytes_counted :: "(addr \<Rightarrow> nat) \<Rightarrow> class_table \<Rightarrow> table \<Rightarrow> bool" where
  "bytes_counted ext s T \<longleftrightarrow> (\<forall>b. count_of (bytes_mem s) b = ext b + card (users T b))
     \<and> (\<forall>b c. bytes_mem s b = Some c \<longrightarrow> cb_refs c \<noteq> 0)"

lemma tableD: "table_of xs T \<Longrightarrow> T name = Some (a, i) \<Longrightarrow> (a, i) \<in> set xs \<and> cn_name i = name"
  unfolding table_of_def by blast

lemma tableI: "table_of xs T \<Longrightarrow> (a, i) \<in> set xs \<Longrightarrow> T (cn_name i) = Some (a, i)"
  unfolding table_of_def by blast

lemma table_of_finite:
  assumes "table_of xs T"
  shows "finite (dom T)"
proof (rule finite_subset)
  show "dom T \<subseteq> (cn_name \<circ> snd) ` set xs"
  proof
    fix name assume "name \<in> dom T"
    then obtain a i where "T name = Some (a, i)" by auto
    then show "name \<in> (cn_name \<circ> snd) ` set xs" using tableD [OF assms] by force
  qed
qed simp

lemma users_finite: "finite (dom T) \<Longrightarrow> finite (users T b)"
  by (rule finite_subset [of _ "dom T"]) (auto simp: users_def held_def bind_eq_Some_conv)

lemma lookup_table:
  assumes "holds t xs" and "sorted_items classfile_tree_compare xs" and "table_of xs T"
  shows "lookup (classfile_tree_compare (name_key name)) xs = map_option fst (T name)"
proof (cases "T name")
  case None
  have "classfile_tree_compare (name_key name) (snd x) \<noteq> 0" if "x \<in> set xs" for x
    using tableI [OF assms(3), of "fst x" "snd x"] None that by (auto simp: compare_zero name_key_def)
  then show ?thesis using None by (simp add: cls.spl.lookup_none)
next
  case (Some p)
  obtain a i where p: "p = (a, i)" by force
  then have "(a, i) \<in> set xs \<and> classfile_tree_compare (name_key name) i = 0"
    using tableD [OF assms(3), of name a i] Some by (simp add: compare_zero name_key_def)
  then have "lookup (classfile_tree_compare (name_key name)) xs = Some a"
    using cls.spl.lookup_iff [of t xs "name_key name" a] assms(1,2) by blast
  then show ?thesis using Some p by simp
qed

section \<open>Nodes of the tree\<close>

lemma tree_node: "tree_at ns p t \<Longrightarrow> (a, i) \<in> set (inorder t) \<Longrightarrow> \<exists>n. ns a = Some n \<and> sn_item n = i"
proof (induction t arbitrary: p)
  case (Node l x r)
  then show ?case by (cases x) fastforce
qed simp

lemma holds_node: "holds t xs \<Longrightarrow> (a, i) \<in> set xs \<Longrightarrow> \<exists>n. st_nodes t a = Some n \<and> sn_item n = i"
  unfolding holds_def by (elim conjE exE) (rule tree_node, assumption, simp only:)

definition upd :: "addr \<Rightarrow> 'i \<Rightarrow> addr \<times> 'i \<Rightarrow> addr \<times> 'i" where
  "upd a i x = (if fst x = a then (a, i) else x)"

lemma fst_upd [simp]: "fst (upd a i x) = fst x"
  by (simp add: upd_def)

lemma map_fst_upd [simp]: "map fst (map (upd a i) xs) = map fst xs"
  by simp

lemma tree_update:
  assumes "ns a = Some n"
  shows "tree_at ns p t \<Longrightarrow> tree_at (ns(a \<mapsto> n\<lparr>sn_item := i\<rparr>)) p (map_tree (upd a i) t)"
proof (induction t arbitrary: p)
  case (Node l x r)
  obtain b j where x: "x = (b, j)" by force
  with Node.prems obtain lp rp where p: "p = Some b" "ns b = Some \<lparr>sn_left = lp, sn_right = rp, sn_item = j\<rparr>"
    and lr: "tree_at ns lp l" "tree_at ns rp r" by auto
  note IH = Node.IH(1) [OF lr(1)] Node.IH(2) [OF lr(2)]
  show ?case
  proof (cases "b = a")
    case True
    then have "n = \<lparr>sn_left = lp, sn_right = rp, sn_item = j\<rparr>" using p(2) assms by simp
    then show ?thesis using IH True x p(1) by (simp add: upd_def)
  next
    case False
    then show ?thesis using IH x p by (simp add: upd_def)
  qed
qed simp

lemma inorder_map_tree: "inorder (map_tree f t) = map f (inorder t)"
  by (induction t) auto

lemma holds_update:
  assumes "holds t xs" and "st_nodes t a = Some n"
  shows "holds (t\<lparr>st_nodes := (st_nodes t)(a \<mapsto> n\<lparr>sn_item := i\<rparr>)\<rparr>) (map (upd a i) xs)"
proof -
  from assms(1) obtain u where u: "tree_at (st_nodes t) (st_root t) u" "inorder u = xs"
    "distinct (map fst xs)" "st_size t = int (length xs)" by (auto simp: holds_def)
  show ?thesis
    by (rule holdsI [where t = "map_tree (upd a i) u"])
      (use u assms(2) in \<open>simp_all add: tree_update inorder_map_tree comp_def\<close>)
qed

lemma holds_other:
  assumes "holds t xs" and "a \<notin> fst ` set xs"
  shows "holds (t\<lparr>st_nodes := (st_nodes t)(a := n)\<rparr>) xs"
proof -
  from assms(1) obtain u where u: "tree_at (st_nodes t) (st_root t) u" "inorder u = xs"
    "distinct (map fst xs)" "st_size t = int (length xs)" by (auto simp: holds_def)
  have "tree_at ((st_nodes t)(a := n)) (st_root t) u"
    using u(1,2) assms(2) tree_at_other [of a u] by blast
  with u show ?thesis by (intro holdsI [where t = u]) simp_all
qed

lemma sorted_update:
  assumes "sorted_items classfile_tree_compare xs" and "\<forall>x \<in> set xs. fst x = a \<longrightarrow> cn_name (snd x) = cn_name i"
  shows "sorted_items classfile_tree_compare (map (upd a i) xs)"
  unfolding sorted_items_def sorted_wrt_map
proof (rule sorted_wrt_mono_rel)
  show "sorted_wrt (\<lambda>x y. classfile_tree_compare (snd x) (snd y) < 0) xs"
    using assms(1) by (simp add: sorted_items_def)
  have same: "cn_name (snd (upd a i x)) = cn_name (snd x)" if "x \<in> set xs" for x
    using assms(2) that by (simp add: upd_def)
  fix x y assume "x \<in> set xs" "y \<in> set xs" "classfile_tree_compare (snd x) (snd y) < 0"
  then show "classfile_tree_compare (snd (upd a i x)) (snd (upd a i y)) < 0"
    by (simp add: classfile_tree_compare_def same)
qed

lemma address_item: "distinct (map fst xs) \<Longrightarrow> (a, i) \<in> set xs \<Longrightarrow> (a, j) \<in> set xs \<Longrightarrow> j = i"
  by (simp add: eq_key_imp_eq_value)

lemma table_of_update:
  assumes "distinct (map fst xs)" and "table_of xs T" and "T name = Some (a, i)" and "cn_name j = name"
  shows "table_of (map (upd a j) xs) (T(name \<mapsto> (a, j)))"
  unfolding table_of_def
proof (intro allI)
  fix n b k
  have ai: "(a, i) \<in> set xs" "cn_name i = name" using tableD [OF assms(2,3)] by auto
  have *: "(b, k) \<in> set (map (upd a j) xs) \<longleftrightarrow> (if b = a then k = j else (b, k) \<in> set xs)"
    using ai(1) by (force simp: upd_def)
  show "(T(name \<mapsto> (a, j))) n = Some (b, k) \<longleftrightarrow> (b, k) \<in> set (map (upd a j) xs) \<and> cn_name k = n"
  proof (cases "n = name")
    case True
    have "b = a" if "(b, k) \<in> set xs" "cn_name k = name"
      using tableI [OF assms(2) that(1)] that(2) assms(3) by simp
    then show ?thesis using True * assms(4) by auto
  next
    case False
    have "T n = Some (b, k) \<longleftrightarrow> (b, k) \<in> set xs \<and> cn_name k = n"
      using assms(2) unfolding table_of_def by blast
    moreover have "cn_name k = name" if "(a, k) \<in> set xs"
      using address_item [OF assms(1) ai(1) that] ai(2) by simp
    ultimately show ?thesis using False * assms(4) by auto
  qed
qed


lemma table_of_delete:
  assumes "table_of xs T" and "cn_name k = name"
  shows "table_of (filter (\<lambda>x. classfile_tree_compare k (snd x) \<noteq> 0) xs) (T(name := None))"
  unfolding table_of_def
proof (intro allI)
  fix n b j
  have "T n = Some (b, j) \<longleftrightarrow> (b, j) \<in> set xs \<and> cn_name j = n"
    using assms(1) unfolding table_of_def by blast
  then show "(T(name := None)) n = Some (b, j) \<longleftrightarrow>
      (b, j) \<in> set (filter (\<lambda>x. classfile_tree_compare k (snd x) \<noteq> 0) xs) \<and> cn_name j = n"
    using assms(2) by (auto simp: compare_zero)
qed

lemma table_of_add:
  assumes "table_of xs T" and "T (cn_name k) = None"
  shows "table_of (add_item classfile_tree_compare a k xs) (T(cn_name k \<mapsto> (a, k)))"
  unfolding table_of_def
proof (intro allI)
  fix n b j
  have none: "cn_name k \<noteq> cn_name (snd x)" if "x \<in> set xs" for x
    using tableI [OF assms(1), of "fst x" "snd x"] assms(2) that by (metis option.distinct(1) prod.collapse)
  then have s: "set (add_item classfile_tree_compare a k xs) = insert (a, k) (set xs)"
    by (intro cls.spl.set_add_item) (simp add: compare_zero)
  have "T n = Some (b, j) \<longleftrightarrow> (b, j) \<in> set xs \<and> cn_name j = n"
    using assms(1) unfolding table_of_def by blast
  then show "(T(cn_name k \<mapsto> (a, k))) n = Some (b, j) \<longleftrightarrow>
      (b, j) \<in> set (add_item classfile_tree_compare a k xs) \<and> cn_name j = n"
    unfolding s using none [of "(b, j)"] by auto
qed

section \<open>The steps of the operations\<close>

lemma on_tree_run [simp]: "m (classfiles s) = (r, t) \<Longrightarrow> on_tree m s = (r, s\<lparr>classfiles := t\<rparr>)"
  by (simp add: on_tree_def)

text \<open>The three parts of a table, and what each step does to them.\<close>

lemma tableE:
  assumes "table s T"
  obtains xs where "holds (classfiles s) xs" and "sorted_items classfile_tree_compare xs"
    and "table_of xs T" and "distinct (map fst xs)"
  using assms by (auto simp: table_def holds_def)

lemma find_step:
  assumes "table s T"
  shows "\<exists>t. on_tree (splay_find classfile_tree_compare (name_key name)) s =
     (Inr (map_option fst (T name)), s\<lparr>classfiles := t\<rparr>) \<and> table (s\<lparr>classfiles := t\<rparr>) T
     \<and> (\<forall>a. st_nodes (classfiles s) a = None \<longrightarrow> st_nodes t a = None)"
proof -
  obtain xs where xs: "holds (classfiles s) xs" "sorted_items classfile_tree_compare xs"
    "table_of xs T" "distinct (map fst xs)" by (rule tableE [OF assms])
  obtain t where t: "splay_find classfile_tree_compare (name_key name) (classfiles s) =
      (Inr (lookup (classfile_tree_compare (name_key name)) xs), t)" "holds t xs"
    "\<forall>a. a \<notin> fst ` set xs \<longrightarrow> st_nodes t a = st_nodes (classfiles s) a"
    using cls.spl.find_law [of "classfiles s" xs "name_key name"] xs by blast
  have "st_nodes t a = None" if "st_nodes (classfiles s) a = None" for a
  proof -
    have "a \<notin> fst ` set xs" using holds_node [OF xs(1)] that by fastforce
    then show ?thesis using t(3) that by simp
  qed
  moreover have "table (s\<lparr>classfiles := t\<rparr>) T" using t(2) xs by (auto simp: table_def)
  ultimately show ?thesis using t(1) lookup_table [OF xs(1-3)] by auto
qed

lemma node_info_step:
  assumes "table s T" and "T name = Some (a, i)"
  shows "node_info a s = (Inr i, s)"
proof -
  obtain xs where xs: "holds (classfiles s) xs" "table_of xs T" by (rule tableE [OF assms(1)])
  obtain n where "st_nodes (classfiles s) a = Some n" "sn_item n = i"
    using holds_node [OF xs(1)] tableD [OF xs(2) assms(2)] by blast
  then show ?thesis by (simp add: node_info_def)
qed

lemma set_info_step:
  assumes "table s T" and "T name = Some (a, i)" and "cn_name j = name"
  shows "\<exists>t. set_info a j s = (Inr (), s\<lparr>classfiles := t\<rparr>) \<and> table (s\<lparr>classfiles := t\<rparr>) (T(name \<mapsto> (a, j)))"
proof -
  obtain xs where xs: "holds (classfiles s) xs" "sorted_items classfile_tree_compare xs"
    "table_of xs T" "distinct (map fst xs)" by (rule tableE [OF assms(1)])
  note ai = tableD [OF xs(3) assms(2)]
  obtain n where n: "st_nodes (classfiles s) a = Some n"
    using holds_node [OF xs(1)] ai by blast
  let ?t = "(classfiles s)\<lparr>st_nodes := (st_nodes (classfiles s))(a \<mapsto> n\<lparr>sn_item := j\<rparr>)\<rparr>"
  have "set_info a j s = (Inr (), s\<lparr>classfiles := ?t\<rparr>)"
    using n by (simp add: set_info_def put_node_def)
  moreover have "\<forall>x \<in> set xs. fst x = a \<longrightarrow> cn_name (snd x) = cn_name j"
    using address_item [OF xs(4)] ai assms(3) by force
  then have "table (s\<lparr>classfiles := ?t\<rparr>) (T(name \<mapsto> (a, j)))"
    unfolding table_def
    using holds_update [OF xs(1) n, of j] sorted_update [OF xs(2)] table_of_update [OF xs(4,3) assms(2,3)] by auto
  ultimately show ?thesis by blast
qed

lemma remove_step:
  assumes "table s T" and "T name = Some (a, i)" and "cn_name j = name"
  shows "\<exists>t. on_tree (splay_remove classfile_tree_compare j) s = (Inr (), s\<lparr>classfiles := t\<rparr>)
     \<and> table (s\<lparr>classfiles := t\<rparr>) (T(name := None))"
proof -
  obtain xs where xs: "holds (classfiles s) xs" "sorted_items classfile_tree_compare xs"
    "table_of xs T" "distinct (map fst xs)" by (rule tableE [OF assms(1)])
  have "\<exists>x \<in> set xs. classfile_tree_compare j (snd x) = 0"
    using tableD [OF xs(3) assms(2)] assms(3) by (force simp: compare_zero)
  then obtain t where t: "splay_remove classfile_tree_compare j (classfiles s) = (Inr (), t)"
    "holds t (filter (\<lambda>x. classfile_tree_compare j (snd x) \<noteq> 0) xs)"
    "sorted_items classfile_tree_compare (filter (\<lambda>x. classfile_tree_compare j (snd x) \<noteq> 0) xs)"
    using cls.spl.remove_law [of "classfiles s" xs j] xs by blast
  then have "table (s\<lparr>classfiles := t\<rparr>) (T(name := None))"
    using table_of_delete [OF xs(3) assms(3)] by (auto simp: table_def)
  then show ?thesis using t(1) by auto
qed


lemma address_name:
  assumes "table s T" and "T m = Some (a, i)" and "T n = Some (a, j)"
  shows "n = m"
proof -
  obtain xs where xs: "table_of xs T" "distinct (map fst xs)" by (rule tableE [OF assms(1)])
  show ?thesis using tableD [OF xs(1) assms(2)] tableD [OF xs(1) assms(3)] address_item [OF xs(2), of a i j] by blast
qed

lemma free_step:
  assumes "table s T" and "\<forall>name i. T name \<noteq> Some (a, i)"
  shows "\<exists>t. free_node a s = (Inr (), s\<lparr>classfiles := t\<rparr>) \<and> table (s\<lparr>classfiles := t\<rparr>) T"
proof -
  obtain xs where xs: "holds (classfiles s) xs" "sorted_items classfile_tree_compare xs"
    "table_of xs T" "distinct (map fst xs)" by (rule tableE [OF assms(1)])
  have "a \<notin> fst ` set xs" using tableI [OF xs(3)] assms(2) by force
  then have "holds ((classfiles s)\<lparr>st_nodes := (st_nodes (classfiles s))(a := None)\<rparr>) xs"
    by (rule holds_other [OF xs(1)])
  with xs have "table (s\<lparr>classfiles := (classfiles s)\<lparr>st_nodes := (st_nodes (classfiles s))(a := None)\<rparr>\<rparr>) T"
    by (auto simp: table_def)
  then show ?thesis by (auto simp: free_node_def)
qed

lemma add_step:
  assumes "table s T" and "T (cn_name k) = None" and "st_nodes (classfiles s) a = None"
  shows "\<exists>t. thenM (on_tree (put_node a \<lparr>sn_left = None, sn_right = None, sn_item = k\<rparr>)) (
       thenM (on_tree (splay_insert classfile_tree_compare a)) (ret a)) s = (Inr a, s\<lparr>classfiles := t\<rparr>)
     \<and> table (s\<lparr>classfiles := t\<rparr>) (T(cn_name k \<mapsto> (a, k)))"
proof -
  obtain xs where xs: "holds (classfiles s) xs" "sorted_items classfile_tree_compare xs"
    "table_of xs T" "distinct (map fst xs)" by (rule tableE [OF assms(1)])
  let ?n = "\<lparr>sn_left = None, sn_right = None, sn_item = k\<rparr>"
  let ?t = "(classfiles s)\<lparr>st_nodes := (st_nodes (classfiles s))(a \<mapsto> ?n)\<rparr>"
  have a: "a \<notin> fst ` set xs" using holds_node [OF xs(1)] assms(3) by fastforce
  have "\<forall>x \<in> set xs. classfile_tree_compare k (snd x) \<noteq> 0"
  proof
    fix x assume "x \<in> set xs"
    then have "T (cn_name (snd x)) \<noteq> None" using tableI [OF xs(3), of "fst x" "snd x"] by simp
    then show "classfile_tree_compare k (snd x) \<noteq> 0" using assms(2) by (auto simp: compare_zero)
  qed
  moreover have "holds ?t xs" by (rule holds_other [OF xs(1) a])
  ultimately obtain t where t: "splay_insert classfile_tree_compare a ?t = (Inr (), t)"
    "holds t (add_item classfile_tree_compare a k xs)" "sorted_items classfile_tree_compare (add_item classfile_tree_compare a k xs)"
    using cls.spl.insert_law [of ?t xs a ?n] a xs(2) by auto
  then have "table (s\<lparr>classfiles := t\<rparr>) (T(cn_name k \<mapsto> (a, k)))"
    using table_of_add [OF xs(3) assms(2)] by (auto simp: table_def)
  then show ?thesis using t(1) by (auto simp: put_node_def)
qed

section \<open>Reference counts of the bytes\<close>

lemma users_gain:
  assumes "finite (dom T)" and "held T name = None" and "held T' = (held T)(name := Some b)"
  shows "card (users T' c) = card (users T c) + (if c = b then 1 else 0)"
proof -
  have "users T' b = insert name (users T b)" "name \<notin> users T b" "c \<noteq> b \<Longrightarrow> users T' c = users T c"
    using assms(2,3) by (auto simp: users_def)
  then show ?thesis using users_finite [OF assms(1), of b] by simp
qed

lemma held_upd: "held (T(name := x)) = (held T)(name := Option.bind x (\<lambda>x. cn_bytes (snd x)))"
  by (auto simp: held_def)

lemma bytes_counted_cong: "bytes_mem s' = bytes_mem s \<Longrightarrow> held T' = held T \<Longrightarrow> bytes_counted ext s' T' = bytes_counted ext s T"
  by (simp add: bytes_counted_def users_def)

lemma table_finite: "table s T \<Longrightarrow> finite (dom T)"
  by (auto simp: table_def intro: table_of_finite)

lemma unat_plus_one: "unat (c :: u32) + 1 < 2 ^ 32 \<Longrightarrow> unat (c + 1) = unat c + 1"
  by (simp add: unat_word_ariths)

lemma unat_minus_one': "c \<noteq> (0 :: u32) \<Longrightarrow> unat (c - 1) = unat c - 1"
  by (rule unat_minus_one)

lemma dup_step:
  assumes c: "bytes_counted ext s T" and fin: "finite (dom T)"
    and b: "0 < ext b" "ext b + card (users T b) < 2 ^ 32 - 1"
    and h: "held T name = None" "held T' = (held T)(name := Some b)"
  shows "\<exists>m. dup_classbytes b s = (Inr b, s\<lparr>bytes_mem := m\<rparr>) \<and> bytes_counted ext (s\<lparr>bytes_mem := m\<rparr>) T'"
proof -
  have n: "count_of (bytes_mem s) d = ext d + card (users T d)" for d using c by (simp add: bytes_counted_def)
  from n [of b] b(1) obtain r where r: "bytes_mem s b = Some r" "unat (cb_refs r) = ext b + card (users T b)"
    by (cases "bytes_mem s b") (auto simp: count_of_def)
  let ?m = "(bytes_mem s)(b \<mapsto> r\<lparr>cb_refs := cb_refs r + 1\<rparr>)"
  have u: "unat (cb_refs r + 1) = ext b + card (users T b) + 1"
    using b(2) r(2) by (subst unat_plus_one) simp_all
  have "count_of ?m d = ext d + card (users T' d)" for d
    using n [of d] u users_gain [OF fin h, of d] by (auto simp: count_of_def)
  moreover have "cb_refs r + 1 \<noteq> 0" using u by auto
  ultimately have "bytes_counted ext (s\<lparr>bytes_mem := ?m\<rparr>) T'"
    using c by (auto simp: bytes_counted_def)
  then show ?thesis using r(1) by (auto simp: dup_classbytes_def the_bytes_def)
qed

lemma release_step:
  assumes c: "bytes_counted ext s T" and fin: "finite (dom T')"
    and h: "held T' name = None" "held T = (held T')(name := p)"
  shows "\<exists>m. free_classbytes p s = (Inr (), s\<lparr>bytes_mem := m\<rparr>) \<and> bytes_counted ext (s\<lparr>bytes_mem := m\<rparr>) T'"
proof (cases p)
  case None
  then have "held T = held T'" using h by (simp add: fun_upd_idem)
  then have "bytes_counted ext (s\<lparr>bytes_mem := bytes_mem s\<rparr>) T'"
    using c by (subst bytes_counted_cong [of _ s _ T]) simp_all
  then show ?thesis using None by (intro exI [of _ "bytes_mem s"]) (simp add: free_classbytes_def)
next
  case (Some b)
  have gain: "card (users T d) = card (users T' d) + (if d = b then 1 else 0)" for d
    using users_gain [OF fin h(1), of T b d] h(2) Some by simp
  have n: "count_of (bytes_mem s) d = ext d + card (users T d)" for d using c by (simp add: bytes_counted_def)
  from n [of b] gain [of b] obtain r where r: "bytes_mem s b = Some r" "unat (cb_refs r) = ext b + card (users T' b) + 1"
    by (cases "bytes_mem s b") (auto simp: count_of_def)
  let ?m = "(bytes_mem s)(b := if cb_refs r - 1 = 0 then None else Some (r\<lparr>cb_refs := cb_refs r - 1\<rparr>))"
  have u: "unat (cb_refs r - 1) = ext b + card (users T' b)"
    using r(2) by (subst unat_minus_one) auto
  have "count_of ?m d = ext d + card (users T' d)" for d
    using n [of d] u gain [of d] by (auto simp: count_of_def)
  then have "bytes_counted ext (s\<lparr>bytes_mem := ?m\<rparr>) T'"
    using c by (auto simp: bytes_counted_def)
  then show ?thesis using r(1) Some by (auto simp: free_classbytes_def the_bytes_def)
qed


section \<open>The operations refine the abstract table\<close>

text \<open>A reference to a class file on the abstract table.\<close>

definition ref_spec :: "bool \<Rightarrow> addr option \<Rightarrow> cstr \<Rightarrow> u64 \<Rightarrow> addr option \<Rightarrow> table \<Rightarrow> (failure + addr) \<times> table" where
  "ref_spec gen mem name hash cbytes T =
    (let cb = (if gen then cbytes else None) in
     case T name of
       Some (a, i) \<Rightarrow>
         if hash \<noteq> cn_hash i then (Inl (Exn LinkageError), T)
         else (Inr a, T(name \<mapsto> (a, i\<lparr>cn_bytes := (if cn_bytes i = None then cb else cn_bytes i),
                                   cn_refs := cn_refs i + 1\<rparr>)))
     | None \<Rightarrow> (case mem of
         None \<Rightarrow> (Inl (Exn OutOfMemoryError), T)
       | Some a \<Rightarrow> (Inr a, T(name \<mapsto> (a, \<lparr>cn_name = name, cn_refs = 1, cn_hash = hash, cn_bytes = cb\<rparr>)))))"

lemma table_bytes_mem: "table (s\<lparr>bytes_mem := m\<rparr>) T = table s T"
  by (simp add: table_def)

lemma save_bytes_step:
  assumes tb: "table s T" and c: "bytes_counted ext s T" and n: "T name = Some (a, i)"
    and b: "\<forall>b. cb = Some b \<longrightarrow> 0 < ext b \<and> ext b + card (users T b) < 2 ^ 32 - 1"
  shows "\<exists>s'. (case cb of
             Some b \<Rightarrow> if cn_bytes i = None
               then bindM (dup_classbytes b) (\<lambda>b. set_info a (i\<lparr>cn_bytes := Some b\<rparr>)) else ret ()
           | None \<Rightarrow> ret ()) s = (Inr (), s')
     \<and> table s' (T(name \<mapsto> (a, i\<lparr>cn_bytes := (if cn_bytes i = None then cb else cn_bytes i)\<rparr>)))
     \<and> bytes_counted ext s' (T(name \<mapsto> (a, i\<lparr>cn_bytes := (if cn_bytes i = None then cb else cn_bytes i)\<rparr>)))"
proof (cases "cn_bytes i = None \<and> cb \<noteq> None")
  case False
  then have "T(name \<mapsto> (a, i\<lparr>cn_bytes := (if cn_bytes i = None then cb else cn_bytes i)\<rparr>)) = T"
    using n by (auto simp: fun_upd_idem)
  with False tb c show ?thesis by (auto split: option.splits)
next
  case True
  then obtain b' where cb: "cb = Some b'" by auto
  let ?T = "T(name \<mapsto> (a, i\<lparr>cn_bytes := Some b'\<rparr>))"
  obtain m where m: "dup_classbytes b' s = (Inr b', s\<lparr>bytes_mem := m\<rparr>)" "bytes_counted ext (s\<lparr>bytes_mem := m\<rparr>) ?T"
    using dup_step [OF c table_finite [OF tb], of b' name ?T] b cb n True by (simp add: held_upd) (simp add: held_def, blast)
  have "cn_name i = name" using tb n by (auto elim!: tableE dest: tableD)
  then obtain t where "set_info a (i\<lparr>cn_bytes := Some b'\<rparr>) (s\<lparr>bytes_mem := m\<rparr>) = (Inr (), s\<lparr>bytes_mem := m, classfiles := t\<rparr>)"
    "table (s\<lparr>bytes_mem := m, classfiles := t\<rparr>) ?T"
    using set_info_step [of "s\<lparr>bytes_mem := m\<rparr>" T name a i "i\<lparr>cn_bytes := Some b'\<rparr>"] tb n by (auto simp: table_bytes_mem)
  moreover have "bytes_counted ext (s\<lparr>bytes_mem := m, classfiles := t\<rparr>) ?T"
    using m(2) by (simp add: bytes_counted_def)
  ultimately show ?thesis using True cb m(1) by simp
qed


lemma count_ref_step:
  assumes tb: "table s T" and c: "bytes_counted ext s T" and n: "T name = Some (a, i)"
  shows "\<exists>s'. bindM (node_info a) (\<lambda>i. thenM (set_info a (i\<lparr>cn_refs := cn_refs i + d\<rparr>)) (ret a)) s = (Inr a, s')
     \<and> table s' (T(name \<mapsto> (a, i\<lparr>cn_refs := cn_refs i + d\<rparr>)))
     \<and> bytes_counted ext s' (T(name \<mapsto> (a, i\<lparr>cn_refs := cn_refs i + d\<rparr>)))"
proof -
  have nm: "cn_name i = name" using tb n by (auto elim!: tableE dest: tableD)
  let ?T = "T(name \<mapsto> (a, i\<lparr>cn_refs := cn_refs i + d\<rparr>))"
  obtain t where t: "set_info a (i\<lparr>cn_refs := cn_refs i + d\<rparr>) s = (Inr (), s\<lparr>classfiles := t\<rparr>)"
    "table (s\<lparr>classfiles := t\<rparr>) ?T"
    using set_info_step [OF tb n, of "i\<lparr>cn_refs := cn_refs i + d\<rparr>"] nm by auto
  have "held ?T = held T" using n by (auto simp: held_def)
  then have "bytes_counted ext (s\<lparr>classfiles := t\<rparr>) ?T"
    using c by (subst bytes_counted_cong [of _ s _ T]) simp_all
  with t node_info_step [OF tb n] show ?thesis by auto
qed

lemma new_node_step:
  assumes tb: "table s T" and c: "bytes_counted ext s T" and n: "T name = None" and a: "st_nodes (classfiles s) a = None"
    and b: "\<forall>b. cb = Some b \<longrightarrow> 0 < ext b \<and> ext b + card (users T b) < 2 ^ 32 - 1"
  shows "\<exists>s'. new_class_node (Some a) name hash cb s = (Inr a, s')
     \<and> table s' (T(name \<mapsto> (a, \<lparr>cn_name = name, cn_refs = 1, cn_hash = hash, cn_bytes = cb\<rparr>)))
     \<and> bytes_counted ext s' (T(name \<mapsto> (a, \<lparr>cn_name = name, cn_refs = 1, cn_hash = hash, cn_bytes = cb\<rparr>)))"
proof -
  let ?k = "\<lparr>cn_name = name, cn_refs = 1, cn_hash = hash, cn_bytes = cb\<rparr>"
  let ?T = "T(name \<mapsto> (a, ?k))"
  have h: "held T name = None" using n by (simp add: held_def)
  have "\<exists>m. (case cb of None \<Rightarrow> ret None | Some b \<Rightarrow> bindM (dup_classbytes b) (\<lambda>b. ret (Some b))) s
      = (Inr cb, s\<lparr>bytes_mem := m\<rparr>) \<and> bytes_counted ext (s\<lparr>bytes_mem := m\<rparr>) ?T"
  proof (cases cb)
    case None
    then have "held ?T = held T" using h by (simp add: held_upd fun_upd_idem)
    then have "bytes_counted ext (s\<lparr>bytes_mem := bytes_mem s\<rparr>) ?T"
      using c by (subst bytes_counted_cong [of _ s _ T]) simp_all
    then show ?thesis using None by (intro exI [of _ "bytes_mem s"]) simp
  next
    case (Some b')
    then have "\<exists>m. dup_classbytes b' s = (Inr b', s\<lparr>bytes_mem := m\<rparr>) \<and> bytes_counted ext (s\<lparr>bytes_mem := m\<rparr>) ?T"
      using b by (intro dup_step [OF c table_finite [OF tb] _ _ h]) (simp_all add: held_upd)
    then obtain m where "dup_classbytes b' s = (Inr b', s\<lparr>bytes_mem := m\<rparr>)" "bytes_counted ext (s\<lparr>bytes_mem := m\<rparr>) ?T" by blast
    then show ?thesis using Some by auto
  qed
  then obtain m where m: "(case cb of None \<Rightarrow> ret None | Some b \<Rightarrow> bindM (dup_classbytes b) (\<lambda>b. ret (Some b))) s
      = (Inr cb, s\<lparr>bytes_mem := m\<rparr>)" "bytes_counted ext (s\<lparr>bytes_mem := m\<rparr>) ?T" by blast
  obtain t where t: "thenM (on_tree (put_node a \<lparr>sn_left = None, sn_right = None, sn_item = ?k\<rparr>)) (
       thenM (on_tree (splay_insert classfile_tree_compare a)) (ret a)) (s\<lparr>bytes_mem := m\<rparr>)
       = (Inr a, s\<lparr>bytes_mem := m, classfiles := t\<rparr>)" "table (s\<lparr>bytes_mem := m, classfiles := t\<rparr>) ?T"
    using add_step [of "s\<lparr>bytes_mem := m\<rparr>" T ?k a] tb n a by (auto simp: table_bytes_mem)
  have "bytes_counted ext (s\<lparr>bytes_mem := m, classfiles := t\<rparr>) ?T"
    using m(2) by (simp add: bytes_counted_def)
  then show ?thesis using m(1) t by (auto simp: new_class_node_def)
qed

lemma ref_run:
  assumes "table s T" and "bytes_counted ext s T"
    and "\<forall>b. cbytes = Some b \<longrightarrow> 0 < ext b \<and> ext b + card (users T b) < 2 ^ 32 - 1"
    and "\<forall>a. mem = Some a \<longrightarrow> st_nodes (classfiles s) a = None"
  shows "\<exists>s'. ref_class_node mem name hash cbytes s = (fst (ref_spec (generation_enabled s) mem name hash cbytes T), s')
     \<and> table s' (snd (ref_spec (generation_enabled s) mem name hash cbytes T))
     \<and> bytes_counted ext s' (snd (ref_spec (generation_enabled s) mem name hash cbytes T))"
proof -
  define cb where "cb = (if generation_enabled s then cbytes else None)"
  have b: "\<forall>b. cb = Some b \<longrightarrow> 0 < ext b \<and> ext b + card (users T b) < 2 ^ 32 - 1"
    using assms(3) by (simp add: cb_def)
  obtain t where f: "on_tree (splay_find classfile_tree_compare (name_key name)) s = (Inr (map_option fst (T name)), s\<lparr>classfiles := t\<rparr>)"
    and tb: "table (s\<lparr>classfiles := t\<rparr>) T" and fresh: "\<forall>a. st_nodes (classfiles s) a = None \<longrightarrow> st_nodes t a = None"
    using find_step [OF assms(1), of name] by blast
  let ?s = "s\<lparr>classfiles := t\<rparr>"
  have c: "bytes_counted ext ?s T" using assms(2) by (simp add: bytes_counted_def)
  show ?thesis
  proof (cases "T name")
    case (Some p)
    then obtain a i where n: "T name = Some (a, i)" by (cases p) auto
    show ?thesis
    proof (cases "hash = cn_hash i")
      case False
      then show ?thesis using f n node_info_step [OF tb n] tb c
        by (auto simp: ref_class_node_def ref_spec_def Let_def)
    next
      case True
      let ?i = "i\<lparr>cn_bytes := (if cn_bytes i = None then cb else cn_bytes i)\<rparr>"
      obtain s1 where s1: "(case cb of
             Some b \<Rightarrow> if cn_bytes i = None
               then bindM (dup_classbytes b) (\<lambda>b. set_info a (i\<lparr>cn_bytes := Some b\<rparr>)) else ret ()
           | None \<Rightarrow> ret ()) ?s = (Inr (), s1)" "table s1 (T(name \<mapsto> (a, ?i)))" "bytes_counted ext s1 (T(name \<mapsto> (a, ?i)))"
        using save_bytes_step [OF tb c n b] by blast
      then show ?thesis
        using count_ref_step [OF s1(2,3), of name a ?i 1] f n node_info_step [OF tb n] True
        by (auto simp: ref_class_node_def ref_spec_def Let_def cb_def [symmetric] simp del: One_nat_def)
    qed
  next
    case None
    then show ?thesis
    proof (cases mem)
      case None
      then show ?thesis using f \<open>T name = None\<close> tb c
        by (auto simp: ref_class_node_def ref_spec_def new_class_node_def Let_def)
    next
      case (Some a)
      then show ?thesis using f \<open>T name = None\<close> new_node_step [OF tb c \<open>T name = None\<close>, of a cb hash] b fresh assms(4)
        by (auto simp: ref_class_node_def ref_spec_def Let_def cb_def [symmetric])
    qed
  qed
qed

text \<open>
  C14: \<open>_jc_ref_class_node\<close> is the operation \<open>ref_spec\<close> of the abstract table: it counts a reference to
  the node of that name, refuses another hash, saves the bytes if the node has none, or adds a new
  node; the reference counts of the bytes stay exact.
\<close>

theorem ref_class_node_refines:
  assumes "table s T" and "bytes_counted ext s T"
    and "\<forall>b. cbytes = Some b \<longrightarrow> 0 < ext b \<and> ext b + card (users T b) < 2 ^ 32 - 1"
    and "\<forall>a. mem = Some a \<longrightarrow> st_nodes (classfiles s) a = None"
  shows "\<exists>s'. ref_class_node mem name hash cbytes s = (fst (ref_spec (generation_enabled s) mem name hash cbytes T), s')
     \<and> table s' (snd (ref_spec (generation_enabled s) mem name hash cbytes T))
     \<and> bytes_counted ext s' (snd (ref_spec (generation_enabled s) mem name hash cbytes T))"
  by (rule ref_run [OF assms])

text \<open>Dropping a reference on the abstract table: the entry goes with its last reference.\<close>

definition drop_spec :: "cstr \<Rightarrow> table \<Rightarrow> table" where
  "drop_spec name T = (case T name of
     None \<Rightarrow> T
   | Some (a, i) \<Rightarrow> T(name := if cn_refs i - 1 = 0 then None else Some (a, i\<lparr>cn_refs := cn_refs i - 1\<rparr>)))"

lemma drop_step:
  assumes tb: "table s T" and c: "bytes_counted ext s T" and n: "T name = Some (a, i)"
  shows "\<exists>s'. drop_ref a s = (Inr (), s') \<and> table s' (drop_spec name T) \<and> bytes_counted ext s' (drop_spec name T)"
proof -
  have nm: "cn_name i = name" using tb n by (auto elim!: tableE dest: tableD)
  let ?i = "i\<lparr>cn_refs := cn_refs i - 1\<rparr>"
  let ?T = "T(name \<mapsto> (a, ?i))"
  obtain t where t: "set_info a ?i s = (Inr (), s\<lparr>classfiles := t\<rparr>)" "table (s\<lparr>classfiles := t\<rparr>) ?T"
    using set_info_step [OF tb n, of ?i] nm by auto
  have "held ?T = held T" using n by (auto simp: held_def)
  then have c1: "bytes_counted ext (s\<lparr>classfiles := t\<rparr>) ?T"
    using c by (subst bytes_counted_cong [of _ s _ T]) simp_all
  show ?thesis
  proof (cases "cn_refs i - 1 = 0")
    case False
    then show ?thesis using t c1 node_info_step [OF tb n] n by (auto simp: drop_ref_def drop_spec_def)
  next
    case True
    let ?D = "T(name := None)"
    obtain u where u: "on_tree (splay_remove classfile_tree_compare (i\<lparr>cn_refs := 0\<rparr>)) (s\<lparr>classfiles := t\<rparr>) = (Inr (), s\<lparr>classfiles := u\<rparr>)"
      "table (s\<lparr>classfiles := u\<rparr>) (?T(name := None))"
      using remove_step [OF t(2), of name a ?i "i\<lparr>cn_refs := 0\<rparr>"] nm by auto
    then have u': "table (s\<lparr>classfiles := u\<rparr>) ?D" by simp
    have fin: "finite (dom ?D)" using table_finite [OF tb] by simp
    have hD: "held ?D name = None" by (simp add: held_def)
    have hT: "held T = (held ?D)(name := cn_bytes i)" using n by (auto simp: held_def fun_eq_iff)
    have "bytes_counted ext (s\<lparr>classfiles := u\<rparr>) T" using c by (simp add: bytes_counted_def)
    then obtain m where m: "free_classbytes (cn_bytes i) (s\<lparr>classfiles := u\<rparr>) = (Inr (), s\<lparr>classfiles := u, bytes_mem := m\<rparr>)"
      "bytes_counted ext (s\<lparr>classfiles := u, bytes_mem := m\<rparr>) ?D"
      using release_step [OF _ fin hD hT] by blast
    let ?s = "s\<lparr>classfiles := u, bytes_mem := m\<rparr>"
    have "table ?s ?D" using u' by (simp add: table_def)
    moreover have "\<forall>m j. ?D m \<noteq> Some (a, j)" using address_name [OF tb n] by auto
    ultimately obtain v where v: "free_node a ?s = (Inr (), ?s\<lparr>classfiles := v\<rparr>)" "table (?s\<lparr>classfiles := v\<rparr>) ?D"
      using free_step by blast
    have "bytes_counted ext (?s\<lparr>classfiles := v\<rparr>) ?D" using m(2) by (simp add: bytes_counted_def)
    moreover have "drop_spec name T = ?D" using n True by (simp add: drop_spec_def)
    moreover have "drop_ref a s = (Inr (), ?s\<lparr>classfiles := v\<rparr>)"
      using True t(1) u(1) m(1) v(1) node_info_step [OF tb n] by (simp add: drop_ref_def)
    ultimately show ?thesis using v(2) by auto
  qed
qed

text \<open>All references of a list at once.\<close>

definition drops :: "cstr list \<Rightarrow> table \<Rightarrow> table" where
  "drops deps T = (\<lambda>name. case T name of
     None \<Rightarrow> None
   | Some (a, i) \<Rightarrow>
       if count_list deps name = 0 then Some (a, i)
       else if count_list deps name = unat (cn_refs i) then None
       else Some (a, i\<lparr>cn_refs := cn_refs i - of_nat (count_list deps name)\<rparr>))"

definition counted_deps :: "cstr list \<Rightarrow> table \<Rightarrow> bool" where
  "counted_deps deps T \<longleftrightarrow> (\<forall>name \<in> set deps. \<exists>a i. T name = Some (a, i) \<and> count_list deps name \<le> unat (cn_refs i))"

lemma count_list_in: "x \<in> set xs \<Longrightarrow> 0 < count_list xs x"
  by (induction xs) auto

lemma drops_Cons:
  assumes "counted_deps (name # deps) T"
  shows "drops (name # deps) T = drops deps (drop_spec name T)" and "counted_deps deps (drop_spec name T)"
proof -
  obtain a i where n: "T name = Some (a, i)" and le: "Suc (count_list deps name) \<le> unat (cn_refs i)"
    using assms by (auto simp: counted_deps_def)
  then have nz: "cn_refs i \<noteq> 0" by auto
  have u: "unat (cn_refs i - 1) = unat (cn_refs i) - 1" using nz by (rule unat_minus_one)
  have z: "cn_refs i - 1 = 0 \<longleftrightarrow> unat (cn_refs i) = 1"
    using u le by (simp add: unat_eq_zero [symmetric]) linarith
  show "drops (name # deps) T = drops deps (drop_spec name T)"
  proof
    fix m
    show "drops (name # deps) T m = drops deps (drop_spec name T) m"
    proof (cases "m = name")
      case False
      then have "count_list (name # deps) m = count_list deps m" "drop_spec name T m = T m"
        using n by (auto simp: drop_spec_def)
      then show ?thesis unfolding drops_def by (simp only:)
    next
      case True
      then show ?thesis using n u z le by (auto simp: drops_def drop_spec_def algebra_simps)
    qed
  qed
  show "counted_deps deps (drop_spec name T)"
    unfolding counted_deps_def
  proof
    fix m assume m: "m \<in> set deps"
    show "\<exists>a i. drop_spec name T m = Some (a, i) \<and> count_list deps m \<le> unat (cn_refs i)"
    proof (cases "m = name")
      case True
      with m le have "1 < unat (cn_refs i)" using count_list_in [of m deps] by simp
      then have "\<not> cn_refs i - 1 = 0" using z by simp
      then show ?thesis using True n u le by (simp add: drop_spec_def)
    next
      case False
      then show ?thesis using assms m n by (auto simp: counted_deps_def drop_spec_def)
    qed
  qed
qed

lemma unref_deps_run:
  assumes "table s T" and "bytes_counted ext s T" and "counted_deps deps T"
  shows "\<exists>s'. unref_class_deps deps s = (Inr (), s') \<and> table s' (drops deps T) \<and> bytes_counted ext s' (drops deps T)"
  using assms
proof (induction deps arbitrary: s T)
  case Nil
  have "drops [] T = T" by (auto simp: drops_def fun_eq_iff split: option.splits)
  then show ?case using Nil by simp
next
  case (Cons name deps)
  obtain a i where n: "T name = Some (a, i)" using Cons.prems(3) by (auto simp: counted_deps_def)
  obtain t where f: "on_tree (splay_find classfile_tree_compare (name_key name)) s = (Inr (Some a), s\<lparr>classfiles := t\<rparr>)"
    and tb: "table (s\<lparr>classfiles := t\<rparr>) T"
    using find_step [OF Cons.prems(1), of name] n by auto
  have "bytes_counted ext (s\<lparr>classfiles := t\<rparr>) T" using Cons.prems(2) by (simp add: bytes_counted_def)
  then obtain s1 where s1: "drop_ref a (s\<lparr>classfiles := t\<rparr>) = (Inr (), s1)" "table s1 (drop_spec name T)"
    "bytes_counted ext s1 (drop_spec name T)"
    using drop_step [OF tb _ n] by blast
  with Cons.IH [OF s1(2,3) drops_Cons(2) [OF Cons.prems(3)]] f show ?case
    by (auto simp: drops_Cons(1) [OF Cons.prems(3)])
qed

text \<open>
  C15: \<open>_jc_unref_class_deps\<close>, called with names that hold references, takes exactly these references
  away, whatever their order: a node goes with its last reference, with its bytes when no other node
  shares them, and no freed node is touched.
\<close>

theorem unref_class_deps_refines:
  assumes "table s T" and "bytes_counted ext s T" and "counted_deps deps T"
  shows "\<exists>s'. unref_class_deps deps s = (Inr (), s') \<and> table s' (drops deps T) \<and> bytes_counted ext s' (drops deps T)"
  by (rule unref_deps_run [OF assms])

lemma ref_drop_spec:
  assumes "\<forall>a i. T name = Some (a, i) \<longrightarrow> cn_refs i \<noteq> 0"
    and "ref_spec gen mem name hash None T = (Inr a, T')"
  shows "drop_spec name T' = T" and "\<exists>i. T' name = Some (a, i)"
proof -
  show "drop_spec name T' = T"
    using assms by (auto simp: ref_spec_def drop_spec_def Let_def fun_upd_idem split: option.splits if_splits)
  show "\<exists>i. T' name = Some (a, i)"
    using assms(2) by (auto simp: ref_spec_def Let_def split: option.splits if_splits)
qed

text \<open>
  \<open>_jc_unref_class_node\<close> undoes \<open>_jc_ref_class_node\<close>: after a reference has been taken and dropped
  the table is what it was, also when the node was created in between.
\<close>

theorem ref_unref_roundtrip:
  assumes "table s T" and "bytes_counted ext s T"
    and "\<forall>a i. T name = Some (a, i) \<longrightarrow> cn_refs i \<noteq> 0"
    and "\<forall>a. mem = Some a \<longrightarrow> st_nodes (classfiles s) a = None"
    and "ref_class_node mem name hash None s = (Inr a, s1)"
  shows "\<exists>s2. unref_class_node (Some a) s1 = (Inr None, s2) \<and> table s2 T \<and> bytes_counted ext s2 T"
proof -
  let ?R = "ref_spec (generation_enabled s) mem name hash None T"
  obtain s' where s': "ref_class_node mem name hash None s = (fst ?R, s')" "table s' (snd ?R)" "bytes_counted ext s' (snd ?R)"
    using ref_run [of s T ext None mem name hash] assms(1,2,4) by auto
  with assms(5) have R: "?R = (Inr a, snd ?R)" "s' = s1" by (simp_all add: prod_eq_iff)
  note spec = ref_drop_spec [OF assms(3) R(1)]
  then obtain i where "snd ?R name = Some (a, i)" by blast
  then show ?thesis using drop_step [of s' "snd ?R" ext name a i] s'(2,3) R(2) spec(1)
    by (auto simp: unref_class_node_def)
qed


section \<open>Concrete tables\<close>

definition empty_table :: class_table where
  "empty_table = \<lparr>classfiles = splay_init Map.empty, generation_enabled = False, bytes_mem = Map.empty\<rparr>"

definition class_A :: "u32 \<Rightarrow> class_node" where
  "class_A refs = \<lparr>cn_name = c_str ''A'', cn_refs = refs, cn_hash = 7, cn_bytes = None\<rparr>"

definition table_A :: class_table where
  "table_A = empty_table\<lparr>classfiles := (splay_init [5 \<mapsto> \<lparr>sn_left = None, sn_right = None, sn_item = class_A 3\<rparr>])
     \<lparr>st_root := Some 5, st_size := 1\<rparr>\<rparr>"

lemma table_empty: "table empty_table Map.empty"
  by (auto simp: table_def empty_table_def splay_init_def table_of_def sorted_items_def intro!: exI [of _ "[]"] holdsI [where t = Leaf])

lemma table_one: "table table_A [c_str ''A'' \<mapsto> (5, class_A 3)]"
proof -
  have "holds (classfiles table_A) [(5, class_A 3)]"
    by (rule holdsI [where t = "Node Leaf (5, class_A 3) Leaf"]) (simp_all add: table_A_def empty_table_def splay_init_def)
  moreover have "table_of [(5, class_A 3)] [c_str ''A'' \<mapsto> (5, class_A 3)]"
    by (auto simp: table_of_def class_A_def)
  ultimately show ?thesis by (auto simp: table_def sorted_items_def intro!: exI [of _ "[(5, class_A 3)]"])
qed

lemma counted_none: "bytes_mem s = Map.empty \<Longrightarrow> held T = Map.empty \<Longrightarrow> bytes_counted (\<lambda>_. 0) s T"
  by (simp add: bytes_counted_def users_def count_of_def)

lemma counted_empty: "bytes_counted (\<lambda>_. 0) empty_table Map.empty"
  by (rule counted_none) (auto simp: empty_table_def held_def)

lemma ref_class_node_refines_witness:
  "\<exists>s'. ref_class_node (Some 5) (c_str ''A'') 7 None empty_table = (Inr 5, s')
     \<and> table s' [c_str ''A'' \<mapsto> (5, class_A 1)]"
  using ref_class_node_refines [OF table_empty counted_empty, of None "Some 5" "c_str ''A''" 7]
  by (auto simp: ref_spec_def class_A_def empty_table_def splay_init_def held_def)

lemma unref_class_deps_refines_witness:
  "\<exists>s'. unref_class_deps [c_str ''A'', c_str ''A''] table_A = (Inr (), s') \<and> table s' [c_str ''A'' \<mapsto> (5, class_A 1)]"
proof -
  have d: "drops [c_str ''A'', c_str ''A''] [c_str ''A'' \<mapsto> (5, class_A 3)] = [c_str ''A'' \<mapsto> (5, class_A 1)]"
    by (auto simp: drops_def fun_eq_iff class_A_def)
  have "bytes_counted (\<lambda>_. 0) table_A [c_str ''A'' \<mapsto> (5, class_A 3)]"
    by (rule counted_none) (auto simp: table_A_def empty_table_def held_def class_A_def fun_eq_iff)
  moreover have "counted_deps [c_str ''A'', c_str ''A''] [c_str ''A'' \<mapsto> (5, class_A 3)]"
    by (simp add: counted_deps_def class_A_def)
  ultimately show ?thesis using unref_class_deps_refines [OF table_one] d by metis
qed

lemma ref_unref_roundtrip_witness:
  "\<exists>s1 s2. ref_class_node (Some 5) (c_str ''A'') 7 None empty_table = (Inr 5, s1)
     \<and> unref_class_node (Some 5) s1 = (Inr None, s2) \<and> table s2 Map.empty"
proof -
  obtain s1 where s1: "ref_class_node (Some 5) (c_str ''A'') 7 None empty_table = (Inr 5, s1)"
    using ref_run [OF table_empty counted_empty, of None "Some 5" "c_str ''A''" 7]
    by (auto simp: ref_spec_def empty_table_def splay_init_def)
  then show ?thesis using ref_unref_roundtrip [OF table_empty counted_empty _ _ s1]
    by (auto simp: empty_table_def splay_init_def)
qed

end
