(* ===== verification/Heap_Sizes.thy ===== *)
theory Heap_Sizes
  imports Cf_Types
begin

text \<open>
  The sizes of the heap, \<open>libjc/heap.c\<close>: the list of block sizes that a page is cut into, the block or
  the number of pages for an object of a given size, and the request that \<open>libjc/new.c\<close> makes for an
  array. Sizes and offsets are 32 bits wide where the code computes with \<open>size_t\<close>.
\<close>

section \<open>Sizes of the machine\<close>

text \<open>\<open>_JC_PAGE_SIZE\<close>, \<open>_JC_FULL_ALIGNMENT\<close> and \<open>sizeof(_jc_word)\<close> on the i386.\<close>

abbreviation page_size :: nat where "page_size \<equiv> 4096"
abbreviation full_alignment :: nat where "full_alignment \<equiv> 4"
abbreviation word_bytes :: nat where "word_bytes \<equiv> 4"

text \<open>\<open>sizeof(_jc_object)\<close>: the lock word and the type.\<close>

abbreviation object_bytes :: nat where "object_bytes \<equiv> 8"

definition howmany :: "nat \<Rightarrow> nat \<Rightarrow> nat" where
  "howmany x y = (x + (y - 1)) div y"

definition block_offset :: nat where
  "block_offset = howmany word_bytes full_alignment * full_alignment"

record heap_size =
  hs_pages :: "nat option"
  hs_hint :: "nat option"
  hs_size :: nat
  hs_num_blocks :: nat

section \<open>Block sizes\<close>

text \<open>The loop of \<open>_jc_heap_roundup_block_size\<close>. It is entered with two blocks at least.\<close>

function grow_block :: "nat \<Rightarrow> nat \<Rightarrow> nat \<Rightarrow> nat \<Rightarrow> nat" where
  "grow_block psize hdrsize nblocks size' =
    (if 0 < nblocks \<and> hdrsize + nblocks * (size' + 1) \<le> psize
     then grow_block psize hdrsize nblocks (size' + 1) else size')"
  by pat_completeness auto

termination
proof (relation "measure (\<lambda>(psize, hdrsize, nblocks, size'). psize - size')", simp_all only: in_measure split)
  fix psize hdrsize nblocks size' :: nat
  assume a: "0 < nblocks \<and> hdrsize + nblocks * (size' + 1) \<le> psize"
  then have "size' + 1 \<le> nblocks * (size' + 1)" by (cases nblocks) simp_all
  with a have "size' < psize" by linarith
  then show "psize - (size' + 1) < psize - size'" by simp
qed simp

declare grow_block.simps [simp del]

text \<open>\<open>_jc_heap_roundup_block_size\<close>: the size and the number of blocks, or None for -1.\<close>

definition roundup_block_size :: "nat \<Rightarrow> (nat \<times> nat) option" where
  "roundup_block_size size0 =
    (let psize = howmany page_size full_alignment;
         hdrsize = howmany word_bytes full_alignment;
         size1 = howmany size0 full_alignment;
         nblocks = (psize - hdrsize) div size1
     in if nblocks \<le> 1 then None
        else Some (grow_block psize hdrsize nblocks size1 * full_alignment, nblocks))"

text \<open>The next size to try; for a \<open>granularity\<close> above 200 the C expression is negative, and 0 here.\<close>

definition next_block_size :: "nat \<Rightarrow> nat \<Rightarrow> nat" where
  "next_block_size granularity size0 =
    (let new_size = (size0 * (200 - granularity)) div 100
     in if new_size < size0 + full_alignment then size0 + full_alignment else new_size)"

lemma grow_block_ge: "size0 \<le> grow_block psize hdrsize nblocks size0"
proof (induction psize hdrsize nblocks size0 rule: grow_block.induct)
  case (1 psize hdrsize nblocks size0)
  show ?case using 1 by (subst grow_block.simps) (auto dest: Suc_leD)
qed

lemma grow_block_fits: "hdrsize + nblocks * size0 \<le> psize \<Longrightarrow> hdrsize + nblocks * grow_block psize hdrsize nblocks size0 \<le> psize"
proof (induction psize hdrsize nblocks size0 rule: grow_block.induct)
  case (1 psize hdrsize nblocks size0)
  then show ?case by (subst grow_block.simps) simp
qed

lemma grow_block_maximal: "0 < nblocks \<Longrightarrow> psize < hdrsize + nblocks * (grow_block psize hdrsize nblocks size0 + 1)"
proof (induction psize hdrsize nblocks size0 rule: grow_block.induct)
  case (1 psize hdrsize nblocks size0)
  then show ?case by (subst grow_block.simps) auto
qed

text \<open>Covering: enough, and no more than needed.\<close>

lemma howmany_mod: "0 < y \<Longrightarrow> howmany x y * y + (x + (y - 1)) mod y = x + (y - 1)"
  by (simp add: howmany_def)

lemma howmany_le: "0 < y \<Longrightarrow> x \<le> howmany x y * y"
  using howmany_mod [of y x] mod_less_divisor [of y "x + (y - 1)"] by linarith

lemma howmany_tight: "0 < y \<Longrightarrow> 0 < x \<Longrightarrow> (howmany x y - 1) * y < x"
  using howmany_mod [of y x] by (simp add: diff_mult_distrib)

lemma howmany_pos: "0 < y \<Longrightarrow> 0 < x \<Longrightarrow> 0 < howmany x y"
  using howmany_le [of y x] by (cases "howmany x y") simp_all

lemma roundup_run:
  assumes "0 < size0"
  shows "case roundup_block_size size0 of
      None \<Rightarrow> page_size < block_offset + 2 * (howmany size0 full_alignment * full_alignment)
    | Some (s, n) \<Rightarrow> size0 \<le> s \<and> s mod full_alignment = 0 \<and> 2 \<le> n
        \<and> block_offset + n * s \<le> page_size \<and> page_size < block_offset + n * (s + full_alignment)
        \<and> page_size < block_offset + (n + 1) * (howmany size0 full_alignment * full_alignment)"
proof -
  define s1 where "s1 = howmany size0 4"
  define n where "n = 1023 div s1"
  have s1: "0 < s1" "size0 \<le> s1 * 4" using howmany_pos [of 4 size0] howmany_le [of 4 size0] assms by (simp_all add: s1_def)
  have h: "howmany 4096 4 = 1024" "howmany 4 4 = 1" "block_offset = 4" by (simp_all add: howmany_def block_offset_def)
  have n: "n * s1 \<le> 1023" "1023 < (n + 1) * s1"
    using div_times_less_eq_dividend [of 1023 s1] dividend_less_div_times [OF s1(1), of 1023] by (simp_all add: n_def)
  define g where "g = grow_block 1024 1 n s1"
  have run: "roundup_block_size size0 = (if n \<le> 1 then None else Some (g * 4, n))"
    by (simp add: roundup_block_size_def h Let_def s1_def n_def g_def)
  show ?thesis
  proof (cases "n \<le> 1")
    case True
    then have "(n + 1) * s1 \<le> 2 * s1" by simp
    with n have "1023 < 2 * s1" by linarith
    then show ?thesis using run True by (simp add: h flip: s1_def)
  next
    case False
    have g: "s1 \<le> g" "1 + n * g \<le> 1024" "1024 < 1 + n * (g + 1)"
      using grow_block_ge [of s1 1024 1 n] grow_block_fits [of 1 n s1 1024] grow_block_maximal [of n 1024 1 s1] n False
      by (simp_all add: g_def)
    have "n * (g * 4) = 4 * (n * g)" "n * (g * 4 + 4) = 4 * (n * (g + 1))" "(n + 1) * (s1 * 4) = 4 * ((n + 1) * s1)"
      by (simp_all add: algebra_simps)
    then show ?thesis using run False g n s1(2) by (simp add: h flip: s1_def)
  qed
qed

text \<open>
  \<open>_jc_heap_roundup_block_size\<close> returns the largest aligned size of which a page holds as many
  blocks, behind its info word, as of the size asked for, and fails only if a page cannot hold two.
\<close>

theorem roundup_block_size_best:
  assumes "0 < size0"
  shows "case roundup_block_size size0 of
      None \<Rightarrow> page_size < block_offset + 2 * (howmany size0 full_alignment * full_alignment)
    | Some (s, n) \<Rightarrow> size0 \<le> s \<and> s mod full_alignment = 0 \<and> 2 \<le> n
        \<and> block_offset + n * s \<le> page_size \<and> page_size < block_offset + n * (s + full_alignment)
        \<and> page_size < block_offset + (n + 1) * (howmany size0 full_alignment * full_alignment)"
  by (rule roundup_run [OF assms])

lemma roundup_Some:
  assumes "roundup_block_size size0 = Some (s, n)"
  shows "0 < size0" and "size0 \<le> s" and "2 \<le> n" and "4 + n * s \<le> 4096" and "4096 < 4 + n * (s + 4)"
    and "s mod 4 = 0" and "n = 1023 div howmany size0 4" and "s \<le> 2046" and "4096 < 4 + (n + 1) * s"
proof -
  show p: "0 < size0"
    using assms by (rule contrapos_pp) (simp add: roundup_block_size_def howmany_def)
  then show r: "size0 \<le> s" "2 \<le> n" "4 + n * s \<le> 4096" "4096 < 4 + n * (s + 4)" "s mod 4 = 0"
    using roundup_run [of size0] assms by (simp_all add: block_offset_def howmany_def)
  show "n = 1023 div howmany size0 4"
    using assms by (simp add: roundup_block_size_def Let_def howmany_def split: if_splits)
  have "2 * s \<le> n * s" using r(2) by simp
  then show "s \<le> 2046" using r(3) by linarith
  have "howmany size0 4 * 4 \<le> s" using r(1,5) unfolding howmany_def by presburger
  then have "(n + 1) * (howmany size0 4 * 4) \<le> (n + 1) * s" by (rule mult_le_mono2)
  moreover have "4096 < 4 + (n + 1) * (howmany size0 4 * 4)"
    using roundup_run [OF p] assms by (simp add: block_offset_def howmany_def)
  ultimately show "4096 < 4 + (n + 1) * s" by linarith
qed

lemma next_block_size_ge: "s + 4 \<le> next_block_size g s"
  by (simp add: next_block_size_def Let_def)

text \<open>\<open>_jc_heap_gen_block_sizes\<close>, which is run twice: to count, and to fill in the descriptors.\<close>

function gen_sizes :: "nat \<Rightarrow> nat \<Rightarrow> (nat \<times> nat) list" where
  "gen_sizes g size0 = (case roundup_block_size size0 of
     None \<Rightarrow> []
   | Some (s, n) \<Rightarrow> (s, n) # gen_sizes g (next_block_size g s))"
  by pat_completeness auto

termination
proof (relation "measure (\<lambda>(g, size0). 4096 - size0)", simp_all only: in_measure split)
  fix g size0 p s n
  assume "roundup_block_size size0 = Some p" "(s, n) = p"
  then have "size0 \<le> s" "s \<le> 2046" using roundup_Some(2,8) [of size0 s n] by simp_all
  then show "4096 - next_block_size g s < 4096 - size0" using next_block_size_ge [of s g] by linarith
qed simp

declare gen_sizes.simps [simp del]

definition gen_block_sizes :: "nat \<Rightarrow> heap_size list" where
  "gen_block_sizes granularity =
     map (\<lambda>(s, n). \<lparr>hs_pages = None, hs_hint = None, hs_size = s, hs_num_blocks = n\<rparr>) (gen_sizes granularity object_bytes)"

lemma gen_sizes_None [simp]: "roundup_block_size size0 = None \<Longrightarrow> gen_sizes g size0 = []"
  by (simp add: gen_sizes.simps)

lemma gen_sizes_Some [simp]:
  "roundup_block_size size0 = Some (s, n) \<Longrightarrow> gen_sizes g size0 = (s, n) # gen_sizes g (next_block_size g s)"
  by (simp add: gen_sizes.simps)

lemma gen_sizes_ge: "(s, n) \<in> set (gen_sizes g size0) \<Longrightarrow> size0 \<le> s"
proof (induction g size0 rule: gen_sizes.induct)
  case (1 g size0)
  show ?case
  proof (cases "roundup_block_size size0")
    case (Some p)
    then obtain t k where p: "roundup_block_size size0 = Some (t, k)" by (cases p) auto
    then show ?thesis
      using 1 roundup_Some(2) [OF p] next_block_size_ge [of t g] by fastforce
  qed (use 1 in simp)
qed

lemma gen_sizes_blocks:
  "(s, n) \<in> set (gen_sizes g size0) \<Longrightarrow> 2 \<le> n \<and> 4 + n * s \<le> 4096 \<and> s mod 4 = 0 \<and> 4096 < 4 + (n + 1) * s"
proof (induction g size0 rule: gen_sizes.induct)
  case (1 g size0)
  show ?case
  proof (cases "roundup_block_size size0")
    case (Some p)
    then obtain t k where p: "roundup_block_size size0 = Some (t, k)" by (cases p) auto
    then show ?thesis using 1 roundup_Some(3,4,6,9) [OF p] by fastforce
  qed (use 1 in simp)
qed

lemma gen_sizes_sorted: "sorted_wrt (<) (map fst (gen_sizes g size0))"
proof (induction g size0 rule: gen_sizes.induct)
  case (1 g size0)
  show ?case
  proof (cases "roundup_block_size size0")
    case (Some p)
    then obtain t k where p: "roundup_block_size size0 = Some (t, k)" by (cases p) auto
    have "t < s" if "(s, n) \<in> set (gen_sizes g (next_block_size g t))" for s n
      using gen_sizes_ge [OF that] next_block_size_ge [of t g] by linarith
    then show ?thesis using 1 p by fastforce
  qed simp
qed

text \<open>The number of blocks falls from size to size; the first sizes are words apart.\<close>

lemma howmany_step: "s mod 4 = 0 \<Longrightarrow> s + 4 \<le> t \<Longrightarrow> s div 4 < howmany t 4"
  by (simp add: howmany_def)

lemma gen_sizes_count: "length (gen_sizes g size0) \<le> 1023 div howmany size0 4 - 1"
proof (induction g size0 rule: gen_sizes.induct)
  case (1 g size0)
  show ?case
  proof (cases "roundup_block_size size0")
    case (Some p)
    then obtain s n where p: "roundup_block_size size0 = Some (s, n)" by (cases p) auto
    note r = roundup_Some [OF p]
    let ?h = "howmany (next_block_size g s) 4"
    have "s div 4 + 1 \<le> ?h" using howmany_step [OF r(6) next_block_size_ge, of g] by simp
    then have "1023 div ?h \<le> 1023 div (s div 4 + 1)" by (simp add: div_le_mono2)
    moreover have "4 * (n * (s div 4 + 1)) = n * (s + 4)" using r(6) by (auto simp: algebra_simps elim!: dvdE)
    then have "1023 < n * (s div 4 + 1)" using r(5) by linarith
    then have "1023 div (s div 4 + 1) < n" by (simp add: div_less_iff_less_mult)
    ultimately have "length (gen_sizes g (next_block_size g s)) \<le> n - 2"
      using 1 p r(3) by fastforce
    then show ?thesis using p r(3,7) by simp
  qed simp
qed

lemma gen_sizes_few: "howmany size0 4 \<le> 32 \<Longrightarrow> length (gen_sizes g size0) \<le> 62 - howmany size0 4"
proof (induction g size0 rule: gen_sizes.induct)
  case (1 g size0)
  show ?case
  proof (cases "roundup_block_size size0")
    case (Some p)
    then obtain s n where p: "roundup_block_size size0 = Some (s, n)" by (cases p) auto
    note r = roundup_Some [OF p]
    let ?h = "howmany (next_block_size g s) 4"
    have "howmany size0 4 \<le> s div 4" using r(2,6) unfolding howmany_def by presburger
    then have lt: "howmany size0 4 < ?h" using howmany_step [OF r(6) next_block_size_ge, of g] by simp
    show ?thesis
    proof (cases "?h \<le> 32")
      case True
      then show ?thesis using 1 p lt by fastforce
    next
      case False
      then have "1023 div ?h \<le> 1023 div 33" by (intro div_le_mono2) simp_all
      then have "length (gen_sizes g (next_block_size g s)) \<le> 30"
        using gen_sizes_count [of g "next_block_size g s"] by simp
      then show ?thesis using p 1(2) gen_sizes_count [of g size0] by (cases "howmany size0 4 = 32") auto
    qed
  qed simp
qed

definition sizes_ok :: "heap_size list \<Rightarrow> bool" where
  "sizes_ok sizes \<longleftrightarrow> sizes \<noteq> [] \<and> length sizes \<le> 60 \<and> sorted_wrt (<) (map hs_size sizes)
     \<and> list_all (\<lambda>b. object_bytes \<le> hs_size b \<and> hs_size b mod full_alignment = 0 \<and> 2 \<le> hs_num_blocks b
         \<and> block_offset + hs_num_blocks b * hs_size b \<le> page_size
         \<and> page_size < block_offset + (hs_num_blocks b + 1) * hs_size b) sizes"

lemma roundup_first: "roundup_block_size 8 = Some (8, 511)"
  by (simp add: roundup_block_size_def Let_def howmany_def grow_block.simps)

lemma gen_block_sizes_ok: "sizes_ok (gen_block_sizes g)"
proof -
  have "map hs_size (gen_block_sizes g) = map fst (gen_sizes g 8)"
    by (auto simp: gen_block_sizes_def)
  then have "sorted_wrt (<) (map hs_size (gen_block_sizes g))" using gen_sizes_sorted [of g 8] by simp
  moreover have "length (gen_block_sizes g) \<le> 60"
    using gen_sizes_few [of 8 g] by (simp add: gen_block_sizes_def howmany_def)
  moreover have "gen_block_sizes g \<noteq> []" by (simp add: gen_block_sizes_def roundup_first)
  moreover have "list_all (\<lambda>b. object_bytes \<le> hs_size b \<and> hs_size b mod full_alignment = 0 \<and> 2 \<le> hs_num_blocks b
         \<and> block_offset + hs_num_blocks b * hs_size b \<le> page_size
         \<and> page_size < block_offset + (hs_num_blocks b + 1) * hs_size b) (gen_block_sizes g)"
    using gen_sizes_blocks [of _ _ g 8] gen_sizes_ge [of _ _ g 8]
    by (auto simp: list_all_iff gen_block_sizes_def block_offset_def howmany_def)
  ultimately show ?thesis by (simp add: sizes_ok_def)
qed

text \<open>
  Whatever the granularity, \<open>_jc_heap_gen_block_sizes\<close> ends with at most 60 sizes, in increasing
  order, at least two blocks of each fitting into a page behind its info word: every index fits into
  the six bits of the info word, and the error of \<open>_jc_heap_init\<close> for too many sizes cannot occur.
\<close>

theorem gen_block_sizes_bounded:
  "gen_block_sizes g \<noteq> [] \<and> length (gen_block_sizes g) \<le> 60 \<and> hs_size (hd (gen_block_sizes g)) = object_bytes
   \<and> sorted_wrt (<) (map hs_size (gen_block_sizes g))
   \<and> list_all (\<lambda>b. 2 \<le> hs_num_blocks b \<and> block_offset + hs_num_blocks b * hs_size b \<le> page_size) (gen_block_sizes g)"
  using gen_block_sizes_ok [of g]
  by (auto simp: sizes_ok_def list_all_iff gen_block_sizes_def roundup_first)


section \<open>The size of an object\<close>

text \<open>The binary search of \<open>_jc_heap_block_size\<close>.\<close>

function size_search :: "heap_size list \<Rightarrow> nat \<Rightarrow> nat \<Rightarrow> nat \<Rightarrow> failure + nat" where
  "size_search sizes sz bsi lim =
    (if lim = 0 then Inr bsi
     else let j = bsi + lim div 2 in
       case load sizes j of Inl e \<Rightarrow> Inl e | Inr b \<Rightarrow>
         if hs_size b < sz then size_search sizes sz (j + 1) ((lim - 1) div 2)
         else if j = 0 then Inr j
         else case load sizes (j - 1) of Inl e \<Rightarrow> Inl e | Inr b' \<Rightarrow>
           if hs_size b' < sz then Inr j else size_search sizes sz bsi (lim div 2))"
  by pat_completeness auto

termination
  by (relation "measure (\<lambda>(sizes, sz, bsi, lim). lim)") auto

declare size_search.simps [simp del]

text \<open>\<open>_jc_heap_block_size\<close>: an index, or the negated number of pages, in the arithmetic of \<open>size_t\<close>.\<close>

definition howmany32 :: "u32 \<Rightarrow> u32 \<Rightarrow> u32" where
  "howmany32 x y = (x + (y - 1)) div y"

definition heap_block_size :: "heap_size list \<Rightarrow> u32 \<Rightarrow> failure + int" where
  "heap_block_size sizes sz =
    (case load sizes (length sizes - 1) of Inl e \<Rightarrow> Inl e | Inr b \<Rightarrow>
       if of_nat (hs_size b) < sz then Inr (- int (unat (howmany32 (sz + of_nat block_offset) (of_nat page_size))))
       else map_sum id int (size_search sizes (unat sz) 0 (length sizes)))"

text \<open>The least size that is enough.\<close>

definition least_size :: "heap_size list \<Rightarrow> nat \<Rightarrow> nat \<Rightarrow> bool" where
  "least_size sizes sz k \<longleftrightarrow> k < length sizes \<and> sz \<le> hs_size (sizes ! k) \<and> (\<forall>i < k. hs_size (sizes ! i) < sz)"

lemma size_search_least:
  assumes "sorted_wrt (<) (map hs_size sizes)" and "least_size sizes sz k"
  shows "bsi \<le> k \<Longrightarrow> k < bsi + lim \<Longrightarrow> bsi + lim \<le> length sizes \<Longrightarrow> size_search sizes sz bsi lim = Inr k"
proof (induction lim arbitrary: bsi rule: less_induct)
  case (less lim)
  define j where "j = bsi + lim div 2"
  have j: "j < length sizes" "lim \<noteq> 0" using less.prems by (auto simp: j_def)
  have lt: "hs_size (sizes ! i) < hs_size (sizes ! l)" if "i < l" "l < length sizes" for i l
    using assms(1) that by (auto simp: sorted_wrt_iff_nth_less)
  show ?case
  proof (cases "hs_size (sizes ! j) < sz")
    case True
    have "j < k"
    proof (rule ccontr)
      assume "\<not> j < k"
      then have "hs_size (sizes ! k) \<le> hs_size (sizes ! j)" using lt [of k j] j by (cases "k = j") auto
      then show False using True assms(2) by (simp add: least_size_def)
    qed
    moreover have "size_search sizes sz (j + 1) ((lim - 1) div 2) = Inr k" if "j < k"
      using less.prems that j by (intro less.IH) (auto simp: j_def)
    ultimately show ?thesis
      using True j by (subst size_search.simps) (simp add: Let_def flip: j_def)
  next
    case False
    then have kj: "k \<le> j" using assms(2) by (auto simp: least_size_def not_less [symmetric])
    show ?thesis
    proof (cases "j = 0 \<or> hs_size (sizes ! (j - 1)) < sz")
      case True
      have "k = j"
      proof (rule ccontr)
        assume "k \<noteq> j"
        then have "k \<le> j - 1" "0 < j" using kj by auto
        then have "hs_size (sizes ! k) \<le> hs_size (sizes ! (j - 1))" using lt [of k "j - 1"] j by (cases "k = j - 1") (auto simp: less_imp_diff_less)
        then show False using True \<open>0 < j\<close> assms(2) by (simp add: least_size_def)
      qed
      then show ?thesis using True False j by (subst size_search.simps) (auto simp: Let_def simp flip: j_def)
    next
      case no: False
      then have "k \<noteq> j" using assms(2) by (auto simp: least_size_def)
      then have "size_search sizes sz bsi (lim div 2) = Inr k"
        using less.prems kj j by (intro less.IH) (auto simp: j_def)
      then show ?thesis using no False j by (subst size_search.simps) (auto simp: Let_def simp flip: j_def)
    qed
  qed
qed


lemma least_size_ex:
  assumes "sizes \<noteq> []" and "sz \<le> hs_size (sizes ! (length sizes - 1))"
  shows "\<exists>k. least_size sizes sz k"
proof -
  have "\<exists>k. k < length sizes \<and> sz \<le> hs_size (sizes ! k)"
    using assms by (intro exI [of _ "length sizes - 1"]) simp
  then obtain k where "k < length sizes \<and> sz \<le> hs_size (sizes ! k)"
    "\<forall>i < k. \<not> (i < length sizes \<and> sz \<le> hs_size (sizes ! i))"
    using exists_least_iff [of "\<lambda>k. k < length sizes \<and> sz \<le> hs_size (sizes ! k)"] by blast
  then show ?thesis by (intro exI [of _ k]) (auto simp: least_size_def)
qed

lemma sizes_ok_nth:
  assumes "sizes_ok sizes" and "k < length sizes"
  shows "8 \<le> hs_size (sizes ! k)" "hs_size (sizes ! k) mod 4 = 0" "2 \<le> hs_num_blocks (sizes ! k)"
    "4 + hs_num_blocks (sizes ! k) * hs_size (sizes ! k) \<le> 4096"
    "4096 < 4 + (hs_num_blocks (sizes ! k) + 1) * hs_size (sizes ! k)"
  using assms by (auto simp: sizes_ok_def list_all_length block_offset_def howmany_def)

lemma sizes_ok_small: "sizes_ok sizes \<Longrightarrow> k < length sizes \<Longrightarrow> hs_size (sizes ! k) \<le> 2046"
proof -
  assume "sizes_ok sizes" "k < length sizes"
  note r = sizes_ok_nth [OF this]
  have "2 * hs_size (sizes ! k) \<le> hs_num_blocks (sizes ! k) * hs_size (sizes ! k)" using r(3) by simp
  with r(4) show ?thesis by linarith
qed

lemma block_size_small:
  assumes ok: "sizes_ok sizes" and k: "least_size sizes (unat sz) k"
  shows "heap_block_size sizes sz = Inr (int k)"
proof -
  let ?m = "length sizes - 1"
  have m: "?m < length sizes" using ok by (auto simp: sizes_ok_def)
  have s: "sorted_wrt (<) (map hs_size sizes)" using ok by (simp add: sizes_ok_def)
  have "hs_size (sizes ! k) \<le> hs_size (sizes ! ?m)"
    using s k m by (cases "k = ?m") (auto simp: sorted_wrt_iff_nth_less least_size_def intro!: less_imp_le)
  then have "unat sz \<le> hs_size (sizes ! ?m)" using k by (simp add: least_size_def)
  then have "\<not> of_nat (hs_size (sizes ! ?m)) < sz"
    using sizes_ok_small [OF ok m] by (simp add: word_less_nat_alt unat_of_nat take_bit_nat_eq_self)
  moreover have "size_search sizes (unat sz) 0 (length sizes) = Inr k"
    using k by (intro size_search_least [OF s k]) (simp_all add: least_size_def)
  ultimately show ?thesis using m by (simp add: heap_block_size_def)
qed

lemma block_size_large:
  assumes ok: "sizes_ok sizes" and large: "hs_size (sizes ! (length sizes - 1)) < unat sz"
  shows "heap_block_size sizes sz = Inr (- int (unat (howmany32 (sz + 4) 4096)))"
proof -
  let ?m = "length sizes - 1"
  have m: "?m < length sizes" using ok by (auto simp: sizes_ok_def)
  have "of_nat (hs_size (sizes ! ?m)) < sz"
    using large sizes_ok_small [OF ok m] by (simp add: word_less_nat_alt unat_of_nat take_bit_nat_eq_self)
  then show ?thesis using m by (simp add: heap_block_size_def block_offset_def howmany_def)
qed

lemma howmany32_fits:
  assumes "unat sz \<le> 2 ^ 32 - 4100"
  shows "unat (howmany32 (sz + 4) 4096) = howmany (unat sz + 4) 4096"
proof -
  have "unat (sz + 4 + (4096 - 1)) = unat sz + 4 + (4096 - 1)"
    using assms by (simp add: unat_word_ariths)
  then show ?thesis by (simp add: howmany32_def howmany_def unat_div)
qed



lemma roundup_block_size_best_witness: "roundup_block_size 8 = Some (8, 511) \<and> (case roundup_block_size 8 of
      None \<Rightarrow> False | Some (s, n) \<Rightarrow> 8 \<le> s \<and> 2 \<le> n)"
  using roundup_block_size_best [of 8] by (simp add: roundup_first)

section \<open>The size of an array\<close>

text \<open>The tables of \<open>tables.c\<close>.\<close>

definition type_size :: "u8 \<Rightarrow> u32" where
  "type_size t =
    (if t = JC_TYPE_BOOLEAN then 1 else if t = JC_TYPE_BYTE then 1
     else if t = JC_TYPE_CHAR then 2 else if t = JC_TYPE_SHORT then 2
     else if t = JC_TYPE_INT then 4 else if t = JC_TYPE_LONG then 8
     else if t = JC_TYPE_FLOAT then 4 else if t = JC_TYPE_DOUBLE then 8
     else if t = JC_TYPE_REFERENCE then 4 else 0)"

definition array_head_size :: "u8 \<Rightarrow> u32" where
  "array_head_size t = (if 1 \<le> t \<and> t \<le> 8 \<or> t = JC_TYPE_REFERENCE then 12 else 0)"

definition max_array_length :: "u8 \<Rightarrow> int" where
  "max_array_length t =
    (if t = JC_TYPE_BOOLEAN then 0xffffffff div 1 else if t = JC_TYPE_BYTE then 0xffffffff div 1
     else if t = JC_TYPE_CHAR then 0xffffffff div 2 else if t = JC_TYPE_SHORT then 0xffffffff div 2
     else if t = JC_TYPE_INT then 0xffffffff div 4 else if t = JC_TYPE_LONG then 0xffffffff div 8
     else if t = JC_TYPE_FLOAT then 0xffffffff div 4 else if t = JC_TYPE_DOUBLE then 0xffffffff div 8
     else if t = JC_TYPE_REFERENCE then 0xffffffff div 4 else 0)"

text \<open>The beginning of \<open>_jc_new_array\<close>: the size of the array and the memory that is asked for.\<close>

definition array_request :: "heap_size list \<Rightarrow> u8 \<Rightarrow> u32 \<Rightarrow> failure + u32 \<times> int" where
  "array_request sizes elem_type len =
    (if jint_val len < 0 then Inl (Exn NegativeArraySizeException)
     else if jint_val len \<ge> max_array_length elem_type then Inl (Exn OutOfMemoryError)
     else let array_size = array_head_size elem_type + len * type_size elem_type in
       case heap_block_size sizes array_size of Inl e \<Rightarrow> Inl e | Inr bsi \<Rightarrow> Inr (array_size, bsi))"


text \<open>The memory behind a result of \<open>_jc_heap_block_size\<close>.\<close>

definition capacity :: "heap_size list \<Rightarrow> int \<Rightarrow> nat" where
  "capacity sizes n = (if 0 \<le> n then hs_size (sizes ! nat n) else nat (- n) * page_size - block_offset)"

definition element_types :: "u8 set" where
  "element_types = {JC_TYPE_BOOLEAN, JC_TYPE_BYTE, JC_TYPE_CHAR, JC_TYPE_SHORT, JC_TYPE_INT, JC_TYPE_LONG,
     JC_TYPE_FLOAT, JC_TYPE_DOUBLE, JC_TYPE_REFERENCE}"

lemma block_size_capacity:
  assumes "sizes_ok sizes" and "unat sz \<le> 2 ^ 32 - 4100" and "heap_block_size sizes sz = Inr n"
  shows "unat sz \<le> capacity sizes n"
proof (cases "unat sz \<le> hs_size (sizes ! (length sizes - 1))")
  case True
  then obtain k where "least_size sizes (unat sz) k"
    using least_size_ex [of sizes "unat sz"] assms(1) by (auto simp: sizes_ok_def)
  then show ?thesis using block_size_small [OF assms(1)] assms(3) by (auto simp: capacity_def least_size_def)
next
  case False
  have "heap_block_size sizes sz = Inr (- int (unat (howmany32 (sz + 4) 4096)))"
    using False by (intro block_size_large [OF assms(1)]) simp
  then have n: "n = - int (howmany (unat sz + 4) 4096)"
    using assms(3) unfolding howmany32_fits [OF assms(2)] by simp
  then show ?thesis
    using howmany_pos [of 4096 "unat sz + 4"] howmany_le [of 4096 "unat sz + 4"]
    by (simp add: capacity_def block_offset_def howmany_def [of 4])
qed

text \<open>
  The memory that \<open>_jc_new_array\<close> asks for is large enough for the header and the elements of the
  array, if their size stays more than a page below the end of the address space.
\<close>

theorem array_request_fits:
  assumes "sizes_ok sizes" and "elem_type \<in> element_types"
    and "12 + unat len * unat (type_size elem_type) \<le> 2 ^ 32 - 4100"
    and "array_request sizes elem_type len = Inr (sz, n)"
  shows "0 \<le> jint_val len \<and> unat sz = 12 + unat len * unat (type_size elem_type) \<and> unat sz \<le> capacity sizes n"
proof -
  have h: "array_head_size elem_type = 12" using assms(2) by (auto simp: element_types_def array_head_size_def)
  have r: "0 \<le> jint_val len" "sz = 12 + len * type_size elem_type" "heap_block_size sizes sz = Inr n"
    using assms(4) h by (auto simp: array_request_def Let_def split: if_splits sum.splits)
  have "unat (len * type_size elem_type) = unat len * unat (type_size elem_type)"
    using assms(3) by (intro unat_mult_lem [THEN iffD1]) simp
  then have "unat sz = 12 + unat len * unat (type_size elem_type)"
    using assms(3) by (simp add: r(2) unat_word_ariths)
  then show ?thesis using r block_size_capacity [OF assms(1) _ r(3)] assms(3) by simp
qed

text \<open>
  C17: The guard of \<open>_jc_new_array\<close> leaves the header out of account: an array of 0x3ffffffe ints passes
  it, its size wraps to 4, and it gets the smallest block of the heap.
\<close>

theorem array_request_overflow:
  assumes "sizes_ok sizes"
  shows "array_request sizes JC_TYPE_INT 0x3ffffffe = Inr (4, 0)
    \<and> capacity sizes 0 < 12 + unat (0x3ffffffe :: u32) * unat (type_size JC_TYPE_INT)"
proof -
  have l: "0 < length sizes" using assms by (simp add: sizes_ok_def)
  have "least_size sizes 4 0"
    using sizes_ok_nth(1) [OF assms l] l by (simp add: least_size_def)
  then have "heap_block_size sizes 4 = Inr 0"
    using block_size_small [OF assms, of 4 0] by simp
  moreover have "(4294967300 :: u32) = 4" by simp
  ultimately have "heap_block_size sizes 4294967300 = Inr 0" by (simp only:)
  then show ?thesis
    using sizes_ok_small [OF assms l]
    by (simp add: array_request_def array_head_size_def max_array_length_def type_size_def capacity_def Let_def)
qed

text \<open>
  For a size less than a page below the end of the address space the addition in
  \<open>_jc_heap_block_size\<close> wraps, and the result is at most one page, or the smallest block.
\<close>

theorem heap_block_size_wraps:
  assumes "sizes_ok sizes" and "2 ^ 32 - 4100 < unat sz"
  shows "heap_block_size sizes sz \<in> {Inr 0, Inr (- 1)}"
proof -
  have "hs_size (sizes ! (length sizes - 1)) < unat sz"
    using sizes_ok_small [OF assms(1), of "length sizes - 1"] assms by (auto simp: sizes_ok_def)
  then have r: "heap_block_size sizes sz = Inr (- int (unat (howmany32 (sz + 4) 4096)))"
    by (rule block_size_large [OF assms(1)])
  have lt: "unat sz < 2 ^ LENGTH(32)" by (rule unsigned_less)
  then have "unat (sz + 4 + (4096 - 1)) = unat sz + 4099 - 2 ^ 32"
    using assms(2) by (simp add: unat_word_ariths mod_if)
  then have "unat (howmany32 (sz + 4) 4096) = (unat sz + 4099 - 2 ^ 32) div 4096"
    by (simp add: howmany32_def unat_div)
  moreover have "(unat sz + 4099 - 2 ^ 32) div 4096 < 2"
    using lt by (simp add: less_mult_imp_div_less)
  ultimately show ?thesis unfolding r by (auto simp: less_2_cases_iff)
qed

lemma array_request_fits_witness:
  "\<exists>sz n. array_request (gen_block_sizes 85) JC_TYPE_INT 1500 = Inr (sz, n) \<and> unat sz = 6012 \<and> 6012 \<le> capacity (gen_block_sizes 85) n"
proof -
  obtain n where "heap_block_size (gen_block_sizes 85) 6012 = Inr n"
    using block_size_large [OF gen_block_sizes_ok, of 85 6012] sizes_ok_small [OF gen_block_sizes_ok, of "length (gen_block_sizes 85) - 1" 85]
      gen_block_sizes_ok [of 85] by (fastforce simp: sizes_ok_def)
  then have "array_request (gen_block_sizes 85) JC_TYPE_INT 1500 = Inr (6012, n)"
    by (simp add: array_request_def array_head_size_def max_array_length_def type_size_def Let_def)
  then show ?thesis
    using array_request_fits [OF gen_block_sizes_ok, of JC_TYPE_INT 1500 85 6012 n]
    by (simp add: element_types_def type_size_def)
qed

lemma array_request_overflow_witness: "array_request (gen_block_sizes 85) JC_TYPE_INT 0x3ffffffe = Inr (4, 0)"
  using array_request_overflow [OF gen_block_sizes_ok] by blast

lemma heap_block_size_wraps_witness: "heap_block_size (gen_block_sizes 85) 0xfffffffe \<in> {Inr 0, Inr (- 1)}"
  by (rule heap_block_size_wraps [OF gen_block_sizes_ok]) simp

end
