(* ===== verification/Uni_Alloc.thy ===== *)
theory Uni_Alloc
  imports Heap_Sizes
begin

text \<open>
  The uni-allocator, \<open>libjc/cl_alloc.c\<close>: memory of class loaders, cut from chunks of pages, given back
  in the reverse order or all at once. The mutex of the loader makes it sequential.
\<close>

section \<open>State\<close>

text \<open>A chunk: the address that \<open>malloc\<close> returned, and the header that is stored there.\<close>

record uni_pages =
  up_addr :: nat
  up_num_pages :: u32
  up_offset :: u32

text \<open>The allocator; \<open>*avail_pages\<close> is None when the pointer is null, for allocators without a limit.\<close>

record uni_mem =
  un_pages :: "uni_pages list"
  un_min_pages :: u32
  un_avail :: "u32 option"

text \<open>\<open>_JC_UNI_HDR_SIZE\<close>: two pointers, an \<open>int\<close> and a \<open>size_t\<close>.\<close>

abbreviation uni_hdr_size :: u32 where "uni_hdr_size \<equiv> 16"

definition roundup2 :: "u32 \<Rightarrow> u32 \<Rightarrow> u32" where
  "roundup2 x y = (x + (y - 1)) AND NOT (y - 1)"

definition uni_alloc_init :: "u32 \<Rightarrow> u32 option \<Rightarrow> uni_mem" where
  "uni_alloc_init min_pages avail = \<lparr>un_pages = [], un_min_pages = min_pages, un_avail = avail\<rparr>"

section \<open>Operations\<close>

text \<open>\<open>_jc_uni_avail_alloc\<close>: True for \<open>JNI_OK\<close>. The compare-and-swap loop is one step.\<close>

definition avail_alloc :: "u32 \<Rightarrow> (uni_mem, bool) mon" where
  "avail_alloc num_pages = (\<lambda>s. case un_avail s of
     None \<Rightarrow> (Inr True, s)
   | Some old \<Rightarrow>
       if 0 < jint_val num_pages \<and> old < num_pages then (Inr False, s)
       else (Inr True, s\<lparr>un_avail := Some (old - num_pages)\<rparr>))"

definition uni_alloc_free :: "(uni_mem, unit) mon" where
  "uni_alloc_free =
     bindM (gets un_pages) (\<lambda>ps.
     thenM (modify (\<lambda>s. s\<lparr>un_pages := []\<rparr>)) (
     bindM (avail_alloc (- sum_list (map up_num_pages ps))) (\<lambda>_. ret ())))"

text \<open>The loop \<open>Try hard to find memory\<close>, with the tries that are left. The collector is an argument.\<close>

fun reserve_pages :: "(uni_mem, unit) mon \<Rightarrow> nat \<Rightarrow> u32 \<Rightarrow> (uni_mem, unit) mon" where
  "reserve_pages gc 0 num_pages = fails (Exn OutOfMemoryError)"
| "reserve_pages gc (Suc tries) num_pages =
     bindM (avail_alloc num_pages) (\<lambda>ok.
     if ok then ret ()
     else if tries = 0 then fails (Exn OutOfMemoryError)
     else thenM gc (reserve_pages gc tries num_pages))"

text \<open>\<open>_jc_uni_ensure\<close>; \<open>mem\<close> is what \<open>malloc\<close> returns for a number of bytes.\<close>

definition uni_ensure :: "(uni_mem, unit) mon \<Rightarrow> (u32 \<Rightarrow> nat option) \<Rightarrow> u32 \<Rightarrow> (uni_mem, unit) mon" where
  "uni_ensure gc mem sz =
     bindM (gets un_pages) (\<lambda>ps.
     if ps \<noteq> [] \<and> sz < up_num_pages (last ps) * of_nat page_size - up_offset (last ps) then ret ()
     else bindM (gets un_min_pages) (\<lambda>min_pages.
       let n = howmany32 (uni_hdr_size + sz) (of_nat page_size);
           num_pages = (if n < min_pages then min_pages else n)
       in thenM (reserve_pages gc 3 num_pages) (
          case mem (num_pages * of_nat page_size) of
            None \<Rightarrow> bindM (avail_alloc (- num_pages)) (\<lambda>_. fails (Exn OutOfMemoryError))
          | Some a \<Rightarrow> modify (\<lambda>s. s\<lparr>un_pages := un_pages s @
              [\<lparr>up_addr = a, up_num_pages = num_pages, up_offset = uni_hdr_size\<rparr>]\<rparr>))))"

text \<open>\<open>TAILQ_LAST\<close>, whose result is used.\<close>

definition last_pages :: "(uni_mem, uni_pages) mon" where
  "last_pages = bindM (gets un_pages) (\<lambda>ps. if ps = [] then fails (Fault Null_dereference) else ret (last ps))"

definition set_offset :: "u32 \<Rightarrow> (uni_mem, unit) mon" where
  "set_offset off = modify (\<lambda>s. s\<lparr>un_pages := butlast (un_pages s) @ [(last (un_pages s))\<lparr>up_offset := off\<rparr>]\<rparr>)"

definition uni_alloc :: "(uni_mem, unit) mon \<Rightarrow> (u32 \<Rightarrow> nat option) \<Rightarrow> u32 \<Rightarrow> (uni_mem, nat) mon" where
  "uni_alloc gc mem sz0 =
    (let sz = roundup2 sz0 (of_nat full_alignment) in
     thenM (uni_ensure gc mem sz) (
     bindM last_pages (\<lambda>p.
     thenM (set_offset (up_offset p + sz)) (ret (up_addr p + unat (up_offset p))))))"

text \<open>Removing the last chunk and returning its pages.\<close>

definition drop_last :: "(uni_mem, unit) mon" where
  "drop_last = bindM last_pages (\<lambda>p.
     thenM (modify (\<lambda>s. s\<lparr>un_pages := butlast (un_pages s)\<rparr>)) (
     bindM (avail_alloc (- up_num_pages p)) (\<lambda>_. ret ())))"

text \<open>\<open>_jc_uni_unalloc\<close>: the new value of the pointer \<open>*pp\<close> is always null.\<close>

definition uni_unalloc :: "nat option \<Rightarrow> u32 \<Rightarrow> (uni_mem, unit) mon" where
  "uni_unalloc p sz0 = (case p of None \<Rightarrow> ret () | Some ptr \<Rightarrow>
     bindM (gets un_pages) (\<lambda>ps.
     if ps = [] then ret ()
     else let sz = roundup2 sz0 (of_nat full_alignment); c = last ps in
       if ptr + unat sz \<noteq> up_addr c + unat (up_offset c) then ret ()
       else thenM (set_offset (up_offset c - sz)) (
         if up_offset c - sz = uni_hdr_size then drop_last else ret ())))"

definition in_chunk :: "nat \<Rightarrow> uni_pages \<Rightarrow> bool" where
  "in_chunk ptr p \<longleftrightarrow> up_addr p + unat uni_hdr_size \<le> ptr \<and> ptr < up_addr p + unat (up_num_pages p) * page_size"

definition uni_contains :: "uni_mem \<Rightarrow> nat \<Rightarrow> bool" where
  "uni_contains s ptr \<longleftrightarrow> list_ex (in_chunk ptr) (un_pages s)"

definition uni_mark :: "(uni_mem, nat option) mon" where
  "uni_mark = bindM (gets un_pages) (\<lambda>ps.
     ret (if ps = [] then None else Some (up_addr (last ps) + unat (up_offset (last ps)))))"

text \<open>The loop of \<open>_jc_uni_reset\<close>: every turn drops a chunk, or is the last one.\<close>

fun reset_loop :: "nat \<Rightarrow> nat \<Rightarrow> (uni_mem, unit) mon" where
  "reset_loop 0 mem = fails (Fault Out_of_fuel)"
| "reset_loop (Suc fuel) mem =
     bindM last_pages (\<lambda>p.
     if in_chunk mem p then set_offset (of_nat (mem - up_addr p))
     else thenM drop_last (reset_loop fuel mem))"

definition uni_reset :: "nat option \<Rightarrow> (uni_mem, unit) mon" where
  "uni_reset mem = (case mem of None \<Rightarrow> uni_alloc_free
     | Some m \<Rightarrow> bindM (gets un_pages) (\<lambda>ps. reset_loop (Suc (length ps)) m))"

section \<open>The memory in use\<close>

text \<open>The bytes of a chunk, and those that have been handed out.\<close>

definition chunk_range :: "uni_pages \<Rightarrow> nat set" where
  "chunk_range p = {up_addr p ..< up_addr p + unat (up_num_pages p) * page_size}"

definition used_range :: "uni_pages \<Rightarrow> nat set" where
  "used_range p = {up_addr p + unat uni_hdr_size ..< up_addr p + unat (up_offset p)}"

definition used :: "uni_mem \<Rightarrow> nat set" where
  "used s = (\<Union>p \<in> set (un_pages s). used_range p)"

definition chunk_ok :: "uni_pages \<Rightarrow> bool" where
  "chunk_ok p \<longleftrightarrow> up_addr p mod 4 = 0 \<and> unat (up_offset p) mod 4 = 0 \<and> uni_hdr_size < up_offset p
     \<and> unat (up_offset p) \<le> unat (up_num_pages p) * page_size \<and> unat (up_num_pages p) < 2 ^ 19"

definition uni_ok :: "uni_mem \<Rightarrow> bool" where
  "uni_ok s \<longleftrightarrow> list_all chunk_ok (un_pages s)
     \<and> sorted_wrt (\<lambda>p q. chunk_range p \<inter> chunk_range q = {}) (un_pages s)
     \<and> unat (un_min_pages s) < 2 ^ 19"

text \<open>\<open>malloc\<close> returns aligned memory outside the chunks that are there.\<close>

definition malloc_ok :: "(u32 \<Rightarrow> nat option) \<Rightarrow> uni_mem \<Rightarrow> bool" where
  "malloc_ok mem s \<longleftrightarrow> (\<forall>n a. mem n = Some a \<longrightarrow> a mod 4 = 0 \<and>
     (\<forall>p \<in> set (un_pages s). chunk_range p \<inter> {a ..< a + unat n} = {}))"

text \<open>The collector may give back pages of other loaders; it does not touch this one.\<close>

definition gc_ok :: "(uni_mem, unit) mon \<Rightarrow> bool" where
  "gc_ok gc \<longleftrightarrow> (\<forall>s. case gc s of (r, t) \<Rightarrow> (\<forall>f. r \<noteq> Inl (Fault f)) \<and> un_pages t = un_pages s \<and> un_min_pages t = un_min_pages s)"

lemma and_not_mask: "(x :: u32) AND NOT (mask k) = push_bit k (drop_bit k x)"
  by (rule bit_word_eqI) (auto simp: bit_and_iff bit_not_iff bit_mask_iff bit_push_bit_iff bit_drop_bit_eq)

lemma roundup2_4:
  assumes "unat sz \<le> 2 ^ 32 - 4"
  shows "unat (roundup2 sz 4) = (unat sz + 3) div 4 * 4"
proof -
  define y where "y = (sz + 3) div 4"
  have "unat (sz + 3) = unat sz + 3" using assms by (simp add: unat_word_ariths)
  then have y: "unat y = (unat sz + 3) div 4" by (simp add: y_def unat_div)
  have m: "(4 - 1 :: u32) = mask 2" "(3 :: u32) = mask 2" by (simp_all add: mask_eq_exp_minus_1)
  have "roundup2 sz 4 = push_bit 2 (drop_bit 2 (sz + mask 2))"
    by (simp only: roundup2_def m and_not_mask)
  also have "\<dots> = y * 4" by (simp add: push_bit_eq_mult drop_bit_eq_div y_def flip: m(2))
  finally have "roundup2 sz 4 = y * 4" .
  moreover have "unat (y * 4) = unat y * unat (4 :: u32)"
    using y assms by (intro unat_mult_lem [THEN iffD1]) simp
  ultimately show ?thesis using y by simp
qed

section \<open>The steps of an allocation\<close>

lemma avail_alloc_frame:
  "avail_alloc n s = (r, t) \<Longrightarrow> un_pages t = un_pages s \<and> un_min_pages t = un_min_pages s \<and> (\<exists>b. r = Inr b)"
  by (auto simp: avail_alloc_def split: option.splits if_splits)

text \<open>What does not touch the chunks.\<close>

definition quiet :: "(uni_mem, 'a) mon \<Rightarrow> uni_mem \<Rightarrow> bool" where
  "quiet m s \<longleftrightarrow> (case m s of (r, t) \<Rightarrow> (\<forall>f. r \<noteq> Inl (Fault f)) \<and> un_pages t = un_pages s \<and> un_min_pages t = un_min_pages s)"

lemma quietD: "quiet m s \<Longrightarrow> m s = (r, t) \<Longrightarrow>
    (\<forall>f. r \<noteq> Inl (Fault f)) \<and> un_pages t = un_pages s \<and> un_min_pages t = un_min_pages s"
  by (simp add: quiet_def)

lemma quiet_gc: "gc_ok gc \<Longrightarrow> quiet gc s"
  by (simp add: gc_ok_def quiet_def)

lemma quiet_avail: "quiet (avail_alloc n) s"
  by (auto simp: quiet_def avail_alloc_def split: option.splits)

lemma quiet_fails: "quiet (fails (Exn e)) s"
  by (simp add: quiet_def fails_apply)

lemma quiet_ret: "quiet (ret x) s"
  by (simp add: quiet_def ret_apply)

lemma quiet_bind:
  assumes "\<And>s. quiet m s" and "\<And>x s. quiet (f x) s"
  shows "quiet (bindM m f) s"
proof -
  obtain r t where m: "m s = (r, t)" by force
  show ?thesis
  proof (cases r)
    case (Inl e)
    then show ?thesis using m quietD [OF assms(1) m] by (simp add: quiet_def)
  next
    case (Inr x)
    obtain r' u where f: "f x t = (r', u)" by force
    then show ?thesis using m Inr quietD [OF assms(1) m] quietD [OF assms(2) f] by (simp add: quiet_def)
  qed
qed

lemma quiet_then: "(\<And>s. quiet m s) \<Longrightarrow> (\<And>s. quiet n s) \<Longrightarrow> quiet (thenM m n) s"
  unfolding thenM_def by (rule quiet_bind)

lemma quiet_reserve:
  assumes "gc_ok gc"
  shows "quiet (reserve_pages gc tries n) s"
proof (induction tries arbitrary: s)
  case (Suc tries)
  have "quiet (if ok then ret () else if tries = 0 then fails (Exn OutOfMemoryError)
      else thenM gc (reserve_pages gc tries n)) s" for ok s
    using Suc by (simp add: quiet_ret quiet_fails quiet_then quiet_gc [OF assms])
  then show ?case by (simp add: quiet_bind quiet_avail)
qed (simp add: quiet_fails)

lemma chunk_room:
  assumes "chunk_ok c"
  shows "unat (up_num_pages c * of_nat page_size - up_offset c) = unat (up_num_pages c) * page_size - unat (up_offset c)"
proof -
  have "unat (up_num_pages c * 4096) = unat (up_num_pages c) * unat (4096 :: u32)"
    using assms by (intro unat_mult_lem [THEN iffD1]) (simp add: chunk_ok_def)
  then show ?thesis using assms by (simp add: chunk_ok_def unat_sub word_le_nat_alt)
qed

text \<open>The number of pages that are asked for.\<close>

lemma new_pages:
  assumes "unat sz \<le> 2 ^ 30" and "unat m < 2 ^ 19"
  defines "n \<equiv> (if howmany32 (16 + sz) 4096 < m then m else howmany32 (16 + sz) 4096)"
  shows "16 + unat sz \<le> unat n * page_size" and "unat n < 2 ^ 19"
proof -
  have "unat (16 + sz + (4096 - 1)) = 16 + unat sz + 4095" using assms(1) by (simp add: unat_word_ariths)
  then have h: "unat (howmany32 (16 + sz) 4096) = howmany (16 + unat sz) 4096"
    by (simp add: howmany32_def howmany_def unat_div)
  have "howmany (16 + unat sz) 4096 < 2 ^ 19" using assms(1) by (simp add: howmany_def)
  with h assms(2) show "unat n < 2 ^ 19" by (simp add: n_def)
  have "howmany (16 + unat sz) 4096 \<le> unat n" using h by (simp add: n_def word_less_nat_alt)
  then have "howmany (16 + unat sz) 4096 * 4096 \<le> unat n * 4096" by simp
  then show "16 + unat sz \<le> unat n * page_size" using howmany_le [of 4096 "16 + unat sz"] by linarith
qed

lemma ensure_step:
  assumes ok: "uni_ok s" and gc: "gc_ok gc" and sz: "unat sz \<le> 2 ^ 30" and run: "uni_ensure gc mem sz s = (r, t)"
  shows "un_min_pages t = un_min_pages s" and "r = Inl e \<Longrightarrow> (\<exists>x. e = Exn x) \<and> un_pages t = un_pages s"
    and "r = Inr u \<Longrightarrow>
      un_pages t = un_pages s \<and> un_pages s \<noteq> [] \<and>
        unat sz + unat (up_offset (last (un_pages s))) < unat (up_num_pages (last (un_pages s))) * page_size
      \<or> (\<exists>a n. un_pages t = un_pages s @ [\<lparr>up_addr = a, up_num_pages = n, up_offset = 16\<rparr>]
        \<and> mem (n * 4096) = Some a \<and> 16 + unat sz \<le> unat n * page_size \<and> unat n < 2 ^ 19)"
proof -
  let ?ps = "un_pages s" and ?room = "un_pages s \<noteq> [] \<and> sz < up_num_pages (last (un_pages s)) * of_nat page_size - up_offset (last (un_pages s))"
  define n where "n = (if howmany32 (16 + sz) 4096 < un_min_pages s then un_min_pages s else howmany32 (16 + sz) 4096)"
  have n: "16 + unat sz \<le> unat n * page_size" "unat n < 2 ^ 19"
    using new_pages [OF sz, of "un_min_pages s"] ok by (simp_all add: n_def uni_ok_def)
  have "un_min_pages t = un_min_pages s \<and> (r = Inl e \<longrightarrow> (\<exists>x. e = Exn x) \<and> un_pages t = ?ps) \<and> (r = Inr u \<longrightarrow>
      un_pages t = ?ps \<and> ?ps \<noteq> [] \<and> unat sz + unat (up_offset (last ?ps)) < unat (up_num_pages (last ?ps)) * page_size
      \<or> (\<exists>a n. un_pages t = ?ps @ [\<lparr>up_addr = a, up_num_pages = n, up_offset = 16\<rparr>]
        \<and> mem (n * 4096) = Some a \<and> 16 + unat sz \<le> unat n * page_size \<and> unat n < 2 ^ 19))"
  proof (cases ?room)
    case True
    then have "chunk_ok (last ?ps)" using ok by (auto simp: uni_ok_def list_all_iff)
    then have "unat sz < unat (up_num_pages (last ?ps)) * page_size - unat (up_offset (last ?ps))"
      using True chunk_room [of "last ?ps"] by (simp add: word_less_nat_alt)
    then show ?thesis using True run by (simp add: uni_ensure_def)
  next
    case False
    obtain r1 s1 where res: "reserve_pages gc 3 n s = (r1, s1)" by force
    note q = quietD [OF quiet_reserve [OF gc] res]
    show ?thesis
    proof (cases r1)
      case (Inl x)
      then show ?thesis using False run res q by (cases x) (auto simp: uni_ensure_def Let_def n_def)
    next
      case (Inr x)
      obtain r2 s2 where av: "avail_alloc (- n) s1 = (r2, s2)" by force
      show ?thesis
      proof (cases "mem (n * 4096)")
        case None
        then show ?thesis using False run res q Inr av avail_alloc_frame [OF av]
          by (auto simp: uni_ensure_def Let_def n_def)
      next
        case (Some a)
        then show ?thesis using False run res q Inr n
          by (auto simp: uni_ensure_def Let_def n_def)
      qed
    qed
  qed
  then show "un_min_pages t = un_min_pages s" "r = Inl e \<Longrightarrow> (\<exists>x. e = Exn x) \<and> un_pages t = ?ps"
    "r = Inr u \<Longrightarrow> un_pages t = ?ps \<and> ?ps \<noteq> [] \<and> unat sz + unat (up_offset (last ?ps)) < unat (up_num_pages (last ?ps)) * page_size
      \<or> (\<exists>a n. un_pages t = ?ps @ [\<lparr>up_addr = a, up_num_pages = n, up_offset = 16\<rparr>]
        \<and> mem (n * 4096) = Some a \<and> 16 + unat sz \<le> unat n * page_size \<and> unat n < 2 ^ 19)" by blast+
qed

text \<open>
  An allocation pushes its bytes onto the last chunk \<open>c\<close>, which was there before or is new.
\<close>

definition pushed :: "uni_mem \<Rightarrow> uni_mem \<Rightarrow> nat \<Rightarrow> u32 \<Rightarrow> uni_pages list \<Rightarrow> uni_pages \<Rightarrow> bool" where
  "pushed s t p sz ps c \<longleftrightarrow>
     un_pages t = ps @ [c\<lparr>up_offset := up_offset c + sz\<rparr>] \<and> un_min_pages t = un_min_pages s
     \<and> p = up_addr c + unat (up_offset c)
     \<and> unat (up_offset c) + unat sz \<le> unat (up_num_pages c) * page_size \<and> unat (up_num_pages c) < 2 ^ 19
     \<and> (un_pages s = ps @ [c]
       \<or> un_pages s = ps \<and> up_offset c = uni_hdr_size \<and> up_addr c mod 4 = 0
         \<and> (\<forall>q \<in> set ps. chunk_range q \<inter> chunk_range c = {}))"

lemma malloc_okD:
  "malloc_ok mem s \<Longrightarrow> mem n = Some a \<Longrightarrow> a mod 4 = 0"
  "malloc_ok mem s \<Longrightarrow> mem n = Some a \<Longrightarrow> q \<in> set (un_pages s) \<Longrightarrow> chunk_range q \<inter> {a ..< a + unat n} = {}"
  by (simp_all add: malloc_ok_def)

lemma unat_pages: "unat (n :: u32) < 2 ^ 19 \<Longrightarrow> unat (n * 4096) = unat n * 4096"
  using unat_mult_lem [of n "4096 :: u32"] by simp

lemma last_pages_snoc [simp]: "un_pages s = ps @ [c] \<Longrightarrow> last_pages s = (Inr c, s)"
  by (simp add: last_pages_def)

lemma set_offset_apply: "set_offset off s = (Inr (), s\<lparr>un_pages := butlast (un_pages s) @ [(last (un_pages s))\<lparr>up_offset := off\<rparr>]\<rparr>)"
  by (simp add: set_offset_def)

lemma roundup_bounds:
  assumes "unat sz0 \<le> 2 ^ 30 - 4"
  shows "unat (roundup2 sz0 4) \<le> 2 ^ 30" "unat sz0 \<le> unat (roundup2 sz0 4)" "unat (roundup2 sz0 4) mod 4 = 0"
proof -
  have "unat (roundup2 sz0 4) = (unat sz0 + 3) div 4 * 4" using assms by (intro roundup2_4) simp
  then show "unat (roundup2 sz0 4) \<le> 2 ^ 30" "unat sz0 \<le> unat (roundup2 sz0 4)" "unat (roundup2 sz0 4) mod 4 = 0"
    using assms by simp_all
qed

lemma alloc_step:
  assumes ok: "uni_ok s" and gc: "gc_ok gc" and mem: "malloc_ok mem s" and sz: "unat sz0 \<le> 2 ^ 30 - 4"
  shows "case uni_alloc gc mem sz0 s of
      (Inl e, t) \<Rightarrow> (\<exists>x. e = Exn x) \<and> un_pages t = un_pages s \<and> un_min_pages t = un_min_pages s
    | (Inr p, t) \<Rightarrow> \<exists>ps c. pushed s t p (roundup2 sz0 4) ps c"
proof -
  define sz where "sz = roundup2 sz0 4"
  have sz': "unat sz \<le> 2 ^ 30" using roundup_bounds [OF assms(4)] by (simp add: sz_def)
  obtain r s1 where en: "uni_ensure gc mem sz s = (r, s1)" by force
  note e = ensure_step [OF ok gc sz' en]
  show ?thesis
  proof (cases r)
    case (Inl x)
    then show ?thesis using en e(1,2) by (simp add: uni_alloc_def sz_def Let_def)
  next
    case (Inr u)
    obtain ps c where c: "un_pages s1 = ps @ [c]"
      "unat (up_offset c) + unat sz \<le> unat (up_num_pages c) * page_size \<and> unat (up_num_pages c) < 2 ^ 19
       \<and> (un_pages s = ps @ [c] \<or> un_pages s = ps \<and> up_offset c = uni_hdr_size \<and> up_addr c mod 4 = 0
         \<and> (\<forall>q \<in> set ps. chunk_range q \<inter> chunk_range c = {}))"
    proof (rule disjE [OF e(3) [OF Inr]], elim conjE, goal_cases)
      case 1
      have "chunk_ok (last (un_pages s))" using ok 1(3) by (auto simp: uni_ok_def list_all_iff)
      then show ?case
        using 1(1) [of "butlast (un_pages s)" "last (un_pages s)"] 1(2-) by (simp add: chunk_ok_def)
    next
      case 2
      then obtain a n where n: "un_pages s1 = un_pages s @ [\<lparr>up_addr = a, up_num_pages = n, up_offset = 16\<rparr>]"
        "mem (n * 4096) = Some a" "16 + unat sz \<le> unat n * page_size" "unat n < 2 ^ 19" by blast
      let ?c = "\<lparr>up_addr = a, up_num_pages = n, up_offset = 16\<rparr>"
      have "chunk_range q \<inter> chunk_range ?c = {}" if "q \<in> set (un_pages s)" for q
        using malloc_okD(2) [OF mem n(2) that] unat_pages [OF n(4)] by (simp add: chunk_range_def)
      then show ?case
        using 2(1) [of "un_pages s" ?c] n malloc_okD(1) [OF mem n(2)] by simp
    qed
    have "uni_alloc gc mem sz0 s = (Inr (up_addr c + unat (up_offset c)), s1\<lparr>un_pages := ps @ [c\<lparr>up_offset := up_offset c + sz\<rparr>]\<rparr>)"
      using en Inr c(1) by (simp add: uni_alloc_def sz_def set_offset_apply Let_def)
    moreover have "pushed s (s1\<lparr>un_pages := ps @ [c\<lparr>up_offset := up_offset c + sz\<rparr>]\<rparr>) (up_addr c + unat (up_offset c)) sz ps c"
      using c(2) e(1) by (simp add: pushed_def)
    ultimately show ?thesis by (auto simp: sz_def)
  qed
qed

lemma pushed_offset:
  assumes "pushed s t p sz ps c"
  shows "unat (up_offset c + sz) = unat (up_offset c) + unat sz"
proof -
  have "unat (up_num_pages c) * 4096 < 2 ^ 19 * 4096" "unat (up_offset c) + unat sz \<le> unat (up_num_pages c) * 4096"
    using assms by (simp_all add: pushed_def)
  then have "unat (up_offset c) + unat sz < 2 ^ 32" by (simp del: mult_less_cancel2)
  then show ?thesis by (simp add: unat_word_ariths)
qed

lemma pushed_ok:
  assumes ok: "uni_ok s" and p: "pushed s t p sz ps c" and sz: "0 < unat sz" "unat sz mod 4 = 0"
  shows "uni_ok t"
proof -
  let ?d = "c\<lparr>up_offset := up_offset c + sz\<rparr>"
  note off = pushed_offset [OF p]
  have t: "un_pages t = ps @ [?d]" "un_min_pages t = un_min_pages s" using p by (simp_all add: pushed_def)
  have r: "chunk_range ?d = chunk_range c" by (simp add: chunk_range_def)
  have "un_pages s = ps @ [c] \<or> un_pages s = ps \<and> up_offset c = 16 \<and> up_addr c mod 4 = 0
      \<and> (\<forall>q \<in> set ps. chunk_range q \<inter> chunk_range c = {})" using p by (simp add: pushed_def)
  then have d: "list_all chunk_ok ps" "up_addr c mod 4 = 0" "unat (up_offset c) mod 4 = 0" "16 \<le> unat (up_offset c)"
    "sorted_wrt (\<lambda>p q. chunk_range p \<inter> chunk_range q = {}) ps" "\<forall>q \<in> set ps. chunk_range q \<inter> chunk_range c = {}"
    using ok by (elim disjE; simp add: uni_ok_def chunk_ok_def sorted_wrt_append word_less_nat_alt)+
  moreover have "unat (up_offset c + sz) mod 4 = 0" using d(3) sz(2) off by (metis mod_add_eq add_0 mod_0)
  ultimately have "chunk_ok ?d"
    using p off sz(1) by (simp add: chunk_ok_def pushed_def word_less_nat_alt)
  then show ?thesis using d ok r t by (simp add: uni_ok_def sorted_wrt_append)
qed


lemma used_in_chunk: "chunk_ok q \<Longrightarrow> used_range q \<subseteq> chunk_range q"
  by (auto simp: used_range_def chunk_range_def chunk_ok_def)

lemma pushed_used:
  assumes ok: "uni_ok s" and p: "pushed s t p sz ps c"
  shows "used t = used s \<union> {p ..< p + unat sz}" and "used s \<inter> {p ..< p + unat sz} = {}"
proof -
  let ?d = "c\<lparr>up_offset := up_offset c + sz\<rparr>"
  note off = pushed_offset [OF p]
  have t: "un_pages t = ps @ [?d]" and pd: "p = up_addr c + unat (up_offset c)"
    and fit: "unat (up_offset c) + unat sz \<le> unat (up_num_pages c) * 4096"
    and s: "un_pages s = ps @ [c] \<or> un_pages s = ps \<and> up_offset c = 16 \<and> up_addr c mod 4 = 0
      \<and> (\<forall>q \<in> set ps. chunk_range q \<inter> chunk_range c = {})"
    using p by (simp_all add: pushed_def)
  from s have c16: "16 \<le> unat (up_offset c)"
    using ok by (elim disjE; simp add: uni_ok_def chunk_ok_def word_less_nat_alt)
  have us: "used s = (\<Union>q \<in> set ps. used_range q) \<union> used_range c"
    using s by (elim disjE) (auto simp: used_def used_range_def)
  have ud: "used_range ?d = used_range c \<union> {p ..< p + unat sz}"
    using off pd c16 by (auto simp: used_range_def)
  show "used t = used s \<union> {p ..< p + unat sz}" using us ud t by (auto simp: used_def)
  have new: "{p ..< p + unat sz} \<subseteq> chunk_range c" using pd fit by (auto simp: chunk_range_def)
  have "used_range q \<inter> {p ..< p + unat sz} = {}" if "q \<in> set ps" for q
  proof -
    have "chunk_ok q" "chunk_range q \<inter> chunk_range c = {}"
      using s ok that by (elim disjE; auto simp: uni_ok_def list_all_iff sorted_wrt_append)+
    then show ?thesis using used_in_chunk [of q] new by blast
  qed
  moreover have "used_range c \<inter> {p ..< p + unat sz} = {}" using pd by (auto simp: used_range_def)
  ultimately show "used s \<inter> {p ..< p + unat sz} = {}" unfolding us by blast
qed


lemma unalloc_pushed:
  assumes ok: "uni_ok s" and p: "pushed s t p (roundup2 sz0 4) ps c"
  shows "\<exists>u. uni_unalloc (Some p) sz0 t = (Inr (), u) \<and> un_pages u = un_pages s"
proof -
  let ?sz = "roundup2 sz0 4"
  note off = pushed_offset [OF p]
  have t: "un_pages t = ps @ [c\<lparr>up_offset := up_offset c + ?sz\<rparr>]" and pd: "p = up_addr c + unat (up_offset c)"
    and s: "un_pages s = ps @ [c] \<or> un_pages s = ps \<and> up_offset c = 16"
    using p by (auto simp: pushed_def)
  let ?t = "t\<lparr>un_pages := ps @ [c]\<rparr>"
  have so: "set_offset (up_offset c) t = (Inr (), ?t)" using t by (simp add: set_offset_apply)
  have un: "uni_unalloc (Some p) sz0 t = (if up_offset c = 16 then drop_last else ret ()) ?t"
    using t pd off so by (simp add: uni_unalloc_def Let_def)
  show ?thesis
  proof (cases "up_offset c = 16")
    case True
    have sp: "un_pages s = ps" using s True ok by (auto simp: uni_ok_def chunk_ok_def)
    obtain r u where av: "avail_alloc (- up_num_pages c) (?t\<lparr>un_pages := ps\<rparr>) = (r, u)" by force
    then have "drop_last ?t = (Inr (), u)" using avail_alloc_frame [OF av] by (auto simp: drop_last_def)
    then show ?thesis using un True sp avail_alloc_frame [OF av] by simp
  next
    case False
    then show ?thesis using un s by simp
  qed
qed

text \<open>
  \<open>_jc_uni_unalloc\<close> undoes the last \<open>_jc_uni_alloc\<close>, a chunk that was added for it included.
\<close>

theorem uni_unalloc_undoes:
  assumes "uni_ok s" and "gc_ok gc" and "malloc_ok mem s" and "unat sz \<le> 2 ^ 30 - 4"
    and "uni_alloc gc mem sz s = (Inr p, t)"
  shows "\<exists>u. uni_unalloc (Some p) sz t = (Inr (), u) \<and> un_pages u = un_pages s"
proof -
  obtain ps c where "pushed s t p (roundup2 sz 4) ps c"
    using alloc_step [OF assms(1-4)] assms(5) by auto
  then show ?thesis by (rule unalloc_pushed [OF assms(1)])
qed

section \<open>Marking and resetting\<close>

text \<open>Any number of allocations, failed ones included, from one state to another.\<close>

inductive allocations :: "(uni_mem, unit) mon \<Rightarrow> uni_mem \<Rightarrow> uni_mem \<Rightarrow> bool" for gc :: "(uni_mem, unit) mon" where
  allocs_none: "allocations gc s s"
| allocs_one: "allocations gc s t \<Longrightarrow> malloc_ok mem t \<Longrightarrow> 0 < unat sz \<Longrightarrow> unat sz \<le> 2 ^ 30 - 4 \<Longrightarrow>
    uni_alloc gc mem sz t = (r, u) \<Longrightarrow> allocations gc s u"

definition above :: "uni_mem \<Rightarrow> uni_mem \<Rightarrow> bool" where
  "above s t \<longleftrightarrow> (un_pages s = [] \<or> (\<exists>ps c off ys. un_pages s = ps @ [c] \<and> un_pages t = ps @ c\<lparr>up_offset := off\<rparr> # ys))"

lemma above_step:
  assumes "above s t" and "uni_ok t" and "gc_ok gc" and "malloc_ok mem t" and "unat sz \<le> 2 ^ 30 - 4" and "0 < unat sz"
    and run: "uni_alloc gc mem sz t = (r, u)"
  shows "above s u \<and> uni_ok u"
proof (cases r)
  case (Inl e)
  then have "un_pages u = un_pages t" "un_min_pages u = un_min_pages t"
    using alloc_step [OF assms(2-5)] run by simp_all
  then show ?thesis using assms(1,2) by (simp add: above_def uni_ok_def)
next
  case (Inr p)
  then obtain qs d where p: "pushed t u p (roundup2 sz 4) qs d" using alloc_step [OF assms(2-5)] run by auto
  have ok: "uni_ok u" by (rule pushed_ok [OF assms(2) p]) (use roundup_bounds [OF assms(5)] assms(6) in simp_all)
  have u: "un_pages u = qs @ [d\<lparr>up_offset := up_offset d + roundup2 sz 4\<rparr>]" "un_pages t = qs @ [d] \<or> un_pages t = qs"
    using p by (auto simp: pushed_def)
  have "above s u"
  proof (cases "un_pages s = []")
    case False
    then obtain ps c off ys where st: "un_pages s = ps @ [c]" "un_pages t = ps @ c\<lparr>up_offset := off\<rparr> # ys"
      using assms(1) by (auto simp: above_def)
    then show ?thesis using u unfolding above_def
      by (cases ys rule: rev_cases) auto
  qed (simp add: above_def)
  with ok show ?thesis by simp
qed


lemma above_allocations:
  assumes "allocations gc s t" and "gc_ok gc" and "uni_ok s"
  shows "above s t \<and> uni_ok t"
  using assms(1,3)
proof induction
  case (allocs_none s)
  have "above s s"
  proof (cases "un_pages s" rule: rev_cases)
    case (snoc ps c)
    then have "un_pages s = ps @ c\<lparr>up_offset := up_offset c\<rparr> # []" by simp
    with snoc show ?thesis unfolding above_def by (intro disjI2 exI conjI)
  qed (simp add: above_def)
  with allocs_none show ?case by simp
next
  case (allocs_one s t mem sz r u)
  then show ?case using above_step [OF _ _ assms(2)] by blast
qed

lemma drop_last_step:
  "un_pages s = ps @ [c] \<Longrightarrow> \<exists>u. drop_last s = (Inr (), u) \<and> un_pages u = ps"
proof -
  assume s: "un_pages s = ps @ [c]"
  obtain r u where av: "avail_alloc (- up_num_pages c) (s\<lparr>un_pages := ps\<rparr>) = (r, u)" by force
  with s show ?thesis using avail_alloc_frame [OF av] by (auto simp: drop_last_def)
qed

lemma reset_drops:
  "un_pages s = ps @ ys \<Longrightarrow> \<forall>y \<in> set ys. \<not> in_chunk m y \<Longrightarrow>
     \<exists>u. reset_loop (length ys + fuel) m s = reset_loop fuel m u \<and> un_pages u = ps"
proof (induction ys arbitrary: s rule: rev_induct)
  case (snoc y ys)
  obtain u where u: "drop_last s = (Inr (), u)" "un_pages u = ps @ ys"
    using drop_last_step [of s "ps @ ys" y] snoc.prems(1) by auto
  have "reset_loop (length (ys @ [y]) + fuel) m s = reset_loop (length ys + fuel) m u"
    using u(1) snoc.prems last_pages_snoc [of s "ps @ ys" y] by simp
  with snoc.IH [OF u(2)] snoc.prems(2) show ?case by simp
qed auto

text \<open>
  C21: \<open>_jc_uni_reset\<close> gives back what has been allocated since \<open>_jc_uni_mark\<close>, if the last chunk was not
  full when the mark was taken.
\<close>

theorem uni_mark_reset:
  assumes "uni_ok s" and "gc_ok gc" and "uni_mark s = (Inr m, s)" and "allocations gc s t"
    and "un_pages s \<noteq> [] \<longrightarrow> unat (up_offset (last (un_pages s))) < unat (up_num_pages (last (un_pages s))) * page_size"
  shows "\<exists>u. uni_reset m t = (Inr (), u) \<and> un_pages u = un_pages s"
proof (cases "un_pages s" rule: rev_cases)
  case Nil
  then have m: "m = None" using assms(3) by (simp add: uni_mark_def)
  obtain r u where av: "avail_alloc (- sum_list (map up_num_pages (un_pages t))) (t\<lparr>un_pages := []\<rparr>) = (r, u)" by force
  show ?thesis using m Nil av avail_alloc_frame [OF av] by (auto simp: uni_reset_def uni_alloc_free_def)
next
  case (snoc ps c)
  have ab: "above s t" "uni_ok t" using above_allocations [OF assms(4,2,1)] by simp_all
  obtain off ys where t: "un_pages t = ps @ c\<lparr>up_offset := off\<rparr> # ys"
    using ab(1) snoc by (auto simp: above_def)
  let ?c = "c\<lparr>up_offset := off\<rparr>" and ?m = "up_addr c + unat (up_offset c)"
  have m: "m = Some ?m" using assms(3) snoc by (simp add: uni_mark_def)
  have c: "chunk_ok c" "unat (up_offset c) < unat (up_num_pages c) * 4096"
    using assms(1,5) snoc by (simp_all add: uni_ok_def)
  then have inc: "in_chunk ?m ?c" "?m \<in> chunk_range ?c"
    by (simp_all add: in_chunk_def chunk_ok_def chunk_range_def word_less_nat_alt)
  have "\<not> in_chunk ?m y" if "y \<in> set ys" for y
  proof -
    have "chunk_range ?c \<inter> chunk_range y = {}" using ab(2) t that by (simp add: uni_ok_def sorted_wrt_append)
    then have "?m \<notin> chunk_range y" using inc(2) by blast
    then show ?thesis by (auto simp: in_chunk_def chunk_range_def)
  qed
  then obtain u where u: "reset_loop (length ys + Suc (Suc (length ps))) ?m t = reset_loop (Suc (Suc (length ps))) ?m u"
    "un_pages u = ps @ [?c]"
    using reset_drops [of t "ps @ [?c]" ys ?m "Suc (Suc (length ps))"] t by auto
  have "Suc (length (un_pages t)) = length ys + Suc (Suc (length ps))" using t by simp
  then have "uni_reset m t = reset_loop (Suc (Suc (length ps))) ?m u"
    using u(1) m by (simp add: uni_reset_def del: reset_loop.simps)
  also have "\<dots> = (Inr (), u\<lparr>un_pages := ps @ [c]\<rparr>)"
    using u(2) inc(1) by (simp add: set_offset_apply)
  finally show ?thesis using snoc by simp
qed

text \<open>
  C22: When the last chunk is full, the mark is its end, which \<open>_jc_uni_reset\<close> does not take for an
  address of the chunk: it frees every chunk and then follows the null pointer of the empty list.
\<close>

theorem uni_reset_full_chunk:
  assumes "uni_ok s" and "un_pages s \<noteq> []"
    and "unat (up_offset (last (un_pages s))) = unat (up_num_pages (last (un_pages s))) * page_size"
    and "uni_mark s = (Inr m, s)"
  shows "\<exists>u. uni_reset m s = (Inl (Fault Null_dereference), u) \<and> un_pages u = []"
proof -
  obtain ps c where s: "un_pages s = ps @ [c]" using assms(2) by (cases "un_pages s" rule: rev_cases) auto
  let ?m = "up_addr c + unat (up_num_pages c) * 4096"
  have m: "m = Some ?m" using assms(3,4) s by (simp add: uni_mark_def)
  have c: "chunk_ok c" "unat (up_offset c) = unat (up_num_pages c) * 4096" using assms(1,3) s by (simp_all add: uni_ok_def)
  then have end1: "?m - 1 \<in> chunk_range c" by (auto simp: chunk_range_def chunk_ok_def word_less_nat_alt)
  have "\<not> in_chunk ?m y" if "y \<in> set (un_pages s)" for y
  proof (cases "y = c")
    case False
    then have "y \<in> set ps" using that s by auto
    then have "chunk_range y \<inter> chunk_range c = {}" using assms(1) s by (simp add: uni_ok_def sorted_wrt_append)
    then have "?m - 1 \<notin> chunk_range y" using end1 by blast
    then show ?thesis by (auto simp: in_chunk_def chunk_range_def)
  qed (simp add: in_chunk_def)
  then obtain u where u: "reset_loop (length (un_pages s) + 1) ?m s = reset_loop 1 ?m u" "un_pages u = []"
    using reset_drops [of s "[]" "un_pages s" ?m 1] by auto
  have "reset_loop 1 ?m u = (Inl (Fault Null_dereference), u)"
    using u(2) by (simp add: last_pages_def bindM_def fails_def)
  then show ?thesis using u m by (simp add: uni_reset_def)
qed


section \<open>Accounting\<close>

text \<open>Pages that are available, and pages that chunks take up, in the arithmetic of the counter.\<close>

definition pages_sum :: "uni_mem \<Rightarrow> u32" where
  "pages_sum s = sum_list (map up_num_pages (un_pages s))"

definition same_total :: "uni_mem \<Rightarrow> uni_mem \<Rightarrow> bool" where
  "same_total s t \<longleftrightarrow> map_option (\<lambda>a. a + pages_sum t) (un_avail t) = map_option (\<lambda>a. a + pages_sum s) (un_avail s)"

lemma give_back:
  assumes "unat n < 2 ^ 31"
  shows "avail_alloc (- n) s = (Inr True, s\<lparr>un_avail := map_option (\<lambda>a. a + n) (un_avail s)\<rparr>)"
proof -
  have n: "sint n = int (unat n)" by (rule sint_small [OF assms])
  define k where "k = int (unat n)"
  have "unat n < 2147483648" using assms by simp
  then have "k < int 2147483648" unfolding k_def by (simp only: of_nat_less_iff)
  moreover have "0 \<le> k" by (simp add: k_def)
  ultimately have "signed_take_bit 31 (- k) = - k"
    by (intro signed_take_bit_int_eq_self) simp_all
  then have "jint_val (- n) = - k" using n by (simp add: sint_word_minus k_def)
  then have "\<not> 0 < jint_val (- n)" by (simp add: k_def)
  then show ?thesis by (cases "un_avail s") (simp_all add: avail_alloc_def)
qed

lemma same_total_refl: "same_total s s"
  by (simp add: same_total_def)

lemma same_total_trans: "same_total s t \<Longrightarrow> same_total t u \<Longrightarrow> same_total s u"
  by (simp add: same_total_def)

lemma set_offset_total: "un_pages s \<noteq> [] \<Longrightarrow> same_total s (snd (set_offset off s))"
  by (cases "un_pages s" rule: rev_cases) (simp_all add: same_total_def set_offset_apply pages_sum_def)

definition small_chunks :: "uni_mem \<Rightarrow> bool" where
  "small_chunks s \<longleftrightarrow> list_all (\<lambda>p. unat (up_num_pages p) < 2 ^ 31) (un_pages s)"

lemma drop_last_total:
  assumes "un_pages s = ps @ [c]" and "small_chunks s"
  shows "\<exists>u. drop_last s = (Inr (), u) \<and> un_pages u = ps \<and> same_total s u \<and> small_chunks u"
proof -
  have "unat (up_num_pages c) < 2 ^ 31" using assms by (simp add: small_chunks_def)
  note g = give_back [OF this, of "s\<lparr>un_pages := ps\<rparr>"]
  show ?thesis using assms g
    by (cases "un_avail s") (simp_all add: drop_last_def same_total_def pages_sum_def small_chunks_def)
qed

lemma reset_loop_total: "small_chunks s \<Longrightarrow> same_total s (snd (reset_loop fuel m s))"
proof (induction fuel arbitrary: s)
  case 0
  then show ?case by (simp add: same_total_refl fails_apply)
next
  case (Suc fuel)
  show ?case
  proof (cases "un_pages s" rule: rev_cases)
    case Nil
    then show ?thesis by (simp add: last_pages_def bindM_def fails_def same_total_refl)
  next
    case (snoc ps c)
    obtain u where u: "drop_last s = (Inr (), u)" "same_total s u" "small_chunks u"
      using drop_last_total [OF snoc Suc.prems] by blast
    show ?thesis
    proof (cases "in_chunk m c")
      case True
      then show ?thesis using snoc set_offset_total [of s] by simp
    next
      case False
      then show ?thesis using snoc u Suc.IH [OF u(3)] by (auto intro: same_total_trans)
    qed
  qed
qed

lemma alloc_free_total: "unat (pages_sum s) < 2 ^ 31 \<Longrightarrow> same_total s (snd (uni_alloc_free s))"
  using give_back [of "pages_sum s" "s\<lparr>un_pages := []\<rparr>"]
  by (cases "un_avail s") (simp_all add: uni_alloc_free_def same_total_def pages_sum_def ret_apply)

lemma unalloc_total:
  assumes "small_chunks s"
  shows "same_total s (snd (uni_unalloc p sz s))"
proof (cases "p = None \<or> un_pages s = []")
  case True
  then show ?thesis by (auto simp: uni_unalloc_def same_total_refl ret_apply split: option.splits)
next
  case False
  then obtain ptr ps c where p: "p = Some ptr" and s: "un_pages s = ps @ [c]"
    by (cases "un_pages s" rule: rev_cases) auto
  define off where "off = up_offset c - roundup2 sz 4"
  let ?t = "s\<lparr>un_pages := ps @ [c\<lparr>up_offset := off\<rparr>]\<rparr>"
  have t: "set_offset off s = (Inr (), ?t)" using s by (simp add: set_offset_apply)
  have st: "same_total s ?t" using set_offset_total [of s off] s t by simp
  have "small_chunks ?t" using assms s by (simp add: small_chunks_def)
  then obtain u where u: "drop_last ?t = (Inr (), u)" "same_total ?t u"
    using drop_last_total [of ?t ps "c\<lparr>up_offset := off\<rparr>"] by auto
  show ?thesis using p s t st u same_total_trans [OF st u(2)]
    by (auto simp: uni_unalloc_def Let_def same_total_refl ret_apply simp flip: off_def)
qed

text \<open>
  Whatever is returned, by unallocating, by resetting or by freeing everything, the pages that are
  available and those that are in use add up to what they were.
\<close>

theorem uni_pages_accounted:
  assumes "uni_ok s" and "unat (pages_sum s) < 2 ^ 31"
  shows "same_total s (snd (uni_unalloc p sz s)) \<and> same_total s (snd (uni_reset m s)) \<and> same_total s (snd (uni_alloc_free s))"
proof -
  have "small_chunks s"
    using assms(1) by (auto simp: uni_ok_def small_chunks_def chunk_ok_def list_all_iff)
  then show ?thesis
    using unalloc_total reset_loop_total alloc_free_total [OF assms(2)]
    by (simp add: uni_reset_def del: reset_loop.simps split: option.splits)
qed

section \<open>A concrete allocator\<close>

text \<open>One page with 84 bytes in use, and a full page.\<close>

definition sample_chunk :: "u32 \<Rightarrow> uni_pages" where
  "sample_chunk off = \<lparr>up_addr = 8192, up_num_pages = 1, up_offset = off\<rparr>"

definition sample_uni :: "u32 \<Rightarrow> uni_mem" where
  "sample_uni off = \<lparr>un_pages = [sample_chunk off], un_min_pages = 1, un_avail = Some 7\<rparr>"

definition sample_malloc :: "u32 \<Rightarrow> nat option" where
  "sample_malloc n = (if n = 4096 then Some 65536 else None)"

lemma sample_uni_ok: "uni_ok (sample_uni 100)" "uni_ok (sample_uni 4096)"
  by (simp_all add: uni_ok_def sample_uni_def sample_chunk_def chunk_ok_def word_less_nat_alt)

lemma sample_gc_ok: "gc_ok (ret ())"
  by (simp add: gc_ok_def ret_apply)

lemma sample_malloc_ok: "malloc_ok sample_malloc (sample_uni off)"
  by (auto simp: malloc_ok_def sample_malloc_def sample_uni_def sample_chunk_def chunk_range_def)

lemma sample_room: "uni_alloc (ret ()) sample_malloc 10 (sample_uni 100) = (Inr 8292, sample_uni 112)"
  by code_simp


lemma uni_unalloc_undoes_witness:
  "\<exists>u. uni_unalloc (Some 8292) 10 (sample_uni 112) = (Inr (), u) \<and> un_pages u = [sample_chunk 100]"
  using uni_unalloc_undoes [OF sample_uni_ok(1) sample_gc_ok sample_malloc_ok _ sample_room]
  by (simp add: sample_uni_def)

lemma uni_mark_reset_witness:
  "\<exists>u. uni_reset (Some 8292) (sample_uni 112) = (Inr (), u) \<and> un_pages u = [sample_chunk 100]"
proof -
  have "allocations (ret ()) (sample_uni 100) (sample_uni 112)"
    by (rule allocs_one [OF allocs_none sample_malloc_ok _ _ sample_room]) simp_all
  moreover have "uni_mark (sample_uni 100) = (Inr (Some 8292), sample_uni 100)" by code_simp
  ultimately show ?thesis
    using uni_mark_reset [OF sample_uni_ok(1) sample_gc_ok, of "Some 8292" "sample_uni 112"]
    by (simp add: sample_uni_def sample_chunk_def)
qed

lemma uni_reset_full_chunk_witness:
  "\<exists>u. uni_reset (Some 12288) (sample_uni 4096) = (Inl (Fault Null_dereference), u) \<and> un_pages u = []"
proof -
  have "uni_mark (sample_uni 4096) = (Inr (Some 12288), sample_uni 4096)" by code_simp
  then show ?thesis
    using uni_reset_full_chunk [OF sample_uni_ok(2), of "Some 12288"] by (simp add: sample_uni_def sample_chunk_def)
qed

lemma uni_pages_accounted_witness:
  "un_avail (snd (uni_reset (Some 12288) (sample_uni 4096))) = Some 8
   \<and> same_total (sample_uni 4096) (snd (uni_reset (Some 12288) (sample_uni 4096)))"
proof -
  have "un_avail (snd (uni_reset (Some 12288) (sample_uni 4096))) = Some 8" by code_simp
  then show ?thesis
    using uni_pages_accounted [OF sample_uni_ok(2), of None 0 "Some 12288"]
    by (simp add: pages_sum_def sample_uni_def sample_chunk_def)
qed

end
