(* ===== verification/Heap_Pages.thy ===== *)
theory Heap_Pages
  imports Heap_Sizes
begin

text \<open>
  The pages of the heap, \<open>libjc/heap.c\<close>: the info words at their beginning, and the allocation of runs
  of pages. Pointers into the heap are byte offsets from \<open>heap->pages\<close>, which is page aligned, so that
  page numbers and offsets within a page are what they are in the code. One thread at a time allocates:
  a compare-and-swap is a test and a store.
\<close>

section \<open>State\<close>

text \<open>
  The fields of \<open>struct _jc_heap\<close>, the words of the heap memory, and the flag \<open>out_of_memory\<close> of the
  thread. The number of sizes is the length of the list.
\<close>

record heap =
  hp_words :: "nat \<Rightarrow> u32"
  hp_num_pages :: nat
  hp_max_pages :: nat
  hp_next_page :: nat
  hp_sizes :: "heap_size list"
  env_out_of_memory :: bool

definition read_word :: "nat \<Rightarrow> (heap, u32) mon" where
  "read_word a = (\<lambda>h. if a < hp_max_pages h * page_size \<and> a mod 4 = 0 then (Inr (hp_words h a), h)
     else (Inl (Fault Out_of_bounds), h))"

definition write_word :: "nat \<Rightarrow> u32 \<Rightarrow> (heap, unit) mon" where
  "write_word a w = (\<lambda>h. if a < hp_max_pages h * page_size \<and> a mod 4 = 0
     then (Inr (), h\<lparr>hp_words := (hp_words h)(a := w)\<rparr>) else (Inl (Fault Out_of_bounds), h))"

text \<open>\<open>_JC_PAGE_ADDR\<close>\<close>

definition page_addr :: "nat \<Rightarrow> nat" where
  "page_addr i = i * page_size"

section \<open>Info words\<close>

text \<open>\<open>_JC_HEAP_EXTRACT\<close> of the fields of an info word.\<close>

definition hx_ptype :: "u32 \<Rightarrow> u32" where
  "hx_ptype w = drop_bit 30 (w AND 0xc0000000)"

definition hx_npages :: "u32 \<Rightarrow> u32" where
  "hx_npages w = drop_bit 0 (w AND 0x3fffffff)"

definition hx_bsi :: "u32 \<Rightarrow> u32" where
  "hx_bsi w = drop_bit 24 (w AND 0x3f000000)"

definition hx_next :: "u32 \<Rightarrow> u32" where
  "hx_next w = drop_bit 0 (w AND 0x00ffffff)"

abbreviation PAGE_FREE :: u32 where "PAGE_FREE \<equiv> 0"
abbreviation PAGE_SMALL :: u32 where "PAGE_SMALL \<equiv> 1"
abbreviation PAGE_LARGE :: u32 where "PAGE_LARGE \<equiv> 2"
abbreviation PAGE_ALLOC :: u32 where "PAGE_ALLOC \<equiv> 3"

text \<open>\<open>_JC_HEAP_MAX(NEXT) - 1\<close>, the end of a list of pages.\<close>

abbreviation no_next :: u32 where "no_next \<equiv> 0xffffff"

text \<open>The info words that are written.\<close>

definition alloc_word :: "nat \<Rightarrow> u32" where
  "alloc_word n = push_bit 30 PAGE_ALLOC OR push_bit 0 (of_nat n)"

definition small_word :: "nat \<Rightarrow> u32 \<Rightarrow> u32" where
  "small_word bsi next' = push_bit 30 PAGE_SMALL OR push_bit 24 (of_nat bsi) OR push_bit 0 next'"

definition large_word :: "nat \<Rightarrow> u32" where
  "large_word n = push_bit 30 PAGE_LARGE OR push_bit 0 (of_nat n)"

lemma drop_bit_masked: "drop_bit k ((v :: u32) AND NOT (mask k)) = drop_bit k v"
  by (rule bit_word_eqI)
    (auto simp: bit_drop_bit_eq bit_and_iff bit_not_iff bit_mask_iff dest: bit_imp_le_length)

lemma hx_ptype_bits: "hx_ptype w = drop_bit 30 w"
proof -
  have "(0xc0000000 :: u32) = NOT (mask 30)" by (simp add: mask_eq_exp_minus_1)
  then show ?thesis by (simp only: hx_ptype_def drop_bit_masked)
qed

lemma hx_npages_bits: "hx_npages w = take_bit 30 w"
proof -
  have "(0x3fffffff :: u32) = mask 30" by (simp add: mask_eq_exp_minus_1)
  then show ?thesis by (simp only: hx_npages_def take_bit_eq_mask drop_bit_0 id_apply)
qed

lemma hx_next_bits: "hx_next w = take_bit 24 w"
proof -
  have "(0x00ffffff :: u32) = mask 24" by (simp add: mask_eq_exp_minus_1)
  then show ?thesis by (simp only: hx_next_def take_bit_eq_mask drop_bit_0 id_apply)
qed

lemma hx_bsi_bits: "hx_bsi w = drop_bit 24 (take_bit 30 w)"
proof -
  have "(0x3f000000 :: u32) = mask 30 AND NOT (mask 24)" by (simp add: mask_eq_exp_minus_1)
  then have "w AND 0x3f000000 = (w AND mask 30) AND NOT (mask 24)" by (simp only: and.assoc)
  then show ?thesis by (simp only: hx_bsi_def take_bit_eq_mask drop_bit_masked)
qed

lemma drop_small: "unat (w :: u32) < 2 ^ k \<Longrightarrow> drop_bit k w = 0"
  by (rule bit_word_eqI) (auto simp: bit_drop_bit_eq dest: bit_small_word)

lemma take_small: "unat (w :: u32) < 2 ^ k \<Longrightarrow> take_bit k w = w"
  by (rule bit_word_eqI) (auto simp: bit_take_bit_iff dest: bit_small_word)

lemma unat_small_nat: "n < 2 ^ 30 \<Longrightarrow> unat (of_nat n :: u32) = n"
  by (simp add: unat_of_nat take_bit_nat_eq_self)

lemma alloc_word_fields:
  assumes "n < 2 ^ 30"
  shows "hx_ptype (alloc_word n) = PAGE_ALLOC" "unat (hx_npages (alloc_word n)) = n" "alloc_word n \<noteq> 0"
proof -
  have n: "unat (of_nat n :: u32) < 2 ^ 30" using assms unat_small_nat [OF assms] by simp
  show p: "hx_ptype (alloc_word n) = PAGE_ALLOC"
    using drop_small [OF n] by (simp add: hx_ptype_bits alloc_word_def)
  show "unat (hx_npages (alloc_word n)) = n"
    using take_small [OF n] unat_small_nat [OF assms] by (simp add: hx_npages_bits alloc_word_def)
  show "alloc_word n \<noteq> 0" using p by (auto simp: hx_ptype_bits)
qed

lemma large_word_fields:
  assumes "n < 2 ^ 30"
  shows "hx_ptype (large_word n) = PAGE_LARGE" "unat (hx_npages (large_word n)) = n"
proof -
  have n: "unat (of_nat n :: u32) < 2 ^ 30" using assms unat_small_nat [OF assms] by simp
  show "hx_ptype (large_word n) = PAGE_LARGE"
    using drop_small [OF n] by (simp add: hx_ptype_bits large_word_def)
  show "unat (hx_npages (large_word n)) = n"
    using take_small [OF n] unat_small_nat [OF assms] by (simp add: hx_npages_bits large_word_def)
qed

lemma small_word_parts:
  assumes "b < 64" and "unat next' < 2 ^ 24"
  shows "hx_ptype (small_word b next') = PAGE_SMALL" and "unat (hx_bsi (small_word b next')) = b"
    and "hx_next (small_word b next') = next'"
proof -
  define v where "v = (of_nat b :: u32)"
  have uv: "unat v = b" using unat_small_nat [of b] assms(1) by (simp add: v_def)
  then have v6: "unat v < 2 ^ 6" using assms(1) by simp
  have "unat (push_bit 24 v) < 2 ^ 30"
    using uv assms(1) by (simp add: push_bit_eq_mult unat_word_ariths)
  note pv = drop_small [OF this] take_small [OF this]
  have "unat next' < 2 ^ 30" using assms(2) by simp
  note pn = drop_small [OF this] take_small [OF this] drop_small [OF assms(2)] take_small [OF assms(2)]
  have again: "drop_bit 24 (push_bit 24 v) = v"
    by (rule bit_word_eqI) (auto simp: bit_drop_bit_eq bit_push_bit_iff dest: bit_small_word [OF v6])
  have low: "take_bit 24 (push_bit 24 v) = 0"
    by (rule bit_word_eqI) (auto simp: bit_take_bit_iff bit_push_bit_iff)
  have w: "small_word b next' = push_bit 30 1 OR push_bit 24 v OR next'" by (simp add: small_word_def v_def)
  show "hx_ptype (small_word b next') = PAGE_SMALL"
    unfolding w hx_ptype_bits drop_bit_or pv pn by simp
  have "hx_bsi (small_word b next') = v"
    unfolding w hx_bsi_bits take_bit_or pv pn drop_bit_or again by simp
  then show "unat (hx_bsi (small_word b next')) = b" using uv by simp
  show "hx_next (small_word b next') = next'"
    unfolding w hx_next_bits take_bit_or pn low by simp
qed

text \<open>
  What an info word of a small page is built from can be read back from it.
\<close>

theorem small_word_fields:
  assumes "b < 64" and "unat next' < 2 ^ 24"
  shows "hx_ptype (small_word b next') = PAGE_SMALL \<and> unat (hx_bsi (small_word b next')) = b
    \<and> hx_next (small_word b next') = next'"
  by (intro conjI small_word_parts [OF assms])


section \<open>Allocating pages\<close>

text \<open>\<open>while (j-- > 0) *_JC_PAGE_ADDR(ptr, j) = _JC_HEAP_PAGE_FREE\<close>\<close>

fun undo_pages :: "nat \<Rightarrow> nat \<Rightarrow> (heap, unit) mon" where
  "undo_pages i 0 = ret ()"
| "undo_pages i (Suc j) = thenM (write_word (page_addr (i + j)) PAGE_FREE) (undo_pages i j)"

text \<open>How far a page that is not free moves the search from \<open>i + j\<close>; the page is read again.\<close>

definition skip_pages :: "u32 \<Rightarrow> nat \<Rightarrow> nat \<Rightarrow> nat" where
  "skip_pages w i j =
    (if hx_ptype w = PAGE_FREE then i
     else if hx_ptype w = PAGE_SMALL then i + (j + 1)
     else i + (j + unat (hx_npages w)))"

text \<open>
  The loop over the pages from \<open>i\<close>; the first argument is \<open>npages - j\<close>. The result is None when all
  have been taken, and otherwise the page to go on with.
\<close>

fun grab_pages :: "nat \<Rightarrow> nat \<Rightarrow> nat \<Rightarrow> (heap, nat option) mon" where
  "grab_pages 0 i j = ret None"
| "grab_pages (Suc k) i j =
     bindM (read_word (page_addr (i + j))) (\<lambda>w.
     if w = PAGE_FREE then
       thenM (write_word (page_addr (i + j)) (alloc_word (Suc k))) (grab_pages k i (j + 1))
     else thenM (undo_pages i j) (ret (Some (skip_pages w i j))))"

text \<open>\<open>_JC_HEAP_INIT_PAGES\<close>\<close>

definition init_pages :: "heap \<Rightarrow> nat" where
  "init_pages h = (if hp_num_pages h = 0 then 2 * 1024 * 1024 div page_size else hp_max_pages h div 8)"

fun clear_pages :: "nat \<Rightarrow> nat \<Rightarrow> (heap, unit) mon" where
  "clear_pages p 0 = ret ()"
| "clear_pages p (Suc k) = thenM (write_word (page_addr p) 0) (clear_pages (p + 1) k)"

definition grow_heap :: "(heap, unit) mon" where
  "grow_heap =
     bindM (gets (\<lambda>h. (hp_num_pages h, if hp_max_pages h < hp_num_pages h + init_pages h
       then hp_max_pages h - hp_num_pages h else init_pages h))) (\<lambda>(num, increase).
     thenM (clear_pages num increase) (modify (\<lambda>h. h\<lparr>hp_num_pages := hp_num_pages h + increase\<rparr>)))"

text \<open>
  The search, at \<open>check_avail\<close>; \<open>num_pages - reserved\<close> is moved to the other side of the comparison, so
  that no number is negative. The collector is an argument; \<open>sched_yield\<close> is left out.
\<close>

fun alloc_loop :: "nat \<Rightarrow> (bool \<Rightarrow> (heap, unit) mon) \<Rightarrow> nat \<Rightarrow> nat \<Rightarrow> nat \<Rightarrow> nat \<Rightarrow> (heap, nat) mon" where
  "alloc_loop 0 gc npages reserved cycles i = fails (Fault Out_of_fuel)"
| "alloc_loop (Suc fuel) gc npages reserved cycles i =
     bindM (gets id) (\<lambda>h.
     if hp_num_pages h < i + npages + reserved then
       if hp_num_pages h \<noteq> hp_max_pages h then
         thenM grow_heap (alloc_loop fuel gc npages reserved cycles i)
       else if cycles = 3 then
         thenM (modify (\<lambda>h. h\<lparr>env_out_of_memory := True\<rparr>)) (fails (Exn OutOfMemoryError))
       else thenM (gc (0 < cycles)) (bindM (gets id) (\<lambda>h'.
         alloc_loop fuel gc npages (if env_out_of_memory h' then 0 else reserved) (cycles + 1) (hp_next_page h')))
     else bindM (grab_pages npages i 0) (\<lambda>r. case r of
         None \<Rightarrow> thenM (modify (\<lambda>h. h\<lparr>hp_next_page := i + npages\<rparr>)) (ret i)
       | Some i' \<Rightarrow> alloc_loop fuel gc npages reserved cycles i'))"

text \<open>
  \<open>_jc_heap_alloc_pages\<close>: the index of the first page. Every turn of the loop grows the heap, moves on
  by a page, or collects, at most three times.
\<close>

definition alloc_pages :: "(bool \<Rightarrow> (heap, unit) mon) \<Rightarrow> nat \<Rightarrow> (heap, nat) mon" where
  "alloc_pages gc npages =
     bindM (gets id) (\<lambda>h.
     alloc_loop (6 * (hp_max_pages h + 2)) gc npages (if env_out_of_memory h then 0 else 10) 0 (hp_next_page h))"

section \<open>The layout of the heap\<close>

text \<open>
  What the pages are used for: the heap is a sequence of segments. The heap is in the address space of
  the process, which bounds its pages.
\<close>

datatype segment = Free_page | Small_page nat | Large_pages nat | Alloc_pages nat

fun seg_len :: "segment \<Rightarrow> nat" where
  "seg_len Free_page = 1"
| "seg_len (Small_page b) = 1"
| "seg_len (Large_pages k) = k"
| "seg_len (Alloc_pages k) = k"

fun seg_at :: "(nat \<Rightarrow> u32) \<Rightarrow> nat \<Rightarrow> segment \<Rightarrow> bool" where
  "seg_at m i Free_page \<longleftrightarrow> m (page_addr i) = 0"
| "seg_at m i (Small_page b) \<longleftrightarrow> hx_ptype (m (page_addr i)) = PAGE_SMALL \<and> unat (hx_bsi (m (page_addr i))) = b"
| "seg_at m i (Large_pages k) \<longleftrightarrow> 0 < k \<and> hx_ptype (m (page_addr i)) = PAGE_LARGE \<and> unat (hx_npages (m (page_addr i))) = k"
| "seg_at m i (Alloc_pages k) \<longleftrightarrow> 0 < k \<and> k < 2 ^ 30 \<and> (\<forall>j < k. m (page_addr (i + j)) = alloc_word (k - j))"

definition pages_of :: "segment list \<Rightarrow> nat" where
  "pages_of ss = sum_list (map seg_len ss)"

fun layout :: "(nat \<Rightarrow> u32) \<Rightarrow> nat \<Rightarrow> segment list \<Rightarrow> bool" where
  "layout m i [] \<longleftrightarrow> True"
| "layout m i (s # ss) \<longleftrightarrow> seg_at m i s \<and> layout m (i + seg_len s) ss"

definition laid :: "heap \<Rightarrow> segment list \<Rightarrow> bool" where
  "laid h ss \<longleftrightarrow> layout (hp_words h) 0 ss \<and> pages_of ss = hp_num_pages h \<and> hp_num_pages h \<le> hp_max_pages h
     \<and> hp_max_pages h < 2 ^ 20 \<and> (hp_num_pages h = 0 \<or> hp_num_pages h = hp_max_pages h \<or> 512 \<le> hp_max_pages h)"

definition boundary :: "segment list \<Rightarrow> nat \<Rightarrow> bool" where
  "boundary ss i \<longleftrightarrow> (\<exists>xs ys. ss = xs @ ys \<and> pages_of xs = i)"

definition heap_ok :: "heap \<Rightarrow> segment list \<Rightarrow> bool" where
  "heap_ok h ss \<longleftrightarrow> laid h ss \<and> boundary ss (hp_next_page h)"

lemma pages_of_simps [simp]:
  "pages_of [] = 0" "pages_of (s # ss) = seg_len s + pages_of ss" "pages_of (xs @ ys) = pages_of xs + pages_of ys"
  "pages_of (replicate n Free_page) = n"
  by (simp_all add: pages_of_def sum_list_replicate)

lemma layout_append [simp]: "layout m i (xs @ ys) \<longleftrightarrow> layout m i xs \<and> layout m (i + pages_of xs) ys"
  by (induction xs arbitrary: i) (auto simp: add.assoc)

lemma layout_free [simp]: "layout m i (replicate n Free_page) \<longleftrightarrow> (\<forall>j < n. m (page_addr (i + j)) = 0)"
proof (induction n arbitrary: i)
  case (Suc n)
  have "(\<forall>j < n. m (page_addr (Suc i + j)) = 0) \<and> m (page_addr i) = 0 \<longleftrightarrow> (\<forall>j < Suc n. m (page_addr (i + j)) = 0)"
    by (auto simp: less_Suc_eq_0_disj)
  with Suc.IH [of "Suc i"] show ?case by auto
qed simp

lemma page_addr_eq [simp]: "page_addr i = page_addr j \<longleftrightarrow> i = j"
  by (simp add: page_addr_def)

text \<open>A segment depends on the info words of its pages only.\<close>

lemma seg_at_cong:
  "(\<forall>j. i \<le> j \<and> j < i + seg_len s \<longrightarrow> m' (page_addr j) = m (page_addr j)) \<Longrightarrow> seg_at m' i s = seg_at m i s"
  by (cases s) auto

lemma seg_len_pos: "seg_at m i s \<Longrightarrow> 0 < seg_len s"
  by (cases s) auto

lemma layout_cong:
  "(\<forall>j. i \<le> j \<and> j < i + pages_of ss \<longrightarrow> m' (page_addr j) = m (page_addr j)) \<Longrightarrow> layout m' i ss = layout m i ss"
proof (induction ss arbitrary: i)
  case (Cons s ss)
  then show ?case using seg_at_cong [of i s m' m] Cons.IH [of "i + seg_len s"] by auto
qed simp


lemma read_page [simp]: "i < hp_max_pages h \<Longrightarrow> read_word (page_addr i) h = (Inr (hp_words h (page_addr i)), h)"
  by (simp add: read_word_def page_addr_def)

lemma write_page [simp]: "i < hp_max_pages h \<Longrightarrow>
    write_word (page_addr i) w h = (Inr (), h\<lparr>hp_words := (hp_words h)(page_addr i := w)\<rparr>)"
  by (simp add: write_word_def page_addr_def)

text \<open>The words while \<open>j\<close> of \<open>n\<close> pages from \<open>i\<close> have been taken.\<close>

definition taken :: "(nat \<Rightarrow> u32) \<Rightarrow> nat \<Rightarrow> nat \<Rightarrow> nat \<Rightarrow> nat \<Rightarrow> u32" where
  "taken m i n j = (\<lambda>a. if \<exists>l < j. a = page_addr (i + l) then alloc_word (n - (a div page_size - i)) else m a)"

lemma taken_0 [simp]: "taken m i n 0 = m"
  by (simp add: taken_def)

lemma taken_at: "l < j \<Longrightarrow> taken m i n j (page_addr (i + l)) = alloc_word (n - l)"
  by (auto simp: taken_def page_addr_def)

lemma taken_page: "taken m i n j (page_addr p) = (if i \<le> p \<and> p < i + j then alloc_word (n - (p - i)) else m (page_addr p))"
proof (cases "i \<le> p \<and> p < i + j")
  case True
  then have lt: "p - i < j" "i + (p - i) = p" by linarith+
  show ?thesis using taken_at [OF lt(1), of m i n] True unfolding lt(2) by simp
next
  case False
  then show ?thesis by (auto simp: taken_def)
qed

lemma taken_Suc: "(taken m i n j)(page_addr (i + j) := alloc_word (n - j)) = taken m i n (Suc j)"
proof
  fix a
  show "((taken m i n j)(page_addr (i + j) := alloc_word (n - j))) a = taken m i n (Suc j) a"
    using taken_at [of j "Suc j" m i n] by (auto simp: taken_def less_Suc_eq)
qed

lemma taken_undo:
  "m (page_addr (i + j)) = 0 \<Longrightarrow> (taken m i n (Suc j))(page_addr (i + j) := 0) = taken m i n j"
  by (auto simp: taken_def fun_eq_iff less_Suc_eq)

lemma undo_run:
  assumes "\<forall>l < j. m (page_addr (i + l)) = 0" and "i + j \<le> hp_max_pages h"
  shows "undo_pages i j (h\<lparr>hp_words := taken m i n j\<rparr>) = (Inr (), h\<lparr>hp_words := m\<rparr>)"
  using assms
proof (induction j)
  case (Suc j)
  have "undo_pages i (Suc j) (h\<lparr>hp_words := taken m i n (Suc j)\<rparr>) = undo_pages i j (h\<lparr>hp_words := taken m i n j\<rparr>)"
    using Suc.prems taken_undo [of m i j n] by simp
  then show ?case using Suc by simp
qed simp

text \<open>
  The loop takes \<open>n\<close> free pages, or gives back what it took and moves on to the end of the segment in
  its way.
\<close>

lemma grab_run:
  assumes lay: "laid h (xs @ replicate j Free_page @ ys)" and i: "pages_of xs = i"
    and n: "n = j + k" "n < 2 ^ 30" "i + n \<le> hp_num_pages h"
  shows "(\<exists>zs. ys = replicate k Free_page @ zs
      \<and> grab_pages k i j (h\<lparr>hp_words := taken (hp_words h) i n j\<rparr>) = (Inr None, h\<lparr>hp_words := taken (hp_words h) i n n\<rparr>))
    \<or> (\<exists>i' vs ws. xs @ replicate j Free_page @ ys = vs @ ws \<and> pages_of vs = i' \<and> i < i'
      \<and> grab_pages k i j (h\<lparr>hp_words := taken (hp_words h) i n j\<rparr>) = (Inr (Some i'), h))"
  using assms
proof (induction k arbitrary: j ys)
  case 0
  then show ?case by simp
next
  case (Suc k)
  let ?m = "hp_words h" and ?h = "h\<lparr>hp_words := taken (hp_words h) i n j\<rparr>"
  have total: "i + j + pages_of ys = hp_num_pages h" and max: "hp_num_pages h \<le> hp_max_pages h"
    using Suc.prems by (simp_all add: laid_def)
  then have "ys \<noteq> []" using Suc.prems(3,5) by auto
  then obtain s ss where ys: "ys = s # ss" by (cases ys) auto
  have inm: "i + j < hp_max_pages h" using Suc.prems(3,5) max by simp
  have at: "seg_at ?m (i + j) s" and free: "\<forall>l < j. ?m (page_addr (i + l)) = 0"
    using Suc.prems(1,2) ys by (simp_all add: laid_def)
  have w: "read_word (page_addr (i + j)) ?h = (Inr (?m (page_addr (i + j))), ?h)"
    using inm by (simp add: taken_page)
  show ?case
  proof (cases "s = Free_page")
    case True
    then have z: "?m (page_addr (i + j)) = 0" using at by simp
    have step: "grab_pages (Suc k) i j ?h = grab_pages k i (Suc j) (h\<lparr>hp_words := taken ?m i n (Suc j)\<rparr>)"
      using w z inm Suc.prems(3) taken_Suc [of ?m i n j] by simp
    have l: "xs @ replicate (Suc j) Free_page @ ss = xs @ replicate j Free_page @ ys"
      using ys True by (simp add: replicate_app_Cons_same)
    then have "laid h (xs @ replicate (Suc j) Free_page @ ss)" using Suc.prems(1) by (simp only:)
    moreover have "n = Suc j + k" using Suc.prems(3) by simp
    ultimately show ?thesis using Suc.IH [OF _ Suc.prems(2) _ Suc.prems(4,5), of "Suc j" ss]
      unfolding step unfolding l
    proof (elim disjE exE conjE impE meta_impE, goal_cases)
      case (3 zs)
      then show ?case using ys True by (intro disjI1 exI [of _ zs]) simp
    next
      case (4 i' vs ws)
      then show ?case by (intro disjI2 exI [of _ i'] exI [of _ vs] exI [of _ ws]) simp
    qed
  next
    case False
    then have nz: "?m (page_addr (i + j)) \<noteq> 0" and sk: "skip_pages (?m (page_addr (i + j))) i j = i + j + seg_len s"
      using at alloc_word_fields
      by (cases s; force simp: skip_pages_def hx_ptype_bits)+
    have "grab_pages (Suc k) i j ?h = (Inr (Some (i + j + seg_len s)), h)"
      using w nz sk undo_run [OF free, of h n] inm by simp
    moreover have "xs @ replicate j Free_page @ ys = (xs @ replicate j Free_page @ [s]) @ ss" using ys by simp
    moreover have "pages_of (xs @ replicate j Free_page @ [s]) = i + j + seg_len s" using Suc.prems(2) by simp
    moreover have "i < i + j + seg_len s" using seg_len_pos [OF at] by simp
    ultimately show ?thesis
      by (intro disjI2 exI [of _ "i + j + seg_len s"] exI [of _ "xs @ replicate j Free_page @ [s]"] exI [of _ ss]) simp
  qed
qed

text \<open>
  The lists of the block sizes. A hint is the address of a block in a small page of the size; the list
  \<open>pages\<close> runs through small pages of the size.
\<close>

fun page_is :: "segment list \<Rightarrow> nat \<Rightarrow> nat \<Rightarrow> bool" where
  "page_is [] p b \<longleftrightarrow> False"
| "page_is (s # ss) p b \<longleftrightarrow> (p = 0 \<and> s = Small_page b) \<or> (seg_len s \<le> p \<and> page_is ss (p - seg_len s) b)"

definition block_addr :: "heap_size \<Rightarrow> nat \<Rightarrow> nat \<Rightarrow> nat" where
  "block_addr bs p k = page_addr p + block_offset + k * hs_size bs"

definition next_of :: "u32 \<Rightarrow> nat option" where
  "next_of w = (if hx_next w = no_next then None else Some (page_addr (unat (hx_next w))))"

fun chain :: "(nat \<Rightarrow> u32) \<Rightarrow> nat option \<Rightarrow> nat list \<Rightarrow> bool" where
  "chain m a [] \<longleftrightarrow> a = None"
| "chain m a (p # ps) \<longleftrightarrow> a = Some (page_addr p) \<and> chain m (next_of (m (page_addr p))) ps"

definition hint_ok :: "segment list \<Rightarrow> nat \<Rightarrow> heap_size \<Rightarrow> bool" where
  "hint_ok ss b bs \<longleftrightarrow> (\<forall>a. hs_hint bs = Some a \<longrightarrow>
     (\<exists>p k. page_is ss p b \<and> k < hs_num_blocks bs \<and> a = block_addr bs p k))"

definition list_ok :: "(nat \<Rightarrow> u32) \<Rightarrow> segment list \<Rightarrow> nat \<Rightarrow> heap_size \<Rightarrow> bool" where
  "list_ok m ss b bs \<longleftrightarrow> (\<exists>ps. chain m (hs_pages bs) ps \<and> distinct ps \<and> (\<forall>p \<in> set ps. page_is ss p b))"

definition lists_ok :: "heap \<Rightarrow> segment list \<Rightarrow> bool" where
  "lists_ok h ss \<longleftrightarrow> (\<forall>b < length (hp_sizes h). hint_ok ss b (hp_sizes h ! b) \<and> list_ok (hp_words h) ss b (hp_sizes h ! b))"

definition heap_inv :: "heap \<Rightarrow> segment list \<Rightarrow> bool" where
  "heap_inv h ss \<longleftrightarrow> heap_ok h ss \<and> sizes_ok (hp_sizes h) \<and> lists_ok h ss"

lemma page_is_append [simp]:
  "page_is (xs @ ys) p b \<longleftrightarrow> page_is xs p b \<or> (pages_of xs \<le> p \<and> page_is ys (p - pages_of xs) b)"
proof (induction xs arbitrary: p)
  case (Cons s xs)
  show ?case using Cons.IH [of "p - seg_len s"] by auto
qed simp

lemma page_is_free [simp]: "\<not> page_is (replicate n Free_page) p b"
  by (induction n arbitrary: p) simp_all

lemma page_is_header:
  "page_is ss p b \<Longrightarrow> layout m i ss \<Longrightarrow> hx_ptype (m (page_addr (i + p))) = PAGE_SMALL
     \<and> unat (hx_bsi (m (page_addr (i + p)))) = b \<and> p < pages_of ss"
proof (induction ss arbitrary: p i)
  case (Cons s ss)
  show ?case
  proof (cases "p = 0 \<and> s = Small_page b")
    case False
    then have "seg_len s \<le> p" "page_is ss (p - seg_len s) b" using Cons.prems(1) by auto
    then show ?thesis using Cons.IH [of "p - seg_len s" "i + seg_len s"] Cons.prems(2) by auto
  qed (use Cons.prems in simp)
qed simp

lemma chain_cong: "\<forall>p \<in> set ps. m' (page_addr p) = m (page_addr p) \<Longrightarrow> chain m' a ps = chain m a ps"
  by (induction ps arbitrary: a) auto

text \<open>The lists survive what leaves the small pages alone.\<close>

lemma lists_ok_cong:
  assumes "lists_ok h ss" and "hp_sizes h' = hp_sizes h"
    and "\<And>p b. page_is ss p b \<Longrightarrow> page_is ss' p b \<and> hp_words h' (page_addr p) = hp_words h (page_addr p)"
  shows "lists_ok h' ss'"
  unfolding lists_ok_def
proof (intro allI impI)
  fix b assume "b < length (hp_sizes h')"
  then have b: "hint_ok ss b (hp_sizes h ! b)" "list_ok (hp_words h) ss b (hp_sizes h ! b)"
    using assms(1,2) by (simp_all add: lists_ok_def)
  have "hint_ok ss' b (hp_sizes h ! b)" using b(1) assms(3) unfolding hint_ok_def by blast
  moreover obtain ps where ps: "chain (hp_words h) (hs_pages (hp_sizes h ! b)) ps" "distinct ps" "\<forall>p \<in> set ps. page_is ss p b"
    using b(2) unfolding list_ok_def by blast
  then have "chain (hp_words h') (hs_pages (hp_sizes h ! b)) ps"
    using assms(3) chain_cong [of ps "hp_words h'" "hp_words h"] by blast
  then have "list_ok (hp_words h') ss' b (hp_sizes h ! b)" using ps assms(3) unfolding list_ok_def by blast
  ultimately show "hint_ok ss' b (hp_sizes h' ! b) \<and> list_ok (hp_words h') ss' b (hp_sizes h' ! b)"
    using assms(2) by simp
qed

lemma laid_header:
  "laid h ss \<Longrightarrow> page_is ss p b \<Longrightarrow> hx_ptype (hp_words h (page_addr p)) = PAGE_SMALL
     \<and> unat (hx_bsi (hp_words h (page_addr p))) = b \<and> p < hp_num_pages h"
  using page_is_header [of ss p b "hp_words h" 0] by (simp add: laid_def)

lemma ptype_0 [simp]: "hx_ptype 0 = PAGE_FREE"
  by (simp add: hx_ptype_bits)

section \<open>The steps of the search\<close>

lemma laid_same: "laid h ss \<Longrightarrow> hp_words h' = hp_words h \<Longrightarrow> hp_num_pages h' = hp_num_pages h \<Longrightarrow>
    hp_max_pages h' = hp_max_pages h \<Longrightarrow> laid h' ss"
  by (simp only: laid_def)

lemma grab_laid:
  assumes "laid h (xs @ replicate n Free_page @ ys)" and "0 < n" "n < 2 ^ 30" and i: "pages_of xs = i"
  shows "laid (h\<lparr>hp_words := taken (hp_words h) i n n\<rparr>) (xs @ Alloc_pages n # ys)"
proof -
  have "layout (taken (hp_words h) i n n) 0 xs = layout (hp_words h) 0 xs"
    by (rule layout_cong) (use i in \<open>auto simp: taken_page\<close>)
  moreover have "layout (taken (hp_words h) i n n) (i + n) ys = layout (hp_words h) (i + n) ys"
    by (rule layout_cong) (auto simp: taken_page)
  moreover have "hp_num_pages h \<noteq> 0" using assms by (auto simp: laid_def)
  ultimately show ?thesis using assms by (auto simp: laid_def taken_at)
qed

lemma grab_inv:
  assumes inv: "heap_inv h (xs @ replicate n Free_page @ ys)" and n: "0 < n" "n < 2 ^ 30" and i: "pages_of xs = i"
  shows "heap_inv (h\<lparr>hp_words := taken (hp_words h) i n n, hp_next_page := i + n\<rparr>) (xs @ Alloc_pages n # ys)"
proof -
  let ?h = "h\<lparr>hp_words := taken (hp_words h) i n n, hp_next_page := i + n\<rparr>"
  have laid: "laid h (xs @ replicate n Free_page @ ys)" using inv by (simp add: heap_inv_def heap_ok_def)
  have l: "laid ?h (xs @ Alloc_pages n # ys)"
    by (rule laid_same [OF grab_laid [OF laid n i]]) simp_all
  moreover have "boundary (xs @ Alloc_pages n # ys) (i + n)"
    unfolding boundary_def using i by (intro exI [of _ "xs @ [Alloc_pages n]"] exI [of _ ys]) simp
  moreover have "lists_ok ?h (xs @ Alloc_pages n # ys)"
  proof (rule lists_ok_cong)
    show "lists_ok h (xs @ replicate n Free_page @ ys)" using inv by (simp add: heap_inv_def)
    fix p b assume p: "page_is (xs @ replicate n Free_page @ ys) p b"
    have "hx_ptype (hp_words h (page_addr p)) = PAGE_SMALL" using laid_header [OF laid p] by simp
    moreover have "hp_words h (page_addr (i + j)) = 0" if "j < n" for j
      using laid i that by (simp add: laid_def)
    ultimately have "\<not> (i \<le> p \<and> p < i + n)"
      by (metis le_add_diff_inverse nat_add_left_cancel_less ptype_0 zero_neq_one)
    then show "page_is (xs @ Alloc_pages n # ys) p b \<and> hp_words ?h (page_addr p) = hp_words h (page_addr p)"
      using p i by (auto simp: taken_page)
  qed simp
  ultimately show ?thesis using inv by (simp add: heap_inv_def heap_ok_def)
qed


definition cleared :: "(nat \<Rightarrow> u32) \<Rightarrow> nat \<Rightarrow> nat \<Rightarrow> nat \<Rightarrow> u32" where
  "cleared m p k = (\<lambda>a. if \<exists>l < k. a = page_addr (p + l) then 0 else m a)"

lemma cleared_page: "cleared m p k (page_addr q) = (if p \<le> q \<and> q < p + k then 0 else m (page_addr q))"
proof (cases "p \<le> q \<and> q < p + k")
  case True
  then have "q - p < k" "q = p + (q - p)" by linarith+
  then have "\<exists>l < k. page_addr q = page_addr (p + l)" by (metis page_addr_eq)
  then show ?thesis using True by (simp only: cleared_def if_True simp_thms)
qed (auto simp: cleared_def)

lemma cleared_Suc: "cleared (m(page_addr p := 0)) (Suc p) k = cleared m p (Suc k)"
proof
  fix a
  have "(\<exists>l < Suc k. a = page_addr (p + l)) \<longleftrightarrow> a = page_addr p \<or> (\<exists>l < k. a = page_addr (Suc p + l))"
    by (auto simp: less_Suc_eq_0_disj)
  then show "cleared (m(page_addr p := 0)) (Suc p) k a = cleared m p (Suc k) a"
    unfolding cleared_def by (cases "a = page_addr p"; cases "\<exists>l < k. a = page_addr (Suc p + l)") auto
qed

lemma clear_run: "p + k \<le> hp_max_pages h \<Longrightarrow>
    clear_pages p k h = (Inr (), h\<lparr>hp_words := cleared (hp_words h) p k\<rparr>)"
proof (induction k arbitrary: p h)
  case 0
  then show ?case by (simp add: cleared_def)
next
  case (Suc k)
  then show ?case using Suc.IH [of "Suc p" "h\<lparr>hp_words := (hp_words h)(page_addr p := 0)\<rparr>"]
    by (simp add: cleared_Suc del: fun_upd_apply)
qed

lemma boundary_next: "heap_inv h ss \<Longrightarrow> boundary ss (hp_next_page h)"
  by (simp add: heap_inv_def heap_ok_def)

lemma boundary_append: "boundary ss i \<Longrightarrow> boundary (ss @ ts) i"
  unfolding boundary_def by (metis append.assoc)

lemma boundary_le: "boundary ss i \<Longrightarrow> i \<le> pages_of ss"
  by (auto simp: boundary_def)

lemma inv_pages: "heap_inv h ss \<Longrightarrow> pages_of ss = hp_num_pages h \<and> hp_num_pages h \<le> hp_max_pages h"
  by (simp add: heap_inv_def heap_ok_def laid_def)

lemma grow_inv:
  assumes inv: "heap_inv h ss" and less: "hp_num_pages h \<noteq> hp_max_pages h"
  obtains k where "0 < k" and "hp_num_pages h + k \<le> hp_max_pages h"
    and "grow_heap h = (Inr (), h\<lparr>hp_words := cleared (hp_words h) (hp_num_pages h) k, hp_num_pages := hp_num_pages h + k\<rparr>)"
    and "heap_inv (h\<lparr>hp_words := cleared (hp_words h) (hp_num_pages h) k, hp_num_pages := hp_num_pages h + k\<rparr>)
      (ss @ replicate k Free_page)"
proof -
  define k where "k = (if hp_max_pages h < hp_num_pages h + init_pages h then hp_max_pages h - hp_num_pages h else init_pages h)"
  let ?h = "h\<lparr>hp_words := cleared (hp_words h) (hp_num_pages h) k, hp_num_pages := hp_num_pages h + k\<rparr>"
  have laid: "laid h ss" using inv by (simp add: heap_inv_def heap_ok_def)
  have k: "0 < k" "hp_num_pages h + k \<le> hp_max_pages h"
    using laid less by (auto simp: k_def laid_def init_pages_def)
  have big: "hp_num_pages h + k = hp_max_pages h \<or> 512 \<le> hp_max_pages h"
    using laid less by (auto simp: k_def laid_def init_pages_def)
  have run: "grow_heap h = (Inr (), ?h)"
    using clear_run [OF k(2)] by (simp add: grow_heap_def k_def [symmetric])
  have "layout (hp_words ?h) 0 ss = layout (hp_words h) 0 ss"
    by (rule layout_cong) (use laid in \<open>auto simp: cleared_page laid_def\<close>)
  then have l: "laid ?h (ss @ replicate k Free_page)"
    using laid k big by (simp add: laid_def cleared_page)
  moreover have "boundary (ss @ replicate k Free_page) (hp_next_page ?h)"
    using boundary_append [OF boundary_next [OF inv]] by simp
  moreover have "lists_ok ?h (ss @ replicate k Free_page)"
  proof (rule lists_ok_cong)
    show "lists_ok h ss" using inv by (simp add: heap_inv_def)
    fix p b assume p: "page_is ss p b"
    then have "p < hp_num_pages h" using laid_header [OF laid] by simp
    then show "page_is (ss @ replicate k Free_page) p b \<and> hp_words ?h (page_addr p) = hp_words h (page_addr p)"
      using p by (simp add: cleared_page)
  qed simp
  ultimately have "heap_inv ?h (ss @ replicate k Free_page)" using inv by (simp add: heap_inv_def heap_ok_def)
  with k run show ?thesis by (rule that)
qed

section \<open>The search\<close>

text \<open>
  What is asked of the collector, run on a heap with the invariant: it returns, possibly with an
  exception, with the invariant; it leaves the extent of the heap and the sizes of the blocks as they
  were.
\<close>

abbreviation same_sizes :: "heap \<Rightarrow> heap \<Rightarrow> bool" where
  "same_sizes h h' \<equiv> map (\<lambda>b. (hs_size b, hs_num_blocks b)) (hp_sizes h') = map (\<lambda>b. (hs_size b, hs_num_blocks b)) (hp_sizes h)"

definition gc_keeps :: "(bool \<Rightarrow> (heap, unit) mon) \<Rightarrow> bool" where
  "gc_keeps gc \<longleftrightarrow> (\<forall>c h ss. heap_inv h ss \<longrightarrow> (case gc c h of (r, h') \<Rightarrow> (\<forall>f. r \<noteq> Inl (Fault f)) \<and> (\<exists>ss'. heap_inv h' ss')
     \<and> hp_num_pages h' = hp_num_pages h \<and> hp_max_pages h' = hp_max_pages h \<and> same_sizes h h'))"

lemma gc_keepsD:
  assumes "gc_keeps gc" "heap_inv h ss" "gc c h = (r, h')"
  shows "r \<noteq> Inl (Fault f)" "\<exists>ss'. heap_inv h' ss'" "hp_num_pages h' = hp_num_pages h" "hp_max_pages h' = hp_max_pages h"
    "same_sizes h h'"
proof -
  have "case gc c h of (r, h') \<Rightarrow> (\<forall>f. r \<noteq> Inl (Fault f)) \<and> (\<exists>ss'. heap_inv h' ss')
     \<and> hp_num_pages h' = hp_num_pages h \<and> hp_max_pages h' = hp_max_pages h \<and> same_sizes h h'"
    by (rule assms(1) [unfolded gc_keeps_def, rule_format, OF assms(2)])
  then have "(\<forall>f. r \<noteq> Inl (Fault f)) \<and> (\<exists>ss'. heap_inv h' ss')
     \<and> hp_num_pages h' = hp_num_pages h \<and> hp_max_pages h' = hp_max_pages h \<and> same_sizes h h'"
    by (simp add: assms(3))
  then show "r \<noteq> Inl (Fault f)" "\<exists>ss'. heap_inv h' ss'" "hp_num_pages h' = hp_num_pages h" "hp_max_pages h' = hp_max_pages h"
    "same_sizes h h'" by blast+
qed

text \<open>The states a search prepares: it grows the heap, and collects.\<close>

inductive prepares :: "(bool \<Rightarrow> (heap, unit) mon) \<Rightarrow> heap \<Rightarrow> heap \<Rightarrow> bool" for gc :: "bool \<Rightarrow> (heap, unit) mon" where
  prepares_refl: "prepares gc h h"
| prepares_grow: "hp_num_pages h \<noteq> hp_max_pages h \<Longrightarrow> grow_heap h = (Inr (), h1) \<Longrightarrow> prepares gc h1 h2 \<Longrightarrow> prepares gc h h2"
| prepares_gc: "gc c h = (Inr (), h1) \<Longrightarrow> prepares gc h1 h2 \<Longrightarrow> prepares gc h h2"

text \<open>The outcome of a search: a run of pages that were free, an exception of the collector, or none.\<close>

definition found :: "(bool \<Rightarrow> (heap, unit) mon) \<Rightarrow> nat \<Rightarrow> heap \<Rightarrow> nat \<Rightarrow> heap \<Rightarrow> bool" where
  "found gc n h i h' \<longleftrightarrow> (\<exists>h1 xs ys. prepares gc h h1 \<and> heap_inv h1 (xs @ replicate n Free_page @ ys) \<and> pages_of xs = i
     \<and> heap_inv h' (xs @ Alloc_pages n # ys) \<and> h' = h1\<lparr>hp_words := taken (hp_words h1) i n n, hp_next_page := i + n\<rparr>)"

definition not_found :: "(bool \<Rightarrow> (heap, unit) mon) \<Rightarrow> heap \<Rightarrow> heap \<Rightarrow> bool" where
  "not_found gc h h' \<longleftrightarrow> (\<exists>h1 ss. prepares gc h h1 \<and> heap_inv h' ss \<and> ((\<exists>c e. gc c h1 = (Inl e, h')) \<or>
     (heap_inv h1 ss \<and> hp_num_pages h1 = hp_max_pages h1 \<and> h' = h1\<lparr>env_out_of_memory := True\<rparr>)))"

lemma found_prepares: "found gc n h1 i h' \<Longrightarrow> (\<And>h2. prepares gc h1 h2 \<Longrightarrow> prepares gc h h2) \<Longrightarrow> found gc n h i h'"
  unfolding found_def by blast

lemma not_found_prepares: "not_found gc h1 h' \<Longrightarrow> (\<And>h2. prepares gc h1 h2 \<Longrightarrow> prepares gc h h2) \<Longrightarrow> not_found gc h h'"
  unfolding not_found_def by blast

text \<open>What is left to do, in turns of the loop.\<close>

definition turns :: "heap \<Rightarrow> nat \<Rightarrow> nat \<Rightarrow> nat" where
  "turns h cycles i = (3 - cycles) * (hp_max_pages h + 2) + (hp_max_pages h - hp_num_pages h) + (hp_max_pages h - i) + 1"

lemma turns_less:
  assumes "hp_max_pages h' = hp_max_pages h" "hp_num_pages h \<le> hp_num_pages h'" "hp_num_pages h' \<le> hp_max_pages h" "i \<le> i'" "i' \<le> hp_max_pages h"
    and "hp_num_pages h < hp_num_pages h' \<or> i < i'"
  shows "turns h' cycles i' < turns h cycles i"
proof -
  have "hp_max_pages h - hp_num_pages h' + (hp_max_pages h - i') < hp_max_pages h - hp_num_pages h + (hp_max_pages h - i)"
    using assms by linarith
  then show ?thesis unfolding turns_def assms(1) by linarith
qed

lemma heap_inv_flag: "heap_inv h ss \<Longrightarrow> heap_inv (h\<lparr>env_out_of_memory := b\<rparr>) ss"
  by (simp add: heap_inv_def heap_ok_def laid_def lists_ok_def)

lemma alloc_loop_runs:
  assumes gc: "gc_keeps gc" and n: "0 < n" "n < 2 ^ 30"
  shows "heap_inv h ss \<Longrightarrow> boundary ss i \<Longrightarrow> cycles \<le> 3 \<Longrightarrow> turns h cycles i \<le> fuel \<Longrightarrow>
    runs (alloc_loop fuel gc n reserved cycles i) h (found gc n h) (not_found gc h) (\<lambda>_. False)"
proof (induction fuel arbitrary: h ss i cycles reserved)
  case 0
  then show ?case by (simp add: turns_def)
next
  case (Suc fuel)
  note inv = Suc.prems(1) and le = boundary_le [OF Suc.prems(2)] and pg = inv_pages [OF Suc.prems(1)]
  consider (grow) "hp_num_pages h < i + n + reserved" "hp_num_pages h \<noteq> hp_max_pages h"
    | (full) "hp_num_pages h < i + n + reserved" "hp_num_pages h = hp_max_pages h" "cycles = 3"
    | (collect) "hp_num_pages h < i + n + reserved" "hp_num_pages h = hp_max_pages h" "cycles < 3"
    | (try_at) "i + n + reserved \<le> hp_num_pages h"
    using Suc.prems(3) by linarith
  then show ?case
  proof cases
    case grow
    obtain k where k: "0 < k" "hp_num_pages h + k \<le> hp_max_pages h"
      and run: "grow_heap h = (Inr (), h\<lparr>hp_words := cleared (hp_words h) (hp_num_pages h) k, hp_num_pages := hp_num_pages h + k\<rparr>)"
      and inv': "heap_inv (h\<lparr>hp_words := cleared (hp_words h) (hp_num_pages h) k, hp_num_pages := hp_num_pages h + k\<rparr>)
        (ss @ replicate k Free_page)"
      by (rule grow_inv [OF inv grow(2)])
    let ?h = "h\<lparr>hp_words := cleared (hp_words h) (hp_num_pages h) k, hp_num_pages := hp_num_pages h + k\<rparr>"
    have "turns ?h cycles i \<le> fuel" using turns_less [of ?h h i i cycles] Suc.prems(4) k le pg by simp
    note ih = Suc.IH [OF inv' boundary_append [OF Suc.prems(2)] Suc.prems(3) this, of reserved]
    have "alloc_loop (Suc fuel) gc n reserved cycles i h = alloc_loop fuel gc n reserved cycles i ?h"
      using grow run by simp
    moreover have "runs (alloc_loop fuel gc n reserved cycles i) ?h (found gc n h) (not_found gc h) (\<lambda>_. False)"
      by (rule runs_weaken [OF ih])
        (erule found_prepares not_found_prepares, erule prepares_grow [OF grow(2) run], assumption?)+
    ultimately show ?thesis by (simp add: runs_def)
  next
    case full
    have "not_found gc h (h\<lparr>env_out_of_memory := True\<rparr>)"
      unfolding not_found_def using inv heap_inv_flag [OF inv] full(2) prepares_refl by blast
    then show ?thesis using full by (simp add: runs_def)
  next
    case collect
    obtain r h1 where g: "gc (0 < cycles) h = (r, h1)" by fastforce
    then obtain ss1 where g1: "\<forall>f. r \<noteq> Inl (Fault f)" "heap_inv h1 ss1" "hp_num_pages h1 = hp_num_pages h" "hp_max_pages h1 = hp_max_pages h"
      using gc_keepsD [OF gc inv g] by blast
    show ?thesis
    proof (cases r)
      case (Inl e)
      have "not_found gc h h1" unfolding not_found_def using g g1(2) Inl prepares_refl by blast
      then show ?thesis using collect g g1(1) Inl by (cases e) (simp_all add: runs_def)
    next
      case (Inr u)
      let ?i = "hp_next_page h1" and ?r = "if env_out_of_memory h1 then 0 else reserved"
      have gi: "gc (0 < cycles) h = (Inr (), h1)" using g Inr by simp
      define P where "P = (2 - cycles) * (hp_max_pages h + 2)"
      have "3 - cycles = Suc (2 - cycles)" "3 - (cycles + 1) = 2 - cycles" using collect(3) by linarith+
      then have "turns h cycles i = hp_max_pages h + 2 + P + (hp_max_pages h - hp_num_pages h) + (hp_max_pages h - i) + 1"
        "turns h1 (cycles + 1) ?i = P + (hp_max_pages h - hp_num_pages h) + (hp_max_pages h - ?i) + 1"
        using g1(3,4) by (simp_all only: turns_def P_def mult_Suc)
      then have "turns h1 (cycles + 1) ?i \<le> fuel" using Suc.prems(4) by linarith
      note ih = Suc.IH [OF g1(2) boundary_next [OF g1(2)] _ this, of ?r]
      have "alloc_loop (Suc fuel) gc n reserved cycles i h = alloc_loop fuel gc n ?r (cycles + 1) ?i h1"
        using collect gi by simp
      moreover have "runs (alloc_loop fuel gc n ?r (cycles + 1) ?i) h1 (found gc n h) (not_found gc h) (\<lambda>_. False)"
        by (rule runs_weaken [OF ih])
          (use collect(3) in simp, (erule found_prepares not_found_prepares, erule prepares_gc [where gc = gc, OF gi], assumption?)+)
      ultimately show ?thesis by (simp add: runs_def)
    qed
  next
    case try_at
    obtain xs ys where ss: "ss = xs @ ys" and i: "pages_of xs = i" using Suc.prems(2) by (auto simp: boundary_def)
    have laid: "laid h (xs @ replicate 0 Free_page @ ys)" using inv ss by (simp add: heap_inv_def heap_ok_def)
    have fit: "i + n \<le> hp_num_pages h" using try_at by simp
    have start: "\<not> hp_num_pages h < i + n + reserved" using try_at by simp
    consider (got) zs where "ys = replicate n Free_page @ zs"
        "grab_pages n i 0 h = (Inr None, h\<lparr>hp_words := taken (hp_words h) i n n\<rparr>)"
      | (skipped) i' vs ws where "ss = vs @ ws" "pages_of vs = i'" "i < i'" "grab_pages n i 0 h = (Inr (Some i'), h)"
      using grab_run [OF laid i _ n(2) fit] ss by fastforce
    then show ?thesis
    proof cases
      case got
      have inv1: "heap_inv h (xs @ replicate n Free_page @ zs)" using inv ss got(1) by simp
      have "found gc n h i (h\<lparr>hp_words := taken (hp_words h) i n n, hp_next_page := i + n\<rparr>)"
        unfolding found_def using prepares_refl inv1 grab_inv [OF inv1 n i] i by blast
      then show ?thesis using got(2) start by (simp add: runs_def)
    next
      case skipped
      have b: "boundary ss i'" using skipped(1,2) by (auto simp: boundary_def)
      then have "turns h cycles i' \<le> fuel"
        using turns_less [of h h i i' cycles] boundary_le [OF b] skipped(3) Suc.prems(4) pg by simp
      from Suc.IH [OF inv b Suc.prems(3) this, of reserved]
      show ?thesis using skipped(4) start by (simp add: runs_def)
    qed
  qed
qed

lemma alloc_pages_runs:
  assumes "gc_keeps gc" and "0 < n" "n < 2 ^ 30" and "heap_inv h ss"
  shows "runs (alloc_pages gc n) h (found gc n h) (not_found gc h) (\<lambda>_. False)"
proof -
  have "turns h 0 (hp_next_page h) \<le> 6 * (hp_max_pages h + 2)" by (simp add: turns_def)
  from alloc_loop_runs [OF assms boundary_next [OF assms(4)] _ this]
  show ?thesis by (simp add: alloc_pages_def runs_def)
qed


text \<open>
  C18: The search for pages ends, and touches no word outside the heap. When it returns a page, the run
  from there was free in a heap it prepared by growing and collecting, and it is now marked as
  allocated with the numbers of pages left in the run; all else is as it was, and the heap is still a
  sequence of segments with well formed lists. When it throws, either the collector did, or the heap
  is grown to its maximum and \<open>out_of_memory\<close> is set; nothing is taken.
\<close>

theorem alloc_pages_sound:
  assumes "gc_keeps gc" and "0 < n" "n < 2 ^ 30" and "heap_inv h ss"
  shows "case alloc_pages gc n h of (Inr i, h') \<Rightarrow> found gc n h i h' | (Inl (Exn e), h') \<Rightarrow> not_found gc h h'
    | (Inl (Fault f), h') \<Rightarrow> False"
  by (rule alloc_pages_runs [OF assms, unfolded runs_def])

text \<open>
  The loop that takes pages takes all or none: with a page in its way that is not free it ends
  with the heap as it was, moved on to the end of the segment in its way.
\<close>

theorem grab_pages_all_or_none:
  assumes "laid h (xs @ ys)" and "pages_of xs = i" and "0 < n" "n < 2 ^ 30" and "i + n \<le> hp_num_pages h"
  shows "(\<exists>zs. ys = replicate n Free_page @ zs \<and> grab_pages n i 0 h = (Inr None, h\<lparr>hp_words := taken (hp_words h) i n n\<rparr>)
      \<and> laid (h\<lparr>hp_words := taken (hp_words h) i n n\<rparr>) (xs @ Alloc_pages n # zs))
    \<or> (\<exists>i'. boundary (xs @ ys) i' \<and> i < i' \<and> grab_pages n i 0 h = (Inr (Some i'), h))"
proof -
  have l0: "laid h (xs @ replicate 0 Free_page @ ys)" using assms(1) by simp
  consider (got) zs where "ys = replicate n Free_page @ zs" "grab_pages n i 0 h = (Inr None, h\<lparr>hp_words := taken (hp_words h) i n n\<rparr>)"
    | (skipped) i' where "boundary (xs @ ys) i'" "i < i'" "grab_pages n i 0 h = (Inr (Some i'), h)"
    using grab_run [OF l0 assms(2) _ assms(4,5), of n] by (force simp: boundary_def)
  then show ?thesis
  proof cases
    case got
    have "laid h (xs @ replicate n Free_page @ zs)" using assms(1) got(1) by simp
    from grab_laid [OF this assms(3,4,2)] got show ?thesis by blast
  next
    case skipped
    then show ?thesis by blast
  qed
qed

section \<open>Witnesses\<close>

text \<open>A heap of sixteen free pages, and the collector that does nothing.\<close>

definition small_heap :: heap where
  "small_heap = \<lparr>hp_words = (\<lambda>_. 0), hp_num_pages = 16, hp_max_pages = 16, hp_next_page = 0,
     hp_sizes = gen_block_sizes 85, env_out_of_memory = False\<rparr>"

lemma gen_block_sizes_empty:
  "b \<in> set (gen_block_sizes g) \<Longrightarrow> hs_pages b = None \<and> hs_hint b = None"
  by (auto simp: gen_block_sizes_def)

lemma small_heap_inv: "heap_inv small_heap (replicate 16 Free_page)"
proof -
  have "laid small_heap (replicate 16 Free_page)"
  proof -
    have "layout (hp_words small_heap) 0 (replicate 16 Free_page)" unfolding layout_free by (simp add: small_heap_def)
    moreover have "pages_of (replicate 16 Free_page) = hp_num_pages small_heap"
      unfolding pages_of_simps(4) by (simp add: small_heap_def)
    ultimately show ?thesis unfolding laid_def by (intro conjI) (assumption | simp add: small_heap_def)+
  qed
  moreover have "boundary (replicate 16 Free_page) 0" unfolding boundary_def by (rule exI [of _ "[]"]) simp
  moreover have "lists_ok small_heap ss" for ss
    unfolding lists_ok_def hint_ok_def list_ok_def
    using gen_block_sizes_empty [OF nth_mem] by (fastforce simp: small_heap_def intro: exI [of _ "[]"])
  ultimately show ?thesis using gen_block_sizes_ok by (simp add: heap_inv_def heap_ok_def small_heap_def)
qed

lemma gc_keeps_nothing: "gc_keeps (\<lambda>_. ret ())"
  by (auto simp: gc_keeps_def)

lemma alloc_small_heap: "\<exists>h'. alloc_pages (\<lambda>_. ret ()) 2 small_heap = (Inr 0, h')"
proof -
  have "alloc_loop (Suc 107) (\<lambda>_. ret ()) 2 10 0 0 small_heap = (Inr 0, snd (alloc_loop (Suc 107) (\<lambda>_. ret ()) 2 10 0 0 small_heap))"
    unfolding alloc_loop.simps by (simp add: small_heap_def numeral_2_eq_2 ret_apply)
  then show ?thesis by (intro exI) (simp add: alloc_pages_def, simp add: small_heap_def)
qed

lemma alloc_pages_sound_witness:
  "\<exists>h'. alloc_pages (\<lambda>_. ret ()) 2 small_heap = (Inr 0, h') \<and> found (\<lambda>_. ret ()) 2 small_heap 0 h'"
proof -
  obtain h' where "alloc_pages (\<lambda>_. ret ()) 2 small_heap = (Inr 0, h')" using alloc_small_heap by blast
  with alloc_pages_sound [OF gc_keeps_nothing _ _ small_heap_inv, of 2] show ?thesis by simp
qed

lemma grab_pages_all_or_none_witness:
  "(\<exists>zs. replicate 16 Free_page = replicate 3 Free_page @ zs \<and> grab_pages 3 0 0 small_heap = (Inr None, small_heap\<lparr>hp_words := taken (hp_words small_heap) 0 3 3\<rparr>)
      \<and> laid (small_heap\<lparr>hp_words := taken (hp_words small_heap) 0 3 3\<rparr>) ([] @ Alloc_pages 3 # zs))
    \<or> (\<exists>i'. boundary (replicate 16 Free_page) i' \<and> 0 < i' \<and> grab_pages 3 0 0 small_heap = (Inr (Some i'), small_heap))"
  using grab_pages_all_or_none [of small_heap "[]" "replicate 16 Free_page" 0 3] small_heap_inv
  by (simp add: heap_inv_def heap_ok_def small_heap_def del: taken_0)

lemma small_word_fields_witness:
  "hx_ptype (small_word 5 no_next) = PAGE_SMALL \<and> unat (hx_bsi (small_word 5 no_next)) = 5 \<and> hx_next (small_word 5 no_next) = no_next"
  using small_word_fields [of 5 no_next] by simp

end
