(* ===== verification/Heap_Blocks.thy ===== *)
theory Heap_Blocks
  imports Heap_Pages
begin

text \<open>
  The blocks of the small pages: \<open>_jc_heap_alloc_small_block\<close> of \<open>libjc/heap.c\<close>, which takes the first
  free block behind the hint of the size, then of the pages on its list, and otherwise makes a new page.
\<close>

section \<open>Operations\<close>

abbreviation BLOCK_FREE :: u32 where "BLOCK_FREE \<equiv> 0x00000001"
abbreviation BLOCK_ALLOC :: u32 where "BLOCK_ALLOC \<equiv> 0x00000003"

text \<open>\<open>_JC_HEAP_SAME_PAGE\<close>\<close>

definition same_page :: "nat \<Rightarrow> nat \<Rightarrow> bool" where
  "same_page a b \<longleftrightarrow> ((of_nat a :: u32) XOR of_nat b) AND NOT (of_nat (page_size - 1)) = 0"

text \<open>\<open>ptr & ~(_JC_PAGE_SIZE - 1)\<close>\<close>

definition page_start :: "nat \<Rightarrow> nat" where
  "page_start a = unat ((of_nat a :: u32) AND NOT (of_nat (page_size - 1)))"

definition size_at :: "nat \<Rightarrow> (heap, heap_size) mon" where
  "size_at bsi = bindM (gets hp_sizes) (\<lambda>sizes. liftM (load sizes bsi))"

definition set_size :: "nat \<Rightarrow> (heap_size \<Rightarrow> heap_size) \<Rightarrow> (heap, unit) mon" where
  "set_size bsi f = modify (\<lambda>h. h\<lparr>hp_sizes := (hp_sizes h)[bsi := f (hp_sizes h ! bsi)]\<rparr>)"

text \<open>The loop over the blocks behind the first; the last one is returned.\<close>

fun free_blocks :: "nat \<Rightarrow> nat \<Rightarrow> nat \<Rightarrow> (heap, nat) mon" where
  "free_blocks ptr sz 0 = ret ptr"
| "free_blocks ptr sz (Suc i) = thenM (write_word (ptr + sz) BLOCK_FREE) (free_blocks (ptr + sz) sz i)"

text \<open>From the label \<open>get_page\<close>.\<close>

definition new_small_page :: "(bool \<Rightarrow> (heap, unit) mon) \<Rightarrow> nat \<Rightarrow> (heap, nat) mon" where
  "new_small_page gc bsi =
     bindM (alloc_pages gc 1) (\<lambda>p. let ptr = page_addr p + block_offset in
     thenM (write_word ptr BLOCK_ALLOC) (
     bindM (size_at bsi) (\<lambda>bs.
     bindM (free_blocks ptr (hs_size bs) (hs_num_blocks bs - 1)) (\<lambda>last'. let start = page_start last' in
     thenM (write_word start (small_word bsi no_next)) (
     thenM (set_size bsi (\<lambda>bs. bs\<lparr>hs_hint := Some (start + block_offset + hs_size bs)\<rparr>))
     (ret (start + block_offset)))))))"

text \<open>From the label \<open>try_again\<close>.\<close>

fun small_loop :: "nat \<Rightarrow> (bool \<Rightarrow> (heap, unit) mon) \<Rightarrow> nat \<Rightarrow> (heap, nat) mon" where
  "small_loop 0 gc bsi = fails (Fault Out_of_fuel)"
| "small_loop (Suc fuel) gc bsi =
     bindM (size_at bsi) (\<lambda>bs. case hs_hint bs of
       Some ptr \<Rightarrow> bindM (read_word ptr) (\<lambda>w. let gotit = (w = BLOCK_FREE); next' = ptr + hs_size bs in
         thenM (if gotit then write_word ptr BLOCK_ALLOC else ret ()) (
         thenM (set_size bsi (\<lambda>bs. bs\<lparr>hs_hint := if same_page ptr (next' + hs_size bs - 1) then Some next' else None\<rparr>)) (
         if gotit then ret ptr else small_loop fuel gc bsi)))
     | None \<Rightarrow> (case hs_pages bs of
         Some ptr \<Rightarrow> bindM (read_word ptr) (\<lambda>w.
           let next' = (if hx_next w = no_next then None else Some (page_addr (unat (hx_next w)))) in
           thenM (set_size bsi (\<lambda>bs. bs\<lparr>hs_pages := next', hs_hint := Some (ptr + block_offset)\<rparr>)) (small_loop fuel gc bsi))
       | None \<Rightarrow> new_small_page gc bsi))"

text \<open>Every turn leaves a block of the hint behind, or a page of the list, and a page has less than
  \<open>page_size\<close> blocks.\<close>

definition alloc_small_block :: "(bool \<Rightarrow> (heap, unit) mon) \<Rightarrow> nat \<Rightarrow> (heap, nat) mon" where
  "alloc_small_block gc bsi = bindM (gets hp_num_pages) (\<lambda>num. small_loop ((num + 1) * page_size) gc bsi)"

section \<open>Addresses\<close>

lemma page_mask: "(of_nat (page_size - 1) :: u32) = mask 12"
  by (simp add: mask_eq_exp_minus_1)

lemma high_bits: "(w :: u32) AND NOT (mask 12) = push_bit 12 (drop_bit 12 w)"
  by (rule bit_word_eqI) (auto simp: bit_and_iff bit_not_iff bit_mask_iff bit_push_bit_iff bit_drop_bit_eq dest: bit_imp_le_length)

lemma page_start_eq: "a < 2 ^ 32 \<Longrightarrow> page_start a = a div 4096 * 4096"
proof -
  assume a: "a < 2 ^ 32"
  then have u: "unat (of_nat a :: u32) = a" by (simp add: unat_of_nat take_bit_nat_eq_self)
  have "page_start a = unat (push_bit 12 (drop_bit 12 (of_nat a :: u32)))"
    unfolding page_start_def page_mask high_bits ..
  also have "\<dots> = (a div 4096 * 4096) mod 2 ^ 32"
    using u by (simp add: push_bit_eq_mult drop_bit_eq_div unat_word_ariths unat_div mod_mult_left_eq)
  also have "\<dots> = a div 4096 * 4096" using a by (intro mod_less) linarith
  finally show ?thesis .
qed

lemma xor_0: "(v :: u32) XOR w = 0 \<longleftrightarrow> v = w"
  by (auto simp: bit_eq_iff bit_xor_iff)

lemma div_page: "p = (p * 4096 + x) div 4096 \<longleftrightarrow> x < (4096 :: nat)"
proof -
  have "(p * 4096 + x) div 4096 = p + x div 4096" by simp
  then show ?thesis by (auto simp: div_eq_0_iff)
qed

lemma same_page_eq:
  assumes "a < 2 ^ 32" and "b < 2 ^ 32"
  shows "same_page a b \<longleftrightarrow> a div 4096 = b div 4096"
proof -
  let ?m = "\<lambda>x. (of_nat x :: u32) AND NOT (mask 12)"
  have "(((of_nat a :: u32) XOR of_nat b) AND NOT (mask 12)) = ?m a XOR ?m b"
    by (rule bit_word_eqI) (auto simp: bit_simps)
  then have "same_page a b \<longleftrightarrow> ?m a = ?m b"
    unfolding same_page_def page_mask by (simp only: xor_0)
  also have "\<dots> \<longleftrightarrow> unat (?m a) = unat (?m b)" by (rule word_unat_eq_iff)
  also have "\<dots> \<longleftrightarrow> a div 4096 = b div 4096"
    using page_start_eq [OF assms(1)] page_start_eq [OF assms(2)] unfolding page_start_def page_mask by simp
  finally show ?thesis .
qed

text \<open>What the sizes say of the place of a block.\<close>

lemma block_place:
  assumes "sizes_ok sizes" and "b < length sizes" and "k < hs_num_blocks (sizes ! b)"
  shows "4 + k * hs_size (sizes ! b) + hs_size (sizes ! b) \<le> 4096"
    and "block_addr (sizes ! b) p k = p * 4096 + (4 + k * hs_size (sizes ! b))"
    and "block_addr (sizes ! b) p k mod 4 = 0"
    and "block_addr (sizes ! b) p k \<noteq> page_addr q"
    and "block_addr (sizes ! b) p k div 4096 = p"
proof -
  note s = sizes_ok_nth [OF assms(1,2)]
  have "(k + 1) * hs_size (sizes ! b) \<le> hs_num_blocks (sizes ! b) * hs_size (sizes ! b)"
    using assms(3) by (intro mult_le_mono1) simp
  then show le: "4 + k * hs_size (sizes ! b) + hs_size (sizes ! b) \<le> 4096" using s(4) by simp
  show eq: "block_addr (sizes ! b) p k = p * 4096 + (4 + k * hs_size (sizes ! b))"
    by (simp add: block_addr_def page_addr_def block_offset_def howmany_def)
  have "k * hs_size (sizes ! b) mod 4 = 0" using s(2) by (metis mod_mult_right_eq mult_0_right mod_0)
  then show "block_addr (sizes ! b) p k mod 4 = 0" unfolding eq by presburger
  have lt: "4 + k * hs_size (sizes ! b) < 4096" using le s(1) by linarith
  show d: "block_addr (sizes ! b) p k div 4096 = p" unfolding eq using lt by simp
  have "block_addr (sizes ! b) p k mod 4096 = 4 + k * hs_size (sizes ! b)" unfolding eq using lt by simp
  then show "block_addr (sizes ! b) p k \<noteq> page_addr q" by (auto simp: page_addr_def)
qed

lemma next_block:
  assumes "sizes_ok sizes" and "b < length sizes" and "k < hs_num_blocks (sizes ! b)" and "p < 2 ^ 20 - 1"
  shows "same_page (block_addr (sizes ! b) p k) (block_addr (sizes ! b) p k + hs_size (sizes ! b) + hs_size (sizes ! b) - 1)
      \<longleftrightarrow> k + 1 < hs_num_blocks (sizes ! b)"
    and "block_addr (sizes ! b) p k + hs_size (sizes ! b) = block_addr (sizes ! b) p (k + 1)"
proof -
  let ?s = "hs_size (sizes ! b)" and ?n = "hs_num_blocks (sizes ! b)"
  note s = sizes_ok_nth [OF assms(1,2)] and bp = block_place [OF assms(1-3)]
  show "block_addr (sizes ! b) p k + ?s = block_addr (sizes ! b) p (k + 1)"
    by (simp add: block_addr_def algebra_simps)
  have small: "?s \<le> 2046" by (rule sizes_ok_small [OF assms(1,2)])
  have e: "block_addr (sizes ! b) p k + ?s + ?s - 1 = p * 4096 + (4 + (k + 2) * ?s - 1)"
    using s(1) by (simp add: bp(2) algebra_simps)
  have ks: "k * ?s + ?s \<le> 4092" using bp(1) by simp
  have small_addr: "p * 4096 + (4 + (k + 2) * ?s - 1) < 2 ^ 32" "p * 4096 + (4 + k * ?s) < 2 ^ 32"
    using ks small assms(4) by (simp_all add: algebra_simps)
  have "same_page (block_addr (sizes ! b) p k) (block_addr (sizes ! b) p k + ?s + ?s - 1)
      \<longleftrightarrow> p = (p * 4096 + (4 + (k + 2) * ?s - 1)) div 4096"
    unfolding e using same_page_eq [OF small_addr(2,1)] bp(2,5) by simp
  also have "\<dots> \<longleftrightarrow> 4 + (k + 2) * ?s - 1 < 4096" by (rule div_page)
  also have "\<dots> \<longleftrightarrow> k + 1 < ?n"
  proof (cases "k + 1 < ?n")
    case True
    then have "(k + 2) * ?s \<le> ?n * ?s" by (intro mult_le_mono1) simp
    then show ?thesis using s(4) True by simp
  next
    case False
    then have "k + 2 = ?n + 1" using assms(3) by simp
    then have "4096 < 4 + (k + 2) * ?s" using s(5) by simp
    then show ?thesis using False by simp
  qed
  finally show "same_page (block_addr (sizes ! b) p k) (block_addr (sizes ! b) p k + ?s + ?s - 1) \<longleftrightarrow> k + 1 < ?n" .
qed


section \<open>Changes to the heap\<close>

lemma inv_sizes: "heap_inv h ss \<Longrightarrow> sizes_ok (hp_sizes h)"
  by (simp add: heap_inv_def)

lemma inv_page:
  assumes "heap_inv h ss" and "page_is ss p b"
  shows "p < hp_num_pages h" "p < hp_max_pages h" "p < 2 ^ 20 - 1"
  using assms laid_header [of h ss p b] by (auto simp: heap_inv_def heap_ok_def laid_def)

lemma word_write_inv:
  assumes inv: "heap_inv h ss" and a: "\<And>q. a \<noteq> page_addr q"
  shows "heap_inv (h\<lparr>hp_words := (hp_words h)(a := v)\<rparr>) ss"
proof -
  let ?h = "h\<lparr>hp_words := (hp_words h)(a := v)\<rparr>"
  have same: "hp_words ?h (page_addr q) = hp_words h (page_addr q)" for q using a [of q] by simp
  have "layout (hp_words ?h) 0 ss = layout (hp_words h) 0 ss" by (rule layout_cong) (use same in blast)
  then have "laid ?h ss" using inv by (simp add: heap_inv_def heap_ok_def laid_def)
  moreover have "lists_ok ?h ss"
    by (rule lists_ok_cong [of h ss]) (use inv same in \<open>simp_all add: heap_inv_def\<close>)
  ultimately show ?thesis using inv by (simp add: heap_inv_def heap_ok_def)
qed

lemma size_write_inv:
  assumes inv: "heap_inv h ss" and b: "b < length (hp_sizes h)"
    and same: "hs_size bs = hs_size (hp_sizes h ! b)" "hs_num_blocks bs = hs_num_blocks (hp_sizes h ! b)"
    and ok: "hint_ok ss b bs" "list_ok (hp_words h) ss b bs"
  shows "heap_inv (h\<lparr>hp_sizes := (hp_sizes h)[b := bs]\<rparr>) ss"
proof -
  let ?h = "h\<lparr>hp_sizes := (hp_sizes h)[b := bs]\<rparr>"
  have "laid ?h ss" by (rule laid_same [of h]) (use inv in \<open>simp_all add: heap_inv_def heap_ok_def\<close>)
  moreover have "sizes_ok (hp_sizes ?h)"
  proof -
    have "map hs_size (hp_sizes ?h) = map hs_size (hp_sizes h)"
      using same(1) b by (simp add: map_update list_update_same_conv)
    moreover have "list_all P ((hp_sizes h)[b := bs])"
      if "list_all P (hp_sizes h)" "P (hp_sizes h ! b) \<Longrightarrow> P bs" for P
      using that b by (auto simp: list_all_length nth_list_update)
    ultimately show ?thesis using inv_sizes [OF inv] same unfolding sizes_ok_def by simp
  qed
  moreover have "lists_ok ?h ss" unfolding lists_ok_def
  proof (intro allI impI)
    fix c assume "c < length (hp_sizes ?h)"
    then have "hint_ok ss c (hp_sizes h ! c) \<and> list_ok (hp_words h) ss c (hp_sizes h ! c)"
      using inv by (simp add: heap_inv_def lists_ok_def)
    then show "hint_ok ss c (hp_sizes ?h ! c) \<and> list_ok (hp_words ?h) ss c (hp_sizes ?h ! c)"
      using ok b by (cases "c = b") simp_all
  qed
  ultimately show ?thesis using inv by (simp add: heap_inv_def heap_ok_def)
qed

lemma size_at_in [simp]: "b < length (hp_sizes h) \<Longrightarrow> size_at b h = (Inr (hp_sizes h ! b), h)"
  by (simp add: size_at_def)

lemma set_size_apply [simp]: "set_size b f h = (Inr (), h\<lparr>hp_sizes := (hp_sizes h)[b := f (hp_sizes h ! b)]\<rparr>)"
  by (simp add: set_size_def)

text \<open>A block of a small page can be read and written.\<close>

lemma block_rw:
  assumes "sizes_ok sizes" and "b < length sizes" and "k < hs_num_blocks (sizes ! b)" and "p < hp_max_pages h"
  shows "read_word (block_addr (sizes ! b) p k) h = (Inr (hp_words h (block_addr (sizes ! b) p k)), h)"
    and "write_word (block_addr (sizes ! b) p k) v h = (Inr (), h\<lparr>hp_words := (hp_words h)(block_addr (sizes ! b) p k := v)\<rparr>)"
proof -
  note bp = block_place [OF assms(1-3)]
  have "block_addr (sizes ! b) p k < hp_max_pages h * 4096"
    using bp(5) assms(4) by (metis div_less_iff_less_mult zero_less_numeral)
  then show "read_word (block_addr (sizes ! b) p k) h = (Inr (hp_words h (block_addr (sizes ! b) p k)), h)"
    "write_word (block_addr (sizes ! b) p k) v h = (Inr (), h\<lparr>hp_words := (hp_words h)(block_addr (sizes ! b) p k := v)\<rparr>)"
    using bp(3) by (simp_all add: read_word_def write_word_def)
qed

lemma block_access:
  assumes "heap_inv h ss" and "page_is ss p b" and "b < length (hp_sizes h)" and "k < hs_num_blocks (hp_sizes h ! b)"
  shows "read_word (block_addr (hp_sizes h ! b) p k) h = (Inr (hp_words h (block_addr (hp_sizes h ! b) p k)), h)"
    and "write_word (block_addr (hp_sizes h ! b) p k) v h
      = (Inr (), h\<lparr>hp_words := (hp_words h)(block_addr (hp_sizes h ! b) p k := v)\<rparr>)"
  using block_rw [OF inv_sizes [OF assms(1)] assms(3,4) inv_page(2) [OF assms(1,2)]] by simp_all

section \<open>The blocks that are tried\<close>

text \<open>The blocks of the page of the hint, from the hint, and the blocks of the pages of a list.\<close>

definition hint_blocks :: "heap_size \<Rightarrow> nat list" where
  "hint_blocks bs = (case hs_hint bs of None \<Rightarrow> []
     | Some a \<Rightarrow> map (\<lambda>j. a + j * hs_size bs) [0..<hs_num_blocks bs - (a mod page_size - block_offset) div hs_size bs])"

definition list_blocks :: "heap_size \<Rightarrow> nat list \<Rightarrow> nat list" where
  "list_blocks bs ps = concat (map (\<lambda>p. map (block_addr bs p) [0..<hs_num_blocks bs]) ps)"

lemma chain_unique: "chain m a ps \<Longrightarrow> chain m a qs \<Longrightarrow> ps = qs"
proof (induction ps arbitrary: a qs)
  case Nil
  then show ?case by (cases qs) simp_all
next
  case (Cons p ps)
  then show ?case by (cases qs) auto
qed

lemma block_addr_cong [simp]: "block_addr (bs\<lparr>hs_hint := x\<rparr>) = block_addr bs" "block_addr (bs\<lparr>hs_pages := y\<rparr>) = block_addr bs"
  by (simp_all add: block_addr_def fun_eq_iff)

lemma list_blocks_cong [simp]: "list_blocks (bs\<lparr>hs_hint := x\<rparr>) ps = list_blocks bs ps" "list_blocks (bs\<lparr>hs_pages := y\<rparr>) ps = list_blocks bs ps"
  by (simp_all add: list_blocks_def)

lemma hint_blocks_at:
  assumes "sizes_ok sizes" and "b < length sizes" and "k < hs_num_blocks (sizes ! b)"
    and "hs_hint bs = Some (block_addr (sizes ! b) p k)" "hs_size bs = hs_size (sizes ! b)" "hs_num_blocks bs = hs_num_blocks (sizes ! b)"
  shows "hint_blocks bs = map (block_addr (sizes ! b) p) [k..<hs_num_blocks (sizes ! b)]"
proof -
  note s = sizes_ok_nth [OF assms(1,2)] and bp = block_place [OF assms(1-3)]
  have "block_addr (sizes ! b) p k mod 4096 = 4 + k * hs_size (sizes ! b)"
    using bp(1) s(1) by (simp add: bp(2))
  then have "(block_addr (sizes ! b) p k mod 4096 - block_offset) div hs_size (sizes ! b) = k"
    using s(1) by (simp add: block_offset_def howmany_def)
  moreover have "map (\<lambda>j. block_addr (sizes ! b) p k + j * hs_size (sizes ! b)) [0..<n - k]
      = map (block_addr (sizes ! b) p) [k..<n]" for n
    by (rule nth_equalityI) (auto simp: block_addr_def algebra_simps)
  ultimately show ?thesis using assms(4-6) by (simp add: hint_blocks_def)
qed


section \<open>Taking a block\<close>

text \<open>The heap when the hint and the list of the size have run out.\<close>

definition emptied :: "heap \<Rightarrow> nat \<Rightarrow> heap" where
  "emptied h b = h\<lparr>hp_sizes := (hp_sizes h)[b := (hp_sizes h ! b)\<lparr>hs_pages := None, hs_hint := None\<rparr>]\<rparr>"

lemma no_lists: "hs_pages bs = None \<Longrightarrow> hs_hint bs = None \<Longrightarrow> bs\<lparr>hs_pages := None, hs_hint := None\<rparr> = bs"
  by (cases bs) simp

lemma emptied_again:
  "b < length (hp_sizes h) \<Longrightarrow> bs\<lparr>hs_pages := None, hs_hint := None\<rparr> = (hp_sizes h ! b)\<lparr>hs_pages := None, hs_hint := None\<rparr> \<Longrightarrow>
    emptied (h\<lparr>hp_sizes := (hp_sizes h)[b := bs]\<rparr>) b = emptied h b"
  by (simp add: emptied_def)

text \<open>A block of a small page that is taken, or passed by, with what becomes of its size.\<close>

definition took :: "heap \<Rightarrow> nat \<Rightarrow> segment list \<Rightarrow> nat \<Rightarrow> heap \<Rightarrow> bool" where
  "took h b ss a h' \<longleftrightarrow> (\<exists>bs'. hs_size bs' = hs_size (hp_sizes h ! b) \<and> hs_num_blocks bs' = hs_num_blocks (hp_sizes h ! b)
     \<and> h' = h\<lparr>hp_words := (hp_words h)(a := BLOCK_ALLOC), hp_sizes := (hp_sizes h)[b := bs']\<rparr> \<and> heap_inv h' ss)"

lemma took_size:
  assumes "took (h\<lparr>hp_sizes := (hp_sizes h)[b := bs]\<rparr>) b ss a h'" and "b < length (hp_sizes h)"
    and "hs_size bs = hs_size (hp_sizes h ! b)" "hs_num_blocks bs = hs_num_blocks (hp_sizes h ! b)"
  shows "took h b ss a h'"
  using assms unfolding took_def by fastforce

text \<open>What the loop does with the blocks that are left to try.\<close>

definition outcome :: "(bool \<Rightarrow> (heap, unit) mon) \<Rightarrow> heap \<Rightarrow> nat \<Rightarrow> segment list \<Rightarrow> nat list \<Rightarrow> (failure + nat) \<times> heap \<Rightarrow> bool" where
  "outcome gc h b ss as r \<longleftrightarrow> (case find (\<lambda>a. hp_words h a = BLOCK_FREE) as of
     Some a \<Rightarrow> fst r = Inr a \<and> took h b ss a (snd r) | None \<Rightarrow> r = new_small_page gc b (emptied h b))"

lemma outcome_size:
  assumes "outcome gc (h\<lparr>hp_sizes := (hp_sizes h)[b := bs]\<rparr>) b ss as r" and "b < length (hp_sizes h)"
    and "hs_size bs = hs_size (hp_sizes h ! b)" "hs_num_blocks bs = hs_num_blocks (hp_sizes h ! b)"
    and "bs\<lparr>hs_pages := None, hs_hint := None\<rparr> = (hp_sizes h ! b)\<lparr>hs_pages := None, hs_hint := None\<rparr>"
  shows "outcome gc h b ss as r"
  using assms(1) took_size [OF _ assms(2-4)] unfolding outcome_def emptied_again [OF assms(2,5)]
  by (auto split: option.splits)

text \<open>The hint moves on to the next block of its page.\<close>

definition next_hint :: "heap_size \<Rightarrow> nat \<Rightarrow> nat \<Rightarrow> heap_size" where
  "next_hint bs p k = bs\<lparr>hs_hint := if k + 1 < hs_num_blocks bs then Some (block_addr bs p (k + 1)) else None\<rparr>"

lemma next_hint_inv:
  assumes inv: "heap_inv h ss" and b: "b < length (hp_sizes h)" and p: "page_is ss p b"
  shows "heap_inv (h\<lparr>hp_sizes := (hp_sizes h)[b := next_hint (hp_sizes h ! b) p k]\<rparr>) ss"
proof (rule size_write_inv [OF inv b])
  show "hint_ok ss b (next_hint (hp_sizes h ! b) p k)"
    using p by (fastforce simp: hint_ok_def next_hint_def)
  show "list_ok (hp_words h) ss b (next_hint (hp_sizes h ! b) p k)"
    using inv b by (simp add: heap_inv_def lists_ok_def list_ok_def next_hint_def)
qed (simp_all add: next_hint_def)

lemma hint_turn:
  assumes inv: "heap_inv h ss" and b: "b < length (hp_sizes h)" and a: "hs_hint (hp_sizes h ! b) = Some a"
  obtains p k where "page_is ss p b" "k < hs_num_blocks (hp_sizes h ! b)" "a = block_addr (hp_sizes h ! b) p k"
    and "hint_blocks (hp_sizes h ! b) = a # hint_blocks (next_hint (hp_sizes h ! b) p k)"
    and "hp_words h a = BLOCK_FREE \<Longrightarrow> small_loop (Suc fuel) gc b h = (Inr a,
      h\<lparr>hp_words := (hp_words h)(a := BLOCK_ALLOC), hp_sizes := (hp_sizes h)[b := next_hint (hp_sizes h ! b) p k]\<rparr>)"
    and "hp_words h a \<noteq> BLOCK_FREE \<Longrightarrow> small_loop (Suc fuel) gc b h =
      small_loop fuel gc b (h\<lparr>hp_sizes := (hp_sizes h)[b := next_hint (hp_sizes h ! b) p k]\<rparr>)"
proof -
  let ?bs = "hp_sizes h ! b"
  obtain p k where pk: "page_is ss p b" "k < hs_num_blocks ?bs" "a = block_addr ?bs p k"
    using inv b a unfolding heap_inv_def lists_ok_def hint_ok_def by blast
  note sz = inv_sizes [OF inv] and acc = block_access [OF inv pk(1) b pk(2)]
  note nb = next_block [OF sz b pk(2) inv_page(3) [OF inv pk(1)]]
  have "hint_blocks ?bs = map (block_addr ?bs p) [k..<hs_num_blocks ?bs]"
    by (rule hint_blocks_at [OF sz b pk(2)]) (use a pk(3) in simp_all)
  moreover have "hint_blocks (next_hint ?bs p k) = map (block_addr ?bs p) [k + 1..<hs_num_blocks ?bs]"
  proof (cases "k + 1 < hs_num_blocks ?bs")
    case True
    show ?thesis by (rule hint_blocks_at [OF sz b True]) (use True in \<open>simp_all add: next_hint_def\<close>)
  next
    case False
    then show ?thesis by (simp add: next_hint_def hint_blocks_def)
  qed
  ultimately have blocks: "hint_blocks ?bs = a # hint_blocks (next_hint ?bs p k)"
    using pk(2,3) by (simp add: upt_conv_Cons)
  note same = nb(1) [unfolded nb(2), simplified]
  show thesis
    using acc a b pk(3) by (intro that [OF pk blocks]) (simp_all add: Let_def ret_apply same nb(2) next_hint_def)
qed

lemma list_turn:
  assumes inv: "heap_inv h ss" and b: "b < length (hp_sizes h)"
    and no: "hs_hint (hp_sizes h ! b) = None" and ch: "chain (hp_words h) (hs_pages (hp_sizes h ! b)) (p # ps)"
  obtains bs where "bs = (hp_sizes h ! b)\<lparr>hs_pages := next_of (hp_words h (page_addr p)), hs_hint := Some (page_addr p + block_offset)\<rparr>"
    and "chain (hp_words h) (hs_pages bs) ps" and "hint_blocks bs = map (block_addr (hp_sizes h ! b) p) [0..<hs_num_blocks (hp_sizes h ! b)]"
    and "heap_inv (h\<lparr>hp_sizes := (hp_sizes h)[b := bs]\<rparr>) ss"
    and "small_loop (Suc fuel) gc b h = small_loop fuel gc b (h\<lparr>hp_sizes := (hp_sizes h)[b := bs]\<rparr>)"
proof -
  let ?bs = "hp_sizes h ! b"
  define bs where "bs = ?bs\<lparr>hs_pages := next_of (hp_words h (page_addr p)), hs_hint := Some (page_addr p + block_offset)\<rparr>"
  have start: "hs_pages ?bs = Some (page_addr p)" and rest: "chain (hp_words h) (hs_pages bs) ps" using ch by (simp_all add: bs_def)
  obtain qs where qs: "chain (hp_words h) (hs_pages ?bs) qs" "distinct qs" "\<forall>p \<in> set qs. page_is ss p b"
    using inv b unfolding heap_inv_def lists_ok_def list_ok_def by blast
  have "qs = p # ps" by (rule chain_unique [OF qs(1) ch])
  then have ps: "distinct ps" "\<forall>p \<in> set ps. page_is ss p b" "page_is ss p b" using qs by simp_all
  note sz = inv_sizes [OF inv]
  have n: "0 < hs_num_blocks ?bs" using sizes_ok_nth(3) [OF sz b] by simp
  have first: "hs_hint bs = Some (block_addr ?bs p 0)" by (simp add: bs_def block_addr_def)
  have blocks: "hint_blocks bs = map (block_addr ?bs p) [0..<hs_num_blocks ?bs]"
    by (rule hint_blocks_at [OF sz b n first]) (simp_all add: bs_def)
  have inv': "heap_inv (h\<lparr>hp_sizes := (hp_sizes h)[b := bs]\<rparr>) ss"
  proof (rule size_write_inv [OF inv b])
    show "hint_ok ss b bs" using first n ps(3) unfolding hint_ok_def by (auto simp: bs_def)
    show "list_ok (hp_words h) ss b bs" using rest ps(1,2) unfolding list_ok_def by blast
  qed (simp_all add: bs_def)
  have "small_loop (Suc fuel) gc b h = small_loop fuel gc b (h\<lparr>hp_sizes := (hp_sizes h)[b := bs]\<rparr>)"
    using b no start inv_page(2) [OF inv ps(3)] by (simp add: bs_def next_of_def)
  then show thesis by (rule that [OF bs_def rest blocks inv'])
qed


lemma small_loop_run:
  "heap_inv h ss \<Longrightarrow> b < length (hp_sizes h) \<Longrightarrow> chain (hp_words h) (hs_pages (hp_sizes h ! b)) ps \<Longrightarrow>
    length (hint_blocks (hp_sizes h ! b)) + length ps * (hs_num_blocks (hp_sizes h ! b) + 1) < fuel \<Longrightarrow>
    outcome gc h b ss (hint_blocks (hp_sizes h ! b) @ list_blocks (hp_sizes h ! b) ps) (small_loop fuel gc b h)"
proof (induction fuel arbitrary: h ps)
  case (Suc fuel)
  let ?bs = "hp_sizes h ! b"
  note inv = Suc.prems(1) and b = Suc.prems(2)
  show ?case
  proof (cases "hs_hint ?bs")
    case (Some a)
    obtain p k where pk: "page_is ss p b" "k < hs_num_blocks ?bs" "a = block_addr ?bs p k"
      and blocks: "hint_blocks ?bs = a # hint_blocks (next_hint ?bs p k)"
      and got: "hp_words h a = BLOCK_FREE \<Longrightarrow> small_loop (Suc fuel) gc b h = (Inr a,
        h\<lparr>hp_words := (hp_words h)(a := BLOCK_ALLOC), hp_sizes := (hp_sizes h)[b := next_hint ?bs p k]\<rparr>)"
      and other: "hp_words h a \<noteq> BLOCK_FREE \<Longrightarrow> small_loop (Suc fuel) gc b h =
        small_loop fuel gc b (h\<lparr>hp_sizes := (hp_sizes h)[b := next_hint ?bs p k]\<rparr>)"
      using hint_turn [OF inv b Some] by metis
    let ?h = "h\<lparr>hp_sizes := (hp_sizes h)[b := next_hint ?bs p k]\<rparr>"
    have same: "hs_size (next_hint ?bs p k) = hs_size ?bs" "hs_num_blocks (next_hint ?bs p k) = hs_num_blocks ?bs"
      "hs_pages (next_hint ?bs p k) = hs_pages ?bs" "list_blocks (next_hint ?bs p k) = list_blocks ?bs"
      "(next_hint ?bs p k)\<lparr>hs_pages := None, hs_hint := None\<rparr> = ?bs\<lparr>hs_pages := None, hs_hint := None\<rparr>"
      by (simp_all add: next_hint_def fun_eq_iff)
    have inv': "heap_inv ?h ss" by (rule next_hint_inv [OF inv b pk(1)])
    show ?thesis
    proof (cases "hp_words h a = BLOCK_FREE")
      case True
      have "heap_inv (h\<lparr>hp_words := (hp_words h)(a := BLOCK_ALLOC)\<rparr>) ss"
        by (rule word_write_inv [OF inv]) (simp add: pk(3) block_place(4) [OF inv_sizes [OF inv] b pk(2)])
      from next_hint_inv [OF this _ pk(1)] b
      have "took h b ss a (h\<lparr>hp_words := (hp_words h)(a := BLOCK_ALLOC), hp_sizes := (hp_sizes h)[b := next_hint ?bs p k]\<rparr>)"
        unfolding took_def using same(1,2) by (intro exI [of _ "next_hint ?bs p k"]) simp
      then show ?thesis using got True blocks by (simp add: outcome_def)
    next
      case False
      have "outcome gc ?h b ss (hint_blocks (next_hint ?bs p k) @ list_blocks ?bs ps) (small_loop fuel gc b ?h)"
        using Suc.IH [OF inv', of ps] Suc.prems(2-4) same blocks by simp
      then have "outcome gc h b ss (hint_blocks (next_hint ?bs p k) @ list_blocks ?bs ps) (small_loop fuel gc b ?h)"
        by (rule outcome_size [OF _ b same(1,2,5)])
      then show ?thesis using other False blocks by (simp add: outcome_def)
    qed
  next
    case None
    note no = this
    show ?thesis
    proof (cases ps)
      case Nil
      then have "emptied h b = h" using Suc.prems(3) None b by (simp add: emptied_def no_lists)
      moreover have "small_loop (Suc fuel) gc b h = new_small_page gc b h" using Nil Suc.prems(3) None b by simp
      ultimately show ?thesis using Nil None by (simp add: outcome_def hint_blocks_def list_blocks_def)
    next
      case (Cons p qs)
      obtain bs where bs: "bs = ?bs\<lparr>hs_pages := next_of (hp_words h (page_addr p)), hs_hint := Some (page_addr p + block_offset)\<rparr>"
        and ch: "chain (hp_words h) (hs_pages bs) qs" and hb: "hint_blocks bs = map (block_addr ?bs p) [0..<hs_num_blocks ?bs]"
        and inv': "heap_inv (h\<lparr>hp_sizes := (hp_sizes h)[b := bs]\<rparr>) ss"
        and run: "small_loop (Suc fuel) gc b h = small_loop fuel gc b (h\<lparr>hp_sizes := (hp_sizes h)[b := bs]\<rparr>)"
        using list_turn [OF inv b None, of p qs] Suc.prems(3) Cons by metis
      let ?h = "h\<lparr>hp_sizes := (hp_sizes h)[b := bs]\<rparr>"
      have same: "hs_size bs = hs_size ?bs" "hs_num_blocks bs = hs_num_blocks ?bs" "list_blocks bs = list_blocks ?bs"
        "bs\<lparr>hs_pages := None, hs_hint := None\<rparr> = ?bs\<lparr>hs_pages := None, hs_hint := None\<rparr>"
        by (simp_all add: bs fun_eq_iff)
      have "hint_blocks ?bs @ list_blocks ?bs ps = hint_blocks bs @ list_blocks bs qs"
        using None Cons hb same(3) by (simp add: hint_blocks_def list_blocks_def)
      moreover have "length (hint_blocks bs) + length qs * (hs_num_blocks bs + 1) < fuel"
        using Suc.prems(4) Cons hb same(2) by simp
      then have "outcome gc ?h b ss (hint_blocks bs @ list_blocks bs qs) (small_loop fuel gc b ?h)"
        using Suc.IH [OF inv', of qs] b ch by simp
      then have "outcome gc h b ss (hint_blocks bs @ list_blocks bs qs) (small_loop fuel gc b ?h)"
        by (rule outcome_size [OF _ b same(1,2,4)])
      ultimately show ?thesis using run by simp
    qed
  qed
qed simp


section \<open>A new page\<close>

definition freed :: "(nat \<Rightarrow> u32) \<Rightarrow> heap_size \<Rightarrow> nat \<Rightarrow> nat \<Rightarrow> nat \<Rightarrow> nat \<Rightarrow> u32" where
  "freed m bs p j n = (\<lambda>a. if \<exists>l. j < l \<and> l \<le> j + n \<and> a = block_addr bs p l then BLOCK_FREE else m a)"

lemma freed_Suc: "freed (m(block_addr bs p (Suc j) := BLOCK_FREE)) bs p (Suc j) n = freed m bs p j (Suc n)"
proof
  fix a
  have "(\<exists>l. j < l \<and> l \<le> j + Suc n \<and> a = block_addr bs p l)
      \<longleftrightarrow> a = block_addr bs p (Suc j) \<or> (\<exists>l. Suc j < l \<and> l \<le> Suc j + n \<and> a = block_addr bs p l)"
    by (auto simp: less_eq_Suc_le [of j] le_less [of "Suc j"])
  then show "freed (m(block_addr bs p (Suc j) := BLOCK_FREE)) bs p (Suc j) n a = freed m bs p j (Suc n) a"
    unfolding freed_def
    by (cases "a = block_addr bs p (Suc j)"; cases "\<exists>l. Suc j < l \<and> l \<le> Suc j + n \<and> a = block_addr bs p l") auto
qed

lemma free_blocks_run:
  assumes "sizes_ok sizes" and "b < length sizes"
  shows "p < hp_max_pages h \<Longrightarrow> j + n < hs_num_blocks (sizes ! b) \<Longrightarrow>
    free_blocks (block_addr (sizes ! b) p j) (hs_size (sizes ! b)) n h
      = (Inr (block_addr (sizes ! b) p (j + n)), h\<lparr>hp_words := freed (hp_words h) (sizes ! b) p j n\<rparr>)"
proof (induction n arbitrary: j h)
  case 0
  have "freed m bs p j 0 = m" for m bs by (auto simp: freed_def fun_eq_iff)
  then show ?case by (simp add: ret_apply)
next
  case (Suc n)
  have next': "block_addr (sizes ! b) p j + hs_size (sizes ! b) = block_addr (sizes ! b) p (Suc j)"
    by (simp add: block_addr_def algebra_simps)
  have "Suc j < hs_num_blocks (sizes ! b)" using Suc.prems(2) by simp
  note w = block_rw(2) [OF assms this Suc.prems(1)]
  let ?h = "h\<lparr>hp_words := (hp_words h)(block_addr (sizes ! b) p (Suc j) := BLOCK_FREE)\<rparr>"
  have "free_blocks (block_addr (sizes ! b) p j) (hs_size (sizes ! b)) (Suc n) h
      = free_blocks (block_addr (sizes ! b) p (Suc j)) (hs_size (sizes ! b)) n ?h"
    using w by (simp add: next')
  also have "\<dots> = (Inr (block_addr (sizes ! b) p (Suc j + n)), ?h\<lparr>hp_words := freed (hp_words ?h) (sizes ! b) p (Suc j) n\<rparr>)"
    using Suc.IH [of ?h "Suc j"] Suc.prems by (simp del: fun_upd_apply)
  also have "\<dots> = (Inr (block_addr (sizes ! b) p (j + Suc n)), h\<lparr>hp_words := freed (hp_words h) (sizes ! b) p j (Suc n)\<rparr>)"
    using freed_Suc by (simp del: fun_upd_apply)
  finally show ?case .
qed

text \<open>The words of a page that has been made ready for blocks, its first block taken.\<close>

definition page_words :: "(nat \<Rightarrow> u32) \<Rightarrow> heap_size \<Rightarrow> nat \<Rightarrow> nat \<Rightarrow> nat \<Rightarrow> u32" where
  "page_words m bs b p = (freed (m(block_addr bs p 0 := BLOCK_ALLOC)) bs p 0 (hs_num_blocks bs - 1))
     (page_addr p := small_word b no_next)"

lemma page_words_other:
  assumes "sizes_ok sizes" and "b < length sizes" and "a div page_size \<noteq> p"
  shows "page_words m (sizes ! b) b p a = m a"
proof -
  have "0 < hs_num_blocks (sizes ! b)" using sizes_ok_nth(3) [OF assms(1,2)] by simp
  then have "a \<noteq> block_addr (sizes ! b) p l" if "l \<le> hs_num_blocks (sizes ! b) - 1" for l
  proof -
    have "l < hs_num_blocks (sizes ! b)" using that \<open>0 < hs_num_blocks (sizes ! b)\<close> by linarith
    then show ?thesis using block_place(5) [OF assms(1,2), of l p] assms(3) by auto
  qed
  then show ?thesis using assms(3) by (auto simp: page_words_def freed_def page_addr_def)
qed

lemma page_words_blocks:
  assumes "sizes_ok sizes" and "b < length sizes" and "l < hs_num_blocks (sizes ! b)"
  shows "page_words m (sizes ! b) b p (block_addr (sizes ! b) p l) = (if l = 0 then BLOCK_ALLOC else BLOCK_FREE)"
proof -
  have "block_addr (sizes ! b) p l \<noteq> page_addr p" by (rule block_place(4) [OF assms])
  moreover have "block_addr (sizes ! b) p l = block_addr (sizes ! b) p l' \<longleftrightarrow> l = l'" for l'
    using sizes_ok_nth(1) [OF assms(1,2)] by (simp add: block_addr_def)
  ultimately show ?thesis using assms(3) by (auto simp: page_words_def freed_def)
qed

lemma page_words_header: "page_words m bs b p (page_addr p) = small_word b no_next"
  by (simp add: page_words_def)


text \<open>A heap that has been given a page, and the heap that has made small blocks of it.\<close>

definition with_page :: "heap \<Rightarrow> nat \<Rightarrow> nat \<Rightarrow> heap" where
  "with_page h b p = h\<lparr>hp_words := page_words (hp_words h) (hp_sizes h ! b) b p,
     hp_sizes := (hp_sizes h)[b := (hp_sizes h ! b)\<lparr>hs_hint := Some (block_addr (hp_sizes h ! b) p 1)\<rparr>]\<rparr>"

lemma page_start_block:
  assumes "sizes_ok sizes" and "b < length sizes" and "k < hs_num_blocks (sizes ! b)" and "p < 2 ^ 20 - 1"
  shows "page_start (block_addr (sizes ! b) p k) = page_addr p"
proof -
  note bp = block_place [OF assms(1-3)]
  have "block_addr (sizes ! b) p k < 2 ^ 32" using bp(1) assms(4) by (simp add: bp(2))
  then show ?thesis using bp(5) by (simp add: page_start_eq page_addr_def)
qed

lemma new_page_run:
  assumes inv: "heap_inv h1 ss" and b: "b < length (hp_sizes h1)" and p: "p < hp_max_pages h1"
    and got: "alloc_pages gc 1 h = (Inr p, h1)"
  shows "new_small_page gc b h = (Inr (block_addr (hp_sizes h1 ! b) p 0), with_page h1 b p)"
proof -
  let ?bs = "hp_sizes h1 ! b"
  note sz = inv_sizes [OF inv]
  have n: "2 \<le> hs_num_blocks ?bs" by (rule sizes_ok_nth(3) [OF sz b])
  then have n0: "0 < hs_num_blocks ?bs" and nl: "0 + (hs_num_blocks ?bs - 1) < hs_num_blocks ?bs"
    and nl': "hs_num_blocks ?bs - 1 < hs_num_blocks ?bs" by linarith+
  have pm: "p < 2 ^ 20 - 1" using inv p by (simp add: heap_inv_def heap_ok_def laid_def)
  have first: "page_addr p + block_offset = block_addr ?bs p 0" by (simp add: block_addr_def)
  have second: "page_addr p + block_offset + hs_size ?bs = block_addr ?bs p 1" by (simp add: block_addr_def)
  let ?h2 = "h1\<lparr>hp_words := (hp_words h1)(block_addr ?bs p 0 := BLOCK_ALLOC)\<rparr>"
  note w1 = block_rw(2) [OF sz b n0 p, of BLOCK_ALLOC]
  have fb: "free_blocks (block_addr ?bs p 0) (hs_size ?bs) (hs_num_blocks ?bs - 1) ?h2
      = (Inr (block_addr ?bs p (hs_num_blocks ?bs - 1)), ?h2\<lparr>hp_words := freed (hp_words ?h2) ?bs p 0 (hs_num_blocks ?bs - 1)\<rparr>)"
    using free_blocks_run [OF sz b _ nl, of p ?h2] p by (simp del: fun_upd_apply)
  note ps = page_start_block [OF sz b nl' pm]
  show ?thesis
    unfolding new_small_page_def Let_def
    using p b got w1 fb ps second
    by (simp add: first with_page_def page_words_def ret_apply del: fun_upd_apply)
qed


lemma with_page_inv:
  assumes inv: "heap_inv h1 (xs @ Alloc_pages 1 # ys)" and p: "pages_of xs = p" and b: "b < length (hp_sizes h1)"
  shows "heap_inv (with_page h1 b p) (xs @ Small_page b # ys)"
proof -
  let ?bs = "hp_sizes h1 ! b" and ?ss = "xs @ Small_page b # ys"
  define h2 where "h2 = h1\<lparr>hp_words := page_words (hp_words h1) ?bs b p\<rparr>"
  note sz = inv_sizes [OF inv]
  have laid: "laid h1 (xs @ Alloc_pages 1 # ys)" using inv by (simp add: heap_inv_def heap_ok_def)
  have "length (hp_sizes h1) \<le> 60" using sz by (simp add: sizes_ok_def)
  then have b64: "b < 64" using b by simp
  have other: "hp_words h2 (page_addr q) = hp_words h1 (page_addr q)" if "q \<noteq> p" for q
    using page_words_other [OF sz b, of "page_addr q" p] that by (simp add: h2_def page_addr_def)
  have header: "hp_words h2 (page_addr p) = small_word b no_next" by (simp add: h2_def page_words_header)
  have lx: "layout (hp_words h2) 0 xs = layout (hp_words h1) 0 xs" by (rule layout_cong) (use p other in auto)
  have ly: "layout (hp_words h2) (p + 1) ys = layout (hp_words h1) (p + 1) ys" by (rule layout_cong) (use other in auto)
  have "seg_at (hp_words h2) p (Small_page b)"
    using small_word_parts(1,2) [OF b64, of no_next] header by simp
  then have l2: "laid h2 ?ss"
    using laid lx ly p by (auto simp: laid_def h2_def)
  have next': "boundary ?ss (hp_next_page h2)"
  proof -
    obtain vs ws where v: "xs @ Alloc_pages 1 # ys = vs @ ws" "pages_of vs = hp_next_page h1"
      using boundary_next [OF inv] by (auto simp: boundary_def)
    then consider (left) us where "xs = vs @ us" | (right) us where "vs = xs @ Alloc_pages 1 # us" "ys = us @ ws"
      by (auto simp: append_eq_append_conv2 append_eq_Cons_conv Cons_eq_append_conv)
    then show ?thesis
    proof cases
      case left
      then show ?thesis unfolding boundary_def using v(2)
        by (intro exI [of _ vs] exI [of _ "us @ Small_page b # ys"]) (simp add: h2_def)
    next
      case right
      then show ?thesis unfolding boundary_def using v(2)
        by (intro exI [of _ "xs @ Small_page b # us"] exI [of _ ws]) (simp add: h2_def)
    qed
  qed
  have "lists_ok h2 ?ss"
  proof (rule lists_ok_cong)
    show "lists_ok h1 (xs @ Alloc_pages 1 # ys)" using inv by (simp add: heap_inv_def)
    fix q c assume q: "page_is (xs @ Alloc_pages 1 # ys) q c"
    have "hx_ptype (hp_words h1 (page_addr q)) = PAGE_SMALL" using laid_header [OF laid q] by simp
    moreover have "hx_ptype (hp_words h1 (page_addr p)) = PAGE_ALLOC"
      using laid p alloc_word_fields(1) [of 1] by (simp add: laid_def)
    ultimately have "q \<noteq> p" by auto
    then show "page_is ?ss q c \<and> hp_words h2 (page_addr q) = hp_words h1 (page_addr q)"
      using q p other by auto
  qed (simp add: h2_def)
  then have inv2: "heap_inv h2 ?ss" using l2 next' sz by (simp add: heap_inv_def heap_ok_def h2_def)
  have b2: "b < length (hp_sizes h2)" using b by (simp add: h2_def)
  let ?new = "?bs\<lparr>hs_hint := Some (block_addr ?bs p 1)\<rparr>"
  have "heap_inv (h2\<lparr>hp_sizes := (hp_sizes h2)[b := ?new]\<rparr>) ?ss"
  proof (rule size_write_inv [OF inv2 b2])
    have "page_is ?ss p b" using p by simp
    moreover have "1 < hs_num_blocks ?bs" using sizes_ok_nth(3) [OF sz b] by simp
    ultimately show "hint_ok ?ss b ?new" by (fastforce simp: hint_ok_def)
    have "list_ok (hp_words h2) ?ss b ?bs" using inv2 b by (simp add: heap_inv_def lists_ok_def h2_def)
    then show "list_ok (hp_words h2) ?ss b ?new" by (simp add: list_ok_def)
  qed (simp_all add: h2_def)
  then show ?thesis by (simp add: with_page_def h2_def)
qed

lemma prepares_same:
  "prepares gc h h2 \<Longrightarrow> gc_keeps gc \<Longrightarrow> heap_inv h ss \<Longrightarrow>
    same_sizes h h2 \<and> hp_max_pages h2 = hp_max_pages h \<and> hp_num_pages h \<le> hp_num_pages h2"
proof (induction arbitrary: ss rule: prepares.induct)
  case (prepares_refl h)
  then show ?case by simp
next
  case (prepares_grow h h1 h2)
  obtain k where "grow_heap h = (Inr (), h\<lparr>hp_words := cleared (hp_words h) (hp_num_pages h) k, hp_num_pages := hp_num_pages h + k\<rparr>)"
    and inv: "heap_inv (h\<lparr>hp_words := cleared (hp_words h) (hp_num_pages h) k, hp_num_pages := hp_num_pages h + k\<rparr>) (ss @ replicate k Free_page)"
    by (rule grow_inv [OF prepares_grow.prems(2) prepares_grow.hyps(1)])
  then have "h1 = h\<lparr>hp_words := cleared (hp_words h) (hp_num_pages h) k, hp_num_pages := hp_num_pages h + k\<rparr>"
    using prepares_grow.hyps(2) by simp
  then show ?case using prepares_grow.IH [OF prepares_grow.prems(1)] inv by fastforce
next
  case (prepares_gc c h h1 h2)
  note k = gc_keepsD [OF prepares_gc.prems prepares_gc.hyps(1)]
  obtain ss' where "heap_inv h1 ss'" using k(2) by blast
  then show ?case using prepares_gc.IH [OF prepares_gc.prems(1)] k(3-5) by simp
qed

lemma same_sizesD:
  assumes "same_sizes h h'" and "b < length (hp_sizes h)"
  shows "b < length (hp_sizes h')" "hs_size (hp_sizes h' ! b) = hs_size (hp_sizes h ! b)"
    "hs_num_blocks (hp_sizes h' ! b) = hs_num_blocks (hp_sizes h ! b)"
proof -
  show l: "b < length (hp_sizes h')" using assms by (metis length_map)
  have "map (\<lambda>b. (hs_size b, hs_num_blocks b)) (hp_sizes h') ! b = map (\<lambda>b. (hs_size b, hs_num_blocks b)) (hp_sizes h) ! b"
    using assms(1) by simp
  then show "hs_size (hp_sizes h' ! b) = hs_size (hp_sizes h ! b)" "hs_num_blocks (hp_sizes h' ! b) = hs_num_blocks (hp_sizes h ! b)"
    using l assms(2) by simp_all
qed


lemma emptied_length: "b < length (hp_sizes h) \<Longrightarrow> b < length (hp_sizes (emptied h b))"
  by (simp add: emptied_def)

lemma emptied_inv:
  assumes "heap_inv h ss" and "b < length (hp_sizes h)"
  shows "heap_inv (emptied h b) ss"
  unfolding emptied_def
proof (rule size_write_inv [OF assms])
  let ?bs = "(hp_sizes h ! b)\<lparr>hs_pages := None, hs_hint := None\<rparr>"
  show "hint_ok ss b ?bs" by (simp add: hint_ok_def)
  show "list_ok (hp_words h) ss b ?bs" unfolding list_ok_def by (rule exI [of _ "[]"]) simp
qed simp_all

section \<open>Allocating a block\<close>

lemma list_pages:
  assumes "heap_inv h ss" and "b < length (hp_sizes h)" and "chain (hp_words h) (hs_pages (hp_sizes h ! b)) ps"
  shows "distinct ps" "\<forall>p \<in> set ps. page_is ss p b" "length ps \<le> hp_num_pages h"
proof -
  obtain qs where qs: "chain (hp_words h) (hs_pages (hp_sizes h ! b)) qs" "distinct qs" "\<forall>p \<in> set qs. page_is ss p b"
    using assms(1,2) unfolding heap_inv_def lists_ok_def list_ok_def by blast
  have "qs = ps" by (rule chain_unique [OF qs(1) assms(3)])
  then show ps: "distinct ps" "\<forall>p \<in> set ps. page_is ss p b" using qs by simp_all
  have "set ps \<subseteq> {..<hp_num_pages h}" using inv_page(1) [OF assms(1)] ps(2) by blast
  then have "card (set ps) \<le> hp_num_pages h" by (metis card_lessThan card_mono finite_lessThan)
  then show "length ps \<le> hp_num_pages h" using distinct_card [OF ps(1)] by simp
qed

text \<open>The blocks that are tried are blocks of the size.\<close>

definition block_of :: "heap \<Rightarrow> segment list \<Rightarrow> nat \<Rightarrow> nat \<Rightarrow> bool" where
  "block_of h ss b a \<longleftrightarrow> (\<exists>p k. page_is ss p b \<and> k < hs_num_blocks (hp_sizes h ! b) \<and> a = block_addr (hp_sizes h ! b) p k)"

lemma tried_blocks:
  assumes inv: "heap_inv h ss" and b: "b < length (hp_sizes h)" and ch: "chain (hp_words h) (hs_pages (hp_sizes h ! b)) ps"
    and a: "a \<in> set (hint_blocks (hp_sizes h ! b) @ list_blocks (hp_sizes h ! b) ps)"
  shows "block_of h ss b a"
proof (cases "a \<in> set (list_blocks (hp_sizes h ! b) ps)")
  case True
  then show ?thesis using list_pages(2) [OF inv b ch] by (fastforce simp: list_blocks_def block_of_def)
next
  case False
  then have a: "a \<in> set (hint_blocks (hp_sizes h ! b))" using a by simp
  then obtain x where x: "hs_hint (hp_sizes h ! b) = Some x"
    by (cases "hs_hint (hp_sizes h ! b)") (simp_all add: hint_blocks_def)
  then obtain p k where pk: "page_is ss p b" "k < hs_num_blocks (hp_sizes h ! b)" "x = block_addr (hp_sizes h ! b) p k"
    using inv b unfolding heap_inv_def lists_ok_def hint_ok_def by blast
  have "hint_blocks (hp_sizes h ! b) = map (block_addr (hp_sizes h ! b) p) [k..<hs_num_blocks (hp_sizes h ! b)]"
    by (rule hint_blocks_at [OF inv_sizes [OF inv] b pk(2)]) (use x pk(3) in simp_all)
  then show ?thesis using a pk(1) by (fastforce simp: block_of_def)
qed

lemma alloc_small_block_run:
  assumes inv: "heap_inv h ss" and b: "b < length (hp_sizes h)" and ch: "chain (hp_words h) (hs_pages (hp_sizes h ! b)) ps"
  shows "outcome gc h b ss (hint_blocks (hp_sizes h ! b) @ list_blocks (hp_sizes h ! b) ps) (alloc_small_block gc b h)"
proof -
  let ?n = "hs_num_blocks (hp_sizes h ! b)"
  note s = sizes_ok_nth [OF inv_sizes [OF inv] b]
  have "?n * 8 \<le> ?n * hs_size (hp_sizes h ! b)" using s(1) by simp
  then have n: "?n < 4095" using s(4) by linarith
  have "length (hint_blocks (hp_sizes h ! b)) \<le> ?n" by (simp add: hint_blocks_def split: option.splits)
  moreover have "length ps * (?n + 1) \<le> hp_num_pages h * 4096"
    using list_pages(3) [OF inv b ch] n by (intro mult_le_mono) simp_all
  ultimately have "length (hint_blocks (hp_sizes h ! b)) + length ps * (?n + 1) < (hp_num_pages h + 1) * page_size"
    using n by simp
  from small_loop_run [OF inv b ch this]
  show ?thesis by (simp add: alloc_small_block_def)
qed

lemma new_page_outcome:
  assumes gc: "gc_keeps gc" and inv: "heap_inv h ss" and b: "b < length (hp_sizes h)"
  shows "case new_small_page gc b h of
      (Inr a, h') \<Rightarrow> \<exists>p h1 ss'. found gc 1 h p h1 \<and> a = block_addr (hp_sizes h ! b) p 0 \<and> h' = with_page h1 b p
        \<and> heap_inv h' ss' \<and> page_is ss' p b
    | (Inl (Exn e), h') \<Rightarrow> not_found gc h h' | (Inl (Fault f), h') \<Rightarrow> False"
proof -
  have r: "runs (alloc_pages gc 1) h (found gc 1 h) (not_found gc h) (\<lambda>_. False)"
    by (rule alloc_pages_runs [OF gc _ _ inv]) simp_all
  obtain q h1 where run: "alloc_pages gc 1 h = (q, h1)" by fastforce
  consider (exn) e where "q = Inl (Exn e)" | (fault) f where "q = Inl (Fault f)" | (got) p where "q = Inr p"
    by (metis failure.exhaust sum.exhaust)
  then show ?thesis
  proof cases
    case exn
    then have "not_found gc h h1" using r run by (simp add: runs_def)
    then show ?thesis using run exn by (simp add: new_small_page_def)
  next
    case fault
    then show ?thesis using r run by (simp add: runs_def)
  next
    case got
    then have f: "found gc 1 h p h1" using r run by (simp add: runs_def)
    then obtain h0 xs ys where h0: "prepares gc h h0" "pages_of xs = p" "heap_inv h1 (xs @ Alloc_pages 1 # ys)"
      "h1 = h0\<lparr>hp_words := taken (hp_words h0) p 1 1, hp_next_page := p + 1\<rparr>"
      unfolding found_def by blast
    have "same_sizes h h1" using prepares_same [OF h0(1) gc inv] h0(4) by simp
    note same = same_sizesD [OF this b]
    have p: "p < hp_max_pages h1" using inv_pages [OF h0(3)] h0(2) by simp
    have "new_small_page gc b h = (Inr (block_addr (hp_sizes h1 ! b) p 0), with_page h1 b p)"
      by (rule new_page_run [OF h0(3) same(1) p]) (use run got in simp)
    then have new: "new_small_page gc b h = (Inr (block_addr (hp_sizes h ! b) p 0), with_page h1 b p)"
      by (simp add: block_addr_def)
    have "page_is (xs @ Small_page b # ys) p b" using h0(2) by simp
    with f with_page_inv [OF h0(3,2) same(1)] show ?thesis
      unfolding new prod.case sum.case by blast
  qed
qed

text \<open>
  C19: A small block is taken from a page of its size: the first block that is free behind the hint, or
  else in the pages of the list; its word, the hint and the list are all that changes. Only when none
  of them is free a page is allocated, and its first block returned. The loop ends, touches no word
  outside the heap, and keeps the invariant; its errors are those of the allocation of the page.
\<close>

theorem alloc_small_block_correct:
  assumes "gc_keeps gc" and "heap_inv h ss" and "b < length (hp_sizes h)"
    and "chain (hp_words h) (hs_pages (hp_sizes h ! b)) ps"
  shows "case find (\<lambda>a. hp_words h a = BLOCK_FREE) (hint_blocks (hp_sizes h ! b) @ list_blocks (hp_sizes h ! b) ps) of
      Some a \<Rightarrow> fst (alloc_small_block gc b h) = Inr a \<and> block_of h ss b a \<and> took h b ss a (snd (alloc_small_block gc b h))
    | None \<Rightarrow> (case alloc_small_block gc b h of
        (Inr a, h') \<Rightarrow> \<exists>p h1 ss'. found gc 1 (emptied h b) p h1 \<and> a = block_addr (hp_sizes h ! b) p 0 \<and> h' = with_page h1 b p
          \<and> heap_inv h' ss' \<and> page_is ss' p b
      | (Inl (Exn e), h') \<Rightarrow> not_found gc (emptied h b) h' | (Inl (Fault f), h') \<Rightarrow> False)"
proof (cases "find (\<lambda>a. hp_words h a = BLOCK_FREE) (hint_blocks (hp_sizes h ! b) @ list_blocks (hp_sizes h ! b) ps)")
  case None
  have "alloc_small_block gc b h = new_small_page gc b (emptied h b)"
    using alloc_small_block_run [OF assms(2-4), of gc] None by (simp add: outcome_def)
  moreover have "block_addr (hp_sizes (emptied h b) ! b) = block_addr (hp_sizes h ! b)"
    using assms(3) by (simp add: emptied_def block_addr_def fun_eq_iff)
  ultimately show ?thesis
    using new_page_outcome [OF assms(1) emptied_inv [OF assms(2,3)] emptied_length [OF assms(3)]] None
    by (simp only: option.case)
next
  case (Some a)
  then have "a \<in> set (hint_blocks (hp_sizes h ! b) @ list_blocks (hp_sizes h ! b) ps)"
    unfolding find_Some_iff by (metis nth_mem)
  from tried_blocks [OF assms(2-4) this] show ?thesis
    using alloc_small_block_run [OF assms(2-4), of gc] Some by (simp add: outcome_def)
qed

text \<open>
  The page made for a size has the type and the index of the size in its info word; its first
  block is allocated, all the others are free, and the words of the other pages are as they were.
\<close>

theorem new_small_page_ready:
  assumes "heap_inv h1 ss" and "b < length (hp_sizes h1)" and "p < hp_max_pages h1"
    and "alloc_pages gc 1 h = (Inr p, h1)"
  shows "fst (new_small_page gc b h) = Inr (block_addr (hp_sizes h1 ! b) p 0) \<and>
    (let m = hp_words (snd (new_small_page gc b h)) in
      hx_ptype (m (page_addr p)) = PAGE_SMALL \<and> unat (hx_bsi (m (page_addr p))) = b
      \<and> map (m \<circ> block_addr (hp_sizes h1 ! b) p) [0..<hs_num_blocks (hp_sizes h1 ! b)]
          = BLOCK_ALLOC # replicate (hs_num_blocks (hp_sizes h1 ! b) - 1) BLOCK_FREE
      \<and> {a. m a \<noteq> hp_words h1 a} \<subseteq> {a. a div page_size = p})"
proof -
  let ?bs = "hp_sizes h1 ! b" and ?m = "page_words (hp_words h1) (hp_sizes h1 ! b) b p"
  note sz = inv_sizes [OF assms(1)]
  have "length (hp_sizes h1) \<le> 60" using sz by (simp add: sizes_ok_def)
  then have b64: "b < 64" using assms(2) by simp
  have n: "0 < hs_num_blocks ?bs" using sizes_ok_nth(3) [OF sz assms(2)] by simp
  have "map (?m \<circ> block_addr ?bs p) [0..<hs_num_blocks ?bs] = BLOCK_ALLOC # replicate (hs_num_blocks ?bs - 1) BLOCK_FREE"
    by (rule nth_equalityI) (use n page_words_blocks [OF sz assms(2)] in \<open>auto simp: nth_Cons'\<close>)
  moreover have "{a. ?m a \<noteq> hp_words h1 a} \<subseteq> {a. a div page_size = p}"
    using page_words_other [OF sz assms(2)] by blast
  moreover have "hx_ptype (?m (page_addr p)) = PAGE_SMALL \<and> unat (hx_bsi (?m (page_addr p))) = b"
    using small_word_parts(1,2) [OF b64, of no_next] by (simp add: page_words_header)
  ultimately show ?thesis
    unfolding Let_def new_page_run [OF assms] by (simp add: with_page_def)
qed


section \<open>Witnesses\<close>

text \<open>The heap of sixteen free pages, with the first page allocated.\<close>

definition one_page :: heap where
  "one_page = small_heap\<lparr>hp_words := (hp_words small_heap)(page_addr 0 := alloc_word 1), hp_next_page := 1\<rparr>"

lemma small_heap_sizes: "0 < length (hp_sizes small_heap)"
  by (simp add: small_heap_def gen_block_sizes_def roundup_first)

lemma small_heap_first: "hp_sizes small_heap ! 0 = \<lparr>hs_pages = None, hs_hint = None, hs_size = 8, hs_num_blocks = 511\<rparr>"
  by (simp add: small_heap_def gen_block_sizes_def roundup_first)

lemma alloc_one_small_heap: "alloc_pages (\<lambda>_. ret ()) 1 small_heap = (Inr 0, one_page)"
proof -
  have "alloc_loop (Suc 107) (\<lambda>_. ret ()) 1 10 0 0 small_heap = (Inr 0, one_page)"
    unfolding alloc_loop.simps by (simp add: small_heap_def one_page_def ret_apply)
  moreover have "alloc_pages (\<lambda>_. ret ()) 1 small_heap = alloc_loop (Suc 107) (\<lambda>_. ret ()) 1 10 0 0 small_heap"
    by (simp add: alloc_pages_def) (simp add: small_heap_def)
  ultimately show ?thesis by simp
qed

lemma one_page_inv: "\<exists>ss. heap_inv one_page ss"
  using alloc_pages_runs [OF gc_keeps_nothing _ _ small_heap_inv, of 1] alloc_one_small_heap
  by (auto simp: runs_def found_def)

lemma alloc_small_block_correct_witness:
  "\<exists>h' p h1 ss'. alloc_small_block (\<lambda>_. ret ()) 0 small_heap = (Inr 4, h')
     \<and> found (\<lambda>_. ret ()) 1 (emptied small_heap 0) p h1 \<and> h' = with_page h1 0 p \<and> heap_inv h' ss' \<and> page_is ss' p 0"
proof -
  have ch: "chain (hp_words small_heap) (hs_pages (hp_sizes small_heap ! 0)) []" by (simp add: small_heap_first)
  have none: "find (\<lambda>a. hp_words small_heap a = BLOCK_FREE)
      (hint_blocks (hp_sizes small_heap ! 0) @ list_blocks (hp_sizes small_heap ! 0) []) = None"
    by (simp add: small_heap_first hint_blocks_def list_blocks_def)
  have empty: "emptied small_heap 0 = small_heap"
  proof -
    have "(hp_sizes small_heap ! 0)\<lparr>hs_pages := None, hs_hint := None\<rparr> = hp_sizes small_heap ! 0"
      by (rule no_lists) (simp_all add: small_heap_first)
    then show ?thesis unfolding emptied_def by (simp only: list_update_id) simp
  qed
  obtain ss where inv: "heap_inv one_page ss" using one_page_inv by blast
  have "new_small_page (\<lambda>_. ret ()) 0 small_heap = (Inr (block_addr (hp_sizes one_page ! 0) 0 0), with_page one_page 0 0)"
    by (rule new_page_run [OF inv]) (use small_heap_sizes alloc_one_small_heap in \<open>simp_all add: one_page_def small_heap_def\<close>)
  then have run: "alloc_small_block (\<lambda>_. ret ()) 0 small_heap = (Inr 4, with_page one_page 0 0)"
    using alloc_small_block_run [OF small_heap_inv small_heap_sizes ch, of "\<lambda>_. ret ()"] none empty
    by (simp add: outcome_def block_addr_def page_addr_def block_offset_def howmany_def)
  from alloc_small_block_correct [OF gc_keeps_nothing small_heap_inv small_heap_sizes ch]
  have "\<exists>p h1 ss'. found (\<lambda>_. ret ()) 1 (emptied small_heap 0) p h1 \<and> 4 = block_addr (hp_sizes small_heap ! 0) p 0
      \<and> with_page one_page 0 0 = with_page h1 0 p \<and> heap_inv (with_page one_page 0 0) ss' \<and> page_is ss' p 0"
    unfolding none run option.case prod.case sum.case .
  then show ?thesis using run by blast
qed

lemma new_small_page_ready_witness:
  "fst (new_small_page (\<lambda>_. ret ()) 0 small_heap) = Inr (block_addr (hp_sizes one_page ! 0) 0 0) \<and>
    (let m = hp_words (snd (new_small_page (\<lambda>_. ret ()) 0 small_heap)) in
      hx_ptype (m (page_addr 0)) = PAGE_SMALL \<and> unat (hx_bsi (m (page_addr 0))) = 0
      \<and> map (m \<circ> block_addr (hp_sizes one_page ! 0) 0) [0..<hs_num_blocks (hp_sizes one_page ! 0)]
          = BLOCK_ALLOC # replicate (hs_num_blocks (hp_sizes one_page ! 0) - 1) BLOCK_FREE
      \<and> {a. m a \<noteq> hp_words one_page a} \<subseteq> {a. a div page_size = 0})"
proof -
  obtain ss where inv: "heap_inv one_page ss" using one_page_inv by blast
  have "0 < length (hp_sizes one_page)" "0 < hp_max_pages one_page"
    using small_heap_sizes by (simp_all add: one_page_def small_heap_def)
  from new_small_page_ready [OF inv this alloc_one_small_heap] show ?thesis .
qed

end
