(* ===== verification/Vm_State.thy ===== *)
theory Vm_State
  imports Cf_Types
begin

text \<open>
  What the interpreter and the tests of types work on: the resolved program (\<open>jc_defs.h\<close>), the memory and
  the thread, and the services of the other parts of the virtual machine.
\<close>

section \<open>The program\<close>

text \<open>
  Types, methods and fields are at addresses. The tables that a type gets when it is derived and
  resolved are taken as given; the flags that say whether it has been are in the state. A list that
  ends with a null pointer is a list. No chain of superclasses is longer than \<open>pr_depth\<close>, which is the
  fuel of the loops over them.
\<close>

record jtype =
  ty_name :: cstr
  ty_superclass :: u32
  ty_access :: u16
  ty_interfaces :: "u32 list"
  ty_imethods :: "u32 list option list"
  ty_dimensions :: int
  ty_base :: u32
  ty_element :: u32
  ty_hash :: u64
  ty_instanceof :: "u32 list option list"
  ty_class_fields :: u32
  ty_mtable :: "u32 list"
  ty_instance :: u32
  ty_loader :: u32
  ty_fields :: "u32 list"
  ty_methods :: "u32 list"

record jmethod =
  me_name :: cstr
  me_signature :: cstr
  me_class :: u32
  me_access :: u16
  me_param_ptypes :: "u8 list"
  me_num_parameters :: nat
  me_signature_hash :: u64
  me_vtable_index :: nat

record jfield =
  fi_name :: cstr
  fi_access :: u16
  fi_signature :: cstr
  fi_class :: u32
  fi_type :: u32
  fi_offset :: u32

record program =
  pr_types :: "u32 \<Rightarrow> jtype option"
  pr_methods :: "u32 \<Rightarrow> jmethod option"
  pr_fields :: "u32 \<Rightarrow> jfield option"
  pr_Object :: u32
  pr_Cloneable :: u32
  pr_Serializable :: u32
  pr_depth :: nat

abbreviation null :: u32 where "null \<equiv> 0"

abbreviation TYPE_MASK :: u16 where "TYPE_MASK \<equiv> 0x000f"
abbreviation TYPE_ARRAY :: u16 where "TYPE_ARRAY \<equiv> 0x0010"
abbreviation TYPE_INIT_ERROR :: u16 where "TYPE_INIT_ERROR \<equiv> 0x0080"
abbreviation TYPE_RESOLVED :: u16 where "TYPE_RESOLVED \<equiv> 0x0400"
abbreviation TYPE_INITIALIZED :: u16 where "TYPE_INITIALIZED \<equiv> 0x8000"
abbreviation ACC_INTERP :: u16 where "ACC_INTERP \<equiv> 0x2000"

text \<open>\<open>_JC_FLG_TEST\<close> of the flags, and the primitive type or \<open>_JC_TYPE_REFERENCE\<close> in them.\<close>

definition flg_test :: "u16 \<Rightarrow> u16 \<Rightarrow> bool" where
  "flg_test flags flag \<longleftrightarrow> flags AND flag \<noteq> 0"

definition type_of_flags :: "u16 \<Rightarrow> u8" where
  "type_of_flags flags = ucast (flags AND TYPE_MASK)"

text \<open>\<open>_JC_LW_EXTRACT(lockword, TYPE)\<close> and \<open>_JC_LW_TEST(lockword, ARRAY)\<close>\<close>

definition lw_type :: "u32 \<Rightarrow> u8" where
  "lw_type w = ucast (drop_bit 1 (w AND 0x0000001e))"

definition lw_array :: "u32 \<Rightarrow> bool" where
  "lw_array w \<longleftrightarrow> w AND 0x00000020 \<noteq> 0"

text \<open>\<open>_jc_dword_type\<close>\<close>

definition dword_type :: "u8 \<Rightarrow> bool" where
  "dword_type t \<longleftrightarrow> t = JC_TYPE_LONG \<or> t = JC_TYPE_DOUBLE"

section \<open>Interpreted code\<close>

record interp_lookupswitch =
  sw_default :: nat
  sw_pairs :: "(u32 \<times> nat) list"

record interp_tableswitch =
  tw_low :: u32
  tw_high :: u32
  tw_default :: nat
  tw_targets :: "nat list"

text \<open>The union \<open>_jc_insn_info\<close>; a \<open>_jc_value\<close> is its eight bytes.\<close>

datatype iinfo =
    I_none
  | I_invoke u32 nat
  | I_field u32
  | I_iinc nat u32
  | I_multianewarray u32 nat
  | I_type u32
  | I_lookupswitch interp_lookupswitch
  | I_tableswitch interp_tableswitch
  | I_target nat
  | I_local nat
  | I_constant u64
  | I_utf8 cstr

record interp_trap =
  it_start :: nat
  it_end :: nat
  it_target :: nat
  it_type :: u32

record icode =
  co_opcodes :: "u8 list"
  co_info :: "iinfo list"
  co_traps :: "interp_trap list"
  co_linemaps :: "(nat \<times> nat) list"
  co_max_stack :: nat
  co_max_locals :: nat
  co_num_params2 :: nat

section \<open>The state of a thread\<close>

text \<open>
  The bytes of memory that are there, the flags of the types, the code of the methods, the return value
  and the pending exception of the thread, the methods of its Java stack, and what the services keep.
\<close>

record 'e world =
  w_mem :: "u32 \<Rightarrow> u8 option"
  w_flags :: "u32 \<Rightarrow> u16"
  w_code :: "u32 \<Rightarrow> icode option"
  w_retval :: u64
  w_pending :: u32
  w_java_stack :: "u32 list"
  w_rest :: 'e

text \<open>The floating point unit works on bit patterns.\<close>

record fpu =
  fp_add32 :: "u32 \<Rightarrow> u32 \<Rightarrow> u32"
  fp_sub32 :: "u32 \<Rightarrow> u32 \<Rightarrow> u32"
  fp_mul32 :: "u32 \<Rightarrow> u32 \<Rightarrow> u32"
  fp_div32 :: "u32 \<Rightarrow> u32 \<Rightarrow> u32"
  fp_neg32 :: "u32 \<Rightarrow> u32"
  fp_less32 :: "u32 \<Rightarrow> u32 \<Rightarrow> bool"
  fp_equal32 :: "u32 \<Rightarrow> u32 \<Rightarrow> bool"
  fp_trunc32 :: "u32 \<Rightarrow> int"
  fp_of_int32 :: "int \<Rightarrow> u32"
  fp_add64 :: "u64 \<Rightarrow> u64 \<Rightarrow> u64"
  fp_sub64 :: "u64 \<Rightarrow> u64 \<Rightarrow> u64"
  fp_mul64 :: "u64 \<Rightarrow> u64 \<Rightarrow> u64"
  fp_div64 :: "u64 \<Rightarrow> u64 \<Rightarrow> u64"
  fp_fmod64 :: "u64 \<Rightarrow> u64 \<Rightarrow> u64"
  fp_neg64 :: "u64 \<Rightarrow> u64"
  fp_less64 :: "u64 \<Rightarrow> u64 \<Rightarrow> bool"
  fp_equal64 :: "u64 \<Rightarrow> u64 \<Rightarrow> bool"
  fp_trunc64 :: "u64 \<Rightarrow> int"
  fp_of_int64 :: "int \<Rightarrow> u64"
  fp_widen :: "u32 \<Rightarrow> u64"
  fp_narrow :: "u64 \<Rightarrow> u32"

text \<open>
  The functions of other parts of the virtual machine that the interpreter calls. A status is a truth
  value, with an exception posted when it is false; a null pointer returned also says so. Memory from
  the stack has some words in it. \<open>sv_clip\<close> clips the top of the Java stack where compiled code is on
  top, and says whether it did.
\<close>

record 'e vm =
  vm_program :: program
  vm_fpu :: fpu
  sv_stack_low :: "'e world \<Rightarrow> bool"
  sv_alloca :: "nat \<Rightarrow> 'e world \<Rightarrow> bool"
  sv_garbage :: "'e world \<Rightarrow> nat \<Rightarrow> u32"
  sv_post :: "vmex \<Rightarrow> 'e world \<Rightarrow> 'e world"
  sv_lock :: "u32 \<Rightarrow> 'e world \<Rightarrow> bool \<times> 'e world"
  sv_unlock :: "u32 \<Rightarrow> 'e world \<Rightarrow> bool \<times> 'e world"
  sv_resolve :: "u32 \<Rightarrow> 'e world \<Rightarrow> bool \<times> 'e world"
  sv_initialize :: "u32 \<Rightarrow> 'e world \<Rightarrow> bool \<times> 'e world"
  sv_thread_check :: "'e world \<Rightarrow> bool \<times> 'e world"
  sv_new_object :: "u32 \<Rightarrow> 'e world \<Rightarrow> u32 \<times> 'e world"
  sv_new_array :: "u32 \<Rightarrow> u32 \<Rightarrow> 'e world \<Rightarrow> u32 \<times> 'e world"
  sv_new_multiarray :: "u32 \<Rightarrow> u32 list \<Rightarrow> 'e world \<Rightarrow> u32 \<times> 'e world"
  sv_intern :: "cstr \<Rightarrow> 'e world \<Rightarrow> u32 \<times> 'e world"
  sv_implicit_ref :: "u32 \<Rightarrow> u32 \<Rightarrow> 'e world \<Rightarrow> bool \<times> 'e world"
  sv_clip :: "'e world \<Rightarrow> bool \<times> 'e world"
  sv_unclip :: "'e world \<Rightarrow> 'e world"
  sv_native :: "u32 \<Rightarrow> u32 list \<Rightarrow> 'e world \<Rightarrow> bool \<times> 'e world"
  sv_jcni :: "u32 \<Rightarrow> u32 \<Rightarrow> u32 list \<Rightarrow> 'e world \<Rightarrow> bool \<times> 'e world"

section \<open>Memory\<close>

text \<open>Values are stored with the low byte first.\<close>

fun load_bytes :: "(u32 \<Rightarrow> u8 option) \<Rightarrow> u32 \<Rightarrow> nat \<Rightarrow> u8 list option" where
  "load_bytes m a 0 = Some []"
| "load_bytes m a (Suc n) = (case m a of None \<Rightarrow> None | Some b \<Rightarrow> map_option ((#) b) (load_bytes m (a + 1) n))"

fun store_bytes :: "(u32 \<Rightarrow> u8 option) \<Rightarrow> u32 \<Rightarrow> u8 list \<Rightarrow> (u32 \<Rightarrow> u8 option) option" where
  "store_bytes m a [] = Some m"
| "store_bytes m a (b # bs) = (case m a of None \<Rightarrow> None | Some _ \<Rightarrow> store_bytes (m(a \<mapsto> b)) (a + 1) bs)"

fun of_bytes :: "u8 list \<Rightarrow> u64" where
  "of_bytes [] = 0"
| "of_bytes (b # bs) = ucast b OR push_bit 8 (of_bytes bs)"

fun to_bytes :: "nat \<Rightarrow> u64 \<Rightarrow> u8 list" where
  "to_bytes 0 v = []"
| "to_bytes (Suc n) v = ucast v # to_bytes n (drop_bit 8 v)"

definition mem_load :: "nat \<Rightarrow> u32 \<Rightarrow> ('e world, u64) mon" where
  "mem_load n a = (\<lambda>w. case load_bytes (w_mem w) a n of
     None \<Rightarrow> (Inl (Fault Bad_address), w) | Some bs \<Rightarrow> (Inr (of_bytes bs), w))"

definition mem_store :: "nat \<Rightarrow> u32 \<Rightarrow> u64 \<Rightarrow> ('e world, unit) mon" where
  "mem_store n a v = (\<lambda>w. case store_bytes (w_mem w) a (to_bytes n v) of
     None \<Rightarrow> (Inl (Fault Bad_address), w) | Some m \<Rightarrow> (Inr (), w\<lparr>w_mem := m\<rparr>))"

text \<open>The head of an object, and the length of an array.\<close>

definition obj_lockword :: "u32 \<Rightarrow> ('e world, u32) mon" where
  "obj_lockword a = bindM (mem_load 4 a) (\<lambda>v. ret (ucast v))"

definition obj_type :: "u32 \<Rightarrow> ('e world, u32) mon" where
  "obj_type a = bindM (mem_load 4 (a + 4)) (\<lambda>v. ret (ucast v))"

definition array_length :: "u32 \<Rightarrow> ('e world, u32) mon" where
  "array_length a = bindM (mem_load 4 (a + 8)) (\<lambda>v. ret (ucast v))"

text \<open>What is at an address of the program.\<close>

definition the_type :: "'e vm \<Rightarrow> u32 \<Rightarrow> ('e world, jtype) mon" where
  "the_type vm a = (case pr_types (vm_program vm) a of None \<Rightarrow> fails (Fault Bad_address) | Some t \<Rightarrow> ret t)"

definition the_method :: "'e vm \<Rightarrow> u32 \<Rightarrow> ('e world, jmethod) mon" where
  "the_method vm a = (case pr_methods (vm_program vm) a of None \<Rightarrow> fails (Fault Bad_address) | Some m \<Rightarrow> ret m)"

definition the_field :: "'e vm \<Rightarrow> u32 \<Rightarrow> ('e world, jfield) mon" where
  "the_field vm a = (case pr_fields (vm_program vm) a of None \<Rightarrow> fails (Fault Bad_address) | Some f \<Rightarrow> ret f)"

definition type_flags :: "u32 \<Rightarrow> ('e world, u16) mon" where
  "type_flags a = gets (\<lambda>w. w_flags w a)"

text \<open>A service that returns a status or a pointer.\<close>

definition call :: "('e world \<Rightarrow> 'a \<times> 'e world) \<Rightarrow> ('e world, 'a) mon" where
  "call f = (\<lambda>w. (Inr (fst (f w)), snd (f w)))"

end
