(* ===== verification/Instance.thy ===== *)
theory Instance
  imports Vm_State
begin

text \<open>
  The tests of types of \<open>libjc/instance.c\<close>: whether a value of one type can be assigned to a variable of
  another, against the rules of the Java language, and whether an object is of a class.
\<close>

section \<open>Operations\<close>

definition type_resolved :: "'e vm \<Rightarrow> u32 \<Rightarrow> ('e world, bool) mon" where
  "type_resolved vm a = bindM (type_flags a) (\<lambda>f.
     if flg_test f TYPE_RESOLVED then ret True else call (sv_resolve vm a))"

definition array_super :: "'e vm \<Rightarrow> u32 \<Rightarrow> bool" where
  "array_super vm to \<longleftrightarrow> to = pr_Object (vm_program vm) \<or> to = pr_Cloneable (vm_program vm) \<or> to = pr_Serializable (vm_program vm)"

definition in_instanceof_table :: "'e vm \<Rightarrow> u32 \<Rightarrow> u32 \<Rightarrow> ('e world, int) mon" where
  "in_instanceof_table vm from to =
     bindM (the_type vm to) (\<lambda>tt. bindM (the_type vm from) (\<lambda>tf.
     bindM (liftM (load (ty_instanceof tf) (unat (ty_hash tt AND 127)))) (\<lambda>entry. case entry of
       None \<Rightarrow> ret 0
     | Some types \<Rightarrow> ret (if to \<in> set types then 1 else 0))))"

text \<open>From the test of \<open>to\<close> for an array type.\<close>

definition assignable_base :: "'e vm \<Rightarrow> u32 \<Rightarrow> u32 \<Rightarrow> ('e world, int) mon" where
  "assignable_base vm from to =
     bindM (type_flags from) (\<lambda>ff. bindM (type_flags to) (\<lambda>ft.
     if flg_test ft TYPE_ARRAY then ret 0
     else if ff AND TYPE_MASK \<noteq> ft AND TYPE_MASK then ret 0
     else if type_of_flags ff \<noteq> JC_TYPE_REFERENCE then ret 1
     else bindM (type_resolved vm from) (\<lambda>ok. if \<not> ok then ret (-1) else in_instanceof_table vm from to)))"

definition assignable_types :: "'e vm \<Rightarrow> u32 \<Rightarrow> u32 \<Rightarrow> ('e world, int) mon" where
  "assignable_types vm from to =
     bindM (type_flags from) (\<lambda>ff. bindM (type_flags to) (\<lambda>ft.
     if flg_test ff TYPE_ARRAY then
       bindM (the_type vm from) (\<lambda>tf. bindM (the_type vm to) (\<lambda>tt.
       if flg_test ft TYPE_ARRAY \<and> ty_dimensions tt < ty_dimensions tf then ret (if array_super vm (ty_base tt) then 1 else 0)
       else if \<not> flg_test ft TYPE_ARRAY then ret (if array_super vm to then 1 else 0)
       else assignable_base vm (ty_base tf) (ty_base tt)))
     else assignable_base vm from to))"

definition assignable_from :: "'e vm \<Rightarrow> u32 \<Rightarrow> u32 \<Rightarrow> ('e world, int) mon" where
  "assignable_from vm from to =
     bindM (type_resolved vm from) (\<lambda>ok. if \<not> ok then ret (-1)
     else bindM (type_resolved vm to) (\<lambda>ok. if \<not> ok then ret (-1)
     else if from = to then ret 1
     else assignable_types vm from to))"

definition instance_of :: "'e vm \<Rightarrow> u32 \<Rightarrow> u32 \<Rightarrow> ('e world, int) mon" where
  "instance_of vm obj type =
     (if obj = null then ret 0 else bindM (obj_type obj) (\<lambda>t. assignable_from vm t type))"

fun super_loop :: "nat \<Rightarrow> 'e vm \<Rightarrow> u32 \<Rightarrow> u32 \<Rightarrow> ('e world, bool) mon" where
  "super_loop 0 vm t type = fails (Fault Out_of_fuel)"
| "super_loop (Suc n) vm t type =
     (if t = null then ret False
      else if t = type then ret True
      else bindM (the_type vm t) (\<lambda>r. super_loop n vm (ty_superclass r) type))"

definition subclass_of :: "'e vm \<Rightarrow> u32 \<Rightarrow> u32 \<Rightarrow> ('e world, bool) mon" where
  "subclass_of vm obj type = bindM (obj_type obj) (\<lambda>t. super_loop (pr_depth (vm_program vm) + 1) vm t type)"

section \<open>The rules of the language\<close>

text \<open>Subtypes of classes and interfaces, by the declarations.\<close>

inductive subtype :: "program \<Rightarrow> u32 \<Rightarrow> u32 \<Rightarrow> bool" for P :: program where
  subtype_refl: "subtype P t t"
| subtype_class: "pr_types P t = Some r \<Longrightarrow> ty_superclass r \<noteq> null \<Longrightarrow> subtype P (ty_superclass r) u \<Longrightarrow> subtype P t u"
| subtype_interface: "pr_types P t = Some r \<Longrightarrow> i \<in> set (ty_interfaces r) \<Longrightarrow> subtype P i u \<Longrightarrow> subtype P t u"

text \<open>The dimensions of a type and the type below them.\<close>

definition dims :: "'e vm \<Rightarrow> 'e world \<Rightarrow> u32 \<Rightarrow> nat" where
  "dims vm w t = (if flg_test (w_flags w t) TYPE_ARRAY then (case pr_types (vm_program vm) t of Some r \<Rightarrow> nat (ty_dimensions r) | None \<Rightarrow> 0) else 0)"

definition base :: "'e vm \<Rightarrow> 'e world \<Rightarrow> u32 \<Rightarrow> u32" where
  "base vm w t = (if flg_test (w_flags w t) TYPE_ARRAY then (case pr_types (vm_program vm) t of Some r \<Rightarrow> ty_base r | None \<Rightarrow> t) else t)"

text \<open>
  Assignment conversion: an array type to one of the same dimensions when the elements can be assigned,
  and to the three supertypes of all arrays; a primitive type to itself; a class or interface to its
  supertypes.
\<close>

fun widens :: "'e vm \<Rightarrow> 'e world \<Rightarrow> nat \<Rightarrow> u32 \<Rightarrow> nat \<Rightarrow> u32 \<Rightarrow> bool" where
  "widens vm w 0 s 0 t \<longleftrightarrow> (if type_of_flags (w_flags w s) = JC_TYPE_REFERENCE
      then type_of_flags (w_flags w t) = JC_TYPE_REFERENCE \<and> subtype (vm_program vm) s t
      else type_of_flags (w_flags w s) = type_of_flags (w_flags w t))"
| "widens vm w (Suc m) s 0 t \<longleftrightarrow> array_super vm t"
| "widens vm w 0 s (Suc n) t \<longleftrightarrow> False"
| "widens vm w (Suc m) s (Suc n) t \<longleftrightarrow> widens vm w m s n t"

text \<open>
  What derivation establishes: an array type has a dimension, over a base type that is none; the table
  of a resolved class or interface holds its supertypes, each in the bucket of its hash.
\<close>

definition type_ok :: "'e vm \<Rightarrow> 'e world \<Rightarrow> u32 \<Rightarrow> bool" where
  "type_ok vm w t \<longleftrightarrow> flg_test (w_flags w t) TYPE_RESOLVED \<and> (\<exists>r. pr_types (vm_program vm) t = Some r
     \<and> (flg_test (w_flags w t) TYPE_ARRAY \<longrightarrow> 0 < ty_dimensions r))"

definition base_ok :: "'e vm \<Rightarrow> 'e world \<Rightarrow> u32 \<Rightarrow> bool" where
  "base_ok vm w t \<longleftrightarrow> \<not> flg_test (w_flags w t) TYPE_ARRAY \<and> flg_test (w_flags w t) TYPE_RESOLVED \<and> (\<exists>r. pr_types (vm_program vm) t = Some r
     \<and> length (ty_instanceof r) = 128
     \<and> (\<forall>u r'. pr_types (vm_program vm) u = Some r' \<longrightarrow>
          (subtype (vm_program vm) t u \<longleftrightarrow> (\<exists>us. ty_instanceof r ! unat (ty_hash r' AND 127) = Some us \<and> u \<in> set us))))"

lemma bucket_less: "unat (h AND 127 :: u64) < 128"
proof -
  have "h AND 127 = take_bit 7 h" by (simp add: take_bit_eq_mask mask_eq_exp_minus_1)
  then have "unat (h AND 127) = unat h mod 128" by (simp only: unsigned_take_bit_eq) (simp add: take_bit_eq_mod)
  then show ?thesis by simp
qed

lemma resolved_already [simp]: "flg_test (w_flags w a) TYPE_RESOLVED \<Longrightarrow> type_resolved vm a w = (Inr True, w)"
  by (simp add: type_resolved_def type_flags_def)

lemma type_of_flags_eq: "type_of_flags f = type_of_flags g \<longleftrightarrow> f AND TYPE_MASK = g AND TYPE_MASK"
proof -
  have c: "unat (ucast (f AND TYPE_MASK) :: u8) = unat (f AND TYPE_MASK)" for f :: u16
  proof -
    have "f AND 0xf = take_bit 4 f" by (simp add: take_bit_eq_mask mask_eq_exp_minus_1)
    then have "unat (f AND 0xf) = unat f mod 16" by (simp only: unsigned_take_bit_eq) (simp add: take_bit_eq_mod)
    then have "unat (f AND 0xf) < 16" by simp
    then show ?thesis by (simp add: unsigned_ucast_eq take_bit_nat_eq_self)
  qed
  show ?thesis unfolding type_of_flags_def using c [of f] c [of g] by (metis word_unat_eq_iff)
qed

lemma base_run:
  assumes s: "base_ok vm w s" and t: "base_ok vm w t"
  shows "assignable_base vm s t w = (Inr (if widens vm w 0 s 0 t then 1 else 0), w)"
proof -
  obtain r where r: "pr_types (vm_program vm) s = Some r" "length (ty_instanceof r) = 128"
    and sub: "\<And>u r'. pr_types (vm_program vm) u = Some r' \<Longrightarrow>
          subtype (vm_program vm) s u \<longleftrightarrow> (\<exists>us. ty_instanceof r ! unat (ty_hash r' AND 127) = Some us \<and> u \<in> set us)"
    using s unfolding base_ok_def by blast
  obtain r' where r': "pr_types (vm_program vm) t = Some r'" using t unfolding base_ok_def by blast
  have flags: "\<not> flg_test (w_flags w t) TYPE_ARRAY" "flg_test (w_flags w s) TYPE_RESOLVED" using s t unfolding base_ok_def by auto
  have "in_instanceof_table vm s t w = (Inr (if subtype (vm_program vm) s t then 1 else 0), w)"
    unfolding in_instanceof_table_def using r r' sub [OF r'] bucket_less [of "ty_hash r'"]
    by (auto simp: the_type_def ret_apply split: option.splits)
  then show ?thesis
    using flags type_of_flags_eq [of "w_flags w s" "w_flags w t"]
    by (auto simp: assignable_base_def type_flags_def ret_apply)
qed


lemma widens_shift: "widens vm w (m + k) s (n + k) t = widens vm w m s n t"
  by (induction k) simp_all

lemma array_dims:
  assumes "type_ok vm w t"
  obtains r where "pr_types (vm_program vm) t = Some r"
    and "flg_test (w_flags w t) TYPE_ARRAY \<Longrightarrow> int (dims vm w t) = ty_dimensions r \<and> 0 < dims vm w t \<and> base vm w t = ty_base r"
    and "\<not> flg_test (w_flags w t) TYPE_ARRAY \<Longrightarrow> dims vm w t = 0 \<and> base vm w t = t"
  using assms unfolding type_ok_def dims_def base_def by (auto split: option.splits)

lemma assignable_run:
  assumes s: "type_ok vm w s" "base_ok vm w (base vm w s)" and t: "type_ok vm w t" "base_ok vm w (base vm w t)" and ne: "s \<noteq> t"
  shows "assignable_from vm s t w =
    (if 0 < dims vm w s \<and> dims vm w s < dims vm w t then assignable_base vm (base vm w s) (base vm w t) w
     else (Inr (if widens vm w (dims vm w s) (base vm w s) (dims vm w t) (base vm w t) then 1 else 0), w))"
proof -
  obtain rs where rs: "pr_types (vm_program vm) s = Some rs"
    and sa: "flg_test (w_flags w s) TYPE_ARRAY \<Longrightarrow> int (dims vm w s) = ty_dimensions rs \<and> 0 < dims vm w s \<and> base vm w s = ty_base rs"
    and sn: "\<not> flg_test (w_flags w s) TYPE_ARRAY \<Longrightarrow> dims vm w s = 0 \<and> base vm w s = s"
    by (rule array_dims [OF s(1)]) blast
  obtain rt where rt: "pr_types (vm_program vm) t = Some rt"
    and ta: "flg_test (w_flags w t) TYPE_ARRAY \<Longrightarrow> int (dims vm w t) = ty_dimensions rt \<and> 0 < dims vm w t \<and> base vm w t = ty_base rt"
    and tn: "\<not> flg_test (w_flags w t) TYPE_ARRAY \<Longrightarrow> dims vm w t = 0 \<and> base vm w t = t"
    by (rule array_dims [OF t(1)]) blast
  have start: "assignable_from vm s t w = assignable_types vm s t w"
    using s(1) t(1) ne by (simp add: assignable_from_def type_ok_def)
  note bases = base_run [OF s(2) t(2)]
  show ?thesis
  proof (cases "flg_test (w_flags w s) TYPE_ARRAY")
    case sarr: True
    show ?thesis
    proof (cases "flg_test (w_flags w t) TYPE_ARRAY")
      case tarr: True
      consider (more) "dims vm w t < dims vm w s" | (same) "dims vm w t = dims vm w s" | (less) "dims vm w s < dims vm w t" by linarith
      then show ?thesis
      proof cases
        case more
        then obtain d where d: "dims vm w s = Suc d + dims vm w t" by (metis add.commute less_iff_Suc_add add_Suc_right)
        have "widens vm w (dims vm w s) (base vm w s) (dims vm w t) (base vm w t) \<longleftrightarrow> array_super vm (base vm w t)"
          using widens_shift [of vm w "Suc d" "dims vm w t" "base vm w s" 0 "base vm w t"] d by simp
        then show ?thesis using more sarr tarr sa ta rs rt
          by (simp add: start assignable_types_def type_flags_def the_type_def ret_apply)
      next
        case same
        have "widens vm w (dims vm w s) (base vm w s) (dims vm w t) (base vm w t) \<longleftrightarrow> widens vm w 0 (base vm w s) 0 (base vm w t)"
          using widens_shift [of vm w 0 "dims vm w t" "base vm w s" 0 "base vm w t"] same by simp
        then show ?thesis using same sarr tarr sa ta rs rt bases
          by (simp add: start assignable_types_def type_flags_def the_type_def)
      next
        case less
        then show ?thesis using sarr tarr sa ta rs rt
          by (simp add: start assignable_types_def type_flags_def the_type_def)
      qed
    next
      case tno: False
      obtain d where "dims vm w s = Suc d" using sa [OF sarr] by (cases "dims vm w s") simp_all
      then show ?thesis using sarr tno sa tn rs rt
        by (simp add: start assignable_types_def type_flags_def the_type_def ret_apply)
    qed
  next
    case sno: False
    show ?thesis
    proof (cases "flg_test (w_flags w t) TYPE_ARRAY")
      case True
      then obtain d where "dims vm w t = Suc d" using ta by (cases "dims vm w t") simp_all
      then show ?thesis using sno True sn
        by (simp add: start assignable_types_def assignable_base_def type_flags_def ret_apply)
    next
      case False
      then show ?thesis using sno sn tn bases by (simp add: start assignable_types_def type_flags_def)
    qed
  qed
qed


text \<open>
  An array type is taken to be assignable to every array type with more dimensions over a base type
  its own base type can be assigned to, which no rule of the language allows: an \<open>int[]\<close> passes for an
  \<open>int[][]\<close>.
\<close>

theorem assignable_from_short_array:
  assumes "type_ok vm w s" "base_ok vm w (base vm w s)" and "type_ok vm w t" "base_ok vm w (base vm w t)"
    and "0 < dims vm w s" "dims vm w s < dims vm w t" and "widens vm w 0 (base vm w s) 0 (base vm w t)"
  shows "assignable_from vm s t w = (Inr 1, w) \<and> \<not> widens vm w (dims vm w s) (base vm w s) (dims vm w t) (base vm w t)"
proof -
  have ne: "s \<noteq> t" using assms(6) by auto
  obtain d where d: "dims vm w t = Suc d + dims vm w s" using assms(6) by (metis add.commute less_iff_Suc_add add_Suc_right)
  have "widens vm w (dims vm w s) (base vm w s) (dims vm w t) (base vm w t) \<longleftrightarrow> widens vm w 0 (base vm w s) (Suc d) (base vm w t)"
    using widens_shift [of vm w 0 "dims vm w s" "base vm w s" "Suc d" "base vm w t"] d by simp
  then show ?thesis
    using assignable_run [OF assms(1-4) ne] base_run [OF assms(2,4)] assms(5-7) by simp
qed


section \<open>Witnesses\<close>

text \<open>
  A program with the type \<open>int\<close> at 16, \<open>int[]\<close> at 32, \<open>int[][]\<close> at 48, and the classes \<open>Object\<close> and
  \<open>String\<close> at 64 and 80; its services do nothing.
\<close>

definition hash_table :: "(nat \<times> u32 list) list \<Rightarrow> u32 list option list" where
  "hash_table bs = map (map_of bs) [0..<128]"

lemma hash_table_nth: "k < 128 \<Longrightarrow> hash_table bs ! k = map_of bs k"
  by (simp add: hash_table_def)

definition small_type :: jtype where
  "small_type = \<lparr>ty_name = [], ty_superclass = null, ty_access = 0, ty_interfaces = [], ty_imethods = hash_table [],
     ty_dimensions = 0, ty_base = null, ty_element = null, ty_hash = 0, ty_instanceof = hash_table [],
     ty_class_fields = null, ty_mtable = [], ty_instance = null,
     ty_loader = null, ty_fields = [], ty_methods = []\<rparr>"

definition small_types :: "u32 \<Rightarrow> jtype option" where
  "small_types = map_of [
     (16, small_type\<lparr>ty_hash := 1, ty_instanceof := hash_table [(1, [16])]\<rparr>),
     (32, small_type\<lparr>ty_hash := 2, ty_superclass := 64, ty_dimensions := 1, ty_base := 16, ty_element := 16\<rparr>),
     (48, small_type\<lparr>ty_hash := 3, ty_superclass := 64, ty_dimensions := 2, ty_base := 16, ty_element := 32\<rparr>),
     (64, small_type\<lparr>ty_hash := 4, ty_instanceof := hash_table [(4, [64])]\<rparr>),
     (80, small_type\<lparr>ty_hash := 5, ty_superclass := 64, ty_instanceof := hash_table [(4, [64]), (5, [80])]\<rparr>)]"

definition small_program :: program where
  "small_program = \<lparr>pr_types = small_types, pr_methods = Map.empty, pr_fields = Map.empty,
     pr_Object = 64, pr_Cloneable = 96, pr_Serializable = 112, pr_depth = 2\<rparr>"

definition small_fpu :: fpu where
  "small_fpu = \<lparr>fp_add32 = (\<lambda>x y. x), fp_sub32 = (\<lambda>x y. x), fp_mul32 = (\<lambda>x y. x), fp_div32 = (\<lambda>x y. x), fp_neg32 = id,
     fp_less32 = (\<lambda>x y. False), fp_equal32 = (=), fp_trunc32 = (\<lambda>x. 0), fp_of_int32 = (\<lambda>i. 0),
     fp_add64 = (\<lambda>x y. x), fp_sub64 = (\<lambda>x y. x), fp_mul64 = (\<lambda>x y. x), fp_div64 = (\<lambda>x y. x), fp_fmod64 = (\<lambda>x y. x), fp_neg64 = id,
     fp_less64 = (\<lambda>x y. False), fp_equal64 = (=), fp_trunc64 = (\<lambda>x. 0), fp_of_int64 = (\<lambda>i. 0),
     fp_widen = (\<lambda>x. 0), fp_narrow = (\<lambda>x. 0)\<rparr>"

definition small_vm :: "program \<Rightarrow> unit vm" where
  "small_vm P = \<lparr>vm_program = P, vm_fpu = small_fpu, sv_stack_low = (\<lambda>w. False), sv_alloca = (\<lambda>n w. True), sv_garbage = (\<lambda>w k. 0),
     sv_post = (\<lambda>e w. w\<lparr>w_pending := 1\<rparr>), sv_lock = (\<lambda>a w. (True, w)), sv_unlock = (\<lambda>a w. (True, w)),
     sv_resolve = (\<lambda>a w. (True, w)), sv_initialize = (\<lambda>a w. (True, w)), sv_thread_check = (\<lambda>w. (True, w)),
     sv_new_object = (\<lambda>a w. (0, w\<lparr>w_pending := 1\<rparr>)), sv_new_array = (\<lambda>a n w. (0, w\<lparr>w_pending := 1\<rparr>)),
     sv_new_multiarray = (\<lambda>a ns w. (0, w\<lparr>w_pending := 1\<rparr>)), sv_intern = (\<lambda>s w. (0, w\<lparr>w_pending := 1\<rparr>)),
     sv_implicit_ref = (\<lambda>m a w. (True, w)), sv_clip = (\<lambda>w. (False, w)), sv_unclip = id, sv_native = (\<lambda>m ps w. (True, w)), sv_jcni = (\<lambda>m a ps w. (True, w))\<rparr>"

definition small_world :: "unit world" where
  "small_world = \<lparr>w_mem = Map.empty, w_flags = (\<lambda>a. if a = 16 then 0x0405 else if a = 32 \<or> a = 48 then 0x041a else 0x040a),
     w_code = Map.empty, w_retval = 0, w_pending = null, w_java_stack = [], w_rest = ()\<rparr>"

lemma small_flags [simp]:
  "flg_test (w_flags small_world 16) TYPE_ARRAY = False" "flg_test (w_flags small_world 80) TYPE_ARRAY = False"
  "flg_test (w_flags small_world 64) TYPE_ARRAY = False" "flg_test (w_flags small_world 32) TYPE_ARRAY = True"
  "flg_test (w_flags small_world 48) TYPE_ARRAY = True" "flg_test (w_flags small_world a) TYPE_RESOLVED = True"
  by (simp_all add: small_world_def flg_test_def)

inductive_simps subtype_iff: "subtype P t u"

lemma small_supers:
  "subtype small_program 16 u \<longleftrightarrow> u = 16" "subtype small_program 64 u \<longleftrightarrow> u = 64" "subtype small_program 80 u \<longleftrightarrow> u = 80 \<or> u = 64"
proof -
  show "subtype small_program 16 u \<longleftrightarrow> u = 16" "subtype small_program 64 u \<longleftrightarrow> u = 64"
    by (subst subtype_iff; auto simp: small_program_def small_types_def small_type_def)+
  then show "subtype small_program 80 u \<longleftrightarrow> u = 80 \<or> u = 64"
    by (subst subtype_iff) (auto simp: small_program_def small_types_def small_type_def)
qed

lemma small_types_Some: "small_types u = Some r \<longleftrightarrow>
    (u = 16 \<and> r = small_type\<lparr>ty_hash := 1, ty_instanceof := hash_table [(1, [16])]\<rparr>)
  \<or> (u = 32 \<and> r = small_type\<lparr>ty_hash := 2, ty_superclass := 64, ty_dimensions := 1, ty_base := 16, ty_element := 16\<rparr>)
  \<or> (u = 48 \<and> r = small_type\<lparr>ty_hash := 3, ty_superclass := 64, ty_dimensions := 2, ty_base := 16, ty_element := 32\<rparr>)
  \<or> (u = 64 \<and> r = small_type\<lparr>ty_hash := 4, ty_instanceof := hash_table [(4, [64])]\<rparr>)
  \<or> (u = 80 \<and> r = small_type\<lparr>ty_hash := 5, ty_superclass := 64, ty_instanceof := hash_table [(4, [64]), (5, [80])]\<rparr>)"
  by (auto simp: small_types_def)

lemma small_base_ok:
  "base_ok (small_vm small_program) small_world 16" "base_ok (small_vm small_program) small_world 64"
  "base_ok (small_vm small_program) small_world 80"
  unfolding base_ok_def
  by (auto simp: small_vm_def small_program_def small_types_Some small_type_def hash_table_nth small_supers [unfolded small_program_def])
    (simp_all add: hash_table_def)


lemma assignable_from_short_array_witness:
  "assignable_from (small_vm small_program) 32 48 small_world = (Inr 1, small_world) \<and> \<not> widens (small_vm small_program) small_world 1 16 2 16"
proof -
  have d: "dims (small_vm small_program) small_world 32 = 1" "dims (small_vm small_program) small_world 48 = 2"
    "base (small_vm small_program) small_world 32 = 16" "base (small_vm small_program) small_world 48 = 16"
    by (simp_all add: base_def dims_def small_vm_def small_program_def small_types_def)
  have "type_ok (small_vm small_program) small_world t" if "t = 32 \<or> t = 48" for t
    using that by (auto simp: type_ok_def small_vm_def small_program_def small_types_def)
  then show ?thesis
    using assignable_from_short_array [of "small_vm small_program" small_world 32 48] small_base_ok d by (simp add: subtype_refl)
qed

end
