(* ===== verification/Interp_Frame.thy ===== *)
theory Interp_Frame
  imports Instance
begin

text \<open>
  The frame of an interpreted method: the words of its local variables and of its operand stack, and
  the macros of \<open>libjc/interp.c\<close> that read and write them.
\<close>

section \<open>State\<close>

text \<open>
  The local variables of \<open>_jc_interp\<close>: the words behind \<open>state.locals\<close>, of which \<open>sp\<close> is an index, the
  program counter, the ticker, the locked object and the method; and the world around it.
\<close>

record 'e istate =
  i_words :: "u32 list"
  i_sp :: int
  i_pc :: int
  i_ticker :: nat
  i_lock :: u32
  i_method :: u32
  i_world :: "'e world"

text \<open>Where an instruction goes.\<close>

datatype go =
    Next
  | Jump int
  | Null_pointer
  | Arithmetic
  | Exception
  | Done

type_synonym ('e, 'a) im = "('e istate, 'a) mon"

text \<open>A computation on the world.\<close>

definition on_world :: "('e world, 'a) mon \<Rightarrow> ('e, 'a) im" where
  "on_world m = (\<lambda>s. case m (i_world s) of (r, w) \<Rightarrow> (r, s\<lparr>i_world := w\<rparr>))"

section \<open>Words\<close>

definition get_word :: "int \<Rightarrow> ('e, u32) im" where
  "get_word k = (\<lambda>s. if 0 \<le> k \<and> k < int (length (i_words s)) then (Inr (i_words s ! nat k), s) else (Inl (Fault Out_of_bounds), s))"

definition set_word :: "int \<Rightarrow> u32 \<Rightarrow> ('e, unit) im" where
  "set_word k v = (\<lambda>s. if 0 \<le> k \<and> k < int (length (i_words s)) then (Inr (), s\<lparr>i_words := (i_words s)[nat k := v]\<rparr>)
     else (Inl (Fault Out_of_bounds), s))"

definition get_dword :: "int \<Rightarrow> ('e, u64) im" where
  "get_dword k = bindM (get_word k) (\<lambda>lo. bindM (get_word (k + 1)) (\<lambda>hi. ret (ucast lo OR push_bit 32 (ucast hi))))"

definition set_dword :: "int \<Rightarrow> u64 \<Rightarrow> ('e, unit) im" where
  "set_dword k v = thenM (set_word k (ucast v)) (set_word (k + 1) (ucast (drop_bit 32 v)))"

text \<open>\<open>STACKI\<close>, \<open>STACKF\<close>, \<open>STACKL\<close>; \<open>STACKJ\<close>, \<open>STACKD\<close>; and the local variables alike.\<close>

definition stack :: "int \<Rightarrow> ('e, u32) im" where
  "stack i = bindM (gets i_sp) (\<lambda>sp. get_word (sp + i))"

definition set_stack :: "int \<Rightarrow> u32 \<Rightarrow> ('e, unit) im" where
  "set_stack i v = bindM (gets i_sp) (\<lambda>sp. set_word (sp + i) v)"

definition stack2 :: "int \<Rightarrow> ('e, u64) im" where
  "stack2 i = bindM (gets i_sp) (\<lambda>sp. get_dword (sp + i))"

definition set_stack2 :: "int \<Rightarrow> u64 \<Rightarrow> ('e, unit) im" where
  "set_stack2 i v = bindM (gets i_sp) (\<lambda>sp. set_dword (sp + i) v)"

definition local :: "nat \<Rightarrow> ('e, u32) im" where
  "local i = get_word (int i)"

definition set_local :: "nat \<Rightarrow> u32 \<Rightarrow> ('e, unit) im" where
  "set_local i v = set_word (int i) v"

definition local2 :: "nat \<Rightarrow> ('e, u64) im" where
  "local2 i = get_dword (int i)"

definition set_local2 :: "nat \<Rightarrow> u64 \<Rightarrow> ('e, unit) im" where
  "set_local2 i v = set_dword (int i) v"

text \<open>\<open>POP\<close>, \<open>POP2\<close>, and \<open>PUSHI\<close> and the others\<close>

definition pop :: "int \<Rightarrow> ('e, unit) im" where
  "pop i = modify (\<lambda>s. s\<lparr>i_sp := i_sp s - i\<rparr>)"

definition pop2 :: "int \<Rightarrow> ('e, unit) im" where
  "pop2 i = modify (\<lambda>s. s\<lparr>i_sp := i_sp s - 2 * i\<rparr>)"

definition push :: "u32 \<Rightarrow> ('e, unit) im" where
  "push v = thenM (set_stack 0 v) (modify (\<lambda>s. s\<lparr>i_sp := i_sp s + 1\<rparr>))"

definition push2 :: "u64 \<Rightarrow> ('e, unit) im" where
  "push2 v = thenM (set_stack2 0 v) (modify (\<lambda>s. s\<lparr>i_sp := i_sp s + 2\<rparr>))"

section \<open>Information of the instruction\<close>

definition code_of :: "('e, icode) im" where
  "code_of = bindM (gets id) (\<lambda>s. case w_code (i_world s) (i_method s) of
     None \<Rightarrow> fails (Fault Bad_address) | Some c \<Rightarrow> ret c)"

definition load_at :: "'a list \<Rightarrow> int \<Rightarrow> failure + 'a" where
  "load_at xs k = (if 0 \<le> k \<and> k < int (length xs) then Inr (xs ! nat k) else Inl (Fault Out_of_bounds))"

definition the_info :: "('e, iinfo) im" where
  "the_info = bindM code_of (\<lambda>c. bindM (gets i_pc) (\<lambda>pc. liftM (load_at (co_info c) pc)))"

abbreviation wrong_member :: "('e, 'a) im" where "wrong_member \<equiv> fails (Fault Wrong_union_member)"

definition info_local :: "('e, nat) im" where
  "info_local = bindM the_info (\<lambda>i. case i of I_local k \<Rightarrow> ret k | _ \<Rightarrow> wrong_member)"

definition info_target :: "('e, int) im" where
  "info_target = bindM the_info (\<lambda>i. case i of I_target k \<Rightarrow> ret (int k) | _ \<Rightarrow> wrong_member)"

definition info_type :: "('e, u32) im" where
  "info_type = bindM the_info (\<lambda>i. case i of I_type t \<Rightarrow> ret t | _ \<Rightarrow> wrong_member)"

definition info_field :: "('e, u32) im" where
  "info_field = bindM the_info (\<lambda>i. case i of I_field f \<Rightarrow> ret f | _ \<Rightarrow> wrong_member)"

definition info_constant :: "('e, u64) im" where
  "info_constant = bindM the_info (\<lambda>i. case i of I_constant v \<Rightarrow> ret v | _ \<Rightarrow> wrong_member)"

definition info_invoke :: "('e, u32 \<times> nat) im" where
  "info_invoke = bindM the_info (\<lambda>i. case i of I_invoke m n \<Rightarrow> ret (m, n) | _ \<Rightarrow> wrong_member)"

definition info_iinc :: "('e, nat \<times> u32) im" where
  "info_iinc = bindM the_info (\<lambda>i. case i of I_iinc k v \<Rightarrow> ret (k, v) | _ \<Rightarrow> wrong_member)"

definition info_multianewarray :: "('e, u32 \<times> nat) im" where
  "info_multianewarray = bindM the_info (\<lambda>i. case i of I_multianewarray t n \<Rightarrow> ret (t, n) | _ \<Rightarrow> wrong_member)"

definition info_lookupswitch :: "('e, interp_lookupswitch) im" where
  "info_lookupswitch = bindM the_info (\<lambda>i. case i of I_lookupswitch s \<Rightarrow> ret s | _ \<Rightarrow> wrong_member)"

definition info_tableswitch :: "('e, interp_tableswitch) im" where
  "info_tableswitch = bindM the_info (\<lambda>i. case i of I_tableswitch s \<Rightarrow> ret s | _ \<Rightarrow> wrong_member)"

definition info_utf8 :: "('e, cstr) im" where
  "info_utf8 = bindM the_info (\<lambda>i. case i of I_utf8 u \<Rightarrow> ret u | _ \<Rightarrow> wrong_member)"

text \<open>\<open>ARRAYCHECK\<close>: whether the access may go on, with the exception to raise when it may not.\<close>

definition arraycheck :: "'e vm \<Rightarrow> u32 \<Rightarrow> u32 \<Rightarrow> ('e, go) im \<Rightarrow> ('e, go) im" where
  "arraycheck vm array i m =
     (if array = null then ret Null_pointer
      else bindM (on_world (array_length array)) (\<lambda>len.
        if sint i < 0 \<or> sint len \<le> sint i then
          thenM (on_world (modify (sv_post vm ArrayIndexOutOfBoundsException))) (ret Exception)
        else m))"

text \<open>\<open>_JC_INTERP_PRIM_ELEM\<close> and \<open>_JC_INTERP_REF_ELEM\<close>, the addresses of the elements.\<close>

definition prim_elem :: "u32 \<Rightarrow> nat \<Rightarrow> u32 \<Rightarrow> u32" where
  "prim_elem array sz i = array + 12 + of_nat sz * i"

definition ref_elem :: "u32 \<Rightarrow> u32 \<Rightarrow> u32" where
  "ref_elem array i = array + 4 * (NOT i)"

end
