(* ===== verification/Interp_Ops.thy ===== *)
theory Interp_Ops
  imports Interp_Frame "HOL-Library.Signed_Division"
begin

text \<open>
  The instructions of \<open>_jc_interp\<close> (\<open>libjc/interp.c\<close>) that work on the frame alone, one definition for
  each label. Signed additions, subtractions, multiplications and shifts wrap, as they do on the
  machine; a quotient that does not fit traps.
\<close>

section \<open>Local variables, constants and the operand stack\<close>

definition do_aload :: "('e, go) im" where
  "do_aload = bindM info_local (\<lambda>k. bindM (local k) (\<lambda>v. thenM (push v) (ret Next)))"

definition do_fload :: "('e, go) im" where
  "do_fload = bindM info_local (\<lambda>k. bindM (local k) (\<lambda>v. thenM (push v) (ret Next)))"

definition do_iload :: "('e, go) im" where
  "do_iload = bindM info_local (\<lambda>k. bindM (local k) (\<lambda>v. thenM (push v) (ret Next)))"

definition do_dload :: "('e, go) im" where
  "do_dload = bindM info_local (\<lambda>k. bindM (local2 k) (\<lambda>v. thenM (push2 v) (ret Next)))"

definition do_lload :: "('e, go) im" where
  "do_lload = bindM info_local (\<lambda>k. bindM (local2 k) (\<lambda>v. thenM (push2 v) (ret Next)))"

definition do_astore :: "('e, go) im" where
  "do_astore = thenM (pop 1) (bindM info_local (\<lambda>k. bindM (stack 0) (\<lambda>v. thenM (set_local k v) (ret Next))))"

definition do_fstore :: "('e, go) im" where
  "do_fstore = thenM (pop 1) (bindM info_local (\<lambda>k. bindM (stack 0) (\<lambda>v. thenM (set_local k v) (ret Next))))"

definition do_istore :: "('e, go) im" where
  "do_istore = thenM (pop 1) (bindM info_local (\<lambda>k. bindM (stack 0) (\<lambda>v. thenM (set_local k v) (ret Next))))"

definition do_dstore :: "('e, go) im" where
  "do_dstore = thenM (pop2 1) (bindM info_local (\<lambda>k. bindM (stack2 0) (\<lambda>v. thenM (set_local2 k v) (ret Next))))"

definition do_lstore :: "('e, go) im" where
  "do_lstore = thenM (pop2 1) (bindM info_local (\<lambda>k. bindM (stack2 0) (\<lambda>v. thenM (set_local2 k v) (ret Next))))"

definition do_iinc :: "('e, go) im" where
  "do_iinc = bindM info_iinc (\<lambda>(k, v). bindM (local k) (\<lambda>x. thenM (set_local k (x + v)) (ret Next)))"

definition do_ldc :: "('e, go) im" where
  "do_ldc = bindM info_constant (\<lambda>v. thenM (set_stack 0 (ucast v)) (thenM (pop (-1)) (ret Next)))"

definition do_ldc2_w :: "('e, go) im" where
  "do_ldc2_w = bindM info_constant (\<lambda>v. thenM (set_stack2 0 v) (thenM (pop (-2)) (ret Next)))"

definition do_nop :: "('e, go) im" where
  "do_nop = ret Next"

definition do_pop :: "('e, go) im" where
  "do_pop = thenM (pop 1) (ret Next)"

definition do_pop2 :: "('e, go) im" where
  "do_pop2 = thenM (pop2 1) (ret Next)"

text \<open>\<open>STACKI(i) = STACKI(j)\<close>\<close>

definition move :: "int \<Rightarrow> int \<Rightarrow> ('e, unit) im" where
  "move i j = bindM (stack j) (\<lambda>v. set_stack i v)"

definition do_dup :: "('e, go) im" where
  "do_dup = thenM (move 0 (-1)) (thenM (pop (-1)) (ret Next))"

definition do_dup_x1 :: "('e, go) im" where
  "do_dup_x1 = thenM (move 0 (-1)) (thenM (move (-1) (-2)) (thenM (move (-2) 0) (thenM (pop (-1)) (ret Next))))"

definition do_dup_x2 :: "('e, go) im" where
  "do_dup_x2 = thenM (move 0 (-1)) (thenM (move (-1) (-2)) (thenM (move (-2) (-3)) (thenM (move (-3) 0)
     (thenM (pop (-1)) (ret Next)))))"

definition do_dup2 :: "('e, go) im" where
  "do_dup2 = thenM (move 1 (-1)) (thenM (move 0 (-2)) (thenM (pop (-2)) (ret Next)))"

definition do_dup2_x1 :: "('e, go) im" where
  "do_dup2_x1 = thenM (move 1 (-1)) (thenM (move 0 (-2)) (thenM (move (-1) (-3)) (thenM (move (-2) 1) (thenM (move (-3) 0)
     (thenM (pop (-2)) (ret Next))))))"

definition do_dup2_x2 :: "('e, go) im" where
  "do_dup2_x2 = thenM (move 1 (-1)) (thenM (move 0 (-2)) (thenM (move (-1) (-3)) (thenM (move (-2) (-4)) (thenM (move (-3) 1)
     (thenM (move (-4) 0) (thenM (pop (-2)) (ret Next)))))))"

definition do_swap :: "('e, go) im" where
  "do_swap = bindM (stack (-2)) (\<lambda>temp. thenM (move (-2) (-1)) (thenM (set_stack (-1) temp) (ret Next)))"

section \<open>Arithmetic on int\<close>

text \<open>The patterns of the actions with one and two operands.\<close>

definition unary :: "(u32 \<Rightarrow> u32) \<Rightarrow> ('e, go) im" where
  "unary f = thenM (pop 1) (bindM (stack 0) (\<lambda>x. thenM (push (f x)) (ret Next)))"

definition binary :: "(u32 \<Rightarrow> u32 \<Rightarrow> u32) \<Rightarrow> ('e, go) im" where
  "binary f = thenM (pop 2) (bindM (stack 0) (\<lambda>x. bindM (stack 1) (\<lambda>y. thenM (push (f x y)) (ret Next))))"

definition divide :: "(u32 \<Rightarrow> u32 \<Rightarrow> u32) \<Rightarrow> ('e, go) im" where
  "divide f = thenM (pop 2) (bindM (stack 1) (\<lambda>y. if y = 0 then ret Arithmetic
     else bindM (stack 0) (\<lambda>x. if sint x = - (2 ^ 31) \<and> sint y = -1 then fails (Fault Quotient_overflow)
     else thenM (push (f x y)) (ret Next))))"

definition do_iadd :: "('e, go) im" where "do_iadd = binary (\<lambda>x y. x + y)"
definition do_isub :: "('e, go) im" where "do_isub = binary (\<lambda>x y. x - y)"
definition do_imul :: "('e, go) im" where "do_imul = binary (\<lambda>x y. x * y)"
definition do_iand :: "('e, go) im" where "do_iand = binary (\<lambda>x y. x AND y)"
definition do_ior :: "('e, go) im" where "do_ior = binary (\<lambda>x y. x OR y)"
definition do_ixor :: "('e, go) im" where "do_ixor = binary (\<lambda>x y. x XOR y)"
definition do_idiv :: "('e, go) im" where "do_idiv = divide (\<lambda>x y. word_of_int (sint x sdiv sint y))"
definition do_irem :: "('e, go) im" where "do_irem = divide (\<lambda>x y. word_of_int (sint x smod sint y))"
definition do_ineg :: "('e, go) im" where "do_ineg = unary (\<lambda>x. - x)"

text \<open>\<open>_JC_ISHR\<close> and \<open>_JC_IUSHR\<close>\<close>

definition jc_ishr :: "u32 \<Rightarrow> u32 \<Rightarrow> u32" where
  "jc_ishr x y = signed_drop_bit (unat (y AND 0x1f)) x"

definition jc_iushr :: "u32 \<Rightarrow> u32 \<Rightarrow> u32" where
  "jc_iushr x y = drop_bit (unat (y AND 0x1f)) x"

definition do_ishl :: "('e, go) im" where "do_ishl = binary (\<lambda>x y. push_bit (unat (y AND 0x1f)) x)"
definition do_ishr :: "('e, go) im" where "do_ishr = binary (\<lambda>x y. jc_ishr x (y AND 0x1f))"
definition do_iushr :: "('e, go) im" where "do_iushr = binary (\<lambda>x y. jc_iushr x (y AND 0x1f))"

definition do_i2b :: "('e, go) im" where "do_i2b = unary (\<lambda>x. scast (ucast x :: u8))"
definition do_i2c :: "('e, go) im" where "do_i2c = unary (\<lambda>x. ucast (ucast x :: u16))"
definition do_i2s :: "('e, go) im" where "do_i2s = unary (\<lambda>x. scast (ucast x :: u16))"

definition do_i2l :: "('e, go) im" where
  "do_i2l = thenM (pop 1) (bindM (stack 0) (\<lambda>x. thenM (push2 (scast x)) (ret Next)))"

section \<open>Arithmetic on long\<close>

definition unary2 :: "(u64 \<Rightarrow> u64) \<Rightarrow> ('e, go) im" where
  "unary2 f = thenM (pop2 1) (bindM (stack2 0) (\<lambda>x. thenM (push2 (f x)) (ret Next)))"

definition binary2 :: "(u64 \<Rightarrow> u64 \<Rightarrow> u64) \<Rightarrow> ('e, go) im" where
  "binary2 f = thenM (pop2 2) (bindM (stack2 0) (\<lambda>x. bindM (stack2 2) (\<lambda>y. thenM (push2 (f x y)) (ret Next))))"

definition divide2 :: "(u64 \<Rightarrow> u64 \<Rightarrow> u64) \<Rightarrow> ('e, go) im" where
  "divide2 f = thenM (pop2 2) (bindM (stack2 2) (\<lambda>y. if y = 0 then ret Arithmetic
     else bindM (stack2 0) (\<lambda>x. if sint x = - (2 ^ 63) \<and> sint y = -1 then fails (Fault Quotient_overflow)
     else thenM (push2 (f x y)) (ret Next))))"

text \<open>A shift takes a long and an int.\<close>

definition shift2 :: "(u64 \<Rightarrow> u32 \<Rightarrow> u64) \<Rightarrow> ('e, go) im" where
  "shift2 f = thenM (pop 3) (bindM (stack2 0) (\<lambda>x. bindM (stack 2) (\<lambda>y. thenM (push2 (f x y)) (ret Next))))"

text \<open>Two longs or doubles to an int.\<close>

definition compare2 :: "(u64 \<Rightarrow> u64 \<Rightarrow> u32) \<Rightarrow> ('e, go) im" where
  "compare2 f = thenM (pop2 2) (bindM (stack2 0) (\<lambda>x. bindM (stack2 2) (\<lambda>y. thenM (push (f x y)) (ret Next))))"

definition do_ladd :: "('e, go) im" where "do_ladd = binary2 (\<lambda>x y. x + y)"
definition do_lsub :: "('e, go) im" where "do_lsub = binary2 (\<lambda>x y. x - y)"
definition do_lmul :: "('e, go) im" where "do_lmul = binary2 (\<lambda>x y. x * y)"
definition do_land :: "('e, go) im" where "do_land = binary2 (\<lambda>x y. x AND y)"
definition do_lor :: "('e, go) im" where "do_lor = binary2 (\<lambda>x y. x OR y)"
definition do_lxor :: "('e, go) im" where "do_lxor = binary2 (\<lambda>x y. x XOR y)"
definition do_ldiv :: "('e, go) im" where "do_ldiv = divide2 (\<lambda>x y. word_of_int (sint x sdiv sint y))"
definition do_lrem :: "('e, go) im" where "do_lrem = divide2 (\<lambda>x y. word_of_int (sint x smod sint y))"
definition do_lneg :: "('e, go) im" where "do_lneg = unary2 (\<lambda>x. - x)"

text \<open>\<open>_JC_LSHR\<close>, \<open>_JC_LUSHR\<close> and \<open>_JC_LCMP\<close>\<close>

definition jc_lshr :: "u64 \<Rightarrow> u32 \<Rightarrow> u64" where
  "jc_lshr x y = signed_drop_bit (unat (y AND 0x3f)) x"

definition jc_lushr :: "u64 \<Rightarrow> u32 \<Rightarrow> u64" where
  "jc_lushr x y = drop_bit (unat (y AND 0x3f)) x"

definition jc_lcmp :: "u64 \<Rightarrow> u64 \<Rightarrow> u32" where
  "jc_lcmp x y = of_bool (sint y < sint x) - of_bool (sint x < sint y)"

definition do_lshl :: "('e, go) im" where "do_lshl = shift2 (\<lambda>x y. push_bit (unat (y AND 0x3f)) x)"
definition do_lshr :: "('e, go) im" where "do_lshr = shift2 jc_lshr"
definition do_lushr :: "('e, go) im" where "do_lushr = shift2 jc_lushr"
definition do_lcmp :: "('e, go) im" where "do_lcmp = compare2 jc_lcmp"

definition do_l2i :: "('e, go) im" where
  "do_l2i = thenM (pop2 1) (bindM (stack2 0) (\<lambda>x. thenM (push (ucast x)) (ret Next)))"

end
