(* ===== verification/Interp_Float.thy ===== *)
theory Interp_Float
  imports Interp_Ops
begin

text \<open>
  The floating point instructions of \<open>_jc_interp\<close> (\<open>libjc/interp.c\<close>), over the operations of the
  floating point unit, and the macros of \<open>jc_defs.h\<close> that compare and convert.
\<close>

section \<open>Comparisons and conversions\<close>

text \<open>\<open>_JC_FCMPG\<close>, \<open>_JC_FCMPL\<close>, \<open>_JC_DCMPG\<close>, \<open>_JC_DCMPL\<close>\<close>

definition jc_fcmpg :: "fpu \<Rightarrow> u32 \<Rightarrow> u32 \<Rightarrow> u32" where
  "jc_fcmpg f x y = (if \<not> fp_equal32 f x x \<or> \<not> fp_equal32 f y y then 1 else of_bool (fp_less32 f y x) - of_bool (fp_less32 f x y))"

definition jc_fcmpl :: "fpu \<Rightarrow> u32 \<Rightarrow> u32 \<Rightarrow> u32" where
  "jc_fcmpl f x y = (if \<not> fp_equal32 f x x \<or> \<not> fp_equal32 f y y then - 1 else of_bool (fp_less32 f y x) - of_bool (fp_less32 f x y))"

definition jc_dcmpg :: "fpu \<Rightarrow> u64 \<Rightarrow> u64 \<Rightarrow> u32" where
  "jc_dcmpg f x y = (if \<not> fp_equal64 f x x \<or> \<not> fp_equal64 f y y then 1 else of_bool (fp_less64 f y x) - of_bool (fp_less64 f x y))"

definition jc_dcmpl :: "fpu \<Rightarrow> u64 \<Rightarrow> u64 \<Rightarrow> u32" where
  "jc_dcmpl f x y = (if \<not> fp_equal64 f x x \<or> \<not> fp_equal64 f y y then - 1 else of_bool (fp_less64 f y x) - of_bool (fp_less64 f x y))"

text \<open>
  \<open>_JC_CAST_FLT2INT\<close>, of a float or a double to an integer of \<open>n\<close> bits; \<open>ge x i\<close> compares with an integer
  after its conversion.
\<close>

definition flt2int :: "(int \<Rightarrow> bool) \<Rightarrow> (int \<Rightarrow> bool) \<Rightarrow> bool \<Rightarrow> int \<Rightarrow> nat \<Rightarrow> int" where
  "flt2int ge le nan trunc n =
    (let lo = - (2 ^ (n - 1)); hi = 2 ^ (n - 1) - 1 in
     if ge hi then hi else if le lo then lo else if nan then 0 else trunc)"

definition float2int :: "fpu \<Rightarrow> u32 \<Rightarrow> nat \<Rightarrow> int" where
  "float2int f x = flt2int
     (\<lambda>i. fp_less32 f (fp_of_int32 f i) x \<or> fp_equal32 f (fp_of_int32 f i) x)
     (\<lambda>i. fp_less32 f x (fp_of_int32 f i) \<or> fp_equal32 f (fp_of_int32 f i) x)
     (\<not> fp_equal32 f x x) (fp_trunc32 f x)"

definition double2int :: "fpu \<Rightarrow> u64 \<Rightarrow> nat \<Rightarrow> int" where
  "double2int f x = flt2int
     (\<lambda>i. fp_less64 f (fp_of_int64 f i) x \<or> fp_equal64 f (fp_of_int64 f i) x)
     (\<lambda>i. fp_less64 f x (fp_of_int64 f i) \<or> fp_equal64 f (fp_of_int64 f i) x)
     (\<not> fp_equal64 f x x) (fp_trunc64 f x)"

section \<open>Instructions\<close>

definition narrow :: "(u64 \<Rightarrow> u32) \<Rightarrow> ('e, go) im" where
  "narrow f = thenM (pop2 1) (bindM (stack2 0) (\<lambda>x. thenM (push (f x)) (ret Next)))"

definition widen :: "(u32 \<Rightarrow> u64) \<Rightarrow> ('e, go) im" where
  "widen f = thenM (pop 1) (bindM (stack 0) (\<lambda>x. thenM (push2 (f x)) (ret Next)))"

definition do_d2f :: "fpu \<Rightarrow> ('e, go) im" where "do_d2f f = narrow (fp_narrow f)"
definition do_d2i :: "fpu \<Rightarrow> ('e, go) im" where "do_d2i f = narrow (\<lambda>x. word_of_int (double2int f x 32))"
definition do_d2l :: "fpu \<Rightarrow> ('e, go) im" where "do_d2l f = unary2 (\<lambda>x. word_of_int (double2int f x 64))"
definition do_dadd :: "fpu \<Rightarrow> ('e, go) im" where "do_dadd f = binary2 (fp_add64 f)"
definition do_dsub :: "fpu \<Rightarrow> ('e, go) im" where "do_dsub f = binary2 (fp_sub64 f)"
definition do_dmul :: "fpu \<Rightarrow> ('e, go) im" where "do_dmul f = binary2 (fp_mul64 f)"
definition do_ddiv :: "fpu \<Rightarrow> ('e, go) im" where "do_ddiv f = binary2 (fp_div64 f)"
definition do_drem :: "fpu \<Rightarrow> ('e, go) im" where "do_drem f = binary2 (fp_fmod64 f)"
definition do_dneg :: "fpu \<Rightarrow> ('e, go) im" where "do_dneg f = unary2 (fp_neg64 f)"
definition do_dcmpg :: "fpu \<Rightarrow> ('e, go) im" where "do_dcmpg f = compare2 (jc_dcmpg f)"
definition do_dcmpl :: "fpu \<Rightarrow> ('e, go) im" where "do_dcmpl f = compare2 (jc_dcmpl f)"
definition do_f2d :: "fpu \<Rightarrow> ('e, go) im" where "do_f2d f = widen (fp_widen f)"
definition do_f2i :: "fpu \<Rightarrow> ('e, go) im" where "do_f2i f = unary (\<lambda>x. word_of_int (float2int f x 32))"
definition do_f2l :: "fpu \<Rightarrow> ('e, go) im" where "do_f2l f = widen (\<lambda>x. word_of_int (float2int f x 64))"
definition do_fadd :: "fpu \<Rightarrow> ('e, go) im" where "do_fadd f = binary (fp_add32 f)"
definition do_fsub :: "fpu \<Rightarrow> ('e, go) im" where "do_fsub f = binary (fp_sub32 f)"
definition do_fmul :: "fpu \<Rightarrow> ('e, go) im" where "do_fmul f = binary (fp_mul32 f)"
definition do_fdiv :: "fpu \<Rightarrow> ('e, go) im" where "do_fdiv f = binary (fp_div32 f)"
definition do_frem :: "fpu \<Rightarrow> ('e, go) im" where
  "do_frem f = binary (\<lambda>x y. fp_narrow f (fp_fmod64 f (fp_widen f x) (fp_widen f y)))"
definition do_fneg :: "fpu \<Rightarrow> ('e, go) im" where "do_fneg f = unary (fp_neg32 f)"
definition do_fcmpg :: "fpu \<Rightarrow> ('e, go) im" where "do_fcmpg f = binary (jc_fcmpg f)"
definition do_fcmpl :: "fpu \<Rightarrow> ('e, go) im" where "do_fcmpl f = binary (jc_fcmpl f)"
definition do_i2d :: "fpu \<Rightarrow> ('e, go) im" where "do_i2d f = widen (\<lambda>x. fp_of_int64 f (sint x))"
definition do_i2f :: "fpu \<Rightarrow> ('e, go) im" where "do_i2f f = unary (\<lambda>x. fp_of_int32 f (sint x))"
definition do_l2d :: "fpu \<Rightarrow> ('e, go) im" where "do_l2d f = unary2 (\<lambda>x. fp_of_int64 f (sint x))"
definition do_l2f :: "fpu \<Rightarrow> ('e, go) im" where "do_l2f f = narrow (\<lambda>x. fp_of_int32 f (sint x))"

end
