(* ===== verification/Interp_Jump.thy ===== *)
theory Interp_Jump
  imports Interp_Ops Jc_Order
begin

text \<open>The jumps, switches and returns of \<open>_jc_interp\<close> (\<open>libjc/interp.c\<close>).\<close>

section \<open>Jumps\<close>

definition do_goto :: "('e, go) im" where
  "do_goto = bindM info_target (\<lambda>t. ret (Jump t))"

text \<open>\<open>JUMP(cond ? INFO(target) : pc + 1)\<close>\<close>

definition branch :: "bool \<Rightarrow> ('e, go) im" where
  "branch cond = (if cond then bindM info_target (\<lambda>t. ret (Jump t)) else bindM (gets i_pc) (\<lambda>pc. ret (Jump (pc + 1))))"

definition branch1 :: "(u32 \<Rightarrow> bool) \<Rightarrow> ('e, go) im" where
  "branch1 f = thenM (pop 1) (bindM (stack 0) (\<lambda>x. branch (f x)))"

definition branch2 :: "(u32 \<Rightarrow> u32 \<Rightarrow> bool) \<Rightarrow> ('e, go) im" where
  "branch2 f = thenM (pop 2) (bindM (stack 0) (\<lambda>x. bindM (stack 1) (\<lambda>y. branch (f x y))))"

definition do_if_acmpeq :: "('e, go) im" where "do_if_acmpeq = branch2 (\<lambda>x y. x = y)"
definition do_if_acmpne :: "('e, go) im" where "do_if_acmpne = branch2 (\<lambda>x y. x \<noteq> y)"
definition do_if_icmpeq :: "('e, go) im" where "do_if_icmpeq = branch2 (\<lambda>x y. x = y)"
definition do_if_icmpne :: "('e, go) im" where "do_if_icmpne = branch2 (\<lambda>x y. x \<noteq> y)"
definition do_if_icmplt :: "('e, go) im" where "do_if_icmplt = branch2 (\<lambda>x y. sint x < sint y)"
definition do_if_icmpge :: "('e, go) im" where "do_if_icmpge = branch2 (\<lambda>x y. sint y \<le> sint x)"
definition do_if_icmpgt :: "('e, go) im" where "do_if_icmpgt = branch2 (\<lambda>x y. sint y < sint x)"
definition do_if_icmple :: "('e, go) im" where "do_if_icmple = branch2 (\<lambda>x y. sint x \<le> sint y)"
definition do_ifeq :: "('e, go) im" where "do_ifeq = branch1 (\<lambda>x. x = 0)"
definition do_ifne :: "('e, go) im" where "do_ifne = branch1 (\<lambda>x. x \<noteq> 0)"
definition do_iflt :: "('e, go) im" where "do_iflt = branch1 (\<lambda>x. sint x < 0)"
definition do_ifge :: "('e, go) im" where "do_ifge = branch1 (\<lambda>x. 0 \<le> sint x)"
definition do_ifgt :: "('e, go) im" where "do_ifgt = branch1 (\<lambda>x. 0 < sint x)"
definition do_ifle :: "('e, go) im" where "do_ifle = branch1 (\<lambda>x. sint x \<le> 0)"
definition do_ifnonnull :: "('e, go) im" where "do_ifnonnull = branch1 (\<lambda>x. x \<noteq> null)"
definition do_ifnull :: "('e, go) im" where "do_ifnull = branch1 (\<lambda>x. x = null)"

definition do_jsr :: "('e, go) im" where
  "do_jsr = bindM (gets i_pc) (\<lambda>pc. thenM (push (word_of_int (pc + 1))) (bindM info_target (\<lambda>t. ret (Jump t))))"

definition do_ret :: "('e, go) im" where
  "do_ret = bindM info_local (\<lambda>k. bindM (local k) (\<lambda>v. ret (Jump (sint v))))"

section \<open>Switches\<close>

definition lookup_compare :: "u32 \<Rightarrow> u32 \<Rightarrow> int" where
  "lookup_compare x y = of_bool (sint y < sint x) - of_bool (sint x < sint y)"

definition do_lookupswitch :: "('e, go) im" where
  "do_lookupswitch = bindM info_lookupswitch (\<lambda>lsw. thenM (pop 1) (bindM (stack 0) (\<lambda>key.
     ret (Jump (int (case bsearch (\<lambda>p. lookup_compare key (fst p)) (sw_pairs lsw) of
       Some p \<Rightarrow> snd p | None \<Rightarrow> sw_default lsw))))))"

definition do_tableswitch :: "('e, go) im" where
  "do_tableswitch = bindM info_tableswitch (\<lambda>tsw. thenM (pop 1) (bindM (stack 0) (\<lambda>key.
     if sint (tw_low tsw) \<le> sint key \<and> sint key \<le> sint (tw_high tsw)
     then bindM (liftM (load_at (tw_targets tsw) (sint (key - tw_low tsw)))) (\<lambda>t. ret (Jump (int t)))
     else ret (Jump (int (tw_default tsw))))))"

section \<open>Returns\<close>

definition set_retval :: "u64 \<Rightarrow> ('e, unit) im" where
  "set_retval v = on_world (modify (\<lambda>w. w\<lparr>w_retval := v\<rparr>))"

text \<open>A member of four bytes of the union leaves the others as they were.\<close>

definition set_retval4 :: "u32 \<Rightarrow> ('e, unit) im" where
  "set_retval4 v = on_world (modify (\<lambda>w. w\<lparr>w_retval := push_bit 32 (drop_bit 32 (w_retval w)) OR ucast v\<rparr>))"

definition do_areturn :: "('e, go) im" where "do_areturn = thenM (pop 1) (bindM (stack 0) (\<lambda>v. thenM (set_retval4 v) (ret Done)))"
definition do_freturn :: "('e, go) im" where "do_freturn = thenM (pop 1) (bindM (stack 0) (\<lambda>v. thenM (set_retval4 v) (ret Done)))"
definition do_ireturn :: "('e, go) im" where "do_ireturn = thenM (pop 1) (bindM (stack 0) (\<lambda>v. thenM (set_retval4 v) (ret Done)))"
definition do_dreturn :: "('e, go) im" where "do_dreturn = thenM (pop2 1) (bindM (stack2 0) (\<lambda>v. thenM (set_retval v) (ret Done)))"
definition do_lreturn :: "('e, go) im" where "do_lreturn = thenM (pop2 1) (bindM (stack2 0) (\<lambda>v. thenM (set_retval v) (ret Done)))"

definition do_return :: "('e, go) im" where
  "do_return = ret Done"

end
