(* ===== verification/Interp_Heap.thy ===== *)
theory Interp_Heap
  imports Interp_Ops
begin

text \<open>
  The instructions of \<open>_jc_interp\<close> (\<open>libjc/interp.c\<close>) on arrays, fields, types and monitors.
\<close>

section \<open>Calls of services\<close>

definition service :: "('e world \<Rightarrow> 'a \<times> 'e world) \<Rightarrow> ('e, 'a) im" where
  "service f = on_world (call f)"

definition post :: "'e vm \<Rightarrow> vmex \<Rightarrow> ('e, go) im" where
  "post vm e = thenM (on_world (modify (sv_post vm e))) (ret Exception)"

section \<open>Arrays\<close>

text \<open>The patterns of the actions that load and store an element.\<close>

definition array_load :: "'e vm \<Rightarrow> (u32 \<Rightarrow> u32 \<Rightarrow> ('e, unit) im) \<Rightarrow> ('e, go) im" where
  "array_load vm m = thenM (pop 2) (bindM (stack 0) (\<lambda>array. bindM (stack 1) (\<lambda>index.
     arraycheck vm array index (thenM (m array index) (ret Next)))))"

definition array_store :: "'e vm \<Rightarrow> int \<Rightarrow> (u32 \<Rightarrow> u32 \<Rightarrow> ('e, unit) im) \<Rightarrow> ('e, go) im" where
  "array_store vm n m = thenM (pop n) (bindM (stack 0) (\<lambda>array. bindM (stack 1) (\<lambda>index.
     arraycheck vm array index (thenM (m array index) (ret Next)))))"

definition push_elem :: "nat \<Rightarrow> (u64 \<Rightarrow> u32) \<Rightarrow> u32 \<Rightarrow> u32 \<Rightarrow> ('e, unit) im" where
  "push_elem sz f array index = bindM (on_world (mem_load sz (prim_elem array sz index))) (\<lambda>v. push (f v))"

definition push_elem2 :: "u32 \<Rightarrow> u32 \<Rightarrow> ('e, unit) im" where
  "push_elem2 array index = bindM (on_world (mem_load 8 (prim_elem array 8 index))) (\<lambda>v. push2 v)"

definition store_elem :: "nat \<Rightarrow> (u32 \<Rightarrow> u32) \<Rightarrow> u32 \<Rightarrow> u32 \<Rightarrow> ('e, unit) im" where
  "store_elem sz f array index = bindM (stack 2) (\<lambda>v. on_world (mem_store sz (prim_elem array sz index) (ucast (f v))))"

definition store_elem2 :: "u32 \<Rightarrow> u32 \<Rightarrow> ('e, unit) im" where
  "store_elem2 array index = bindM (stack2 2) (\<lambda>v. on_world (mem_store 8 (prim_elem array 8 index) v))"

definition do_aaload :: "'e vm \<Rightarrow> ('e, go) im" where
  "do_aaload vm = array_load vm (\<lambda>array index.
     bindM (on_world (mem_load 4 (ref_elem array index))) (\<lambda>v. push (ucast v)))"

definition do_iaload :: "'e vm \<Rightarrow> ('e, go) im" where "do_iaload vm = array_load vm (push_elem 4 ucast)"
definition do_faload :: "'e vm \<Rightarrow> ('e, go) im" where "do_faload vm = array_load vm (push_elem 4 ucast)"
definition do_caload :: "'e vm \<Rightarrow> ('e, go) im" where "do_caload vm = array_load vm (push_elem 2 ucast)"
definition do_saload :: "'e vm \<Rightarrow> ('e, go) im" where "do_saload vm = array_load vm (push_elem 2 (\<lambda>v. scast (ucast v :: u16)))"
definition do_daload :: "'e vm \<Rightarrow> ('e, go) im" where "do_daload vm = array_load vm push_elem2"
definition do_laload :: "'e vm \<Rightarrow> ('e, go) im" where "do_laload vm = array_load vm push_elem2"

definition do_baload :: "'e vm \<Rightarrow> ('e, go) im" where
  "do_baload vm = array_load vm (\<lambda>array index. bindM (on_world (obj_lockword array)) (\<lambda>lw.
     if lw_type lw = JC_TYPE_BOOLEAN then push_elem 1 ucast array index
     else push_elem 1 (\<lambda>v. scast (ucast v :: u8)) array index))"

definition do_iastore :: "'e vm \<Rightarrow> ('e, go) im" where "do_iastore vm = array_store vm 3 (store_elem 4 id)"
definition do_fastore :: "'e vm \<Rightarrow> ('e, go) im" where "do_fastore vm = array_store vm 3 (store_elem 4 id)"
definition do_castore :: "'e vm \<Rightarrow> ('e, go) im" where "do_castore vm = array_store vm 3 (store_elem 2 (\<lambda>v. v AND 0xffff))"
definition do_sastore :: "'e vm \<Rightarrow> ('e, go) im" where "do_sastore vm = array_store vm 3 (store_elem 2 id)"
definition do_dastore :: "'e vm \<Rightarrow> ('e, go) im" where "do_dastore vm = array_store vm 4 store_elem2"
definition do_lastore :: "'e vm \<Rightarrow> ('e, go) im" where "do_lastore vm = array_store vm 4 store_elem2"

definition do_bastore :: "'e vm \<Rightarrow> ('e, go) im" where
  "do_bastore vm = array_store vm 3 (\<lambda>array index. bindM (on_world (obj_lockword array)) (\<lambda>lw.
     if lw_type lw = JC_TYPE_BOOLEAN then store_elem 1 (\<lambda>v. v AND 0x1) array index
     else store_elem 1 (\<lambda>v. v AND 0xff) array index))"

definition do_aastore :: "'e vm \<Rightarrow> ('e, go) im" where
  "do_aastore vm = thenM (pop 3) (bindM (stack 0) (\<lambda>array. bindM (stack 1) (\<lambda>index.
     arraycheck vm array index (bindM (stack 2) (\<lambda>obj.
     let put = thenM (on_world (mem_store 4 (ref_elem array index) (ucast obj))) (ret Next) in
     if obj = null then put
     else bindM (on_world (bindM (obj_type obj) (\<lambda>t. bindM (obj_type array) (\<lambda>at. bindM (the_type vm at) (\<lambda>r.
         assignable_from vm t (ty_element r)))))) (\<lambda>status.
       if status = 1 then put
       else if status = 0 then post vm ArrayStoreException
       else if status = -1 then ret Exception
       else put))))))"

definition do_arraylength :: "('e, go) im" where
  "do_arraylength = thenM (pop 1) (bindM (stack 0) (\<lambda>array.
     if array = null then ret Null_pointer
     else bindM (on_world (array_length array)) (\<lambda>n. thenM (push n) (ret Next))))"

definition do_newarray :: "'e vm \<Rightarrow> ('e, go) im" where
  "do_newarray vm = thenM (pop 1) (bindM info_type (\<lambda>t. bindM (stack 0) (\<lambda>n.
     bindM (service (sv_new_array vm t n)) (\<lambda>array. if array = null then ret Exception else thenM (push array) (ret Next)))))"

definition do_anewarray :: "'e vm \<Rightarrow> ('e, go) im" where
  "do_anewarray vm = thenM (pop 1) (bindM (stack 0) (\<lambda>n. bindM info_type (\<lambda>t.
     bindM (service (sv_new_array vm t n)) (\<lambda>array. if array = null then ret Exception else thenM (push array) (ret Next)))))"

fun stack_words :: "nat \<Rightarrow> int \<Rightarrow> ('e, u32 list) im" where
  "stack_words 0 i = ret []"
| "stack_words (Suc n) i = bindM (stack i) (\<lambda>v. bindM (stack_words n (i + 1)) (\<lambda>vs. ret (v # vs)))"

definition do_multianewarray :: "'e vm \<Rightarrow> ('e, go) im" where
  "do_multianewarray vm = bindM info_multianewarray (\<lambda>(t, dims). thenM (pop (int dims)) (bindM (stack_words dims 0) (\<lambda>sizes.
     bindM (service (sv_new_multiarray vm t sizes)) (\<lambda>array. if array = null then ret Exception else thenM (push array) (ret Next)))))"

section \<open>Objects\<close>

definition do_new :: "'e vm \<Rightarrow> ('e, go) im" where
  "do_new vm = bindM info_type (\<lambda>t. bindM (service (sv_new_object vm t)) (\<lambda>obj.
     if obj = null then ret Exception else thenM (push obj) (ret Next)))"

definition do_checkcast :: "'e vm \<Rightarrow> ('e, go) im" where
  "do_checkcast vm = bindM (stack (-1)) (\<lambda>obj. if obj = null then ret Next
     else bindM info_type (\<lambda>t. bindM (on_world (instance_of vm obj t)) (\<lambda>status.
       if status = 1 then ret Next
       else if status = 0 then post vm ClassCastException
       else if status = -1 then ret Exception
       else ret Next)))"

definition do_instanceof :: "'e vm \<Rightarrow> ('e, go) im" where
  "do_instanceof vm = thenM (pop 1) (bindM (stack 0) (\<lambda>obj. bindM info_type (\<lambda>t.
     bindM (on_world (instance_of vm obj t)) (\<lambda>status.
       if status = 1 then thenM (push 1) (ret Next)
       else if status = 0 then thenM (push 0) (ret Next)
       else if status = -1 then ret Exception
       else ret Next))))"

definition do_athrow :: "('e, go) im" where
  "do_athrow = thenM (pop 1) (bindM (stack 0) (\<lambda>e. if e = null then ret Null_pointer
     else thenM (on_world (modify (\<lambda>w. w\<lparr>w_pending := e\<rparr>))) (ret Exception)))"

definition do_monitorenter :: "'e vm \<Rightarrow> ('e, go) im" where
  "do_monitorenter vm = thenM (pop 1) (bindM (stack 0) (\<lambda>obj. if obj = null then ret Null_pointer
     else bindM (service (sv_lock vm obj)) (\<lambda>ok. ret (if ok then Next else Exception))))"

definition do_monitorexit :: "'e vm \<Rightarrow> ('e, go) im" where
  "do_monitorexit vm = thenM (pop 1) (bindM (stack 0) (\<lambda>obj. if obj = null then ret Null_pointer
     else bindM (service (sv_unlock vm obj)) (\<lambda>ok. ret (if ok then Next else Exception))))"

text \<open>A string constant is replaced by the interned string, and the instruction run again.\<close>

definition update_insn :: "u8 \<Rightarrow> iinfo \<Rightarrow> ('e, unit) im" where
  "update_insn opc i = bindM code_of (\<lambda>c. bindM (gets id) (\<lambda>s.
     on_world (modify (\<lambda>w. w\<lparr>w_code := (w_code w)(i_method s \<mapsto>
       c\<lparr>co_info := (co_info c)[nat (i_pc s) := i], co_opcodes := (co_opcodes c)[nat (i_pc s) := opc]\<rparr>)\<rparr>))))"

definition do_ldc_string :: "'e vm \<Rightarrow> ('e, go) im" where
  "do_ldc_string vm = bindM info_utf8 (\<lambda>u. bindM (service (sv_intern vm u)) (\<lambda>str.
     if str = null then ret Exception
     else bindM (gets i_method) (\<lambda>m. bindM (service (sv_implicit_ref vm m str)) (\<lambda>ok.
       if \<not> ok then ret Exception
       else thenM (update_insn JC_ldc (I_constant (ucast str))) (bindM (gets i_pc) (\<lambda>pc. ret (Jump pc)))))))"

section \<open>Fields\<close>

text \<open>The switches over the type of a field.\<close>

definition push_field :: "u8 \<Rightarrow> u32 \<Rightarrow> ('e, unit) im" where
  "push_field t data =
    (if t = JC_TYPE_BOOLEAN then bindM (on_world (mem_load 1 data)) (\<lambda>v. push (ucast v))
     else if t = JC_TYPE_BYTE then bindM (on_world (mem_load 1 data)) (\<lambda>v. push (scast (ucast v :: u8)))
     else if t = JC_TYPE_CHAR then bindM (on_world (mem_load 2 data)) (\<lambda>v. push (ucast v))
     else if t = JC_TYPE_SHORT then bindM (on_world (mem_load 2 data)) (\<lambda>v. push (scast (ucast v :: u16)))
     else if t = JC_TYPE_INT then bindM (on_world (mem_load 4 data)) (\<lambda>v. push (ucast v))
     else if t = JC_TYPE_FLOAT then bindM (on_world (mem_load 4 data)) (\<lambda>v. push (ucast v))
     else if t = JC_TYPE_LONG then bindM (on_world (mem_load 8 data)) push2
     else if t = JC_TYPE_DOUBLE then bindM (on_world (mem_load 8 data)) push2
     else if t = JC_TYPE_REFERENCE then bindM (on_world (mem_load 4 data)) (\<lambda>v. push (ucast v))
     else ret ())"

definition store_field :: "u8 \<Rightarrow> u32 \<Rightarrow> int \<Rightarrow> ('e, unit) im" where
  "store_field t data i =
    (if t = JC_TYPE_BOOLEAN then bindM (stack i) (\<lambda>v. on_world (mem_store 1 data (ucast (v AND 0x01))))
     else if t = JC_TYPE_BYTE then bindM (stack i) (\<lambda>v. on_world (mem_store 1 data (ucast v)))
     else if t = JC_TYPE_CHAR then bindM (stack i) (\<lambda>v. on_world (mem_store 2 data (ucast v)))
     else if t = JC_TYPE_SHORT then bindM (stack i) (\<lambda>v. on_world (mem_store 2 data (ucast v)))
     else if t = JC_TYPE_INT then bindM (stack i) (\<lambda>v. on_world (mem_store 4 data (ucast v)))
     else if t = JC_TYPE_FLOAT then bindM (stack i) (\<lambda>v. on_world (mem_store 4 data (ucast v)))
     else if t = JC_TYPE_LONG then bindM (stack2 i) (\<lambda>v. on_world (mem_store 8 data v))
     else if t = JC_TYPE_DOUBLE then bindM (stack2 i) (\<lambda>v. on_world (mem_store 8 data v))
     else if t = JC_TYPE_REFERENCE then bindM (stack i) (\<lambda>v. on_world (mem_store 4 data (ucast v)))
     else ret ())"

definition do_getfield :: "'e vm \<Rightarrow> ('e, go) im" where
  "do_getfield vm = bindM info_field (\<lambda>fa. thenM (pop 1) (bindM (stack 0) (\<lambda>obj.
     if obj = null then ret Null_pointer
     else bindM (on_world (the_field vm fa)) (\<lambda>field. bindM (on_world (type_flags (fi_type field))) (\<lambda>flags.
       thenM (push_field (type_of_flags flags) (obj + fi_offset field)) (ret Next))))))"

definition do_putfield :: "'e vm \<Rightarrow> ('e, go) im" where
  "do_putfield vm = bindM info_field (\<lambda>fa. bindM (on_world (the_field vm fa)) (\<lambda>field.
     bindM (on_world (type_flags (fi_type field))) (\<lambda>flags.
     thenM (if dword_type (type_of_flags flags) then pop2 1 else pop 1) (thenM (pop 1) (bindM (stack 0) (\<lambda>obj.
       if obj = null then ret Null_pointer
       else thenM (store_field (type_of_flags flags) (obj + fi_offset field) 1) (ret Next)))))))"

text \<open>The class of a static field is initialised first.\<close>

definition initialized :: "'e vm \<Rightarrow> u32 \<Rightarrow> ('e, bool) im" where
  "initialized vm t = bindM (on_world (type_flags t)) (\<lambda>f.
     if flg_test f TYPE_INITIALIZED then ret True else service (sv_initialize vm t))"

definition do_getstatic :: "'e vm \<Rightarrow> ('e, go) im" where
  "do_getstatic vm = bindM info_field (\<lambda>fa. bindM (on_world (the_field vm fa)) (\<lambda>field.
     bindM (initialized vm (fi_class field)) (\<lambda>ok. if \<not> ok then ret Exception
     else bindM (on_world (the_type vm (fi_class field))) (\<lambda>c. bindM (on_world (type_flags (fi_type field))) (\<lambda>flags.
       thenM (push_field (type_of_flags flags) (ty_class_fields c + fi_offset field)) (ret Next))))))"

definition first_char :: "cstr \<Rightarrow> u8" where
  "first_char s = (case s of [] \<Rightarrow> 0 | c # _ \<Rightarrow> c)"

definition do_putstatic :: "'e vm \<Rightarrow> ('e, go) im" where
  "do_putstatic vm = bindM info_field (\<lambda>fa. bindM (on_world (the_field vm fa)) (\<lambda>field.
     let ptype = sig_type (first_char (fi_signature field)) in
     thenM (if dword_type ptype then pop2 1 else pop 1) (
     bindM (initialized vm (fi_class field)) (\<lambda>ok. if \<not> ok then ret Exception
     else bindM (on_world (the_type vm (fi_class field))) (\<lambda>c.
       thenM (store_field ptype (ty_class_fields c + fi_offset field) 0) (ret Next))))))"

end
