(* ===== verification/Interp.thy ===== *)
theory Interp
  imports Interp_Float Interp_Jump Interp_Heap
begin

text \<open>
  The interpreter, \<open>libjc/interp.c\<close>: the invocation of methods, the dispatch of instructions, exceptions
  and their handlers, the frame of a method, the entry from compiled code, and line numbers.
\<close>

section \<open>Invocations\<close>

definition opcode_at_pc :: "('e, u8) im" where
  "opcode_at_pc = bindM code_of (\<lambda>c. bindM (gets i_pc) (\<lambda>pc. liftM (load_at (co_opcodes c) pc)))"

text \<open>The words a pointer into the frame gives access to.\<close>

definition words_at :: "int \<Rightarrow> ('e, u32 list) im" where
  "words_at i = bindM (gets id) (\<lambda>s. let k = i_sp s + i in
     if 0 \<le> k \<and> k \<le> int (length (i_words s)) then ret (drop (nat k) (i_words s)) else fails (Fault Out_of_bounds))"

fun find_method :: "'e vm \<Rightarrow> u64 \<Rightarrow> u32 list \<Rightarrow> ('e world, u32 option) mon" where
  "find_method vm sig_hash [] = ret None"
| "find_method vm sig_hash (m # ms) = bindM (the_method vm m) (\<lambda>r.
     if me_signature_hash r = sig_hash then ret (Some m) else find_method vm sig_hash ms)"

text \<open>The method to invoke, or where to go instead.\<close>

definition select_interface :: "'e vm \<Rightarrow> u32 \<Rightarrow> u32 \<Rightarrow> ('e, go + u32) im" where
  "select_interface vm m obj =
     bindM (on_world (the_method vm m)) (\<lambda>im.
     bindM (on_world (instance_of vm obj (me_class im))) (\<lambda>status.
     if status = 0 then bindM (post vm IncompatibleClassChangeError) (\<lambda>g. ret (Inl g))
     else if status = -1 then ret (Inl Exception)
     else bindM (on_world (obj_type obj)) (\<lambda>t. bindM (on_world (the_type vm t)) (\<lambda>r.
       bindM (liftM (load (ty_imethods r) (unat (me_signature_hash im AND 127)))) (\<lambda>bucket. case bucket of
         None \<Rightarrow> bindM (post vm AbstractMethodError) (\<lambda>g. ret (Inl g))
       | Some ms \<Rightarrow> bindM (on_world (find_method vm (me_signature_hash im) ms)) (\<lambda>found. case found of
           None \<Rightarrow> bindM (post vm AbstractMethodError) (\<lambda>g. ret (Inl g))
         | Some m' \<Rightarrow> bindM (on_world (the_method vm m')) (\<lambda>r'.
             if \<not> acc_test (me_access r') ACC_PUBLIC then bindM (post vm IllegalAccessError) (\<lambda>g. ret (Inl g))
             else ret (Inr m'))))))))"

definition select_virtual :: "'e vm \<Rightarrow> u32 \<Rightarrow> u32 \<Rightarrow> ('e, go + u32) im" where
  "select_virtual vm m obj =
     bindM (on_world (obj_lockword obj)) (\<lambda>lw.
     bindM (if lw_array lw then ret (pr_Object (vm_program vm)) else on_world (obj_type obj)) (\<lambda>vtype.
     bindM (on_world (the_type vm vtype)) (\<lambda>r. bindM (on_world (the_method vm m)) (\<lambda>im.
     bindM (liftM (load (ty_mtable r) (me_vtable_index im))) (\<lambda>m'. ret (Inr m'))))))"

definition select_static :: "'e vm \<Rightarrow> u32 \<Rightarrow> ('e, go + u32) im" where
  "select_static vm m = bindM (on_world (the_method vm m)) (\<lambda>im. bindM (initialized vm (me_class im)) (\<lambda>ok.
     ret (if ok then Inr m else Inl Exception)))"

definition select_method :: "'e vm \<Rightarrow> u8 \<Rightarrow> u32 \<Rightarrow> u32 \<Rightarrow> ('e, go + u32) im" where
  "select_method vm opc m obj =
    (if opc = JC_invokeinterface then select_interface vm m obj
     else if opc = JC_invokevirtual then select_virtual vm m obj
     else if opc = JC_invokestatic then select_static vm m
     else ret (Inr m))"

text \<open>The switch that pushes the return value.\<close>

definition push_retval :: "u8 \<Rightarrow> ('e, unit) im" where
  "push_retval t = bindM (gets (\<lambda>s. w_retval (i_world s))) (\<lambda>v.
    (if t = JC_TYPE_BOOLEAN then push (ucast (ucast v :: u8))
     else if t = JC_TYPE_BYTE then push (scast (ucast v :: u8))
     else if t = JC_TYPE_CHAR then push (ucast (ucast v :: u16))
     else if t = JC_TYPE_SHORT then push (scast (ucast v :: u16))
     else if t = JC_TYPE_INT then push (ucast v)
     else if t = JC_TYPE_FLOAT then push (ucast v)
     else if t = JC_TYPE_REFERENCE then push (ucast v)
     else if t = JC_TYPE_LONG then push2 v
     else if t = JC_TYPE_DOUBLE then push2 v
     else ret ()))"

text \<open>An interpreted method is run by the argument.\<close>

type_synonym 'e runner = "u32 \<Rightarrow> u32 \<Rightarrow> u32 list \<Rightarrow> ('e world, bool) mon"

definition invoke_method :: "'e vm \<Rightarrow> 'e runner \<Rightarrow> u8 \<Rightarrow> u32 \<Rightarrow> u32 \<Rightarrow> ('e, go) im" where
  "invoke_method vm run opc m obj =
     bindM (words_at (if opc = JC_invokestatic then 0 else 1)) (\<lambda>params.
     bindM (words_at 0) (\<lambda>args.
     bindM (on_world (the_method vm m)) (\<lambda>meth.
     bindM (on_world (
         if acc_test (me_access meth) ACC_NATIVE then call (sv_native vm m args)
         else if acc_test (me_access meth) ACC_INTERP then run m obj params
         else call (sv_jcni vm m obj params))) (\<lambda>ok.
     if \<not> ok then ret Exception
     else bindM (liftM (load (me_param_ptypes meth) (me_num_parameters meth))) (\<lambda>t.
       thenM (push_retval t) (ret Next))))))"

definition do_invoke :: "'e vm \<Rightarrow> 'e runner \<Rightarrow> ('e, go) im" where
  "do_invoke vm run =
     bindM info_invoke (\<lambda>(m, n). thenM (pop (int n)) (
     bindM opcode_at_pc (\<lambda>opc.
     bindM (if opc = JC_invokestatic then ret null else stack 0) (\<lambda>obj.
     if opc \<noteq> JC_invokestatic \<and> obj = null then ret Null_pointer
     else bindM (select_method vm opc m obj) (\<lambda>sel. case sel of
         Inl g \<Rightarrow> ret g
       | Inr m' \<Rightarrow> invoke_method vm run opc m' obj)))))"

section \<open>Dispatch\<close>

text \<open>The labels of the actions; other opcodes have a null pointer.\<close>

definition actions_frame :: "(u8 \<times> ('e, go) im) list" where
  "actions_frame = [
     (JC_aload, do_aload), (JC_areturn, do_areturn), (JC_arraylength, do_arraylength), (JC_astore, do_astore),
     (JC_athrow, do_athrow), (JC_dload, do_dload), (JC_dreturn, do_dreturn), (JC_dstore, do_dstore),
     (JC_dup, do_dup), (JC_dup_x1, do_dup_x1), (JC_dup_x2, do_dup_x2), (JC_dup2, do_dup2),
     (JC_dup2_x1, do_dup2_x1), (JC_dup2_x2, do_dup2_x2), (JC_fload, do_fload), (JC_freturn, do_freturn),
     (JC_fstore, do_fstore), (JC_goto, do_goto), (JC_i2b, do_i2b), (JC_i2c, do_i2c), (JC_i2l, do_i2l),
     (JC_i2s, do_i2s), (JC_iadd, do_iadd), (JC_iand, do_iand), (JC_idiv, do_idiv), (JC_if_acmpeq, do_if_acmpeq),
     (JC_if_acmpne, do_if_acmpne), (JC_if_icmpeq, do_if_icmpeq), (JC_if_icmpne, do_if_icmpne),
     (JC_if_icmplt, do_if_icmplt), (JC_if_icmpge, do_if_icmpge), (JC_if_icmpgt, do_if_icmpgt),
     (JC_if_icmple, do_if_icmple), (JC_ifeq, do_ifeq), (JC_ifne, do_ifne), (JC_iflt, do_iflt),
     (JC_ifge, do_ifge), (JC_ifgt, do_ifgt), (JC_ifle, do_ifle), (JC_ifnonnull, do_ifnonnull),
     (JC_ifnull, do_ifnull), (JC_iinc, do_iinc), (JC_iload, do_iload), (JC_imul, do_imul), (JC_ineg, do_ineg),
     (JC_ior, do_ior), (JC_irem, do_irem), (JC_ireturn, do_ireturn), (JC_ishl, do_ishl), (JC_ishr, do_ishr),
     (JC_istore, do_istore), (JC_isub, do_isub), (JC_iushr, do_iushr), (JC_ixor, do_ixor), (JC_jsr, do_jsr),
     (JC_l2i, do_l2i), (JC_ladd, do_ladd), (JC_land, do_land), (JC_lcmp, do_lcmp), (JC_ldc, do_ldc),
     (JC_ldc2_w, do_ldc2_w), (JC_ldiv, do_ldiv), (JC_lload, do_lload), (JC_lmul, do_lmul), (JC_lneg, do_lneg),
     (JC_lookupswitch, do_lookupswitch), (JC_lor, do_lor), (JC_lrem, do_lrem), (JC_lreturn, do_lreturn),
     (JC_lshl, do_lshl), (JC_lshr, do_lshr), (JC_lstore, do_lstore), (JC_lsub, do_lsub), (JC_lushr, do_lushr),
     (JC_lxor, do_lxor), (JC_nop, do_nop), (JC_pop, do_pop), (JC_pop2, do_pop2), (JC_ret, do_ret),
     (JC_return, do_return), (JC_swap, do_swap), (JC_tableswitch, do_tableswitch)]"

definition actions_float :: "fpu \<Rightarrow> (u8 \<times> ('e, go) im) list" where
  "actions_float f = [
     (JC_d2f, do_d2f f), (JC_d2i, do_d2i f), (JC_d2l, do_d2l f), (JC_dadd, do_dadd f), (JC_dcmpg, do_dcmpg f),
     (JC_dcmpl, do_dcmpl f), (JC_ddiv, do_ddiv f), (JC_dmul, do_dmul f), (JC_dneg, do_dneg f), (JC_drem, do_drem f),
     (JC_dsub, do_dsub f), (JC_f2d, do_f2d f), (JC_f2i, do_f2i f), (JC_f2l, do_f2l f), (JC_fadd, do_fadd f),
     (JC_fcmpg, do_fcmpg f), (JC_fcmpl, do_fcmpl f), (JC_fdiv, do_fdiv f), (JC_fmul, do_fmul f), (JC_fneg, do_fneg f),
     (JC_frem, do_frem f), (JC_fsub, do_fsub f), (JC_i2d, do_i2d f), (JC_i2f, do_i2f f), (JC_l2d, do_l2d f),
     (JC_l2f, do_l2f f)]"

definition actions_heap :: "'e vm \<Rightarrow> 'e runner \<Rightarrow> (u8 \<times> ('e, go) im) list" where
  "actions_heap vm run = [
     (JC_aaload, do_aaload vm), (JC_aastore, do_aastore vm), (JC_anewarray, do_anewarray vm), (JC_baload, do_baload vm),
     (JC_bastore, do_bastore vm), (JC_caload, do_caload vm), (JC_castore, do_castore vm), (JC_checkcast, do_checkcast vm),
     (JC_daload, do_daload vm), (JC_dastore, do_dastore vm), (JC_faload, do_faload vm), (JC_fastore, do_fastore vm),
     (JC_getfield, do_getfield vm), (JC_getstatic, do_getstatic vm), (JC_iaload, do_iaload vm), (JC_iastore, do_iastore vm),
     (JC_instanceof, do_instanceof vm), (JC_invokeinterface, do_invoke vm run), (JC_invokespecial, do_invoke vm run),
     (JC_invokestatic, do_invoke vm run), (JC_invokevirtual, do_invoke vm run), (JC_laload, do_laload vm),
     (JC_lastore, do_lastore vm), (JC_ldc_string, do_ldc_string vm), (JC_monitorenter, do_monitorenter vm),
     (JC_monitorexit, do_monitorexit vm), (JC_multianewarray, do_multianewarray vm), (JC_new, do_new vm),
     (JC_newarray, do_newarray vm), (JC_putfield, do_putfield vm), (JC_putstatic, do_putstatic vm),
     (JC_saload, do_saload vm), (JC_sastore, do_sastore vm)]"

definition actions :: "'e vm \<Rightarrow> 'e runner \<Rightarrow> (u8 \<times> ('e, go) im) list" where
  "actions vm run = actions_frame @ actions_float (vm_fpu vm) @ actions_heap vm run"

text \<open>\<open>goto *actions[code->opcodes[pc]]\<close>\<close>

definition dispatch :: "'e vm \<Rightarrow> 'e runner \<Rightarrow> ('e, go) im" where
  "dispatch vm run = bindM opcode_at_pc (\<lambda>opc. case map_of (actions vm run) opc of
     None \<Rightarrow> fails (Fault Null_dereference) | Some m \<Rightarrow> m)"

section \<open>Exceptions\<close>

definition retrieve_exception :: "'e vm \<Rightarrow> u32 \<Rightarrow> ('e world, u32 option) mon" where
  "retrieve_exception vm type = bindM (gets w_pending) (\<lambda>e.
     bindM (if type = null then ret True else subclass_of vm e type) (\<lambda>matches.
     if matches then thenM (modify (\<lambda>w. w\<lparr>w_pending := null\<rparr>)) (ret (Some e)) else ret None))"

text \<open>The first trap that matches, with the exception.\<close>

fun find_trap :: "'e vm \<Rightarrow> interp_trap list \<Rightarrow> ('e, (interp_trap \<times> u32) option) im" where
  "find_trap vm [] = ret None"
| "find_trap vm (t # ts) = bindM (gets i_pc) (\<lambda>pc.
     if pc < int (it_start t) \<or> int (it_end t) \<le> pc then find_trap vm ts
     else bindM (on_world (retrieve_exception vm (it_type t))) (\<lambda>r. case r of
         None \<Rightarrow> find_trap vm ts
       | Some e \<Rightarrow> ret (Some (t, e))))"

text \<open>The label \<open>exception\<close>: where the handler is, with the exception on the stack.\<close>

definition handle_exception :: "'e vm \<Rightarrow> ('e, nat option) im" where
  "handle_exception vm = bindM code_of (\<lambda>c. bindM (find_trap vm (co_traps c)) (\<lambda>r. case r of
       None \<Rightarrow> ret None
     | Some (t, e) \<Rightarrow> thenM (set_word (int (co_max_locals c)) e) (
         thenM (modify (\<lambda>s. s\<lparr>i_sp := int (co_max_locals c) + 1\<rparr>)) (ret (Some (it_target t))))))"

section \<open>The interpreter\<close>

abbreviation periodic_check_ticks :: nat where "periodic_check_ticks \<equiv> 32"

text \<open>\<open>JUMP\<close> as far as the ticker: whether it is time for a check.\<close>

definition tick :: "int \<Rightarrow> ('e, bool) im" where
  "tick t = thenM (modify (\<lambda>s. s\<lparr>i_pc := t, i_ticker := i_ticker s - 1\<rparr>)) (gets (\<lambda>s. i_ticker s = 0))"

text \<open>
  The part up to the first \<open>JUMP\<close>: what follows it, with the frame that was set up. Without memory for
  the locals there are no words.
\<close>

definition copy_params :: "u32 \<Rightarrow> u32 list \<Rightarrow> jmethod \<Rightarrow> icode \<Rightarrow> u32 list \<Rightarrow> failure + u32 list" where
  "copy_params this args meth c words =
    (let n = co_num_params2 c in
     if acc_test (me_access meth) ACC_STATIC then
       (if n \<le> length args \<and> n \<le> length words then Inr (take n args @ drop n words) else Inl (Fault Out_of_bounds))
     else if n \<le> length args \<and> n + 1 \<le> length words then Inr (this # take n args @ drop (n + 1) words)
     else Inl (Fault Out_of_bounds))"

definition enter_frame :: "'e vm \<Rightarrow> jmethod \<Rightarrow> u32 \<Rightarrow> u32 list \<Rightarrow> ('e, go) im" where
  "enter_frame vm meth this args =
     bindM code_of (\<lambda>c. let n = co_max_locals c + co_max_stack c in
     bindM (gets i_world) (\<lambda>w.
     if \<not> sv_alloca vm (n * 4) w then post vm StackOverflowError
     else bindM (liftM (copy_params this args meth c (map (sv_garbage vm w) [0..<n]))) (\<lambda>words.
     thenM (modify (\<lambda>s. s\<lparr>i_words := words, i_sp := int (co_max_locals c)\<rparr>)) (
     if acc_test (me_access meth) ACC_SYNCHRONIZED then
       bindM (if acc_test (me_access meth) ACC_STATIC
           then bindM (on_world (the_type vm (me_class meth))) (\<lambda>t. ret (ty_instance t)) else ret this) (\<lambda>lock.
       bindM (service (sv_lock vm lock)) (\<lambda>ok.
       if ok then thenM (modify (\<lambda>s. s\<lparr>i_lock := lock\<rparr>)) (ret (Jump 0)) else ret Exception))
     else ret (Jump 0)))))"

text \<open>The labels \<open>done\<close> and \<open>exit\<close>.\<close>

definition exit_frame :: "'e vm \<Rightarrow> u32 list \<Rightarrow> bool \<Rightarrow> ('e, bool) im" where
  "exit_frame vm next status =
     bindM (gets id) (\<lambda>s.
     bindM (if i_lock s \<noteq> null then
         bindM (service (sv_unlock vm (i_lock s))) (\<lambda>ok.
         thenM (set_retval (w_retval (i_world s))) (ret (status \<and> ok)))
       else ret status) (\<lambda>status.
     thenM (on_world (modify (\<lambda>w. w\<lparr>w_java_stack := next\<rparr>))) (ret status)))"

text \<open>
  \<open>interp\<close> is \<open>_jc_interp\<close> from its beginning, \<open>interp_loop\<close> goes on where an action says. One unit of fuel
  is a turn of the loop or a frame.
\<close>

fun interp :: "nat \<Rightarrow> 'e vm \<Rightarrow> 'e runner"
  and interp_loop :: "nat \<Rightarrow> 'e vm \<Rightarrow> go \<Rightarrow> ('e, bool) im" where
  "interp 0 vm m this args = fails (Fault Out_of_fuel)"
| "interp (Suc n) vm m this args = bindM (gets id) (\<lambda>w.
     if sv_stack_low vm w then thenM (modify (sv_post vm StackOverflowError)) (ret False)
     else bindM (the_method vm m) (\<lambda>meth.
     if acc_test (me_access meth) ACC_ABSTRACT then thenM (modify (sv_post vm AbstractMethodError)) (ret False)
     else (\<lambda>w'. case bindM (enter_frame vm meth this args) (\<lambda>g. bindM (interp_loop n vm g) (exit_frame vm (w_java_stack w)))
         \<lparr>i_words = [], i_sp = 0, i_pc = 0, i_ticker = periodic_check_ticks, i_lock = null, i_method = m,
          i_world = w'\<lparr>w_java_stack := m # w_java_stack w'\<rparr>\<rparr> of (r, s) \<Rightarrow> (r, i_world s))))"
| "interp_loop 0 vm g = fails (Fault Out_of_fuel)"
| "interp_loop (Suc n) vm g = (case g of
     Next \<Rightarrow> thenM (modify (\<lambda>s. s\<lparr>i_pc := i_pc s + 1\<rparr>)) (bindM (dispatch vm (interp n vm)) (interp_loop n vm))
   | Jump t \<Rightarrow> bindM (tick t) (\<lambda>check.
       if check then bindM (service (sv_thread_check vm)) (\<lambda>ok.
         if ok then thenM (modify (\<lambda>s. s\<lparr>i_ticker := periodic_check_ticks\<rparr>)) (interp_loop n vm (Jump t))
         else interp_loop n vm Exception)
       else bindM (dispatch vm (interp n vm)) (interp_loop n vm))
   | Null_pointer \<Rightarrow> bindM (post vm NullPointerException) (interp_loop n vm)
   | Arithmetic \<Rightarrow> bindM (post vm ArithmeticException) (interp_loop n vm)
   | Exception \<Rightarrow> bindM (handle_exception vm) (\<lambda>r. case r of
         Some t \<Rightarrow> interp_loop n vm (Jump (int t))
       | None \<Rightarrow> ret False)
   | Done \<Rightarrow> ret True)"

section \<open>Entry from compiled code\<close>

text \<open>The variable arguments, as the C calling convention passes them.\<close>

datatype varg =
    A_int u32
  | A_long u64
  | A_double u64
  | A_ref u32

text \<open>
  The loop over the parameters: each goes from the arguments to the words from \<open>pnum\<close>, and a type that
  is not the one of the argument is undefined behaviour.
\<close>

definition put_param :: "u32 list \<Rightarrow> nat \<Rightarrow> u32 \<Rightarrow> failure + u32 list" where
  "put_param params pnum v = store params pnum v"

definition put_param2 :: "u32 list \<Rightarrow> nat \<Rightarrow> u64 \<Rightarrow> failure + u32 list" where
  "put_param2 params pnum v = (case store params pnum (ucast v) of
     Inl e \<Rightarrow> Inl e | Inr ps \<Rightarrow> store ps (pnum + 1) (ucast (drop_bit 32 v)))"

fun va_params :: "fpu \<Rightarrow> u8 list \<Rightarrow> varg list \<Rightarrow> u32 list \<Rightarrow> nat \<Rightarrow> failure + u32 list" where
  "va_params f [] args params pnum = Inr params"
| "va_params f (t # ts) args params pnum =
    (let go1 = (\<lambda>v rest. case put_param params pnum v of Inl e \<Rightarrow> Inl e | Inr ps \<Rightarrow> va_params f ts rest ps (pnum + 1));
         go2 = (\<lambda>v rest. case put_param2 params pnum v of Inl e \<Rightarrow> Inl e | Inr ps \<Rightarrow> va_params f ts rest ps (pnum + 2)) in
     if t = JC_TYPE_BOOLEAN then (case args of A_int v # rest \<Rightarrow> go1 (ucast (ucast v :: u8)) rest | _ \<Rightarrow> Inl (Fault Wrong_union_member))
     else if t = JC_TYPE_BYTE then (case args of A_int v # rest \<Rightarrow> go1 (scast (ucast v :: u8)) rest | _ \<Rightarrow> Inl (Fault Wrong_union_member))
     else if t = JC_TYPE_CHAR then (case args of A_int v # rest \<Rightarrow> go1 (ucast (ucast v :: u16)) rest | _ \<Rightarrow> Inl (Fault Wrong_union_member))
     else if t = JC_TYPE_SHORT then (case args of A_int v # rest \<Rightarrow> go1 (scast (ucast v :: u16)) rest | _ \<Rightarrow> Inl (Fault Wrong_union_member))
     else if t = JC_TYPE_INT then (case args of A_int v # rest \<Rightarrow> go1 v rest | _ \<Rightarrow> Inl (Fault Wrong_union_member))
     else if t = JC_TYPE_FLOAT then (case args of A_double v # rest \<Rightarrow> go1 (fp_narrow f v) rest | _ \<Rightarrow> Inl (Fault Wrong_union_member))
     else if t = JC_TYPE_LONG then (case args of A_long v # rest \<Rightarrow> go2 v rest | _ \<Rightarrow> Inl (Fault Wrong_union_member))
     else if t = JC_TYPE_DOUBLE then (case args of A_double v # rest \<Rightarrow> go2 v rest | _ \<Rightarrow> Inl (Fault Wrong_union_member))
     else if t = JC_TYPE_REFERENCE then (case args of A_ref v # rest \<Rightarrow> go1 v rest | _ \<Rightarrow> Inl (Fault Wrong_union_member))
     else va_params f ts args params pnum)"

text \<open>
  \<open>_jc_vinterp\<close> of the method in \<open>env->interp\<close>. The buffer has \<open>num_params2\<close> bytes, and so a quarter of that
  many whole words. The value is false where the function throws the exception instead of returning.
\<close>

definition va_this :: "jmethod \<Rightarrow> varg list \<Rightarrow> failure + u32 \<times> varg list" where
  "va_this meth args = (if acc_test (me_access meth) ACC_STATIC then Inr (null, args)
     else case args of A_ref a # rest \<Rightarrow> Inr (a, rest) | _ \<Rightarrow> Inl (Fault Wrong_union_member))"

definition vinterp :: "nat \<Rightarrow> 'e vm \<Rightarrow> u32 \<Rightarrow> varg list \<Rightarrow> ('e world, bool) mon" where
  "vinterp n vm m args =
     bindM (the_method vm m) (\<lambda>meth. bindM (gets id) (\<lambda>w. case w_code w m of
       None \<Rightarrow> fails (Fault Bad_address)
     | Some c \<Rightarrow>
         if \<not> sv_alloca vm (co_num_params2 c) w then thenM (modify (sv_post vm StackOverflowError)) (ret False)
         else bindM (liftM (va_this meth args)) (\<lambda>(this, rest).
           bindM (liftM (va_params (vm_fpu vm) (take (me_num_parameters meth) (me_param_ptypes meth)) rest
               (map (sv_garbage vm w) [0..<co_num_params2 c div 4]) 0)) (\<lambda>params.
           bindM (call (sv_clip vm)) (\<lambda>clipped.
           bindM (interp n vm m this params) (\<lambda>status.
           thenM (if clipped then modify (sv_unclip vm) else ret ()) (ret status)))))))"

section \<open>Line numbers\<close>

text \<open>The search of \<open>_jc_interp_pc_to_jline\<close> from the element \<open>b\<close>.\<close>

function jline_loop :: "(nat \<times> nat) list \<Rightarrow> nat \<Rightarrow> nat \<Rightarrow> nat \<Rightarrow> failure + nat" where
  "jline_loop maps index b span =
    (if span = 0 then Inr 0
     else let sample = b + span div 2 in case load maps sample of
       Inl e \<Rightarrow> Inl e
     | Inr x \<Rightarrow>
         if index \<le> fst x then jline_loop maps index b (span div 2)
         else (case load maps (sample + 1) of
             Inl e \<Rightarrow> Inl e
           | Inr y \<Rightarrow> if fst y < index then jline_loop maps index (sample + 1) ((span - 1) div 2) else Inr (snd x)))"
  by pat_completeness auto
termination by (relation "measure (\<lambda>(maps, index, b, span). span)") auto

declare jline_loop.simps [simp del]

definition interp_pc_to_jline :: "icode \<Rightarrow> nat \<Rightarrow> failure + nat" where
  "interp_pc_to_jline c index = jline_loop (co_linemaps c) index 0 (length (co_linemaps c))"

end
