(* ===== verification/Interp_Lines.thy ===== *)
theory Interp_Lines
  imports Interp
begin

text \<open>
  The line of an instruction, \<open>_jc_interp_pc_to_jline\<close> of \<open>libjc/interp.c\<close>: what the binary search finds, and
  the entry of a method from compiled code, \<open>_jc_vinterp\<close>.
\<close>

section \<open>Line numbers\<close>

lemma jline_loop_finds:
  assumes k: "\<And>i. i < length maps \<Longrightarrow> fst (maps ! i) < index \<longleftrightarrow> i < k" and kl: "k \<le> length maps"
  shows "b + span \<le> length maps \<Longrightarrow> k \<le> b + span \<Longrightarrow> b = 0 \<or> b < k \<Longrightarrow>
    jline_loop maps index b span =
      (if k = 0 then Inr 0 else if k = length maps then Inl (Fault Out_of_bounds) else Inr (snd (maps ! (k - 1))))"
proof (induction span arbitrary: b rule: less_induct)
  case (less span b)
  let ?s = "b + span div 2"
  consider (empty) "span = 0" | (low) "0 < span" "k \<le> ?s" | (last) "0 < span" "k = ?s + 1" | (high) "0 < span" "?s + 1 < k"
    by linarith
  then show ?case
  proof cases
    case empty
    then show ?thesis using less.prems by (subst jline_loop.simps) auto
  next
    case low
    then have "?s < length maps" "\<not> fst (maps ! ?s) < index" using less.prems(1) k [of ?s] by linarith+
    moreover have "jline_loop maps index b (span div 2) =
        (if k = 0 then Inr 0 else if k = length maps then Inl (Fault Out_of_bounds) else Inr (snd (maps ! (k - 1))))"
      using low less.prems by (intro less.IH) auto
    ultimately show ?thesis using low by (subst jline_loop.simps) (simp add: Let_def)
  next
    case last
    then have "?s < length maps" "fst (maps ! ?s) < index" using less.prems(1) k [of ?s] by linarith+
    then show ?thesis using last kl k [of "?s + 1"] by (subst jline_loop.simps) (auto simp: Let_def load_def)
  next
    case high
    then have "?s < length maps" "fst (maps ! ?s) < index" "?s + 1 < length maps" "fst (maps ! (?s + 1)) < index"
      using less.prems(1) kl k [of ?s] k [of "?s + 1"] by linarith+
    moreover have "jline_loop maps index (?s + 1) ((span - 1) div 2) =
        (if k = 0 then Inr 0 else if k = length maps then Inl (Fault Out_of_bounds) else Inr (snd (maps ! (k - 1))))"
      using high less.prems by (intro less.IH) linarith+
    ultimately show ?thesis using high by (subst jline_loop.simps) (simp add: Let_def)
  qed
qed

lemma filter_front:
  assumes "\<And>i. i < length xs \<Longrightarrow> P (xs ! i) \<longleftrightarrow> i < k" and "k \<le> length xs"
  shows "filter P xs = take k xs"
proof -
  have "filter P (take k xs) = take k xs" using assms by (auto simp: in_set_conv_nth intro!: filter_True)
  moreover have "filter P (drop k xs) = []" using assms(1) by (fastforce simp: in_set_conv_nth intro!: filter_False)
  ultimately show ?thesis using filter_append [of P "take k xs" "drop k xs"] by simp
qed

lemma sorted_front:
  assumes "sorted_wrt (<) (map fst xs)"
  obtains k where "k \<le> length xs" "\<And>i. i < length xs \<Longrightarrow> fst (xs ! i) < (n :: nat) \<longleftrightarrow> i < k"
proof -
  have mono: "fst (xs ! i) \<le> fst (xs ! j)" if "i \<le> j" "j < length xs" for i j
    using sorted_wrt_nth_less [OF assms, of i j] that by (cases "i = j") auto
  define k where "k = (LEAST k. k = length xs \<or> \<not> fst (xs ! k) < n)"
  have least: "k = length xs \<or> \<not> fst (xs ! k) < n" unfolding k_def by (rule LeastI [of _ "length xs"]) simp
  have le: "k \<le> length xs" unfolding k_def by (rule Least_le) simp
  have "fst (xs ! i) < n" if "i < k" for i using not_less_Least [of i] that unfolding k_def by blast
  moreover have "\<not> fst (xs ! i) < n" if "k \<le> i" "i < length xs" for i
    using least mono [of k i] that by fastforce
  ultimately show ?thesis using that [of k] le not_le_imp_less by blast
qed

text \<open>
  In a line number table sorted by the index of the instruction, the line that is found is the one of
  the last entry strictly before the instruction; behind the last entry the search reads beyond the
  table.
\<close>
theorem pc_to_jline_finds:
  assumes "sorted_wrt (<) (map fst (co_linemaps c))"
  shows "interp_pc_to_jline c index =
    (let before = filter (\<lambda>x. fst x < index) (co_linemaps c) in
     if before = [] then Inr 0
     else if before = co_linemaps c then Inl (Fault Out_of_bounds)
     else Inr (snd (last before)))"
proof -
  obtain k where k: "k \<le> length (co_linemaps c)" "\<And>i. i < length (co_linemaps c) \<Longrightarrow> fst (co_linemaps c ! i) < index \<longleftrightarrow> i < k"
    by (rule sorted_front [OF assms]) blast
  have "interp_pc_to_jline c index = (if k = 0 then Inr 0 else if k = length (co_linemaps c) then Inl (Fault Out_of_bounds)
      else Inr (snd (co_linemaps c ! (k - 1))))"
    unfolding interp_pc_to_jline_def using jline_loop_finds [OF k(2) k(1), of 0 "length (co_linemaps c)"] k(1) by simp
  moreover have "last (take k (co_linemaps c)) = co_linemaps c ! (k - 1)" if "k \<noteq> 0"
    using that k(1) by (cases k) (simp_all add: take_Suc_conv_app_nth)
  moreover have "take k (co_linemaps c) = co_linemaps c \<longleftrightarrow> k = length (co_linemaps c)"
    using k(1) by (metis length_take min.absorb2 take_all_iff order_refl)
  ultimately show ?thesis using k(1) by (auto simp: filter_front [OF k(2) k(1)] Let_def)
qed

definition two_lines :: icode where
  "two_lines = \<lparr>co_opcodes = [0, 0, 0, 0xb1], co_info = [I_none, I_none, I_none, I_none], co_traps = [],
     co_linemaps = [(0, 7), (2, 8)], co_max_stack = 0, co_max_locals = 0, co_num_params2 = 0\<rparr>"

theorem pc_to_jline_finds_witness:
  "interp_pc_to_jline two_lines 0 = Inr 0 \<and> interp_pc_to_jline two_lines 2 = Inr 7
   \<and> interp_pc_to_jline two_lines 3 = Inl (Fault Out_of_bounds)"
proof -
  have "sorted_wrt (<) (map fst (co_linemaps two_lines))" by (simp add: two_lines_def)
  note pc_to_jline_finds [OF this, of 0] pc_to_jline_finds [OF this, of 2] pc_to_jline_finds [OF this, of 3]
  then show ?thesis by (simp add: two_lines_def)
qed

section \<open>The buffer for the parameters\<close>

text \<open>The words of a parameter, and the arguments that compiled code passes for it.\<close>

definition param_words :: "u8 \<Rightarrow> nat" where
  "param_words t = (if dword_type t then 2 else 1)"

definition passed_as :: "u8 \<Rightarrow> varg \<Rightarrow> bool" where
  "passed_as t a = (case a of
     A_int v \<Rightarrow> t \<in> {JC_TYPE_BOOLEAN, JC_TYPE_BYTE, JC_TYPE_CHAR, JC_TYPE_SHORT, JC_TYPE_INT}
   | A_long v \<Rightarrow> t = JC_TYPE_LONG
   | A_double v \<Rightarrow> t = JC_TYPE_FLOAT \<or> t = JC_TYPE_DOUBLE
   | A_ref v \<Rightarrow> t = JC_TYPE_REFERENCE)"

lemma va_params_overflow:
  "list_all2 passed_as ts args \<Longrightarrow> length params < pnum + sum_list (map param_words ts) \<Longrightarrow> pnum \<le> length params \<Longrightarrow>
    va_params f ts args params pnum = Inl (Fault Out_of_bounds)"
proof (induction ts arbitrary: args params pnum)
  case Nil
  then show ?case by simp
next
  case (Cons t ts)
  then obtain a rest where a: "args = a # rest" "passed_as t a" "list_all2 passed_as ts rest" by (auto simp: list_all2_Cons1)
  have one: "(case put_param params pnum v of Inl e \<Rightarrow> Inl e | Inr ps \<Rightarrow> va_params f ts rest ps (pnum + 1)) = Inl (Fault Out_of_bounds)"
    if "param_words t = 1" for v
    using Cons.IH [OF a(3), of "params[pnum := v]" "Suc pnum"] Cons.prems that by (auto simp: put_param_def store_def)
  have two: "(case put_param2 params pnum v of Inl e \<Rightarrow> Inl e | Inr ps \<Rightarrow> va_params f ts rest ps (pnum + 2)) = Inl (Fault Out_of_bounds)"
    if "param_words t = 2" for v
    using Cons.IH [OF a(3), of "params[pnum := ucast v, Suc pnum := ucast (drop_bit 32 v)]" "pnum + 2"] Cons.prems that
    by (auto simp: put_param2_def store_def)
  show ?case
    using a(2) one two unfolding a(1) by (auto simp: Let_def passed_as_def param_words_def dword_type_def split: varg.splits)
qed

lemma words_ge: "length ts \<le> sum_list (map param_words ts)"
  by (induction ts) (auto simp: param_words_def)

text \<open>
  C29: Compiled code that calls an interpreted method with parameters writes beyond the buffer that is
  allocated for them: it has a byte for every word of the parameters.
\<close>
theorem vinterp_buffer_overflow:
  assumes "pr_methods (vm_program vm) m = Some meth" and "w_code w m = Some c" and "sv_alloca vm (co_num_params2 c) w"
    and "me_num_parameters meth \<le> length (me_param_ptypes meth)"
    and "co_num_params2 c = sum_list (map param_words (take (me_num_parameters meth) (me_param_ptypes meth)))"
    and "0 < me_num_parameters meth"
    and "va_this meth args = Inr (this, rest)"
    and "list_all2 passed_as (take (me_num_parameters meth) (me_param_ptypes meth)) rest"
  shows "vinterp n vm m args w = (Inl (Fault Out_of_bounds), w)"
proof -
  have "me_num_parameters meth \<le> sum_list (map param_words (take (me_num_parameters meth) (me_param_ptypes meth)))"
    using words_ge [of "take (me_num_parameters meth) (me_param_ptypes meth)"] assms(4) by simp
  then have "va_params (vm_fpu vm) (take (me_num_parameters meth) (me_param_ptypes meth)) rest
      (map (sv_garbage vm w) [0..<co_num_params2 c div 4]) 0 = Inl (Fault Out_of_bounds)"
    using assms(5,6) by (intro va_params_overflow [OF assms(8)]) auto
  then show ?thesis using assms(1,2,3,7) by (simp add: vinterp_def the_method_def bindM_def gets_def ret_def liftM_def fails_def)
qed

definition one_int_method :: jmethod where
  "one_int_method = \<lparr>me_name = c_str ''f'', me_signature = c_str ''(I)V'', me_class = 16, me_access = ACC_STATIC OR ACC_INTERP,
     me_param_ptypes = [JC_TYPE_INT, JC_TYPE_VOID], me_num_parameters = 1, me_signature_hash = 0, me_vtable_index = 0\<rparr>"

definition int_program :: program where
  "int_program = small_program\<lparr>pr_methods := [112 \<mapsto> one_int_method]\<rparr>"

definition int_world :: "unit world" where
  "int_world = small_world\<lparr>w_code := [112 \<mapsto> two_lines\<lparr>co_max_locals := 1, co_num_params2 := 1\<rparr>]\<rparr>"

theorem vinterp_buffer_overflow_witness:
  "vinterp 10 (small_vm int_program) 112 [A_int 5] int_world = (Inl (Fault Out_of_bounds), int_world)"
  by (rule vinterp_buffer_overflow [of _ _ one_int_method _ "two_lines\<lparr>co_max_locals := 1, co_num_params2 := 1\<rparr>" _ 0 "[A_int 5]"])
    (simp_all add: small_vm_def int_program_def int_world_def one_int_method_def param_words_def dword_type_def va_this_def
      passed_as_def acc_test_def)

end
