(* ===== verification/Interp_Check.thy ===== *)
theory Interp_Check
  imports Interp_Lines
begin

text \<open>
  A check of resolved code: every instruction has the information it uses and finds its operands on the
  stack, whose depth at each instruction is given by a table. It is the part of the verification of
  class files that the safety of the frame needs; the interpreter itself relies on it. The jumps to
  subroutines are not accepted.
\<close>

section \<open>Effects\<close>

text \<open>The words an instruction pops and pushes that goes on to the next one and has no information.\<close>

definition plain_effects :: "(u8 \<times> nat \<times> nat) list" where
  "plain_effects = [
     (JC_nop, 0, 0), (JC_pop, 1, 0), (JC_pop2, 2, 0), (JC_dup, 1, 2), (JC_dup_x1, 2, 3), (JC_dup_x2, 3, 4),
     (JC_dup2, 2, 4), (JC_dup2_x1, 3, 5), (JC_dup2_x2, 4, 6), (JC_swap, 2, 2),
     (JC_iadd, 2, 1), (JC_isub, 2, 1), (JC_imul, 2, 1), (JC_idiv, 2, 1), (JC_irem, 2, 1), (JC_ineg, 1, 1),
     (JC_iand, 2, 1), (JC_ior, 2, 1), (JC_ixor, 2, 1), (JC_ishl, 2, 1), (JC_ishr, 2, 1), (JC_iushr, 2, 1),
     (JC_i2b, 1, 1), (JC_i2c, 1, 1), (JC_i2s, 1, 1), (JC_i2l, 1, 2), (JC_i2f, 1, 1), (JC_i2d, 1, 2),
     (JC_ladd, 4, 2), (JC_lsub, 4, 2), (JC_lmul, 4, 2), (JC_ldiv, 4, 2), (JC_lrem, 4, 2), (JC_lneg, 2, 2),
     (JC_land, 4, 2), (JC_lor, 4, 2), (JC_lxor, 4, 2), (JC_lshl, 3, 2), (JC_lshr, 3, 2), (JC_lushr, 3, 2),
     (JC_lcmp, 4, 1), (JC_l2i, 2, 1), (JC_l2f, 2, 1), (JC_l2d, 2, 2),
     (JC_fadd, 2, 1), (JC_fsub, 2, 1), (JC_fmul, 2, 1), (JC_fdiv, 2, 1), (JC_frem, 2, 1), (JC_fneg, 1, 1),
     (JC_fcmpg, 2, 1), (JC_fcmpl, 2, 1), (JC_f2i, 1, 1), (JC_f2l, 1, 2), (JC_f2d, 1, 2),
     (JC_dadd, 4, 2), (JC_dsub, 4, 2), (JC_dmul, 4, 2), (JC_ddiv, 4, 2), (JC_drem, 4, 2), (JC_dneg, 2, 2),
     (JC_dcmpg, 4, 1), (JC_dcmpl, 4, 1), (JC_d2i, 2, 1), (JC_d2l, 2, 2), (JC_d2f, 2, 1),
     (JC_aaload, 2, 1), (JC_baload, 2, 1), (JC_caload, 2, 1), (JC_faload, 2, 1), (JC_iaload, 2, 1), (JC_saload, 2, 1),
     (JC_daload, 2, 2), (JC_laload, 2, 2),
     (JC_aastore, 3, 0), (JC_bastore, 3, 0), (JC_castore, 3, 0), (JC_fastore, 3, 0), (JC_iastore, 3, 0), (JC_sastore, 3, 0),
     (JC_dastore, 4, 0), (JC_lastore, 4, 0), (JC_arraylength, 1, 1), (JC_monitorenter, 1, 0), (JC_monitorexit, 1, 0)]"

text \<open>Those that leave the method or raise an exception\<close>

definition leave_effects :: "(u8 \<times> nat) list" where
  "leave_effects = [(JC_areturn, 1), (JC_freturn, 1), (JC_ireturn, 1), (JC_dreturn, 2), (JC_lreturn, 2), (JC_return, 0), (JC_athrow, 1)]"

text \<open>Those with a local variable: its words, pops and pushes\<close>

definition local_effects :: "(u8 \<times> nat \<times> nat \<times> nat) list" where
  "local_effects = [(JC_aload, 1, 0, 1), (JC_fload, 1, 0, 1), (JC_iload, 1, 0, 1), (JC_dload, 2, 0, 2), (JC_lload, 2, 0, 2),
     (JC_astore, 1, 1, 0), (JC_fstore, 1, 1, 0), (JC_istore, 1, 1, 0), (JC_dstore, 2, 2, 0), (JC_lstore, 2, 2, 0)]"

text \<open>The conditional branches\<close>

definition branch_effects :: "(u8 \<times> nat) list" where
  "branch_effects = [(JC_if_acmpeq, 2), (JC_if_acmpne, 2), (JC_if_icmpeq, 2), (JC_if_icmpne, 2), (JC_if_icmplt, 2),
     (JC_if_icmpge, 2), (JC_if_icmpgt, 2), (JC_if_icmple, 2), (JC_ifeq, 1), (JC_ifne, 1), (JC_iflt, 1), (JC_ifge, 1),
     (JC_ifgt, 1), (JC_ifle, 1), (JC_ifnonnull, 1), (JC_ifnull, 1)]"

text \<open>Those with a type\<close>

definition type_effects :: "(u8 \<times> nat \<times> nat) list" where
  "type_effects = [(JC_new, 0, 1), (JC_newarray, 1, 1), (JC_anewarray, 1, 1), (JC_checkcast, 1, 1), (JC_instanceof, 1, 1)]"

text \<open>The words of a value that is returned, of a field, and of the parameters of a method\<close>

definition value_types :: "u8 list" where
  "value_types = [JC_TYPE_BOOLEAN, JC_TYPE_BYTE, JC_TYPE_CHAR, JC_TYPE_SHORT, JC_TYPE_INT, JC_TYPE_LONG, JC_TYPE_FLOAT,
     JC_TYPE_DOUBLE, JC_TYPE_REFERENCE]"

definition result_words :: "u8 \<Rightarrow> nat" where
  "result_words t = (if t \<in> set value_types then param_words t else 0)"

definition field_type :: "jfield \<Rightarrow> u8" where
  "field_type f = sig_type (first_char (fi_signature f))"

definition method_words :: "jmethod \<Rightarrow> nat" where
  "method_words meth = sum_list (map param_words (take (me_num_parameters meth) (me_param_ptypes meth)))"

definition this_words :: "jmethod \<Rightarrow> nat" where
  "this_words meth = (if acc_test (me_access meth) ACC_STATIC then 0 else 1)"

text \<open>The words popped and pushed, whether the next instruction follows, and the targets of the jumps\<close>

type_synonym effect = "nat \<times> nat \<times> bool \<times> nat list"

definition invoke_effect :: "program \<Rightarrow> u32 set \<Rightarrow> u8 \<Rightarrow> u32 \<Rightarrow> nat \<Rightarrow> effect option" where
  "invoke_effect P V opc m n = (case pr_methods P m of None \<Rightarrow> None | Some meth \<Rightarrow>
     if (opc = JC_invokestatic \<or> opc = JC_invokespecial \<or> (opc = JC_invokevirtual \<or> opc = JC_invokeinterface) \<and> m \<in> V)
       \<and> n = (if opc = JC_invokestatic then 0 else 1) + method_words meth \<and> me_num_parameters meth < length (me_param_ptypes meth)
       \<and> (opc = JC_invokestatic \<longleftrightarrow> acc_test (me_access meth) ACC_STATIC)
     then Some (n, result_words (me_param_ptypes meth ! me_num_parameters meth), True, []) else None)"

definition field_effect :: "program \<Rightarrow> u8 \<Rightarrow> u32 \<Rightarrow> effect option" where
  "field_effect P opc fa = (case pr_fields P fa of None \<Rightarrow> None | Some f \<Rightarrow>
     let w = param_words (field_type f) in
     if opc = JC_getstatic then Some (0, w, True, [])
     else if opc = JC_putstatic then Some (w, 0, True, [])
     else if opc = JC_getfield then Some (1, w, True, [])
     else if opc = JC_putfield then Some (1 + w, 0, True, []) else None)"

definition insn_effect :: "program \<Rightarrow> u32 set \<Rightarrow> nat \<Rightarrow> u8 \<Rightarrow> iinfo \<Rightarrow> effect option" where
  "insn_effect P V locals opc i = (case map_of plain_effects opc of
     Some (a, b) \<Rightarrow> Some (a, b, True, [])
   | None \<Rightarrow> (case map_of leave_effects opc of
       Some a \<Rightarrow> Some (a, 0, False, [])
     | None \<Rightarrow> (case i of
         I_none \<Rightarrow> None
       | I_local k \<Rightarrow> (case map_of local_effects opc of
             Some (w, a, b) \<Rightarrow> if k + w \<le> locals then Some (a, b, True, []) else None | None \<Rightarrow> None)
       | I_iinc k v \<Rightarrow> if opc = JC_iinc \<and> k < locals then Some (0, 0, True, []) else None
       | I_target t \<Rightarrow> if opc = JC_goto then Some (0, 0, False, [t])
           else map_option (\<lambda>a. (a, 0, True, [t])) (map_of branch_effects opc)
       | I_constant v \<Rightarrow> if opc = JC_ldc then Some (0, 1, True, []) else if opc = JC_ldc2_w then Some (0, 2, True, []) else None
       | I_utf8 u \<Rightarrow> if opc = JC_ldc_string then Some (0, 1, True, []) else None
       | I_type t \<Rightarrow> map_option (\<lambda>(a, b). (a, b, True, [])) (map_of type_effects opc)
       | I_field f \<Rightarrow> field_effect P opc f
       | I_multianewarray t n \<Rightarrow> if opc = JC_multianewarray then Some (n, 1, True, []) else None
       | I_lookupswitch s \<Rightarrow> if opc = JC_lookupswitch then Some (1, 0, False, sw_default s # map snd (sw_pairs s)) else None
       | I_tableswitch s \<Rightarrow> if opc = JC_tableswitch \<and> int (length (tw_targets s)) = sint (tw_high s) - sint (tw_low s) + 1
             \<and> length (tw_targets s) < 2 ^ 31
           then Some (1, 0, False, tw_default s # tw_targets s) else None
       | I_invoke m n \<Rightarrow> invoke_effect P V opc m n)))"

section \<open>The check\<close>

definition flows :: "nat list \<Rightarrow> nat \<Rightarrow> nat \<Rightarrow> bool" where
  "flows ds d pc \<longleftrightarrow> pc < length ds \<and> ds ! pc = d"

definition check_insn :: "program \<Rightarrow> u32 set \<Rightarrow> icode \<Rightarrow> nat list \<Rightarrow> nat \<Rightarrow> bool" where
  "check_insn P V c ds pc = (case insn_effect P V (co_max_locals c) (co_opcodes c ! pc) (co_info c ! pc) of
     None \<Rightarrow> False
   | Some (a, b, falls, targets) \<Rightarrow>
       let d = ds ! pc - a + b in
       a \<le> ds ! pc \<and> ds ! pc \<le> co_max_stack c \<and> d \<le> co_max_stack c
       \<and> (falls \<longrightarrow> flows ds d (pc + 1)) \<and> list_all (flows ds d) targets)"

definition check_trap :: "icode \<Rightarrow> nat list \<Rightarrow> interp_trap \<Rightarrow> bool" where
  "check_trap c ds t \<longleftrightarrow> 1 \<le> co_max_stack c \<and> flows ds 1 (it_target t)"

definition check_code :: "program \<Rightarrow> u32 set \<Rightarrow> icode \<Rightarrow> nat list \<Rightarrow> bool" where
  "check_code P V c ds \<longleftrightarrow> length (co_opcodes c) = length ds \<and> length (co_info c) = length ds \<and> flows ds 0 0
     \<and> list_all (check_insn P V c ds) [0..<length ds] \<and> list_all (check_trap c ds) (co_traps c)"

definition check_method :: "program \<Rightarrow> u32 set \<Rightarrow> jmethod \<Rightarrow> icode \<Rightarrow> nat list \<Rightarrow> bool" where
  "check_method P V meth c ds \<longleftrightarrow> check_code P V c ds \<and> co_num_params2 c = method_words meth
     \<and> this_words meth + method_words meth \<le> co_max_locals c"

end
