(* ===== verification/Interp_Safe.thy ===== *)
theory Interp_Safe
  imports Interp_Check
begin

text \<open>
  Checked code runs inside its frame: every read and write of a local variable or of the operand stack is
  inside the words of the frame, information is read as what it was resolved to, and the program counter
  stays inside the code.
\<close>

section \<open>The rest of the world\<close>

text \<open>What may still go wrong: a wild address of the heap, the quotient that does not fit, and the fuel.\<close>

definition tolerated :: "failure \<Rightarrow> bool" where
  "tolerated f \<longleftrightarrow> f \<in> {Fault Bad_address, Fault Quotient_overflow, Fault Out_of_fuel}"

text \<open>String constants are replaced while the code runs.\<close>

definition same_insn :: "u8 \<times> iinfo \<Rightarrow> u8 \<times> iinfo \<Rightarrow> bool" where
  "same_insn x y \<longleftrightarrow> y = x
     \<or> (fst x = JC_ldc_string \<and> (\<exists>u. snd x = I_utf8 u) \<or> fst x = JC_ldc \<and> (\<exists>u. snd x = I_constant u))
       \<and> fst y = JC_ldc \<and> (\<exists>v. snd y = I_constant v)"

definition same_code :: "icode \<Rightarrow> icode \<Rightarrow> bool" where
  "same_code c c' \<longleftrightarrow> co_max_locals c' = co_max_locals c \<and> co_max_stack c' = co_max_stack c \<and> co_traps c' = co_traps c
     \<and> co_num_params2 c' = co_num_params2 c \<and> length (co_opcodes c') = length (co_opcodes c) \<and> length (co_info c') = length (co_info c)
     \<and> (\<forall>k < length (co_opcodes c). same_insn (co_opcodes c ! k, co_info c ! k) (co_opcodes c' ! k, co_info c' ! k))"

definition evolves :: "'e world \<Rightarrow> 'e world \<Rightarrow> bool" where
  "evolves w w' \<longleftrightarrow> (\<forall>m c. w_code w m = Some c \<longrightarrow> (\<exists>c'. w_code w' m = Some c' \<and> same_code c c'))"

text \<open>All code is checked, and the flags of the type of a field go with its signature.\<close>

definition code_ok :: "'e vm \<Rightarrow> u32 set \<Rightarrow> u32 \<Rightarrow> icode \<Rightarrow> bool" where
  "code_ok vm V m c \<longleftrightarrow> (\<exists>meth ds. pr_methods (vm_program vm) m = Some meth \<and> check_method (vm_program vm) V meth c ds)"

definition world_ok :: "'e vm \<Rightarrow> u32 set \<Rightarrow> 'e world \<Rightarrow> bool" where
  "world_ok vm V w \<longleftrightarrow> (\<forall>m c. w_code w m = Some c \<longrightarrow> code_ok vm V m c)
     \<and> (\<forall>a f. pr_fields (vm_program vm) a = Some f \<longrightarrow>
          type_of_flags (w_flags w (fi_type f)) \<in> set value_types \<and> field_type f \<in> set value_types
          \<and> param_words (type_of_flags (w_flags w (fi_type f))) = param_words (field_type f))"

definition keeps :: "'e vm \<Rightarrow> u32 set \<Rightarrow> 'e world \<Rightarrow> 'e world \<Rightarrow> bool" where
  "keeps vm V w w' \<longleftrightarrow> (world_ok vm V w \<longrightarrow> world_ok vm V w' \<and> evolves w w')"

text \<open>The other parts of the virtual machine leave code checked and the code that runs as it is.\<close>

definition services_ok :: "'e vm \<Rightarrow> u32 set \<Rightarrow> bool" where
  "services_ok vm V \<longleftrightarrow>
     (\<forall>w. (\<forall>e. keeps vm V w (sv_post vm e w)) \<and> (\<forall>a. keeps vm V w (snd (sv_lock vm a w)))
        \<and> (\<forall>a. keeps vm V w (snd (sv_unlock vm a w))) \<and> (\<forall>a. keeps vm V w (snd (sv_resolve vm a w)))
        \<and> (\<forall>a. keeps vm V w (snd (sv_initialize vm a w))) \<and> keeps vm V w (snd (sv_thread_check vm w))
        \<and> (\<forall>a. keeps vm V w (snd (sv_new_object vm a w))) \<and> (\<forall>a n. keeps vm V w (snd (sv_new_array vm a n w)))
        \<and> (\<forall>a ns. keeps vm V w (snd (sv_new_multiarray vm a ns w))) \<and> (\<forall>s. keeps vm V w (snd (sv_intern vm s w)))
        \<and> (\<forall>m a. keeps vm V w (snd (sv_implicit_ref vm m a w))) \<and> (\<forall>m ps. keeps vm V w (snd (sv_native vm m ps w)))
        \<and> (\<forall>m a ps. keeps vm V w (snd (sv_jcni vm m a ps w))) \<and> (\<forall>n. sv_alloca vm n w))"

text \<open>
  The tables of the types: their sizes, and for the methods of \<open>V\<close>, which are called through them, that
  they hold methods of the same shape.
\<close>

definition same_shape :: "jmethod \<Rightarrow> jmethod \<Rightarrow> bool" where
  "same_shape x y \<longleftrightarrow> method_words y = method_words x \<and> me_num_parameters y < length (me_param_ptypes y)
     \<and> result_words (me_param_ptypes y ! me_num_parameters y) = result_words (me_param_ptypes x ! me_num_parameters x)"

definition tables_ok :: "program \<Rightarrow> u32 set \<Rightarrow> bool" where
  "tables_ok P V \<longleftrightarrow> (\<forall>t r. pr_types P t = Some r \<longrightarrow> length (ty_instanceof r) = 128 \<and> length (ty_imethods r) = 128)
     \<and> (\<forall>m im t r. m \<in> V \<longrightarrow> pr_methods P m = Some im \<longrightarrow> pr_types P t = Some r \<longrightarrow>
          me_vtable_index im < length (ty_mtable r)
          \<and> (\<forall>y. pr_methods P (ty_mtable r ! me_vtable_index im) = Some y \<longrightarrow> same_shape im y)
          \<and> (\<forall>ms k y. Some ms \<in> set (ty_imethods r) \<longrightarrow> k \<in> set ms \<longrightarrow> pr_methods P k = Some y \<longrightarrow>
               me_signature_hash y = me_signature_hash im \<longrightarrow> same_shape im y))"

lemma same_code_refl [simp, intro]: "same_code c c"
  by (simp add: same_code_def same_insn_def)

lemma same_insn_trans: "same_insn x y \<Longrightarrow> same_insn y z \<Longrightarrow> same_insn x z"
  by (auto simp: same_insn_def)

lemma same_code_trans: "same_code c d \<Longrightarrow> same_code d e \<Longrightarrow> same_code c e"
  unfolding same_code_def using same_insn_trans by (smt (verit, ccfv_threshold))

lemma evolves_refl [simp, intro]: "evolves w w"
  by (auto simp: evolves_def)

lemma evolves_trans: "evolves w w' \<Longrightarrow> evolves w' w'' \<Longrightarrow> evolves w w''"
  unfolding evolves_def by (meson same_code_trans)

lemma keeps_same [simp, intro]: "keeps vm V w w"
  by (simp add: keeps_def)

text \<open>What neither the flags nor the code change does not matter.\<close>

lemma keeps_other: "w_code w' = w_code w \<Longrightarrow> w_flags w' = w_flags w \<Longrightarrow> keeps vm V w w'"
  by (simp add: keeps_def world_ok_def evolves_def)

lemma string_effects:
  "map_of plain_effects JC_ldc_string = None" "map_of leave_effects JC_ldc_string = None"
  "map_of plain_effects JC_ldc = None" "map_of leave_effects JC_ldc = None"
  by (simp_all add: plain_effects_def leave_effects_def)

lemma same_insn_effect: "same_insn (opc, i) (opc', i') \<Longrightarrow> insn_effect P V l opc' i' = insn_effect P V l opc i"
  unfolding same_insn_def by (elim disjE conjE exE) (simp_all add: insn_effect_def string_effects)

lemma same_code_check:
  assumes "same_code c c'" and "check_method P V meth c ds"
  shows "check_method P V meth c' ds"
proof -
  have "check_insn P V c' ds k \<longleftrightarrow> check_insn P V c ds k" if "k < length ds" for k
  proof -
    have "same_insn (co_opcodes c ! k, co_info c ! k) (co_opcodes c' ! k, co_info c' ! k)"
      using assms that by (auto simp: same_code_def check_method_def check_code_def)
    then have eq: "insn_effect P V l (co_opcodes c' ! k) (co_info c' ! k) = insn_effect P V l (co_opcodes c ! k) (co_info c ! k)" for l
      by (rule same_insn_effect)
    have "co_max_locals c' = co_max_locals c" "co_max_stack c' = co_max_stack c" using assms(1) by (simp_all add: same_code_def)
    then show ?thesis unfolding check_insn_def by (simp only: eq)
  qed
  moreover have "check_trap c' = check_trap c" using assms(1) by (auto simp: check_trap_def same_code_def fun_eq_iff)
  ultimately show ?thesis using assms by (auto simp: check_method_def check_code_def same_code_def list_all_iff)
qed

section \<open>Computations on the world\<close>

definition world_safe :: "'e vm \<Rightarrow> u32 set \<Rightarrow> ('e world, 'a) mon \<Rightarrow> ('a \<Rightarrow> bool) \<Rightarrow> bool" where
  "world_safe vm V m R \<longleftrightarrow> (\<forall>w. world_ok vm V w \<longrightarrow> (case m w of
      (Inl f, _) \<Rightarrow> tolerated f
    | (Inr r, w') \<Rightarrow> world_ok vm V w' \<and> evolves w w' \<and> R r))"

named_theorems world_rules

lemma world_bind [world_rules]:
  assumes m: "world_safe vm V m S" and k: "\<And>x. S x \<Longrightarrow> world_safe vm V (k x) R"
  shows "world_safe vm V (bindM m k) R"
  unfolding world_safe_def
proof (intro allI impI)
  fix w assume w: "world_ok vm V w"
  show "case bindM m k w of (Inl f, _) \<Rightarrow> tolerated f | (Inr r, w') \<Rightarrow> world_ok vm V w' \<and> evolves w w' \<and> R r"
  proof (cases "fst (m w)")
    case (Inl f)
    then show ?thesis using m [unfolded world_safe_def, rule_format, OF w] by (cases "m w") (simp add: bindM_def)
  next
    case (Inr x)
    then obtain w' where e: "m w = (Inr x, w')" by (cases "m w") auto
    then have "world_ok vm V w'" "evolves w w'" "S x" using m [unfolded world_safe_def, rule_format, OF w] by auto
    then show ?thesis using e k [unfolded world_safe_def, rule_format, of x w']
      by (auto simp: bindM_def split: sum.splits prod.splits dest: evolves_trans)
  qed
qed

lemma world_then: "world_safe vm V m (\<lambda>_. True) \<Longrightarrow> world_safe vm V k R \<Longrightarrow> world_safe vm V (thenM m k) R"
  unfolding thenM_def by (rule world_bind)

lemma world_ret [world_rules]: "R x \<Longrightarrow> world_safe vm V (ret x) R"
  by (simp add: world_safe_def ret_def)

lemma world_fails: "tolerated f \<Longrightarrow> world_safe vm V (fails f) R"
  by (simp add: world_safe_def fails_def)

lemma world_weaken: "world_safe vm V m S \<Longrightarrow> (\<And>x. S x \<Longrightarrow> R x) \<Longrightarrow> world_safe vm V m R"
  unfolding world_safe_def by (fastforce split: sum.splits prod.splits)

lemma world_if: "(b \<Longrightarrow> world_safe vm V m R) \<Longrightarrow> (\<not> b \<Longrightarrow> world_safe vm V k R) \<Longrightarrow> world_safe vm V (if b then m else k) R"
  by simp

lemma world_modify: "(\<And>w. keeps vm V w (f w)) \<Longrightarrow> world_safe vm V (modify f) (\<lambda>_. True)"
  by (simp add: world_safe_def modify_def keeps_def)

lemma world_call: "(\<And>w. keeps vm V w (snd (f w))) \<Longrightarrow> world_safe vm V (call f) (\<lambda>_. True)"
  by (simp add: world_safe_def call_def keeps_def)

lemma world_load [world_rules]: "world_safe vm V (mem_load n a) (\<lambda>_. True)"
  by (simp add: world_safe_def mem_load_def tolerated_def split: option.splits)

lemma world_store [world_rules]: "world_safe vm V (mem_store n a v) (\<lambda>_. True)"
proof -
  have "world_ok vm V (w\<lparr>w_mem := mem\<rparr>) \<and> evolves w (w\<lparr>w_mem := mem\<rparr>)" if "world_ok vm V w" for w :: "'a world" and mem
    using keeps_other [of "w\<lparr>w_mem := mem\<rparr>" w] that by (simp add: keeps_def)
  then show ?thesis by (simp add: world_safe_def mem_store_def tolerated_def split: option.splits)
qed

lemma world_type [world_rules]: "world_safe vm V (the_type vm a) (\<lambda>r. pr_types (vm_program vm) a = Some r)"
  by (auto simp: the_type_def tolerated_def intro!: world_ret world_fails split: option.splits)

lemma world_method [world_rules]: "world_safe vm V (the_method vm a) (\<lambda>r. pr_methods (vm_program vm) a = Some r)"
  by (auto simp: the_method_def tolerated_def intro!: world_ret world_fails split: option.splits)

lemma world_field [world_rules]: "world_safe vm V (the_field vm a) (\<lambda>r. pr_fields (vm_program vm) a = Some r)"
  by (auto simp: the_field_def tolerated_def intro!: world_ret world_fails split: option.splits)

lemma world_flags: "world_safe vm V (type_flags a) (\<lambda>_. True)"
  by (simp add: world_safe_def type_flags_def gets_def)

lemma world_lockword [world_rules]: "world_safe vm V (obj_lockword a) (\<lambda>_. True)"
  and world_obj_type [world_rules]: "world_safe vm V (obj_type a) (\<lambda>_. True)"
  and world_array_length [world_rules]: "world_safe vm V (array_length a) (\<lambda>_. True)"
  unfolding obj_lockword_def obj_type_def array_length_def by (rule world_bind, rule world_load, rule world_ret, simp)+

lemma world_liftM_load [world_rules]: "k < length xs \<Longrightarrow> R (xs ! k) \<Longrightarrow> world_safe vm V (liftM (load xs k)) R"
  by (simp add: world_safe_def liftM_def)

lemmas service_keeps = services_ok_def [THEN iffD1, rule_format]

lemma service_facts:
  assumes "services_ok vm V"
  shows "keeps vm V w (sv_post vm e w)" "keeps vm V w (snd (sv_lock vm a w))" "keeps vm V w (snd (sv_unlock vm a w))"
    "keeps vm V w (snd (sv_resolve vm a w))" "keeps vm V w (snd (sv_initialize vm a w))" "keeps vm V w (snd (sv_thread_check vm w))"
    "keeps vm V w (snd (sv_new_object vm a w))" "keeps vm V w (snd (sv_new_array vm a n w))"
    "keeps vm V w (snd (sv_new_multiarray vm a ns w))" "keeps vm V w (snd (sv_intern vm u w))"
    "keeps vm V w (snd (sv_implicit_ref vm m a w))" "keeps vm V w (snd (sv_native vm m ps w))"
    "keeps vm V w (snd (sv_jcni vm m a ps w))" "sv_alloca vm k w"
  using assms by (simp_all add: services_ok_def)

lemma bucket_in: "tables_ok P V \<Longrightarrow> pr_types P t = Some r \<Longrightarrow> unat (h AND 127 :: u64) < length (ty_instanceof r)
    \<and> unat (h AND 127) < length (ty_imethods r)"
  using bucket_less [of h] by (simp add: tables_ok_def)

abbreviation answer :: "int \<Rightarrow> bool" where "answer k \<equiv> k = 1 \<or> k = 0 \<or> k = -1"

lemma world_resolved [world_rules]: "services_ok vm V \<Longrightarrow> world_safe vm V (type_resolved vm a) (\<lambda>_. True)"
  unfolding type_resolved_def
  by (rule world_bind, rule world_flags) (auto intro!: world_ret world_call service_facts)

lemma world_table [world_rules]: "tables_ok (vm_program vm) V \<Longrightarrow> world_safe vm V (in_instanceof_table vm s t) answer"
  unfolding in_instanceof_table_def
  by (rule world_bind, rule world_type, rule world_bind, rule world_type, rule world_bind, rule world_liftM_load)
    (auto simp: bucket_in intro!: world_ret split: option.splits)

lemma world_assignable_base:
  "services_ok vm V \<Longrightarrow> tables_ok (vm_program vm) V \<Longrightarrow> world_safe vm V (assignable_base vm s t) answer"
  unfolding assignable_base_def
  by (rule world_bind, rule world_flags, rule world_bind, rule world_flags)
    (auto intro!: world_if world_ret world_table world_bind [OF world_resolved])

lemma world_assignable_types:
  "services_ok vm V \<Longrightarrow> tables_ok (vm_program vm) V \<Longrightarrow> world_safe vm V (assignable_types vm s t) answer"
  unfolding assignable_types_def
  by (rule world_bind, rule world_flags, rule world_bind, rule world_flags)
    (auto intro!: world_if world_ret world_assignable_base world_bind [OF world_type])

lemma world_assignable [world_rules]:
  "services_ok vm V \<Longrightarrow> tables_ok (vm_program vm) V \<Longrightarrow> world_safe vm V (assignable_from vm s t) answer"
  unfolding assignable_from_def
  by (auto intro!: world_if world_ret world_assignable_types world_bind [OF world_resolved])

lemma world_instance_of [world_rules]:
  "services_ok vm V \<Longrightarrow> tables_ok (vm_program vm) V \<Longrightarrow> world_safe vm V (instance_of vm obj t) answer"
  unfolding instance_of_def by (auto intro!: world_if world_ret world_assignable world_bind [OF world_obj_type])

lemma world_super_loop: "world_safe vm V (super_loop n vm s t) (\<lambda>_. True)"
  by (induction n arbitrary: s) (auto simp: tolerated_def intro!: world_fails world_if world_ret world_bind [OF world_type])

lemma world_subclass [world_rules]: "world_safe vm V (subclass_of vm obj t) (\<lambda>_. True)"
  unfolding subclass_of_def by (rule world_bind [OF world_obj_type]) (rule world_super_loop)

lemma world_find_method [world_rules]:
  "world_safe vm V (find_method vm h ms) (\<lambda>r. \<forall>m. r = Some m \<longrightarrow> m \<in> set ms \<and>
     (\<exists>y. pr_methods (vm_program vm) m = Some y \<and> me_signature_hash y = h))"
proof (induction ms)
  case (Cons m ms)
  show ?case by (auto intro!: world_bind [OF world_method] world_ret world_weaken [OF Cons.IH])
qed (simp add: world_ret)

lemma world_gets: "(\<And>w. R (f w)) \<Longrightarrow> world_safe vm V (gets f) R"
  by (simp add: world_safe_def gets_def)

lemma world_retrieve [world_rules]: "world_safe vm V (retrieve_exception vm t) (\<lambda>_. True)"
  unfolding retrieve_exception_def thenM_def
  by (rule world_bind [OF world_gets, of "\<lambda>_. True"], simp, rule world_bind [of _ _ _ "\<lambda>_. True"])
    (auto intro!: world_ret world_subclass world_bind [OF world_modify] keeps_other)

end
