(* ===== verification/Interp_Frame_Safe.thy ===== *)
theory Interp_Frame_Safe
  imports Interp_Safe
begin

text \<open>
  The logic of the frame: what an action of the interpreter does to the depth of the stack while the
  world stays well-formed.
\<close>

section \<open>Frames\<close>

text \<open>
  The frame of the method \<open>m\<close> with the code \<open>c\<close>, at the instruction \<open>p\<close> with the stack pointer \<open>sp\<close>; with
  \<open>x\<close> the code is exactly \<open>c\<close>, otherwise what it has become.
\<close>

definition frame_at :: "'e vm \<Rightarrow> u32 set \<Rightarrow> icode \<Rightarrow> nat \<Rightarrow> u32 \<Rightarrow> bool \<Rightarrow> int \<Rightarrow> 'e istate \<Rightarrow> bool" where
  "frame_at vm V c p m x sp s \<longleftrightarrow> length (i_words s) = co_max_locals c + co_max_stack c \<and> i_sp s = sp \<and> i_pc s = int p
     \<and> i_method s = m \<and> world_ok vm V (i_world s)
     \<and> (\<exists>c'. w_code (i_world s) m = Some c' \<and> same_code c c' \<and> (x \<longrightarrow> c' = c))"

lemma frame_weaken: "frame_at vm V c p m x sp s \<Longrightarrow> frame_at vm V c p m False sp s"
  by (auto simp: frame_at_def)

text \<open>\<open>does\<close> fixes the stack pointer afterwards, \<open>goes\<close> leaves it to the condition.\<close>

definition does :: "'e vm \<Rightarrow> u32 set \<Rightarrow> icode \<Rightarrow> nat \<Rightarrow> u32 \<Rightarrow> bool \<Rightarrow> int \<Rightarrow> ('e, 'a) im \<Rightarrow> bool \<Rightarrow> int \<Rightarrow> ('a \<Rightarrow> bool) \<Rightarrow> bool" where
  "does vm V c p m x sp M x' sp' R \<longleftrightarrow> (\<forall>s. frame_at vm V c p m x sp s \<longrightarrow> (case M s of
      (Inl f, _) \<Rightarrow> tolerated f
    | (Inr r, s') \<Rightarrow> frame_at vm V c p m x' sp' s' \<and> evolves (i_world s) (i_world s') \<and> R r))"

definition goes :: "'e vm \<Rightarrow> u32 set \<Rightarrow> icode \<Rightarrow> nat \<Rightarrow> u32 \<Rightarrow> bool \<Rightarrow> int \<Rightarrow> ('e, 'a) im \<Rightarrow> ('a \<Rightarrow> int \<Rightarrow> bool) \<Rightarrow> bool" where
  "goes vm V c p m x sp M Q \<longleftrightarrow> (\<forall>s. frame_at vm V c p m x sp s \<longrightarrow> (case M s of
      (Inl f, _) \<Rightarrow> tolerated f
    | (Inr r, s') \<Rightarrow> \<exists>sp'. frame_at vm V c p m False sp' s' \<and> evolves (i_world s) (i_world s') \<and> Q r sp'))"

lemma doesD: "does vm V c p m x sp M x' sp' R \<Longrightarrow> frame_at vm V c p m x sp s \<Longrightarrow>
    (\<exists>f s'. M s = (Inl f, s') \<and> tolerated f)
    \<or> (\<exists>r s'. M s = (Inr r, s') \<and> frame_at vm V c p m x' sp' s' \<and> evolves (i_world s) (i_world s') \<and> R r)"
  unfolding does_def by (cases "M s"; cases "fst (M s)") auto

lemma does_bind:
  assumes "does vm V c p m x sp M x' sp' S" and "\<And>r. S r \<Longrightarrow> does vm V c p m x' sp' (k r) x'' sp'' R"
  shows "does vm V c p m x sp (bindM M k) x'' sp'' R"
  unfolding does_def
proof (intro allI impI)
  fix s assume "frame_at vm V c p m x sp s"
  from doesD [OF assms(1) this] show "case bindM M k s of (Inl f, _) \<Rightarrow> tolerated f
      | (Inr r, s') \<Rightarrow> frame_at vm V c p m x'' sp'' s' \<and> evolves (i_world s) (i_world s') \<and> R r"
    using assms(2) [unfolded does_def, rule_format]
    by (fastforce simp: bindM_def split: sum.splits prod.splits dest: evolves_trans)
qed

lemma goes_bind:
  assumes "does vm V c p m x sp M x' sp' S" and "\<And>r. S r \<Longrightarrow> goes vm V c p m x' sp' (k r) Q"
  shows "goes vm V c p m x sp (bindM M k) Q"
  unfolding goes_def
proof (intro allI impI)
  fix s assume "frame_at vm V c p m x sp s"
  from doesD [OF assms(1) this] show "case bindM M k s of (Inl f, _) \<Rightarrow> tolerated f
      | (Inr r, s') \<Rightarrow> \<exists>sp'. frame_at vm V c p m False sp' s' \<and> evolves (i_world s) (i_world s') \<and> Q r sp'"
    using assms(2) [unfolded goes_def, rule_format]
    by (fastforce simp: bindM_def split: sum.splits prod.splits dest: evolves_trans)
qed

lemma does_then: "does vm V c p m x sp M x' sp' (\<lambda>_. True) \<Longrightarrow> does vm V c p m x' sp' k x'' sp'' R \<Longrightarrow>
    does vm V c p m x sp (thenM M k) x'' sp'' R"
  unfolding thenM_def by (rule does_bind)

lemma goes_then: "does vm V c p m x sp M x' sp' (\<lambda>_. True) \<Longrightarrow> goes vm V c p m x' sp' k Q \<Longrightarrow> goes vm V c p m x sp (thenM M k) Q"
  unfolding thenM_def by (rule goes_bind)

lemma goes_ret: "Q r sp \<Longrightarrow> goes vm V c p m x sp (ret r) Q"
  by (auto simp: goes_def ret_def intro: frame_weaken)

lemma does_ret: "R r \<Longrightarrow> does vm V c p m x sp (ret r) x sp R"
  by (auto simp: does_def ret_def)

lemma goes_fails: "tolerated f \<Longrightarrow> goes vm V c p m x sp (fails f) Q"
  by (simp add: goes_def fails_def)

lemma does_weaken: "does vm V c p m x sp M x' sp' S \<Longrightarrow> (\<And>r. S r \<Longrightarrow> R r) \<Longrightarrow> does vm V c p m x sp M x' sp' R"
  unfolding does_def by (fastforce split: sum.splits prod.splits)

lemma goes_if: "(b \<Longrightarrow> goes vm V c p m x sp M Q) \<Longrightarrow> (\<not> b \<Longrightarrow> goes vm V c p m x sp N Q) \<Longrightarrow> goes vm V c p m x sp (if b then M else N) Q"
  by simp

section \<open>Words\<close>

abbreviation in_frame :: "icode \<Rightarrow> int \<Rightarrow> bool" where
  "in_frame c k \<equiv> 0 \<le> k \<and> k < int (co_max_locals c + co_max_stack c)"

lemma does_get_word: "in_frame c k \<Longrightarrow> does vm V c p m x sp (get_word k) x sp (\<lambda>_. True)"
  by (auto simp: does_def get_word_def frame_at_def)

lemma does_set_word: "in_frame c k \<Longrightarrow> does vm V c p m x sp (set_word k v) x sp (\<lambda>_. True)"
  by (auto simp: does_def set_word_def frame_at_def)

lemma does_get_dword: "in_frame c k \<Longrightarrow> in_frame c (k + 1) \<Longrightarrow> does vm V c p m x sp (get_dword k) x sp (\<lambda>_. True)"
  unfolding get_dword_def by (rule does_bind, erule does_get_word, rule does_bind, erule does_get_word, rule does_ret, simp)

lemma does_set_dword: "in_frame c k \<Longrightarrow> in_frame c (k + 1) \<Longrightarrow> does vm V c p m x sp (set_dword k v) x sp (\<lambda>_. True)"
  unfolding set_dword_def by (rule does_then, erule does_set_word, erule does_set_word)

lemma does_sp: "does vm V c p m x sp (gets i_sp) x sp (\<lambda>r. r = sp)"
  by (auto simp: does_def gets_def frame_at_def)

lemma does_pc: "does vm V c p m x sp (gets i_pc) x sp (\<lambda>r. r = int p)"
  by (auto simp: does_def gets_def frame_at_def)

lemma does_method: "does vm V c p m x sp (gets i_method) x sp (\<lambda>r. r = m)"
  by (auto simp: does_def gets_def frame_at_def)

lemma does_stack: "in_frame c (sp + i) \<Longrightarrow> does vm V c p m x sp (stack i) x sp (\<lambda>_. True)"
  unfolding stack_def by (rule does_bind, rule does_sp) (simp add: does_get_word)

lemma does_set_stack: "in_frame c (sp + i) \<Longrightarrow> does vm V c p m x sp (set_stack i v) x sp (\<lambda>_. True)"
  unfolding set_stack_def by (rule does_bind, rule does_sp) (simp add: does_set_word)

lemma does_stack2: "in_frame c (sp + i) \<Longrightarrow> in_frame c (sp + i + 1) \<Longrightarrow> does vm V c p m x sp (stack2 i) x sp (\<lambda>_. True)"
  unfolding stack2_def by (rule does_bind, rule does_sp) (simp add: does_get_dword)

lemma does_set_stack2: "in_frame c (sp + i) \<Longrightarrow> in_frame c (sp + i + 1) \<Longrightarrow> does vm V c p m x sp (set_stack2 i v) x sp (\<lambda>_. True)"
  unfolding set_stack2_def by (rule does_bind, rule does_sp) (simp add: does_set_dword)

lemma does_local: "k < co_max_locals c \<Longrightarrow> does vm V c p m x sp (local k) x sp (\<lambda>_. True)"
  unfolding local_def by (rule does_get_word) simp

lemma does_set_local: "k < co_max_locals c \<Longrightarrow> does vm V c p m x sp (set_local k v) x sp (\<lambda>_. True)"
  unfolding set_local_def by (rule does_set_word) simp

lemma does_local2: "k + 2 \<le> co_max_locals c \<Longrightarrow> does vm V c p m x sp (local2 k) x sp (\<lambda>_. True)"
  unfolding local2_def by (rule does_get_dword) simp_all

lemma does_set_local2: "k + 2 \<le> co_max_locals c \<Longrightarrow> does vm V c p m x sp (set_local2 k v) x sp (\<lambda>_. True)"
  unfolding set_local2_def by (rule does_set_dword) simp_all

lemma does_pop: "does vm V c p m x sp (pop i) x (sp - i) (\<lambda>_. True)"
  by (auto simp: does_def pop_def modify_def frame_at_def)

lemma does_pop2: "does vm V c p m x sp (pop2 i) x (sp - 2 * i) (\<lambda>_. True)"
  by (auto simp: does_def pop2_def modify_def frame_at_def)

lemma does_modify_sp: "does vm V c p m x sp (modify (\<lambda>s. s\<lparr>i_sp := i_sp s + k\<rparr>)) x (sp + k) (\<lambda>_. True)"
  by (auto simp: does_def modify_def frame_at_def)

lemma does_push: "in_frame c sp \<Longrightarrow> does vm V c p m x sp (push v) x (sp + 1) (\<lambda>_. True)"
  unfolding push_def by (rule does_then, rule does_set_stack, simp, rule does_modify_sp)

lemma does_push2: "in_frame c sp \<Longrightarrow> in_frame c (sp + 1) \<Longrightarrow> does vm V c p m x sp (push2 v) x (sp + 2) (\<lambda>_. True)"
  unfolding push2_def by (rule does_then, rule does_set_stack2, simp, simp, rule does_modify_sp)

lemma does_on_world: "world_safe vm V M R \<Longrightarrow> does vm V c p m x sp (on_world M) False sp R"
  unfolding does_def on_world_def
proof (intro allI impI)
  fix s :: "'a istate" assume safe: "world_safe vm V M R" and s: "frame_at vm V c p m x sp s"
  from s have "world_ok vm V (i_world s)" by (simp add: frame_at_def)
  with safe have *: "case M (i_world s) of (Inl f, _) \<Rightarrow> tolerated f
      | (Inr r, w') \<Rightarrow> world_ok vm V w' \<and> evolves (i_world s) w' \<and> R r" by (simp add: safe [unfolded world_safe_def, rule_format])
  have "frame_at vm V c p m False sp (s\<lparr>i_world := w'\<rparr>)" if "world_ok vm V w'" "evolves (i_world s) w'" for w'
  proof -
    from s obtain c' where c': "w_code (i_world s) m = Some c'" "same_code c c'" by (auto simp: frame_at_def)
    with that(2) obtain c'' where "w_code w' m = Some c''" "same_code c' c''" unfolding evolves_def by blast
    with c' have "\<exists>c''. w_code w' m = Some c'' \<and> same_code c c''" using same_code_trans by blast
    with s that(1) show ?thesis by (simp add: frame_at_def)
  qed
  with * show "case (case M (i_world s) of (r, w) \<Rightarrow> (r, s\<lparr>i_world := w\<rparr>)) of (Inl f, _) \<Rightarrow> tolerated f
      | (Inr r, s') \<Rightarrow> frame_at vm V c p m False sp s' \<and> evolves (i_world s) (i_world s') \<and> R r"
    by (auto split: sum.splits prod.splits)
qed

lemma does_service: "(\<And>w. keeps vm V w (snd (f w))) \<Longrightarrow> does vm V c p m x sp (service f) False sp (\<lambda>_. True)"
  unfolding service_def by (rule does_on_world, rule world_call)

lemma does_post: "services_ok vm V \<Longrightarrow> does vm V c p m x sp (post vm e) False sp (\<lambda>g. g = Exception)"
  unfolding post_def by (rule does_then, rule does_on_world, rule world_modify, erule service_facts, rule does_ret, simp)

lemma goes_post: "services_ok vm V \<Longrightarrow> Q Exception sp \<Longrightarrow> goes vm V c p m x sp (post vm e) Q"
  unfolding post_def by (rule goes_then, rule does_on_world, rule world_modify, erule service_facts, rule goes_ret, simp)

section \<open>Information\<close>

lemma does_code: "does vm V c p m True sp code_of True sp (\<lambda>r. r = c)"
  by (auto simp: does_def code_of_def bindM_def gets_def frame_at_def ret_def)

lemma does_code_later: "does vm V c p m x sp code_of x sp (\<lambda>r. same_code c r)"
  by (auto simp: does_def code_of_def bindM_def gets_def frame_at_def ret_def)

lemma does_lift: "r = Inr v \<Longrightarrow> R v \<Longrightarrow> does vm V c p m x sp (liftM r) x sp R"
  by (auto simp: does_def liftM_def)

lemma does_info: "p < length (co_info c) \<Longrightarrow> does vm V c p m True sp the_info True sp (\<lambda>i. i = co_info c ! p)"
  unfolding the_info_def by (rule does_bind, rule does_code, rule does_bind, rule does_pc, rule does_lift) (auto simp: load_at_def)

lemma does_opcode: "p < length (co_opcodes c) \<Longrightarrow> does vm V c p m True sp opcode_at_pc True sp (\<lambda>i. i = co_opcodes c ! p)"
  unfolding opcode_at_pc_def by (rule does_bind, rule does_code, rule does_bind, rule does_pc, rule does_lift) (auto simp: load_at_def)

lemma does_kind: "p < length (co_info c) \<Longrightarrow> does vm V c p m True sp (k (co_info c ! p)) True sp R \<Longrightarrow>
    does vm V c p m True sp (bindM the_info k) True sp R"
  by (rule does_bind, erule does_info) simp

lemmas info_defs = info_local_def info_target_def info_type_def info_field_def info_constant_def info_invoke_def info_iinc_def
  info_multianewarray_def info_lookupswitch_def info_tableswitch_def info_utf8_def

lemma does_infos:
  assumes "p < length (co_info c)"
  shows "co_info c ! p = I_local k \<Longrightarrow> does vm V c p m True sp info_local True sp (\<lambda>r. r = k)"
    "co_info c ! p = I_target t \<Longrightarrow> does vm V c p m True sp info_target True sp (\<lambda>r. r = int t)"
    "co_info c ! p = I_type a \<Longrightarrow> does vm V c p m True sp info_type True sp (\<lambda>r. r = a)"
    "co_info c ! p = I_field a \<Longrightarrow> does vm V c p m True sp info_field True sp (\<lambda>r. r = a)"
    "co_info c ! p = I_constant v \<Longrightarrow> does vm V c p m True sp info_constant True sp (\<lambda>r. r = v)"
    "co_info c ! p = I_invoke a n \<Longrightarrow> does vm V c p m True sp info_invoke True sp (\<lambda>r. r = (a, n))"
    "co_info c ! p = I_iinc k u \<Longrightarrow> does vm V c p m True sp info_iinc True sp (\<lambda>r. r = (k, u))"
    "co_info c ! p = I_multianewarray a n \<Longrightarrow> does vm V c p m True sp info_multianewarray True sp (\<lambda>r. r = (a, n))"
    "co_info c ! p = I_lookupswitch ls \<Longrightarrow> does vm V c p m True sp info_lookupswitch True sp (\<lambda>r. r = ls)"
    "co_info c ! p = I_tableswitch ts \<Longrightarrow> does vm V c p m True sp info_tableswitch True sp (\<lambda>r. r = ts)"
    "co_info c ! p = I_utf8 z \<Longrightarrow> does vm V c p m True sp info_utf8 True sp (\<lambda>r. r = z)"
  unfolding info_defs by (rule does_kind [OF assms]; simp add: does_ret)+

end
