(* ===== verification/Interp_Ops_Safe.thy ===== *)
theory Interp_Ops_Safe
  imports Interp_Frame_Safe
begin

text \<open>The actions that work on the frame alone have the effects of the tables.\<close>

section \<open>Sound actions\<close>

text \<open>Where an action goes, and with which depth of the stack, by its effect.\<close>

fun lands :: "icode \<Rightarrow> nat \<Rightarrow> nat \<Rightarrow> effect \<Rightarrow> go \<Rightarrow> int \<Rightarrow> bool" where
  "lands c p d (a, b, falls, targets) g sp \<longleftrightarrow> (case g of
     Next \<Rightarrow> falls \<and> sp = int (co_max_locals c + (d - a + b))
   | Jump t \<Rightarrow> sp = int (co_max_locals c + (d - a + b)) \<and> (falls \<and> t = int p + 1 \<or> (\<exists>k \<in> set targets. t = int k))
       \<or> t = int p \<and> sp = int (co_max_locals c + d)
   | _ \<Rightarrow> True)"

definition sound :: "'e vm \<Rightarrow> u32 set \<Rightarrow> u8 \<Rightarrow> ('e, go) im \<Rightarrow> bool" where
  "sound vm V opc M \<longleftrightarrow> (\<forall>c p m d a b falls targets.
     p < length (co_info c) \<longrightarrow> p < length (co_opcodes c) \<longrightarrow> co_opcodes c ! p = opc \<longrightarrow>
     insn_effect (vm_program vm) V (co_max_locals c) opc (co_info c ! p) = Some (a, b, falls, targets) \<longrightarrow>
     a \<le> d \<longrightarrow> d \<le> co_max_stack c \<longrightarrow> d - a + b \<le> co_max_stack c \<longrightarrow>
     goes vm V c p m True (int (co_max_locals c + d)) M (lands c p d (a, b, falls, targets)))"

text \<open>An action that goes on, or raises an exception\<close>

definition onto :: "int \<Rightarrow> go \<Rightarrow> int \<Rightarrow> bool" where
  "onto k g sp \<longleftrightarrow> g = Next \<and> sp = k \<or> g \<in> {Null_pointer, Arithmetic, Exception}"

lemma onto_simps [simp]: "onto k Next sp \<longleftrightarrow> sp = k" "onto k Null_pointer sp" "onto k Arithmetic sp" "onto k Exception sp"
  by (simp_all add: onto_def)

lemma goes_weaken: "goes vm V c p m x sp M Q \<Longrightarrow> (\<And>g k. Q g k \<Longrightarrow> R g k) \<Longrightarrow> goes vm V c p m x sp M R"
  unfolding goes_def by (fastforce split: sum.splits prod.splits)

text \<open>The frame has room for what the action pops and pushes.\<close>

definition room :: "icode \<Rightarrow> int \<Rightarrow> nat \<Rightarrow> nat \<Rightarrow> bool" where
  "room c sp a b \<longleftrightarrow> int (co_max_locals c) + int a \<le> sp \<and> sp \<le> int (co_max_locals c + co_max_stack c)
     \<and> sp - int a + int b \<le> int (co_max_locals c + co_max_stack c)"

definition plain :: "'e vm \<Rightarrow> u32 set \<Rightarrow> nat \<times> nat \<Rightarrow> ('e, go) im \<Rightarrow> bool" where
  "plain vm V e M \<longleftrightarrow> (\<forall>c p m sp. room c sp (fst e) (snd e) \<longrightarrow> goes vm V c p m True sp M (onto (sp - int (fst e) + int (snd e))))"

lemma plainI: "(\<And>c p m sp. room c sp a b \<Longrightarrow> goes vm V c p m True sp M (onto (sp - int a + int b))) \<Longrightarrow> plain vm V (a, b) M"
  by (simp add: plain_def)

lemma room_depth: "a \<le> d \<Longrightarrow> d \<le> co_max_stack c \<Longrightarrow> d - a + b \<le> co_max_stack c \<Longrightarrow> room c (int (co_max_locals c + d)) a b"
  by (simp add: room_def)

lemma onto_lands: "onto (int (co_max_locals c + d) - int a + int b) g k \<Longrightarrow> a \<le> d \<Longrightarrow> lands c p d (a, b, True, ts) g k"
  by (auto simp: onto_def)

lemma sound_plain:
  assumes "map_of plain_effects opc = Some e" and "plain vm V e M"
  shows "sound vm V opc M"
  unfolding sound_def
proof (intro allI impI)
  fix c :: icode and p m d a b falls ts
  assume "insn_effect (vm_program vm) V (co_max_locals c) opc (co_info c ! p) = Some (a, b, falls, ts)"
    and d: "a \<le> d" "d \<le> co_max_stack c" "d - a + b \<le> co_max_stack c"
  then have e: "e = (a, b)" "falls" "ts = []" using assms(1) by (auto simp: insn_effect_def split: prod.splits)
  then show "goes vm V c p m True (int (co_max_locals c + d)) M (lands c p d (a, b, falls, ts))"
    using assms(2) [unfolded plain_def, rule_format, of c "int (co_max_locals c + d)" p m] room_depth [OF d] onto_lands [OF _ d(1)]
    by (auto intro: goes_weaken)
qed

section \<open>Patterns\<close>

text \<open>The steps of an action that is run symbolically.\<close>

lemmas goes_rules = goes_ret goes_if goes_then [OF does_pop] goes_then [OF does_pop2] goes_then [OF does_push]
  goes_then [OF does_push2] goes_then [OF does_set_stack] goes_then [OF does_set_stack2]
  goes_bind [OF does_stack] goes_bind [OF does_stack2] goes_bind [OF does_pc]

named_theorems plain_rules

lemma plain_unary [plain_rules]: "plain vm V (1, 1) (unary f)"
  unfolding unary_def by (rule plainI) (intro goes_rules; simp add: room_def)

lemma plain_binary [plain_rules]: "plain vm V (2, 1) (binary f)"
  unfolding binary_def by (rule plainI) (intro goes_rules; simp add: room_def)

lemma plain_divide [plain_rules]: "plain vm V (2, 1) (divide f)"
  unfolding divide_def by (rule plainI) (intro goes_rules goes_fails; simp add: room_def tolerated_def)

lemma plain_unary2 [plain_rules]: "plain vm V (2, 2) (unary2 f)"
  unfolding unary2_def by (rule plainI) (intro goes_rules; simp add: room_def)

lemma plain_binary2 [plain_rules]: "plain vm V (4, 2) (binary2 f)"
  unfolding binary2_def by (rule plainI) (intro goes_rules; simp add: room_def)

lemma plain_divide2 [plain_rules]: "plain vm V (4, 2) (divide2 f)"
  unfolding divide2_def by (rule plainI) (intro goes_rules goes_fails; simp add: room_def tolerated_def)

lemma plain_shift2 [plain_rules]: "plain vm V (3, 2) (shift2 f)"
  unfolding shift2_def by (rule plainI) (intro goes_rules; simp add: room_def)

lemma plain_compare2 [plain_rules]: "plain vm V (4, 1) (compare2 f)"
  unfolding compare2_def by (rule plainI) (intro goes_rules; simp add: room_def)

lemma plain_narrow [plain_rules]: "plain vm V (2, 1) (narrow f)"
  unfolding narrow_def by (rule plainI) (intro goes_rules; simp add: room_def)

lemma plain_widen [plain_rules]: "plain vm V (1, 2) (widen f)"
  unfolding widen_def by (rule plainI) (intro goes_rules; simp add: room_def)

lemma plain_moves [plain_rules]:
  "plain vm V (0, 0) do_nop" "plain vm V (1, 0) do_pop" "plain vm V (2, 0) do_pop2"
  "plain vm V (1, 2) do_dup" "plain vm V (2, 3) do_dup_x1" "plain vm V (3, 4) do_dup_x2" "plain vm V (2, 4) do_dup2"
  "plain vm V (3, 5) do_dup2_x1" "plain vm V (4, 6) do_dup2_x2" "plain vm V (2, 2) do_swap"
  "plain vm V (1, 2) do_i2l" "plain vm V (2, 1) do_l2i"
proof -
  have move: "in_frame c (sp + i) \<Longrightarrow> in_frame c (sp + j) \<Longrightarrow> does vm V c p m x sp (move i j) x sp (\<lambda>_. True)" for c p m x sp i j
    unfolding move_def by (intro does_bind [OF does_stack] does_set_stack; simp)
  show "plain vm V (0, 0) do_nop" "plain vm V (1, 0) do_pop" "plain vm V (2, 0) do_pop2"
    unfolding do_nop_def do_pop_def do_pop2_def by (rule plainI; intro goes_rules; simp add: room_def)+
  show "plain vm V (1, 2) do_dup" "plain vm V (2, 3) do_dup_x1" "plain vm V (3, 4) do_dup_x2" "plain vm V (2, 4) do_dup2"
    "plain vm V (3, 5) do_dup2_x1" "plain vm V (4, 6) do_dup2_x2" "plain vm V (2, 2) do_swap"
    unfolding do_dup_def do_dup_x1_def do_dup_x2_def do_dup2_def do_dup2_x1_def do_dup2_x2_def do_swap_def
    by (rule plainI; intro goes_rules goes_then [OF move]; simp add: room_def)+
  show "plain vm V (1, 2) do_i2l" "plain vm V (2, 1) do_l2i"
    unfolding do_i2l_def do_l2i_def by (rule plainI; intro goes_rules; simp add: room_def)+
qed

lemmas int_defs = do_iadd_def do_isub_def do_imul_def do_idiv_def do_irem_def do_ineg_def do_iand_def do_ior_def do_ixor_def
  do_ishl_def do_ishr_def do_iushr_def do_i2b_def do_i2c_def do_i2s_def
lemmas long_defs = do_ladd_def do_lsub_def do_lmul_def do_ldiv_def do_lrem_def do_lneg_def do_land_def do_lor_def do_lxor_def
  do_lshl_def do_lshr_def do_lushr_def do_lcmp_def
lemmas float_defs = do_d2f_def do_d2i_def do_d2l_def do_dadd_def do_dsub_def do_dmul_def do_ddiv_def do_drem_def do_dneg_def
  do_dcmpg_def do_dcmpl_def do_f2d_def do_f2i_def do_f2l_def do_fadd_def do_fsub_def do_fmul_def do_fdiv_def do_frem_def
  do_fneg_def do_fcmpg_def do_fcmpl_def do_i2d_def do_i2f_def do_l2d_def do_l2f_def

section \<open>Local variables, constants and jumps\<close>

lemma branch_goes:
  assumes "p < length (co_info c)" and "co_info c ! p = I_target t" and "sp = int (co_max_locals c + (d - a))"
  shows "goes vm V c p m True sp (branch b) (lands c p d (a, 0, True, [t]))"
  unfolding branch_def using assms by (auto intro!: goes_bind [OF does_infos(2)] goes_rules)

lemma sound_locals:
  assumes "map_of local_effects opc = Some e" and "map_of plain_effects opc = None" and "map_of leave_effects opc = None"
    and "\<And>c p m sp k. p < length (co_info c) \<Longrightarrow> co_info c ! p = I_local k \<Longrightarrow> k + fst e \<le> co_max_locals c \<Longrightarrow>
      room c sp (fst (snd e)) (snd (snd e)) \<Longrightarrow> goes vm V c p m True sp M (onto (sp - int (fst (snd e)) + int (snd (snd e))))"
  shows "sound vm V opc M"
  unfolding sound_def
proof (intro allI impI)
  fix c :: icode and p m d a b falls ts
  assume "p < length (co_info c)" "insn_effect (vm_program vm) V (co_max_locals c) opc (co_info c ! p) = Some (a, b, falls, ts)"
    and d: "a \<le> d" "d \<le> co_max_stack c" "d - a + b \<le> co_max_stack c"
  moreover from this obtain k where "co_info c ! p = I_local k" "k + fst e \<le> co_max_locals c" "snd e = (a, b)" "falls"
    using assms(1,2,3) by (auto simp: insn_effect_def local_effects_def field_effect_def invoke_effect_def type_effects_def
        branch_effects_def split: iinfo.splits option.splits if_splits prod.splits)
  ultimately show "goes vm V c p m True (int (co_max_locals c + d)) M (lands c p d (a, b, falls, ts))"
    using assms(4) [of p c k "int (co_max_locals c + d)" m] room_depth [OF d] onto_lands [OF _ d(1)]
    by (auto intro: goes_weaken)
qed

lemma sound_branch:
  assumes "map_of branch_effects opc = Some a" and "map_of plain_effects opc = None" and "map_of leave_effects opc = None"
    and "\<And>c p m d t. p < length (co_info c) \<Longrightarrow> co_info c ! p = I_target t \<Longrightarrow> a \<le> d \<Longrightarrow> d \<le> co_max_stack c \<Longrightarrow>
      goes vm V c p m True (int (co_max_locals c + d)) M (lands c p d (a, 0, True, [t]))"
  shows "sound vm V opc M"
  unfolding sound_def
proof (intro allI impI)
  fix c :: icode and p m d a' b falls ts
  assume "p < length (co_info c)" "insn_effect (vm_program vm) V (co_max_locals c) opc (co_info c ! p) = Some (a', b, falls, ts)"
    and "a' \<le> d" "d \<le> co_max_stack c"
  moreover from this obtain t where "co_info c ! p = I_target t" "a' = a" "b = 0" "falls" "ts = [t]"
    using assms(1,2,3) by (auto simp: insn_effect_def local_effects_def field_effect_def invoke_effect_def type_effects_def
        branch_effects_def split: iinfo.splits option.splits if_splits prod.splits)
  ultimately show "goes vm V c p m True (int (co_max_locals c + d)) M (lands c p d (a', b, falls, ts))"
    using assms(4) [of p c t d m] by simp
qed

lemma sound_branch1:
  assumes "map_of branch_effects opc = Some 1" and "map_of plain_effects opc = None" and "map_of leave_effects opc = None"
  shows "sound vm V opc (branch1 f)"
  unfolding branch1_def by (rule sound_branch [OF assms]) (intro goes_rules branch_goes; simp add: of_nat_diff)

lemma sound_branch2:
  assumes "map_of branch_effects opc = Some 2" and "map_of plain_effects opc = None" and "map_of leave_effects opc = None"
  shows "sound vm V opc (branch2 f)"
  unfolding branch2_def by (rule sound_branch [OF assms]) (intro goes_rules branch_goes; simp add: of_nat_diff)

lemma sound_leave:
  assumes "map_of leave_effects opc = Some a" and "map_of plain_effects opc = None"
    and "\<And>c p m sp. room c sp a 0 \<Longrightarrow> goes vm V c p m True sp M (\<lambda>g _. g \<in> {Done, Null_pointer, Exception})"
  shows "sound vm V opc M"
  unfolding sound_def
proof (intro allI impI)
  fix c :: icode and p m d a' b falls ts
  assume "insn_effect (vm_program vm) V (co_max_locals c) opc (co_info c ! p) = Some (a', b, falls, ts)"
    and d: "a' \<le> d" "d \<le> co_max_stack c" "d - a' + b \<le> co_max_stack c"
  then have "a' = a" "b = 0" using assms(1,2) by (auto simp: insn_effect_def)
  then show "goes vm V c p m True (int (co_max_locals c + d)) M (lands c p d (a', b, falls, ts))"
    using room_depth [OF d] by (intro goes_weaken [OF assms(3)]) auto
qed

text \<open>The actions with one information of their own: what it is follows from the opcode.\<close>

lemmas effect_tables = plain_effects_def leave_effects_def local_effects_def branch_effects_def type_effects_def
  field_effect_def invoke_effect_def

lemma effect_infos:
  "insn_effect P V l JC_iinc i = Some e \<Longrightarrow> \<exists>k v. i = I_iinc k v \<and> k < l \<and> e = (0, 0, True, [])"
  "insn_effect P V l JC_goto i = Some e \<Longrightarrow> \<exists>t. i = I_target t \<and> e = (0, 0, False, [t])"
  "insn_effect P V l JC_ldc i = Some e \<Longrightarrow> \<exists>v. i = I_constant v \<and> e = (0, 1, True, [])"
  "insn_effect P V l JC_ldc2_w i = Some e \<Longrightarrow> \<exists>v. i = I_constant v \<and> e = (0, 2, True, [])"
  "insn_effect P V l JC_ldc_string i = Some e \<Longrightarrow> \<exists>u. i = I_utf8 u \<and> e = (0, 1, True, [])"
  "insn_effect P V l JC_new i = Some e \<Longrightarrow> \<exists>a. i = I_type a \<and> e = (0, 1, True, [])"
  "insn_effect P V l JC_newarray i = Some e \<Longrightarrow> \<exists>a. i = I_type a \<and> e = (1, 1, True, [])"
  "insn_effect P V l JC_anewarray i = Some e \<Longrightarrow> \<exists>a. i = I_type a \<and> e = (1, 1, True, [])"
  "insn_effect P V l JC_checkcast i = Some e \<Longrightarrow> \<exists>a. i = I_type a \<and> e = (1, 1, True, [])"
  "insn_effect P V l JC_instanceof i = Some e \<Longrightarrow> \<exists>a. i = I_type a \<and> e = (1, 1, True, [])"
  "insn_effect P V l JC_multianewarray i = Some e \<Longrightarrow> \<exists>a n. i = I_multianewarray a n \<and> e = (n, 1, True, [])"
  "insn_effect P V l JC_lookupswitch i = Some e \<Longrightarrow> \<exists>s. i = I_lookupswitch s \<and> e = (1, 0, False, sw_default s # map snd (sw_pairs s))"
  "insn_effect P V l JC_tableswitch i = Some e \<Longrightarrow> \<exists>s. i = I_tableswitch s \<and> e = (1, 0, False, tw_default s # tw_targets s)
     \<and> int (length (tw_targets s)) = sint (tw_high s) - sint (tw_low s) + 1 \<and> length (tw_targets s) < 2 ^ 31"
  "insn_effect P V l JC_getstatic i = Some e \<Longrightarrow> \<exists>a f. i = I_field a \<and> pr_fields P a = Some f \<and> e = (0, param_words (field_type f), True, [])"
  "insn_effect P V l JC_putstatic i = Some e \<Longrightarrow> \<exists>a f. i = I_field a \<and> pr_fields P a = Some f \<and> e = (param_words (field_type f), 0, True, [])"
  "insn_effect P V l JC_getfield i = Some e \<Longrightarrow> \<exists>a f. i = I_field a \<and> pr_fields P a = Some f \<and> e = (1, param_words (field_type f), True, [])"
  "insn_effect P V l JC_putfield i = Some e \<Longrightarrow> \<exists>a f. i = I_field a \<and> pr_fields P a = Some f \<and> e = (1 + param_words (field_type f), 0, True, [])"
  by (auto simp: insn_effect_def effect_tables split: iinfo.splits option.splits if_splits prod.splits)

lemma invoke_lookups:
  assumes "opc \<in> {JC_invokestatic, JC_invokespecial, JC_invokevirtual, JC_invokeinterface}"
  shows "map_of plain_effects opc = None" "map_of leave_effects opc = None" "map_of local_effects opc = None"
    "map_of branch_effects opc = None" "map_of type_effects opc = None"
  using assms by (elim insertE emptyE; simp add: effect_tables)+

lemma effect_invoke:
  assumes "opc \<in> {JC_invokestatic, JC_invokespecial, JC_invokevirtual, JC_invokeinterface}"
    and "insn_effect P V l opc i = Some e"
  shows "\<exists>m n. i = I_invoke m n \<and> invoke_effect P V opc m n = Some e"
  using assms(2) unfolding insn_effect_def invoke_lookups [OF assms(1)]
  using assms(1) by (elim insertE emptyE; cases i; auto simp: field_effect_def Let_def split: option.splits)

end
