(* ===== verification/Interp_Jump_Safe.thy ===== *)
theory Interp_Jump_Safe
  imports Interp_Ops_Safe
begin

text \<open>All the actions on the frame, the floating point ones, the jumps, switches and returns are sound.\<close>

section \<open>Local variables and constants\<close>

lemma sound_load: 
  assumes "map_of local_effects opc = Some (1, 0, 1)" and "map_of plain_effects opc = None" and "map_of leave_effects opc = None"
  shows "sound vm V opc (bindM info_local (\<lambda>k. bindM (local k) (\<lambda>v. thenM (push v) (ret Next))))"
  by (rule sound_locals [OF assms]) (auto simp: room_def intro!: goes_bind [OF does_infos(1)] goes_bind [OF does_local] goes_rules)

lemma sound_load2:
  assumes "map_of local_effects opc = Some (2, 0, 2)" and "map_of plain_effects opc = None" and "map_of leave_effects opc = None"
  shows "sound vm V opc (bindM info_local (\<lambda>k. bindM (local2 k) (\<lambda>v. thenM (push2 v) (ret Next))))"
  by (rule sound_locals [OF assms]) (auto simp: room_def intro!: goes_bind [OF does_infos(1)] goes_bind [OF does_local2] goes_rules)

lemma sound_store:
  assumes "map_of local_effects opc = Some (1, 1, 0)" and "map_of plain_effects opc = None" and "map_of leave_effects opc = None"
  shows "sound vm V opc (thenM (pop 1) (bindM info_local (\<lambda>k. bindM (stack 0) (\<lambda>v. thenM (set_local k v) (ret Next)))))"
  by (rule sound_locals [OF assms])
    (auto simp: room_def intro!: goes_bind [OF does_infos(1)] goes_then [OF does_set_local] goes_rules)

lemma sound_store2:
  assumes "map_of local_effects opc = Some (2, 2, 0)" and "map_of plain_effects opc = None" and "map_of leave_effects opc = None"
  shows "sound vm V opc (thenM (pop2 1) (bindM info_local (\<lambda>k. bindM (stack2 0) (\<lambda>v. thenM (set_local2 k v) (ret Next)))))"
  by (rule sound_locals [OF assms])
    (auto simp: room_def intro!: goes_bind [OF does_infos(1)] goes_then [OF does_set_local2] goes_rules)

lemma sound_iinc: "sound vm V JC_iinc do_iinc"
  unfolding sound_def do_iinc_def
  by (auto dest!: effect_infos(1) intro!: goes_bind [OF does_infos(7)] goes_bind [OF does_local] goes_then [OF does_set_local] goes_rules)

lemma sound_ldc: "sound vm V JC_ldc do_ldc"
  unfolding sound_def do_ldc_def
  by (auto dest!: effect_infos(3) intro!: goes_bind [OF does_infos(5)] goes_rules)

lemma sound_ldc2_w: "sound vm V JC_ldc2_w do_ldc2_w"
  unfolding sound_def do_ldc2_w_def
  by (auto dest!: effect_infos(4) intro!: goes_bind [OF does_infos(5)] goes_rules)

lemma sound_none:
  assumes "\<And>P l i. insn_effect P V l opc i = None"
  shows "sound vm V opc M"
  unfolding sound_def by (simp add: assms)

lemma subroutines_rejected: "insn_effect P V l JC_jsr i = None" "insn_effect P V l JC_ret i = None"
  by (cases i; simp add: insn_effect_def effect_tables split: option.splits)+

section \<open>Jumps, switches and returns\<close>

lemma sound_goto: "sound vm V JC_goto do_goto"
  unfolding sound_def do_goto_def
  by (auto dest!: effect_infos(2) intro!: goes_bind [OF does_infos(2)] goes_rules)

lemma bsearch_loop_member: "u \<le> length xs \<Longrightarrow> bsearch_loop cmp xs l u = Some x \<Longrightarrow> x \<in> set xs"
proof (induction cmp xs l u rule: bsearch_loop.induct)
  case (1 cmp xs l u)
  show ?case
  proof (cases "u \<le> l")
    case True
    with "1.prems" show ?thesis by (simp add: bsearch_loop.simps)
  next
    case False
    let ?k = "(l + u) div 2"
    have "?k < length xs" using False "1.prems"(1) by simp
    with "1.prems"(1) "1.prems"(2) [unfolded bsearch_loop.simps [of cmp xs l u]] "1.IH"(1) [OF False refl refl]
      "1.IH"(2) [OF False refl refl] False show ?thesis
      by (auto simp: Let_def split: if_splits)
  qed
qed

lemma bsearch_member: "bsearch cmp xs = Some x \<Longrightarrow> x \<in> set xs"
  unfolding bsearch_def by (rule bsearch_loop_member [OF order_refl])

lemma bsearch_snd: "bsearch cmp xs = Some (a, b) \<Longrightarrow> b \<in> snd ` set xs"
  by (drule bsearch_member) force

lemma sound_lookupswitch: "sound vm V JC_lookupswitch do_lookupswitch"
  unfolding sound_def do_lookupswitch_def
  by (auto dest!: effect_infos(12) intro!: goes_bind [OF does_infos(9)] goes_rules simp: of_nat_diff dest!: bsearch_snd split: option.splits)

lemma switch_index:
  fixes key low high :: u32
  assumes "sint low \<le> sint key" and "sint key \<le> sint high" and "int n = sint high - sint low + 1" and "n < 2 ^ 31"
  shows "0 \<le> sint (key - low) \<and> sint (key - low) < int n"
proof -
  have "sint (key - low) = sint key - sint low"
    using assms by (simp add: sint_word_ariths signed_take_bit_int_eq_self)
  then show ?thesis using assms by simp
qed

lemma sound_tableswitch: "sound vm V JC_tableswitch do_tableswitch"
  unfolding sound_def do_tableswitch_def
proof (intro allI impI)
  fix c :: icode and p m d a b falls ts
  assume p: "p < length (co_info c)"
    and "insn_effect (vm_program vm) V (co_max_locals c) JC_tableswitch (co_info c ! p) = Some (a, b, falls, ts)"
    and d: "a \<le> d" "d \<le> co_max_stack c" "d - a + b \<le> co_max_stack c"
  then obtain s where s: "co_info c ! p = I_tableswitch s" "a = 1" "b = 0" "ts = tw_default s # tw_targets s"
    "int (length (tw_targets s)) = sint (tw_high s) - sint (tw_low s) + 1" "length (tw_targets s) < 2 ^ 31"
    using effect_infos(13) by fastforce
  have load: "load_at (tw_targets s) (sint (key - tw_low s)) = Inr (tw_targets s ! nat (sint (key - tw_low s)))"
    "tw_targets s ! nat (sint (key - tw_low s)) \<in> set (tw_targets s)"
    if "sint (tw_low s) \<le> sint key" "sint key \<le> sint (tw_high s)" for key
    using switch_index [OF that s(5,6)] by (simp_all add: load_at_def nat_less_iff)
  show "goes vm V c p m True (int (co_max_locals c + d)) (bindM info_tableswitch (\<lambda>tsw. thenM (pop 1) (bindM (stack 0) (\<lambda>key.
     if sint (tw_low tsw) \<le> sint key \<and> sint key \<le> sint (tw_high tsw)
     then bindM (liftM (load_at (tw_targets tsw) (sint (key - tw_low tsw)))) (\<lambda>t. ret (Jump (int t)))
     else ret (Jump (int (tw_default tsw))))))) (lands c p d (a, b, falls, ts))"
    by (rule goes_bind [OF does_infos(10) [OF p s(1)]]) (use s d load in \<open>auto simp: of_nat_diff intro!: goes_rules\<close>)
qed

lemma does_set_retval: "does vm V c p m x sp (set_retval v) False sp (\<lambda>_. True)"
  unfolding set_retval_def by (rule does_on_world, rule world_modify, rule keeps_other) simp_all

lemma does_set_retval4: "does vm V c p m x sp (set_retval4 v) False sp (\<lambda>_. True)"
  unfolding set_retval4_def by (rule does_on_world, rule world_modify, rule keeps_other) simp_all

lemma does_pending: "does vm V c p m x sp (on_world (modify (\<lambda>w. w\<lparr>w_pending := e\<rparr>))) False sp (\<lambda>_. True)"
  by (rule does_on_world, rule world_modify, rule keeps_other) simp_all

lemma sound_returns:
  "map_of leave_effects opc = Some 1 \<Longrightarrow> map_of plain_effects opc = None \<Longrightarrow>
     sound vm V opc (thenM (pop 1) (bindM (stack 0) (\<lambda>v. thenM (set_retval4 v) (ret Done))))"
  "map_of leave_effects opc = Some 2 \<Longrightarrow> map_of plain_effects opc = None \<Longrightarrow>
     sound vm V opc (thenM (pop2 1) (bindM (stack2 0) (\<lambda>v. thenM (set_retval v) (ret Done))))"
  "sound vm V JC_return do_return" "sound vm V JC_athrow do_athrow"
     apply (erule (1) sound_leave, intro goes_rules goes_then [OF does_set_retval4]; simp add: room_def)
    apply (erule (1) sound_leave, intro goes_rules goes_then [OF does_set_retval]; simp add: room_def)
   apply (rule sound_leave [of _ 0]; simp add: effect_tables do_return_def goes_ret)
  apply (rule sound_leave [of _ 1]; (simp add: effect_tables; fail)?)
  apply (unfold do_athrow_def, intro goes_rules goes_then [OF does_pending]; simp add: room_def)
  done

section \<open>The table\<close>

lemmas load_defs = do_aload_def do_fload_def do_iload_def
lemmas load2_defs = do_dload_def do_lload_def
lemmas store_defs = do_astore_def do_fstore_def do_istore_def
lemmas store2_defs = do_dstore_def do_lstore_def
lemmas branch1_defs = do_ifeq_def do_ifne_def do_iflt_def do_ifge_def do_ifgt_def do_ifle_def do_ifnonnull_def do_ifnull_def
lemmas branch2_defs = do_if_acmpeq_def do_if_acmpne_def do_if_icmpeq_def do_if_icmpne_def do_if_icmplt_def do_if_icmpge_def
  do_if_icmpgt_def do_if_icmple_def
lemmas return_defs = do_areturn_def do_freturn_def do_ireturn_def do_dreturn_def do_lreturn_def

lemma plain_arraylength [plain_rules]: "plain vm V (1, 1) do_arraylength"
  unfolding do_arraylength_def
  by (rule plainI) (intro goes_rules goes_bind [OF does_on_world [OF world_array_length]]; simp add: room_def)

lemmas sound_rules = plain_rules [THEN sound_plain [rotated]] sound_load sound_load2 sound_store sound_store2 sound_branch1 sound_branch2
  sound_returns(1,2)
lemmas sound_facts = sound_iinc sound_ldc sound_ldc2_w sound_goto sound_lookupswitch sound_tableswitch sound_returns(3,4)
  sound_none [OF subroutines_rejected(1)] sound_none [OF subroutines_rejected(2)]

lemma frame_sound:
  assumes "(opc, M) \<in> set actions_frame"
  shows "sound vm V opc M"
proof -
  have "list_all (\<lambda>(opc, M). sound vm V opc M) actions_frame"
    unfolding actions_frame_def list.pred_inject prod.case int_defs long_defs load_defs load2_defs store_defs store2_defs
      branch1_defs branch2_defs return_defs
    by (intro conjI; (rule list.pred_inject(1) sound_facts | rule sound_rules; simp add: effect_tables; fail))
  with assms show ?thesis by (auto simp: list_all_iff)
qed

lemma float_sound:
  assumes "(opc, M) \<in> set (actions_float f)"
  shows "sound vm V opc M"
proof -
  have "list_all (\<lambda>(opc, M). sound vm V opc M) (actions_float f)"
    unfolding actions_float_def list.pred_inject prod.case float_defs
    by (intro conjI; (rule list.pred_inject(1) | rule sound_rules; simp add: effect_tables; fail))
  with assms show ?thesis by (auto simp: list_all_iff)
qed

end
