(* ===== verification/Interp_Heap_Safe.thy ===== *)
theory Interp_Heap_Safe
  imports Interp_Jump_Safe
begin

text \<open>The actions on arrays, objects, fields and methods are sound, with services that are.\<close>

section \<open>Arrays\<close>

lemma goes_arraycheck:
  "services_ok vm V \<Longrightarrow> goes vm V c p m False sp M (onto k) \<Longrightarrow> goes vm V c p m x sp (arraycheck vm a i M) (onto k)"
  unfolding arraycheck_def
  by (auto intro!: goes_ret goes_bind [OF does_on_world [OF world_array_length]] goes_if
      goes_then [OF does_on_world [OF world_modify [OF service_facts(1)]]])

lemma plain_array_load:
  assumes "services_ok vm V"
    and "\<And>c p m sp a i. room c sp 0 b \<Longrightarrow> does vm V c p m False sp (M a i) False (sp + int b) (\<lambda>_. True)" and "b \<le> 2"
  shows "plain vm V (2, b) (array_load vm M)"
  unfolding array_load_def
  by (rule plainI) (use assms(3) in \<open>intro goes_rules goes_arraycheck assms(1) goes_then [OF assms(2)]; simp add: room_def\<close>)

lemma does_push_elem:
  "in_frame c sp \<Longrightarrow> does vm V c p m x sp (push_elem n f a i) False (sp + 1) (\<lambda>_. True)"
  unfolding push_elem_def by (rule does_bind [OF does_on_world [OF world_load]]) (rule does_push)

lemma does_push_elem2:
  "in_frame c sp \<Longrightarrow> in_frame c (sp + 1) \<Longrightarrow> does vm V c p m x sp (push_elem2 a i) False (sp + 2) (\<lambda>_. True)"
  unfolding push_elem2_def by (rule does_bind [OF does_on_world [OF world_load]]) (rule does_push2)

lemma plain_array_loads:
  assumes "services_ok vm V"
  shows "plain vm V (2, 1) (do_aaload vm)" "plain vm V (2, 1) (do_iaload vm)" "plain vm V (2, 1) (do_faload vm)"
    "plain vm V (2, 1) (do_caload vm)" "plain vm V (2, 1) (do_saload vm)" "plain vm V (2, 1) (do_baload vm)"
    "plain vm V (2, 2) (do_daload vm)" "plain vm V (2, 2) (do_laload vm)"
  unfolding do_aaload_def do_iaload_def do_faload_def do_caload_def do_saload_def do_baload_def do_daload_def do_laload_def
  by (rule plain_array_load [OF assms]; auto simp: room_def intro!: does_bind [OF does_on_world [OF world_load]]
      does_bind [OF does_on_world [OF world_lockword]] does_push does_push_elem
      does_push_elem2)+

lemma plain_array_store:
  assumes "services_ok vm V" and "2 \<le> n"
    and "\<And>c p m sp a i. in_frame c sp \<Longrightarrow> in_frame c (sp + int n - 1) \<Longrightarrow> does vm V c p m False sp (M a i) False sp (\<lambda>_. True)"
  shows "plain vm V (n, 0) (array_store vm (int n) M)"
  unfolding array_store_def
  by (rule plainI) (use assms(2) in \<open>intro goes_rules goes_arraycheck assms(1) goes_then [OF assms(3)]; simp add: room_def\<close>)

lemma does_store_elem:
  "in_frame c sp \<Longrightarrow> in_frame c (sp + 2) \<Longrightarrow> does vm V c p m x sp (store_elem n f a i) False sp (\<lambda>_. True)"
  unfolding store_elem_def by (rule does_bind, rule does_stack) (auto intro: does_on_world world_store)

lemma does_store_elem2:
  "in_frame c sp \<Longrightarrow> in_frame c (sp + 3) \<Longrightarrow> does vm V c p m x sp (store_elem2 a i) False sp (\<lambda>_. True)"
  unfolding store_elem2_def by (rule does_bind, rule does_stack2) (auto intro: does_on_world world_store)

lemma plain_array_stores:
  assumes "services_ok vm V"
  shows "plain vm V (3, 0) (do_iastore vm)" "plain vm V (3, 0) (do_fastore vm)"
    "plain vm V (3, 0) (do_castore vm)" "plain vm V (3, 0) (do_sastore vm)" "plain vm V (3, 0) (do_bastore vm)"
    "plain vm V (4, 0) (do_dastore vm)" "plain vm V (4, 0) (do_lastore vm)"
  unfolding do_iastore_def do_fastore_def do_castore_def do_sastore_def do_bastore_def do_dastore_def do_lastore_def
  by (rule plain_array_store [OF assms, of 3, simplified] plain_array_store [OF assms, of 4, simplified];
      auto intro!: does_bind [OF does_on_world [OF world_lockword]] does_store_elem does_store_elem2)+

lemma plain_aastore:
  assumes "services_ok vm V" and "tables_ok (vm_program vm) V"
  shows "plain vm V (3, 0) (do_aastore vm)"
proof -
  have elem: "world_safe vm V (bindM (obj_type obj) (\<lambda>t. bindM (obj_type array) (\<lambda>at. bindM (the_type vm at) (\<lambda>r.
         assignable_from vm t (ty_element r))))) answer" for obj array
    by (intro world_bind [OF world_obj_type] world_bind [OF world_type] world_assignable assms)
  show ?thesis unfolding do_aastore_def Let_def
    by (rule plainI) (intro goes_rules goes_arraycheck goes_bind [OF does_on_world [OF elem]] goes_post assms
        goes_then [OF does_on_world [OF world_store]]; simp add: room_def)
qed

lemma plain_monitors:
  assumes "services_ok vm V"
  shows "plain vm V (1, 0) (do_monitorenter vm)" "plain vm V (1, 0) (do_monitorexit vm)"
  unfolding do_monitorenter_def do_monitorexit_def
  by (rule plainI; intro goes_rules goes_bind [OF does_service] service_facts assms; simp add: room_def)+


section \<open>Types\<close>

lemma does_stack_words:
  "0 \<le> sp + i \<Longrightarrow> sp + i + int n \<le> int (co_max_locals c + co_max_stack c) \<Longrightarrow>
    does vm V c p m x sp (stack_words n i) x sp (\<lambda>_. True)"
proof (induction n arbitrary: i)
  case (Suc n)
  have "does vm V c p m x sp (stack_words n (i + 1)) x sp (\<lambda>_. True)" by (rule Suc.IH) (use Suc.prems in auto)
  then show ?case using Suc.prems by (auto intro!: does_bind [OF does_stack] does_bind [of vm V c p m x sp "stack_words n (i + 1)"] does_ret)
qed (simp add: does_ret)

lemma sound_new: "services_ok vm V \<Longrightarrow> sound vm V JC_new (do_new vm)"
  unfolding sound_def do_new_def
  by (auto dest!: effect_infos(6) intro!: goes_bind [OF does_infos(3)] goes_bind [OF does_service] service_facts goes_rules)

lemma sound_newarray: "services_ok vm V \<Longrightarrow> sound vm V JC_newarray (do_newarray vm)"
  unfolding sound_def do_newarray_def
  by (auto dest!: effect_infos(7) intro!: goes_bind [OF does_infos(3)] goes_bind [OF does_service] service_facts goes_rules simp: of_nat_diff)

lemma sound_anewarray: "services_ok vm V \<Longrightarrow> sound vm V JC_anewarray (do_anewarray vm)"
  unfolding sound_def do_anewarray_def
  by (auto dest!: effect_infos(8) intro!: goes_bind [OF does_infos(3)] goes_bind [OF does_service] service_facts goes_rules simp: of_nat_diff)

lemma sound_multianewarray: "services_ok vm V \<Longrightarrow> sound vm V JC_multianewarray (do_multianewarray vm)"
  unfolding sound_def do_multianewarray_def
  by (auto dest!: effect_infos(11) intro!: goes_bind [OF does_infos(8)] goes_bind [OF does_service] goes_bind [OF does_stack_words]
      service_facts goes_rules simp: of_nat_diff)

lemma sound_checkcast: "services_ok vm V \<Longrightarrow> tables_ok (vm_program vm) V \<Longrightarrow> sound vm V JC_checkcast (do_checkcast vm)"
  unfolding sound_def do_checkcast_def
  by (auto dest!: effect_infos(9) intro!: goes_bind [OF does_infos(3)] goes_bind [OF does_on_world [OF world_instance_of]]
      goes_post goes_rules simp: of_nat_diff)

lemma sound_instanceof: "services_ok vm V \<Longrightarrow> tables_ok (vm_program vm) V \<Longrightarrow> sound vm V JC_instanceof (do_instanceof vm)"
  unfolding sound_def do_instanceof_def
  by (auto dest!: effect_infos(10) intro!: goes_bind [OF does_infos(3)] goes_bind [OF does_on_world [OF world_instance_of]]
      goes_post goes_rules simp: of_nat_diff)

section \<open>String constants\<close>

lemma same_code_update:
  assumes c: "same_code c c'" and p: "p < length (co_opcodes c)" "p < length (co_info c)"
    and s: "co_opcodes c ! p = JC_ldc_string" "co_info c ! p = I_utf8 u"
  shows "same_code c' (c'\<lparr>co_info := (co_info c')[p := I_constant v], co_opcodes := (co_opcodes c')[p := JC_ldc]\<rparr>)"
proof -
  have "same_insn (co_opcodes c ! p, co_info c ! p) (co_opcodes c' ! p, co_info c' ! p)" "length (co_info c') = length (co_info c)"
    "length (co_opcodes c') = length (co_opcodes c)"
    using c p by (auto simp: same_code_def)
  then have "same_insn (co_opcodes c' ! p, co_info c' ! p) (JC_ldc, I_constant v)" "p < length (co_info c')" "p < length (co_opcodes c')"
    using p s by (auto simp: same_insn_def)
  then show ?thesis by (auto simp: same_code_def nth_list_update same_insn_def)
qed

lemma does_update_insn:
  assumes p: "p < length (co_opcodes c)" "p < length (co_info c)"
    and s: "co_opcodes c ! p = JC_ldc_string" "co_info c ! p = I_utf8 u"
  shows "does vm V c p m False sp (update_insn JC_ldc (I_constant v)) False sp (\<lambda>_. True)"
  unfolding does_def
proof (intro allI impI)
  fix st :: "'a istate" assume st: "frame_at vm V c p m False sp st"
  then obtain c' where c': "w_code (i_world st) m = Some c'" "same_code c c'" by (auto simp: frame_at_def)
  define d where "d = c'\<lparr>co_info := (co_info c')[p := I_constant v], co_opcodes := (co_opcodes c')[p := JC_ldc]\<rparr>"
  have d: "same_code c' d" unfolding d_def by (rule same_code_update [OF c'(2) p s])
  define w where "w = (i_world st)\<lparr>w_code := (w_code (i_world st))(m \<mapsto> d)\<rparr>"
  have run: "update_insn JC_ldc (I_constant v) st = (Inr (), st\<lparr>i_world := w\<rparr>)"
    using st c' by (simp add: update_insn_def code_of_def bindM_def gets_def ret_def on_world_def modify_def frame_at_def d_def w_def)
  have ok: "world_ok vm V (i_world st)" "i_method st = m" using st by (auto simp: frame_at_def)
  then have "code_ok vm V m d" using c'(1) d unfolding world_ok_def code_ok_def by (meson same_code_check)
  with ok have "world_ok vm V w" by (simp add: world_ok_def w_def)
  moreover have "evolves (i_world st) w" using c'(1) d by (auto simp: evolves_def w_def)
  moreover have "w_code w m = Some d" "same_code c d" using c'(2) d same_code_trans by (auto simp: w_def)
  ultimately show "case update_insn JC_ldc (I_constant v) st of (Inl f, _) \<Rightarrow> tolerated f
      | (Inr r, s') \<Rightarrow> frame_at vm V c p m False sp s' \<and> evolves (i_world st) (i_world s') \<and> True"
    using run st by (simp add: frame_at_def)
qed

lemma sound_ldc_string: "services_ok vm V \<Longrightarrow> sound vm V JC_ldc_string (do_ldc_string vm)"
  unfolding sound_def do_ldc_string_def
  by (auto dest!: effect_infos(5) intro!: goes_bind [OF does_infos(11)] goes_bind [OF does_service] goes_bind [OF does_method]
      service_facts goes_then [OF does_update_insn] goes_rules)


section \<open>Fields\<close>

lemma value_type_cases:
  assumes "t \<in> set value_types"
  shows "t \<in> {JC_TYPE_BOOLEAN, JC_TYPE_BYTE, JC_TYPE_CHAR, JC_TYPE_SHORT, JC_TYPE_INT, JC_TYPE_FLOAT, JC_TYPE_REFERENCE} \<and> param_words t = 1
    \<or> t \<in> {JC_TYPE_LONG, JC_TYPE_DOUBLE} \<and> param_words t = 2"
  using assms by (auto simp: value_types_def param_words_def dword_type_def)

lemma does_load_push: "in_frame c sp \<Longrightarrow> does vm V c p m x sp (bindM (on_world (mem_load n a)) (\<lambda>v. push (f v))) False (sp + 1) (\<lambda>_. True)"
  by (rule does_bind [OF does_on_world [OF world_load]]) (rule does_push)

lemma does_load_push2: "in_frame c sp \<Longrightarrow> in_frame c (sp + 1) \<Longrightarrow>
    does vm V c p m x sp (bindM (on_world (mem_load n a)) push2) False (sp + 2) (\<lambda>_. True)"
  by (rule does_bind [OF does_on_world [OF world_load]]) (rule does_push2)

lemma does_push_field:
  assumes "t \<in> set value_types" and "0 \<le> sp" and "sp + int (param_words t) \<le> int (co_max_locals c + co_max_stack c)"
  shows "does vm V c p m x sp (push_field t a) False (sp + int (param_words t)) (\<lambda>_. True)"
  using value_type_cases [OF assms(1)] assms(2,3) unfolding push_field_def
  by (elim disjE conjE insertE emptyE; simp add: does_load_push does_load_push2)

lemma does_store_pop: "in_frame c (sp + i) \<Longrightarrow>
    does vm V c p m x sp (bindM (stack i) (\<lambda>v. on_world (mem_store n a (f v)))) False sp (\<lambda>_. True)"
  by (rule does_bind [OF does_stack]) (auto intro: does_on_world world_store)

lemma does_store_pop2: "in_frame c (sp + i) \<Longrightarrow> in_frame c (sp + i + 1) \<Longrightarrow>
    does vm V c p m x sp (bindM (stack2 i) (\<lambda>v. on_world (mem_store n a v))) False sp (\<lambda>_. True)"
  by (rule does_bind [OF does_stack2]) (auto intro: does_on_world world_store)

lemma does_store_field:
  assumes "t \<in> set value_types" and "0 \<le> sp + i" and "sp + i + int (param_words t) \<le> int (co_max_locals c + co_max_stack c)"
  shows "does vm V c p m x sp (store_field t a i) False sp (\<lambda>_. True)"
  using value_type_cases [OF assms(1)] assms(2,3) unfolding store_field_def
  by (elim disjE conjE insertE emptyE; simp add: does_store_pop does_store_pop2)

lemma world_field_flags:
  assumes "pr_fields (vm_program vm) a = Some f"
  shows "world_safe vm V (type_flags (fi_type f)) (\<lambda>r. type_of_flags r \<in> set value_types
    \<and> param_words (type_of_flags r) = param_words (field_type f))"
  unfolding world_safe_def type_flags_def gets_def using assms by (auto simp: world_ok_def)

lemma does_pops: "does vm V c p m x sp (if dword_type t then pop2 1 else pop 1) x (sp - int (param_words t)) (\<lambda>_. True)"
  using does_pop [of vm V c p m x sp 1] does_pop2 [of vm V c p m x sp 1] by (simp add: param_words_def)

lemma does_initialized: "services_ok vm V \<Longrightarrow> does vm V c p m x sp (initialized vm t) False sp (\<lambda>_. True)"
  unfolding initialized_def
  by (rule does_bind [OF does_on_world [OF world_flags]]) (auto intro!: does_ret does_service service_facts)

lemma world_field_ok: "world_safe vm V (the_field vm a) (\<lambda>r. pr_fields (vm_program vm) a = Some r \<and> field_type r \<in> set value_types)"
  unfolding world_safe_def the_field_def
  by (auto simp: ret_def fails_def tolerated_def world_ok_def split: option.splits)

lemma sound_getfield: "sound vm V JC_getfield (do_getfield vm)"
  unfolding sound_def do_getfield_def
  by (auto dest!: effect_infos(16) intro!: goes_bind [OF does_infos(4)] goes_bind [OF does_on_world [OF world_field]]
      goes_bind [OF does_on_world [OF world_field_flags]] goes_then [OF does_push_field] goes_rules simp: of_nat_diff)

lemma sound_putfield: "sound vm V JC_putfield (do_putfield vm)"
  unfolding sound_def do_putfield_def
  by (auto dest!: effect_infos(17) intro!: goes_bind [OF does_infos(4)] goes_bind [OF does_on_world [OF world_field]]
      goes_bind [OF does_on_world [OF world_field_flags]] goes_then [OF does_store_field] goes_then [OF does_pops] goes_rules simp: of_nat_diff)

lemma sound_getstatic: "services_ok vm V \<Longrightarrow> sound vm V JC_getstatic (do_getstatic vm)"
  unfolding sound_def do_getstatic_def
  by (auto dest!: effect_infos(14) intro!: goes_bind [OF does_infos(4)] goes_bind [OF does_on_world [OF world_field]]
      goes_bind [OF does_initialized] goes_bind [OF does_on_world [OF world_type]]
      goes_bind [OF does_on_world [OF world_field_flags]] goes_then [OF does_push_field] goes_rules simp: of_nat_diff)

lemma sound_putstatic: "services_ok vm V \<Longrightarrow> sound vm V JC_putstatic (do_putstatic vm)"
  unfolding sound_def do_putstatic_def Let_def field_type_def [symmetric]
  by (auto dest!: effect_infos(15) intro!: goes_bind [OF does_infos(4)] goes_bind [OF does_on_world [OF world_field_ok]]
      goes_bind [OF does_initialized] goes_bind [OF does_on_world [OF world_type]]
      goes_then [OF does_store_field] goes_then [OF does_pops] goes_rules simp: of_nat_diff)

end
