(* ===== verification/Interp_Call_Safe.thy ===== *)
theory Interp_Call_Safe
  imports Interp_Heap_Safe
begin

text \<open>
  Invocations, exceptions and frames of checked code, and the theorem: the interpreter keeps to the frame
  of every method of a checked program.
\<close>

section \<open>Invocations\<close>

definition run_ok :: "'e vm \<Rightarrow> u32 set \<Rightarrow> 'e runner \<Rightarrow> bool" where
  "run_ok vm V run \<longleftrightarrow> (\<forall>m this args meth. pr_methods (vm_program vm) m = Some meth \<longrightarrow> method_words meth \<le> length args \<longrightarrow>
     world_safe vm V (run m this args) (\<lambda>_. True))"

text \<open>The method that is selected has the shape of the one that was named.\<close>

definition selects :: "'e vm \<Rightarrow> jmethod \<Rightarrow> go + u32 \<Rightarrow> bool" where
  "selects vm im sel \<longleftrightarrow> (case sel of Inl g \<Rightarrow> g = Exception
     | Inr m \<Rightarrow> \<forall>y. pr_methods (vm_program vm) m = Some y \<longrightarrow> same_shape im y)"

lemma does_post_sel: "services_ok vm V \<Longrightarrow> does vm V c p m x sp (bindM (post vm e) (\<lambda>g. ret (Inl g))) False sp (selects vm im)"
  by (rule does_bind, erule does_post) (simp add: does_ret selects_def)

lemma does_if: "(b \<Longrightarrow> does vm V c p m x sp M x' sp' R) \<Longrightarrow> (\<not> b \<Longrightarrow> does vm V c p m x sp N x' sp' R) \<Longrightarrow>
    does vm V c p m x sp (if b then M else N) x' sp' R"
  by simp

lemma does_select_static:
  assumes "services_ok vm V" and "pr_methods (vm_program vm) m' = Some im" and "same_shape im im"
  shows "does vm V c p m x sp (select_static vm m') False sp (selects vm im)"
  unfolding select_static_def
  by (rule does_bind [OF does_on_world [OF world_method]], rule does_bind [OF does_initialized [OF assms(1)]])
    (auto intro!: does_ret simp: selects_def assms)

lemma does_select_virtual:
  assumes "tables_ok (vm_program vm) V" and "pr_methods (vm_program vm) m' = Some im" and "m' \<in> V"
  shows "does vm V c p m x sp (select_virtual vm m' obj) False sp (selects vm im)"
proof -
  have t: "me_vtable_index im < length (ty_mtable r)" "pr_methods (vm_program vm) (ty_mtable r ! me_vtable_index im) = Some y \<Longrightarrow> same_shape im y"
    if "pr_types (vm_program vm) t = Some r" for t r y
    using assms that unfolding tables_ok_def by blast+
  show ?thesis unfolding select_virtual_def
    apply (rule does_bind [OF does_on_world [OF world_lockword]])
    apply (rule does_bind [of vm V c p m False sp "if _ then ret _ else on_world (obj_type obj)" False sp "\<lambda>_. True"])
     apply (auto intro!: does_ret does_on_world world_obj_type)[1]
    apply (rule does_bind [OF does_on_world [OF world_type]], rule does_bind [OF does_on_world [OF world_method]])
    apply (auto intro!: does_bind [OF does_lift [of _ _ "\<lambda>v. \<forall>y. pr_methods (vm_program vm) v = Some y \<longrightarrow> same_shape im y"]] does_ret
        simp: selects_def assms(2) t)
    done
qed

lemma does_select_interface:
  assumes "services_ok vm V" and "tables_ok (vm_program vm) V" and "pr_methods (vm_program vm) m' = Some im" and "m' \<in> V"
  shows "does vm V c p m x sp (select_interface vm m' obj) False sp (selects vm im)"
proof -
  have t: "unat (me_signature_hash im AND 127) < length (ty_imethods r)"
    "Some ms \<in> set (ty_imethods r) \<Longrightarrow> k \<in> set ms \<Longrightarrow> pr_methods (vm_program vm) k = Some y \<Longrightarrow>
       me_signature_hash y = me_signature_hash im \<Longrightarrow> same_shape im y"
    if "pr_types (vm_program vm) t = Some r" for t r ms k y
    using bucket_in [OF assms(2) that] assms(2,3,4) that unfolding tables_ok_def by blast+
  have found: "does vm V c p m False sp (bindM (on_world (find_method vm (me_signature_hash im) ms)) (\<lambda>found. case found of
           None \<Rightarrow> bindM (post vm AbstractMethodError) (\<lambda>g. ret (Inl g))
         | Some m' \<Rightarrow> bindM (on_world (the_method vm m')) (\<lambda>r'.
             if \<not> acc_test (me_access r') ACC_PUBLIC then bindM (post vm IllegalAccessError) (\<lambda>g. ret (Inl g))
             else ret (Inr m')))) False sp (selects vm im)"
    if "pr_types (vm_program vm) t = Some r" "Some ms \<in> set (ty_imethods r)" for t r ms
    by (rule does_bind [OF does_on_world [OF world_find_method]])
      (auto intro!: does_post_sel assms(1) does_bind [OF does_on_world [OF world_method]] does_ret simp: selects_def t(2) [OF that]
        split: option.splits)
  show ?thesis unfolding select_interface_def
    apply (rule does_bind [OF does_on_world [OF world_method]])
    apply (rule does_bind [OF does_on_world [OF world_instance_of [OF assms(1,2)]]])
    apply (intro does_if does_post_sel assms(1))
     apply (simp add: does_ret selects_def)
    apply (rule does_bind [OF does_on_world [OF world_obj_type]], rule does_bind [OF does_on_world [OF world_type]])
    subgoal for im' status t r
      using assms(3) found [of t r] t(1) [of t r]
      by (auto intro!: does_bind [OF does_lift [of _ _ "\<lambda>b. b = ty_imethods r ! unat (me_signature_hash im AND 127)"]] does_post_sel assms(1)
          split: option.splits dest: nth_mem)
    done
qed


lemma does_select_method:
  assumes s: "services_ok vm V" and t: "tables_ok (vm_program vm) V" and "invoke_effect (vm_program vm) V opc m' n = Some e"
    and im: "pr_methods (vm_program vm) m' = Some im"
  shows "does vm V c p m x sp (select_method vm opc m' obj) False sp (selects vm im)"
proof -
  have shape: "same_shape im im" and V: "opc = JC_invokevirtual \<or> opc = JC_invokeinterface \<Longrightarrow> m' \<in> V"
    using assms(3) im by (auto simp: invoke_effect_def same_shape_def split: if_splits)
  have "does vm V c p m x sp (ret (Inr m')) False sp (selects vm im)" 
    unfolding does_def ret_def using shape by (auto simp: selects_def im intro: frame_weaken)
  then show ?thesis unfolding select_method_def
    using does_select_interface [OF s t im] does_select_virtual [OF t im] does_select_static [OF s im shape] V by (intro does_if) auto
qed

lemma does_words_at:
  "0 \<le> sp + i \<Longrightarrow> sp + i \<le> int (co_max_locals c + co_max_stack c) \<Longrightarrow>
    does vm V c p m x sp (words_at i) x sp (\<lambda>ws. int (length ws) = int (co_max_locals c + co_max_stack c) - (sp + i))"
  by (auto simp: does_def words_at_def bindM_def gets_def ret_def frame_at_def)

lemma does_push_retval:
  assumes "0 \<le> sp" and "sp + int (result_words t) \<le> int (co_max_locals c + co_max_stack c)"
  shows "does vm V c p m x sp (push_retval t) x (sp + int (result_words t)) (\<lambda>_. True)"
proof -
  have v: "does vm V c p m x sp (gets (\<lambda>s. w_retval (i_world s))) x sp (\<lambda>_. True)" by (auto simp: does_def gets_def)
  show ?thesis
  proof (cases "t \<in> set value_types")
    case True
    then have r: "result_words t = param_words t" by (simp add: result_words_def)
    show ?thesis using value_type_cases [OF True] assms unfolding push_retval_def r
      by (elim disjE conjE insertE emptyE; auto intro!: does_bind [OF v] does_push does_push2)
  next
    case False
    then show ?thesis unfolding push_retval_def result_words_def
      by (auto intro!: does_bind [OF v] does_ret simp: value_types_def)
  qed
qed

lemma goes_invoke_method:
  assumes s: "services_ok vm V" and run: "run_ok vm V run"
    and im: "same_shape im im'" "pr_methods (vm_program vm) m' = Some im'"
    and sp: "0 \<le> sp" "sp + (if opc = JC_invokestatic then 0 else 1) + int (method_words im) \<le> int (co_max_locals c + co_max_stack c)"
      "sp + int (result_words (me_param_ptypes im ! me_num_parameters im)) \<le> int (co_max_locals c + co_max_stack c)"
  shows "goes vm V c p m x sp (invoke_method vm run opc m' obj)
     (onto (sp + int (result_words (me_param_ptypes im ! me_num_parameters im))))"
proof -
  have call: "world_safe vm V (if acc_test (me_access meth) ACC_NATIVE then call (sv_native vm m' args)
         else if acc_test (me_access meth) ACC_INTERP then run m' obj params
         else call (sv_jcni vm m' obj params)) (\<lambda>_. True)" if "method_words im \<le> length params" for meth args params
    using run [unfolded run_ok_def, rule_format, OF im(2)] im(1) that
    by (auto intro!: world_if world_call service_facts s simp: same_shape_def)
  have shape: "method_words im' = method_words im" "me_num_parameters im' < length (me_param_ptypes im')"
    "result_words (me_param_ptypes im' ! me_num_parameters im') = result_words (me_param_ptypes im ! me_num_parameters im)"
    using im(1) by (auto simp: same_shape_def)
  show ?thesis unfolding invoke_method_def
    apply (rule goes_bind [OF does_words_at], use sp in \<open>simp; fail\<close>, use sp in \<open>simp split: if_splits; fail\<close>)
    apply (rule goes_bind [OF does_words_at], use sp in \<open>simp; fail\<close>, use sp in \<open>simp split: if_splits; fail\<close>)
    apply (rule goes_bind [OF does_on_world [OF world_method]])
    apply (rule goes_bind [OF does_on_world [OF call]], use sp in \<open>simp split: if_splits; fail\<close>)
    subgoal for params args meth ok
      using sp im(2) shape
      by (auto intro!: goes_ret goes_bind [OF does_lift [of _ _ "\<lambda>t. t = me_param_ptypes im' ! me_num_parameters im'"]]
          goes_then [OF does_push_retval])
    done
qed

lemma sound_invoke:
  assumes s: "services_ok vm V" and t: "tables_ok (vm_program vm) V" and run: "run_ok vm V run"
    and opc: "opc \<in> {JC_invokestatic, JC_invokespecial, JC_invokevirtual, JC_invokeinterface}"
  shows "sound vm V opc (do_invoke vm run)"
  unfolding sound_def
proof (intro allI impI)
  fix c :: icode and p m d a b falls ts
  assume p: "p < length (co_info c)" "p < length (co_opcodes c)" "co_opcodes c ! p = opc"
    and e: "insn_effect (vm_program vm) V (co_max_locals c) opc (co_info c ! p) = Some (a, b, falls, ts)"
    and d: "a \<le> d" "d \<le> co_max_stack c" "d - a + b \<le> co_max_stack c"
  obtain m' n where i: "co_info c ! p = I_invoke m' n" and ie: "invoke_effect (vm_program vm) V opc m' n = Some (a, b, falls, ts)"
    using effect_invoke [OF opc e] by blast
  then obtain im where im: "pr_methods (vm_program vm) m' = Some im" "a = n" "b = result_words (me_param_ptypes im ! me_num_parameters im)"
    "falls" "ts = []" "n = (if opc = JC_invokestatic then 0 else 1) + method_words im"
    by (auto simp: invoke_effect_def split: option.splits if_splits)
  define sp where "sp = int (co_max_locals c + d) - int n"
  have obj: "does vm V c p m True sp (if opc = JC_invokestatic then ret null else stack 0) True sp (\<lambda>_. True)"
    using d im by (auto intro!: does_ret does_stack simp: sp_def)
  have sel: "goes vm V c p m False sp (case sel of Inl g \<Rightarrow> ret g | Inr m' \<Rightarrow> invoke_method vm run opc m' obj)
      (onto (sp + int b))" if "selects vm im sel" for sel obj
  proof (cases sel)
    case (Inl g)
    with that show ?thesis by (auto simp: selects_def intro!: goes_ret)
  next
    case (Inr m'')
    show ?thesis
    proof (cases "pr_methods (vm_program vm) m''")
      case None
      have w: "world_safe vm V (the_method vm m'') (\<lambda>_. False)" using None by (simp add: the_method_def tolerated_def world_fails)
      have "goes vm V c p m False sp (invoke_method vm run opc m'' obj) (onto (sp + int b))" unfolding invoke_method_def
        apply (rule goes_bind [OF does_words_at], use d im in \<open>simp add: sp_def; fail\<close>, use d im in \<open>simp add: sp_def; fail\<close>)
        apply (rule goes_bind [OF does_words_at], use d im in \<open>simp add: sp_def; fail\<close>, use d im in \<open>simp add: sp_def; fail\<close>)
        apply (rule goes_bind [OF does_on_world [OF w]], simp)
        done
      with Inr show ?thesis by simp
    next
      case (Some y)
      with that Inr have "same_shape im y" by (simp add: selects_def)
      from goes_invoke_method [OF s run this Some, of sp opc c p m False obj] d im Inr show ?thesis
        by (auto simp: sp_def)
    qed
  qed
  have "goes vm V c p m True (int (co_max_locals c + d)) (do_invoke vm run) (onto (sp + int b))"
    unfolding do_invoke_def
    apply (rule goes_bind [OF does_infos(6) [OF p(1) i]], simp only: prod.case)
    apply (rule goes_then [OF does_pop], fold sp_def)
    apply (rule goes_bind [OF does_opcode [OF p(2)]], simp only: p(3))
    apply (rule goes_bind [OF obj])
    apply (intro goes_if goes_ret, simp)
    apply (rule goes_bind [OF does_select_method [OF s t ie im(1)]], rule sel, assumption)
    done
  then have "goes vm V c p m True (int (co_max_locals c + d)) (do_invoke vm run) (onto (int (co_max_locals c + d) - int a + int b))"
    by (simp only: sp_def im(2))
  then have "goes vm V c p m True (int (co_max_locals c + d)) (do_invoke vm run) (lands c p d (a, b, True, ts))"
    by (rule goes_weaken) (rule onto_lands [OF _ d(1)])
  moreover have "falls = True" using im(4) by simp
  ultimately show "goes vm V c p m True (int (co_max_locals c + d)) (do_invoke vm run) (lands c p d (a, b, falls, ts))"
    by (simp only:)
qed


section \<open>Dispatch\<close>

lemma heap_sound:
  assumes s: "services_ok vm V" and t: "tables_ok (vm_program vm) V" and run: "run_ok vm V run" and "(opc, M) \<in> set (actions_heap vm run)"
  shows "sound vm V opc M"
proof -
  note plains = plain_array_loads [OF s] plain_array_stores [OF s] plain_aastore [OF s t] plain_monitors [OF s]
  note facts = sound_new [OF s] sound_newarray [OF s] sound_anewarray [OF s] sound_multianewarray [OF s] sound_checkcast [OF s t]
    sound_instanceof [OF s t] sound_ldc_string [OF s] sound_getfield sound_putfield sound_getstatic [OF s] sound_putstatic [OF s]
  have "list_all (\<lambda>(opc, M). sound vm V opc M) (actions_heap vm run)"
    unfolding actions_heap_def list.pred_inject prod.case
    by (intro conjI; (rule list.pred_inject(1) facts | rule sound_invoke [OF s t run]; simp; fail
        | rule plains [THEN sound_plain [rotated]]; simp add: plain_effects_def; fail))
  with assms(4) show ?thesis by (auto simp: list_all_iff)
qed

lemma action_sound:
  assumes "services_ok vm V" and "tables_ok (vm_program vm) V" and "run_ok vm V run" and "map_of (actions vm run) opc = Some M"
  shows "sound vm V opc M"
proof -
  have "(opc, M) \<in> set (actions vm run)" by (rule map_of_SomeD) fact
  then consider "(opc, M) \<in> set actions_frame" | "(opc, M) \<in> set (actions_float (vm_fpu vm))" | "(opc, M) \<in> set (actions_heap vm run)"
    unfolding actions_def by (metis Un_iff set_append)
  then show ?thesis by cases (rule frame_sound float_sound heap_sound [OF assms(1,2,3)], assumption)+
qed

text \<open>Every opcode with an effect has an action.\<close>

definition special_codes :: "u8 list" where
  "special_codes = [JC_iinc, JC_goto, JC_ldc, JC_ldc2_w, JC_ldc_string, JC_multianewarray, JC_lookupswitch, JC_tableswitch,
     JC_getstatic, JC_putstatic, JC_getfield, JC_putfield, JC_invokestatic, JC_invokespecial, JC_invokevirtual, JC_invokeinterface]"

lemma effect_codes:
  assumes "insn_effect P V l opc i = Some e"
  shows "opc \<in> set (map fst plain_effects) \<union> set (map fst leave_effects) \<union> set (map fst local_effects) \<union> set (map fst branch_effects)
    \<union> set (map fst type_effects) \<union> set special_codes"
proof -
  have key: "map_of xs k = Some v \<Longrightarrow> k \<in> set (map fst xs)" for xs :: "(u8 \<times> 'z) list" and k v
    by (force dest: map_of_SomeD)
  show ?thesis
  proof (cases "map_of plain_effects opc = None \<and> map_of leave_effects opc = None \<and> map_of local_effects opc = None
      \<and> map_of branch_effects opc = None \<and> map_of type_effects opc = None")
    case True
    then have "opc \<in> set special_codes" using assms
      by (cases i) (auto simp: insn_effect_def field_effect_def invoke_effect_def special_codes_def Let_def split: if_splits option.splits)
    then show ?thesis by simp
  next
    case False
    then show ?thesis using key by (meson Un_iff not_None_eq)
  qed
qed

lemma action_exists:
  assumes "insn_effect P V l opc i = Some e"
  obtains M where "map_of (actions vm run) opc = Some M"
proof -
  have keys: "fst ` set (actions vm run) = set (map fst (actions vm run))" by simp
  have "list_all (\<lambda>k. k \<in> fst ` set (actions vm run)) (map fst plain_effects)"
    "list_all (\<lambda>k. k \<in> fst ` set (actions vm run)) (map fst leave_effects @ map fst local_effects @ map fst branch_effects)"
    "list_all (\<lambda>k. k \<in> fst ` set (actions vm run)) (map fst type_effects @ special_codes)"
    unfolding keys by (simp_all add: actions_def actions_frame_def actions_float_def actions_heap_def effect_tables special_codes_def)
  then have "opc \<in> fst ` set (actions vm run)" using effect_codes [OF assms] by (auto simp only: list_all_iff set_append Un_iff)
  then show ?thesis using that by (metis map_of_eq_None_iff not_None_eq)
qed

end
