(* ===== verification/Interp_Type.thy ===== *)
theory Interp_Type
  imports Interp_Call_Safe
begin

text \<open>
  The interpreter keeps to the frames of a checked program: the loop, the frame of a method, and the
  theorem for a run from any method.
\<close>

section \<open>One turn\<close>

definition go_ok :: "icode \<Rightarrow> nat list \<Rightarrow> nat \<Rightarrow> go \<Rightarrow> int \<Rightarrow> bool" where
  "go_ok c ds p g sp \<longleftrightarrow> (case g of
     Next \<Rightarrow> p + 1 < length ds \<and> sp = int (co_max_locals c + ds ! (p + 1))
   | Jump t \<Rightarrow> 0 \<le> t \<and> nat t < length ds \<and> sp = int (co_max_locals c + ds ! nat t)
   | _ \<Rightarrow> True)"

lemma go_ok_simps [simp]:
  "go_ok c ds p Next sp \<longleftrightarrow> p + 1 < length ds \<and> sp = int (co_max_locals c + ds ! (p + 1))"
  "go_ok c ds p (Jump t) sp \<longleftrightarrow> 0 \<le> t \<and> nat t < length ds \<and> sp = int (co_max_locals c + ds ! nat t)"
  "go_ok c ds p Null_pointer sp" "go_ok c ds p Arithmetic sp" "go_ok c ds p Exception sp" "go_ok c ds p Done sp"
  by (simp_all add: go_ok_def)

lemma lands_go_ok:
  assumes "lands c p d (a, b, falls, ts) g sp" and "d = ds ! p" and "p < length ds"
    and "falls \<longrightarrow> flows ds (d - a + b) (p + 1)" and "list_all (flows ds (d - a + b)) ts"
  shows "go_ok c ds p g sp"
  using assms by (cases g) (auto simp: flows_def list_all_iff nat_add_distrib)

lemma goes_dispatch:
  assumes ok: "services_ok vm V" "tables_ok (vm_program vm) V" "run_ok vm V run"
    and c: "check_code (vm_program vm) V c ds" and p: "p < length ds"
  shows "goes vm V c p m True (int (co_max_locals c + ds ! p)) (dispatch vm run) (go_ok c ds p)"
proof -
  have len: "p < length (co_opcodes c)" "p < length (co_info c)" using c p by (simp_all add: check_code_def)
  have "check_insn (vm_program vm) V c ds p" using c p by (simp add: check_code_def list_all_iff)
  then obtain a b falls ts where e: "insn_effect (vm_program vm) V (co_max_locals c) (co_opcodes c ! p) (co_info c ! p) = Some (a, b, falls, ts)"
    and d: "a \<le> ds ! p" "ds ! p \<le> co_max_stack c" "ds ! p - a + b \<le> co_max_stack c"
    and f: "falls \<longrightarrow> flows ds (ds ! p - a + b) (p + 1)" "list_all (flows ds (ds ! p - a + b)) ts"
    by (auto simp: check_insn_def Let_def split: option.splits)
  obtain M where M: "map_of (actions vm run) (co_opcodes c ! p) = Some M" by (rule action_exists [OF e])
  have "goes vm V c p m True (int (co_max_locals c + ds ! p)) M (lands c p (ds ! p) (a, b, falls, ts))"
    using action_sound [OF ok M] len e d unfolding sound_def by blast
  then have "goes vm V c p m True (int (co_max_locals c + ds ! p)) M (go_ok c ds p)"
    by (rule goes_weaken) (rule lands_go_ok [OF _ refl p f])
  then show ?thesis unfolding dispatch_def
    by (intro goes_bind [OF does_opcode [OF len(1)]]) (simp add: M)
qed

section \<open>Runs to the end of the frame\<close>

definition ends :: "'e vm \<Rightarrow> u32 set \<Rightarrow> icode \<Rightarrow> nat \<Rightarrow> u32 \<Rightarrow> bool \<Rightarrow> int \<Rightarrow> ('e, bool) im \<Rightarrow> bool" where
  "ends vm V c p m x sp M \<longleftrightarrow> (\<forall>s. frame_at vm V c p m x sp s \<longrightarrow> (case M s of
      (Inl f, _) \<Rightarrow> tolerated f
    | (Inr r, s') \<Rightarrow> world_ok vm V (i_world s') \<and> evolves (i_world s) (i_world s')))"

lemma ends_bind:
  assumes "goes vm V c p m x sp M Q" and "\<And>r k. Q r k \<Longrightarrow> ends vm V c p m False k (K r)"
  shows "ends vm V c p m x sp (bindM M K)"
  unfolding ends_def
proof (intro allI impI)
  fix s assume "frame_at vm V c p m x sp s"
  with assms(1) [unfolded goes_def, rule_format, of s]
  consider f s' where "M s = (Inl f, s')" "tolerated f"
    | r s' k where "M s = (Inr r, s')" "frame_at vm V c p m False k s'" "evolves (i_world s) (i_world s')" "Q r k"
    by (cases "M s"; cases "fst (M s)") auto
  then show "case bindM M K s of (Inl f, _) \<Rightarrow> tolerated f
      | (Inr r, s') \<Rightarrow> world_ok vm V (i_world s') \<and> evolves (i_world s) (i_world s')"
  proof cases
    case 2
    from assms(2) [OF 2(4), unfolded ends_def, rule_format, OF 2(2)] 2(1,3) show ?thesis
      by (auto simp: bindM_def split: sum.splits prod.splits dest: evolves_trans)
  qed (simp add: bindM_def)
qed

lemma does_goes: "does vm V c p m x sp M x' sp' R \<Longrightarrow> goes vm V c p m x sp M (\<lambda>r k. k = sp' \<and> R r)"
  unfolding goes_def
proof (intro allI impI)
  fix s assume d: "does vm V c p m x sp M x' sp' R" and "frame_at vm V c p m x sp s"
  from doesD [OF this] show "case M s of (Inl f, _) \<Rightarrow> tolerated f
      | (Inr r, s') \<Rightarrow> \<exists>k. frame_at vm V c p m False k s' \<and> evolves (i_world s) (i_world s') \<and> k = sp' \<and> R r"
    using frame_weaken [of vm V c p m x' sp'] by auto
qed

lemma ends_ret: "ends vm V c p m x sp (ret r)"
  by (auto simp: ends_def ret_def frame_at_def)

lemma ends_fails: "tolerated f \<Longrightarrow> ends vm V c p m x sp (fails f)"
  by (simp add: ends_def fails_def)

lemma frame_exact:
  assumes "frame_at vm V c p m x sp s"
  obtains c' where "same_code c c'" "frame_at vm V c' p m True sp s"
proof -
  from assms obtain c' where "w_code (i_world s) m = Some c'" "same_code c c'" by (auto simp: frame_at_def)
  moreover from this have "frame_at vm V c' p m True sp s" using assms by (simp add: frame_at_def) (simp add: same_code_def)
  ultimately show ?thesis using that by blast
qed

lemma ends_exact: "(\<And>c'. same_code c c' \<Longrightarrow> ends vm V c' p m True sp M) \<Longrightarrow> ends vm V c p m x sp M"
  unfolding ends_def
proof (intro allI impI)
  fix s assume *: "\<And>c'. same_code c c' \<Longrightarrow> \<forall>s. frame_at vm V c' p m True sp s \<longrightarrow> (case M s of (Inl f, _) \<Rightarrow> tolerated f
      | (Inr r, s') \<Rightarrow> world_ok vm V (i_world s') \<and> evolves (i_world s) (i_world s'))" and "frame_at vm V c p m x sp s"
  from this(2) obtain c' where "same_code c c'" "frame_at vm V c' p m True sp s" by (rule frame_exact)
  with * show "case M s of (Inl f, _) \<Rightarrow> tolerated f
      | (Inr r, s') \<Rightarrow> world_ok vm V (i_world s') \<and> evolves (i_world s) (i_world s')" by simp
qed

lemma ends_modify:
  assumes "\<And>s. frame_at vm V c p m x sp s \<Longrightarrow> frame_at vm V c p' m x sp (f s) \<and> i_world (f s) = i_world s"
    and "ends vm V c p' m x sp M"
  shows "ends vm V c p m x sp (thenM (modify f) M)"
  unfolding ends_def
proof (intro allI impI)
  fix s assume "frame_at vm V c p m x sp s"
  from assms(1) [OF this] assms(2) [unfolded ends_def, rule_format, of "f s"]
  show "case thenM (modify f) M s of (Inl f, _) \<Rightarrow> tolerated f
      | (Inr r, s') \<Rightarrow> world_ok vm V (i_world s') \<and> evolves (i_world s) (i_world s')"
    by (cases "M (f s)"; cases "fst (M (f s))") (auto simp: thenM_def bindM_def modify_def)
qed

lemma ends_gets: "(\<And>b. ends vm V c p m x sp (K b)) \<Longrightarrow> ends vm V c p m x sp (bindM (gets f) K)"
  unfolding ends_def bindM_def gets_def by simp

lemma ends_then_pc:
  "ends vm V c (p + 1) m x sp M \<Longrightarrow> ends vm V c p m x sp (thenM (modify (\<lambda>s. s\<lparr>i_pc := i_pc s + 1\<rparr>)) M)"
  by (rule ends_modify) (auto simp: frame_at_def)

lemma ends_tick:
  assumes "0 \<le> t" and "\<And>b. ends vm V c (nat t) m x sp (K b)"
  shows "ends vm V c p m x sp (bindM (tick t) K)"
proof -
  have "frame_at vm V c (nat t) m x sp (s\<lparr>i_pc := t, i_ticker := n\<rparr>)" if "frame_at vm V c p m x sp s" for s :: "'a istate" and n
    using that assms(1) by (auto simp: frame_at_def)
  then have "ends vm V c p m x sp (thenM (modify (\<lambda>s. s\<lparr>i_pc := t, i_ticker := i_ticker s - 1\<rparr>))
      (bindM (gets (\<lambda>s. i_ticker s = 0)) K))"
    by (intro ends_modify [of _ _ _ _ _ _ _ "nat t"] conjI) (auto intro!: ends_gets assms(2))
  then show ?thesis by (simp add: tick_def thenM_def bindM_assoc)
qed

lemma ends_ticker: "ends vm V c p m x sp M \<Longrightarrow> ends vm V c p m x sp (thenM (modify (\<lambda>s. s\<lparr>i_ticker := n\<rparr>)) M)"
  by (rule ends_modify) (auto simp: frame_at_def)

section \<open>Exceptions\<close>

lemma goes_find_trap:
  "goes vm V c p m x sp (find_trap vm ts) (\<lambda>r k. k = sp \<and> (\<forall>t e. r = Some (t, e) \<longrightarrow> t \<in> set ts))"
proof (induction ts arbitrary: x)
  case (Cons t ts)
  have "goes vm V c p m y sp (find_trap vm ts) (\<lambda>r k. k = sp \<and> (\<forall>t' e. r = Some (t', e) \<longrightarrow> t' \<in> set (t # ts)))" for y
    by (rule goes_weaken [OF Cons.IH]) auto
  then show ?case unfolding find_trap.simps
    apply (intro goes_bind [OF does_pc] goes_if, assumption)
    apply (rule goes_bind [OF does_on_world [OF world_retrieve]])
    apply (auto intro: goes_ret split: option.splits)
    done
qed (simp add: goes_ret)

lemma goes_bind':
  assumes "goes vm V c p m x sp M Q" and "\<And>r k. Q r k \<Longrightarrow> goes vm V c p m False k (K r) R"
  shows "goes vm V c p m x sp (bindM M K) R"
  unfolding goes_def
proof (intro allI impI)
  fix s assume "frame_at vm V c p m x sp s"
  with assms(1) [unfolded goes_def, rule_format, of s]
  consider f s' where "M s = (Inl f, s')" "tolerated f"
    | r s' k where "M s = (Inr r, s')" "frame_at vm V c p m False k s'" "evolves (i_world s) (i_world s')" "Q r k"
    by (cases "M s"; cases "fst (M s)") auto
  then show "case bindM M K s of (Inl f, _) \<Rightarrow> tolerated f
      | (Inr r, s') \<Rightarrow> \<exists>k. frame_at vm V c p m False k s' \<and> evolves (i_world s) (i_world s') \<and> R r k"
  proof cases
    case 2
    from assms(2) [OF 2(4), unfolded goes_def, rule_format, OF 2(2)] 2(1,3) show ?thesis
      by (auto simp: bindM_def split: sum.splits prod.splits dest: evolves_trans)
  qed (simp add: bindM_def)
qed

lemma goes_handle:
  assumes "check_code (vm_program vm) V c ds"
  shows "goes vm V c p m x sp (handle_exception vm) (\<lambda>r k. \<forall>t. r = Some t \<longrightarrow> go_ok c ds p (Jump (int t)) k)"
proof -
  have trap: "check_trap c ds t" if "same_code c c'" "t \<in> set (co_traps c')" for c' t
    using assms that by (auto simp: check_code_def same_code_def list_all_iff)
  have sp: "does vm V c p m y sp (modify (\<lambda>s. s\<lparr>i_sp := k\<rparr>)) y k (\<lambda>_. True)" for y k
    by (auto simp: does_def modify_def frame_at_def)
  show ?thesis unfolding handle_exception_def
    apply (rule goes_bind [OF does_code_later])
    apply (rule goes_bind' [OF goes_find_trap])
    subgoal for c' r k
      using trap [of c']
      by (cases r) (auto simp: check_trap_def flows_def same_code_def Suc_le_eq intro!: goes_ret goes_then [OF does_set_word] goes_then [OF sp])
    done
qed


section \<open>The loop and the frame\<close>

definition loop_ok :: "'e vm \<Rightarrow> u32 set \<Rightarrow> nat \<Rightarrow> bool" where
  "loop_ok vm V n \<longleftrightarrow> (\<forall>g m c ds p sp x meth. pr_methods (vm_program vm) m = Some meth \<longrightarrow>
     check_method (vm_program vm) V meth c ds \<longrightarrow> go_ok c ds p g sp \<longrightarrow> ends vm V c p m x sp (interp_loop n vm g))"

lemma loop_okD: "loop_ok vm V n \<Longrightarrow> pr_methods (vm_program vm) m = Some meth \<Longrightarrow> check_method (vm_program vm) V meth c ds \<Longrightarrow>
    go_ok c ds p g sp \<Longrightarrow> ends vm V c p m x sp (interp_loop n vm g)"
  unfolding loop_ok_def by blast

lemma turn_ok:
  assumes ok: "services_ok vm V" "tables_ok (vm_program vm) V" "run_ok vm V (interp n vm)" and loop: "loop_ok vm V n"
    and m: "pr_methods (vm_program vm) m = Some meth" and c: "check_method (vm_program vm) V meth c ds"
    and p: "p < length ds"
  shows "ends vm V c p m x (int (co_max_locals c + ds ! p)) (bindM (dispatch vm (interp n vm)) (interp_loop n vm))"
proof (rule ends_exact)
  fix c' assume s: "same_code c c'"
  then have c': "check_method (vm_program vm) V meth c' ds" using c by (rule same_code_check)
  have l: "co_max_locals c' = co_max_locals c" using s by (simp add: same_code_def)
  have "goes vm V c' p m True (int (co_max_locals c' + ds ! p)) (dispatch vm (interp n vm)) (go_ok c' ds p)"
    using c' by (intro goes_dispatch ok p) (simp add: check_method_def)
  then show "ends vm V c' p m True (int (co_max_locals c + ds ! p)) (bindM (dispatch vm (interp n vm)) (interp_loop n vm))"
    unfolding l by (rule ends_bind) (rule loop_okD [OF loop m c'])
qed

lemma loop_Suc:
  assumes ok: "services_ok vm V" "tables_ok (vm_program vm) V" "run_ok vm V (interp n vm)" and loop: "loop_ok vm V n"
  shows "loop_ok vm V (Suc n)"
  unfolding loop_ok_def
proof (intro allI impI)
  fix g m c ds p sp x meth
  assume m: "pr_methods (vm_program vm) m = Some meth" and c: "check_method (vm_program vm) V meth c ds" and g: "go_ok c ds p g sp"
  note next' = loop_okD [OF loop m c]
  show "ends vm V c p m x sp (interp_loop (Suc n) vm g)"
  proof (cases g)
    case Next
    with g have p: "p + 1 < length ds" and sp: "sp = int (co_max_locals c + ds ! (p + 1))" by auto
    show ?thesis unfolding Next interp_loop.simps go.case sp by (rule ends_then_pc) (rule turn_ok [OF ok loop m c p])
  next
    case (Jump t)
    with g have t: "0 \<le> t" "nat t < length ds" and sp: "sp = int (co_max_locals c + ds ! nat t)" by auto
    have check: "ends vm V c (nat t) m x sp (bindM (service (sv_thread_check vm)) (\<lambda>ok.
         if ok then thenM (modify (\<lambda>s. s\<lparr>i_ticker := periodic_check_ticks\<rparr>)) (interp_loop n vm (Jump t))
         else interp_loop n vm Exception))"
      using next' [of "nat t" "Jump t" sp] next' [of "nat t" Exception sp] t sp
      by (intro ends_bind [OF does_goes [OF does_service]]) (auto intro: service_facts ok(1) ends_ticker)
    have turn: "ends vm V c (nat t) m x sp (bindM (dispatch vm (interp n vm)) (interp_loop n vm))"
      unfolding sp by (rule turn_ok [OF ok loop m c t(2)])
    show ?thesis unfolding Jump interp_loop.simps go.case by (rule ends_tick [OF t(1)]) (simp add: check turn)
  next
    case Null_pointer
    show ?thesis unfolding Null_pointer interp_loop.simps go.case
      by (rule ends_bind [OF does_goes [OF does_post [OF ok(1)]]]) (auto intro: next')
  next
    case Arithmetic
    show ?thesis unfolding Arithmetic interp_loop.simps go.case
      by (rule ends_bind [OF does_goes [OF does_post [OF ok(1)]]]) (auto intro: next')
  next
    case Exception
    have "check_code (vm_program vm) V c ds" using c by (simp add: check_method_def)
    then show ?thesis unfolding Exception interp_loop.simps go.case
      by (intro ends_bind [OF goes_handle]) (auto intro: next' ends_ret split: option.splits)
  next
    case Done
    show ?thesis unfolding Done interp_loop.simps go.case by (rule ends_ret)
  qed
qed

lemma exit_ok:
  assumes ok: "services_ok vm V" and w: "world_ok vm V (i_world s)"
  shows "case exit_frame vm next b s of (Inl f, _) \<Rightarrow> tolerated f
    | (Inr r, s') \<Rightarrow> world_ok vm V (i_world s') \<and> evolves (i_world s) (i_world s')"
proof -
  define w1 where "w1 = (if i_lock s \<noteq> null then (snd (sv_unlock vm (i_lock s) (i_world s)))\<lparr>w_retval := w_retval (i_world s)\<rparr> else i_world s)"
  have "world_ok vm V (snd (sv_unlock vm (i_lock s) (i_world s))) \<and> evolves (i_world s) (snd (sv_unlock vm (i_lock s) (i_world s)))"
    using service_facts(3) [OF ok, of "i_world s" "i_lock s"] w by (simp add: keeps_def)
  then have w1: "world_ok vm V w1" "evolves (i_world s) w1" using w
    keeps_other [of "(snd (sv_unlock vm (i_lock s) (i_world s)))\<lparr>w_retval := w_retval (i_world s)\<rparr>" "snd (sv_unlock vm (i_lock s) (i_world s))" vm V]
    by (auto simp: w1_def keeps_def dest: evolves_trans)
  then have w2: "world_ok vm V (w1\<lparr>w_java_stack := next\<rparr>) \<and> evolves (i_world s) (w1\<lparr>w_java_stack := next\<rparr>)"
    using keeps_other [of "w1\<lparr>w_java_stack := next\<rparr>" w1 vm V] by (auto simp: keeps_def dest: evolves_trans)
  have "\<exists>r. exit_frame vm next b s = (Inr r, s\<lparr>i_world := w1\<lparr>w_java_stack := next\<rparr>\<rparr>)"
    by (simp add: exit_frame_def w1_def bindM_def thenM_def gets_def ret_def service_def on_world_def call_def set_retval_def modify_def)
  with w2 show ?thesis by auto
qed


lemma copy_params_length:
  assumes "method_words meth \<le> length args" and "co_num_params2 c = method_words meth"
    and "this_words meth + method_words meth \<le> co_max_locals c" and "length ws = co_max_locals c + co_max_stack c"
  obtains words where "copy_params this args meth c ws = Inr words" "length words = co_max_locals c + co_max_stack c"
  using assms that by (cases "acc_test (me_access meth) ACC_STATIC") (auto simp: copy_params_def this_words_def Let_def)

lemma frame_start:
  assumes ok: "services_ok vm V" and w: "world_ok vm V w" "w_code w m = Some c" and m: "pr_methods (vm_program vm) m = Some meth"
    and c: "check_method (vm_program vm) V meth c ds" and args: "method_words meth \<le> length args"
    and s: "i_world s = w" "i_pc s = 0" "i_method s = m"
  shows "case enter_frame vm meth this args s of (Inl f, _) \<Rightarrow> tolerated f
    | (Inr g, s') \<Rightarrow> \<exists>sp. frame_at vm V c 0 m False sp s' \<and> evolves w (i_world s') \<and> go_ok c ds 0 g sp"
proof -
  define ws where "ws = map (sv_garbage vm w) [0..<co_max_locals c + co_max_stack c]"
  obtain words where words: "copy_params this args meth c ws = Inr words" "length words = co_max_locals c + co_max_stack c"
    using copy_params_length [of meth args c ws this] args c by (auto simp: check_method_def ws_def)
  define s1 where "s1 = s\<lparr>i_words := words, i_sp := int (co_max_locals c)\<rparr>"
  define M where "M = (if acc_test (me_access meth) ACC_SYNCHRONIZED then
       bindM (if acc_test (me_access meth) ACC_STATIC
           then bindM (on_world (the_type vm (me_class meth))) (\<lambda>t. ret (ty_instance t)) else ret this) (\<lambda>lock.
       bindM (service (sv_lock vm lock)) (\<lambda>ok.
       if ok then thenM (modify (\<lambda>s. s\<lparr>i_lock := lock\<rparr>)) (ret (Jump 0)) else ret Exception))
     else ret (Jump 0))"
  have run: "enter_frame vm meth this args s = M s1"
    using s w(2) words service_facts(14) [OF ok]
    by (simp add: enter_frame_def code_of_def bindM_def gets_def ret_def Let_def liftM_def thenM_def modify_def M_def s1_def ws_def)
  have lock: "does vm V c 0 m y sp (modify (\<lambda>s. s\<lparr>i_lock := l\<rparr>)) y sp (\<lambda>_. True)" for y sp l
    by (auto simp: does_def modify_def frame_at_def)
  have f: "frame_at vm V c 0 m False (int (co_max_locals c)) s1" using s w words(2) by (auto simp: frame_at_def s1_def)
  have d: "flows ds 0 0" using c by (simp add: check_method_def check_code_def)
  have "does vm V c 0 m False (int (co_max_locals c)) (if acc_test (me_access meth) ACC_STATIC
      then bindM (on_world (the_type vm (me_class meth))) (\<lambda>t. ret (ty_instance t)) else ret this) False (int (co_max_locals c)) (\<lambda>_. True)"
    by (auto intro!: does_ret does_bind [OF does_on_world [OF world_type]])
  then have "goes vm V c 0 m False (int (co_max_locals c)) M (go_ok c ds 0)"
    unfolding M_def using d
    by (intro goes_if goes_ret goes_bind [OF _ goes_bind [OF does_service]] goes_then [OF lock])
      (auto simp: flows_def service_facts(2) [OF ok])
  from this [unfolded goes_def, rule_format, OF f] have "case M s1 of (Inl f, _) \<Rightarrow> tolerated f
    | (Inr r, s') \<Rightarrow> \<exists>sp'. frame_at vm V c 0 m False sp' s' \<and> evolves (i_world s1) (i_world s') \<and> go_ok c ds 0 r sp'" .
  moreover have "i_world s1 = w" using s by (simp add: s1_def)
  ultimately show ?thesis unfolding run by (auto split: sum.splits prod.splits)
qed

lemma run_Suc:
  assumes ok: "services_ok vm V" and loop: "loop_ok vm V n"
  shows "run_ok vm V (interp (Suc n) vm)"
  unfolding run_ok_def world_safe_def
proof (intro allI impI)
  fix m this and args :: "u32 list" and meth and w :: "'a world"
  assume m: "pr_methods (vm_program vm) m = Some meth" and args: "method_words meth \<le> length args" and w: "world_ok vm V w"
  define s where "s = \<lparr>i_words = [], i_sp = 0, i_pc = 0, i_ticker = periodic_check_ticks, i_lock = null, i_method = m,
          i_world = w\<lparr>w_java_stack := m # w_java_stack w\<rparr>\<rparr>"
  define M where "M = bindM (enter_frame vm meth this args) (\<lambda>g. bindM (interp_loop n vm g) (exit_frame vm (w_java_stack w)))"
  have post: "world_ok vm V (sv_post vm e w) \<and> evolves w (sv_post vm e w)" for e
    using service_facts(1) [OF ok, of w e] w by (simp add: keeps_def)
  have w': "world_ok vm V (i_world s)" "evolves w (i_world s)"
    using keeps_other [of "i_world s" w vm V] w by (simp_all add: s_def keeps_def)
  have frame: "case M s of (Inl f, _) \<Rightarrow> tolerated f | (Inr r, s') \<Rightarrow> world_ok vm V (i_world s') \<and> evolves (i_world s) (i_world s')"
  proof (cases "w_code w m")
    case None
    then have "M s = (Inl (Fault Bad_address), s)" by (simp add: M_def enter_frame_def code_of_def bindM_def gets_def fails_def s_def)
    then show ?thesis by (simp add: tolerated_def)
  next
    case (Some c)
    then have "code_ok vm V m c" using w by (simp add: world_ok_def)
    then obtain ds where c: "check_method (vm_program vm) V meth c ds" using m by (auto simp: code_ok_def)
    have "w_code (i_world s) m = Some c" using Some by (simp add: s_def)
    then have "case enter_frame vm meth this args s of (Inl f, _) \<Rightarrow> tolerated f
        | (Inr g, s') \<Rightarrow> \<exists>sp. frame_at vm V c 0 m False sp s' \<and> evolves (i_world s) (i_world s') \<and> go_ok c ds 0 g sp"
      by (rule frame_start [OF ok w'(1) _ m c args refl]) (simp_all add: s_def)
    then consider f s' where "enter_frame vm meth this args s = (Inl f, s')" "tolerated f"
      | g s1 sp where "enter_frame vm meth this args s = (Inr g, s1)" "frame_at vm V c 0 m False sp s1" "evolves (i_world s) (i_world s1)"
          "go_ok c ds 0 g sp"
      by (cases "enter_frame vm meth this args s"; cases "fst (enter_frame vm meth this args s)") auto
    then show ?thesis
    proof cases
      case 1
      then show ?thesis by (simp add: M_def bindM_def)
    next
      case 2
      from loop_okD [OF loop m c 2(4), unfolded ends_def, rule_format, OF 2(2)]
      consider f s' where "interp_loop n vm g s1 = (Inl f, s')" "tolerated f"
        | b s2 where "interp_loop n vm g s1 = (Inr b, s2)" "world_ok vm V (i_world s2)" "evolves (i_world s1) (i_world s2)"
        by (cases "interp_loop n vm g s1"; cases "fst (interp_loop n vm g s1)") auto
      then show ?thesis
      proof cases
        case a: 2
        from exit_ok [OF ok a(2), of "w_java_stack w" b] a 2(1,3) show ?thesis
          by (auto simp: M_def bindM_def split: sum.splits prod.splits dest: evolves_trans)
      qed (use 2(1) in \<open>simp add: M_def bindM_def\<close>)
    qed
  qed
  have run: "interp (Suc n) vm m this args w = (if sv_stack_low vm w then (Inr False, sv_post vm StackOverflowError w)
      else if acc_test (me_access meth) ACC_ABSTRACT then (Inr False, sv_post vm AbstractMethodError w)
      else case M s of (r, s') \<Rightarrow> (r, i_world s'))"
    by (simp add: bindM_def gets_def the_method_def m ret_def thenM_def modify_def M_def s_def)
  show "case interp (Suc n) vm m this args w of (Inl f, _) \<Rightarrow> tolerated f
      | (Inr r, w') \<Rightarrow> world_ok vm V w' \<and> evolves w w' \<and> True"
    unfolding run using post frame w'(2) by (auto split: sum.splits prod.splits dest: evolves_trans)
qed

lemma interp_ok:
  assumes "services_ok vm V" and "tables_ok (vm_program vm) V"
  shows "run_ok vm V (interp n vm) \<and> loop_ok vm V n"
proof (induction n)
  case 0
  show ?case by (auto simp: run_ok_def loop_ok_def tolerated_def intro: world_fails ends_fails)
next
  case (Suc n)
  then show ?case using run_Suc loop_Suc assms by blast
qed

section \<open>The theorem\<close>

text \<open>
  C23: A program whose code is checked runs inside its frames: whatever the fuel, an interpreted method
  never reads or writes a local variable, an operand or an instruction out of range, nor uses the
  information of an instruction as what it is not, nor dispatches to no action; only a bad address of the
  heap, the quotient that does not fit, and the end of the fuel are left. The code stays checked.
\<close>
theorem checked_code_keeps_frame:
  assumes "services_ok vm V" and "tables_ok (vm_program vm) V" and "world_ok vm V w"
    and "pr_methods (vm_program vm) m = Some meth" and "method_words meth \<le> length args"
  shows "case interp n vm m this args w of
     (Inl f, _) \<Rightarrow> f = Fault Bad_address \<or> f = Fault Quotient_overflow \<or> f = Fault Out_of_fuel
   | (Inr ok, w') \<Rightarrow> world_ok vm V w'"
  using interp_ok [OF assms(1,2), of n] assms(3,4,5)
  by (auto simp: run_ok_def world_safe_def tolerated_def split: sum.splits prod.splits dest!: spec)


text \<open>A method that adds the numbers from its argument down to one, and one that calls it.\<close>

definition sum_code :: icode where
  "sum_code = \<lparr>co_opcodes = [JC_ldc, JC_istore, JC_iload, JC_iload, JC_iadd, JC_istore, JC_iinc, JC_iload, JC_ifne, JC_iload, JC_ireturn],
     co_info = [I_constant 0, I_local 1, I_local 1, I_local 0, I_none, I_local 1, I_iinc 0 (- 1), I_local 0, I_target 2, I_local 1, I_none],
     co_traps = [], co_linemaps = [], co_max_stack = 2, co_max_locals = 2, co_num_params2 = 1\<rparr>"

definition call_code :: icode where
  "call_code = \<lparr>co_opcodes = [JC_ldc, JC_invokestatic, JC_ireturn], co_info = [I_constant 5, I_invoke 112 1, I_none],
     co_traps = [], co_linemaps = [], co_max_stack = 1, co_max_locals = 0, co_num_params2 = 0\<rparr>"

definition sum_method :: jmethod where
  "sum_method = one_int_method\<lparr>me_param_ptypes := [JC_TYPE_INT, JC_TYPE_INT]\<rparr>"

definition call_method :: jmethod where
  "call_method = one_int_method\<lparr>me_param_ptypes := [JC_TYPE_INT], me_num_parameters := 0\<rparr>"

definition sum_program :: program where
  "sum_program = small_program\<lparr>pr_types := [16 \<mapsto> small_type\<lparr>ty_instanceof := replicate 128 None, ty_imethods := replicate 128 None\<rparr>],
     pr_methods := [112 \<mapsto> sum_method, 128 \<mapsto> call_method]\<rparr>"

definition sum_world :: "unit world" where
  "sum_world = small_world\<lparr>w_flags := (\<lambda>_. 0x8405), w_code := [112 \<mapsto> sum_code, 128 \<mapsto> call_code]\<rparr>"

lemma small_services: "services_ok (small_vm P) V"
  by (simp add: services_ok_def small_vm_def keeps_other)

lemma sum_checked: "check_method sum_program {} sum_method sum_code [0, 1, 0, 1, 2, 1, 0, 0, 1, 0, 1]"
  by (simp add: check_method_def check_code_def check_insn_def check_trap_def flows_def sum_code_def insn_effect_def effect_tables
      method_words_def this_words_def sum_method_def one_int_method_def param_words_def dword_type_def acc_test_def upt_rec)

lemma call_checked: "check_method sum_program {} call_method call_code [0, 1, 1]"
  by (simp add: check_method_def check_code_def check_insn_def check_trap_def flows_def call_code_def insn_effect_def effect_tables
      method_words_def this_words_def call_method_def sum_method_def one_int_method_def param_words_def dword_type_def acc_test_def upt_rec
      sum_program_def result_words_def value_types_def)

lemma sum_world_ok: "world_ok (small_vm sum_program) {} sum_world"
  using sum_checked call_checked
  by (auto simp: world_ok_def code_ok_def sum_world_def small_vm_def sum_program_def small_program_def split: if_splits)

theorem checked_code_keeps_frame_witness:
  "case interp 100 (small_vm sum_program) 128 null [] sum_world of
     (Inl f, _) \<Rightarrow> f = Fault Bad_address \<or> f = Fault Quotient_overflow \<or> f = Fault Out_of_fuel
   | (Inr ok, w') \<Rightarrow> world_ok (small_vm sum_program) {} w'"
  by (rule checked_code_keeps_frame [OF small_services _ sum_world_ok, where meth = call_method])
    (simp_all add: tables_ok_def small_vm_def sum_program_def method_words_def call_method_def)

end
