(* ===== verification/Interp_Run.thy ===== *)
theory Interp_Run
  imports Interp
begin

text \<open>
  What the actions of the interpreter leave alone, and from it: a thread that is asked to stop leaves any
  loop, and a synchronized method releases its monitor on every way out.
\<close>

section \<open>What actions leave alone\<close>

definition stay :: "'e istate \<Rightarrow> 'e istate \<Rightarrow> bool" where
  "stay s t \<longleftrightarrow> i_pc t = i_pc s \<and> i_ticker t = i_ticker s \<and> i_lock t = i_lock s \<and> i_method t = i_method s"

definition still :: "'e istate \<Rightarrow> 'e istate \<Rightarrow> bool" where
  "still s t \<longleftrightarrow> stay s t \<and> w_code (i_world t) = w_code (i_world s)"

interpretation stay: framed stay
  by unfold_locales (auto simp: stay_def)

interpretation still: framed still
  by unfold_locales (auto simp: still_def stay_def)

text \<open>An action is tame when it leaves these alone, the code too, and needs no fuel.\<close>

definition tame :: "('e, 'a) im \<Rightarrow> bool" where
  "tame m \<longleftrightarrow> within still m \<and> (\<forall>s. fst (m s) \<noteq> Inl (Fault Out_of_fuel))"

lemma stay_on_world: "within stay (on_world m)"
  by (simp add: within_def on_world_def stay_def split: prod.splits)

lemma tame_stay: "tame m \<Longrightarrow> within stay m"
  by (auto simp: tame_def still_def elim: within_weaken)

lemma tame_bind: "tame m \<Longrightarrow> (\<And>x. tame (f x)) \<Longrightarrow> tame (bindM m f)"
proof -
  assume m: "tame m" and f: "\<And>x. tame (f x)"
  have "fst (bindM m f s) \<noteq> Inl (Fault Out_of_fuel)" for s
    using m f by (cases "m s"; cases "fst (m s)") (auto simp: tame_def bindM_def dest: spec [of _ s])
  with m f show ?thesis by (auto simp: tame_def intro: still.within_bind)
qed

lemma tame_then: "tame m \<Longrightarrow> tame n \<Longrightarrow> tame (thenM m n)"
  unfolding thenM_def by (rule tame_bind)

lemma tame_none: "tame (ret x)" "tame (gets f)" "e \<noteq> Fault Out_of_fuel \<Longrightarrow> tame (fails e)" "r \<noteq> Inl (Fault Out_of_fuel) \<Longrightarrow> tame (liftM r)"
  by (auto simp: tame_def still.within_none) (simp_all add: ret_def gets_def fails_def liftM_def)

lemma tame_if: "(b \<Longrightarrow> tame m) \<Longrightarrow> (\<not> b \<Longrightarrow> tame n) \<Longrightarrow> tame (if b then m else n)"
  by simp

lemma tame_word: "tame (get_word k)" "tame (set_word k v)"
  by (auto simp: tame_def within_def get_word_def set_word_def still_def stay_def)

lemma tame_sp: "tame (modify (\<lambda>s. s\<lparr>i_sp := f s\<rparr>))"
  by (simp add: tame_def within_def modify_def still_def stay_def)

lemma tame_load_at: "tame (liftM (load_at xs k))"
  by (rule tame_none) (simp add: load_at_def)

lemma fault_not_fuel: "Fault Out_of_bounds \<noteq> Fault Out_of_fuel" "Fault Bad_address \<noteq> Fault Out_of_fuel"
  "Fault Wrong_union_member \<noteq> Fault Out_of_fuel" "Fault Quotient_overflow \<noteq> Fault Out_of_fuel"
  by simp_all

lemmas tame_rules = tame_bind tame_then tame_none(1,2) tame_none(3) [OF fault_not_fuel(1)] tame_none(3) [OF fault_not_fuel(2)]
  tame_none(3) [OF fault_not_fuel(3)] tame_none(3) [OF fault_not_fuel(4)] tame_if tame_word tame_sp tame_load_at

lemma tame_frame:
  "tame (get_dword k)" "tame (set_dword k v)" "tame (stack i)" "tame (set_stack i u)"
  "tame (stack2 i)" "tame (set_stack2 i v)" "tame (local j)" "tame (set_local j u)"
  "tame (local2 j)" "tame (set_local2 j v)" "tame (pop i)" "tame (pop2 i)" "tame (push u)" "tame (push2 v)"
  unfolding get_dword_def set_dword_def stack_def set_stack_def stack2_def set_stack2_def local_def set_local_def local2_def
    set_local2_def pop_def pop2_def push_def push2_def
  by (intro tame_rules)+

lemma tame_info: "tame code_of" "tame the_info" "tame info_local" "tame info_target"
  "tame info_type" "tame info_field" "tame info_constant" "tame info_invoke" "tame info_iinc"
  "tame info_multianewarray" "tame info_lookupswitch" "tame info_tableswitch" "tame info_utf8"
proof -
  have c: "tame code_of" unfolding code_of_def by (intro tame_rules) (simp add: tame_none split: option.splits)
  then have i: "tame the_info" unfolding the_info_def by (intro tame_rules)
  show "tame code_of" "tame the_info" "tame info_local" "tame info_target"
    "tame info_type" "tame info_field" "tame info_constant" "tame info_invoke" "tame info_iinc"
    "tame info_multianewarray" "tame info_lookupswitch" "tame info_tableswitch" "tame info_utf8"
    unfolding info_local_def info_target_def info_type_def info_field_def info_constant_def info_invoke_def info_iinc_def
      info_multianewarray_def info_lookupswitch_def info_tableswitch_def info_utf8_def
    by (fact c i | (rule tame_bind, rule i, simp add: tame_none split: iinfo.splits))+
qed

lemma tame_world: "tame (on_world (array_length a))" "tame (on_world (modify (\<lambda>w. w\<lparr>w_pending := e\<rparr>)))"
  "tame (on_world (modify (\<lambda>w. w\<lparr>w_retval := g w\<rparr>)))"
  by (auto simp: tame_def within_def still_def stay_def on_world_def array_length_def mem_load_def bindM_def ret_def modify_def
      split: option.splits)

lemmas tame_all = tame_rules tame_frame tame_info tame_world

lemmas ops_defs = do_aload_def do_fload_def do_iload_def do_dload_def do_lload_def do_astore_def do_fstore_def do_istore_def
  do_dstore_def do_lstore_def do_iinc_def do_ldc_def do_ldc2_w_def do_nop_def do_pop_def do_pop2_def move_def do_dup_def do_dup_x1_def
  do_dup_x2_def do_dup2_def do_dup2_x1_def do_dup2_x2_def do_swap_def unary_def binary_def divide_def unary2_def binary2_def
  divide2_def shift2_def compare2_def narrow_def widen_def
  do_iadd_def do_isub_def do_imul_def do_iand_def do_ior_def do_ixor_def do_idiv_def do_irem_def do_ineg_def do_ishl_def do_ishr_def
  do_iushr_def do_i2b_def do_i2c_def do_i2s_def do_i2l_def do_ladd_def do_lsub_def do_lmul_def do_land_def do_lor_def do_lxor_def
  do_ldiv_def do_lrem_def do_lneg_def do_lshl_def do_lshr_def do_lushr_def do_lcmp_def do_l2i_def
lemmas fp_defs = do_d2f_def do_d2i_def do_d2l_def do_dadd_def do_dsub_def do_dmul_def do_ddiv_def do_drem_def do_dneg_def
  do_dcmpg_def do_dcmpl_def do_f2d_def do_f2i_def do_f2l_def do_fadd_def do_fsub_def do_fmul_def do_fdiv_def do_frem_def
  do_fneg_def do_fcmpg_def do_fcmpl_def do_i2d_def do_i2f_def do_l2d_def do_l2f_def
lemmas jump_defs = do_goto_def branch_def branch1_def branch2_def do_if_acmpeq_def do_if_acmpne_def do_if_icmpeq_def do_if_icmpne_def
  do_if_icmplt_def do_if_icmpge_def do_if_icmpgt_def do_if_icmple_def do_ifeq_def do_ifne_def do_iflt_def do_ifge_def do_ifgt_def
  do_ifle_def do_ifnonnull_def do_ifnull_def do_jsr_def do_ret_def do_lookupswitch_def do_tableswitch_def set_retval_def
  set_retval4_def do_areturn_def do_freturn_def do_ireturn_def do_dreturn_def do_lreturn_def do_return_def do_athrow_def
  do_arraylength_def

lemma tame_frame_actions: "list_all (\<lambda>(opc, M). tame M) actions_frame"
  unfolding actions_frame_def list.pred_inject prod.case
  by (intro conjI; (rule list.pred_inject(1) | unfold ops_defs jump_defs; intro tame_all; simp add: tame_all split: prod.splits; fail))


lemma tame_float_actions: "list_all (\<lambda>(opc, M). tame M) (actions_float f)"
  unfolding actions_float_def list.pred_inject prod.case
  by (intro conjI; (rule list.pred_inject(1) | unfold ops_defs fp_defs; intro tame_all; fail))

lemmas stay_all = stay.within_bind stay.within_then stay.within_none stay.within_if stay_on_world
  tame_frame [THEN tame_stay] tame_info [THEN tame_stay]

lemma stay_posts: "within stay (service g)" "within stay (post vm e)" "within stay opcode_at_pc" "within stay (words_at i)"
  "within stay (initialized vm a)"
  unfolding service_def post_def opcode_at_pc_def words_at_def Let_def initialized_def service_def by (intro stay_all)+

lemma stay_arraycheck: "within stay m \<Longrightarrow> within stay (arraycheck vm array i m)"
  unfolding arraycheck_def by (intro stay_all)

lemma stay_stack_words: "within stay (stack_words n i)"
  by (induction n i rule: stack_words.induct) (simp_all add: stay_all)

lemmas stay_rules = stay_all stay_posts stay_arraycheck stay_stack_words

lemma stay_fields: "within stay (push_field ty a)" "within stay (store_field ty a i)" "within stay (push_retval ty)"
  unfolding push_field_def store_field_def push_retval_def by (intro stay_rules)+

lemma stay_select: "within stay (select_method vm opc m obj)"
proof -
  have f: "within stay (bindM (on_world (find_method vm h ms)) (\<lambda>found. case found of
           None \<Rightarrow> bindM (post vm AbstractMethodError) (\<lambda>g. ret (Inl g))
         | Some m' \<Rightarrow> bindM (on_world (the_method vm m')) (\<lambda>r'.
             if \<not> acc_test (me_access r') ACC_PUBLIC then bindM (post vm IllegalAccessError) (\<lambda>g. ret (Inl g))
             else ret (Inr m'))))" for h ms
    by (intro stay_rules stay.within_option)
  show ?thesis unfolding select_method_def select_interface_def select_virtual_def select_static_def
    by (intro stay_rules stay.within_option f)
qed

lemma stay_invoke: "within stay (do_invoke vm run)"
proof -
  have "within stay (case sel of Inl g \<Rightarrow> ret g | Inr m' \<Rightarrow> invoke_method vm run opc m' obj)" for sel opc obj
    unfolding invoke_method_def by (cases sel) (auto intro!: stay_rules stay_fields)
  then show ?thesis unfolding do_invoke_def split_def by (intro stay_rules stay_select)
qed

lemmas array_defs = do_aaload_def do_iaload_def do_faload_def do_caload_def do_saload_def do_daload_def do_laload_def do_baload_def
  do_iastore_def do_fastore_def do_castore_def do_sastore_def do_dastore_def do_lastore_def do_bastore_def do_aastore_def
  array_load_def array_store_def push_elem_def push_elem2_def store_elem_def store_elem2_def Let_def
lemmas object_defs = do_newarray_def do_anewarray_def do_multianewarray_def do_new_def do_checkcast_def do_instanceof_def
  do_monitorenter_def do_monitorexit_def do_ldc_string_def update_insn_def do_getfield_def do_putfield_def do_getstatic_def
  do_putstatic_def Let_def

lemma stay_heap_actions: "list_all (\<lambda>(opc, M). within stay M) (actions_heap vm run)"
  unfolding actions_heap_def list.pred_inject prod.case
  by (intro conjI; (rule list.pred_inject(1) stay_invoke | unfold array_defs object_defs; intro stay_rules stay_fields;
      simp add: stay_rules split: prod.splits; fail))

lemma stay_dispatch: "within stay (dispatch vm run)"
proof -
  have "within stay M" if "map_of (actions vm run) opc = Some M" for opc M
  proof -
    from map_of_SomeD [OF that] consider "(opc, M) \<in> set actions_frame" | "(opc, M) \<in> set (actions_float (vm_fpu vm))"
      | "(opc, M) \<in> set (actions_heap vm run)" unfolding actions_def by (metis Un_iff set_append)
    then show ?thesis using tame_frame_actions tame_float_actions [of "vm_fpu vm"] stay_heap_actions [of vm run]
      by cases (auto simp: list_all_iff intro: tame_stay)
  qed
  then show ?thesis unfolding dispatch_def by (intro stay_rules) (auto intro: stay_all split: option.splits)
qed


section \<open>The loop\<close>

lemma tame_dispatch:
  assumes "opc \<in> fst ` set (actions_frame :: (u8 \<times> ('e, go) im) list) \<union> fst ` set (actions_float (vm_fpu vm) :: (u8 \<times> ('e, go) im) list)"
    and "map_of (actions (vm :: 'e vm) run) opc = Some M"
  shows "tame M"
proof -
  have "map_of (actions vm run) opc = (case map_of (actions_frame @ actions_float (vm_fpu vm)) opc of
      None \<Rightarrow> map_of (actions_heap vm run) opc | Some m \<Rightarrow> Some m)"
    unfolding actions_def by (simp add: map_add_def split: option.splits)
  moreover have "map_of (actions_frame @ actions_float (vm_fpu vm) :: (u8 \<times> ('e, go) im) list) opc \<noteq> None"
    using assms(1) by (simp add: map_of_eq_None_iff image_Un del: map_of_append)
  ultimately have "map_of (actions_frame @ actions_float (vm_fpu vm)) opc = Some M" using assms(2) by (auto split: option.splits)
  from map_of_SomeD [OF this] show ?thesis
    using tame_frame_actions tame_float_actions [of "vm_fpu vm"] by (auto simp: list_all_iff)
qed

text \<open>The turns that are left, when the next check stops the thread.\<close>

definition turns :: "nat \<Rightarrow> go \<Rightarrow> nat \<Rightarrow> int \<Rightarrow> nat" where
  "turns len g t pc = (case g of
     Next \<Rightarrow> nat (int len - pc) + t * (len + 3) + 3
   | Jump _ \<Rightarrow> t * (len + 3) + 3
   | Null_pointer \<Rightarrow> 2 | Arithmetic \<Rightarrow> 2 | Exception \<Rightarrow> 1 | Done \<Rightarrow> 1)"

text \<open>Code of instructions on the frame alone, without handlers; services that leave it as it is and a check that stops.\<close>

definition straight :: "'e vm \<Rightarrow> icode \<Rightarrow> bool" where
  "straight vm c \<longleftrightarrow> co_traps c = [] \<and> set (co_opcodes c) \<subseteq>
     fst ` set (actions_frame :: (u8 \<times> ('e, go) im) list) \<union> fst ` set (actions_float (vm_fpu vm) :: (u8 \<times> ('e, go) im) list)"

definition stopping :: "'e vm \<Rightarrow> bool" where
  "stopping vm \<longleftrightarrow> (\<forall>w. \<not> fst (sv_thread_check vm w) \<and> w_code (snd (sv_thread_check vm w)) = w_code w)
     \<and> (\<forall>e w. w_code (sv_post vm e w) = w_code w)"

lemma uncaught: "w_code (i_world s) (i_method s) = Some c \<Longrightarrow> co_traps c = [] \<Longrightarrow> interp_loop (Suc n) vm Exception s = (Inr False, s)"
  by (simp add: handle_exception_def code_of_def bindM_def gets_def ret_def)

lemma posted: "w_code (i_world s) (i_method s) = Some c \<Longrightarrow> co_traps c = [] \<Longrightarrow> stopping vm \<Longrightarrow>
    g = Null_pointer \<or> g = Arithmetic \<Longrightarrow> fst (interp_loop (Suc (Suc n)) vm g s) \<noteq> Inl (Fault Out_of_fuel)"
  by (elim disjE) (simp_all add: post_def thenM_def bindM_def on_world_def modify_def ret_def uncaught stopping_def
      del: interp_loop.simps add: interp_loop.simps(2) [of "Suc _"])

lemma dispatch_turn:
  assumes c: "w_code (i_world s) (i_method s) = Some c" "straight vm c"
    and IH: "\<And>g s'. still s s' \<Longrightarrow> 0 \<le> i_pc s \<Longrightarrow> i_pc s < int (length (co_opcodes c)) \<Longrightarrow>
      fst (interp_loop n vm g s') \<noteq> Inl (Fault Out_of_fuel)"
  shows "fst (bindM (dispatch vm run) (interp_loop n vm) s) \<noteq> Inl (Fault Out_of_fuel)"
proof (cases "0 \<le> i_pc s \<and> i_pc s < int (length (co_opcodes c))")
  case False
  then have "dispatch vm run s = (Inl (Fault Out_of_bounds), s)" using c(1)
    by (auto simp: dispatch_def opcode_at_pc_def code_of_def load_at_def bindM_def gets_def ret_def liftM_def)
  then show ?thesis by (simp add: bindM_def)
next
  case True
  define opc where "opc = co_opcodes c ! nat (i_pc s)"
  have run: "dispatch vm run s = (case map_of (actions vm run) opc of None \<Rightarrow> fails (Fault Null_dereference) | Some m \<Rightarrow> m) s"
    using True c(1) by (simp add: dispatch_def opcode_at_pc_def code_of_def load_at_def bindM_def gets_def ret_def liftM_def opc_def)
  have "opc \<in> set (co_opcodes c)" using True by (simp add: opc_def nat_less_iff)
  then have "tame M" if "map_of (actions vm run) opc = Some M" for M
    using tame_dispatch that c(2) unfolding straight_def by blast
  then have "fst (dispatch vm run s) \<noteq> Inl (Fault Out_of_fuel)" "still s (snd (dispatch vm run s))"
    unfolding run by (cases "map_of (actions vm run) opc"; simp add: tame_def within_def fails_def still_def stay_def)+
  with IH [of "snd (dispatch vm run s)"] True show ?thesis
    by (auto simp: bindM_def split: prod.splits sum.splits)
qed


lemma loop_turns:
  assumes stop: "stopping vm" and c: "straight vm c"
  shows "w_code (i_world s) (i_method s) = Some c \<Longrightarrow> turns (length (co_opcodes c)) g (i_ticker s) (i_pc s) \<le> n \<Longrightarrow>
    fst (interp_loop n vm g s) \<noteq> Inl (Fault Out_of_fuel)"
proof (induction n arbitrary: g s)
  case 0
  then show ?case by (cases g) (simp_all add: turns_def)
next
  case (Suc n)
  let ?len = "length (co_opcodes c)"
  have traps: "co_traps c = []" using c by (simp add: straight_def)
  have turn: "fst (bindM (dispatch vm (interp n vm)) (interp_loop n vm) s1) \<noteq> Inl (Fault Out_of_fuel)"
    if s1: "i_world s1 = i_world s" "i_method s1 = i_method s"
      and less: "\<And>g. 0 \<le> i_pc s1 \<Longrightarrow> i_pc s1 < int ?len \<Longrightarrow> turns ?len g (i_ticker s1) (i_pc s1) \<le> n" for s1
  proof (rule dispatch_turn [OF _ c])
    show "w_code (i_world s1) (i_method s1) = Some c" using s1 Suc.prems(1) by simp
    fix g s' assume "still s1 s'" "0 \<le> i_pc s1" "i_pc s1 < int ?len"
    with less [of g] s1 Suc.prems(1) show "fst (interp_loop n vm g s') \<noteq> Inl (Fault Out_of_fuel)"
      by (intro Suc.IH) (auto simp: still_def stay_def)
  qed
  show ?case
  proof (cases g)
    case Next
    have "fst (bindM (dispatch vm (interp n vm)) (interp_loop n vm) (s\<lparr>i_pc := i_pc s + 1\<rparr>)) \<noteq> Inl (Fault Out_of_fuel)"
    proof (rule turn)
      fix g' assume "0 \<le> i_pc (s\<lparr>i_pc := i_pc s + 1\<rparr>)" "i_pc (s\<lparr>i_pc := i_pc s + 1\<rparr>) < int ?len"
      then have "nat (int ?len - i_pc s) = Suc (nat (int ?len - (i_pc s + 1)))" by simp
      then show "turns ?len g' (i_ticker (s\<lparr>i_pc := i_pc s + 1\<rparr>)) (i_pc (s\<lparr>i_pc := i_pc s + 1\<rparr>)) \<le> n"
        using Suc.prems(2) Next by (cases g') (simp_all add: turns_def)
    qed simp_all
    then show ?thesis unfolding Next by (simp add: thenM_def bindM_def modify_def)
  next
    case (Jump t)
    define s1 where "s1 = s\<lparr>i_pc := t, i_ticker := i_ticker s - 1\<rparr>"
    have tick: "tick t s = (Inr (i_ticker s \<le> 1), s1)"
      by (auto simp: tick_def thenM_def bindM_def modify_def gets_def s1_def)
    show ?thesis
    proof (cases "i_ticker s \<le> 1")
      case True
      define s2 where "s2 = s1\<lparr>i_world := snd (sv_thread_check vm (i_world s1))\<rparr>"
      have "w_code (i_world s2) (i_method s2) = Some c" using stop Suc.prems(1) by (simp add: s2_def s1_def stopping_def)
      moreover have "1 \<le> n" using Suc.prems(2) Jump by (simp add: turns_def)
      ultimately have "fst (interp_loop n vm Exception s2) \<noteq> Inl (Fault Out_of_fuel)"
        using uncaught [of s2 c "n - 1" vm] traps by simp
      moreover have "interp_loop (Suc n) vm g s = interp_loop n vm Exception s2"
        unfolding Jump interp_loop.simps go.case bindM_def [of "tick t"] tick
        using True stop by (simp add: bindM_def service_def on_world_def call_def s2_def stopping_def)
      ultimately show ?thesis by simp
    next
      case False
      have "fst (bindM (dispatch vm (interp n vm)) (interp_loop n vm) s1) \<noteq> Inl (Fault Out_of_fuel)"
      proof (rule turn)
        fix g' assume pc: "0 \<le> i_pc s1" "i_pc s1 < int ?len"
        then have "nat (int ?len - i_pc s1) \<le> ?len" by simp
        moreover have "i_ticker s * (?len + 3) = (i_ticker s - 1) * (?len + 3) + (?len + 3)"
          using False by (metis One_nat_def Suc_pred add.commute mult_Suc not_gr_zero zero_le)
        ultimately show "turns ?len g' (i_ticker s1) (i_pc s1) \<le> n"
          using Suc.prems(2) Jump by (cases g') (auto simp: turns_def s1_def)
      qed (simp_all add: s1_def)
      moreover have "interp_loop (Suc n) vm g s = bindM (dispatch vm (interp n vm)) (interp_loop n vm) s1"
        unfolding Jump interp_loop.simps go.case bindM_def [of "tick t"] tick using False by simp
      ultimately show ?thesis by simp
    qed
  next
    case Null_pointer
    then obtain k where "n = Suc k" using Suc.prems(2) by (cases n) (auto simp: turns_def)
    then show ?thesis using posted [OF Suc.prems(1) traps stop, of g k] Null_pointer by simp
  next
    case Arithmetic
    then obtain k where "n = Suc k" using Suc.prems(2) by (cases n) (auto simp: turns_def)
    then show ?thesis using posted [OF Suc.prems(1) traps stop, of g k] Arithmetic by simp
  next
    case Exception
    then show ?thesis using uncaught [OF Suc.prems(1) traps] by simp
  next
    case Done
    then show ?thesis by (simp add: ret_def)
  qed
qed



definition loop_code :: icode where
  "loop_code = \<lparr>co_opcodes = [JC_nop, JC_goto], co_info = [I_none, I_target 0], co_traps = [], co_linemaps = [],
     co_max_stack = 0, co_max_locals = 0, co_num_params2 = 0\<rparr>"

definition stopping_vm :: "unit vm" where
  "stopping_vm = (small_vm small_program)\<lparr>sv_thread_check := (\<lambda>w. (False, w\<lparr>w_pending := 1\<rparr>))\<rparr>"

definition loop_state :: "unit istate" where
  "loop_state = \<lparr>i_words = [], i_sp = 0, i_pc = 0, i_ticker = 32, i_lock = null, i_method = 112,
     i_world = small_world\<lparr>w_code := [112 \<mapsto> loop_code]\<rparr>\<rparr>"


section \<open>Synchronized methods\<close>

definition same_lock :: "'e istate \<Rightarrow> 'e istate \<Rightarrow> bool" where
  "same_lock s t \<longleftrightarrow> i_lock t = i_lock s \<and> i_method t = i_method s"

interpretation lock: framed same_lock
  by unfold_locales (auto simp: same_lock_def)

lemma stay_lock: "within stay m \<Longrightarrow> within same_lock m"
  by (erule within_weaken) (simp add: stay_def same_lock_def)

lemma lock_modify: "(\<And>s. i_lock (f s) = i_lock s \<and> i_method (f s) = i_method s) \<Longrightarrow> within same_lock (modify f)"
  by (rule within_modify) (simp add: same_lock_def)

lemma lock_tick: "within same_lock (tick t)"
  unfolding tick_def by (intro lock.within_then lock_modify lock.within_none) simp_all

lemma lock_find_trap: "within same_lock (find_trap vm ts)"
proof (induction ts)
  case (Cons t ts)
  then have "within same_lock (case r of None \<Rightarrow> find_trap vm ts | Some e \<Rightarrow> ret (Some (t, e)))" for r
    by (simp add: lock.within_none split: option.splits)
  with Cons show ?case unfolding find_trap.simps
    by (intro lock.within_bind lock.within_none lock.within_if stay_lock [OF stay_on_world]) auto
qed (simp add: lock.within_none)

lemma lock_handle: "within same_lock (handle_exception vm)"
  unfolding handle_exception_def
  by (intro lock.within_bind lock_find_trap stay_lock tame_stay tame_info)
    (auto intro!: lock.within_none lock.within_then lock_modify stay_lock tame_stay tame_rules split: option.splits)

lemma lock_loop: "within same_lock (interp_loop n vm g)"
proof (induction n arbitrary: g)
  case (Suc n)
  note rules = lock.within_then lock.within_bind lock.within_if lock.within_option lock.within_none lock_modify lock_tick lock_handle Suc.IH
    stay_lock [OF stay_dispatch] stay_lock [OF stay_posts(1)] stay_lock [OF stay_posts(2)]
  show ?case by (cases g) (simp_all only: interp_loop.simps go.case, (intro rules; simp)+)
qed (simp add: lock.within_none)


text \<open>
  C25: A synchronized method releases the monitor that it took: however its body ends, the same object is
  unlocked once, the return value is the one of the body, the frame leaves the Java stack, and the
  method fails when its body or the unlocking does.
\<close>
theorem synchronized_releases:
  fixes w :: "'e world"
  assumes "pr_methods (vm_program vm) m = Some meth" and "acc_test (me_access meth) ACC_SYNCHRONIZED"
    and "\<not> acc_test (me_access meth) ACC_ABSTRACT" and "\<not> sv_stack_low vm w"
    and "w_code w m = Some c" and "sv_alloca vm ((co_max_locals c + co_max_stack c) * 4) w1"
    and "copy_params this args meth c (map (sv_garbage vm w1) [0..<co_max_locals c + co_max_stack c]) = Inr words"
    and "w1 = w\<lparr>w_java_stack := m # w_java_stack w\<rparr>"
    and "if acc_test (me_access meth) ACC_STATIC then map_option ty_instance (pr_types (vm_program vm) (me_class meth)) = Some monitor
      else monitor = this" and "monitor \<noteq> null"
    and "sv_lock vm monitor w1 = (True, w2)"
    and "interp_loop n vm (Jump 0) \<lparr>i_words = words, i_sp = int (co_max_locals c), i_pc = 0, i_ticker = periodic_check_ticks,
        i_lock = monitor, i_method = m, i_world = w2\<rparr> = (Inr ok, s)"
    and "sv_unlock vm monitor (i_world s) = (unlocked, w3)"
  shows "interp (Suc n) vm m this args w =
    (Inr (ok \<and> unlocked), w3\<lparr>w_retval := w_retval (i_world s), w_java_stack := w_java_stack w\<rparr>)"
proof -
  define s0 where "s0 = \<lparr>i_words = [], i_sp = 0, i_pc = 0, i_ticker = periodic_check_ticks, i_lock = null, i_method = m, i_world = w1\<rparr>"
  define s1 where "s1 = \<lparr>i_words = words, i_sp = int (co_max_locals c), i_pc = 0, i_ticker = periodic_check_ticks,
    i_lock = monitor, i_method = m, i_world = w2\<rparr>"
  have code: "w_code w1 m = Some c" using assms(5,8) by simp
  have lock: "i_lock s = monitor"
    using withinD [OF lock_loop assms(12)] by (simp add: same_lock_def)
  have enter: "enter_frame vm meth this args s0 = (Inr (Jump 0), s1)"
    using assms(2,6,7,9,11) code
    by (auto simp: enter_frame_def code_of_def bindM_def gets_def ret_def Let_def liftM_def thenM_def modify_def s0_def s1_def
        service_def on_world_def call_def the_type_def split: if_splits)
  have exit: "exit_frame vm (w_java_stack w) ok s =
      (Inr (ok \<and> unlocked), s\<lparr>i_world := w3\<lparr>w_retval := w_retval (i_world s), w_java_stack := w_java_stack w\<rparr>\<rparr>)"
    using assms(10,13) by (simp add: exit_frame_def lock bindM_def thenM_def gets_def ret_def service_def on_world_def call_def
        set_retval_def modify_def)
  show ?thesis
    using assms(1,3,4) enter exit assms(12)
    by (simp add: bindM_def gets_def the_method_def ret_def s0_def s1_def assms(8))
qed

definition sync_method :: jmethod where
  "sync_method = \<lparr>me_name = c_str ''f'', me_signature = c_str ''()V'', me_class = 16,
     me_access = ACC_SYNCHRONIZED OR ACC_INTERP, me_param_ptypes = [JC_TYPE_VOID], me_num_parameters = 0, me_signature_hash = 0,
     me_vtable_index = 0\<rparr>"

definition sync_program :: program where
  "sync_program = small_program\<lparr>pr_methods := [112 \<mapsto> sync_method]\<rparr>"

definition sync_code :: icode where
  "sync_code = \<lparr>co_opcodes = [JC_return], co_info = [I_none], co_traps = [], co_linemaps = [],
     co_max_stack = 0, co_max_locals = 1, co_num_params2 = 0\<rparr>"

theorem synchronized_releases_witness:
  "interp 3 (small_vm sync_program) 112 48 [] (small_world\<lparr>w_code := [112 \<mapsto> sync_code]\<rparr>)
    = (Inr True, small_world\<lparr>w_code := [112 \<mapsto> sync_code]\<rparr>)"
proof -
  let ?w = "small_world\<lparr>w_code := [112 \<mapsto> sync_code]\<rparr>"
  let ?w1 = "?w\<lparr>w_java_stack := 112 # w_java_stack ?w\<rparr>"
  let ?s = "\<lparr>i_words = [48], i_sp = int (co_max_locals sync_code), i_pc = 0, i_ticker = periodic_check_ticks,
    i_lock = 48, i_method = 112, i_world = ?w1\<rparr>"
  have act: "map_of (actions (small_vm sync_program) run) JC_return = Some do_return" for run
    by (simp add: actions_def actions_frame_def)
  have turn: "dispatch (small_vm sync_program) run (?s\<lparr>i_ticker := 31\<rparr>) = (Inr Done, ?s\<lparr>i_ticker := 31\<rparr>)" for run
    by (simp add: dispatch_def opcode_at_pc_def code_of_def bindM_def gets_def ret_def load_at_def liftM_def sync_code_def act
        do_return_def)
  have tick: "tick 0 ?s = (Inr False, ?s\<lparr>i_ticker := 31\<rparr>)"
    by (simp add: tick_def thenM_def bindM_def modify_def gets_def)
  have loop: "interp_loop (Suc 1) (small_vm sync_program) (Jump 0) ?s = (Inr True, ?s\<lparr>i_ticker := 31\<rparr>)"
    unfolding interp_loop.simps go.case bindM_def [of "tick 0"] tick
    by (simp only: prod.case sum.case if_False bindM_def [of "dispatch _ _"] turn One_nat_def interp_loop.simps go.case ret_def)
  have "interp (Suc (Suc 1)) (small_vm sync_program) 112 48 [] ?w = (Inr (True \<and> True),
      ?w1\<lparr>w_retval := w_retval (i_world (?s\<lparr>i_ticker := 31\<rparr>)), w_java_stack := w_java_stack ?w\<rparr>)"
    by (rule synchronized_releases [where meth = sync_method and words = "[48]" and monitor = 48 and ?w1.0 = ?w1 and ?w2.0 = ?w1 and ?w3.0 = ?w1
        and c = sync_code and n = "Suc 1" and s = "?s\<lparr>i_ticker := 31\<rparr>", OF _ _ _ _ _ _ _ _ _ _ _ loop])
      (simp_all add: small_vm_def sync_program_def sync_method_def acc_test_def sync_code_def copy_params_def Let_def)
  moreover have "?w1\<lparr>w_retval := w_retval (i_world (?s\<lparr>i_ticker := 31\<rparr>)), w_java_stack := w_java_stack ?w\<rparr> = ?w" by (simp add: small_world_def)
  moreover have "(3 :: nat) = Suc (Suc 1)" by simp
  ultimately show ?thesis by (simp only: simp_thms)
qed

end
