(* ===== verification/Interp_Spec.thy ===== *)
theory Interp_Spec
  imports Interp_Run Interp_Lines
begin

text \<open>
  The interpreter against the Java language: arithmetic on int, switches, and handlers of exceptions.
\<close>

section \<open>Arithmetic on int\<close>

text \<open>The operations of the language on unbounded integers; the result of an instruction is taken to 32 bits.\<close>

definition java_int :: "(u8 \<times> (int \<Rightarrow> int \<Rightarrow> int)) list" where
  "java_int = [
     (JC_iadd, \<lambda>x y. x + y), (JC_isub, \<lambda>x y. x - y), (JC_imul, \<lambda>x y. x * y),
     (JC_iand, \<lambda>x y. x AND y), (JC_ior, \<lambda>x y. x OR y), (JC_ixor, \<lambda>x y. x XOR y),
     (JC_ishl, \<lambda>x y. x * 2 ^ nat (y mod 32)), (JC_ishr, \<lambda>x y. x div 2 ^ nat (y mod 32)),
     (JC_iushr, \<lambda>x y. (x mod 2 ^ 32) div 2 ^ nat (y mod 32))]"

lemma shift_count: "unat (y AND 31 :: u32) = nat (sint y mod 32)"
proof -
  have "y AND 31 = take_bit 5 y" by (simp add: take_bit_eq_mask mask_eq_exp_minus_1)
  then have "unat (y AND 31) = unat y mod 32" by (simp only: unsigned_take_bit_eq) (simp add: take_bit_eq_mod)
  moreover have "sint y mod 32 = uint y mod 32"
  proof -
    have "take_bit 5 (sint y) = take_bit 5 (uint y)"
      by (simp add: sint_uint take_bit_signed_take_bit)
    then show ?thesis by (simp add: take_bit_eq_mod)
  qed
  ultimately show ?thesis by (simp add: nat_mod_distrib flip: nat_uint_eq)
qed

lemma shift_twice: "(y AND 31) AND 31 = (y AND 31 :: u32)"
  by (simp add: and.assoc)

lemma of_sint: "word_of_int (sint x) = (x :: 'a::len word)"
  by simp

lemma sint_unsigned: "sint (x :: u32) mod 2 ^ 32 = uint x"
proof -
  have "take_bit 32 (sint x) = take_bit 32 (uint x)" by (simp add: sint_uint take_bit_signed_take_bit)
  moreover have "uint x < 2 ^ 32" using uint_lt2p [of x] by simp
  ultimately show ?thesis by (simp add: take_bit_eq_mod)
qed

lemma java_int_words:
  fixes x y :: u32
  shows "x + y = word_of_int (sint x + sint y)" "x - y = word_of_int (sint x - sint y)" "x * y = word_of_int (sint x * sint y)"
    "x AND y = word_of_int (sint x AND sint y)" "x OR y = word_of_int (sint x OR sint y)" "x XOR y = word_of_int (sint x XOR sint y)"
    "push_bit (unat (y AND 31)) x = word_of_int (sint x * 2 ^ nat (sint y mod 32))"
    "jc_ishr x (y AND 31) = word_of_int (sint x div 2 ^ nat (sint y mod 32))"
    "jc_iushr x (y AND 31) = word_of_int ((sint x mod 2 ^ 32) div 2 ^ nat (sint y mod 32))"
proof -
  have uint_drop_bit_eq: "uint (drop_bit n x) = drop_bit n (uint x)" for n
    by (rule bit_eqI) (auto simp: bit_simps dest: bit_imp_le_length)
  show "x + y = word_of_int (sint x + sint y)" "x - y = word_of_int (sint x - sint y)" "x * y = word_of_int (sint x * sint y)"
    by simp_all
  show "x AND y = word_of_int (sint x AND sint y)" "x OR y = word_of_int (sint x OR sint y)" "x XOR y = word_of_int (sint x XOR sint y)"
    by (rule bit_word_eqI; auto simp: bit_simps)+
  show "push_bit (unat (y AND 31)) x = word_of_int (sint x * 2 ^ nat (sint y mod 32))"
    by (simp add: shift_count push_bit_eq_mult)
  have "sint (signed_drop_bit (nat (sint y mod 32)) x) = sint x div 2 ^ nat (sint y mod 32)"
    by (simp add: sint_signed_drop_bit_eq drop_bit_eq_div)
  then show "jc_ishr x (y AND 31) = word_of_int (sint x div 2 ^ nat (sint y mod 32))"
    unfolding jc_ishr_def shift_twice shift_count by (metis of_sint)
  have "uint (drop_bit (nat (sint y mod 32)) x) = drop_bit (nat (sint y mod 32)) (uint x)"
    by (rule uint_drop_bit_eq)
  then have "uint (drop_bit (nat (sint y mod 32)) x) = uint x div 2 ^ nat (sint y mod 32)"
    by (simp only: drop_bit_eq_div)
  then show "jc_iushr x (y AND 31) = word_of_int ((sint x mod 2 ^ 32) div 2 ^ nat (sint y mod 32))"
    unfolding jc_iushr_def shift_twice shift_count sint_unsigned by (metis word_of_int_uint)
qed


text \<open>The action of an opcode, by its place in the table.\<close>

lemma binary_runs:
  assumes "2 \<le> k" and "k \<le> length (i_words s)" and "i_sp s = int k"
  shows "binary f s = (Inr Next, s\<lparr>i_words := (i_words s)[k - 2 := f (i_words s ! (k - 2)) (i_words s ! (k - 1))], i_sp := int (k - 1)\<rparr>)"
proof -
  have "nat (int k - 2) = k - 2" "nat (int k - 1) = k - 1" "int k - 2 + 1 = int k - 1" "int (k - 1) = int k - 1"
    using assms(1) by (simp_all add: nat_diff_distrib)
  then show ?thesis using assms
    by (simp add: binary_def thenM_def bindM_def pop_def modify_def stack_def gets_def get_word_def push_def set_stack_def set_word_def ret_def)
qed

lemma divide_runs:
  assumes "2 \<le> k" and "k \<le> length (i_words s)" and "i_sp s = int k"
  defines "x \<equiv> i_words s ! (k - 2)" and "y \<equiv> i_words s ! (k - 1)"
  shows "divide f s = (if y = 0 then (Inr Arithmetic, s\<lparr>i_sp := int k - 2\<rparr>)
     else if sint x = - (2 ^ 31) \<and> sint y = -1 then (Inl (Fault Quotient_overflow), s\<lparr>i_sp := int k - 2\<rparr>)
     else (Inr Next, s\<lparr>i_words := (i_words s)[k - 2 := f x y], i_sp := int (k - 1)\<rparr>))"
proof -
  have "nat (int k - 2) = k - 2" "nat (int k - 1) = k - 1" "int k - 2 + 1 = int k - 1" "int (k - 1) = int k - 1"
    using assms(1) by (simp_all add: nat_diff_distrib)
  then show ?thesis using assms(1,2,3) unfolding x_def y_def
    by (auto simp: divide_def thenM_def bindM_def pop_def modify_def stack_def gets_def get_word_def push_def set_stack_def set_word_def
        ret_def fails_def)
qed

lemma int_actions:
  assumes "map_of java_int opc = Some f"
  obtains g where "map_of (actions vm run) opc = Some (binary g)" "\<And>x y. g x y = word_of_int (f (sint x) (sint y))"
proof -
  have "opc = JC_iadd \<and> f = (\<lambda>x y. x + y) \<or> opc = JC_isub \<and> f = (\<lambda>x y. x - y) \<or> opc = JC_imul \<and> f = (\<lambda>x y. x * y)
    \<or> opc = JC_iand \<and> f = (\<lambda>x y. x AND y) \<or> opc = JC_ior \<and> f = (\<lambda>x y. x OR y) \<or> opc = JC_ixor \<and> f = (\<lambda>x y. x XOR y)
    \<or> opc = JC_ishl \<and> f = (\<lambda>x y. x * 2 ^ nat (y mod 32)) \<or> opc = JC_ishr \<and> f = (\<lambda>x y. x div 2 ^ nat (y mod 32))
    \<or> opc = JC_iushr \<and> f = (\<lambda>x y. (x mod 2 ^ 32) div 2 ^ nat (y mod 32))"
    using assms unfolding java_int_def by (simp split: if_splits)
  moreover have "map_of (actions vm run) JC_iadd = Some (binary (\<lambda>x y. x + y))" "map_of (actions vm run) JC_isub = Some (binary (\<lambda>x y. x - y))"
    "map_of (actions vm run) JC_imul = Some (binary (\<lambda>x y. x * y))" "map_of (actions vm run) JC_iand = Some (binary (\<lambda>x y. x AND y))"
    "map_of (actions vm run) JC_ior = Some (binary (\<lambda>x y. x OR y))" "map_of (actions vm run) JC_ixor = Some (binary (\<lambda>x y. x XOR y))"
    "map_of (actions vm run) JC_ishl = Some (binary (\<lambda>x y. push_bit (unat (y AND 0x1f)) x))"
    "map_of (actions vm run) JC_ishr = Some (binary (\<lambda>x y. jc_ishr x (y AND 0x1f)))"
    "map_of (actions vm run) JC_iushr = Some (binary (\<lambda>x y. jc_iushr x (y AND 0x1f)))"
    unfolding do_iadd_def [symmetric] do_isub_def [symmetric] do_imul_def [symmetric] do_iand_def [symmetric] do_ior_def [symmetric]
      do_ixor_def [symmetric] do_ishl_def [symmetric] do_ishr_def [symmetric] do_iushr_def [symmetric]
    by (simp_all add: actions_def actions_frame_def)
  ultimately show ?thesis using java_int_words that by (elim disjE conjE) blast+
qed


definition two_ints :: "u32 \<Rightarrow> u32 \<Rightarrow> unit istate" where
  "two_ints x y = \<lparr>i_words = [x, y], i_sp = 2, i_pc = 0, i_ticker = 32, i_lock = null, i_method = 112, i_world = small_world\<rparr>"


lemma truncated:
  fixes x y :: int
  assumes "y \<noteq> 0"
  shows "x = (x sdiv y) * y + x smod y" and "\<bar>x smod y\<bar> < \<bar>y\<bar>" and "x smod y \<noteq> 0 \<Longrightarrow> sgn (x smod y) = sgn x"
proof -
  show "x = (x sdiv y) * y + x smod y" by (simp add: sdiv_mult_smod_eq)
  have r: "x smod y = sgn x * (\<bar>x\<bar> mod \<bar>y\<bar>)" by (rule smod_int_alt_def)
  have m: "0 \<le> \<bar>x\<bar> mod \<bar>y\<bar>" "\<bar>x\<bar> mod \<bar>y\<bar> < \<bar>y\<bar>" using assms by simp_all
  then show "\<bar>x smod y\<bar> < \<bar>y\<bar>" unfolding r by (simp add: abs_mult sgn_if assms)
  show "sgn (x smod y) = sgn x" if "x smod y \<noteq> 0"
    using that m(1) unfolding r by (simp add: sgn_mult order_less_le)
qed

text \<open>
  Division and remainder on int: by zero the exception of the language, otherwise the truncated
  quotient and its remainder, save for the most negative integer by -1, where the language asks for a
  result and the machine traps.
\<close>
theorem int_division:
  assumes "2 \<le> k" and "k \<le> length (i_words s)" and "i_sp s = int k"
    and "x = sint (i_words s ! (k - 2))" and "y = sint (i_words s ! (k - 1))"
  shows "if y = 0 then fst (do_idiv s) = Inr Arithmetic \<and> fst (do_irem s) = Inr Arithmetic
    else if x = - (2 ^ 31) \<and> y = -1
      then fst (do_idiv s) = Inl (Fault Quotient_overflow) \<and> fst (do_irem s) = Inl (Fault Quotient_overflow)
    else \<exists>q r. x = q * y + r \<and> \<bar>r\<bar> < \<bar>y\<bar> \<and> (r \<noteq> 0 \<longrightarrow> sgn r = sgn x) \<and>
      do_idiv s = (Inr Next, s\<lparr>i_words := (i_words s)[k - 2 := word_of_int q], i_sp := int (k - 1)\<rparr>) \<and>
      do_irem s = (Inr Next, s\<lparr>i_words := (i_words s)[k - 2 := word_of_int r], i_sp := int (k - 1)\<rparr>)"
proof -
  have y: "i_words s ! (k - 1) = 0 \<longleftrightarrow> y = 0" unfolding assms(5) by (metis of_sint sint_0)
  note runs = divide_runs [OF assms(1,2,3), folded assms(4,5), unfolded y]
  show ?thesis
  proof (cases "y = 0 \<or> x = - (2 ^ 31) \<and> y = -1")
    case True
    then show ?thesis unfolding do_idiv_def do_irem_def runs by auto
  next
    case False
    then have "y \<noteq> 0" by simp
    from truncated [OF this, of x] False show ?thesis
      unfolding do_idiv_def do_irem_def runs assms(4,5) [symmetric]
      by (simp, intro exI [of _ "x sdiv y"] exI [of _ "x smod y"]) simp
  qed
qed

theorem int_division_witness:
  "fst (do_idiv (two_ints 0x80000000 0xffffffff)) = Inl (Fault Quotient_overflow)
   \<and> do_idiv (two_ints 0xfffffff9 2) = (Inr Next, (two_ints 0xfffffff9 2)\<lparr>i_words := [- 3, 2], i_sp := 1\<rparr>)"
proof
  show "fst (do_idiv (two_ints 0x80000000 0xffffffff)) = Inl (Fault Quotient_overflow)"
  proof -
    have st: "2 \<le> length (i_words (two_ints 0x80000000 0xffffffff))" "i_sp (two_ints 0x80000000 0xffffffff) = int 2"
      "- (2 ^ 31) = sint (i_words (two_ints 0x80000000 0xffffffff) ! (2 - 2))" "- 1 = sint (i_words (two_ints 0x80000000 0xffffffff) ! (2 - 1))"
      by (simp_all add: two_ints_def)
    have "(- 1 :: int) \<noteq> 0" "(- (2 ^ 31) :: int) = - (2 ^ 31) \<and> (- 1 :: int) = -1" by simp_all
    from int_division [OF order_refl st, unfolded if_not_P [OF this(1)] if_P [OF this(2)]] show ?thesis by (rule conjunct1)
  qed
  have st: "2 \<le> length (i_words (two_ints 0xfffffff9 2))" "i_sp (two_ints 0xfffffff9 2) = int 2"
    "- 7 = sint (i_words (two_ints 0xfffffff9 2) ! (2 - 2))" "2 = sint (i_words (two_ints 0xfffffff9 2) ! (2 - 1))"
    by (simp_all add: two_ints_def)
  have "(2 :: int) \<noteq> 0" "\<not> ((- 7 :: int) = - (2 ^ 31) \<and> (2 :: int) = -1)" by simp_all
  note int_division [OF order_refl st, unfolded if_not_P [OF this(1)] if_not_P [OF this(2)]]
  then obtain q r :: int where qr: "- 7 = q * 2 + r" "\<bar>r\<bar> < \<bar>2\<bar>" "r \<noteq> 0 \<longrightarrow> sgn r = sgn (- 7)"
    and run: "do_idiv (two_ints 0xfffffff9 2) = (Inr Next, (two_ints 0xfffffff9 2)\<lparr>i_words := (i_words (two_ints 0xfffffff9 2))[2 - 2 := word_of_int q], i_sp := int (2 - 1)\<rparr>)"
    by (elim exE conjE) (rule that)
  from qr have "r \<in> {-1, 0, 1}" by auto
  with qr have "q = - 3" by auto
  moreover note run [unfolded two_ints_def, simplified]
  ultimately show "do_idiv (two_ints 0xfffffff9 2) = (Inr Next, (two_ints 0xfffffff9 2)\<lparr>i_words := [- 3, 2], i_sp := 1\<rparr>)" by (simp add: two_ints_def)
qed


section \<open>Switches\<close>

lemma bsearch_reference:
  assumes "sorted_wrt (\<lambda>p q. sint (fst p) < sint (fst q)) (ps :: (u32 \<times> nat) list)"
  shows "bsearch (\<lambda>p. lookup_compare key (fst p)) ps = find (\<lambda>p. fst p = key) ps"
proof -
  have zero: "lookup_compare key (fst p) = 0 \<longleftrightarrow> fst p = key" for p :: "u32 \<times> nat"
  proof -
    have "sint key = sint (fst p) \<longleftrightarrow> fst p = key" by (metis of_sint)
    then show ?thesis by (auto simp: lookup_compare_def)
  qed
  have falling: "falling (\<lambda>p. lookup_compare key (fst p)) ps"
    by (rule sorted_wrt_mono_rel [OF _ assms]) (auto simp: lookup_compare_def)
  have unique: "p = q" if "p \<in> set ps" "q \<in> set ps" "fst p = fst q" for p q
  proof -
    from that obtain i j where ij: "i < length ps" "j < length ps" "p = ps ! i" "q = ps ! j" by (auto simp: in_set_conv_nth)
    then have "i = j" using that(3) sorted_wrt_nth_less [OF assms, of i j] sorted_wrt_nth_less [OF assms, of j i]
      by (metis less_irrefl linorder_neqE_nat)
    with ij show ?thesis by simp
  qed
  show ?thesis
  proof (cases "bsearch (\<lambda>p. lookup_compare key (fst p)) ps")
    case None
    then have "find (\<lambda>p. fst p = key) ps = None" using bsearch_finds(2) [OF falling] zero by (auto simp: find_None_iff)
    with None show ?thesis by simp
  next
    case (Some p)
    then have p: "p \<in> set ps" "fst p = key" using bsearch_finds(1) [OF falling Some] zero by auto
    have "find (\<lambda>p. fst p = key) ps \<noteq> None" unfolding find_None_iff using p by blast
    then obtain q where q: "find (\<lambda>p. fst p = key) ps = Some q" by blast
    then have "q \<in> set ps" "fst q = key" by (auto simp: find_Some_iff)
    with unique p have "q = p" by metis
    with Some q show ?thesis by simp
  qed
qed

text \<open>
  A \<open>lookupswitch\<close> whose pairs are sorted, as class files have them, jumps where a search from the front
  finds the key, and to the default otherwise.
\<close>
theorem lookupswitch_finds:
  assumes "w_code (i_world s) (i_method s) = Some c" and "0 \<le> i_pc s" and "i_pc s < int (length (co_info c))"
    and "co_info c ! nat (i_pc s) = I_lookupswitch sw" and "sorted_wrt (\<lambda>p q. sint (fst p) < sint (fst q)) (sw_pairs sw)"
    and "1 \<le> k" and "k \<le> length (i_words s)" and "i_sp s = int k"
  shows "do_lookupswitch s = (Inr (Jump (int (case find (\<lambda>p. fst p = i_words s ! (k - 1)) (sw_pairs sw) of
     Some p \<Rightarrow> snd p | None \<Rightarrow> sw_default sw))), s\<lparr>i_sp := int (k - 1)\<rparr>)"
proof -
  have "nat (int k - 1) = k - 1" "int (k - 1) = int k - 1" using assms(6) by (simp_all add: nat_diff_distrib)
  then show ?thesis using assms
    by (simp add: do_lookupswitch_def info_lookupswitch_def the_info_def code_of_def load_at_def bindM_def gets_def ret_def liftM_def
        thenM_def pop_def modify_def stack_def get_word_def bsearch_reference)
qed

definition switch_state :: "u32 \<Rightarrow> unit istate" where
  "switch_state key = \<lparr>i_words = [key], i_sp = 1, i_pc = 0, i_ticker = 32, i_lock = null, i_method = 112,
     i_world = small_world\<lparr>w_code := [112 \<mapsto> two_lines\<lparr>co_info :=
       [I_lookupswitch \<lparr>sw_default = 9, sw_pairs = [(0xffffffff, 4), (0, 5), (70000, 6)]\<rparr>]\<rparr>]\<rparr>\<rparr>"

theorem lookupswitch_finds_witness:
  "fst (do_lookupswitch (switch_state 70000)) = Inr (Jump 6) \<and> fst (do_lookupswitch (switch_state 3)) = Inr (Jump 9)"
proof -
  let ?sw = "\<lparr>sw_default = 9, sw_pairs = [(0xffffffff, 4), (0, 5), (70000, 6)]\<rparr>"
  have "do_lookupswitch (switch_state key) = (Inr (Jump (int (case find (\<lambda>p. fst p = i_words (switch_state key) ! (1 - 1)) (sw_pairs ?sw) of
     Some p \<Rightarrow> snd p | None \<Rightarrow> sw_default ?sw))), (switch_state key)\<lparr>i_sp := int (1 - 1)\<rparr>)" for key
    by (rule lookupswitch_finds [where c = "two_lines\<lparr>co_info := [I_lookupswitch ?sw]\<rparr>"]) (simp_all add: switch_state_def)
  then show ?thesis by (simp add: switch_state_def)
qed

section \<open>Handlers\<close>

text \<open>A trap does not take an exception: elsewhere, or of another class. It does: the range is right, the class too.\<close>

definition passes :: "'e vm \<Rightarrow> 'e istate \<Rightarrow> interp_trap \<Rightarrow> bool" where
  "passes vm s t \<longleftrightarrow> i_pc s < int (it_start t) \<or> int (it_end t) \<le> i_pc s
     \<or> it_type t \<noteq> null \<and> subclass_of vm (w_pending (i_world s)) (it_type t) (i_world s) = (Inr False, i_world s)"

definition takes :: "'e vm \<Rightarrow> 'e istate \<Rightarrow> interp_trap \<Rightarrow> bool" where
  "takes vm s t \<longleftrightarrow> int (it_start t) \<le> i_pc s \<and> i_pc s < int (it_end t)
     \<and> (it_type t = null \<or> subclass_of vm (w_pending (i_world s)) (it_type t) (i_world s) = (Inr True, i_world s))"

lemma retrieve_passes:
  "type \<noteq> null \<Longrightarrow> subclass_of vm (w_pending w) type w = (Inr False, w) \<Longrightarrow> retrieve_exception vm type w = (Inr None, w)"
  by (simp add: retrieve_exception_def bindM_def gets_def ret_def)

lemma retrieve_takes:
  "type = null \<or> subclass_of vm (w_pending w) type w = (Inr True, w) \<Longrightarrow>
    retrieve_exception vm type w = (Inr (Some (w_pending w)), w\<lparr>w_pending := null\<rparr>)"
  by (auto simp: retrieve_exception_def bindM_def gets_def ret_def thenM_def modify_def)

lemma find_trap_passes: "list_all (passes vm s) ts \<Longrightarrow> find_trap vm (ts @ us) s = find_trap vm us s"
proof (induction ts)
  case (Cons t ts)
  then have p: "passes vm s t" and IH: "find_trap vm (ts @ us) s = find_trap vm us s" by auto
  show ?case
  proof (cases "i_pc s < int (it_start t) \<or> int (it_end t) \<le> i_pc s")
    case True
    then show ?thesis using IH by (simp add: bindM_def gets_def)
  next
    case False
    with p have "retrieve_exception vm (it_type t) (i_world s) = (Inr None, i_world s)"
      by (intro retrieve_passes) (auto simp: passes_def)
    with False IH show ?thesis by (simp add: bindM_def gets_def on_world_def)
  qed
qed simp

lemma find_trap_takes: "takes vm s t \<Longrightarrow>
    find_trap vm (t # us) s = (Inr (Some (t, w_pending (i_world s))), s\<lparr>i_world := (i_world s)\<lparr>w_pending := null\<rparr>\<rparr>)"
  using retrieve_takes [of "it_type t" vm "i_world s"]
  by (auto simp: takes_def bindM_def gets_def on_world_def ret_def)

text \<open>
  C24: An exception goes to the first handler that covers the instruction and has its class: the pending
  exception is cleared and is alone on the operand stack. Without one it stays pending.
\<close>
theorem first_handler_taken:
  assumes "w_code (i_world s) (i_method s) = Some c" and "list_all (passes vm s) ts"
    and "co_traps c = ts \<or> (\<exists>us. co_traps c = ts @ t # us) \<and> takes vm s t"
    and "co_max_locals c < length (i_words s)"
  shows "handle_exception vm s = (if co_traps c = ts then (Inr None, s)
    else (Inr (Some (it_target t)), s\<lparr>i_words := (i_words s)[co_max_locals c := w_pending (i_world s)],
      i_sp := int (co_max_locals c) + 1, i_world := (i_world s)\<lparr>w_pending := null\<rparr>\<rparr>))"
proof (cases "co_traps c = ts")
  case True
  then have "find_trap vm (co_traps c) s = (Inr None, s)" using find_trap_passes [OF assms(2), of "[]"] by (simp add: ret_def)
  with True assms(1) show ?thesis by (simp add: handle_exception_def code_of_def bindM_def gets_def ret_def)
next
  case False
  with assms(3) obtain us where "co_traps c = ts @ t # us" "takes vm s t" by auto
  then have "find_trap vm (co_traps c) s = (Inr (Some (t, w_pending (i_world s))), s\<lparr>i_world := (i_world s)\<lparr>w_pending := null\<rparr>\<rparr>)"
    by (simp add: find_trap_passes [OF assms(2)] find_trap_takes del: find_trap.simps)
  with False assms(1,4) show ?thesis
    by (simp add: handle_exception_def code_of_def bindM_def gets_def ret_def thenM_def set_word_def modify_def)
qed


definition handler_code :: icode where
  "handler_code = two_lines\<lparr>co_traps := [\<lparr>it_start = 2, it_end = 4, it_target = 3, it_type = null\<rparr>,
     \<lparr>it_start = 0, it_end = 4, it_target = 3, it_type = null\<rparr>], co_max_stack := 1\<rparr>"

definition handler_state :: "unit istate" where
  "handler_state = \<lparr>i_words = [0], i_sp = 1, i_pc = 1, i_ticker = 32, i_lock = null, i_method = 112,
     i_world = small_world\<lparr>w_code := [112 \<mapsto> handler_code], w_pending := 48\<rparr>\<rparr>"

theorem first_handler_taken_witness:
  "fst (handle_exception (small_vm small_program) handler_state) = Inr (Some 3)"
proof -
  have "handle_exception (small_vm small_program) handler_state = (if co_traps handler_code = [\<lparr>it_start = 2, it_end = 4, it_target = 3, it_type = null\<rparr>]
    then (Inr None, handler_state)
    else (Inr (Some (it_target \<lparr>it_start = 0, it_end = 4, it_target = 3, it_type = null\<rparr>)),
      handler_state\<lparr>i_words := (i_words handler_state)[co_max_locals handler_code := w_pending (i_world handler_state)],
      i_sp := int (co_max_locals handler_code) + 1, i_world := (i_world handler_state)\<lparr>w_pending := null\<rparr>\<rparr>))"
    by (rule first_handler_taken) (simp_all add: handler_state_def handler_code_def two_lines_def passes_def takes_def)
  then show ?thesis by (simp add: handler_code_def)
qed

text \<open>
  When there is no memory for the frame, the exception for it is looked up in the handlers of the
  method as if its first instruction had raised it; one that takes it is written through the null
  pointer to the missing frame.
\<close>
theorem no_frame_handler_faults:
  assumes "pr_methods (vm_program vm) m = Some meth" and "\<not> acc_test (me_access meth) ACC_ABSTRACT" and "\<not> sv_stack_low vm w"
    and "w_code w m = Some c" and "\<And>w'. \<not> sv_alloca vm ((co_max_locals c + co_max_stack c) * 4) w'"
    and "\<And>w'. w_code (sv_post vm StackOverflowError w') = w_code w'"
    and "co_traps c = t # ts" and "it_start t = 0" and "0 < it_end t" and "it_type t = null"
  shows "fst (interp (Suc (Suc n)) vm m this args w) = Inl (Fault Out_of_bounds)"
proof -
  define w1 where "w1 = w\<lparr>w_java_stack := m # w_java_stack w\<rparr>"
  define s where "s = \<lparr>i_words = [], i_sp = 0, i_pc = 0, i_ticker = periodic_check_ticks, i_lock = null, i_method = m,
    i_world = sv_post vm StackOverflowError w1\<rparr>"
  define s0 where "s0 = s\<lparr>i_world := w1\<rparr>"
  have enter: "enter_frame vm meth this args s0 = (Inr Exception, s)"
    using assms(4,5) by (simp add: enter_frame_def code_of_def bindM_def gets_def ret_def Let_def post_def thenM_def on_world_def
        modify_def s0_def s_def w1_def)
  have code: "w_code (i_world s) (i_method s) = Some c" using assms(4,6) by (simp add: s_def w1_def)
  have "takes vm s t" using assms(8,9,10) by (simp add: takes_def s_def)
  then have "find_trap vm (co_traps c) s = (Inr (Some (t, w_pending (i_world s))), s\<lparr>i_world := (i_world s)\<lparr>w_pending := null\<rparr>\<rparr>)"
    using assms(7) by (simp add: find_trap_takes del: find_trap.simps)
  then have "fst (handle_exception vm s) = Inl (Fault Out_of_bounds)"
    using code by (simp add: handle_exception_def code_of_def bindM_def gets_def ret_def thenM_def set_word_def s_def)
  then have "fst (interp_loop (Suc n) vm Exception s) = Inl (Fault Out_of_bounds)"
    by (auto simp: bindM_def split: prod.splits)
  then have "fst (bindM (enter_frame vm meth this args) (\<lambda>g. bindM (interp_loop (Suc n) vm g) (exit_frame vm (w_java_stack w))) s0)
      = Inl (Fault Out_of_bounds)"
    by (cases "interp_loop (Suc n) vm Exception s")
      (simp add: bindM_def [of "enter_frame vm meth this args"] enter bindM_def [of "interp_loop (Suc n) vm Exception"] del: interp_loop.simps)
  then show ?thesis using assms(1,2,3)
    by (auto simp: bindM_def [of "gets id"] bindM_def [of "the_method vm m"] gets_def the_method_def ret_def s0_def s_def w1_def
        split: prod.splits)
qed

definition no_memory :: "unit vm" where
  "no_memory = (small_vm int_program)\<lparr>sv_alloca := (\<lambda>n w. False)\<rparr>"

theorem no_frame_handler_faults_witness:
  "fst (interp (Suc (Suc 7)) no_memory 112 null [] (small_world\<lparr>w_code := [112 \<mapsto> handler_code\<lparr>co_traps := tl (co_traps handler_code)\<rparr>]\<rparr>))
    = Inl (Fault Out_of_bounds)"
  by (rule no_frame_handler_faults [where meth = one_int_method and ts = "[]" and c = "handler_code\<lparr>co_traps := tl (co_traps handler_code)\<rparr>"
      and t = "\<lparr>it_start = 0, it_end = 4, it_target = 3, it_type = null\<rparr>"])
    (simp_all add: no_memory_def small_vm_def int_program_def one_int_method_def acc_test_def handler_code_def)

end
