(* ===== verification/Resolve_Search.thy ===== *)
theory Resolve_Search
  imports Instance Jc_Order
begin

text \<open>
  The lookups of fields and methods by name and signature: in the sorted tables of one type
  (\<open>libjc/reflect.c\<close>, with the comparisons of \<open>libjc/misc.c\<close> and \<open>libjc/resolve2.c\<close>), and along the
  supertypes (\<open>libjc/resolve.c\<close>).
\<close>

section \<open>State and services\<close>

text \<open>
  What resolving works on: the flags of the types, the references collected for the class loader
  (\<open>_jc_resolve_info\<close>) with the room of their array, and what the services keep.
\<close>

record 'e lstate =
  l_flags :: "u32 \<Rightarrow> u16"
  l_refs :: "u32 list"
  l_room :: nat
  l_rest :: 'e

text \<open>
  The types, methods and fields at their addresses, as for the interpreter; the supertypes that a type
  from an ELF file has before it is resolved; the boot loader, the object of another loader, and the
  array types of the primitive types; and functions of other parts: loading a type in a loader,
  memory of a loader and memory of the machine. They store an exception when they fail.
\<close>

record 'e linker =
  ln_program :: program
  ln_supers :: "u32 \<Rightarrow> u32 \<times> u32 list"
  ln_boot_loader :: u32
  ln_instance :: "u32 \<Rightarrow> u32"
  ln_prim_array :: "u32 list"
  ln_load_type :: "u32 \<Rightarrow> cstr \<Rightarrow> ('e lstate, u32) mon"
  ln_cl_alloc :: "u32 \<Rightarrow> u32 \<Rightarrow> ('e lstate, unit) mon"
  ln_vm_alloc :: "u32 \<Rightarrow> ('e lstate, unit) mon"
  ln_stack_alloc :: "u32 \<Rightarrow> ('e lstate, unit) mon"

text \<open>What is at an address.\<close>

definition type_at :: "program \<Rightarrow> u32 \<Rightarrow> ('s, jtype) mon" where
  "type_at P a = (case pr_types P a of None \<Rightarrow> fails (Fault Bad_address) | Some t \<Rightarrow> ret t)"

definition method_at :: "program \<Rightarrow> u32 \<Rightarrow> ('s, jmethod) mon" where
  "method_at P a = (case pr_methods P a of None \<Rightarrow> fails (Fault Bad_address) | Some m \<Rightarrow> ret m)"

definition field_at :: "program \<Rightarrow> u32 \<Rightarrow> ('s, jfield) mon" where
  "field_at P a = (case pr_fields P a of None \<Rightarrow> fails (Fault Bad_address) | Some f \<Rightarrow> ret f)"

section \<open>Comparisons\<close>

definition first_of_str :: "cstr \<Rightarrow> u8" where
  "first_of_str u = (case u of [] \<Rightarrow> 0 | c # _ \<Rightarrow> c)"

text \<open>\<open>_jc_field_compare\<close>, \<open>_jc_method_compare\<close> and \<open>_jc_method_sorter\<close>, on what they read of their arguments\<close>

type_synonym field_key = "cstr \<times> cstr \<times> u16"
type_synonym method_key = "cstr \<times> cstr"

definition field_key :: "jfield \<Rightarrow> field_key" where
  "field_key f = (fi_name f, fi_signature f, fi_access f)"

definition method_key :: "jmethod \<Rightarrow> method_key" where
  "method_key m = (me_name m, me_signature m)"

definition static_rank :: "field_key \<Rightarrow> int" where
  "static_rank k = of_bool (\<not> acc_test (snd (snd k)) ACC_STATIC)"

definition type_rank :: "field_key \<Rightarrow> int" where
  "type_rank k = field_type_sort (sig_type (first_of_str (fst (snd k))))"

definition field_compare :: "field_key \<Rightarrow> field_key \<Rightarrow> int" where
  "field_compare k1 k2 =
    (let d1 = static_rank k1 - static_rank k2; d2 = type_rank k1 - type_rank k2; d3 = strcmp (fst k1) (fst k2)
     in if d1 \<noteq> 0 then d1 else if d2 \<noteq> 0 then d2 else if d3 \<noteq> 0 then d3 else strcmp (fst (snd k1)) (fst (snd k2)))"

definition method_compare :: "method_key \<Rightarrow> method_key \<Rightarrow> int" where
  "method_compare k1 k2 = (let d = strcmp (fst k1) (fst k2) in if d \<noteq> 0 then d else strcmp (snd k1) (snd k2))"

section \<open>Declared members\<close>

text \<open>
  The tables hold pointers; every one of them is followed here, where \<open>bsearch\<close> follows those that it
  meets. Only normal reference types have declared members. A result of \<open>None\<close> comes with a stored
  \<open>NoSuchFieldError\<close> or \<open>NoSuchMethodError\<close>.
\<close>

definition plain_reference :: "u16 \<Rightarrow> bool" where
  "plain_reference f \<longleftrightarrow> f AND (TYPE_ARRAY OR TYPE_MASK) = ucast JC_TYPE_REFERENCE"

definition fields_of :: "program \<Rightarrow> jtype \<Rightarrow> ('s, (u32 \<times> jfield) list) mon" where
  "fields_of P r = mapM (\<lambda>a. bindM (field_at P a) (\<lambda>f. ret (a, f))) (ty_fields r)"

definition methods_of :: "program \<Rightarrow> jtype \<Rightarrow> ('s, (u32 \<times> jmethod) list) mon" where
  "methods_of P r = mapM (\<lambda>a. bindM (method_at P a) (\<lambda>m. ret (a, m))) (ty_methods r)"

definition declared_field :: "program \<Rightarrow> u32 \<Rightarrow> cstr \<Rightarrow> cstr \<Rightarrow> bool \<Rightarrow> ('e lstate, u32 option) mon" where
  "declared_field P t name sig is_static = bindM (gets (\<lambda>s. l_flags s t)) (\<lambda>flags.
     if \<not> plain_reference flags then ret None
     else bindM (type_at P t) (\<lambda>r. bindM (fields_of P r) (\<lambda>fs.
       ret (map_option fst (bsearch (\<lambda>p. field_compare (name, sig, if is_static then ACC_STATIC else 0) (field_key (snd p))) fs)))))"

definition declared_method :: "program \<Rightarrow> u32 \<Rightarrow> cstr \<Rightarrow> cstr \<Rightarrow> u16 \<Rightarrow> u16 \<Rightarrow> ('e lstate, u32 option) mon" where
  "declared_method P t name sig flags_mask flags = bindM (gets (\<lambda>s. l_flags s t)) (\<lambda>tflags.
     if \<not> plain_reference tflags then ret None
     else bindM (type_at P t) (\<lambda>r. bindM (methods_of P r) (\<lambda>ms.
       case bsearch (\<lambda>p. method_compare (name, sig) (method_key (snd p))) ms of
         None \<Rightarrow> ret None
       | Some (a, m) \<Rightarrow> ret (if me_access m AND flags_mask \<noteq> flags then None else Some a))))"

text \<open>\<open>_jc_method_lookup\<close>: an instance method by the name and signature of another\<close>

definition method_lookup :: "program \<Rightarrow> u32 \<Rightarrow> jmethod \<Rightarrow> ('s, u32 option) mon" where
  "method_lookup P t key = bindM (type_at P t) (\<lambda>r. bindM (methods_of P r) (\<lambda>ms.
     case bsearch (\<lambda>p. method_compare (method_key key) (method_key (snd p))) ms of
       None \<Rightarrow> ret None
     | Some (a, m) \<Rightarrow> ret (if acc_test (me_access m) ACC_STATIC then None else Some a)))"

section \<open>Members of the supertypes\<close>

text \<open>The supertypes that \<open>_jc_resolve_field\<close> follows\<close>

definition supers_of :: "'e linker \<Rightarrow> u32 \<Rightarrow> ('e lstate, u32 \<times> u32 list) mon" where
  "supers_of L t = bindM (gets (\<lambda>s. l_flags s t)) (\<lambda>flags. bindM (type_at (ln_program L) t) (\<lambda>r.
     ret (if \<not> flg_test flags TYPE_RESOLVED \<and> \<not> acc_test (ty_access r) ACC_INTERP then ln_supers L t
       else (ty_superclass r, ty_interfaces r))))"

text \<open>The first of some types for which a search finds a member\<close>

fun first_found :: "('a \<Rightarrow> ('s, 'b option) mon) \<Rightarrow> 'a list \<Rightarrow> ('s, 'b option) mon" where
  "first_found f [] = ret None"
| "first_found f (x # xs) = bindM (f x) (\<lambda>r. case r of Some y \<Rightarrow> ret (Some y) | None \<Rightarrow> first_found f xs)"

text \<open>Turns of the loops over superclasses: one for each type of the chain, and one for the null pointer.\<close>

definition chain_fuel :: "program \<Rightarrow> nat" where
  "chain_fuel P = pr_depth P + 2"

text \<open>The loop over the superclasses of \<open>_jc_resolve_field\<close>\<close>

fun field_in_supers :: "nat \<Rightarrow> 'e linker \<Rightarrow> cstr \<Rightarrow> cstr \<Rightarrow> bool \<Rightarrow> u32 \<Rightarrow> ('e lstate, u32 option) mon" where
  "field_in_supers 0 L name sig is_static t = fails (Fault Out_of_fuel)"
| "field_in_supers (Suc n) L name sig is_static t = bindM (supers_of L t) (\<lambda>(super, _).
     if super = null then ret None
     else bindM (declared_field (ln_program L) super name sig is_static) (\<lambda>r. case r of
       Some f \<Rightarrow> ret (Some f) | None \<Rightarrow> field_in_supers n L name sig is_static super))"

primrec resolve_field :: "nat \<Rightarrow> 'e linker \<Rightarrow> cstr \<Rightarrow> cstr \<Rightarrow> bool \<Rightarrow> u32 \<Rightarrow> ('e lstate, u32 option) mon" where
  "resolve_field 0 = (\<lambda>L name sig is_static t. fails (Fault Out_of_fuel))"
| "resolve_field (Suc n) = (\<lambda>L name sig is_static t.
     bindM (declared_field (ln_program L) t name sig is_static) (\<lambda>r. case r of Some f \<Rightarrow> ret (Some f) | None \<Rightarrow>
     bindM (supers_of L t) (\<lambda>(_, interfaces).
     bindM (first_found (resolve_field n L name sig is_static) interfaces) (\<lambda>r. case r of Some f \<Rightarrow> ret (Some f) | None \<Rightarrow>
     field_in_supers (chain_fuel (ln_program L)) L name sig is_static t))))"

text \<open>The loops of \<open>_jc_resolve_method\<close>: the class and its superclasses, then their interfaces\<close>

fun method_in_supers :: "nat \<Rightarrow> program \<Rightarrow> cstr \<Rightarrow> cstr \<Rightarrow> u32 \<Rightarrow> ('e lstate, u32 option) mon" where
  "method_in_supers 0 P name sig t = fails (Fault Out_of_fuel)"
| "method_in_supers (Suc n) P name sig t = (if t = null then ret None
     else bindM (declared_method P t name sig 0 0) (\<lambda>r. case r of Some m \<Rightarrow> ret (Some m)
     | None \<Rightarrow> bindM (type_at P t) (\<lambda>r. method_in_supers n P name sig (ty_superclass r))))"

fun interfaces_along :: "nat \<Rightarrow> program \<Rightarrow> u32 \<Rightarrow> ('e lstate, u32 list) mon" where
  "interfaces_along 0 P t = fails (Fault Out_of_fuel)"
| "interfaces_along (Suc n) P t = (if t = null then ret []
     else bindM (type_at P t) (\<lambda>r. bindM (interfaces_along n P (ty_superclass r)) (\<lambda>is. ret (ty_interfaces r @ is))))"

definition clinit_name :: cstr where
  "clinit_name = c_str ''<clinit>''"

primrec resolve_method :: "nat \<Rightarrow> program \<Rightarrow> cstr \<Rightarrow> cstr \<Rightarrow> u32 \<Rightarrow> ('e lstate, u32 option) mon" where
  "resolve_method 0 = (\<lambda>P name sig t. fails (Fault Out_of_fuel))"
| "resolve_method (Suc n) = (\<lambda>P name sig t.
     if name = clinit_name \<and> t \<noteq> null then declared_method P t name sig 0 0
     else bindM (method_in_supers (chain_fuel P) P name sig t) (\<lambda>r. case r of Some m \<Rightarrow> ret (Some m) | None \<Rightarrow>
     bindM (interfaces_along (chain_fuel P) P t) (\<lambda>is.
     first_found (resolve_method n P name sig) is)))"

section \<open>Tables in order\<close>

context comparison
begin

lemma falling_sorted: "sorted_wrt (\<lambda>x y. cmp (k x) (k y) < 0) xs \<Longrightarrow> falling (\<lambda>x. cmp key (k x)) xs"
  by (erule sorted_wrt_mono_rel [rotated]) (metis less_imp_le less_trans less_trans2 swap)

lemma found_unique:
  assumes "sorted_wrt (\<lambda>x y. cmp (k x) (k y) < 0) xs" and "x \<in> set xs" and "y \<in> set xs" and "cmp (k x) (k y) = 0"
  shows "x = y"
proof -
  obtain i j where i: "i < length xs" "x = xs ! i" and j: "j < length xs" "y = xs ! j"
    using assms(2,3) by (auto simp: in_set_conv_nth)
  have "\<not> i < j" using sorted_wrt_nth_less [OF assms(1), of i j] i j assms(4) by auto
  moreover have "\<not> j < i" using sorted_wrt_nth_less [OF assms(1), of j i] i j assms(4) swap_zero [of "k x" "k y"] by auto
  ultimately show ?thesis using i j by simp
qed

end

interpretation fields: comparison field_compare
proof -
  show "comparison field_compare"
    unfolding field_compare_def Let_def
    by (rule comparison_lex [OF comparison_diff comparison_lex [OF comparison_diff
          comparison_lex [OF comparison_str comparison_key [OF comparison_str]]]])
qed

interpretation methods: comparison method_compare
proof -
  show "comparison method_compare"
    unfolding method_compare_def Let_def by (rule comparison_lex [OF comparison_str comparison_str])
qed

lemma method_compare_zero: "method_compare k l = 0 \<longleftrightarrow> k = l"
  by (auto simp: method_compare_def Let_def strcmp_zero prod_eq_iff)

text \<open>Static fields and instance fields are told apart, whatever their other flags.\<close>

definition same_field :: "field_key \<Rightarrow> field_key \<Rightarrow> bool" where
  "same_field k l \<longleftrightarrow> fst k = fst l \<and> fst (snd k) = fst (snd l)
     \<and> acc_test (snd (snd k)) ACC_STATIC = acc_test (snd (snd l)) ACC_STATIC"

lemma field_compare_zero: "field_compare k l = 0 \<longleftrightarrow> same_field k l"
  by (auto simp: field_compare_def same_field_def Let_def strcmp_zero static_rank_def type_rank_def of_bool_def)

text \<open>
  The tables of the types: their members are there and in strict order, which is how the parser leaves
  them and derivation copies them; and no chain of supertypes is longer than \<open>pr_depth\<close>, as \<open>rank\<close> shows.
\<close>

definition members_ok :: "program \<Rightarrow> jtype \<Rightarrow> bool" where
  "members_ok P r \<longleftrightarrow> set (ty_methods r) \<subseteq> dom (pr_methods P) \<and> set (ty_fields r) \<subseteq> dom (pr_fields P)
     \<and> sorted_wrt (\<lambda>a b. method_compare (method_key (the (pr_methods P a))) (method_key (the (pr_methods P b))) < 0) (ty_methods r)
     \<and> sorted_wrt (\<lambda>a b. field_compare (field_key (the (pr_fields P a))) (field_key (the (pr_fields P b))) < 0) (ty_fields r)"

definition supertypes_ok :: "program \<Rightarrow> (u32 \<Rightarrow> nat) \<Rightarrow> u32 \<Rightarrow> u32 \<times> u32 list \<Rightarrow> bool" where
  "supertypes_ok P rank t su \<longleftrightarrow> (fst su \<noteq> null \<longrightarrow> fst su \<in> dom (pr_types P) \<and> rank (fst su) < rank t)
     \<and> (\<forall>i \<in> set (snd su). i \<noteq> null \<and> i \<in> dom (pr_types P) \<and> rank i < rank t)"

definition lookups_ok :: "program \<Rightarrow> (u32 \<Rightarrow> nat) \<Rightarrow> bool" where
  "lookups_ok P rank \<longleftrightarrow> null \<notin> dom (pr_types P) \<and> (\<forall>t r. pr_types P t = Some r \<longrightarrow> members_ok P r
     \<and> rank t \<le> pr_depth P \<and> supertypes_ok P rank t (ty_superclass r, ty_interfaces r))"

section \<open>What the lookups find\<close>

definition declares :: "program \<Rightarrow> (u32 \<Rightarrow> u16) \<Rightarrow> cstr \<Rightarrow> cstr \<Rightarrow> u32 \<Rightarrow> u32 \<Rightarrow> bool" where
  "declares P flags name sig t m \<longleftrightarrow> plain_reference (flags t) \<and> (\<exists>r x. pr_types P t = Some r \<and> m \<in> set (ty_methods r)
     \<and> pr_methods P m = Some x \<and> me_name x = name \<and> me_signature x = sig)"

definition declares_field :: "program \<Rightarrow> (u32 \<Rightarrow> u16) \<Rightarrow> cstr \<Rightarrow> cstr \<Rightarrow> bool \<Rightarrow> u32 \<Rightarrow> u32 \<Rightarrow> bool" where
  "declares_field P flags name sig is_static t f \<longleftrightarrow> plain_reference (flags t) \<and> (\<exists>r x. pr_types P t = Some r
     \<and> f \<in> set (ty_fields r) \<and> pr_fields P f = Some x \<and> fi_name x = name \<and> fi_signature x = sig
     \<and> acc_test (fi_access x) ACC_STATIC = is_static)"

lemma follow_pointers:
  assumes "\<And>a s. a \<in> set as \<Longrightarrow> at a s = (Inr (f a), s)"
  shows "mapM (\<lambda>a. bindM (at a) (\<lambda>x. ret (a, x))) as s = (Inr (map (\<lambda>a. (a, f a)) as), s)"
  using assms
proof (induction as)
  case (Cons a as)
  have "bindM (at a) (\<lambda>x. ret (a, x)) s = (Inr (a, f a), s)" using Cons.prems [of a s] by simp
  then show ?case using Cons by simp
qed simp

lemma methods_run:
  assumes "members_ok P r"
  shows "methods_of P r s = (Inr (map (\<lambda>a. (a, the (pr_methods P a))) (ty_methods r)), s)"
  unfolding methods_of_def by (rule follow_pointers) (use assms in \<open>auto simp: members_ok_def method_at_def\<close>)

lemma fields_run:
  assumes "members_ok P r"
  shows "fields_of P r s = (Inr (map (\<lambda>a. (a, the (pr_fields P a))) (ty_fields r)), s)"
  unfolding fields_of_def by (rule follow_pointers) (use assms in \<open>auto simp: members_ok_def field_at_def\<close>)

lemma declared_method_run:
  assumes "members_ok P r" and "pr_types P t = Some r"
  shows "\<exists>res. declared_method P t name sig want flags s = (Inr res, s) \<and> (case res of
      Some m \<Rightarrow> declares P (l_flags s) name sig t m \<and> me_access (the (pr_methods P m)) AND want = flags
    | None \<Rightarrow> \<forall>m. declares P (l_flags s) name sig t m \<longrightarrow> me_access (the (pr_methods P m)) AND want \<noteq> flags)"
proof (cases "plain_reference (l_flags s t)")
  case True
  let ?ms = "map (\<lambda>a. (a, the (pr_methods P a))) (ty_methods r)"
  let ?c = "\<lambda>p. method_compare (name, sig) (method_key (snd p))"
  have sorted: "sorted_wrt (\<lambda>x y. method_compare (method_key (snd x)) (method_key (snd y)) < 0) ?ms"
    using assms(1) by (simp add: members_ok_def sorted_wrt_map)
  note found = bsearch_finds [OF methods.falling_sorted [where k = "\<lambda>p. method_key (snd p)" and key = "(name, sig)", OF sorted]]
  have run: "declared_method P t name sig want flags s = (Inr (case bsearch ?c ?ms of None \<Rightarrow> None
      | Some (a, m) \<Rightarrow> if me_access m AND want \<noteq> flags then None else Some a), s)"
    using True assms by (simp add: declared_method_def type_at_def methods_run bindM_def ret_def split: option.splits prod.splits)
  have dom: "set (ty_methods r) \<subseteq> dom (pr_methods P)" using assms(1) by (simp add: members_ok_def)
  have decl: "declares P (l_flags s) name sig t m \<longleftrightarrow> m \<in> set (ty_methods r) \<and> ?c (m, the (pr_methods P m)) = 0" for m
    using True assms(2) dom by (auto simp: declares_def method_compare_zero method_key_def)
  show ?thesis
  proof (cases "bsearch ?c ?ms")
    case None
    then have "\<not> declares P (l_flags s) name sig t m" for m using found(2) by (auto simp: decl)
    with None run show ?thesis by simp
  next
    case (Some q)
    then have q: "q \<in> set ?ms" "?c q = 0" using found(1) [of q] by auto
    then obtain m where m: "q = (m, the (pr_methods P m))" "m \<in> set (ty_methods r)" by auto
    have only: "m' = m" if "declares P (l_flags s) name sig t m'" for m'
    proof -
      from that have "(m', the (pr_methods P m')) \<in> set ?ms" "?c (m', the (pr_methods P m')) = 0" by (auto simp: decl)
      then have "(m', the (pr_methods P m')) = q"
        using q by (intro methods.found_unique [where k = "\<lambda>p. method_key (snd p)", OF sorted]) (auto simp: method_compare_zero)
      with m show ?thesis by simp
    qed
    have "declares P (l_flags s) name sig t m" using m q(2) by (simp add: decl)
    moreover have "declared_method P t name sig want flags s
        = (Inr (if me_access (the (pr_methods P m)) AND want \<noteq> flags then None else Some m), s)"
      using run by (simp add: Some m(1))
    ultimately show ?thesis by (cases "me_access (the (pr_methods P m)) AND want = flags") (auto dest: only)
  qed
qed (simp add: declared_method_def declares_def)

lemma declared_field_run:
  assumes "members_ok P r" and "pr_types P t = Some r"
  shows "\<exists>res. declared_field P t name sig is_static s = (Inr res, s) \<and> (case res of
      Some f \<Rightarrow> declares_field P (l_flags s) name sig is_static t f
    | None \<Rightarrow> \<forall>f. \<not> declares_field P (l_flags s) name sig is_static t f)"
proof (cases "plain_reference (l_flags s t)")
  case True
  let ?fs = "map (\<lambda>a. (a, the (pr_fields P a))) (ty_fields r)"
  let ?c = "\<lambda>p. field_compare (name, sig, if is_static then ACC_STATIC else 0) (field_key (snd p))"
  have sorted: "sorted_wrt (\<lambda>x y. field_compare (field_key (snd x)) (field_key (snd y)) < 0) ?fs"
    using assms(1) by (simp add: members_ok_def sorted_wrt_map)
  note found = bsearch_finds [OF fields.falling_sorted [where k = "\<lambda>p. field_key (snd p)"
        and key = "(name, sig, if is_static then ACC_STATIC else 0)", OF sorted]]
  have run: "declared_field P t name sig is_static s = (Inr (map_option fst (bsearch ?c ?fs)), s)"
    using True assms by (simp add: declared_field_def type_at_def fields_run bindM_def ret_def)
  have dom: "set (ty_fields r) \<subseteq> dom (pr_fields P)" using assms(1) by (simp add: members_ok_def)
  have zero: "?c (a, x) = 0 \<longleftrightarrow> fi_name x = name \<and> fi_signature x = sig \<and> acc_test (fi_access x) ACC_STATIC = is_static" for a x
    by (auto simp: field_compare_zero same_field_def field_key_def acc_test_def)
  have decl: "declares_field P (l_flags s) name sig is_static t f \<longleftrightarrow> f \<in> set (ty_fields r) \<and> ?c (f, the (pr_fields P f)) = 0" for f
    unfolding zero using True assms(2) dom by (auto simp: declares_field_def)
  show ?thesis
  proof (cases "bsearch ?c ?fs")
    case None
    then have "\<not> declares_field P (l_flags s) name sig is_static t f" for f using found(2) by (auto simp: decl)
    with None run show ?thesis by simp
  next
    case (Some q)
    then have "q \<in> set ?fs" "?c q = 0" using found(1) [of q] by auto
    with Some run show ?thesis by (auto simp: decl)
  qed
qed (simp add: declared_field_def declares_field_def)

section \<open>Methods along the supertypes\<close>

inductive chain :: "program \<Rightarrow> u32 \<Rightarrow> u32 \<Rightarrow> bool" for P :: program where
  chain_refl: "chain P t t"
| chain_super: "pr_types P t = Some r \<Longrightarrow> ty_superclass r \<noteq> null \<Longrightarrow> chain P (ty_superclass r) u \<Longrightarrow> chain P t u"

text \<open>The nearest class of the chain that declares the method.\<close>

inductive nearest :: "program \<Rightarrow> (u32 \<Rightarrow> u16) \<Rightarrow> cstr \<Rightarrow> cstr \<Rightarrow> u32 \<Rightarrow> u32 \<Rightarrow> bool"
  for P :: program and flags :: "u32 \<Rightarrow> u16" and name sig :: cstr
where
  nearest_here: "declares P flags name sig t m \<Longrightarrow> nearest P flags name sig t m"
| nearest_super: "(\<And>m'. \<not> declares P flags name sig t m') \<Longrightarrow> pr_types P t = Some r \<Longrightarrow> ty_superclass r \<noteq> null
    \<Longrightarrow> nearest P flags name sig (ty_superclass r) m \<Longrightarrow> nearest P flags name sig t m"

lemma chain_step: "pr_types P t = Some r \<Longrightarrow> chain P t u \<longleftrightarrow> u = t \<or> ty_superclass r \<noteq> null \<and> chain P (ty_superclass r) u"
  by (auto elim: chain.cases intro: chain.intros)

lemma nearest_chain: "nearest P flags name sig t m \<Longrightarrow> \<exists>u. chain P t u \<and> declares P flags name sig u m"
  by (induction rule: nearest.induct) (auto intro: chain.intros)

lemma nearest_type: "nearest P flags name sig t m \<Longrightarrow> \<exists>r. pr_types P t = Some r"
  by (induction rule: nearest.induct) (auto simp: declares_def)

lemma chain_subtype: "chain P t u \<Longrightarrow> subtype P t u"
  by (induction rule: chain.induct) (auto intro: subtype.intros)

lemma subtype_after_chain: "chain P t c \<Longrightarrow> subtype P c u \<Longrightarrow> subtype P t u"
  by (induction rule: chain.induct) (auto intro: subtype.intros)

text \<open>A supertype is a superclass or is above an interface of one.\<close>

lemma subtype_split:
  "subtype P t u \<Longrightarrow> chain P t u \<or> (\<exists>c r i. chain P t c \<and> pr_types P c = Some r \<and> i \<in> set (ty_interfaces r) \<and> subtype P i u)"
  by (induction rule: subtype.induct) (blast intro: chain.intros)+

lemma type_facts:
  assumes "lookups_ok P rank" and "pr_types P t = Some r"
  shows "t \<noteq> null" "members_ok P r" "rank t \<le> pr_depth P" "supertypes_ok P rank t (ty_superclass r, ty_interfaces r)"
  using assms by (auto simp: lookups_ok_def)

lemma super_facts:
  assumes "lookups_ok P rank" and "pr_types P t = Some r"
  shows "ty_superclass r \<noteq> null \<Longrightarrow> \<exists>r'. pr_types P (ty_superclass r) = Some r' \<and> rank (ty_superclass r) < rank t"
    and "i \<in> set (ty_interfaces r) \<Longrightarrow> i \<noteq> null \<and> (\<exists>r'. pr_types P i = Some r') \<and> rank i < rank t"
  using type_facts(4) [OF assms] by (auto simp: supertypes_ok_def)

text \<open>The loops over superclasses stop: a type is further down than its superclass.\<close>

definition enough :: "program \<Rightarrow> (u32 \<Rightarrow> nat) \<Rightarrow> nat \<Rightarrow> u32 \<Rightarrow> bool" where
  "enough P rank n t \<longleftrightarrow> 0 < n \<and> (t \<noteq> null \<longrightarrow> (\<exists>r. pr_types P t = Some r) \<and> rank t + 1 < n)"

lemma enough_super:
  "lookups_ok P rank \<Longrightarrow> enough P rank (Suc n) t \<Longrightarrow> pr_types P t = Some r \<Longrightarrow> enough P rank n (ty_superclass r)"
  using super_facts(1) [of P rank t r] type_facts(1) [of P rank t r] by (fastforce simp: enough_def)

lemma enough_depth: "lookups_ok P rank \<Longrightarrow> pr_types P t = Some r \<Longrightarrow> enough P rank (chain_fuel P) t"
  using type_facts(3) [of P rank t r] by (simp add: enough_def chain_fuel_def)

lemma chain_in:
  "chain P t u \<Longrightarrow> lookups_ok P rank \<Longrightarrow> pr_types P t = Some r \<Longrightarrow> (\<exists>r'. pr_types P u = Some r') \<and> rank u \<le> rank t"
proof (induction arbitrary: r rule: chain.induct)
  case (chain_super t r' u)
  obtain r2 where "pr_types P (ty_superclass r') = Some r2" "rank (ty_superclass r') < rank t"
    using super_facts(1) [OF chain_super.prems(1) chain_super.hyps(1,2)] by blast
  with chain_super.IH [of r2] chain_super.prems show ?case by auto
qed simp

lemma method_in_supers_run:
  assumes ok: "lookups_ok P rank" and "enough P rank n t"
  shows "\<exists>res. method_in_supers n P name sig t s = (Inr res, s) \<and> (case res of
      Some m \<Rightarrow> nearest P (l_flags s) name sig t m
    | None \<Rightarrow> \<forall>u m. t \<noteq> null \<longrightarrow> chain P t u \<longrightarrow> \<not> declares P (l_flags s) name sig u m)"
  using assms(2)
proof (induction n arbitrary: t)
  case (Suc n)
  show ?case
  proof (cases "t = null")
    case False
    with Suc.prems obtain r where r: "pr_types P t = Some r" by (auto simp: enough_def)
    obtain res where res: "declared_method P t name sig 0 0 s = (Inr res, s)" "case res of
        Some m \<Rightarrow> declares P (l_flags s) name sig t m | None \<Rightarrow> \<forall>m. \<not> declares P (l_flags s) name sig t m"
      using declared_method_run [OF type_facts(2) [OF ok r] r, of name sig 0 0 s] by (auto split: option.splits)
    show ?thesis
    proof (cases res)
      case (Some m)
      with res False show ?thesis by (auto intro: nearest_here)
    next
      case None
      obtain res' where res': "method_in_supers n P name sig (ty_superclass r) s = (Inr res', s)" "case res' of
          Some m \<Rightarrow> nearest P (l_flags s) name sig (ty_superclass r) m
        | None \<Rightarrow> \<forall>u m. ty_superclass r \<noteq> null \<longrightarrow> chain P (ty_superclass r) u \<longrightarrow> \<not> declares P (l_flags s) name sig u m"
        using Suc.IH [OF enough_super [OF ok Suc.prems r]] by auto
      have none: "\<not> declares P (l_flags s) name sig t m" for m using res(2) None by simp
      have run: "method_in_supers (Suc n) P name sig t s = (Inr res', s)"
        using False None res(1) r res'(1) by (simp add: type_at_def)
      show ?thesis
      proof (cases res')
        case (Some m)
        with res'(2) have "nearest P (l_flags s) name sig (ty_superclass r) m" by simp
        moreover have "ty_superclass r \<noteq> null"
          using nearest_type [OF calculation] by (elim exE) (rule type_facts(1) [OF ok])
        ultimately have "nearest P (l_flags s) name sig t m" by (intro nearest_super [OF none r])
        with Some run show ?thesis by simp
      next
        case None
        with res'(2) none show ?thesis using run by (auto simp: chain_step [OF r])
      qed
    qed
  qed simp
qed (simp add: enough_def)

lemma interfaces_along_run:
  assumes ok: "lookups_ok P rank" and "enough P rank n t"
  shows "\<exists>ifs. interfaces_along n P t s = (Inr ifs, s)
    \<and> set ifs = (if t = null then {} else {i. \<exists>c r. chain P t c \<and> pr_types P c = Some r \<and> i \<in> set (ty_interfaces r)})"
  using assms(2)
proof (induction n arbitrary: t)
  case (Suc n)
  show ?case
  proof (cases "t = null")
    case False
    with Suc.prems obtain r where r: "pr_types P t = Some r" by (auto simp: enough_def)
    from Suc.IH [OF enough_super [OF ok Suc.prems r]] obtain ifs where
      "interfaces_along n P (ty_superclass r) s = (Inr ifs, s)"
      "set ifs = (if ty_superclass r = null then {} else {i. \<exists>c r'. chain P (ty_superclass r) c \<and> pr_types P c = Some r' \<and> i \<in> set (ty_interfaces r')})"
      by auto
    then show ?thesis using False r by (auto simp: type_at_def chain_step [OF r])
  qed simp
qed (simp add: enough_def)

lemma first_found_run:
  assumes "\<And>x. x \<in> set xs \<Longrightarrow> \<exists>res. f x s = (Inr res, s) \<and> (case res of Some y \<Rightarrow> Q x y | None \<Rightarrow> \<forall>y. \<not> Q x y)"
  shows "\<exists>res. first_found f xs s = (Inr res, s)
    \<and> (case res of Some y \<Rightarrow> \<exists>x \<in> set xs. Q x y | None \<Rightarrow> \<forall>x \<in> set xs. \<forall>y. \<not> Q x y)"
  using assms
proof (induction xs)
  case (Cons x xs)
  obtain res where res: "f x s = (Inr res, s)" "case res of Some y \<Rightarrow> Q x y | None \<Rightarrow> \<forall>y. \<not> Q x y"
    using Cons.prems [of x] by auto
  obtain res' where res': "first_found f xs s = (Inr res', s)"
    "case res' of Some y \<Rightarrow> \<exists>x \<in> set xs. Q x y | None \<Rightarrow> \<forall>x \<in> set xs. \<forall>y. \<not> Q x y"
    using Cons.IH Cons.prems by auto
  show ?case
  proof (cases res)
    case None
    with res res' show ?thesis by (cases res') auto
  next
    case (Some y)
    with res show ?thesis by auto
  qed
qed simp

text \<open>What a lookup may return, and when it returns nothing.\<close>

definition method_found :: "program \<Rightarrow> (u32 \<Rightarrow> u16) \<Rightarrow> cstr \<Rightarrow> cstr \<Rightarrow> u32 \<Rightarrow> u32 option \<Rightarrow> bool" where
  "method_found P flags name sig t res \<longleftrightarrow> (case res of
     None \<Rightarrow> \<forall>u m. subtype P t u \<longrightarrow> \<not> declares P flags name sig u m
   | Some m \<Rightarrow> nearest P flags name sig t m \<or> (\<forall>u m. chain P t u \<longrightarrow> \<not> declares P flags name sig u m)
       \<and> (\<exists>u. subtype P t u \<and> declares P flags name sig u m))"

lemma resolve_method_run:
  assumes ok: "lookups_ok P rank" and "pr_types P t = Some r" and "rank t < n" and "name \<noteq> clinit_name"
  shows "\<exists>res. resolve_method n P name sig t s = (Inr res, s) \<and> method_found P (l_flags s) name sig t res"
  using assms(2,3)
proof (induction n arbitrary: t r)
  case (Suc n)
  note t = type_facts [OF ok Suc.prems(1)]
  obtain res where res: "method_in_supers (chain_fuel P) P name sig t s = (Inr res, s)" "case res of
      Some m \<Rightarrow> nearest P (l_flags s) name sig t m | None \<Rightarrow> \<forall>u m. chain P t u \<longrightarrow> \<not> declares P (l_flags s) name sig u m"
    using method_in_supers_run [OF ok enough_depth [OF ok Suc.prems(1)], of name sig s] t(1) by (auto cong: option.case_cong)
  show ?case
  proof (cases res)
    case (Some m)
    with res show ?thesis by (simp add: method_found_def assms(4))
  next
    case None
    obtain ifs where ifs: "interfaces_along (chain_fuel P) P t s = (Inr ifs, s)"
      "set ifs = {i. \<exists>c r. chain P t c \<and> pr_types P c = Some r \<and> i \<in> set (ty_interfaces r)}"
      using interfaces_along_run [OF ok enough_depth [OF ok Suc.prems(1)], of s] t(1) by auto
    let ?Q = "\<lambda>i m. \<exists>u. subtype P i u \<and> declares P (l_flags s) name sig u m"
    have each: "\<exists>res. resolve_method n P name sig i s = (Inr res, s) \<and> (case res of Some m \<Rightarrow> ?Q i m | None \<Rightarrow> \<forall>m. \<not> ?Q i m)"
      if i: "i \<in> set ifs" for i
    proof -
      obtain c r' where c: "chain P t c" "pr_types P c = Some r'" "i \<in> set (ty_interfaces r')" using i ifs(2) by auto
      obtain r'' where "pr_types P i = Some r''" "rank i < rank c" using super_facts(2) [OF ok c(2,3)] by auto
      moreover have "rank c \<le> rank t" using chain_in [OF c(1) ok Suc.prems(1)] by simp
      ultimately obtain res where "resolve_method n P name sig i s = (Inr res, s)" "method_found P (l_flags s) name sig i res"
        using Suc.IH [of i r''] Suc.prems(2) by auto
      then show ?thesis by (auto simp: method_found_def dest: nearest_chain chain_subtype split: option.splits)
    qed
    obtain res' where res': "first_found (resolve_method n P name sig) ifs s = (Inr res', s)"
      "case res' of Some m \<Rightarrow> \<exists>i \<in> set ifs. ?Q i m | None \<Rightarrow> \<forall>i \<in> set ifs. \<forall>m. \<not> ?Q i m"
      using first_found_run [of ifs "resolve_method n P name sig" s ?Q, OF each] by blast
    have none: "chain P t u \<Longrightarrow> \<not> declares P (l_flags s) name sig u m" for u m using res(2) None by auto
    have "method_found P (l_flags s) name sig t res'"
    proof (cases res')
      case (Some m)
      then obtain i u where i: "i \<in> set ifs" "subtype P i u" "declares P (l_flags s) name sig u m" using res'(2) by auto
      then obtain c r' where "chain P t c" "pr_types P c = Some r'" "i \<in> set (ty_interfaces r')" using ifs(2) by auto
      then have "subtype P t u" using i(2) by (blast intro: subtype_after_chain subtype.intros)
      with Some i none show ?thesis by (auto simp: method_found_def)
    next
      case None
      have "\<not> declares P (l_flags s) name sig u m" if "subtype P t u" for u m
        using subtype_split [OF that]
      proof
        assume "chain P t u" then show ?thesis by (rule none)
      next
        assume "\<exists>c r i. chain P t c \<and> pr_types P c = Some r \<and> i \<in> set (ty_interfaces r) \<and> subtype P i u"
        then obtain i where "i \<in> set ifs" "subtype P i u" using ifs(2) by auto
        with res'(2) None show ?thesis by auto
      qed
      with None show ?thesis by (simp add: method_found_def)
    qed
    moreover have "resolve_method (Suc n) P name sig t s = (Inr res', s)"
      using res(1) None ifs(1) res'(1) assms(4) by simp
    ultimately show ?thesis by blast
  qed
qed simp

section \<open>Fields along the supertypes\<close>

text \<open>The supertypes of a type at this moment: those of the ELF file until it is resolved.\<close>

definition supers_now :: "'e linker \<Rightarrow> (u32 \<Rightarrow> u16) \<Rightarrow> u32 \<Rightarrow> u32 \<times> u32 list" where
  "supers_now L flags t = (case pr_types (ln_program L) t of None \<Rightarrow> (null, []) | Some r \<Rightarrow>
     if \<not> flg_test (flags t) TYPE_RESOLVED \<and> \<not> acc_test (ty_access r) ACC_INTERP then ln_supers L t
     else (ty_superclass r, ty_interfaces r))"

definition field_lookups_ok :: "'e linker \<Rightarrow> (u32 \<Rightarrow> nat) \<Rightarrow> bool" where
  "field_lookups_ok L rank \<longleftrightarrow> lookups_ok (ln_program L) rank
     \<and> (\<forall>t \<in> dom (pr_types (ln_program L)). supertypes_ok (ln_program L) rank t (ln_supers L t))"

text \<open>The proper superclasses, and where \<open>_jc_resolve_field\<close> looks.\<close>

inductive super_chain :: "'e linker \<Rightarrow> (u32 \<Rightarrow> u16) \<Rightarrow> u32 \<Rightarrow> u32 \<Rightarrow> bool" for L :: "'e linker" and flags :: "u32 \<Rightarrow> u16" where
  super_here: "fst (supers_now L flags t) \<noteq> null \<Longrightarrow> super_chain L flags t (fst (supers_now L flags t))"
| super_above: "fst (supers_now L flags t) \<noteq> null \<Longrightarrow> super_chain L flags (fst (supers_now L flags t)) u \<Longrightarrow> super_chain L flags t u"

inductive field_scope :: "'e linker \<Rightarrow> (u32 \<Rightarrow> u16) \<Rightarrow> u32 \<Rightarrow> u32 \<Rightarrow> bool" for L :: "'e linker" and flags :: "u32 \<Rightarrow> u16" where
  scope_refl: "field_scope L flags t t"
| scope_interface: "i \<in> set (snd (supers_now L flags t)) \<Longrightarrow> field_scope L flags i u \<Longrightarrow> field_scope L flags t u"
| scope_super: "super_chain L flags t u \<Longrightarrow> field_scope L flags t u"

lemma super_chain_step: "super_chain L flags t u \<longleftrightarrow> fst (supers_now L flags t) \<noteq> null
    \<and> (u = fst (supers_now L flags t) \<or> super_chain L flags (fst (supers_now L flags t)) u)"
  by (subst super_chain.simps) auto

lemma field_scope_step: "field_scope L flags t u \<longleftrightarrow> u = t \<or> (\<exists>i \<in> set (snd (supers_now L flags t)). field_scope L flags i u)
    \<or> super_chain L flags t u"
  by (subst field_scope.simps) auto

lemma supers_of_run: "pr_types (ln_program L) t = Some r \<Longrightarrow> supers_of L t s = (Inr (supers_now L (l_flags s) t), s)"
  by (simp add: supers_of_def supers_now_def type_at_def)

lemma supers_now_ok:
  assumes "field_lookups_ok L rank" and "pr_types (ln_program L) t = Some r"
  shows "supertypes_ok (ln_program L) rank t (supers_now L flags t)"
  using assms type_facts(4) [of "ln_program L" rank t r] by (auto simp: field_lookups_ok_def supers_now_def)

lemma supers_now_interface:
  assumes "field_lookups_ok L rank" and "pr_types (ln_program L) t = Some r" and "i \<in> set (snd (supers_now L flags t))"
  shows "\<exists>r'. pr_types (ln_program L) i = Some r' \<and> rank i < rank t"
proof -
  from supers_now_ok [OF assms(1,2)] assms(3) have "i \<in> dom (pr_types (ln_program L)) \<and> rank i < rank t"
    by (simp add: supertypes_ok_def)
  then show ?thesis by auto
qed

lemma field_in_supers_run:
  assumes ok: "field_lookups_ok L rank" and "pr_types (ln_program L) t = Some r" and "rank t < n"
  shows "\<exists>res. field_in_supers n L name sig is_static t s = (Inr res, s) \<and> (case res of
      Some f \<Rightarrow> \<exists>u. super_chain L (l_flags s) t u \<and> declares_field (ln_program L) (l_flags s) name sig is_static u f
    | None \<Rightarrow> \<forall>u f. super_chain L (l_flags s) t u \<longrightarrow> \<not> declares_field (ln_program L) (l_flags s) name sig is_static u f)"
  using assms(2,3)
proof (induction n arbitrary: t r)
  case (Suc n)
  let ?u = "fst (supers_now L (l_flags s) t)"
  have l: "lookups_ok (ln_program L) rank" using ok by (simp add: field_lookups_ok_def)
  note run = supers_of_run [OF Suc.prems(1), of s]
  show ?case
  proof (cases "?u = null")
    case True
    then have "field_in_supers (Suc n) L name sig is_static t s = (Inr None, s)" using run by (simp add: case_prod_unfold)
    with True show ?thesis by (simp add: super_chain_step [of L "l_flags s" t])
  next
    case False
    then obtain r' where r': "pr_types (ln_program L) ?u = Some r'" "rank ?u < rank t"
      using supers_now_ok [OF ok Suc.prems(1), of "l_flags s"] by (auto simp: supertypes_ok_def)
    obtain res where res: "declared_field (ln_program L) ?u name sig is_static s = (Inr res, s)" "case res of
        Some f \<Rightarrow> declares_field (ln_program L) (l_flags s) name sig is_static ?u f
      | None \<Rightarrow> \<forall>f. \<not> declares_field (ln_program L) (l_flags s) name sig is_static ?u f"
      using declared_field_run [OF type_facts(2) [OF l r'(1)] r'(1)] by blast
    show ?thesis
    proof (cases res)
      case (Some f)
      then have "field_in_supers (Suc n) L name sig is_static t s = (Inr (Some f), s)"
        using run False res(1) by (simp add: case_prod_unfold)
      with Some res(2) False show ?thesis by (auto simp: super_chain_step [of L "l_flags s" t])
    next
      case None
      obtain res' where res': "field_in_supers n L name sig is_static ?u s = (Inr res', s)" "case res' of
          Some f \<Rightarrow> \<exists>u. super_chain L (l_flags s) ?u u \<and> declares_field (ln_program L) (l_flags s) name sig is_static u f
        | None \<Rightarrow> \<forall>u f. super_chain L (l_flags s) ?u u \<longrightarrow> \<not> declares_field (ln_program L) (l_flags s) name sig is_static u f"
        using Suc.IH [OF r'(1)] r'(2) Suc.prems(2) by auto
      have go: "field_in_supers (Suc n) L name sig is_static t s = (Inr res', s)"
        using None run False res(1) res'(1) by (simp add: case_prod_unfold)
      show ?thesis
      proof (cases res')
        case (Some f)
        with res'(2) go False show ?thesis by (auto simp: super_chain_step [of L "l_flags s" t])
      next
        case None': None
        with res'(2) None res(2) go show ?thesis by (auto simp: super_chain_step [of L "l_flags s" t])
      qed
    qed
  qed
qed simp

lemma resolve_field_run:
  assumes ok: "field_lookups_ok L rank" and "pr_types (ln_program L) t = Some r" and "rank t < n"
  shows "\<exists>res. resolve_field n L name sig is_static t s = (Inr res, s) \<and> (case res of
      Some f \<Rightarrow> \<exists>u. field_scope L (l_flags s) t u \<and> declares_field (ln_program L) (l_flags s) name sig is_static u f
    | None \<Rightarrow> \<forall>u f. field_scope L (l_flags s) t u \<longrightarrow> \<not> declares_field (ln_program L) (l_flags s) name sig is_static u f)"
  using assms(2,3)
proof (induction n arbitrary: t r)
  case (Suc n)
  let ?D = "declares_field (ln_program L) (l_flags s) name sig is_static"
  let ?ifs = "snd (supers_now L (l_flags s) t)"
  have l: "lookups_ok (ln_program L) rank" using ok by (simp add: field_lookups_ok_def)
  note run = supers_of_run [OF Suc.prems(1), of s]
  note step = field_scope_step [of L "l_flags s" t]
  obtain res where res: "declared_field (ln_program L) t name sig is_static s = (Inr res, s)"
    "case res of Some f \<Rightarrow> ?D t f | None \<Rightarrow> \<forall>f. \<not> ?D t f"
    using declared_field_run [OF type_facts(2) [OF l Suc.prems(1)] Suc.prems(1)] by blast
  show ?case
  proof (cases res)
    case (Some f)
    with res show ?thesis by (auto intro: scope_refl)
  next
    case None
    let ?Q = "\<lambda>i f. \<exists>u. field_scope L (l_flags s) i u \<and> ?D u f"
    have each: "\<exists>res. resolve_field n L name sig is_static i s = (Inr res, s) \<and> (case res of Some f \<Rightarrow> ?Q i f | None \<Rightarrow> \<forall>f. \<not> ?Q i f)"
      if i: "i \<in> set ?ifs" for i
    proof -
      obtain r' where "pr_types (ln_program L) i = Some r'" "rank i < rank t"
        using supers_now_interface [OF ok Suc.prems(1) i] by blast
      then obtain res where "resolve_field n L name sig is_static i s = (Inr res, s)"
          "case res of Some f \<Rightarrow> ?Q i f | None \<Rightarrow> \<forall>u f. field_scope L (l_flags s) i u \<longrightarrow> \<not> ?D u f"
        using Suc.IH [of i r'] Suc.prems(2) by auto
      then show ?thesis by (cases res) auto
    qed
    obtain res1 where res1: "first_found (resolve_field n L name sig is_static) ?ifs s = (Inr res1, s)"
      "case res1 of Some f \<Rightarrow> \<exists>i \<in> set ?ifs. ?Q i f | None \<Rightarrow> \<forall>i \<in> set ?ifs. \<forall>f. \<not> ?Q i f"
      using first_found_run [of ?ifs "resolve_field n L name sig is_static" s ?Q, OF each] by blast
    have in_fuel: "rank t < chain_fuel (ln_program L)"
      using type_facts(3) [OF l Suc.prems(1)] by (simp add: chain_fuel_def)
    show ?thesis
    proof (cases res1)
      case (Some f)
      then have "resolve_field (Suc n) L name sig is_static t s = (Inr (Some f), s)"
        using None res(1) res1(1) run by (simp add: case_prod_unfold)
      with Some res1(2) show ?thesis by (auto simp: step)
    next
      case None1: None
      obtain res2 where res2: "field_in_supers (chain_fuel (ln_program L)) L name sig is_static t s = (Inr res2, s)"
        "case res2 of Some f \<Rightarrow> \<exists>u. super_chain L (l_flags s) t u \<and> ?D u f | None \<Rightarrow> \<forall>u f. super_chain L (l_flags s) t u \<longrightarrow> \<not> ?D u f"
        using field_in_supers_run [OF ok Suc.prems(1) in_fuel] by blast
      have go: "resolve_field (Suc n) L name sig is_static t s = (Inr res2, s)"
        using None None1 res(1) res1(1) res2(1) run by (simp add: case_prod_unfold)
      show ?thesis
      proof (cases res2)
        case (Some f)
        with res2(2) go show ?thesis by (auto simp: step)
      next
        case None2: None
        with res2(2) res1(2) None1 None res(2) go show ?thesis by (auto simp: step)
      qed
    qed
  qed
qed simp

text \<open>What is found is there.\<close>

lemma resolve_field_in:
  assumes "field_lookups_ok L rank" and "pr_types (ln_program L) t = Some r" and "rank t < n"
  shows "\<exists>res. resolve_field n L name sig is_static t s = (Inr res, s) \<and> (\<forall>f. res = Some f \<longrightarrow> f \<in> dom (pr_fields (ln_program L)))"
proof -
  obtain res where "resolve_field n L name sig is_static t s = (Inr res, s)" "case res of
      Some f \<Rightarrow> \<exists>u. field_scope L (l_flags s) t u \<and> declares_field (ln_program L) (l_flags s) name sig is_static u f
    | None \<Rightarrow> \<forall>u f. field_scope L (l_flags s) t u \<longrightarrow> \<not> declares_field (ln_program L) (l_flags s) name sig is_static u f"
    using resolve_field_run [OF assms] by blast
  then show ?thesis by (cases res) (auto simp: declares_field_def)
qed

lemma resolve_method_in:
  assumes ok: "lookups_ok P rank" and t: "pr_types P t = Some r" and "rank t < n"
  shows "\<exists>res. resolve_method n P name sig t s = (Inr res, s) \<and> (\<forall>m. res = Some m \<longrightarrow> m \<in> dom (pr_methods P))"
proof (cases "name = clinit_name")
  case True
  obtain k where "n = Suc k" using assms(3) by (cases n) auto
  then have "resolve_method n P name sig t s = declared_method P t name sig 0 0 s"
    using True type_facts(1) [OF ok t] by simp
  moreover obtain res where "declared_method P t name sig 0 0 s = (Inr res, s)"
    "case res of Some m \<Rightarrow> declares P (l_flags s) name sig t m | None \<Rightarrow> True"
    using declared_method_run [OF type_facts(2) [OF ok t] t, of name sig 0 0 s] by (auto split: option.splits)
  ultimately show ?thesis by (cases res) (auto simp: declares_def)
next
  case False
  obtain res where "resolve_method n P name sig t s = (Inr res, s)" "method_found P (l_flags s) name sig t res"
    using resolve_method_run [OF assms False] by blast
  then show ?thesis by (cases res) (auto simp: method_found_def declares_def dest!: nearest_chain)
qed

section \<open>Results\<close>


text \<open>
  A program: the class \<open>Object\<close> at 64 with the method \<open>hash\<close>, the interface \<open>I\<close> at 80 with the method \<open>run\<close> and the
  static field \<open>X\<close>, the class \<open>A\<close> at 96 that implements \<open>I\<close>, and its subclass \<open>B\<close> at 112 with a \<open>run\<close> of its own.
\<close>

definition plain_method :: "string \<Rightarrow> u32 \<Rightarrow> u16 \<Rightarrow> jmethod" where
  "plain_method n c acc = \<lparr>me_name = c_str n, me_signature = c_str ''()V'', me_class = c, me_access = acc,
     me_param_ptypes = [JC_TYPE_VOID], me_num_parameters = 0, me_signature_hash = of_nat (length n), me_vtable_index = 0\<rparr>"

definition const_field :: jfield where
  "const_field = \<lparr>fi_name = c_str ''X'', fi_access = ACC_STATIC OR ACC_PUBLIC, fi_signature = c_str ''I'', fi_class = 80, fi_type = 16, fi_offset = 0\<rparr>"

definition family_types :: "u32 \<Rightarrow> jtype option" where
  "family_types = [64 \<mapsto> small_type\<lparr>ty_name := c_str ''Object'', ty_methods := [200], ty_access := ACC_INTERP\<rparr>,
     80 \<mapsto> small_type\<lparr>ty_name := c_str ''I'', ty_superclass := 64, ty_methods := [216], ty_fields := [300], ty_access := ACC_INTERP OR ACC_INTERFACE\<rparr>,
     96 \<mapsto> small_type\<lparr>ty_name := c_str ''A'', ty_superclass := 64, ty_interfaces := [80], ty_access := ACC_INTERP\<rparr>,
     112 \<mapsto> small_type\<lparr>ty_name := c_str ''B'', ty_superclass := 96, ty_methods := [232], ty_access := ACC_INTERP\<rparr>]"

definition family :: program where
  "family = \<lparr>pr_types = family_types,
     pr_methods = [200 \<mapsto> plain_method ''hash'' 64 ACC_PUBLIC, 216 \<mapsto> plain_method ''run'' 80 (ACC_PUBLIC OR ACC_ABSTRACT), 232 \<mapsto> plain_method ''run'' 112 ACC_PUBLIC],
     pr_fields = [300 \<mapsto> const_field], pr_Object = 64, pr_Cloneable = 0, pr_Serializable = 0, pr_depth = 3\<rparr>"

definition family_state :: "unit lstate" where
  "family_state = \<lparr>l_flags = (\<lambda>_. ucast JC_TYPE_REFERENCE), l_refs = [], l_room = 0, l_rest = ()\<rparr>"

definition family_linker :: "unit linker" where
  "family_linker = \<lparr>ln_program = family, ln_supers = (\<lambda>_. (null, [])), ln_boot_loader = null, ln_instance = (\<lambda>_. null),
     ln_prim_array = [], ln_load_type = (\<lambda>_ _. ret 112), ln_cl_alloc = (\<lambda>_ _. ret ()), ln_vm_alloc = (\<lambda>_. ret ()),
     ln_stack_alloc = (\<lambda>_. ret ())\<rparr>"

definition family_rank :: "u32 \<Rightarrow> nat" where
  "family_rank t = (if t = 112 then 3 else if t = 96 then 2 else if t = 80 then 1 else 0)"

lemma small_type_sel [simp]:
  "ty_methods small_type = []" "ty_fields small_type = []" "ty_interfaces small_type = []" "ty_superclass small_type = null"
  "ty_access small_type = 0"
  by (simp_all add: small_type_def)

lemma family_types_dom: "family_types t = Some r \<Longrightarrow> t \<in> {64, 80, 96, 112}"
  by (auto simp: family_types_def split: if_splits)

lemma family_at: "pr_types family = family_types" "pr_depth family = 3"
  by (simp_all add: family_def)

lemma family_members: "family_types t = Some r \<Longrightarrow> members_ok family r"
  by (auto simp: family_types_def family_def members_ok_def split: if_splits)

lemma family_supers: "family_types t = Some r \<Longrightarrow> supertypes_ok family family_rank t (ty_superclass r, ty_interfaces r)"
  by (auto simp: family_types_def family_at supertypes_ok_def family_rank_def split: if_splits)

lemma family_ok: "lookups_ok family family_rank"
  unfolding lookups_ok_def family_at
proof (intro conjI allI impI)
  show "null \<notin> dom family_types" by (simp add: family_types_def domIff)
  show "family_rank t \<le> 3" for t by (simp add: family_rank_def)
qed (rule family_members family_supers, assumption)+



end
