(* ===== verification/Resolve_Code.thy ===== *)
theory Resolve_Code
  imports Resolve_Search Cf_Bytecode Interp_Check
begin

text \<open>
  The resolution of bytecode, \<open>_jc_resolve_bytecode\<close> of \<open>libjc/resolve2.c\<close>: it takes the instructions that
  the class file parser returns to those that the interpreter runs. With the list of references of the
  class loader, from \<open>libjc/resolve.c\<close>.
\<close>

section \<open>References to other loaders\<close>

text \<open>
  The binary search of \<open>_jc_resolve_add_ref\<close>: nothing when the reference is there, and otherwise its place.
\<close>

function add_ref_pos :: "u32 \<Rightarrow> u32 list \<Rightarrow> nat \<Rightarrow> nat \<Rightarrow> failure + nat option" where
  "add_ref_pos ref refs i lim =
    (if lim = 0 then Inr (Some i)
     else case load refs (i + lim div 2) of
       Inl e \<Rightarrow> Inl e
     | Inr x \<Rightarrow> if ref = x then Inr None
         else if x < ref then add_ref_pos ref refs (i + lim div 2 + 1) ((lim - 1) div 2)
         else add_ref_pos ref refs i (lim div 2))"
  by pat_completeness auto
termination by (relation "measure (\<lambda>(ref, refs, i, lim). lim)") auto

declare add_ref_pos.simps [simp del]

definition grow_refs :: "'e linker \<Rightarrow> ('e lstate, unit) mon" where
  "grow_refs L = bindM (gets (\<lambda>s. (length (l_refs s), l_room s))) (\<lambda>(n, room).
     if n = room then thenM (ln_vm_alloc L (of_nat ((room + 32) * 4))) (modify (\<lambda>s. s\<lparr>l_room := room + 32\<rparr>))
     else ret ())"

definition resolve_add_ref :: "'e linker \<Rightarrow> u32 \<Rightarrow> ('e lstate, unit) mon" where
  "resolve_add_ref L ref = (if ref = null then ret ()
     else bindM (gets l_refs) (\<lambda>refs. bindM (liftM (add_ref_pos ref refs 0 (length refs))) (\<lambda>pos. case pos of
       None \<Rightarrow> ret ()
     | Some i \<Rightarrow> thenM (grow_refs L) (modify (\<lambda>s. s\<lparr>l_refs := take i (l_refs s) @ [ref] @ drop i (l_refs s)\<rparr>)))))"

definition resolve_add_loader_ref :: "'e linker \<Rightarrow> u32 \<Rightarrow> u32 \<Rightarrow> ('e lstate, unit) mon" where
  "resolve_add_loader_ref L own loader = (if loader = own \<or> loader = ln_boot_loader L then ret ()
     else resolve_add_ref L (ln_instance L loader))"

section \<open>Instructions without a reference\<close>

text \<open>
  The instructions that push a constant become \<open>ldc\<close> or \<open>ldc2_w\<close>. A constant has eight bytes, of which the
  code sets those that are used.
\<close>

definition constant_ops :: "(u8 \<times> u8 \<times> u64) list" where
  "constant_ops = [(JC_aconst_null, JC_ldc, 0), (JC_dconst_0, JC_ldc2_w, 0), (JC_dconst_1, JC_ldc2_w, 0x3ff0000000000000),
     (JC_fconst_0, JC_ldc, 0), (JC_fconst_1, JC_ldc, 0x3f800000), (JC_fconst_2, JC_ldc, 0x40000000),
     (JC_iconst_m1, JC_ldc, 0xffffffff), (JC_iconst_0, JC_ldc, 0), (JC_iconst_1, JC_ldc, 1), (JC_iconst_2, JC_ldc, 2),
     (JC_iconst_3, JC_ldc, 3), (JC_iconst_4, JC_ldc, 4), (JC_iconst_5, JC_ldc, 5),
     (JC_lconst_0, JC_ldc2_w, 0), (JC_lconst_1, JC_ldc2_w, 1)]"

abbreviation bad_union :: "('s, 'a) mon" where
  "bad_union \<equiv> fails (Fault Wrong_union_member)"

text \<open>Targets and indexes are kept in 16 bits.\<close>

definition short_nat :: "'a::len word \<Rightarrow> nat" where
  "short_nat w = unat (ucast w :: u16)"

definition resolve_lookupswitch :: "'e linker \<Rightarrow> u32 \<Rightarrow> cf_lookupswitch \<Rightarrow> ('e lstate, iinfo) mon" where
  "resolve_lookupswitch L loader csw =
     thenM (ln_cl_alloc L loader (of_nat (4 + length (lsw_pairs csw) * 8)))
     (ret (I_lookupswitch \<lparr>sw_default = short_nat (lsw_default csw),
        sw_pairs = map (\<lambda>p. (lk_match p, short_nat (lk_target p))) (take (length (lsw_pairs csw) mod 2 ^ 16) (lsw_pairs csw))\<rparr>))"

definition resolve_tableswitch :: "'e linker \<Rightarrow> u32 \<Rightarrow> cf_tableswitch \<Rightarrow> ('e lstate, iinfo) mon" where
  "resolve_tableswitch L loader csw = (let n = num_targets (tsw_low csw) (tsw_high csw) in
     thenM (ln_cl_alloc L loader (12 + n * 2))
     (thenM (assertM (Fault Out_of_bounds) (nat (sint n) \<le> length (tsw_targets csw)))
     (ret (I_tableswitch \<lparr>tw_low = tsw_low csw, tw_high = tsw_high csw, tw_default = short_nat (tsw_default csw),
        tw_targets = map short_nat (take (nat (sint n)) (tsw_targets csw))\<rparr>))))"

section \<open>Instructions with a type, a field or a constant\<close>

text \<open>\<open>_jc_load_type\<close> and the reference to the loader of the type\<close>

definition load_type_ref :: "'e linker \<Rightarrow> u32 \<Rightarrow> cstr \<Rightarrow> ('e lstate, u32 \<times> jtype) mon" where
  "load_type_ref L loader name = bindM (ln_load_type L loader name) (\<lambda>t. bindM (type_at (ln_program L) t) (\<lambda>r.
     thenM (resolve_add_loader_ref L loader (ty_loader r)) (ret (t, r))))"

definition array_name :: "cstr \<Rightarrow> cstr" where
  "array_name etype = (if first_of_str etype = of_char (CHR ''['') then of_char (CHR ''['') # etype
     else c_str ''[L'' @ etype @ c_str '';'')"

definition resolve_type_insn :: "'e linker \<Rightarrow> u32 \<Rightarrow> u8 \<Rightarrow> cstr \<Rightarrow> ('e lstate, iinfo) mon" where
  "resolve_type_insn L loader opc name =
    (if opc = JC_anewarray then thenM (ln_vm_alloc L (of_nat (length name + 4)))
       (bindM (load_type_ref L loader (array_name name)) (\<lambda>(t, r). ret (I_type t)))
     else bindM (load_type_ref L loader name) (\<lambda>(t, r). ret (I_type t)))"

definition resolve_field_insn :: "'e linker \<Rightarrow> u32 \<Rightarrow> u8 \<Rightarrow> cf_ref \<Rightarrow> ('e lstate, iinfo) mon" where
  "resolve_field_insn L loader opc ref = bindM (load_type_ref L loader (ref_class ref)) (\<lambda>(t, r).
     bindM (resolve_field (chain_fuel (ln_program L)) L (ref_name ref) (ref_descriptor ref) (opc = JC_getstatic \<or> opc = JC_putstatic) t) (\<lambda>f.
       case f of None \<Rightarrow> fails (Exn IncompatibleClassChangeError) | Some f \<Rightarrow> ret (I_field f)))"

definition resolve_ldc :: "'e linker \<Rightarrow> u32 \<Rightarrow> cf_constant \<Rightarrow> ('e lstate, u8 \<times> iinfo) mon" where
  "resolve_ldc L loader c =
    (if const_type c = CONSTANT_Integer then (case const_val c of Integer_val v \<Rightarrow> ret (JC_ldc, I_constant (ucast v)) | _ \<Rightarrow> bad_union)
     else if const_type c = CONSTANT_Float then (case const_val c of Float_val v \<Rightarrow> ret (JC_ldc, I_constant (ucast v)) | _ \<Rightarrow> bad_union)
     else if const_type c = CONSTANT_String then (case const_val c of
         String_val u \<Rightarrow> thenM (ln_cl_alloc L loader (of_nat (length u + 1))) (ret (JC_ldc_string, I_utf8 u)) | _ \<Rightarrow> bad_union)
     else if const_type c = CONSTANT_Class then (case const_val c of
         Class_val u \<Rightarrow> bindM (load_type_ref L loader u) (\<lambda>(t, r). ret (JC_ldc, I_constant (ucast (ty_instance r)))) | _ \<Rightarrow> bad_union)
     else ret (JC_ldc, I_none))"

definition resolve_ldc2 :: "cf_constant \<Rightarrow> ('e lstate, iinfo) mon" where
  "resolve_ldc2 c =
    (if const_type c = CONSTANT_Long then (case const_val c of Long_val v \<Rightarrow> ret (I_constant v) | _ \<Rightarrow> bad_union)
     else if const_type c = CONSTANT_Double then (case const_val c of Double_val v \<Rightarrow> ret (I_constant v) | _ \<Rightarrow> bad_union)
     else ret I_none)"

section \<open>Invocations\<close>

text \<open>The loops of the test for \<open>invokespecial\<close>: whether a class is a superclass, and the method of a superclass\<close>

fun has_super :: "nat \<Rightarrow> program \<Rightarrow> u32 \<Rightarrow> u32 \<Rightarrow> ('s, bool) mon" where
  "has_super 0 P t u = fails (Fault Out_of_fuel)"
| "has_super (Suc n) P t u = (if t = u then ret True else if t = null then ret False
     else bindM (type_at P t) (\<lambda>r. has_super n P (ty_superclass r) u))"

fun instance_method_above :: "nat \<Rightarrow> program \<Rightarrow> cstr \<Rightarrow> cstr \<Rightarrow> u32 \<Rightarrow> ('e lstate, u32 option) mon" where
  "instance_method_above 0 P name sig t = fails (Fault Out_of_fuel)"
| "instance_method_above (Suc n) P name sig t = (if t = null then ret None
     else bindM (declared_method P t name sig ACC_STATIC 0) (\<lambda>found. case found of
       Some m \<Rightarrow> ret (Some m)
     | None \<Rightarrow> bindM (type_at P t) (\<lambda>r. instance_method_above n P name sig (ty_superclass r))))"

definition is_special_name :: "cstr \<Rightarrow> bool" where
  "is_special_name u \<longleftrightarrow> first_of_str u = of_char (CHR ''<'')"

text \<open>What \<open>invokespecial\<close> invokes: \<open>cls\<close> is the class of the method whose code it is in, \<open>t\<close> the class it names.\<close>

definition special_method :: "'e linker \<Rightarrow> jtype \<Rightarrow> u32 \<Rightarrow> u32 \<Rightarrow> jmethod \<Rightarrow> ('e lstate, u32) mon" where
  "special_method L cls t m im = (let P = ln_program L in
     if acc_test (me_access im) ACC_ABSTRACT then fails (Exn AbstractMethodError)
     else if is_special_name (me_name im) \<and> me_class im \<noteq> t then fails (Exn NoSuchMethodError)
     else if is_special_name (me_name im) \<or> \<not> acc_test (ty_access cls) ACC_SUPER then ret m
     else bindM (has_super (chain_fuel P) P (ty_superclass cls) (me_class im)) (\<lambda>up. if \<not> up then ret m
     else bindM (instance_method_above (chain_fuel P) P (me_name im) (me_signature im) (ty_superclass cls)) (\<lambda>found. case found of
       None \<Rightarrow> fails (Exn AbstractMethodError)
     | Some vm \<Rightarrow> ret vm)))"

text \<open>The words of the parameters, as they are counted: in 16 bits\<close>

definition param_count :: "jmethod \<Rightarrow> nat" where
  "param_count im = me_num_parameters im + length (filter dword_type (take (me_num_parameters im) (me_param_ptypes im)))"

definition pop_words :: "u8 \<Rightarrow> jmethod \<Rightarrow> nat" where
  "pop_words opc im = ((if opc = JC_invokestatic then 0 else 1) + param_count im) mod 2 ^ 16"

text \<open>The words to pop; and an invocation of a method of a final class needs no table.\<close>

definition invoke_info :: "'e linker \<Rightarrow> u8 \<Rightarrow> u32 \<Rightarrow> ('e lstate, u8 \<times> iinfo) mon" where
  "invoke_info L opc m = bindM (method_at (ln_program L) m) (\<lambda>im. bindM (type_at (ln_program L) (me_class im)) (\<lambda>mr.
     let opc' = if acc_test (ty_access mr) ACC_FINAL \<and> opc = JC_invokevirtual then JC_invokespecial else opc in
     ret (opc', I_invoke m (pop_words opc im))))"

text \<open>From the method that was found on; the opcode follows the kind of its class.\<close>

definition invoke_opcode :: "u8 \<Rightarrow> jtype \<Rightarrow> u8" where
  "invoke_opcode opc mr = (if acc_test (ty_access mr) ACC_INTERFACE then JC_invokeinterface
     else if opc = JC_invokeinterface then JC_invokevirtual else opc)"

definition resolve_invoke_method :: "'e linker \<Rightarrow> jtype \<Rightarrow> u32 \<Rightarrow> u8 \<Rightarrow> u32 \<Rightarrow> ('e lstate, u8 \<times> iinfo) mon" where
  "resolve_invoke_method L cls t opc m = bindM (method_at (ln_program L) m) (\<lambda>im. bindM (type_at (ln_program L) (me_class im)) (\<lambda>mr.
     let opc' = invoke_opcode opc mr in
     if (opc' = JC_invokestatic) \<noteq> acc_test (me_access im) ACC_STATIC
        \<or> opc' \<noteq> JC_invokespecial \<and> is_special_name (me_name im)
     then fails (Exn IncompatibleClassChangeError)
     else bindM (if opc' = JC_invokespecial then special_method L cls t m im else ret m) (invoke_info L opc')))"

definition resolve_invoke :: "'e linker \<Rightarrow> u32 \<Rightarrow> jtype \<Rightarrow> u8 \<Rightarrow> cf_ref \<Rightarrow> ('e lstate, u8 \<times> iinfo) mon" where
  "resolve_invoke L loader cls opc ref = bindM (load_type_ref L loader (ref_class ref)) (\<lambda>(t, r).
     if (opc = JC_invokeinterface) \<noteq> acc_test (ty_access r) ACC_INTERFACE then fails (Exn IncompatibleClassChangeError)
     else bindM (resolve_method (chain_fuel (ln_program L)) (ln_program L) (ref_name ref) (ref_descriptor ref) t) (\<lambda>found. case found of
       None \<Rightarrow> fails (Exn (if opc = JC_invokespecial then AbstractMethodError else NoSuchMethodError))
     | Some m \<Rightarrow> resolve_invoke_method L cls t opc m))"

section \<open>The instruction\<close>

text \<open>The \<open>switch\<close> on the opcode: the new opcode, and the information it goes with.\<close>

definition keep_opcode :: "u8 \<Rightarrow> ('s, iinfo) mon \<Rightarrow> ('s, u8 \<times> iinfo) mon" where
  "keep_opcode opc M = bindM M (\<lambda>i. ret (opc, i))"

definition resolve_insn :: "'e linker \<Rightarrow> u32 \<Rightarrow> jtype \<Rightarrow> cf_insn \<Rightarrow> ('e lstate, u8 \<times> iinfo) mon" where
  "resolve_insn L loader cls insn = (let opc = opcode insn in
     case map_of constant_ops opc of Some (opc', v) \<Rightarrow> ret (opc', I_constant v) | None \<Rightarrow>
     if opc \<in> set local_ops then (case info insn of Local_info k \<Rightarrow> ret (opc, I_local (unat k)) | _ \<Rightarrow> bad_union)
     else if opc \<in> set type_ops then (case info insn of Type_info u \<Rightarrow> keep_opcode opc (resolve_type_insn L loader opc u) | _ \<Rightarrow> bad_union)
     else if opc = JC_bipush \<or> opc = JC_sipush then (case info insn of Immediate_info v \<Rightarrow> ret (JC_ldc, I_constant (ucast v)) | _ \<Rightarrow> bad_union)
     else if opc \<in> set field_ops then (case info insn of Fieldref_info r \<Rightarrow> keep_opcode opc (resolve_field_insn L loader opc r) | _ \<Rightarrow> bad_union)
     else if opc \<in> set branch_ops then (case info insn of Branch_info t \<Rightarrow> ret (opc, I_target (short_nat t)) | _ \<Rightarrow> bad_union)
     else if opc = JC_iinc then (case info insn of Iinc_info k v \<Rightarrow> ret (opc, I_iinc (unat k) (scast v)) | _ \<Rightarrow> bad_union)
     else if opc = JC_invokeinterface \<or> opc \<in> set invoke_ops then (case info insn of Invoke_info r \<Rightarrow> resolve_invoke L loader cls opc r | _ \<Rightarrow> bad_union)
     else if opc = JC_ldc then (case info insn of Constant_info c \<Rightarrow> resolve_ldc L loader c | _ \<Rightarrow> bad_union)
     else if opc = JC_ldc2_w then (case info insn of Constant_info c \<Rightarrow> keep_opcode opc (resolve_ldc2 c) | _ \<Rightarrow> bad_union)
     else if opc = JC_lookupswitch then (case info insn of
         Lookupswitch_info l \<Rightarrow> keep_opcode opc (resolve_lookupswitch L loader l) | _ \<Rightarrow> bad_union)
     else if opc = JC_multianewarray then (case info insn of
         Multianewarray_info u nd \<Rightarrow> bindM (load_type_ref L loader u) (\<lambda>(t, r). ret (opc, I_multianewarray t (unat nd))) | _ \<Rightarrow> bad_union)
     else if opc = JC_newarray then (case info insn of
         Newarray_info k \<Rightarrow> bindM (liftM (load (ln_prim_array L) (unat k))) (\<lambda>t. ret (opc, I_type t)) | _ \<Rightarrow> bad_union)
     else if opc = JC_tableswitch then (case info insn of
         Tableswitch_info l \<Rightarrow> keep_opcode opc (resolve_tableswitch L loader l) | _ \<Rightarrow> bad_union)
     else ret (opc, I_none))"

section \<open>The method\<close>

definition resolve_trap :: "'e linker \<Rightarrow> u32 \<Rightarrow> cf_trap \<Rightarrow> ('e lstate, interp_trap) mon" where
  "resolve_trap L loader tr = bindM (case trap_type tr of None \<Rightarrow> ret null
       | Some u \<Rightarrow> bindM (load_type_ref L loader u) (\<lambda>(t, r). ret t))
     (\<lambda>t. ret \<lparr>it_start = short_nat (trap_start tr), it_end = short_nat (trap_end tr),
       it_target = short_nat (trap_target tr), it_type = t\<rparr>)"

text \<open>The first elements of an array that the count of the code says it has.\<close>

definition counted :: "nat \<Rightarrow> 'a list \<Rightarrow> failure + 'a list" where
  "counted n xs = (if n \<le> length xs then Inr (take n xs) else Inl (Fault Out_of_bounds))"

text \<open>
  From the parsed code on. The arrays for opcodes, information, traps and lines are allocated first;
  what a failure gives back is not followed here.
\<close>

definition resolve_code :: "'e linker \<Rightarrow> jmethod \<Rightarrow> cf_code \<Rightarrow> ('e lstate, icode) mon" where
  "resolve_code L meth code = (let n = unat (num_insns code) in
     bindM (type_at (ln_program L) (me_class meth)) (\<lambda>cls. let loader = ty_loader cls in
     thenM (ln_cl_alloc L loader (of_nat n))
     (thenM (ln_cl_alloc L loader (of_nat (n * 8)))
     (thenM (ln_cl_alloc L loader (of_nat (unat (num_traps code) * 12)))
     (thenM (ln_cl_alloc L loader (of_nat (unat (num_linemaps code) * 4)))
     (bindM (liftM (counted (unat (num_linemaps code)) (linemaps code))) (\<lambda>lms.
     bindM (liftM (counted (unat (num_traps code)) (traps code))) (\<lambda>trs.
     bindM (mapM (resolve_trap L loader) trs) (\<lambda>itrs.
     bindM (liftM (counted n (insns code))) (\<lambda>is.
     bindM (mapM (resolve_insn L loader cls) is) (\<lambda>ois.
       ret \<lparr>co_opcodes = map fst ois, co_info = map snd ois, co_traps = itrs,
         co_linemaps = map (\<lambda>l. (short_nat (lm_index l), unat (lm_line l))) lms,
         co_max_stack = unat (max_stack code), co_max_locals = unat (max_locals code),
         co_num_params2 = param_count meth mod 2 ^ 16\<rparr>)))))))))))"

definition resolve_bytecode :: "'e linker \<Rightarrow> jmethod \<Rightarrow> classfile \<Rightarrow> u8 list \<Rightarrow> (nat \<Rightarrow> u32 \<Rightarrow> bool) \<Rightarrow> ('e lstate, icode) mon" where
  "resolve_bytecode L meth cf bytes memok = bindM (liftM (parse_code cf bytes memok)) (resolve_code L meth)"

section \<open>What the parser gives\<close>

text \<open>Targets that are instructions\<close>

fun targets_below :: "nat \<Rightarrow> insn_info \<Rightarrow> bool" where
  "targets_below n (Branch_info t) = (unat t < n)"
| "targets_below n (Lookupswitch_info l) = (unat (lsw_default l) < n \<and> (\<forall>p \<in> set (lsw_pairs l). unat (lk_target p) < n))"
| "targets_below n (Tableswitch_info l) = (unat (tsw_default l) < n \<and> (\<forall>t \<in> set (tsw_targets l). unat t < n))"
| "targets_below n _ = True"

definition named :: "cf_insn \<Rightarrow> bool" where
  "named insn \<longleftrightarrow> info insn = No_info \<longrightarrow> bytecode_name (opcode insn) \<noteq> None"

lemma resolves_below: "resolves ls v w \<Longrightarrow> length ls < 2 ^ 31 \<Longrightarrow> unat w < length ls"
  by (auto simp: resolves_def unat_of_nat take_bit_nat_eq_self)

lemma resolved_below:
  assumes "resolved ls a b" and "length ls < 2 ^ 31"
  shows "targets_below (length ls) (info b)"
proof (cases "info a")
  case (Lookupswitch_info l)
  then obtain l' where l': "info b = Lookupswitch_info l'" "resolves ls (lsw_default l) (lsw_default l')"
    "list_all2 (\<lambda>p q. lk_match q = lk_match p \<and> resolves ls (lk_target p) (lk_target q)) (lsw_pairs l) (lsw_pairs l')"
    using assms(1) by (auto simp: resolved_def)
  then show ?thesis using assms(2) resolves_below by (force simp: list_all2_conv_all_nth in_set_conv_nth)
next
  case (Tableswitch_info l)
  then obtain l' where l': "info b = Tableswitch_info l'" "resolves ls (tsw_default l) (tsw_default l')"
    "list_all2 (resolves ls) (tsw_targets l) (tsw_targets l')"
    using assms(1) by (auto simp: resolved_def)
  then show ?thesis using assms(2) resolves_below by (force simp: list_all2_conv_all_nth in_set_conv_nth)
qed (use assms resolves_below in \<open>auto simp: resolved_def\<close>)

text \<open>An instruction without information is the one that was read.\<close>

definition keeps_name :: "u8 \<Rightarrow> cf_insn parser \<Rightarrow> bool" where
  "keeps_name op m \<longleftrightarrow> (\<forall>s insn t. m s = (Inr insn, t) \<longrightarrow> info insn = No_info \<longrightarrow> opcode insn = op)"

lemma keeps_name_bind: "(\<And>x. keeps_name op (f x)) \<Longrightarrow> keeps_name op (bindM m f)"
  by (auto simp: keeps_name_def elim!: bindM_Inr_E)

lemma keeps_name_then: "keeps_name op n \<Longrightarrow> keeps_name op (thenM m n)"
  unfolding thenM_def by (rule keeps_name_bind)

lemma keeps_name_ret: "info x = No_info \<Longrightarrow> opcode x = op \<Longrightarrow> keeps_name op (ret x)"
  "info x \<noteq> No_info \<Longrightarrow> keeps_name op (ret x)"
  by (auto simp: keeps_name_def)

lemma keeps_name_fails: "keeps_name op (fails e)"
  by (simp add: keeps_name_def)

lemma keeps_name_if: "keeps_name op m \<Longrightarrow> keeps_name op n \<Longrightarrow> keeps_name op (if b then m else n)"
  by simp

lemma keeps_name_info: "keeps_name op (ret (mk_insn op' i)) \<longleftrightarrow> i \<noteq> No_info \<or> op' = op"
  by (auto simp: keeps_name_def mk_insn_def)

lemma keeps_name_option: "(\<And>x. keeps_name op (f x)) \<Longrightarrow> keeps_name op n \<Longrightarrow> keeps_name op (case r of None \<Rightarrow> n | Some x \<Rightarrow> f x)"
  by (cases r) auto

lemmas keeps_name_rules = keeps_name_bind keeps_name_then keeps_name_fails keeps_name_if keeps_name_option

lemma decode_named: "keeps_name op (decode_insn ml start off op)"
  unfolding decode_insn_def decode_branch16_def decode_branch32_def decode_iinc_def decode_invokeinterface_def decode_ldc_def
    decode_multianewarray_def decode_newarray_def decode_wide_def decode_lookupswitch_def decode_tableswitch_def Let_def
  by (simp only: keeps_name_info split_def | rule keeps_name_rules | simp)+

lemma listing_named: "listing s ml start stop p ls \<Longrightarrow> \<forall>l \<in> set ls. named (snd l)"
proof (induction rule: listing.induct)
  case (listing_insn p op k insn t ls)
  have "info insn = No_info \<Longrightarrow> opcode insn = op"
    using decode_named [of op ml start "p - start"] listing_insn.hyps(4) unfolding keeps_name_def by blast
  with listing_insn.hyps(3) listing_insn.IH show ?case by (auto simp: named_def)
qed simp

lemma resolved_shape:
  assumes "resolved ls a b" and "insn_wf ml a" and "named a"
  shows "insn_wf ml b" and "named b"
proof -
  have op: "opcode b = opcode a" using assms(1) by (simp add: resolved_def)
  have "info_fits ml (opcode b) (info b)"
  proof (cases "info a")
    case (Lookupswitch_info l)
    then obtain l' where l': "info b = Lookupswitch_info l'"
      "list_all2 (\<lambda>p q. lk_match q = lk_match p \<and> resolves ls (lk_target p) (lk_target q)) (lsw_pairs l) (lsw_pairs l')"
      using assms(1) by (auto simp: resolved_def)
    then have "map lk_match (lsw_pairs l') = map lk_match (lsw_pairs l)"
      by (auto simp: list_all2_conv_all_nth intro: nth_equalityI)
    from arg_cong [OF this, of "sorted_wrt (\<lambda>x y. jint_val x < jint_val y)"]
    have "sorted_wrt (\<lambda>a b. jint_val (lk_match a) < jint_val (lk_match b)) (lsw_pairs l')
        = sorted_wrt (\<lambda>a b. jint_val (lk_match a) < jint_val (lk_match b)) (lsw_pairs l)"
      unfolding sorted_wrt_map .
    with Lookupswitch_info l' op assms(2) show ?thesis by (simp add: insn_wf_def)
  next
    case (Tableswitch_info l)
    then obtain l' where "info b = Tableswitch_info l'" "tsw_low l' = tsw_low l" "tsw_high l' = tsw_high l"
      "list_all2 (resolves ls) (tsw_targets l) (tsw_targets l')"
      using assms(1) by (auto simp: resolved_def)
    with Tableswitch_info op assms(2) show ?thesis by (auto simp: insn_wf_def dest: list_all2_lengthD)
  qed (use assms(1,2) op in \<open>auto simp: resolved_def insn_wf_def\<close>)
  then show "insn_wf ml b" using assms(2) op by (simp add: insn_wf_def)
  show "named b" using assms(1,3) op by (auto simp: named_def resolved_def split: insn_info.splits)
qed

lemma parse_code_linemaps: "parse_code cf bytes memok = Inr code \<Longrightarrow> num_linemaps code = of_nat (length (linemaps code))"
  unfolding parse_code_def
  by (cases "parse_code_body (code_state cf bytes memok)")
    (auto simp: parse_code_body_def elim!: bindM_Inr_E thenM_Inr_E split: if_splits prod.splits)

lemma parse_code_insns:
  assumes "parse_code cf bytes memok = Inr code" and "cpool_typed all_tags cf" and "length bytes < 2 ^ 31"
  shows "unat (num_insns code) \<le> length (insns code)"
    and "\<forall>x \<in> set (take (unat (num_insns code)) (insns code)).
      insn_wf (max_locals code) x \<and> named x \<and> targets_below (unat (num_insns code)) (info x)"
    and "length (traps code) = unat (num_traps code)" and "unat (num_linemaps code) \<le> length (linemaps code)"
    and "\<forall>tr \<in> set (traps code). trap_wf (num_insns code) tr"
proof -
  obtain s omap t ls v where ls: "listing s (max_locals code) 8 (8 + code_length_of bytes) 8 ls" "unat (num_insns code) = length ls"
      "length ls < 2 ^ 31" "offset_map_of ls omap" "\<forall>l \<in> set ls. insn_wf (max_locals code) (snd l)"
      "list_all2 (resolved ls) (map snd ls) (take (length ls) (insns code))"
    and tb: "parse_code_tables (code_length_of bytes) omap (num_insns code) t = (Inr (num_traps code, traps code, linemaps code), v)"
    by (rule parse_code_parts [OF assms]) (rule that; assumption)
  have len: "length (take (length ls) (insns code)) = length ls" using list_all2_lengthD [OF ls(6)] by simp
  then show "unat (num_insns code) \<le> length (insns code)" using ls(2) by simp
  show "\<forall>x \<in> set (take (unat (num_insns code)) (insns code)).
      insn_wf (max_locals code) x \<and> named x \<and> targets_below (unat (num_insns code)) (info x)"
  proof
    fix x assume "x \<in> set (take (unat (num_insns code)) (insns code))"
    then obtain j where j: "j < length ls" "x = take (length ls) (insns code) ! j"
      using len by (auto simp: ls(2) in_set_conv_nth)
    have "resolved ls (snd (ls ! j)) x" using list_all2_nthD2 [OF ls(6), of j] j len by simp
    moreover have "ls ! j \<in> set ls" using j(1) by simp
    ultimately show "insn_wf (max_locals code) x \<and> named x \<and> targets_below (unat (num_insns code)) (info x)"
      using resolved_shape [of ls "snd (ls ! j)" x "max_locals code"] resolved_below [of ls "snd (ls ! j)" x] ls(2,3,5) listing_named [OF ls(1)]
      by simp
  qed
  from tb obtain s1 t1 :: parse_state where
    tr: "repeatM (unat (num_traps code)) (parse_trap (code_length_of bytes) omap (num_insns code)) s1 = (Inr (traps code), t1)"
    unfolding parse_code_tables_def by (auto elim!: bindM_Inr_E thenM_Inr_E split: if_splits)
  show "length (traps code) = unat (num_traps code)" by (rule repeatM_length [OF tr])
  show "\<forall>tr \<in> set (traps code). trap_wf (num_insns code) tr"
    by (rule repeatM_all [OF _ tr]) (rule parse_trap_wf [OF ls(4,2,3)])
  have "unat (of_nat k :: u16) \<le> k" for k by (simp add: unat_of_nat)
  then show "unat (num_linemaps code) \<le> length (linemaps code)" by (simp add: parse_code_linemaps [OF assms(1)])
qed

section \<open>References stay sorted\<close>

lemma add_ref_pos_finds:
  "i + lim \<le> length refs \<Longrightarrow> sorted_wrt (<) refs \<Longrightarrow> (\<forall>x \<in> set (take i refs). x < ref) \<Longrightarrow> (\<forall>x \<in> set (drop (i + lim) refs). ref < x) \<Longrightarrow>
   (\<exists>pos. add_ref_pos ref refs i lim = Inr pos \<and> (case pos of
      None \<Rightarrow> ref \<in> set refs
    | Some k \<Rightarrow> k \<le> length refs \<and> (\<forall>x \<in> set (take k refs). x < ref) \<and> (\<forall>x \<in> set (drop k refs). ref < x)))"
proof (induction ref refs i lim rule: add_ref_pos.induct)
  case (1 ref refs i lim)
  show ?case
  proof (cases "lim = 0")
    case True
    with 1 show ?thesis by (simp add: add_ref_pos.simps)
  next
    case False
    define j where "j = i + lim div 2"
    have j: "j < length refs" using False 1(3) by (simp add: j_def)
    have step: "add_ref_pos ref refs i lim = (if ref = refs ! j then Inr None
        else if refs ! j < ref then add_ref_pos ref refs (j + 1) ((lim - 1) div 2) else add_ref_pos ref refs i (lim div 2))"
      using False j by (subst add_ref_pos.simps) (simp add: j_def)
    have ld: "load refs (i + lim div 2) = Inr (refs ! j)" using j by (simp add: j_def)
    consider (hit) "ref = refs ! j" | (up) "refs ! j < ref" | (down) "ref < refs ! j" by force
    then show ?thesis
    proof cases
      case hit
      with step j show ?thesis by simp
    next
      case up
      have below: "\<forall>x \<in> set (take (j + 1) refs). x < ref"
      proof
        fix x assume "x \<in> set (take (j + 1) refs)"
        then obtain k where k: "k \<le> j" "x = refs ! k" using j by (auto simp: in_set_conv_nth less_Suc_eq_le)
        then have "x \<le> refs ! j" using sorted_wrt_nth_less [OF 1(4), of k j] j by (cases "k = j") auto
        with up show "x < ref" by simp
      qed
      have e2: "j + 1 + (lim - 1) div 2 = i + lim" using False unfolding j_def by presburger
      have "ref \<noteq> refs ! j" using up by auto
      then have "\<exists>pos. add_ref_pos ref refs (j + 1) ((lim - 1) div 2) = Inr pos \<and> (case pos of
          None \<Rightarrow> ref \<in> set refs
        | Some k \<Rightarrow> k \<le> length refs \<and> (\<forall>x \<in> set (take k refs). x < ref) \<and> (\<forall>x \<in> set (drop k refs). ref < x))"
        using 1(3,4,6) below by (intro 1(1) [OF False ld, folded j_def] up) (simp_all only: e2 not_False_eq_True)
      then show ?thesis using up step \<open>ref \<noteq> refs ! j\<close> by simp
    next
      case down
      have above: "\<forall>x \<in> set (drop (i + lim div 2) refs). ref < x"
      proof
        fix x assume "x \<in> set (drop (i + lim div 2) refs)"
        then have "x \<in> set (drop j refs)" by (simp add: j_def)
        then obtain q where "q < length refs - j" "x = refs ! (j + q)" by (auto simp: in_set_conv_nth)
        then obtain k where k: "j \<le> k" "k < length refs" "x = refs ! k" by (intro that [of "j + q"]) simp_all
        then have "refs ! j \<le> x" using sorted_wrt_nth_less [OF 1(4), of j k] by (cases "k = j") auto
        with down show "ref < x" by simp
      qed
      have "\<not> refs ! j < ref" "ref \<noteq> refs ! j" using down by auto
      then show ?thesis using 1(2) [OF False ld] step above 1(3,4,5) False by simp
    qed
  qed
qed

definition refs_sorted :: "'e lstate \<Rightarrow> bool" where
  "refs_sorted s \<longleftrightarrow> sorted_wrt (<) (l_refs s)"

text \<open>Memory and the types that are loaded leave the list of references alone, and fail with an exception.\<close>

definition grants :: "('e lstate, 'a) mon \<Rightarrow> ('a \<Rightarrow> bool) \<Rightarrow> bool" where
  "grants m Q \<longleftrightarrow> (\<forall>s. leads m s (\<lambda>x t. Q x \<and> l_refs t = l_refs s))"

lemma add_ref_run:
  assumes vm: "\<And>n. grants (ln_vm_alloc L n) (\<lambda>_. True)" and s: "refs_sorted s"
  shows "leads (resolve_add_ref L ref) s (\<lambda>_ t. refs_sorted t \<and> set (l_refs t) = set (l_refs s) \<union> ({ref} - {null}))"
proof (cases "ref = null")
  case False
  let ?r = "l_refs s"
  obtain pos where pos: "add_ref_pos ref ?r 0 (length ?r) = Inr pos" "case pos of
      None \<Rightarrow> ref \<in> set ?r
    | Some k \<Rightarrow> k \<le> length ?r \<and> (\<forall>x \<in> set (take k ?r). x < ref) \<and> (\<forall>x \<in> set (drop k ?r). ref < x)"
    using add_ref_pos_finds [of 0 "length ?r" ?r ref] s by (auto simp: refs_sorted_def)
  show ?thesis
  proof (cases pos)
    case None
    with pos s False show ?thesis by (auto simp: resolve_add_ref_def leads_def)
  next
    case (Some k)
    have grow: "leads (grow_refs L) s (\<lambda>_ t. l_refs t = ?r)"
    proof -
      have "leads (ln_vm_alloc L n) s (\<lambda>_ t. l_refs t = ?r)" for n
        using vm [of n] by (auto simp: grants_def)
      then have "leads (thenM (ln_vm_alloc L n) (modify (\<lambda>s. s\<lparr>l_room := k\<rparr>))) s (\<lambda>_ t. l_refs t = ?r)" for n k
        by (rule leads_then) (simp add: leads_def)
      then show ?thesis by (simp add: grow_refs_def leads_def split: if_splits)
    qed
    let ?new = "take k ?r @ [ref] @ drop k ?r"
    have k: "k \<le> length ?r" "\<forall>x \<in> set (take k ?r). x < ref" "\<forall>x \<in> set (drop k ?r). ref < x" using pos(2) Some by simp_all
    have "sorted_wrt (<) (take k ?r)" "sorted_wrt (<) (drop k ?r)"
      using s by (simp_all add: refs_sorted_def sorted_wrt_take sorted_wrt_drop)
    then have sorted: "sorted_wrt (<) ?new" using k(2,3) by (auto simp: sorted_wrt_append dest: order.strict_trans)
    have "set ?r = set (take k ?r) \<union> set (drop k ?r)" by (metis append_take_drop_id set_append)
    then have set: "set ?new = insert ref (set ?r)" by simp
    have "leads (thenM (grow_refs L) (modify (\<lambda>s. s\<lparr>l_refs := take k (l_refs s) @ [ref] @ drop k (l_refs s)\<rparr>))) s
        (\<lambda>_ t. l_refs t = ?new)"
      by (rule leads_then [OF grow]) (simp add: leads_def)
    then have "leads (resolve_add_ref L ref) s (\<lambda>_ t. l_refs t = ?new)"
      using False pos(1) Some by (simp add: resolve_add_ref_def leads_def)
    then show ?thesis by (rule leads_weaken) (use sorted set False in \<open>auto simp: refs_sorted_def\<close>)
  qed
qed (use s in \<open>simp add: resolve_add_ref_def leads_def\<close>)

end
