(* ===== verification/Resolve_Safe.thy ===== *)
theory Resolve_Safe
  imports Resolve_Code
begin

text \<open>
  What the resolution of bytecode gives the interpreter: every instruction has the information that its
  opcode needs, its jumps stay inside the code, and nothing is accessed that is not there.
\<close>

section \<open>What is asked of the program and the services\<close>

definition linker_ok :: "'e linker \<Rightarrow> (u32 \<Rightarrow> nat) \<Rightarrow> bool" where
  "linker_ok L rank \<longleftrightarrow> field_lookups_ok L rank
     \<and> (\<forall>loader name. grants (ln_load_type L loader name) (\<lambda>t. t \<in> dom (pr_types (ln_program L))))
     \<and> (\<forall>loader n. grants (ln_cl_alloc L loader n) (\<lambda>_. True)) \<and> (\<forall>n. grants (ln_vm_alloc L n) (\<lambda>_. True))
     \<and> (\<forall>m x. pr_methods (ln_program L) m = Some x \<longrightarrow> me_num_parameters x < length (me_param_ptypes x)
          \<and> param_count x + 1 < 2 ^ 16 \<and> me_class x \<in> dom (pr_types (ln_program L)))
     \<and> unat JC_TYPE_DOUBLE < length (ln_prim_array L)"

text \<open>Resolving one thing: no fault, and the references stay sorted.\<close>

definition resolves_to :: "('e lstate, 'a) mon \<Rightarrow> ('a \<Rightarrow> bool) \<Rightarrow> bool" where
  "resolves_to m Q \<longleftrightarrow> (\<forall>s. refs_sorted s \<longrightarrow> leads m s (\<lambda>x t. Q x \<and> refs_sorted t))"

named_theorems link_rules

lemma link_bind [link_rules]: "resolves_to m R \<Longrightarrow> (\<And>x. R x \<Longrightarrow> resolves_to (f x) Q) \<Longrightarrow> resolves_to (bindM m f) Q"
  by (auto simp: resolves_to_def intro: leads_bind)

lemma link_then [link_rules]: "resolves_to m (\<lambda>_. True) \<Longrightarrow> resolves_to n Q \<Longrightarrow> resolves_to (thenM m n) Q"
  unfolding thenM_def by (rule link_bind)

lemma link_ret: "Q x \<Longrightarrow> resolves_to (ret x) Q"
  by (simp add: resolves_to_def leads_def)

lemma link_fails [link_rules]: "resolves_to (fails (Exn e)) Q"
  by (simp add: resolves_to_def leads_def)

lemma link_if: "(b \<Longrightarrow> resolves_to m Q) \<Longrightarrow> (\<not> b \<Longrightarrow> resolves_to n Q) \<Longrightarrow> resolves_to (if b then m else n) Q"
  by simp

lemma link_grants:
  fixes m :: "('e lstate, 'a) mon"
  shows "grants m Q \<Longrightarrow> resolves_to m Q"
  unfolding resolves_to_def grants_def refs_sorted_def
proof (intro allI impI)
  fix s :: "'e lstate"
  assume m: "\<forall>s. leads m s (\<lambda>x t. Q x \<and> l_refs t = l_refs s)" and s: "sorted_wrt (<) (l_refs s)"
  show "leads m s (\<lambda>x t. Q x \<and> sorted_wrt (<) (l_refs t))"
    by (rule leads_weaken [OF m [rule_format]]) (simp add: s)
qed

lemma link_weaken: "resolves_to m R \<Longrightarrow> (\<And>x. R x \<Longrightarrow> Q x) \<Longrightarrow> resolves_to m Q"
  by (auto simp: resolves_to_def elim!: leads_weaken)

lemma link_pure: "(\<And>s. \<exists>x. m s = (Inr x, s) \<and> Q x) \<Longrightarrow> resolves_to m Q"
proof -
  assume m: "\<And>s. \<exists>x. m s = (Inr x, s) \<and> Q x"
  have "leads m s (\<lambda>x t. Q x \<and> refs_sorted t)" if "refs_sorted s" for s using m [of s] that by (auto simp: leads_def)
  then show ?thesis by (simp add: resolves_to_def)
qed

lemma link_lift: "r = Inr x \<Longrightarrow> Q x \<Longrightarrow> resolves_to (liftM r) Q"
  by (rule link_pure) simp

lemma link_mapM: "(\<And>x. x \<in> set xs \<Longrightarrow> resolves_to (f x) Q) \<Longrightarrow> resolves_to (mapM f xs) (\<lambda>ys. length ys = length xs \<and> (\<forall>y \<in> set ys. Q y))"
proof (induction xs)
  case (Cons x xs)
  then show ?case by (auto intro!: link_bind [where R = Q] link_bind [OF Cons.IH] link_ret)
qed (simp add: link_ret)

lemma link_type_at: "t \<in> dom (pr_types P) \<Longrightarrow> resolves_to (type_at P t) (\<lambda>r. pr_types P t = Some r)"
  by (rule link_pure) (auto simp: type_at_def)

lemma link_method_at: "m \<in> dom (pr_methods P) \<Longrightarrow> resolves_to (method_at P m) (\<lambda>x. pr_methods P m = Some x)"
  by (rule link_pure) (auto simp: method_at_def)

section \<open>The information of an instruction\<close>

text \<open>
  The instruction has the information that its opcode needs and jumps to instructions only, up to the
  subroutines, to the switches whose range does not fit an \<open>int\<close>, and to the opcode that the virtual
  machine has for itself, which the parser accepts in class files.
\<close>

definition informed :: "program \<Rightarrow> nat \<Rightarrow> nat \<Rightarrow> u8 \<times> iinfo \<Rightarrow> bool" where
  "informed P locals n oi \<longleftrightarrow> fst oi \<in> {JC_jsr, JC_ret} \<or> oi = (JC_ldc_string, I_none)
     \<or> (\<exists>sw. snd oi = I_tableswitch sw \<and> 2 ^ 31 \<le> sint (tw_high sw) - sint (tw_low sw) + 1)
     \<or> (\<exists>a b falls ts. insn_effect P UNIV locals (fst oi) (snd oi) = Some (a, b, falls, ts) \<and> (\<forall>t \<in> set ts. t < n))"

lemma informedI:
  "(case insn_effect P UNIV locals opc i of None \<Rightarrow> False | Some (a, b, falls, ts) \<Rightarrow> \<forall>t \<in> set ts. t < n) \<Longrightarrow> informed P locals n (opc, i)"
  by (auto simp: informed_def split: option.splits)

definition other_codes :: "u8 list" where
  "other_codes = [JC_bipush, JC_sipush, JC_iinc, JC_invokeinterface, JC_ldc, JC_ldc2_w, JC_ldc_string, JC_lookupswitch, JC_multianewarray,
     JC_newarray, JC_tableswitch]"

lemma no_plain_effect:
  "list_all (\<lambda>op. map_of plain_effects op = None \<and> map_of leave_effects op = None)
     (local_ops @ type_ops @ field_ops @ branch_ops @ invoke_ops @ other_codes)"
  by code_simp

lemma grouped_effects:
  "list_all (\<lambda>op. op = JC_ret \<or> (case map_of local_effects op of Some (w, _) \<Rightarrow> w \<le> 2 | None \<Rightarrow> False)) local_ops"
  "list_all (\<lambda>op. op = JC_goto \<or> op = JC_jsr \<or> map_of branch_effects op \<noteq> None) branch_ops"
  "list_all (\<lambda>op. map_of type_effects op \<noteq> None) (JC_newarray # type_ops)"
  "list_all (\<lambda>(_, op, _). op = JC_ldc \<or> op = JC_ldc2_w) constant_ops"
  by code_simp+

text \<open>Every opcode with a name is one that the parser replaces or is known here; compared as integers.\<close>

definition rewritten_codes :: "u8 list" where
  "rewritten_codes = [JC_goto_w, JC_jsr_w, JC_ldc_w, JC_wide] @ map of_nat [26..<46] @ map of_nat [59..<79]"

definition known_codes :: "u8 list" where
  "known_codes = local_ops @ type_ops @ field_ops @ branch_ops @ invoke_ops @ other_codes @ map fst constant_ops @ map fst plain_effects
     @ map fst leave_effects @ rewritten_codes"

definition all_in :: "int list \<Rightarrow> int list \<Rightarrow> bool" where
  "all_in xs ys \<longleftrightarrow> list_all (\<lambda>i. i \<in> set ys) xs"

lemma names_known: "all_in (map (\<lambda>p. uint (fst p)) (bytecode_names_a_i @ bytecode_names_i_w)) (map uint known_codes)"
  by code_simp

lemma rewritten_codes: "list_all rewritten_op rewritten_codes"
  by code_simp

lemma named_effects:
  assumes "bytecode_name op \<noteq> None"
  shows "rewritten_op op \<or> op \<in> set (local_ops @ type_ops @ field_ops @ branch_ops @ invoke_ops @ other_codes)
     \<or> map_of constant_ops op \<noteq> None \<or> map_of plain_effects op \<noteq> None \<or> map_of leave_effects op \<noteq> None"
proof -
  from assms have "op \<in> fst ` set (bytecode_names_a_i @ bytecode_names_i_w)"
    unfolding bytecode_name_def by (simp add: map_of_eq_None_iff image_Un)
  then have "uint op \<in> uint ` set known_codes"
    using names_known by (auto simp: all_in_def list_all_iff)
  then have "op \<in> set known_codes" by (auto simp flip: word_uint_eq_iff)
  then show ?thesis using rewritten_codes by (auto simp: known_codes_def list_all_iff map_of_eq_None_iff)
qed

lemma disjoint_groups:
  "list_all (\<lambda>op. map_of constant_ops op = None) (local_ops @ type_ops @ field_ops @ branch_ops @ invoke_ops @ other_codes)"
  "distinct (local_ops @ type_ops @ field_ops @ branch_ops @ invoke_ops @ other_codes)"
  by code_simp+

lemma effect_plain: "op \<in> set (local_ops @ type_ops @ field_ops @ branch_ops @ invoke_ops @ other_codes) \<Longrightarrow>
    map_of plain_effects op = None \<and> map_of leave_effects op = None"
  using no_plain_effect by (simp add: list_all_iff)

lemma informed_local:
  assumes "op \<in> set local_ops" and "k < locals - 1"
  shows "informed P locals n (op, I_local k)"
proof (cases "op = JC_ret")
  case False
  then obtain w a b where w: "map_of local_effects op = Some (w, a, b)" "w \<le> 2"
    using grouped_effects(1) assms(1) by (auto simp: list_all_iff split: option.splits)
  have "k + w \<le> locals" using w(2) assms(2) by simp
  then show ?thesis using w effect_plain [of op] assms(1) by (intro informedI) (simp_all add: insn_effect_def)
qed (simp add: informed_def)

lemma informed_branch:
  assumes "op \<in> set branch_ops" and "t < n"
  shows "informed P locals n (op, I_target t)"
proof (cases "op = JC_jsr")
  case False
  have p: "map_of plain_effects op = None" "map_of leave_effects op = None" using effect_plain [of op] assms(1) by simp_all
  show ?thesis
  proof (cases "op = JC_goto")
    case True
    then show ?thesis using p assms(2) by (intro informedI) (simp_all add: insn_effect_def)
  next
    case False': False
    then obtain a where "map_of branch_effects op = Some a"
      using grouped_effects(2) assms(1) False by (auto simp: list_all_iff)
    then show ?thesis using p assms(2) False' by (intro informedI) (simp_all add: insn_effect_def)
  qed
qed (simp add: informed_def)

lemma informed_type:
  assumes "op \<in> set (JC_newarray # type_ops)"
  shows "informed P locals n (op, I_type t)"
proof -
  obtain e where "map_of type_effects op = Some e" using grouped_effects(3) assms by (auto simp: list_all_iff)
  moreover have "map_of plain_effects op = None" "map_of leave_effects op = None"
    using effect_plain [of op] assms by (auto simp: other_codes_def)
  ultimately show ?thesis by (intro informedI) (simp_all add: insn_effect_def split_def)
qed

lemma informed_others:
  "op = JC_ldc \<or> op = JC_ldc2_w \<Longrightarrow> informed P locals n (op, I_constant v)"
  "informed P locals n (JC_ldc_string, I_utf8 u)"
  "k < locals \<Longrightarrow> informed P locals n (JC_iinc, I_iinc k j)"
  "informed P locals n (JC_multianewarray, I_multianewarray t k)"
  "sw_default sw < n \<Longrightarrow> \<forall>p \<in> set (sw_pairs sw). snd p < n \<Longrightarrow> informed P locals n (JC_lookupswitch, I_lookupswitch sw)"
  "op \<in> set field_ops \<Longrightarrow> f \<in> dom (pr_fields P) \<Longrightarrow> informed P locals n (op, I_field f)"
  using effect_plain [of JC_ldc] effect_plain [of JC_ldc2_w] effect_plain [of JC_ldc_string] effect_plain [of JC_iinc]
    effect_plain [of JC_multianewarray] effect_plain [of JC_lookupswitch] effect_plain [of op]
  by (auto simp: insn_effect_def field_effect_def field_ops_def other_codes_def Let_def intro!: informedI split: if_splits)

lemma informed_tableswitch:
  assumes "tw_default sw < n" and "\<forall>t \<in> set (tw_targets sw). t < n"
    and "2 ^ 31 \<le> sint (tw_high sw) - sint (tw_low sw) + 1 \<or> int (length (tw_targets sw)) = sint (tw_high sw) - sint (tw_low sw) + 1"
  shows "informed P locals n (JC_tableswitch, I_tableswitch sw)"
proof (cases "2 ^ 31 \<le> sint (tw_high sw) - sint (tw_low sw) + 1")
  case False
  with assms(3) have "int (length (tw_targets sw)) = sint (tw_high sw) - sint (tw_low sw) + 1" "length (tw_targets sw) < 2 ^ 31"
    by auto
  then show ?thesis using assms(1,2) effect_plain [of JC_tableswitch]
    by (intro informedI) (simp_all add: insn_effect_def other_codes_def)
qed (auto simp: informed_def)

section \<open>Each kind of instruction\<close>

lemma link_add_loader_ref:
  assumes "linker_ok L rank"
  shows "resolves_to (resolve_add_loader_ref L own loader) (\<lambda>_. True)"
proof -
  have vm: "grants (ln_vm_alloc L n) (\<lambda>_. True)" for n using assms by (simp add: linker_ok_def)
  have "resolves_to (resolve_add_ref L ref) (\<lambda>_. True)" for ref
    unfolding resolves_to_def
    by (intro allI impI, rule leads_weaken [OF add_ref_run [OF vm]], assumption) simp
  then show ?thesis by (simp add: resolve_add_loader_ref_def link_ret)
qed

lemma linker_facts:
  assumes "linker_ok L rank"
  shows "field_lookups_ok L rank" "lookups_ok (ln_program L) rank"
    "resolves_to (ln_load_type L loader name) (\<lambda>t. t \<in> dom (pr_types (ln_program L)))"
    "resolves_to (ln_cl_alloc L loader n) (\<lambda>_. True)" "resolves_to (ln_vm_alloc L n) (\<lambda>_. True)"
  using assms by (auto simp: linker_ok_def field_lookups_ok_def intro: link_grants)

lemma link_load_type:
  assumes "linker_ok L rank"
  shows "resolves_to (load_type_ref L loader name) (\<lambda>(t, r). pr_types (ln_program L) t = Some r)"
  unfolding load_type_ref_def
  by (rule link_bind [OF linker_facts(3) [OF assms]], rule link_bind, erule link_type_at, rule link_then [OF link_add_loader_ref [OF assms]])
    (simp add: link_ret)

lemma link_type_insn:
  assumes "linker_ok L rank" and "op \<in> set type_ops"
  shows "resolves_to (resolve_type_insn L loader op u) (\<lambda>i. informed P locals n (op, i))"
  unfolding resolve_type_insn_def using assms(2)
  by (auto intro!: link_if link_then [OF linker_facts(5) [OF assms(1)]] link_bind [OF link_load_type [OF assms(1)]] link_ret informed_type)

lemma link_field_insn:
  assumes ok: "linker_ok L rank" and "op \<in> set field_ops"
  shows "resolves_to (resolve_field_insn L loader op ref) (\<lambda>i. informed (ln_program L) locals n (op, i))"
proof -
  note l = linker_facts(1,2) [OF ok]
  let ?F = "resolve_field (chain_fuel (ln_program L)) L (ref_name ref) (ref_descriptor ref) (op = JC_getstatic \<or> op = JC_putstatic)"
  have find: "resolves_to (?F t) (\<lambda>f. \<forall>a. f = Some a \<longrightarrow> a \<in> dom (pr_fields (ln_program L)))"
    if t: "pr_types (ln_program L) t = Some r" for t r
  proof (rule link_pure)
    fix s
    have "rank t < chain_fuel (ln_program L)" using type_facts(3) [OF l(2) t] by (simp add: chain_fuel_def)
    then show "\<exists>f. ?F t s = (Inr f, s) \<and> (\<forall>a. f = Some a \<longrightarrow> a \<in> dom (pr_fields (ln_program L)))"
      by (rule resolve_field_in [OF l(1) t])
  qed
  show ?thesis
    unfolding resolve_field_insn_def
    by (auto intro!: link_bind [OF link_load_type [OF ok]] link_bind [OF find] link_ret link_fails informed_others(6) assms(2) split: option.splits)
qed

lemma method_words_count: "method_words x = param_count x" if "me_num_parameters x \<le> length (me_param_ptypes x)"
proof -
  have "sum_list (map param_words ts) = length ts + length (filter dword_type ts)" for ts
    by (induction ts) (auto simp: param_words_def)
  then show ?thesis using that by (simp add: method_words_def param_count_def)
qed

lemma link_lookupswitch:
  assumes ok: "linker_ok L rank" and "unat (lsw_default l) < n" and "\<forall>p \<in> set (lsw_pairs l). unat (lk_target p) < n" and "n \<le> 2 ^ 16"
  shows "resolves_to (resolve_lookupswitch L loader l) (\<lambda>i. informed P locals n (JC_lookupswitch, i))"
proof -
  have small: "short_nat v = unat v" if "unat v < n" for v :: u32
    using that assms(4) by (simp add: short_nat_def unsigned_ucast_eq take_bit_nat_eq_self)
  have "short_nat (lk_target p) < n" if "p \<in> set (take k (lsw_pairs l))" for p k
    using in_set_takeD [OF that] assms(3) small by simp
  then show ?thesis
    unfolding resolve_lookupswitch_def using assms(2)
    by (auto intro!: link_then [OF linker_facts(4) [OF ok]] link_ret informed_others(5) simp: small)
qed

lemma link_tableswitch:
  assumes ok: "linker_ok L rank" and "unat (tsw_default l) < n" and "\<forall>t \<in> set (tsw_targets l). unat t < n" and "n \<le> 2 ^ 16"
    and fits: "jint_val (tsw_low l) \<le> jint_val (tsw_high l)"
      "length (tsw_targets l) = nat (jint_val (num_targets (tsw_low l) (tsw_high l)))"
  shows "resolves_to (resolve_tableswitch L loader l) (\<lambda>i. informed P locals n (JC_tableswitch, i))"
proof -
  have small: "short_nat v = unat v" if "unat v < n" for v :: u32
    using that assms(4) by (simp add: short_nat_def unsigned_ucast_eq take_bit_nat_eq_self)
  have count: "2 ^ 31 \<le> sint (tsw_high l) - sint (tsw_low l) + 1
      \<or> sint (num_targets (tsw_low l) (tsw_high l)) = sint (tsw_high l) - sint (tsw_low l) + 1"
  proof (cases "2 ^ 31 \<le> sint (tsw_high l) - sint (tsw_low l) + 1")
    case False
    have "sint (tsw_high l - tsw_low l) = sint (tsw_high l) - sint (tsw_low l)"
      unfolding sint_word_ariths using fits(1) False by (intro signed_take_bit_int_eq_self) simp_all
    then have "sint (num_targets (tsw_low l) (tsw_high l)) = sint (tsw_high l) - sint (tsw_low l) + 1"
      unfolding num_targets_def sint_word_ariths(1) using fits(1) False by (subst signed_take_bit_int_eq_self) simp_all
    then show ?thesis by simp
  qed simp
  let ?sw = "\<lparr>tw_low = tsw_low l, tw_high = tsw_high l, tw_default = short_nat (tsw_default l), tw_targets = map short_nat (tsw_targets l)\<rparr>"
  have "informed P locals n (JC_tableswitch, I_tableswitch ?sw)"
    using assms(2,3) count fits by (intro informed_tableswitch) (auto simp: small)
  then show ?thesis
    by (auto simp: resolve_tableswitch_def Let_def fits(2) thenM_def intro!: link_bind [OF linker_facts(4) [OF ok]] link_ret)
qed

section \<open>Invocations\<close>

lemma above_run:
  assumes ok: "lookups_ok P rank"
  shows "enough P rank n t \<Longrightarrow> \<exists>b. has_super n P t u s = (Inr b, s)"
proof (induction n arbitrary: t)
  case (Suc n)
  show ?case
  proof (cases "t = u \<or> t = null")
    case False
    with Suc.prems obtain r where r: "pr_types P t = Some r" by (auto simp: enough_def)
    with False Suc.IH [OF enough_super [OF ok Suc.prems r]] show ?thesis by (auto simp: type_at_def)
  qed auto
qed (simp add: enough_def)

text \<open>The method is found in a superclass and is no static one.\<close>

definition instance_method :: "program \<Rightarrow> u32 \<Rightarrow> bool" where
  "instance_method P m \<longleftrightarrow> (\<exists>x. pr_methods P m = Some x \<and> \<not> acc_test (me_access x) ACC_STATIC)"

lemma instance_method_above_run:
  assumes ok: "lookups_ok P rank"
  shows "enough P rank n t \<Longrightarrow> \<exists>res. instance_method_above n P name sig t s = (Inr res, s) \<and> (\<forall>m. res = Some m \<longrightarrow> instance_method P m)"
proof (induction n arbitrary: t)
  case (Suc n)
  show ?case
  proof (cases "t = null")
    case False
    with Suc.prems obtain r where r: "pr_types P t = Some r" by (auto simp: enough_def)
    obtain res where res: "declared_method P t name sig ACC_STATIC 0 s = (Inr res, s)" "case res of
        Some m \<Rightarrow> declares P (l_flags s) name sig t m \<and> me_access (the (pr_methods P m)) AND ACC_STATIC = 0 | None \<Rightarrow> True"
      using declared_method_run [OF type_facts(2) [OF ok r] r, of name sig ACC_STATIC 0 s] by (auto split: option.splits)
    show ?thesis
    proof (cases res)
      case (Some m)
      with res have "instance_method P m" by (auto simp: instance_method_def declares_def acc_test_def)
      with Some res False show ?thesis by auto
    next
      case None
      then have "instance_method_above (Suc n) P name sig t s = instance_method_above n P name sig (ty_superclass r) s"
        using False res(1) r by (simp add: type_at_def)
      then show ?thesis using Suc.IH [OF enough_super [OF ok Suc.prems r]] by simp
    qed
  qed simp
qed (simp add: enough_def)

lemma superclass_enough:
  assumes "lookups_ok P rank" and "pr_types P c = Some cls"
  shows "enough P rank (chain_fuel P) (ty_superclass cls)"
proof -
  have "enough P rank (Suc (chain_fuel P)) c"
    using enough_depth [OF assms] by (auto simp: enough_def)
  then show ?thesis by (rule enough_super [OF assms(1) _ assms(2)])
qed

lemma link_special_method:
  assumes ok: "linker_ok L rank" and c: "pr_types (ln_program L) c = Some cls"
    and m: "pr_methods (ln_program L) m = Some im" "\<not> acc_test (me_access im) ACC_STATIC"
  shows "resolves_to (special_method L cls t m im) (instance_method (ln_program L))"
proof -
  let ?P = "ln_program L"
  have l: "lookups_ok ?P rank" by (rule linker_facts(2) [OF ok])
  have im: "instance_method ?P m" using m by (simp add: instance_method_def)
  have up: "resolves_to (has_super (chain_fuel ?P) ?P (ty_superclass cls) u) (\<lambda>_. True)" for u
    by (rule link_pure) (use above_run [OF l superclass_enough [OF l c]] in auto)
  have found: "resolves_to (instance_method_above (chain_fuel ?P) ?P name sig (ty_superclass cls)) (\<lambda>res. \<forall>m. res = Some m \<longrightarrow> instance_method ?P m)" for name sig
    by (rule link_pure) (rule instance_method_above_run [OF l superclass_enough [OF l c]])
  show ?thesis
    unfolding special_method_def Let_def
    by (intro link_if link_fails link_ret im link_bind [OF up] link_bind [OF found]) (auto intro: link_fails link_ret split: option.splits)
qed

lemma informed_invoke:
  assumes op: "op \<in> set (JC_invokeinterface # invoke_ops)" and "pr_methods P m = Some x" and "me_num_parameters x < length (me_param_ptypes x)"
    and "k = (if op = JC_invokestatic then 0 else 1) + method_words x" and "(op = JC_invokestatic) = acc_test (me_access x) ACC_STATIC"
  shows "informed P locals n (op, I_invoke m k)"
proof -
  have none: "map_of plain_effects op = None" "map_of leave_effects op = None" using effect_plain [of op] op by (auto simp: other_codes_def)
  have "op = JC_invokestatic \<or> op = JC_invokespecial \<or> op = JC_invokevirtual \<or> op = JC_invokeinterface"
    using op by (auto simp: invoke_ops_def)
  then have "invoke_effect P UNIV op m k = Some (k, result_words (me_param_ptypes x ! me_num_parameters x), True, [])"
    using assms(2-5) by (simp add: invoke_effect_def)
  then show ?thesis using none by (intro informedI) (simp add: insn_effect_def)
qed

lemma link_class_at:
  assumes "linker_ok L rank" and "pr_methods (ln_program L) m = Some x"
  shows "resolves_to (type_at (ln_program L) (me_class x)) (\<lambda>_. True)"
  using assms by (intro link_weaken [OF link_type_at]) (auto simp: linker_ok_def)

text \<open>A method fits an opcode: it is static or not as the opcode says.\<close>

definition fits :: "program \<Rightarrow> u8 \<Rightarrow> u32 \<Rightarrow> bool" where
  "fits P op m \<longleftrightarrow> (\<exists>x. pr_methods P m = Some x \<and> (op = JC_invokestatic) = acc_test (me_access x) ACC_STATIC)"

lemma link_invoke_info:
  assumes ok: "linker_ok L rank" and op: "op \<in> set (JC_invokeinterface # invoke_ops)" and m: "fits (ln_program L) op m"
  shows "resolves_to (invoke_info L op m) (informed (ln_program L) locals n)"
proof -
  let ?P = "ln_program L"
  obtain x where x: "pr_methods ?P m = Some x" "(op = JC_invokestatic) = acc_test (me_access x) ACC_STATIC"
    using m by (auto simp: fits_def)
  have w: "me_num_parameters x < length (me_param_ptypes x)" "param_count x + 1 < 2 ^ 16" using ok x(1) by (auto simp: linker_ok_def)
  then have pop: "pop_words op x = (if op = JC_invokestatic then 0 else 1) + method_words x"
    by (simp add: pop_words_def method_words_count)
  have "informed ?P locals n (op', I_invoke m (pop_words op x))" if o': "op' = (if b \<and> op = JC_invokevirtual then JC_invokespecial else op)" for op' b
  proof (rule informed_invoke [OF _ x(1) w(1)])
    have same: "(op' = JC_invokestatic) = (op = JC_invokestatic)" using o' by auto
    show "op' \<in> set (JC_invokeinterface # invoke_ops)" using o' op by (auto simp: invoke_ops_def)
    show "pop_words op x = (if op' = JC_invokestatic then 0 else 1) + method_words x" using pop same by simp
    show "(op' = JC_invokestatic) = acc_test (me_access x) ACC_STATIC" using same x(2) by simp
  qed
  then show ?thesis
    unfolding invoke_info_def Let_def using x(1)
    by (auto intro!: link_bind [OF link_method_at] link_bind [OF link_class_at [OF ok]] link_ret)
qed

lemma link_invoke_method:
  assumes ok: "linker_ok L rank" and c: "pr_types (ln_program L) c = Some cls" and op: "op \<in> set (JC_invokeinterface # invoke_ops)"
    and m: "m \<in> dom (pr_methods (ln_program L))"
  shows "resolves_to (resolve_invoke_method L cls t op m) (informed (ln_program L) locals n)"
  unfolding resolve_invoke_method_def
proof (rule link_bind [OF link_method_at [OF m]], rule link_bind [OF link_class_at [OF ok]], assumption)
  fix im mr
  assume im: "pr_methods (ln_program L) m = Some im"
  let ?op = "invoke_opcode op mr"
  have o': "?op \<in> set (JC_invokeinterface # invoke_ops)" using op by (auto simp: invoke_opcode_def invoke_ops_def)
  have chosen: "resolves_to (if ?op = JC_invokespecial then special_method L cls t m im else ret m) (fits (ln_program L) ?op)"
    if "(?op = JC_invokestatic) = acc_test (me_access im) ACC_STATIC"
  proof (cases "?op = JC_invokespecial")
    case True
    then have "resolves_to (special_method L cls t m im) (instance_method (ln_program L))"
      using that by (intro link_special_method [OF ok c im]) simp
    then have "resolves_to (special_method L cls t m im) (fits (ln_program L) ?op)"
      by (rule link_weaken) (auto simp: instance_method_def fits_def True)
    then show ?thesis using True by simp
  next
    case False
    with that im show ?thesis by (simp add: link_ret fits_def)
  qed
  show "resolves_to (let opc' = ?op in
     if (opc' = JC_invokestatic) \<noteq> acc_test (me_access im) ACC_STATIC \<or> opc' \<noteq> JC_invokespecial \<and> is_special_name (me_name im)
     then fails (Exn IncompatibleClassChangeError)
     else bindM (if opc' = JC_invokespecial then special_method L cls t m im else ret m) (invoke_info L opc')) (informed (ln_program L) locals n)"
    unfolding Let_def by (intro link_if link_fails link_bind [OF chosen] link_invoke_info [OF ok o']) auto
qed

lemma link_invoke:
  assumes ok: "linker_ok L rank" and c: "pr_types (ln_program L) c = Some cls" and op: "op \<in> set (JC_invokeinterface # invoke_ops)"
  shows "resolves_to (resolve_invoke L loader cls op ref) (informed (ln_program L) locals n)"
proof -
  let ?P = "ln_program L"
  have l: "lookups_ok ?P rank" by (rule linker_facts(2) [OF ok])
  have found: "resolves_to (resolve_method (chain_fuel ?P) ?P name sig t) (\<lambda>res. \<forall>m. res = Some m \<longrightarrow> m \<in> dom (pr_methods ?P))"
    if t: "pr_types ?P t = Some r" for t r name sig
  proof (rule link_pure)
    fix s
    have "rank t < chain_fuel ?P" using type_facts(3) [OF l t] by (simp add: chain_fuel_def)
    then show "\<exists>res. resolve_method (chain_fuel ?P) ?P name sig t s = (Inr res, s) \<and> (\<forall>m. res = Some m \<longrightarrow> m \<in> dom (pr_methods ?P))"
      by (rule resolve_method_in [OF l t])
  qed
  show ?thesis
    unfolding resolve_invoke_def using op
    by - (rule link_bind [OF link_load_type [OF ok]],
        auto intro!: link_fails link_if link_bind [OF found] link_invoke_method [OF ok c] split: option.splits)
qed

section \<open>The instruction and the method\<close>

lemma not_constant: "op \<in> set (local_ops @ type_ops @ field_ops @ branch_ops @ invoke_ops @ other_codes) \<Longrightarrow> map_of constant_ops op = None"
  using disjoint_groups(1) by (simp add: list_all_iff)

lemma link_keep: "resolves_to M (\<lambda>i. Q (op, i)) \<Longrightarrow> resolves_to (keep_opcode op M) Q"
  unfolding keep_opcode_def by (rule link_bind, assumption, rule link_ret)

lemma link_ldc:
  assumes ok: "linker_ok L rank" and "const_typed c" and "const_type c \<in> ldc_tags"
  shows "resolves_to (resolve_ldc L loader c) (informed P locals n)"
proof -
  note tags = assms(3) [unfolded ldc_tags_def]
  show ?thesis
    using assms(2) tags unfolding resolve_ldc_def
    by (cases "const_val c")
      (auto simp: const_typed_def intro!: link_ret informed_others link_then [OF linker_facts(4) [OF ok]] link_bind [OF link_load_type [OF ok]])
qed

lemma link_ldc2:
  assumes "const_typed c" and "const_type c \<in> {CONSTANT_Long, CONSTANT_Double}"
  shows "resolves_to (resolve_ldc2 c) (\<lambda>i. informed P locals n (JC_ldc2_w, i))"
  using assms unfolding resolve_ldc2_def by (cases "const_val c") (auto simp: const_typed_def intro!: link_ret informed_others)

lemma groups_apart:
  "op \<in> set type_ops \<Longrightarrow> op \<notin> set local_ops"
  "op \<in> set field_ops \<Longrightarrow> op \<notin> set local_ops \<union> set type_ops"
  "op \<in> set branch_ops \<Longrightarrow> op \<notin> set local_ops \<union> set type_ops \<union> set field_ops"
  "op \<in> set invoke_ops \<Longrightarrow> op \<notin> set local_ops \<union> set type_ops \<union> set field_ops \<union> set branch_ops"
  "op \<in> set other_codes \<Longrightarrow> op \<notin> set local_ops \<union> set type_ops \<union> set field_ops \<union> set branch_ops \<union> set invoke_ops"
  using disjoint_groups(2) by (auto simp: distinct_append)

lemma not_other:
  assumes "op \<in> set (local_ops @ type_ops @ field_ops @ branch_ops @ invoke_ops)"
  shows "op \<notin> set other_codes"
  using assms disjoint_groups(2) by (auto simp: distinct_append)

lemma link_insn:
  assumes ok: "linker_ok L rank" and c: "pr_types (ln_program L) c = Some cls"
    and wf: "insn_wf ml insn" and nm: "named insn" and below: "targets_below n (info insn)" and n: "n \<le> 2 ^ 16"
  shows "resolves_to (resolve_insn L loader cls insn) (informed (ln_program L) (max (unat ml) 4 + 1) n)"
proof -
  define op where "op = opcode insn"
  have fits: "info_fits ml op (info insn)" and new: "\<not> rewritten_op op" using wf by (simp_all add: insn_wf_def op_def)
  note run = resolve_insn_def [of L loader cls insn, folded op_def, unfolded Let_def]
  have small: "short_nat v = unat v" if "unat v < n" for v :: u32
    using that n by (simp add: short_nat_def unsigned_ucast_eq take_bit_nat_eq_self)
  show ?thesis
  proof (cases "info insn")
    case (Local_info k)
    then have g: "op \<in> set local_ops" "k < ml \<or> k \<le> 3" using fits by simp_all
    then have "unat k < max (unat ml) 4 + 1 - 1" by (auto simp: word_less_nat_alt word_le_nat_alt)
    with g Local_info show ?thesis by (simp add: run not_constant link_ret informed_local)
  next
    case (Type_info u)
    then have g: "op \<in> set type_ops" using fits by simp
    then show ?thesis using groups_apart(1) [OF g] Type_info by (simp add: run not_constant link_keep link_type_insn [OF ok])
  next
    case (Immediate_info v)
    then have g: "op = JC_bipush \<or> op = JC_sipush" using fits by simp
    then have o': "op \<in> set other_codes" by (auto simp: other_codes_def)
    then show ?thesis using groups_apart(5) [OF o'] g Immediate_info by (simp add: run not_constant link_ret informed_others)
  next
    case (Fieldref_info r)
    then have g: "op \<in> set field_ops" using fits by simp
    then have "op \<noteq> JC_bipush \<and> op \<noteq> JC_sipush" using not_other [of op] by (auto simp: other_codes_def)
    then show ?thesis using groups_apart(2) [OF g] g Fieldref_info by (simp add: run not_constant link_keep link_field_insn [OF ok])
  next
    case (Branch_info t)
    then have g: "op \<in> set branch_ops" using fits by simp
    then have "op \<noteq> JC_bipush \<and> op \<noteq> JC_sipush" using not_other [of op] by (auto simp: other_codes_def)
    moreover have "unat t < n" using below Branch_info by simp
    ultimately show ?thesis using groups_apart(3) [OF g] g Branch_info
      by (simp add: run not_constant link_ret informed_branch small)
  next
    case (Iinc_info k v)
    then have g: "op = JC_iinc" "k < ml" using fits by simp_all
    then have o': "op \<in> set other_codes" by (auto simp: other_codes_def)
    have "unat k < max (unat ml) 4 + 1" using g(2) by (simp add: word_less_nat_alt)
    then show ?thesis using groups_apart(5) [OF o'] g(1) o' Iinc_info by (simp add: run not_constant link_ret informed_others)
  next
    case (Invoke_info r)
    then have g: "op \<in> set (JC_invokeinterface # invoke_ops)" using fits by auto
    have "op \<noteq> JC_bipush \<and> op \<noteq> JC_sipush \<and> op \<noteq> JC_iinc"
      using not_other [of op] g by (auto simp: other_codes_def)
    moreover have "op \<notin> set local_ops \<union> set type_ops \<union> set field_ops \<union> set branch_ops"
      using groups_apart(4,5) [of op] g by (auto simp: other_codes_def)
    moreover have "map_of constant_ops op = None" using g not_constant [of op] by (auto simp: other_codes_def)
    ultimately show ?thesis using g Invoke_info link_invoke [OF ok c g] by (auto simp: run)
  next
    case (Constant_info k)
    then have g: "const_typed k" "op = JC_ldc \<and> const_type k \<in> ldc_tags \<or> op = JC_ldc2_w \<and> const_type k \<in> {CONSTANT_Long, CONSTANT_Double}"
      using fits by simp_all
    then have o': "op \<in> set other_codes" by (auto simp: other_codes_def)
    from g(2) show ?thesis
    proof
      assume "op = JC_ldc \<and> const_type k \<in> ldc_tags"
      then show ?thesis using groups_apart(5) [OF o'] o' Constant_info link_ldc [OF ok g(1)] by (simp add: run not_constant)
    next
      assume "op = JC_ldc2_w \<and> const_type k \<in> {CONSTANT_Long, CONSTANT_Double}"
      then show ?thesis using groups_apart(5) [OF o'] o' Constant_info by (auto simp: run not_constant intro!: link_keep link_ldc2 [OF g(1)])
    qed
  next
    case (Lookupswitch_info l)
    then have g: "op = JC_lookupswitch" using fits by simp
    then have o': "op \<in> set other_codes" by (auto simp: other_codes_def)
    show ?thesis using groups_apart(5) [OF o'] g o' Lookupswitch_info below n
      by (simp add: run not_constant link_keep link_lookupswitch [OF ok])
  next
    case (Tableswitch_info l)
    then have g: "op = JC_tableswitch" "jint_val (tsw_low l) \<le> jint_val (tsw_high l)"
      "length (tsw_targets l) = nat (jint_val (num_targets (tsw_low l) (tsw_high l)))" using fits by simp_all
    then have o': "op \<in> set other_codes" by (auto simp: other_codes_def)
    show ?thesis using groups_apart(5) [OF o'] g o' Tableswitch_info below n
      by (simp add: run not_constant link_keep link_tableswitch [OF ok])
  next
    case (Multianewarray_info u d)
    then have g: "op = JC_multianewarray" using fits by simp
    then have o': "op \<in> set other_codes" by (auto simp: other_codes_def)
    show ?thesis using groups_apart(5) [OF o'] g o' Multianewarray_info
      by (auto simp: run not_constant intro!: link_bind [OF link_load_type [OF ok]] link_ret informed_others)
  next
    case (Newarray_info k)
    then have g: "op = JC_newarray" "unat k \<le> unat JC_TYPE_DOUBLE" using fits by auto
    then have o': "op \<in> set other_codes" by (auto simp: other_codes_def)
    have "unat k < length (ln_prim_array L)" using g(2) ok by (simp add: linker_ok_def)
    then show ?thesis using groups_apart(5) [OF o'] g o' Newarray_info
      by (auto simp: run not_constant intro!: link_bind [OF link_lift] link_ret informed_type)
  next
    case No_info
    then have g: "op \<notin> set (local_ops @ type_ops @ field_ops @ branch_ops @ invoke_ops)" "op \<noteq> JC_bipush" "op \<noteq> JC_sipush" "op \<noteq> JC_iinc"
      "op \<noteq> JC_invokeinterface" "op \<noteq> JC_ldc" "op \<noteq> JC_ldc2_w" "op \<noteq> JC_lookupswitch" "op \<noteq> JC_tableswitch" "op \<noteq> JC_multianewarray" "op \<noteq> JC_newarray"
      using fits by simp_all
    have name: "bytecode_name op \<noteq> None" using nm No_info by (simp add: named_def op_def)
    show ?thesis
    proof (cases "map_of constant_ops op")
      case (Some q)
      then have "fst q = JC_ldc \<or> fst q = JC_ldc2_w"
        using grouped_effects(4) by (auto simp: list_all_iff dest!: map_of_SomeD)
      with Some show ?thesis by (cases q) (auto simp: run link_ret informed_others)
    next
      case None
      have "informed (ln_program L) (max (unat ml) 4 + 1) n (op, I_none)"
      proof (cases "op = JC_ldc_string")
        case False
        with g have "op \<notin> set other_codes" by (simp add: other_codes_def)
        with named_effects [OF name] new g(1) None
        have "map_of plain_effects op \<noteq> None \<or> map_of leave_effects op \<noteq> None" by auto
        then show ?thesis by (intro informedI) (auto simp: insn_effect_def split: option.splits)
      qed (simp add: informed_def)
      with None g No_info show ?thesis by (simp add: run link_ret)
    qed
  qed
qed

text \<open>A trap covers instructions and its handler is one; its class, when it has one, is a type.\<close>

definition trap_informed :: "program \<Rightarrow> nat \<Rightarrow> interp_trap \<Rightarrow> bool" where
  "trap_informed P n t \<longleftrightarrow> it_start t < it_end t \<and> it_end t \<le> n \<and> it_target t < n \<and> (it_type t = null \<or> it_type t \<in> dom (pr_types P))"

lemma link_trap:
  assumes ok: "linker_ok L rank" and wf: "trap_wf k tr" and "unat k \<le> 2 ^ 16 - 1"
  shows "resolves_to (resolve_trap L loader tr) (trap_informed (ln_program L) (unat k))"
proof -
  have order: "unat (trap_start tr) < unat (trap_end tr)" "unat (trap_end tr) \<le> unat k" "unat (trap_target tr) < unat k"
    using wf by (simp_all add: trap_wf_def word_le_nat_alt word_less_nat_alt)
  have small: "short_nat v = unat v" if "unat v \<le> unat k" for v :: u32
    using that assms(3) by (simp add: short_nat_def unsigned_ucast_eq take_bit_nat_eq_self)
  have type: "resolves_to (case trap_type tr of None \<Rightarrow> ret null | Some u \<Rightarrow> bindM (load_type_ref L loader u) (\<lambda>(t, r). ret t))
      (\<lambda>t. t = null \<or> t \<in> dom (pr_types (ln_program L)))"
    by (auto intro!: link_ret link_bind [OF link_load_type [OF ok]] split: option.splits)
  show ?thesis
    unfolding resolve_trap_def
    by (rule link_bind [OF type], rule link_ret) (use order small in \<open>auto simp: trap_informed_def\<close>)
qed

definition code_informed :: "program \<Rightarrow> cf_code \<Rightarrow> icode \<Rightarrow> bool" where
  "code_informed P code c \<longleftrightarrow> (let n = unat (num_insns code) in length (co_opcodes c) = n \<and> length (co_info c) = n
     \<and> (\<forall>pc < n. informed P (max (co_max_locals c) 4 + 1) n (co_opcodes c ! pc, co_info c ! pc))
     \<and> list_all (trap_informed P n) (co_traps c)
     \<and> co_max_locals c = unat (max_locals code) \<and> co_max_stack c = unat (max_stack code))"

lemma link_code:
  assumes ok: "linker_ok L rank" and c: "pr_types (ln_program L) (me_class meth) = Some cls"
    and small: "unat (num_insns code) < 2 ^ 16"
    and ins: "unat (num_insns code) \<le> length (insns code)"
      "\<forall>x \<in> set (take (unat (num_insns code)) (insns code)). insn_wf (max_locals code) x \<and> named x \<and> targets_below (unat (num_insns code)) (info x)"
    and tr: "length (traps code) = unat (num_traps code)" "\<forall>tr \<in> set (traps code). trap_wf (num_insns code) tr"
    and lm: "unat (num_linemaps code) \<le> length (linemaps code)"
  shows "resolves_to (resolve_code L meth code) (\<lambda>c. code_informed (ln_program L) code c \<and> co_num_params2 c = param_count meth mod 2 ^ 16)"
proof -
  let ?n = "unat (num_insns code)"
  have insns: "resolves_to (resolve_insn L loader cls x) (informed (ln_program L) (max (unat (max_locals code)) 4 + 1) ?n)"
    if "x \<in> set (take ?n (insns code))" for x loader
    using ins(2) that small by (intro link_insn [OF ok c]) auto
  have traps: "resolves_to (resolve_trap L loader x) (trap_informed (ln_program L) ?n)" if "x \<in> set (traps code)" for x loader
    using tr(2) that small by (intro link_trap [OF ok]) auto
  have c': "resolves_to (type_at (ln_program L) (me_class meth)) (\<lambda>r. r = cls)"
    by (rule link_pure) (simp add: type_at_def c)
  show ?thesis
    unfolding resolve_code_def Let_def
    using ins(1) tr(1) lm
    by (auto simp: counted_def code_informed_def list_all_iff nth_map
        intro!: link_bind [OF c'] link_then [OF linker_facts(4) [OF ok]] link_bind [OF link_mapM [OF traps]] link_bind [OF link_mapM [OF insns]] link_ret)
qed

end
