(* ===== verification/Resolve_Spec.thy ===== *)
theory Resolve_Spec
  imports Resolve_Safe
begin

text \<open>
  From the bytes of a code attribute to the instructions that run: what resolution promises of accepted
  code, and two programs that the parser accepts and the interpreter cannot run.
\<close>

section \<open>Accepted code\<close>


definition full_linker :: "unit linker" where
  "full_linker = family_linker\<lparr>ln_prim_array := replicate 12 16\<rparr>"

lemma full_linker_sel [simp]:
  "ln_program full_linker = family" "ln_supers full_linker t = (null, [])" "ln_load_type full_linker l n = ret 112"
  "ln_cl_alloc full_linker l k = ret ()" "ln_vm_alloc full_linker k = ret ()" "ln_prim_array full_linker = replicate 12 16"
  by (simp_all add: full_linker_def family_linker_def)

lemma full_linker_ok: "linker_ok full_linker family_rank"
  unfolding linker_ok_def field_lookups_ok_def
proof (intro conjI allI impI ballI)
  show "lookups_ok (ln_program full_linker) family_rank" using family_ok by simp
  show "supertypes_ok (ln_program full_linker) family_rank t (ln_supers full_linker t)" for t by (simp add: supertypes_ok_def)
  show "grants (ln_load_type full_linker l n) (\<lambda>t. t \<in> dom (pr_types (ln_program full_linker)))" for l n
    by (simp add: grants_def leads_def family_at family_types_def)
  show "grants (ln_cl_alloc full_linker l k) (\<lambda>_. True)" "grants (ln_vm_alloc full_linker k) (\<lambda>_. True)" for l k
    by (simp_all add: grants_def leads_def)
  show "unat JC_TYPE_DOUBLE < length (ln_prim_array full_linker)" by simp
  fix m x assume "pr_methods (ln_program full_linker) m = Some x"
  then have "x = plain_method ''hash'' 64 ACC_PUBLIC \<or> x = plain_method ''run'' 80 (ACC_PUBLIC OR ACC_ABSTRACT) \<or> x = plain_method ''run'' 112 ACC_PUBLIC"
    by (auto simp: family_def split: if_splits)
  then show "me_num_parameters x < length (me_param_ptypes x)" "param_count x + 1 < 2 ^ 16" "me_class x \<in> dom (pr_types (ln_program full_linker))"
    by (auto simp: plain_method_def param_count_def family_at family_types_def)
qed

definition run_method :: jmethod where
  "run_method = plain_method ''run'' 112 ACC_PUBLIC"

lemma run_method_class: "pr_types (ln_program full_linker) (me_class run_method) = Some (the (family_types 112))"
  by (simp add: run_method_def plain_method_def family_at family_types_def)

lemma family_refs: "refs_sorted family_state"
  by (simp add: refs_sorted_def family_state_def)


section \<open>Accepted code that cannot run\<close>

text \<open>A state of the interpreter with some code\<close>

definition at_code :: "icode \<Rightarrow> u32 list \<Rightarrow> int \<Rightarrow> 'e istate \<Rightarrow> 'e istate" where
  "at_code c words pc s = s\<lparr>i_words := words, i_sp := int (length words), i_pc := pc, i_world := (i_world s)\<lparr>w_code := [i_method s \<mapsto> c]\<rparr>\<rparr>"

definition pseudo_code :: "u8 list" where
  "pseudo_code = [0, 1, 0, 1, 0, 0, 0, 2, JC_ldc_string, JC_areturn, 0, 0, 0, 0]"

definition pseudo_resolved :: icode where
  "pseudo_resolved = \<lparr>co_opcodes = [JC_ldc_string, JC_areturn], co_info = [I_none, I_none], co_traps = [], co_linemaps = [],
     co_max_stack = 1, co_max_locals = 1, co_num_params2 = 0\<rparr>"

definition pseudo_parsed :: cf_code where
  "pseudo_parsed = \<lparr>max_stack = 1, max_locals = 1, num_traps = 0, num_linemaps = 0, num_insns = 2,
      insns = [mk_insn JC_ldc_string No_info, mk_insn JC_areturn No_info], traps = [], linemaps = []\<rparr>"

lemma pseudo_code_parses: "parse_code zero_classfile pseudo_code (\<lambda>_ _. True) = Inr pseudo_parsed"
  by code_simp

lemma resolve_no_info:
  "map_of constant_ops op = None \<Longrightarrow> op \<notin> set (local_ops @ type_ops @ field_ops @ branch_ops @ invoke_ops) \<Longrightarrow>
    op \<notin> set other_codes \<or> op = JC_ldc_string \<Longrightarrow> resolve_insn L loader cls (mk_insn op i) = ret (op, I_none)"
  by (auto simp: resolve_insn_def mk_insn_def other_codes_def)

text \<open>
  C35: The opcode that the machine has for itself is accepted in a class file. It gets no string then, and
  the interpreter reads the one it expects from memory that was never written.
\<close>

theorem pseudo_opcode_accepted:
  "resolve_bytecode full_linker run_method zero_classfile pseudo_code (\<lambda>_ _. True) family_state = (Inr pseudo_resolved, family_state)
   \<and> fst (do_ldc_string vm (at_code pseudo_resolved words 0 s)) = Inl (Fault Wrong_union_member)"
proof
  have "map_of constant_ops op = None \<and> op \<notin> set (local_ops @ type_ops @ field_ops @ branch_ops @ invoke_ops)"
    if "op = JC_ldc_string \<or> op = JC_areturn" for op
    using that by (auto simp: op_groups constant_ops_def)
  then have insn: "resolve_insn L loader cls (mk_insn JC_ldc_string No_info) = ret (JC_ldc_string, I_none)"
    "resolve_insn L loader cls (mk_insn JC_areturn No_info) = ret (JC_areturn, I_none)" for L :: "unit linker" and loader cls
    by (simp_all add: resolve_no_info other_codes_def)
  show "resolve_bytecode full_linker run_method zero_classfile pseudo_code (\<lambda>_ _. True) family_state = (Inr pseudo_resolved, family_state)"
    by (simp add: resolve_bytecode_def pseudo_code_parses resolve_code_def Let_def type_at_def run_method_class [simplified] counted_def thenM_def
        pseudo_parsed_def insn pseudo_resolved_def param_count_def run_method_def plain_method_def
        family_at family_types_def)
  show "fst (do_ldc_string vm (at_code pseudo_resolved words 0 s)) = Inl (Fault Wrong_union_member)"
    by (simp add: do_ldc_string_def info_utf8_def the_info_def code_of_def load_at_def bindM_def gets_def ret_def liftM_def
        at_code_def pseudo_resolved_def fails_def)
qed

definition wide_switch_code :: "u8 list" where
  "wide_switch_code = [0, 1, 0, 1, 0, 0, 0, 17, JC_iconst_0, JC_tableswitch, 0, 0, 0, 0, 0, 15, 0x80, 0, 0, 0, 0x7f, 0xff, 0xff, 0xff, JC_return,
     0, 0, 0, 0]"

definition wide_switch :: cf_tableswitch where
  "wide_switch = \<lparr>tsw_default = 2, tsw_low = 0x80000000, tsw_high = 0x7fffffff, tsw_targets = []\<rparr>"

definition wide_parsed :: cf_code where
  "wide_parsed = \<lparr>max_stack = 1, max_locals = 1, num_traps = 0, num_linemaps = 0, num_insns = 3,
      insns = [mk_insn JC_iconst_0 No_info, mk_insn JC_tableswitch (Tableswitch_info wide_switch), mk_insn JC_return No_info] @ replicate 14 zero_insn,
      traps = [], linemaps = []\<rparr>"

definition wide_resolved :: icode where
  "wide_resolved = \<lparr>co_opcodes = [JC_ldc, JC_tableswitch, JC_return],
     co_info = [I_constant 0, I_tableswitch \<lparr>tw_low = 0x80000000, tw_high = 0x7fffffff, tw_default = 2, tw_targets = []\<rparr>, I_none],
     co_traps = [], co_linemaps = [], co_max_stack = 1, co_max_locals = 1, co_num_params2 = 0\<rparr>"

lemma wide_switch_parses: "parse_code zero_classfile wide_switch_code (\<lambda>_ _. True) = Inr wide_parsed"
  by code_simp

text \<open>
  A \<open>tableswitch\<close> over all keys has no targets: their number does not fit an \<open>int\<close> and comes out as zero, and the
  parser accepts it. Every key is in its range, and the interpreter reads behind the table.
\<close>

theorem wide_switch_overreads:
  "resolve_bytecode full_linker run_method zero_classfile wide_switch_code (\<lambda>_ _. True) family_state = (Inr wide_resolved, family_state)
   \<and> fst (do_tableswitch (at_code wide_resolved [0, 0x80000000] 1 s)) = Inl (Fault Out_of_bounds)"
proof
  have "map_of constant_ops JC_return = None \<and> JC_return \<notin> set (local_ops @ type_ops @ field_ops @ branch_ops @ invoke_ops)"
    by (auto simp: op_groups constant_ops_def)
  then have insn: "resolve_insn L loader cls (mk_insn JC_iconst_0 No_info) = ret (JC_ldc, I_constant 0)"
    "resolve_insn L loader cls (mk_insn JC_return No_info) = ret (JC_return, I_none)"
    "resolve_insn full_linker loader cls (mk_insn JC_tableswitch (Tableswitch_info wide_switch))
      = ret (JC_tableswitch, I_tableswitch \<lparr>tw_low = 0x80000000, tw_high = 0x7fffffff, tw_default = 2, tw_targets = []\<rparr>)"
    for L :: "unit linker" and loader cls
    by (simp_all add: resolve_no_info other_codes_def)
      (simp_all add: resolve_insn_def mk_insn_def constant_ops_def op_groups wide_switch_def keep_opcode_def resolve_tableswitch_def
        num_targets_def thenM_def short_nat_def)
  show "resolve_bytecode full_linker run_method zero_classfile wide_switch_code (\<lambda>_ _. True) family_state = (Inr wide_resolved, family_state)"
    by (simp add: resolve_bytecode_def wide_switch_parses resolve_code_def Let_def type_at_def counted_def thenM_def
        wide_parsed_def insn wide_resolved_def param_count_def run_method_def plain_method_def family_at family_types_def)
  show "fst (do_tableswitch (at_code wide_resolved [0, 0x80000000] 1 s)) = Inl (Fault Out_of_bounds)"
    by (simp add: do_tableswitch_def info_tableswitch_def the_info_def code_of_def load_at_def bindM_def gets_def ret_def liftM_def thenM_def
        pop_def modify_def stack_def get_word_def at_code_def wide_resolved_def fails_def load_def)
qed

text \<open>
  Code may have more instructions than 16 bits can count, and the target of a jump is cut to them: behind
  the first 65536 instructions it is another one.
\<close>

lemma far_jump_cut:
  assumes "2 ^ 16 \<le> unat t"
  shows "resolve_insn L loader cls (mk_insn JC_goto (Branch_info t)) = ret (JC_goto, I_target (unat t mod 2 ^ 16))" and "unat t mod 2 ^ 16 < unat t"
proof -
  have "short_nat t = unat t mod 2 ^ 16" by (simp add: short_nat_def unsigned_ucast_eq take_bit_eq_mod)
  then show "resolve_insn L loader cls (mk_insn JC_goto (Branch_info t)) = ret (JC_goto, I_target (unat t mod 2 ^ 16))"
    by (simp add: resolve_insn_def mk_insn_def constant_ops_def op_groups)
  show "unat t mod 2 ^ 16 < unat t" using assms by (rule order.strict_trans2 [OF mod_less_divisor, rotated]) simp
qed

end
