(* ===== verification/Resolve_Tables.thy ===== *)
theory Resolve_Tables
  imports Resolve_Search
begin

text \<open>
  The hash tables that a class gets when it is resolved, from \<open>libjc/resolve2.c\<close>: the table of its supertypes,
  which the tests of types read (\<open>_jc_derive_instanceof_table\<close>), and the table of the methods that implement
  its interfaces, which \<open>invokeinterface\<close> reads (\<open>_jc_derive_imethod_tables\<close>).
\<close>

section \<open>Buckets\<close>

text \<open>
  The loop that eliminates redundancies from a sorted array. It goes on behind the element that it
  kept, so that of three equal elements two are left.
\<close>

fun squeeze :: "'a list \<Rightarrow> 'a list" where
  "squeeze (x # y # zs) = (if x = y then y # squeeze zs else x # squeeze (y # zs))"
| "squeeze xs = xs"

text \<open>
  The buckets as linked lists of indexes: \<open>heads\<close> has the last index put in each of the 128 buckets, \<open>follows\<close>
  the one before it; no index is \<open>-1\<close> in the code. Buckets are counted as they get their first element,
  and those with one element.
\<close>

record buckets =
  bk_heads :: "nat option list"
  bk_follows :: "nat option list"
  bk_nonempty :: nat
  bk_single :: int

definition no_buckets :: "nat \<Rightarrow> buckets" where
  "no_buckets n = \<lparr>bk_heads = replicate 128 None, bk_follows = replicate n None, bk_nonempty = 0, bk_single = 0\<rparr>"

definition bucket_of :: "u64 \<Rightarrow> nat" where
  "bucket_of h = unat (h AND 127)"

definition put_bucket :: "nat \<Rightarrow> u64 \<Rightarrow> buckets \<Rightarrow> buckets" where
  "put_bucket i h b = (let k = bucket_of h; head = bk_heads b ! k in
     b\<lparr>bk_nonempty := (if head = None then bk_nonempty b + 1 else bk_nonempty b),
       bk_single := (case head of None \<Rightarrow> bk_single b + 1
         | Some j \<Rightarrow> if bk_follows b ! j = None then bk_single b - 1 else bk_single b),
       bk_follows := (bk_follows b)[i := head],
       bk_heads := (bk_heads b)[k := Some i]\<rparr>)"

fun put_all :: "nat \<Rightarrow> u64 list \<Rightarrow> buckets \<Rightarrow> buckets" where
  "put_all i [] b = b"
| "put_all i (h # hs) b = put_all (i + 1) hs (put_bucket i h b)"

text \<open>The indexes of a bucket, in the order in which the table gets them; an index follows a smaller one.\<close>

function walk :: "nat option list \<Rightarrow> nat option \<Rightarrow> nat list" where
  "walk follows None = []"
| "walk follows (Some i) = i # (case follows ! i of None \<Rightarrow> [] | Some j \<Rightarrow> if j < i then walk follows (Some j) else [])"
  by pat_completeness auto
termination by (relation "measure (\<lambda>(_, k). case k of None \<Rightarrow> 0 | Some i \<Rightarrow> Suc i)") auto

definition fill_table :: "buckets \<Rightarrow> 'a list \<Rightarrow> 'a list option list" where
  "fill_table b xs = map (\<lambda>head. case head of None \<Rightarrow> None | Some i \<Rightarrow> Some (map ((!) xs) (walk (bk_follows b) (Some i)))) (bk_heads b)"

section \<open>The table of the supertypes\<close>

definition type_sorter :: "u32 \<times> jtype \<Rightarrow> u32 \<times> jtype \<Rightarrow> int" where
  "type_sorter x y = strcmp (ty_name (snd x)) (ty_name (snd y))"

text \<open>The supertypes of an interface, from its table; then those of a class and of its superclasses\<close>

definition table_entries :: "u32 list option list \<Rightarrow> u32 list" where
  "table_entries table = concat (map (\<lambda>b. case b of None \<Rightarrow> [] | Some us \<Rightarrow> us) table)"

fun scan_interfaces :: "program \<Rightarrow> u32 list \<Rightarrow> ('s, u32 list) mon" where
  "scan_interfaces P [] = ret []"
| "scan_interfaces P (i # is) = bindM (type_at P i) (\<lambda>r. bindM (scan_interfaces P is) (\<lambda>us.
     ret (table_entries (ty_instanceof r) @ us)))"

fun scan_supers :: "nat \<Rightarrow> program \<Rightarrow> u32 \<Rightarrow> ('s, u32 list) mon" where
  "scan_supers 0 P t = fails (Fault Out_of_fuel)"
| "scan_supers (Suc n) P t = (if t = null then ret []
     else bindM (type_at P t) (\<lambda>r. bindM (scan_interfaces P (ty_interfaces r)) (\<lambda>us.
       bindM (scan_supers n P (ty_superclass r)) (\<lambda>vs. ret (us @ [t] @ vs)))))"

definition with_types :: "program \<Rightarrow> u32 list \<Rightarrow> ('s, (u32 \<times> jtype) list) mon" where
  "with_types P ts = mapM (\<lambda>a. bindM (type_at P a) (\<lambda>r. ret (a, r))) ts"

definition derive_instanceof_table :: "'e linker \<Rightarrow> u32 \<Rightarrow> ('e lstate, u32 list option list) mon" where
  "derive_instanceof_table L t = (let P = ln_program L in
     bindM (scan_supers (chain_fuel P) P t) (\<lambda>ts.
     thenM (ln_stack_alloc L (of_nat (length ts * 4)))
     (bindM (with_types P ts) (\<lambda>trs. let us = squeeze (qsort type_sorter trs) in
     thenM (ln_stack_alloc L (of_nat (length us * 4)))
     (let b = put_all 0 (map (\<lambda>u. ty_hash (snd u)) us) (no_buckets (length us)) in
     bindM (type_at P t) (\<lambda>r. thenM (ln_cl_alloc L (ty_loader r) (of_nat ((128 + length us + bk_nonempty b) * 4)))
     (ret (fill_table b (map fst us)))))))))"

section \<open>The table of the interface methods\<close>

text \<open>\<open>_jc_add_iface_methods\<close>\<close>

definition instance_methods :: "program \<Rightarrow> jtype \<Rightarrow> ('s, (u32 \<times> jmethod) list) mon" where
  "instance_methods P r = bindM (methods_of P r) (\<lambda>ms. ret (filter (\<lambda>m. \<not> acc_test (me_access (snd m)) ACC_STATIC) ms))"

fun concat_all :: "('a \<Rightarrow> ('s, 'b list) mon) \<Rightarrow> 'a list \<Rightarrow> ('s, 'b list) mon" where
  "concat_all f [] = ret []"
| "concat_all f (x # xs) = bindM (f x) (\<lambda>ys. bindM (concat_all f xs) (\<lambda>zs. ret (ys @ zs)))"

primrec add_iface_methods :: "nat \<Rightarrow> program \<Rightarrow> u32 \<Rightarrow> ('s, (u32 \<times> jmethod) list) mon" where
  "add_iface_methods 0 = (\<lambda>P t. fails (Fault Out_of_fuel))"
| "add_iface_methods (Suc n) = (\<lambda>P t. bindM (type_at P t) (\<lambda>r.
     bindM (concat_all (\<lambda>i. bindM (type_at P i) (\<lambda>ir. bindM (instance_methods P ir) (\<lambda>ms.
       bindM (add_iface_methods n P i) (\<lambda>up. ret (ms @ up))))) (ty_interfaces r)) (\<lambda>ms.
     if ty_superclass r = null then ret ms
     else bindM (add_iface_methods n P (ty_superclass r)) (\<lambda>up. ret (ms @ up)))))"

fun all_iface_methods :: "nat \<Rightarrow> program \<Rightarrow> u32 \<Rightarrow> ('s, (u32 \<times> jmethod) list) mon" where
  "all_iface_methods 0 P t = fails (Fault Out_of_fuel)"
| "all_iface_methods (Suc n) P t = (if t = null then ret []
     else bindM (add_iface_methods (chain_fuel P) P t) (\<lambda>ms. bindM (type_at P t) (\<lambda>r.
       bindM (all_iface_methods n P (ty_superclass r)) (\<lambda>up. ret (ms @ up)))))"

text \<open>The public method of a class or superclass that implements one\<close>

fun implementation :: "nat \<Rightarrow> program \<Rightarrow> jmethod \<Rightarrow> u32 \<Rightarrow> ('s, u32 \<times> jmethod) mon" where
  "implementation 0 P im t = fails (Fault Out_of_fuel)"
| "implementation (Suc n) P im t = (if t = null then fails (Exn NoSuchMethodError)
     else bindM (method_lookup P t im) (\<lambda>found. bindM (type_at P t) (\<lambda>r. case found of
       None \<Rightarrow> implementation n P im (ty_superclass r)
     | Some m \<Rightarrow> bindM (method_at P m) (\<lambda>x. if acc_test (me_access x) ACC_PUBLIC then ret (m, x)
         else implementation n P im (ty_superclass r)))))"

definition method_sorter_of :: "u32 \<times> jmethod \<Rightarrow> u32 \<times> jmethod \<Rightarrow> int" where
  "method_sorter_of x y = method_compare (method_key (snd x)) (method_key (snd y))"

text \<open>The table, and the quick table: a bucket with one method has the function of it there.\<close>

definition quick_table :: "buckets \<Rightarrow> 'a list \<Rightarrow> 'a option list" where
  "quick_table b xs = (if bk_single b > 0 then map (\<lambda>head. case head of None \<Rightarrow> None
       | Some i \<Rightarrow> if bk_follows b ! i = None then Some (xs ! i) else None) (bk_heads b)
     else replicate 128 None)"

definition derive_imethod_tables :: "'e linker \<Rightarrow> u32 \<Rightarrow> ('e lstate, u32 list option list \<times> u32 option list) mon" where
  "derive_imethod_tables L t = (let P = ln_program L in
     bindM (all_iface_methods (chain_fuel P) P t) (\<lambda>ims.
     if ims = [] then ret (replicate 128 None, replicate 128 None)
     else thenM (ln_stack_alloc L (of_nat (length ims * 4)))
     (bindM (mapM (\<lambda>im. implementation (chain_fuel P) P (snd im) t) ims) (\<lambda>found.
     let us = squeeze (qsort method_sorter_of found) in
     thenM (ln_stack_alloc L (of_nat (length us * 4)))
     (let b = put_all 0 (map (\<lambda>u. me_signature_hash (snd u)) us) (no_buckets (length us)) in
     bindM (type_at P t) (\<lambda>r.
       thenM (ln_cl_alloc L (ty_loader r) (of_nat ((128 + (if bk_single b > 0 then 128 else 0) + length us + bk_nonempty b) * 4)))
       (ret (fill_table b (map fst us), quick_table b (map fst us)))))))))"

section \<open>What the buckets hold\<close>

lemma set_squeeze: "set (squeeze xs) = set xs"
  by (induction xs rule: squeeze.induct) auto

lemma walk_update: "(\<And>i. k = Some i \<Longrightarrow> i < n) \<Longrightarrow> walk (follows[n := x]) k = walk follows k"
proof (induction follows k rule: walk.induct)
  case (2 follows i)
  have "i < n" using "2.prems" by simp
  then show ?case using "2.IH" by (auto split: option.splits)
qed simp

text \<open>The indexes that belong to a bucket; what the links and the counts are when some elements have been put.\<close>

definition in_bucket :: "nat \<Rightarrow> u64 list \<Rightarrow> nat list" where
  "in_bucket k hs = filter (\<lambda>j. bucket_of (hs ! j) = k) [0..<length hs]"

definition buckets_hold :: "nat \<Rightarrow> u64 list \<Rightarrow> buckets \<Rightarrow> bool" where
  "buckets_hold n hs b \<longleftrightarrow> length (bk_heads b) = 128 \<and> length (bk_follows b) = n
     \<and> (\<forall>k<128. walk (bk_follows b) (bk_heads b ! k) = rev (in_bucket k hs))
     \<and> (\<forall>i<length hs. \<forall>j. bk_follows b ! i = Some j \<longrightarrow> j < i)
     \<and> bk_nonempty b = card {k. k < 128 \<and> in_bucket k hs \<noteq> []}
     \<and> bk_single b = int (card {k. k < 128 \<and> length (in_bucket k hs) = 1})"

lemma in_bucket_snoc: "in_bucket k (hs @ [h]) = in_bucket k hs @ (if bucket_of h = k then [length hs] else [])"
  by (auto simp: in_bucket_def nth_append intro: filter_cong)

lemma in_bucket_less: "j \<in> set (in_bucket k hs) \<Longrightarrow> j < length hs"
  by (simp add: in_bucket_def)

lemma bucket_of_less: "bucket_of h < 128"
  unfolding bucket_of_def by (rule bucket_less)

lemma walk_head: "walk follows (Some i) = i # walk follows (follows ! i)" if "\<And>j. follows ! i = Some j \<Longrightarrow> j < i"
  using that by (auto split: option.splits)

lemma walk_empty: "walk follows k = [] \<longleftrightarrow> k = None"
  by (cases k) auto

lemma card_add: "k < (n :: nat) \<Longrightarrow> \<not> P k \<Longrightarrow> Q k \<Longrightarrow> (\<And>j. j \<noteq> k \<Longrightarrow> Q j = P j) \<Longrightarrow> card {j. j < n \<and> Q j} = Suc (card {j. j < n \<and> P j})"
proof -
  assume k: "k < n" "\<not> P k" "Q k" "\<And>j. j \<noteq> k \<Longrightarrow> Q j = P j"
  then have "{j. j < n \<and> Q j} = insert k {j. j < n \<and> P j}" by (auto; metis)
  with k show ?thesis by simp
qed

lemma no_buckets_hold: "buckets_hold n [] (no_buckets n)"
  by (simp add: buckets_hold_def no_buckets_def in_bucket_def)

lemma put_bucket_hold:
  assumes ok: "buckets_hold n hs b" and room: "length hs < n"
  shows "buckets_hold n (hs @ [h]) (put_bucket (length hs) h b)"
proof -
  let ?k = "bucket_of h" and ?b = "put_bucket (length hs) h b"
  let ?head = "bk_heads b ! ?k"
  note snoc = in_bucket_snoc [of _ hs h]
  have lens: "length (bk_heads b) = 128" "length (bk_follows b) = n"
    and walks: "\<And>k. k < 128 \<Longrightarrow> walk (bk_follows b) (bk_heads b ! k) = rev (in_bucket k hs)"
    and links: "\<And>i j. i < length hs \<Longrightarrow> bk_follows b ! i = Some j \<Longrightarrow> j < i"
    using ok by (auto simp: buckets_hold_def)
  have old: "walk ((bk_follows b)[length hs := x]) (bk_heads b ! k) = rev (in_bucket k hs)" if k: "k < 128" for k x
  proof -
    have "i < length hs" if "bk_heads b ! k = Some i" for i
      using walks [OF k] that in_bucket_less [of i k hs] by (metis list.set_intros(1) set_rev walk.simps(2))
    then show ?thesis by (simp add: walk_update walks [OF k])
  qed
  have head: "j < length hs" if "?head = Some j" for j
    using walks [OF bucket_of_less] that in_bucket_less [of j ?k hs] by (metis list.set_intros(1) set_rev walk.simps(2))
  have fresh: "walk ((bk_follows b)[length hs := ?head]) (Some (length hs)) = rev (in_bucket ?k (hs @ [h]))"
    using head room lens old [OF bucket_of_less] by (subst walk_head) (auto simp: snoc)
  have empty: "in_bucket ?k hs = [] \<longleftrightarrow> ?head = None"
    using walks [OF bucket_of_less, of h] walk_empty [of "bk_follows b" ?head] by simp
  have one: "length (in_bucket ?k hs) = 1 \<longleftrightarrow> bk_follows b ! j = None" if "?head = Some j" for j
  proof -
    have "rev (in_bucket ?k hs) = j # walk (bk_follows b) (bk_follows b ! j)"
      using walks [OF bucket_of_less, of h] walk_head [of "bk_follows b" j] links [of j] head that by simp
    then have "length (in_bucket ?k hs) = Suc (length (walk (bk_follows b) (bk_follows b ! j)))" by (metis length_Cons length_rev)
    then show ?thesis using walk_empty [of "bk_follows b" "bk_follows b ! j"] by simp
  qed
  have nonempty: "bk_nonempty ?b = card {k. k < 128 \<and> in_bucket k (hs @ [h]) \<noteq> []}"
  proof (cases "?head = None")
    case True
    then have "card {k. k < 128 \<and> in_bucket k (hs @ [h]) \<noteq> []} = Suc (card {k. k < 128 \<and> in_bucket k hs \<noteq> []})"
      using empty by (intro card_add [OF bucket_of_less]) (auto simp: snoc)
    then show ?thesis using ok True by (simp add: buckets_hold_def put_bucket_def Let_def)
  next
    case False
    then have "{k. k < 128 \<and> in_bucket k (hs @ [h]) \<noteq> []} = {k. k < 128 \<and> in_bucket k hs \<noteq> []}"
      using empty by (auto simp: snoc)
    then show ?thesis using ok False by (simp add: buckets_hold_def put_bucket_def Let_def)
  qed
  have single: "bk_single ?b = int (card {k. k < 128 \<and> length (in_bucket k (hs @ [h])) = 1})"
  proof (cases ?head)
    case None
    then have "card {k. k < 128 \<and> length (in_bucket k (hs @ [h])) = 1} = Suc (card {k. k < 128 \<and> length (in_bucket k hs) = 1})"
      using empty by (intro card_add [OF bucket_of_less]) (auto simp: snoc)
    then show ?thesis using ok None by (simp add: buckets_hold_def put_bucket_def Let_def)
  next
    case (Some j)
    then have some: "in_bucket ?k hs \<noteq> []" using empty by simp
    show ?thesis
    proof (cases "bk_follows b ! j = None")
      case True
      then have "card {k. k < 128 \<and> length (in_bucket k hs) = 1} = Suc (card {k. k < 128 \<and> length (in_bucket k (hs @ [h])) = 1})"
        using one [OF Some] by (intro card_add [OF bucket_of_less]) (auto simp: snoc)
      then show ?thesis using ok Some True by (simp add: buckets_hold_def put_bucket_def Let_def)
    next
      case False
      then have "{k. k < 128 \<and> length (in_bucket k (hs @ [h])) = 1} = {k. k < 128 \<and> length (in_bucket k hs) = 1}"
        using one [OF Some] some by (auto simp: snoc)
      then show ?thesis using ok Some False by (simp add: buckets_hold_def put_bucket_def Let_def)
    qed
  qed
  have heads: "walk (bk_follows ?b) (bk_heads ?b ! k) = rev (in_bucket k (hs @ [h]))" if k: "k < 128" for k
    using fresh old [OF k, of ?head] lens k by (cases "k = ?k") (simp_all add: put_bucket_def Let_def snoc)
  have "j < i" if "i < length (hs @ [h])" "bk_follows ?b ! i = Some j" for i j
    using that links [of i j] head [of j] lens room by (cases "i = length hs") (simp_all add: put_bucket_def Let_def)
  moreover have "length (bk_heads ?b) = 128" "length (bk_follows ?b) = n" using lens by (simp_all add: put_bucket_def Let_def)
  ultimately show ?thesis using heads nonempty single unfolding buckets_hold_def by blast
qed

lemma put_all_hold: "buckets_hold n hs b \<Longrightarrow> length hs + length gs \<le> n \<Longrightarrow> buckets_hold n (hs @ gs) (put_all (length hs) gs b)"
proof (induction gs arbitrary: hs b)
  case (Cons g gs)
  have "buckets_hold n (hs @ [g]) (put_bucket (length hs) g b)" using Cons.prems by (intro put_bucket_hold) auto
  from Cons.IH [OF this] Cons.prems show ?case by simp
qed simp

lemma all_put: "buckets_hold (length hs) hs (put_all 0 hs (no_buckets (length hs)))"
  using put_all_hold [OF no_buckets_hold [of "length hs"], of hs] by simp

lemma in_bucket_elements: "map ((!) xs) (in_bucket k (map h xs)) = filter (\<lambda>x. bucket_of (h x) = k) xs"
proof -
  have "filter (\<lambda>x. bucket_of (h x) = k) (map ((!) xs) [0..<length xs]) = map ((!) xs) (in_bucket k (map h xs))"
    unfolding in_bucket_def filter_map by (auto simp: comp_def intro!: arg_cong [where f = "map _"] filter_cong)
  then show ?thesis by (simp add: map_nth)
qed

text \<open>The tables: in every bucket the elements with its hash, the last ones first; in the quick table those that are alone.\<close>

definition table_of :: "('a \<Rightarrow> u64) \<Rightarrow> 'a list \<Rightarrow> 'a list option list" where
  "table_of h xs = map (\<lambda>k. let ys = rev (filter (\<lambda>x. bucket_of (h x) = k) xs) in if ys = [] then None else Some ys) [0..<128]"

lemma fill_table_lists:
  assumes "buckets_hold (length xs) (map h xs) b"
  shows "fill_table b xs = table_of h xs"
proof (rule nth_equalityI)
  show "length (fill_table b xs) = length (table_of h xs)" using assms by (simp add: fill_table_def table_of_def buckets_hold_def)
next
  fix k assume "k < length (fill_table b xs)"
  then have k: "k < 128" using assms by (simp add: fill_table_def buckets_hold_def)
  have w: "walk (bk_follows b) (bk_heads b ! k) = rev (in_bucket k (map h xs))" "length (bk_heads b) = 128"
    using assms k by (simp_all add: buckets_hold_def)
  have "map ((!) xs) (walk (bk_follows b) (bk_heads b ! k)) = rev (filter (\<lambda>x. bucket_of (h x) = k) xs)"
    by (simp only: w rev_map [symmetric] in_bucket_elements)
  moreover have "filter (\<lambda>x. bucket_of (h x) = k) xs = [] \<longleftrightarrow> bk_heads b ! k = None"
    using walk_empty [of "bk_follows b" "bk_heads b ! k"] in_bucket_elements [of xs k h] w(1) by (metis Nil_is_map_conv rev_is_Nil_conv)
  ultimately show "fill_table b xs ! k = table_of h xs ! k"
    using k w(2) by (cases "bk_heads b ! k") (auto simp: fill_table_def table_of_def Let_def simp del: walk.simps)
qed

lemma quick_table_alone:
  assumes "buckets_hold (length xs) (map h xs) b" and "k < 128" and "quick_table b xs ! k = Some x"
  shows "filter (\<lambda>y. bucket_of (h y) = k) xs = [x]"
proof -
  have w: "walk (bk_follows b) (bk_heads b ! k) = rev (in_bucket k (map h xs))" "length (bk_heads b) = 128"
    using assms(1,2) by (simp_all add: buckets_hold_def)
  obtain i where i: "bk_heads b ! k = Some i" "bk_follows b ! i = None" "x = xs ! i"
    using assms(2,3) w(2) by (auto simp: quick_table_def split: if_splits option.splits)
  then have "in_bucket k (map h xs) = [i]" using w(1) by simp
  then show ?thesis using i(3) in_bucket_elements [of xs k h] by simp
qed

lemma table_of_nth: "k < 128 \<Longrightarrow> (\<exists>ys. table_of h xs ! k = Some ys \<and> x \<in> set ys) \<longleftrightarrow> x \<in> set xs \<and> bucket_of (h x) = k"
  by (auto simp: table_of_def Let_def filter_empty_conv)

text \<open>The words behind the heads are the elements and a null pointer for every bucket that has some: what is asked for is filled.\<close>

lemma sum_filters: "(\<And>x. x \<in> set xs \<Longrightarrow> f x < (n :: nat)) \<Longrightarrow> (\<Sum>k<n. length (filter (\<lambda>x. f x = k) xs)) = length xs"
proof (induction xs)
  case (Cons x xs)
  have "(\<Sum>k<n. length (filter (\<lambda>y. f y = k) (x # xs))) = (\<Sum>k<n. (if k = f x then 1 else 0) + length (filter (\<lambda>y. f y = k) xs))"
    by (intro sum.cong) auto
  also have "\<dots> = 1 + length xs" using Cons.IH Cons.prems [of x] Cons.prems by (simp add: sum.distrib sum.delta [of "{..<n}"])
  finally show ?case by simp
qed simp

definition table_words :: "'a list option list \<Rightarrow> nat" where
  "table_words table = (\<Sum>k<length table. case table ! k of None \<Rightarrow> 0 | Some xs \<Rightarrow> length xs + 1)"

lemma table_fills_room:
  assumes "buckets_hold (length xs) (map h xs) b"
  shows "table_words (fill_table b xs) = length xs + bk_nonempty b"
proof -
  have "in_bucket k (map h xs) \<noteq> [] \<longleftrightarrow> filter (\<lambda>x. bucket_of (h x) = k) xs \<noteq> []" for k
    by (metis Nil_is_map_conv in_bucket_elements)
  then have n: "bk_nonempty b = (\<Sum>k<128. of_bool (filter (\<lambda>x. bucket_of (h x) = k) xs \<noteq> []))"
    using assms by (simp add: buckets_hold_def sum_of_bool_eq Int_def conj_commute)
  have "table_words (table_of h xs) = (\<Sum>k<128. length (filter (\<lambda>x. bucket_of (h x) = k) xs) + of_bool (filter (\<lambda>x. bucket_of (h x) = k) xs \<noteq> []))"
    unfolding table_words_def by (intro sum.cong) (auto simp: table_of_def Let_def)
  also have "\<dots> = length xs + bk_nonempty b"
    by (simp only: sum.distrib n sum_filters [where f = "\<lambda>x. bucket_of (h x)" and n = 128, OF bucket_of_less])
  finally show ?thesis by (simp add: fill_table_lists [OF assms])
qed

section \<open>The supertypes\<close>

interpretation type_names: comparison type_sorter
  unfolding type_sorter_def by (rule comparison_key [OF comparison_str])

interpretation method_names: comparison method_sorter_of
  unfolding method_sorter_of_def by (rule comparison_key [OF methods.comparison_axioms])

text \<open>The table that holds the supertypes of a type, each in the bucket of its hash.\<close>

definition supertype_table :: "program \<Rightarrow> u32 \<Rightarrow> u32 list option list \<Rightarrow> bool" where
  "supertype_table P t table \<longleftrightarrow> length table = 128 \<and> (\<forall>k<128. \<forall>u. (\<exists>us. table ! k = Some us \<and> u \<in> set us)
     \<longleftrightarrow> subtype P t u \<and> (\<exists>r. pr_types P u = Some r \<and> bucket_of (ty_hash r) = k))"

lemma subtype_there: "subtype P t u \<Longrightarrow> lookups_ok P rank \<Longrightarrow> pr_types P t = Some r \<Longrightarrow> \<exists>r'. pr_types P u = Some r'"
proof (induction arbitrary: r rule: subtype.induct)
  case (subtype_class t r' u)
  then show ?case using super_facts(1) [OF subtype_class.prems(1) subtype_class.hyps(1,2)] by blast
next
  case (subtype_interface t r' i u)
  then show ?case using super_facts(2) [OF subtype_interface.prems(1) subtype_interface.hyps(1,2)] by blast
qed simp

lemma type_at_run: "pr_types P t = Some r \<Longrightarrow> type_at P t s = (Inr r, s)"
  by (simp add: type_at_def)

lemma table_entries_set:
  assumes "supertype_table P t table" and "lookups_ok P rank" and "pr_types P t = Some r"
  shows "set (table_entries table) = {u. subtype P t u}"
proof -
  have len: "length table = 128" using assms(1) by (simp add: supertype_table_def)
  have entries: "u \<in> set (table_entries table) \<longleftrightarrow> (\<exists>k<128. \<exists>us. table ! k = Some us \<and> u \<in> set us)" for u
  proof -
    have "u \<in> set (table_entries table) \<longleftrightarrow> (\<exists>us. Some us \<in> set table \<and> u \<in> set us)"
      by (auto simp: table_entries_def split: option.splits)
    then show ?thesis by (auto simp: in_set_conv_nth len)
  qed
  have "(\<exists>us. table ! k = Some us \<and> u \<in> set us) \<longleftrightarrow> subtype P t u \<and> (\<exists>r. pr_types P u = Some r \<and> bucket_of (ty_hash r) = k)"
    if "k < 128" for k u using assms(1) that unfolding supertype_table_def by blast
  with entries have "u \<in> set (table_entries table) \<longleftrightarrow> subtype P t u" for u
    using subtype_there [OF _ assms(2,3), of u] bucket_of_less entries [of u] by metis
  then show ?thesis by auto
qed

definition interfaces_done :: "program \<Rightarrow> u32 \<Rightarrow> bool" where
  "interfaces_done P t \<longleftrightarrow> (\<forall>c r i. chain P t c \<longrightarrow> pr_types P c = Some r \<longrightarrow> i \<in> set (ty_interfaces r) \<longrightarrow>
     supertype_table P i (ty_instanceof (the (pr_types P i))))"

lemma scan_interfaces_run:
  assumes "\<And>i. i \<in> set is \<Longrightarrow> \<exists>r. pr_types P i = Some r \<and> supertype_table P i (ty_instanceof r)" and "lookups_ok P rank"
  shows "\<exists>us. scan_interfaces P is s = (Inr us, s) \<and> set us = {u. \<exists>i \<in> set is. subtype P i u}"
  using assms(1)
proof (induction "is")
  case (Cons i "is")
  obtain r where r: "pr_types P i = Some r" "supertype_table P i (ty_instanceof r)" using Cons.prems [of i] by auto
  from Cons obtain us where us: "scan_interfaces P is s = (Inr us, s)" "set us = {u. \<exists>i \<in> set is. subtype P i u}" by fastforce
  have "scan_interfaces P (i # is) s = (Inr (table_entries (ty_instanceof r) @ us), s)"
    by (simp add: type_at_run [OF r(1)] us(1) ret_apply)
  then show ?case using us(2) table_entries_set [OF r(2) assms(2) r(1)] by auto
qed (simp add: ret_apply)

lemma interfaces_done_super:
  "interfaces_done P t \<Longrightarrow> pr_types P t = Some r \<Longrightarrow> ty_superclass r \<noteq> null \<Longrightarrow> interfaces_done P (ty_superclass r)"
  unfolding interfaces_done_def by (blast intro: chain_super)

lemma scan_supers_run:
  assumes ok: "lookups_ok P rank" and "enough P rank n t" and "t \<noteq> null \<longrightarrow> interfaces_done P t"
  shows "\<exists>us. scan_supers n P t s = (Inr us, s) \<and> set us = (if t = null then {} else {u. subtype P t u})"
  using assms(2,3)
proof (induction n arbitrary: t)
  case (Suc n)
  show ?case
  proof (cases "t = null")
    case False
    with Suc.prems obtain r where r: "pr_types P t = Some r" by (auto simp: enough_def)
    have "\<exists>r'. pr_types P i = Some r' \<and> supertype_table P i (ty_instanceof r')" if "i \<in> set (ty_interfaces r)" for i
      using super_facts(2) [OF ok r that] Suc.prems(2) False r that chain_refl [of P t] unfolding interfaces_done_def by fastforce
    then obtain us where us: "scan_interfaces P (ty_interfaces r) s = (Inr us, s)" "set us = {u. \<exists>i \<in> set (ty_interfaces r). subtype P i u}"
      using scan_interfaces_run [OF _ ok, of "ty_interfaces r" s] by blast
    have "ty_superclass r \<noteq> null \<longrightarrow> interfaces_done P (ty_superclass r)"
      using Suc.prems(2) False interfaces_done_super [OF _ r] by simp
    with Suc.IH [OF enough_super [OF ok Suc.prems(1) r]] obtain vs where vs: "scan_supers n P (ty_superclass r) s = (Inr vs, s)"
      "set vs = (if ty_superclass r = null then {} else {u. subtype P (ty_superclass r) u})" by blast
    have "scan_supers (Suc n) P t s = (Inr (us @ [t] @ vs), s)"
      using False by (simp add: type_at_run [OF r] us(1) vs(1) ret_apply)
    moreover have "subtype P t u \<longleftrightarrow> u = t \<or> ty_superclass r \<noteq> null \<and> subtype P (ty_superclass r) u \<or> (\<exists>i \<in> set (ty_interfaces r). subtype P i u)" for u
      using r by (subst subtype_iff) auto
    ultimately show ?thesis using False us(2) vs(2) by auto
  qed (simp add: ret_apply)
qed (simp add: enough_def)

text \<open>Services that always have memory and keep the flags of the types.\<close>

definition memory_there :: "'e linker \<Rightarrow> bool" where
  "memory_there L \<longleftrightarrow> (\<forall>n s. \<exists>s'. ln_stack_alloc L n s = (Inr (), s')) \<and> (\<forall>l n s. \<exists>s'. ln_cl_alloc L l n s = (Inr (), s'))"

lemma with_types_run:
  assumes "\<And>a. a \<in> set as \<Longrightarrow> \<exists>r. pr_types P a = Some r"
  shows "with_types P as s = (Inr (map (\<lambda>a. (a, the (pr_types P a))) as), s)"
  unfolding with_types_def by (rule follow_pointers) (use assms type_at_run in fastforce)

text \<open>
  C32: The table that a class gets when it is resolved holds exactly its supertypes, each in the bucket of
  its hash, when the tables of the interfaces of it and of its superclasses do; this is what the test of
  types relies on. An allocation that fails apart, the derivation always comes to an end.
\<close>

theorem instanceof_table_holds_supertypes:
  assumes "lookups_ok (ln_program L) rank" and "pr_types (ln_program L) t = Some r" and "interfaces_done (ln_program L) t"
    and "memory_there L"
  shows "\<exists>table s'. derive_instanceof_table L t s = (Inr table, s') \<and> supertype_table (ln_program L) t table"
proof -
  let ?P = "ln_program L"
  obtain ts where ts: "scan_supers (chain_fuel ?P) ?P t s = (Inr ts, s)" "set ts = {u. subtype ?P t u}"
    using scan_supers_run [OF assms(1) enough_depth [OF assms(1,2)]] type_facts(1) [OF assms(1,2)] assms(3) by fastforce
  obtain s1 where s1: "ln_stack_alloc L (of_nat (length ts * 4)) s = (Inr (), s1)" using assms(4) unfolding memory_there_def by blast
  let ?trs = "map (\<lambda>a. (a, the (pr_types ?P a))) ts"
  have trs: "with_types ?P ts s1 = (Inr ?trs, s1)"
    by (rule with_types_run) (use ts(2) subtype_there [OF _ assms(1,2)] in blast)
  define us where "us = squeeze (qsort type_sorter ?trs)"
  obtain s2 where s2: "ln_stack_alloc L (of_nat (length us * 4)) s1 = (Inr (), s2)" using assms(4) unfolding memory_there_def by blast
  define b where "b = put_all 0 (map (\<lambda>u. ty_hash (snd u)) us) (no_buckets (length us))"
  have b: "buckets_hold (length us) (map (\<lambda>u. ty_hash (snd u)) us) b"
    using all_put [of "map (\<lambda>u. ty_hash (snd u)) us"] by (simp add: b_def)
  obtain s3 where s3: "ln_cl_alloc L (ty_loader r) (of_nat ((128 + length us + bk_nonempty b) * 4)) s2 = (Inr (), s3)"
    using assms(4) unfolding memory_there_def by blast
  have run: "derive_instanceof_table L t s = (Inr (fill_table b (map fst us)), s3)"
    by (simp add: derive_instanceof_table_def Let_def ts(1) s1 trs us_def [symmetric] s2 b_def [symmetric] type_at_run [OF assms(2)] s3 ret_apply
        del: of_nat_mult of_nat_add distrib_right_numeral)
  let ?h = "\<lambda>a. ty_hash (the (pr_types ?P a))"
  have us: "set us = (\<lambda>a. (a, the (pr_types ?P a))) ` {u. subtype ?P t u}"
    by (simp add: us_def set_squeeze type_names.set_qsort ts(2))
  then have "map (\<lambda>u. ty_hash (snd u)) us = map ?h (map fst us)" by auto
  with b have table: "fill_table b (map fst us) = table_of ?h (map fst us)"
    by (intro fill_table_lists) simp
  have fst: "fst ` set us = {u. subtype ?P t u}" by (simp add: us image_comp comp_def)
  have "supertype_table ?P t (table_of ?h (map fst us))"
    unfolding supertype_table_def
  proof (intro conjI allI impI)
    fix k u assume "k < (128 :: nat)"
    then show "(\<exists>vs. table_of ?h (map fst us) ! k = Some vs \<and> u \<in> set vs)
        \<longleftrightarrow> subtype ?P t u \<and> (\<exists>r. pr_types ?P u = Some r \<and> bucket_of (ty_hash r) = k)"
      using subtype_there [OF _ assms(1,2), of u] by (auto simp: table_of_nth fst)
  qed (simp add: table_of_def)
  then show ?thesis using run table by simp
qed

text \<open>The program \<open>family\<close>, with the table of its interface made by hand.\<close>

definition hashed :: "jtype option \<Rightarrow> jtype option" where
  "hashed = map_option (\<lambda>r. r\<lparr>ty_hash := of_nat (length (ty_name r)), ty_instanceof := hash_table [(1, [80]), (6, [64])]\<rparr>)"

definition hashed_family :: program where
  "hashed_family = family\<lparr>pr_types := (\<lambda>t. hashed (family_types t))\<rparr>"

definition hashed_linker :: "unit linker" where
  "hashed_linker = family_linker\<lparr>ln_program := hashed_family\<rparr>"

lemma hashed_sel [simp]:
  "pr_types hashed_family t = hashed (family_types t)" "pr_methods hashed_family = pr_methods family"
  "pr_fields hashed_family = pr_fields family" "pr_depth hashed_family = 3" "ln_program hashed_linker = hashed_family"
  by (simp_all add: hashed_family_def hashed_linker_def family_at)

lemma hashed_some: "hashed x = Some r' \<longleftrightarrow> (\<exists>r. x = Some r
    \<and> r' = r\<lparr>ty_hash := of_nat (length (ty_name r)), ty_instanceof := hash_table [(1, [80]), (6, [64])]\<rparr>)"
  by (auto simp: hashed_def)

lemma hashed_family_ok: "lookups_ok hashed_family family_rank"
proof -
  have "members_ok hashed_family r \<longleftrightarrow> members_ok family r" for r by (simp add: members_ok_def)
  moreover have "members_ok family (r\<lparr>ty_hash := h, ty_instanceof := tab\<rparr>) \<longleftrightarrow> members_ok family r" for r h tab
    by (simp add: members_ok_def)
  moreover have "supertypes_ok hashed_family = supertypes_ok family"
    by (auto simp: supertypes_ok_def fun_eq_iff family_at domIff hashed_def)
  ultimately show ?thesis
    using family_ok unfolding lookups_ok_def by (auto simp: domIff family_at hashed_some)
qed

inductive_simps chain_iff: "chain P t u"

lemma hashed_supers:
  "subtype hashed_family 64 u \<longleftrightarrow> u = 64" "subtype hashed_family 80 u \<longleftrightarrow> u = 80 \<or> u = 64"
  "chain hashed_family 64 u \<longleftrightarrow> u = 64" "chain hashed_family 96 u \<longleftrightarrow> u = 96 \<or> u = 64" "chain hashed_family 112 u \<longleftrightarrow> u = 112 \<or> u = 96 \<or> u = 64"
proof -
  show s: "subtype hashed_family 64 u \<longleftrightarrow> u = 64" by (subst subtype_iff) (auto simp: hashed_def family_types_def)
  then show "subtype hashed_family 80 u \<longleftrightarrow> u = 80 \<or> u = 64" by (subst subtype_iff) (auto simp: hashed_def family_types_def)
  show a: "chain hashed_family 64 u \<longleftrightarrow> u = 64" by (subst chain_iff) (auto simp: hashed_def family_types_def)
  then show b: "chain hashed_family 96 u \<longleftrightarrow> u = 96 \<or> u = 64" by (subst chain_iff) (auto simp: hashed_def family_types_def)
  then show "chain hashed_family 112 u \<longleftrightarrow> u = 112 \<or> u = 96 \<or> u = 64" by (subst chain_iff) (auto simp: hashed_def family_types_def)
qed

lemma hashed_interface: "supertype_table hashed_family 80 (hash_table [(1, [80]), (6, [64])])"
proof -
  have b: "bucket_of 1 = 1" "bucket_of 6 = 6" by (simp_all add: bucket_of_def)
  show ?thesis
    unfolding supertype_table_def
    by (auto simp: hash_table_nth hashed_supers hashed_def family_types_def c_str_def b) (simp_all add: hash_table_def)
qed

lemma hashed_interfaces: "interfaces_done hashed_family 112"
  unfolding interfaces_done_def using hashed_interface by (auto simp: hashed_supers hashed_def family_types_def)

lemma hashed_memory: "memory_there hashed_linker"
  by (simp add: memory_there_def hashed_linker_def family_linker_def ret_apply)

theorem instanceof_table_holds_supertypes_witness:
  "\<exists>table s'. derive_instanceof_table hashed_linker 112 family_state = (Inr table, s') \<and> supertype_table hashed_family 112 table"
proof -
  have "pr_types (ln_program hashed_linker) 112 = Some (the (hashed (family_types 112)))" by (simp add: hashed_def family_types_def)
  from instanceof_table_holds_supertypes [of hashed_linker family_rank 112 _ family_state, OF _ this] show ?thesis
    using hashed_family_ok hashed_interfaces hashed_memory by simp
qed

text \<open>With such a table the test of types is right.\<close>

lemma supertype_table_base_ok:
  assumes "supertype_table (vm_program vm) t (ty_instanceof r)" and "pr_types (vm_program vm) t = Some r"
    and "\<not> flg_test (w_flags w t) TYPE_ARRAY" and "flg_test (w_flags w t) TYPE_RESOLVED"
  shows "base_ok vm w t"
proof -
  have "length (ty_instanceof r) = 128" using assms(1) by (simp add: supertype_table_def)
  moreover have "subtype (vm_program vm) t u \<longleftrightarrow> (\<exists>us. ty_instanceof r ! unat (ty_hash r' AND 127) = Some us \<and> u \<in> set us)"
    if "pr_types (vm_program vm) u = Some r'" for u r'
  proof -
    from assms(1) have "\<And>k. k < 128 \<Longrightarrow> (\<exists>us. ty_instanceof r ! k = Some us \<and> u \<in> set us)
        \<longleftrightarrow> subtype (vm_program vm) t u \<and> (\<exists>r. pr_types (vm_program vm) u = Some r \<and> bucket_of (ty_hash r) = k)"
      unfolding supertype_table_def by blast
    from this [OF bucket_of_less, of "ty_hash r'"] that show ?thesis by (simp add: bucket_of_def)
  qed
  ultimately show ?thesis using assms(2-4) unfolding base_ok_def by blast
qed

end
