(* ===== verification/Resolve_Iface.thy ===== *)
theory Resolve_Iface
  imports Resolve_Tables Interp
begin

text \<open>
  What the table of the interface methods holds: for every method of the interfaces of a class, the method
  that implements it, which \<open>invokeinterface\<close> then finds.
\<close>

section \<open>Superinterfaces and implementations\<close>

inductive superface :: "program \<Rightarrow> u32 \<Rightarrow> u32 \<Rightarrow> bool" for P :: program where
  superface_here: "pr_types P t = Some r \<Longrightarrow> i \<in> set (ty_interfaces r) \<Longrightarrow> superface P t i"
| superface_up: "pr_types P t = Some r \<Longrightarrow> i \<in> set (ty_interfaces r) \<Longrightarrow> superface P i u \<Longrightarrow> superface P t u"
| superface_class: "pr_types P t = Some r \<Longrightarrow> ty_superclass r \<noteq> null \<Longrightarrow> superface P (ty_superclass r) u \<Longrightarrow> superface P t u"

inductive_simps superface_iff: "superface P t u"

definition iface_method :: "program \<Rightarrow> u32 \<Rightarrow> u32 \<Rightarrow> jmethod \<Rightarrow> bool" where
  "iface_method P t m x \<longleftrightarrow> (\<exists>u r. superface P t u \<and> pr_types P u = Some r \<and> m \<in> set (ty_methods r)
     \<and> pr_methods P m = Some x \<and> \<not> acc_test (me_access x) ACC_STATIC)"

text \<open>A public instance method of the class with that name and signature, or of the nearest superclass with one.\<close>

definition implements_here :: "program \<Rightarrow> method_key \<Rightarrow> u32 \<Rightarrow> u32 \<Rightarrow> bool" where
  "implements_here P key t m \<longleftrightarrow> (\<exists>r x. pr_types P t = Some r \<and> m \<in> set (ty_methods r) \<and> pr_methods P m = Some x
     \<and> method_key x = key \<and> \<not> acc_test (me_access x) ACC_STATIC \<and> acc_test (me_access x) ACC_PUBLIC)"

inductive implements :: "program \<Rightarrow> method_key \<Rightarrow> u32 \<Rightarrow> u32 \<Rightarrow> bool" for P :: program and key :: method_key where
  implements_class: "implements_here P key t m \<Longrightarrow> implements P key t m"
| implements_super: "(\<And>m'. \<not> implements_here P key t m') \<Longrightarrow> pr_types P t = Some r \<Longrightarrow> ty_superclass r \<noteq> null
    \<Longrightarrow> implements P key (ty_superclass r) m \<Longrightarrow> implements P key t m"

lemma implements_key: "implements P key t m \<Longrightarrow> \<exists>x. pr_methods P m = Some x \<and> method_key x = key"
  by (induction rule: implements.induct) (auto simp: implements_here_def)

lemma implements_type: "implements P key t m \<Longrightarrow> \<exists>r. pr_types P t = Some r"
  by (induction rule: implements.induct) (auto simp: implements_here_def)

lemma members_unique:
  assumes "members_ok P r" and "a \<in> set (ty_methods r)" and "b \<in> set (ty_methods r)"
    and "method_key (the (pr_methods P a)) = method_key (the (pr_methods P b))"
  shows "a = b"
proof -
  have "sorted_wrt (\<lambda>a b. method_compare (method_key (the (pr_methods P a))) (method_key (the (pr_methods P b))) < 0) (ty_methods r)"
    using assms(1) by (simp add: members_ok_def)
  from methods.found_unique [OF this assms(2,3)] show ?thesis using assms(4) by (simp add: method_compare_zero)
qed

lemma implements_here_unique:
  assumes ok: "lookups_ok P rank" and "implements_here P key t a" and "implements_here P key t b"
  shows "a = b"
proof -
  obtain r where r: "pr_types P t = Some r" "a \<in> set (ty_methods r)" "method_key (the (pr_methods P a)) = key"
    using assms(2) by (auto simp: implements_here_def)
  obtain r' where r': "pr_types P t = Some r'" "b \<in> set (ty_methods r')" "method_key (the (pr_methods P b)) = key"
    using assms(3) by (auto simp: implements_here_def)
  show ?thesis using members_unique [OF type_facts(2) [OF ok r(1)], of a b] r r' by simp
qed

lemma implements_unique:
  "implements P key t m \<Longrightarrow> lookups_ok P rank \<Longrightarrow> implements P key t m' \<Longrightarrow> m' = m"
proof (induction arbitrary: m' rule: implements.induct)
  case (implements_class t m)
  then show ?case by (auto elim: implements.cases dest: implements_here_unique)
next
  case (implements_super t r m)
  note IH = implements_super.IH [OF implements_super.prems(1)]
  from implements_super.prems(2) show ?case
  proof (cases rule: implements.cases)
    case implements_class
    with implements_super.hyps(1) show ?thesis by blast
  next
    case (implements_super r')
    with \<open>pr_types P t = Some r\<close> IH show ?thesis by simp
  qed
qed

lemma method_lookup_run:
  assumes "members_ok P r" and "pr_types P t = Some r"
  shows "\<exists>res. method_lookup P t key s = (Inr res, s) \<and> (case res of
      Some m \<Rightarrow> m \<in> set (ty_methods r) \<and> (\<exists>x. pr_methods P m = Some x \<and> method_key x = method_key key \<and> \<not> acc_test (me_access x) ACC_STATIC)
    | None \<Rightarrow> \<forall>m x. m \<in> set (ty_methods r) \<longrightarrow> pr_methods P m = Some x \<longrightarrow> method_key x = method_key key \<longrightarrow> acc_test (me_access x) ACC_STATIC)"
proof -
  let ?ms = "map (\<lambda>a. (a, the (pr_methods P a))) (ty_methods r)"
  let ?c = "\<lambda>p. method_compare (method_key key) (method_key (snd p))"
  have sorted: "sorted_wrt (\<lambda>x y. method_compare (method_key (snd x)) (method_key (snd y)) < 0) ?ms"
    using assms(1) by (simp add: members_ok_def sorted_wrt_map)
  note found = bsearch_finds [OF methods.falling_sorted [where k = "\<lambda>p. method_key (snd p)" and key = "method_key key", OF sorted]]
  have run: "method_lookup P t key s = (Inr (case bsearch ?c ?ms of None \<Rightarrow> None
      | Some (a, m) \<Rightarrow> if acc_test (me_access m) ACC_STATIC then None else Some a), s)"
    using assms by (simp add: method_lookup_def type_at_def methods_run bindM_def ret_def split: option.splits prod.splits)
  have dom: "\<And>a. a \<in> set (ty_methods r) \<Longrightarrow> pr_methods P a = Some (the (pr_methods P a))"
    using assms(1) by (auto simp: members_ok_def)
  show ?thesis
  proof (cases "bsearch ?c ?ms")
    case None
    then have "method_key key \<noteq> method_key (the (pr_methods P a))" if "a \<in> set (ty_methods r)" for a
      using found(2) that by (simp add: method_compare_zero)
    then have "\<forall>m x. m \<in> set (ty_methods r) \<longrightarrow> pr_methods P m = Some x \<longrightarrow> method_key x = method_key key \<longrightarrow> acc_test (me_access x) ACC_STATIC"
      by (metis option.sel)
    with run None show ?thesis by simp
  next
    case (Some q)
    then obtain m where m: "q = (m, the (pr_methods P m))" "m \<in> set (ty_methods r)" "method_key (the (pr_methods P m)) = method_key key"
      using found(1) [of q] by (auto simp: method_compare_zero)
    have only: "a = m" if "a \<in> set (ty_methods r)" "pr_methods P a = Some x" "method_key x = method_key key" for a x
      using members_unique [OF assms(1) that(1) m(2)] that m(3) by simp
    have at: "method_lookup P t key s = (Inr (if acc_test (me_access (the (pr_methods P m))) ACC_STATIC then None else Some m), s)"
      using run by (simp only: Some m(1)) simp
    show ?thesis
    proof (cases "acc_test (me_access (the (pr_methods P m))) ACC_STATIC")
      case True
      with only have "\<forall>a x. a \<in> set (ty_methods r) \<longrightarrow> pr_methods P a = Some x \<longrightarrow> method_key x = method_key key \<longrightarrow> acc_test (me_access x) ACC_STATIC"
        by (metis option.sel)
      with at True show ?thesis by simp
    next
      case False
      then have "\<exists>x. pr_methods P m = Some x \<and> method_key x = method_key key \<and> \<not> acc_test (me_access x) ACC_STATIC"
        using dom [OF m(2)] m(3) by blast
      with at False m(2) show ?thesis by simp
    qed
  qed
qed

lemma implementation_run:
  assumes ok: "lookups_ok P rank" and "enough P rank n t"
  shows "(\<exists>m. implements P (method_key im) t m \<and> implementation n P im t s = (Inr (m, the (pr_methods P m)), s))
    \<or> (\<forall>m. \<not> implements P (method_key im) t m) \<and> implementation n P im t s = (Inl (Exn NoSuchMethodError), s)"
  using assms(2)
proof (induction n arbitrary: t)
  case (Suc n)
  show ?case
  proof (cases "t = null")
    case True
    then show ?thesis using implements_type [of P _ t] type_facts(1) [OF ok] by (fastforce simp: fails_def)
  next
    case False
    with Suc.prems obtain r where r: "pr_types P t = Some r" by (auto simp: enough_def)
    obtain res where res: "method_lookup P t im s = (Inr res, s)" "case res of
        Some m \<Rightarrow> m \<in> set (ty_methods r) \<and> (\<exists>x. pr_methods P m = Some x \<and> method_key x = method_key im \<and> \<not> acc_test (me_access x) ACC_STATIC)
      | None \<Rightarrow> \<forall>m x. m \<in> set (ty_methods r) \<longrightarrow> pr_methods P m = Some x \<longrightarrow> method_key x = method_key im \<longrightarrow> acc_test (me_access x) ACC_STATIC"
      using method_lookup_run [OF type_facts(2) [OF ok r] r, of im s] by blast
    have sup: "implements P (method_key im) (ty_superclass r) m \<Longrightarrow> ty_superclass r \<noteq> null" for m
      using implements_type [of P _ "ty_superclass r"] type_facts(1) [OF ok] by blast
    have above: ?thesis if none: "\<And>m. \<not> implements_here P (method_key im) t m"
      and run: "implementation (Suc n) P im t s = implementation n P im (ty_superclass r) s"
    proof -
      have "implements P (method_key im) t m \<longleftrightarrow> implements P (method_key im) (ty_superclass r) m" for m
        using none r sup [of m] by (auto elim: implements.cases intro: implements_super)
      then show ?thesis using Suc.IH [OF enough_super [OF ok Suc.prems r]] unfolding run by simp
    qed
    show ?thesis
    proof (cases res)
      case None
      have "implementation (Suc n) P im t s = implementation n P im (ty_superclass r) s"
        using False None res(1) by (simp add: type_at_run [OF r])
      moreover have "\<not> implements_here P (method_key im) t m" for m using res(2) None r by (auto simp: implements_here_def)
      ultimately show ?thesis by (intro above)
    next
      case (Some m)
      then obtain x where x: "m \<in> set (ty_methods r)" "pr_methods P m = Some x" "method_key x = method_key im" "\<not> acc_test (me_access x) ACC_STATIC"
        using res(2) by auto
      show ?thesis
      proof (cases "acc_test (me_access x) ACC_PUBLIC")
        case True
        then have "implementation (Suc n) P im t s = (Inr (m, x), s)"
          using False Some res(1) x(2) by (simp add: type_at_run [OF r] method_at_def ret_apply)
        moreover have "implements P (method_key im) t m"
          using x True r by (intro implements_class) (auto simp: implements_here_def)
        ultimately show ?thesis using x(2) by auto
      next
        case hidden: False
        have "implementation (Suc n) P im t s = implementation n P im (ty_superclass r) s"
          using False Some res(1) x(2) hidden by (simp add: type_at_run [OF r] method_at_def ret_apply)
        moreover have "\<not> implements_here P (method_key im) t a" for a
          using members_unique [OF type_facts(2) [OF ok r], of a m] x hidden r by (auto simp: implements_here_def)
        ultimately show ?thesis by (intro above)
      qed
    qed
  qed
qed (simp add: enough_def)

section \<open>Collecting the methods of the interfaces\<close>

lemma concat_all_run:
  assumes "\<And>x. x \<in> set xs \<Longrightarrow> \<exists>ys. f x s = (Inr ys, s) \<and> set ys = Y x"
  shows "\<exists>zs. concat_all f xs s = (Inr zs, s) \<and> set zs = (\<Union>x \<in> set xs. Y x)"
  using assms
proof (induction xs)
  case (Cons x xs)
  obtain ys where ys: "f x s = (Inr ys, s)" "set ys = Y x" using Cons.prems [of x] by auto
  obtain zs where "concat_all f xs s = (Inr zs, s)" "set zs = (\<Union>x \<in> set xs. Y x)" using Cons by fastforce
  with ys show ?case by (simp add: ret_apply)
qed (simp add: ret_apply)

definition instance_methods_of :: "program \<Rightarrow> u32 \<Rightarrow> (u32 \<times> jmethod) set" where
  "instance_methods_of P u = {(m, x). \<exists>r. pr_types P u = Some r \<and> m \<in> set (ty_methods r) \<and> pr_methods P m = Some x
     \<and> \<not> acc_test (me_access x) ACC_STATIC}"

lemma iface_method_iff: "iface_method P t m x \<longleftrightarrow> (\<exists>u. superface P t u \<and> (m, x) \<in> instance_methods_of P u)"
  by (auto simp: iface_method_def instance_methods_of_def)

lemma instance_methods_run:
  assumes "members_ok P r" and "pr_types P t = Some r"
  shows "\<exists>ms. instance_methods P r s = (Inr ms, s) \<and> set ms = instance_methods_of P t"
proof -
  have dom: "\<And>a. a \<in> set (ty_methods r) \<Longrightarrow> \<exists>x. pr_methods P a = Some x" using assms(1) by (auto simp: members_ok_def)
  have "instance_methods P r s = (Inr (filter (\<lambda>m. \<not> acc_test (me_access (snd m)) ACC_STATIC) (map (\<lambda>a. (a, the (pr_methods P a))) (ty_methods r))), s)"
    by (simp add: instance_methods_def methods_run [OF assms(1)] ret_apply)
  moreover have "set (filter (\<lambda>m. \<not> acc_test (me_access (snd m)) ACC_STATIC) (map (\<lambda>a. (a, the (pr_methods P a))) (ty_methods r))) = instance_methods_of P t"
    using assms(2) dom by (fastforce simp: instance_methods_of_def image_iff)
  ultimately show ?thesis by blast
qed

lemma superface_step:
  "pr_types P t = Some r \<Longrightarrow> superface P t u \<longleftrightarrow> (\<exists>i \<in> set (ty_interfaces r). u = i \<or> superface P i u)
    \<or> ty_superclass r \<noteq> null \<and> superface P (ty_superclass r) u"
  by (subst superface_iff) auto

lemma add_iface_methods_run:
  assumes ok: "lookups_ok P rank"
  shows "pr_types P t = Some r \<Longrightarrow> rank t < n \<Longrightarrow>
    \<exists>ms. add_iface_methods n P t s = (Inr ms, s) \<and> set ms = (\<Union>u \<in> {u. superface P t u}. instance_methods_of P u)"
proof (induction n arbitrary: t r)
  case (Suc n)
  let ?Y = "\<lambda>i. instance_methods_of P i \<union> (\<Union>u \<in> {u. superface P i u}. instance_methods_of P u)"
  let ?f = "\<lambda>i. bindM (type_at P i) (\<lambda>ir. bindM (instance_methods P ir) (\<lambda>ms. bindM (add_iface_methods n P i) (\<lambda>up. ret (ms @ up))))"
  have "\<exists>ys. ?f i s = (Inr ys, s) \<and> set ys = ?Y i" if i: "i \<in> set (ty_interfaces r)" for i
  proof -
    obtain ir where ir: "pr_types P i = Some ir" "rank i < n" using super_facts(2) [OF ok Suc.prems(1) i] Suc.prems(2) by auto
    obtain ms where ms: "instance_methods P ir s = (Inr ms, s)" "set ms = instance_methods_of P i"
      using instance_methods_run [OF type_facts(2) [OF ok ir(1)] ir(1), of s] by (elim exE conjE) (rule that)
    obtain up where up: "add_iface_methods n P i s = (Inr up, s)" "set up = (\<Union>u \<in> {u. superface P i u}. instance_methods_of P u)"
      using Suc.IH [OF ir] by blast
    have "?f i s = (Inr (ms @ up), s)" by (simp add: type_at_run [OF ir(1)] ms(1) up(1) ret_apply)
    moreover have "set (ms @ up) = ?Y i" unfolding set_append ms(2) up(2) by (rule refl)
    ultimately show ?thesis by blast
  qed
  from concat_all_run [of "ty_interfaces r" ?f s ?Y, OF this]
  obtain ms where ms: "concat_all ?f (ty_interfaces r) s = (Inr ms, s)" "set ms = (\<Union>i \<in> set (ty_interfaces r). ?Y i)" by blast
  show ?case
  proof (cases "ty_superclass r = null")
    case True
    then have "add_iface_methods (Suc n) P t s = (Inr ms, s)" by (simp add: type_at_run [OF Suc.prems(1)] ms(1) ret_apply)
    moreover have "set ms = (\<Union>u \<in> {u. superface P t u}. instance_methods_of P u)"
      unfolding ms(2) superface_step [OF Suc.prems(1)] using True by blast
    ultimately show ?thesis by blast
  next
    case False
    obtain r' where r': "pr_types P (ty_superclass r) = Some r'" "rank (ty_superclass r) < n"
      using super_facts(1) [OF ok Suc.prems(1) False] Suc.prems(2) by auto
    obtain up where up: "add_iface_methods n P (ty_superclass r) s = (Inr up, s)"
      "set up = (\<Union>u \<in> {u. superface P (ty_superclass r) u}. instance_methods_of P u)" using Suc.IH [OF r'] by blast
    have "add_iface_methods (Suc n) P t s = (Inr (ms @ up), s)"
      using False by (simp add: type_at_run [OF Suc.prems(1)] ms(1) up(1) ret_apply)
    moreover have "set (ms @ up) = (\<Union>u \<in> {u. superface P t u}. instance_methods_of P u)"
      unfolding set_append ms(2) up(2) superface_step [OF Suc.prems(1)] using False by blast
    ultimately show ?thesis by blast
  qed
qed simp

lemma all_iface_methods_run:
  assumes ok: "lookups_ok P rank" and "enough P rank n t"
  shows "\<exists>ms. all_iface_methods n P t s = (Inr ms, s)
    \<and> set ms = (if t = null then {} else \<Union>u \<in> {u. superface P t u}. instance_methods_of P u)"
  using assms(2)
proof (induction n arbitrary: t)
  case (Suc n)
  show ?case
  proof (cases "t = null")
    case False
    with Suc.prems obtain r where r: "pr_types P t = Some r" by (auto simp: enough_def)
    have "rank t < chain_fuel P" using type_facts(3) [OF ok r] by (simp add: chain_fuel_def)
    from add_iface_methods_run [OF ok r this, of s] obtain ms where ms: "add_iface_methods (chain_fuel P) P t s = (Inr ms, s)"
      "set ms = (\<Union>u \<in> {u. superface P t u}. instance_methods_of P u)" by blast
    obtain up where up: "all_iface_methods n P (ty_superclass r) s = (Inr up, s)"
      "set up = (if ty_superclass r = null then {} else \<Union>u \<in> {u. superface P (ty_superclass r) u}. instance_methods_of P u)"
      using Suc.IH [OF enough_super [OF ok Suc.prems r]] by blast
    have "all_iface_methods (Suc n) P t s = (Inr (ms @ up), s)"
      using False by (simp add: type_at_run [OF r] ms(1) up(1) ret_apply)
    moreover have "set (ms @ up) = (\<Union>u \<in> {u. superface P t u}. instance_methods_of P u)"
      unfolding set_append ms(2) up(2) using superface_class [OF r] by auto
    ultimately show ?thesis using False by auto
  qed (simp add: ret_apply)
qed (simp add: enough_def)

section \<open>The table\<close>

text \<open>No two signatures have the same hash.\<close>

definition hashes_apart :: "program \<Rightarrow> bool" where
  "hashes_apart P \<longleftrightarrow> (\<forall>m x m' x'. pr_methods P m = Some x \<longrightarrow> pr_methods P m' = Some x' \<longrightarrow>
     (me_signature_hash x = me_signature_hash x' \<longleftrightarrow> method_key x = method_key x'))"

text \<open>The loop of \<open>invokeinterface\<close> over a bucket comes to the method.\<close>

definition selects :: "program \<Rightarrow> u32 list option list \<Rightarrow> u64 \<Rightarrow> u32 \<Rightarrow> bool" where
  "selects P table h m \<longleftrightarrow> (\<exists>ms. table ! bucket_of h = Some ms \<and> (\<forall>(vm :: unit vm) w. vm_program vm = P \<longrightarrow> find_method vm h ms w = (Inr (Some m), w)))"

lemma find_method_run:
  assumes "m \<in> set ms" and "\<And>a. a \<in> set ms \<Longrightarrow> \<exists>x. pr_methods (vm_program vm) a = Some x \<and> (me_signature_hash x = h \<longleftrightarrow> a = m)"
  shows "find_method vm h ms w = (Inr (Some m), w)"
  using assms
proof (induction ms)
  case (Cons a ms)
  obtain x where x: "pr_methods (vm_program vm) a = Some x" "me_signature_hash x = h \<longleftrightarrow> a = m" using Cons.prems(2) [of a] by auto
  show ?case
  proof (cases "a = m")
    case False
    with Cons.prems(1) have "m \<in> set ms" by simp
    with Cons.IH Cons.prems(2) x False show ?thesis by (simp add: the_method_def)
  qed (use x in \<open>simp add: the_method_def ret_apply\<close>)
qed simp

lemma implementations_run:
  assumes ok: "lookups_ok P rank" and "pr_types P t = Some r"
  shows "if \<forall>im \<in> set ims. \<exists>m. implements P (method_key (snd im)) t m
    then \<exists>found. mapM (\<lambda>im. implementation (chain_fuel P) P (snd im) t) ims s = (Inr found, s)
      \<and> set found = (\<lambda>m. (m, the (pr_methods P m))) ` {m. \<exists>im \<in> set ims. implements P (method_key (snd im)) t m}
    else mapM (\<lambda>im. implementation (chain_fuel P) P (snd im) t) ims s = (Inl (Exn NoSuchMethodError), s)"
proof (induction ims)
  case (Cons im ims)
  consider (some) m where "implements P (method_key (snd im)) t m"
      "implementation (chain_fuel P) P (snd im) t s = (Inr (m, the (pr_methods P m)), s)"
    | (none) "\<forall>m. \<not> implements P (method_key (snd im)) t m" "implementation (chain_fuel P) P (snd im) t s = (Inl (Exn NoSuchMethodError), s)"
    using implementation_run [OF ok enough_depth [OF assms], of "snd im" s] by blast
  then show ?case
  proof cases
    case some
    have only: "implements P (method_key (snd im)) t a \<longleftrightarrow> a = m" for a using implements_unique [OF some(1) ok] some(1) by blast
    show ?thesis
    proof (cases "\<forall>im \<in> set ims. \<exists>m. implements P (method_key (snd im)) t m")
      case True
      with Cons.IH obtain found where found: "mapM (\<lambda>im. implementation (chain_fuel P) P (snd im) t) ims s = (Inr found, s)"
        "set found = (\<lambda>m. (m, the (pr_methods P m))) ` {m. \<exists>im \<in> set ims. implements P (method_key (snd im)) t m}" by auto
      have "mapM (\<lambda>im. implementation (chain_fuel P) P (snd im) t) (im # ims) s = (Inr ((m, the (pr_methods P m)) # found), s)"
        by (simp add: some(2) found(1) ret_apply)
      moreover have "set ((m, the (pr_methods P m)) # found)
          = (\<lambda>m. (m, the (pr_methods P m))) ` {m. \<exists>im \<in> set (im # ims). implements P (method_key (snd im)) t m}"
        unfolding list.set found(2) by (auto simp: only)
      ultimately show ?thesis using True some(1) by auto
    next
      case False
      with Cons.IH have "mapM (\<lambda>im. implementation (chain_fuel P) P (snd im) t) ims s = (Inl (Exn NoSuchMethodError), s)" by simp
      with False some(2) show ?thesis by simp
    qed
  next
    case none
    then show ?thesis by simp
  qed
qed (simp add: ret_apply)

lemma selects_bucket:
  assumes "buckets_hold (length us) (map h us) b" and "m \<in> set us"
    and "\<And>a. a \<in> set us \<Longrightarrow> \<exists>x. pr_methods P a = Some x \<and> me_signature_hash x = h a \<and> (h a = h m \<longrightarrow> a = m)"
  shows "selects P (fill_table b us) (h m) m"
proof -
  have "m \<in> set us \<and> bucket_of (h m) = bucket_of (h m)" using assms(2) by simp
  then obtain ms where ms: "table_of h us ! bucket_of (h m) = Some ms" "m \<in> set ms"
    using table_of_nth [OF bucket_of_less, of h us "h m" m] by blast
  have sub: "set ms \<subseteq> set us" using table_of_nth [OF bucket_of_less, of h us "h m"] ms(1) by blast
  have "find_method vm (h m) ms w = (Inr (Some m), w)" if "vm_program vm = P" for vm :: "unit vm" and w
  proof (rule find_method_run [OF ms(2)])
    fix a assume "a \<in> set ms"
    then obtain x where "pr_methods P a = Some x" "me_signature_hash x = h a" "h a = h m \<longrightarrow> a = m" using sub assms(3) [of a] by blast
    then show "\<exists>x. pr_methods (vm_program vm) a = Some x \<and> (me_signature_hash x = h m \<longleftrightarrow> a = m)"
      using that by auto
  qed
  with ms(1) show ?thesis unfolding selects_def fill_table_lists [OF assms(1)] by blast
qed

lemma implementation_selected:
  fixes us :: "u32 list" and P :: program
  defines "h \<equiv> \<lambda>a. me_signature_hash (the (pr_methods P a))"
  assumes ok: "lookups_ok P rank" and apart: "hashes_apart P" and b: "buckets_hold (length us) (map h us) b"
    and keys: "\<And>a. a \<in> set us \<Longrightarrow> \<exists>key. implements P key t a" and m: "implements P (method_key x) t m" and us: "m \<in> set us"
    and px: "pr_methods P im = Some x"
  shows "selects P (fill_table b us) (me_signature_hash x) m
    \<and> (\<forall>m'. quick_table b us ! bucket_of (me_signature_hash x) = Some m' \<longrightarrow> m' = m)"
proof -
  obtain y where y: "pr_methods P m = Some y" "method_key y = method_key x" using implements_key [OF m] by blast
  have h: "me_signature_hash x = h m" using apart y px unfolding hashes_apart_def h_def by (metis option.sel)
  have "selects P (fill_table b us) (h m) m"
  proof (rule selects_bucket [OF b us])
    fix a assume "a \<in> set us"
    then obtain key where a: "implements P key t a" using keys by blast
    obtain z where z: "pr_methods P a = Some z" "method_key z = key" using implements_key [OF a] by blast
    have "a = m" if "me_signature_hash z = h m"
    proof -
      have "method_key z = method_key y" using apart z(1) y(1) that unfolding hashes_apart_def h_def by (metis option.sel)
      with a z(2) y(2) m show ?thesis using implements_unique [OF m ok] by simp
    qed
    with z(1) show "\<exists>x. pr_methods P a = Some x \<and> me_signature_hash x = h a \<and> (h a = h m \<longrightarrow> a = m)" by (simp add: h_def)
  qed
  moreover have "m' = m" if "quick_table b us ! bucket_of (h m) = Some m'" for m'
  proof -
    have "m \<in> set (filter (\<lambda>y. bucket_of (h y) = bucket_of (h m)) us)" using us by simp
    then show ?thesis unfolding quick_table_alone [OF b bucket_of_less that] by simp
  qed
  ultimately show ?thesis unfolding h by blast
qed

text \<open>
  C33: When a class is resolved, its table of interface methods gets, for every instance method of every
  interface that it or a superclass implements, the public method of the class that implements it, from
  the nearest superclass that has one, and \<open>invokeinterface\<close> finds it by the hash of its signature; the method
  in the quick table is the one for every interface method of its bucket. When there is none for some
  interface method, the derivation fails with \<open>NoSuchMethodError\<close>.
\<close>

theorem imethod_table_selects:
  assumes "lookups_ok (ln_program L) rank" and "pr_types (ln_program L) t = Some r" and "hashes_apart (ln_program L)"
    and "memory_there L"
  shows "if \<forall>im x. iface_method (ln_program L) t im x \<longrightarrow> (\<exists>m. implements (ln_program L) (method_key x) t m)
    then \<exists>table quick s'. derive_imethod_tables L t s = (Inr (table, quick), s')
      \<and> (\<forall>im x. iface_method (ln_program L) t im x \<longrightarrow> (\<exists>m. implements (ln_program L) (method_key x) t m
          \<and> selects (ln_program L) table (me_signature_hash x) m
          \<and> (\<forall>m'. quick ! bucket_of (me_signature_hash x) = Some m' \<longrightarrow> m' = m)))
    else \<exists>s'. derive_imethod_tables L t s = (Inl (Exn NoSuchMethodError), s')"
proof -
  let ?P = "ln_program L" and ?h = "\<lambda>a. me_signature_hash (the (pr_methods (ln_program L) a))"
  obtain ims where ims: "all_iface_methods (chain_fuel ?P) ?P t s = (Inr ims, s)"
    "set ims = (\<Union>u \<in> {u. superface ?P t u}. instance_methods_of ?P u)"
    using all_iface_methods_run [OF assms(1) enough_depth [OF assms(1,2)], of s] type_facts(1) [OF assms(1,2)] by auto
  have iff: "iface_method ?P t im x \<longleftrightarrow> (im, x) \<in> set ims" for im x by (auto simp: iface_method_iff ims(2))
  show ?thesis
  proof (cases "ims = []")
    case True
    have "derive_imethod_tables L t s = (Inr (replicate 128 None, replicate 128 None), s)"
      by (simp add: derive_imethod_tables_def Let_def ims(1) True ret_apply)
    then show ?thesis by (simp add: iff True)
  next
    case False
    obtain s1 where s1: "ln_stack_alloc L (of_nat (length ims * 4)) s = (Inr (), s1)" using assms(4) unfolding memory_there_def by blast
    note runs = implementations_run [OF assms(1,2), of ims s1]
    show ?thesis
    proof (cases "\<forall>im \<in> set ims. \<exists>m. implements ?P (method_key (snd im)) t m")
      case none: False
      with runs have "derive_imethod_tables L t s = (Inl (Exn NoSuchMethodError), s1)"
        by (simp add: derive_imethod_tables_def Let_def ims(1) False s1 del: of_nat_mult)
      moreover have "\<not> (\<forall>im x. iface_method ?P t im x \<longrightarrow> (\<exists>m. implements ?P (method_key x) t m))"
        using none by (fastforce simp: iff)
      ultimately show ?thesis by auto
    next
      case all: True
      with runs obtain found where found: "mapM (\<lambda>im. implementation (chain_fuel ?P) ?P (snd im) t) ims s1 = (Inr found, s1)"
        "set found = (\<lambda>m. (m, the (pr_methods ?P m))) ` {m. \<exists>im \<in> set ims. implements ?P (method_key (snd im)) t m}" by auto
      define us where "us = squeeze (qsort method_sorter_of found)"
      have us: "set us = (\<lambda>m. (m, the (pr_methods ?P m))) ` {m. \<exists>im \<in> set ims. implements ?P (method_key (snd im)) t m}"
        by (simp add: us_def set_squeeze method_names.set_qsort found(2))
      obtain s2 where s2: "ln_stack_alloc L (of_nat (length us * 4)) s1 = (Inr (), s2)" using assms(4) unfolding memory_there_def by blast
      define b where "b = put_all 0 (map (\<lambda>u. me_signature_hash (snd u)) us) (no_buckets (length us))"
      have hs: "map (\<lambda>u. me_signature_hash (snd u)) us = map ?h (map fst us)" using us by auto
      have b: "buckets_hold (length (map fst us)) (map ?h (map fst us)) b"
        using all_put [of "map ?h (map fst us)"] unfolding b_def hs by simp
      obtain s3 where s3: "ln_cl_alloc L (ty_loader r)
          (of_nat ((128 + (if bk_single b > 0 then 128 else 0) + length us + bk_nonempty b) * 4)) s2 = (Inr (), s3)"
        using assms(4) unfolding memory_there_def by blast
      have run: "derive_imethod_tables L t s = (Inr (fill_table b (map fst us), quick_table b (map fst us)), s3)"
        by (simp add: derive_imethod_tables_def Let_def ims(1) False s1 found(1) us_def [symmetric] s2 b_def [symmetric]
            type_at_run [OF assms(2)] s3 ret_apply del: of_nat_mult of_nat_add distrib_right_numeral if_split cong: if_cong)
      have fst: "fst ` set us = {m. \<exists>im \<in> set ims. implements ?P (method_key (snd im)) t m}"
        by (simp add: us image_comp comp_def)
      have "\<exists>m. implements ?P (method_key x) t m \<and> selects ?P (fill_table b (map fst us)) (me_signature_hash x) m
          \<and> (\<forall>m'. quick_table b (map fst us) ! bucket_of (me_signature_hash x) = Some m' \<longrightarrow> m' = m)"
        if im: "(im, x) \<in> set ims" for im x
      proof -
        from all im obtain m where m: "implements ?P (method_key x) t m" by fastforce
        have px: "pr_methods ?P im = Some x" using im by (auto simp: ims(2) instance_methods_of_def)
        have keys: "\<exists>key. implements ?P key t a" if "a \<in> set (map fst us)" for a
          using that unfolding set_map fst by blast
        have in_us: "m \<in> set (map fst us)" unfolding set_map fst using m im by (auto intro!: bexI [of _ "(im, x)"])
        from implementation_selected [OF assms(1,3) b keys m in_us px] m show ?thesis by blast
      qed
      moreover have "\<forall>im x. iface_method ?P t im x \<longrightarrow> (\<exists>m. implements ?P (method_key x) t m)" using all by (fastforce simp: iff)
      ultimately show ?thesis using run by (simp add: iff)
    qed
  qed
qed

lemma family_method_at:
  "pr_methods family m = Some x \<longleftrightarrow> m = 200 \<and> x = plain_method ''hash'' 64 ACC_PUBLIC
    \<or> m = 216 \<and> x = plain_method ''run'' 80 (ACC_PUBLIC OR ACC_ABSTRACT) \<or> m = 232 \<and> x = plain_method ''run'' 112 ACC_PUBLIC"
  by (auto simp: family_def)

lemma family_hashes: "hashes_apart hashed_family"
  unfolding hashes_apart_def hashed_sel family_method_at by (auto simp: plain_method_def method_key_def c_str_def)

lemma hashed_superface: "superface hashed_family 112 u \<longleftrightarrow> u = 80"
proof -
  have none: "\<not> superface hashed_family 64 u" "\<not> superface hashed_family 80 u" for u
    by (subst superface_iff; auto simp: hashed_def family_types_def superface_iff [of _ 64])+
  have "superface hashed_family 96 u \<longleftrightarrow> u = 80"
    by (subst superface_iff) (auto simp: hashed_def family_types_def none)
  then show ?thesis by (subst superface_iff) (auto simp: hashed_def family_types_def)
qed

definition iface_run :: jmethod where
  "iface_run = plain_method ''run'' 80 (ACC_PUBLIC OR ACC_ABSTRACT)"

lemma family_iface_method: "iface_method hashed_family 112 m x \<longleftrightarrow> m = 216 \<and> x = iface_run"
  unfolding iface_method_def hashed_superface hashed_sel family_method_at iface_run_def
  by (auto simp: hashed_def family_types_def plain_method_def acc_test_def)

lemma family_implements: "implements hashed_family (method_key iface_run) 112 m \<longleftrightarrow> m = 232"
proof -
  have here: "implements_here hashed_family (method_key iface_run) 112 m \<longleftrightarrow> m = 232" for m
  proof -
    have "hashed (family_types 112) = Some (the (hashed (family_types 112)))" "ty_methods (the (hashed (family_types 112))) = [232]"
      by (simp_all add: hashed_def family_types_def)
    moreover have "pr_methods family 232 = Some (iface_run\<lparr>me_class := 112, me_access := ACC_PUBLIC\<rparr>)"
      by (simp add: family_def iface_run_def plain_method_def)
    ultimately show ?thesis
      unfolding implements_here_def hashed_sel by (auto simp: acc_test_def method_key_def)
  qed
  show ?thesis
  proof
    assume "implements hashed_family (method_key iface_run) 112 m"
    then show "m = 232" by (cases rule: implements.cases) (use here in blast)+
  qed (simp add: implements_class here)
qed

theorem imethod_table_selects_witness:
  "\<exists>table quick s'. derive_imethod_tables hashed_linker 112 family_state = (Inr (table, quick), s') \<and> selects hashed_family table 3 232"
proof -
  have t: "pr_types (ln_program hashed_linker) 112 = Some (the (hashed (family_types 112)))" by (simp add: hashed_def family_types_def)
  have key: "me_signature_hash iface_run = 3" by (simp add: plain_method_def iface_run_def)
  from imethod_table_selects [of hashed_linker family_rank 112 _ family_state, OF _ t] show ?thesis
    using hashed_family_ok hashed_memory family_hashes by (auto simp: family_iface_method key family_implements)
qed

end
