(* ===== verification/Lock_State.thy ===== *)
theory Lock_State
  imports Jc_Prelude
begin

text \<open>
  Object monitors, \<open>libjc/lock.c\<close>: thin locks in the lockword of an object and fat locks in a table, as the
  threads of the machine work on them. A thread is at a place of \<open>_jc_lock_object\<close> or \<open>_jc_unlock_object\<close>;
  between two places it reads or writes what it shares with others once, or does so under a mutex. The
  steps of the threads may come in any order.
\<close>

section \<open>Lockwords\<close>

text \<open>The macros of \<open>libjc/definitions.h\<close>, and the identity of a thread as \<open>thread.c\<close> makes it.\<close>

abbreviation LW_FAT_BIT :: u32 where "LW_FAT_BIT \<equiv> 0x80000000"
abbreviation LW_FAT_ID_MASK :: u32 where "LW_FAT_ID_MASK \<equiv> 0x7fff0000"
abbreviation LW_THIN_TID_MASK :: u32 where "LW_THIN_TID_MASK \<equiv> 0x7fe00000"
abbreviation LW_THIN_COUNT_MASK :: u32 where "LW_THIN_COUNT_MASK \<equiv> 0x001f0000"
abbreviation LW_INFO_MASK :: u32 where "LW_INFO_MASK \<equiv> 0x0000ffff"

definition lw_fat :: "u32 \<Rightarrow> bool" where
  "lw_fat w \<longleftrightarrow> w AND LW_FAT_BIT \<noteq> 0"

definition lw_fat_id :: "u32 \<Rightarrow> nat" where
  "lw_fat_id w = unat (drop_bit 16 (w AND LW_FAT_ID_MASK))"

definition lw_thin_tid :: "u32 \<Rightarrow> nat" where
  "lw_thin_tid w = unat (drop_bit 21 (w AND LW_THIN_TID_MASK))"

definition lw_thin_count :: "u32 \<Rightarrow> nat" where
  "lw_thin_count w = unat (drop_bit 16 (w AND LW_THIN_COUNT_MASK))"

definition lw_info :: "u32 \<Rightarrow> u32" where
  "lw_info w = w AND LW_INFO_MASK"

definition thinlock_id :: "nat \<Rightarrow> u32" where
  "thinlock_id t = push_bit 21 (of_nat t)"

definition owned_by :: "nat \<Rightarrow> u32 \<Rightarrow> bool" where
  "owned_by t w \<longleftrightarrow> w AND LW_THIN_TID_MASK = thinlock_id t"

abbreviation MAX_THIN_RECURSION :: nat where "MAX_THIN_RECURSION \<equiv> 32"
abbreviation MAX_FATLOCKS :: nat where "MAX_FATLOCKS \<equiv> 0x8000"
abbreviation MAX_THREADS :: nat where "MAX_THREADS \<equiv> 0x400"

section \<open>State\<close>

text \<open>
  Where a thread is: outside, or in front of the next access. The places of locking are the read of the
  lockword at \<open>retry\<close>, the exchange, the store of a higher count, the inflation when the count is full, the
  mutex of the owner, the check of the owner under it, the wait in the list of the owner, and the fat
  lock; those of unlocking are the read, the store, the fat lock, the read of the contention flag, the
  mutex, and the loop over the waiters.
\<close>

datatype place =
    Outside
  | Lock_read u32
  | Lock_try u32 u32
  | Lock_store u32 u32
  | Lock_overflow u32
  | Lock_contend u32 nat
  | Lock_check u32 nat bool
  | Lock_sleep u32 nat
  | Lock_fat u32 nat
  | Unlock_read u32
  | Unlock_store u32 u32
  | Unlock_fat u32 nat
  | Unlock_check u32
  | Wake_begin u32
  | Wake u32 "nat list"

record fat_lock =
  fl_count :: nat
  fl_owner :: "nat option"

text \<open>
  Threads are numbers, as in the lockwords. A waiter is in the list of the thread that it took for the
  owner of the lock. The mutex is the one of that list. Two components are not in the code: how often
  a thread has entered a monitor and not left it, and the exception that the last call returned.
\<close>

record monitors =
  mo_word :: "u32 \<Rightarrow> u32"
  mo_fats :: "nat \<Rightarrow> fat_lock option"
  mo_next :: nat
  mo_free :: "nat list"
  mo_contention :: "nat \<Rightarrow> bool"
  mo_waiters :: "nat \<Rightarrow> nat list"
  mo_waiting :: "nat \<Rightarrow> u32"
  mo_mutex :: "nat \<Rightarrow> nat option"
  mo_at :: "nat \<Rightarrow> place"
  mo_entered :: "nat \<Rightarrow> u32 \<Rightarrow> nat"
  mo_status :: "nat \<Rightarrow> vmex option"

text \<open>What a thread does next: call one of the functions, go on, or go on without memory for a new fat lock.\<close>

datatype request = Enter u32 | Leave u32 | Go | No_memory

text \<open>A step goes to a new state, is a fault, or has to wait.\<close>

type_synonym outcome = "(failure + monitors) option"

abbreviation goes :: "monitors \<Rightarrow> outcome" where "goes s \<equiv> Some (Inr s)"
abbreviation faults :: outcome where "faults \<equiv> Some (Inl (Fault Bad_address))"
abbreviation waits :: outcome where "waits \<equiv> None"

definition go_to :: "nat \<Rightarrow> place \<Rightarrow> monitors \<Rightarrow> monitors" where
  "go_to t p s = s\<lparr>mo_at := (mo_at s)(t := p)\<rparr>"

definition leave :: "nat \<Rightarrow> vmex option \<Rightarrow> monitors \<Rightarrow> monitors" where
  "leave t e s = s\<lparr>mo_at := (mo_at s)(t := Outside), mo_status := (mo_status s)(t := e)\<rparr>"

definition set_lockword :: "u32 \<Rightarrow> u32 \<Rightarrow> monitors \<Rightarrow> monitors" where
  "set_lockword obj w s = s\<lparr>mo_word := (mo_word s)(obj := w)\<rparr>"

definition set_fat :: "nat \<Rightarrow> nat \<Rightarrow> nat option \<Rightarrow> monitors \<Rightarrow> monitors" where
  "set_fat i n own s = s\<lparr>mo_fats := (mo_fats s)(i \<mapsto> \<lparr>fl_count = n, fl_owner = own\<rparr>)\<rparr>"

definition count_entered :: "nat \<Rightarrow> u32 \<Rightarrow> (nat \<Rightarrow> nat) \<Rightarrow> monitors \<Rightarrow> monitors" where
  "count_entered t obj f s = s\<lparr>mo_entered := (mo_entered s)(t := (mo_entered s t)(obj := f (mo_entered s t obj)))\<rparr>"

section \<open>Inflation\<close>

text \<open>
  \<open>_jc_inflate_lock\<close>: a lock off the free list, or a new one when there are identities and memory left.
  The attempt to collect garbage in between is a step of its own. Only the owner of the thin lock
  inflates it, and the word is the last that it writes.
\<close>

definition got_lock :: "nat \<Rightarrow> u32 \<Rightarrow> nat \<Rightarrow> monitors \<Rightarrow> monitors" where
  "got_lock t obj i s = (let w = mo_word s obj in
     set_lockword obj (LW_FAT_BIT OR push_bit 16 (of_nat i) OR lw_info w) (set_fat i (lw_thin_count w + 1) (Some t) s))"

definition inflate_lock :: "nat \<Rightarrow> nat \<Rightarrow> u32 \<Rightarrow> request \<Rightarrow> monitors \<Rightarrow> vmex + monitors" where
  "inflate_lock limit t obj r s = (case mo_free s of
     i # is \<Rightarrow> Inr (got_lock t obj i (s\<lparr>mo_free := is\<rparr>))
   | [] \<Rightarrow> if limit \<le> mo_next s then Inl InternalError
       else if r = No_memory then Inl OutOfMemoryError
       else Inr (got_lock t obj (mo_next s) (s\<lparr>mo_next := mo_next s + 1\<rparr>)))"

section \<open>Locking\<close>

definition lock_read :: "nat \<Rightarrow> u32 \<Rightarrow> monitors \<Rightarrow> outcome" where
  "lock_read t obj s = goes (go_to t (Lock_try obj (mo_word s obj)) s)"

text \<open>The compare-and-swap, and where its failure leads with the word that was read before it.\<close>

definition lock_try :: "nat \<Rightarrow> u32 \<Rightarrow> u32 \<Rightarrow> monitors \<Rightarrow> outcome" where
  "lock_try t obj old s =
    (if mo_word s obj = lw_info old
     then goes (leave t None (count_entered t obj Suc (set_lockword obj (thinlock_id t OR lw_info old) s)))
     else if \<not> lw_fat old then
       (if owned_by t old
        then (let n = lw_thin_count old + 1 in
          if n < MAX_THIN_RECURSION
          then goes (go_to t (Lock_store obj (thinlock_id t OR push_bit 16 (of_nat n) OR lw_info old)) s)
          else goes (go_to t (Lock_overflow obj) s))
        else goes (go_to t (Lock_contend obj (lw_thin_tid old)) s))
     else goes (go_to t (Lock_fat obj (lw_fat_id old)) s))"

definition lock_store :: "nat \<Rightarrow> u32 \<Rightarrow> u32 \<Rightarrow> monitors \<Rightarrow> outcome" where
  "lock_store t obj w s = goes (leave t None (count_entered t obj Suc (set_lockword obj w s)))"

definition lock_overflow :: "nat \<Rightarrow> nat \<Rightarrow> u32 \<Rightarrow> request \<Rightarrow> monitors \<Rightarrow> outcome" where
  "lock_overflow limit t obj r s = (case inflate_lock limit t obj r s of
     Inl e \<Rightarrow> goes (leave t (Some e) s)
   | Inr s' \<Rightarrow> goes (go_to t (Lock_read obj) s'))"

text \<open>The slot 0 of the table of threads has no thread; its memory was never written.\<close>

definition lock_contend :: "nat \<Rightarrow> u32 \<Rightarrow> nat \<Rightarrow> monitors \<Rightarrow> outcome" where
  "lock_contend t obj own s =
    (if own = 0 then faults
     else if mo_mutex s own \<noteq> None then waits
     else goes (go_to t (Lock_check obj own (mo_contention s own))
       (s\<lparr>mo_mutex := (mo_mutex s)(own \<mapsto> t), mo_contention := (mo_contention s)(own := True)\<rparr>)))"

definition lock_check :: "nat \<Rightarrow> u32 \<Rightarrow> nat \<Rightarrow> bool \<Rightarrow> monitors \<Rightarrow> outcome" where
  "lock_check t obj own old_flag s =
    (if owned_by own (mo_word s obj)
     then goes (go_to t (Lock_sleep obj own) (s\<lparr>mo_waiters := (mo_waiters s)(own := t # mo_waiters s own),
       mo_waiting := (mo_waiting s)(t := obj), mo_mutex := (mo_mutex s)(own := None)\<rparr>))
     else goes (go_to t (Lock_read obj) (s\<lparr>mo_contention := (mo_contention s)(own := old_flag),
       mo_mutex := (mo_mutex s)(own := None)\<rparr>)))"

text \<open>Asleep as long as the thread is in the list\<close>

definition lock_sleep :: "nat \<Rightarrow> u32 \<Rightarrow> nat \<Rightarrow> monitors \<Rightarrow> outcome" where
  "lock_sleep t obj own s =
    (if mo_mutex s own \<noteq> None \<or> t \<in> set (mo_waiters s own) then waits
     else goes (go_to t (Lock_read obj) (s\<lparr>mo_waiting := (mo_waiting s)(t := 0)\<rparr>)))"

definition lock_fat :: "nat \<Rightarrow> u32 \<Rightarrow> nat \<Rightarrow> monitors \<Rightarrow> outcome" where
  "lock_fat t obj i s = (case mo_fats s i of
     None \<Rightarrow> faults
   | Some f \<Rightarrow>
       if fl_count f \<noteq> 0 \<and> fl_owner f \<noteq> Some t then waits
       else if fl_count f = 0 then goes (leave t None (count_entered t obj Suc (set_fat i 1 (Some t) s)))
       else if fl_count f + 1 < 2 ^ 31 then goes (leave t None (count_entered t obj Suc (set_fat i (fl_count f + 1) (Some t) s)))
       else goes (leave t (Some InternalError) s))"

section \<open>Unlocking\<close>

definition unlock_read :: "nat \<Rightarrow> u32 \<Rightarrow> monitors \<Rightarrow> outcome" where
  "unlock_read t obj s = (let old = mo_word s obj in
     if \<not> lw_fat old then
       (if \<not> owned_by t old then goes (leave t (Some IllegalMonitorStateException) s)
        else goes (go_to t (Unlock_store obj old) s))
     else goes (go_to t (Unlock_fat obj (lw_fat_id old)) s))"

definition unlock_store :: "nat \<Rightarrow> u32 \<Rightarrow> u32 \<Rightarrow> monitors \<Rightarrow> outcome" where
  "unlock_store t obj old s =
    (if lw_thin_count old = 0
     then goes (go_to t (Unlock_check obj) (count_entered t obj (\<lambda>n. n - 1) (set_lockword obj (lw_info old) s)))
     else goes (leave t None (count_entered t obj (\<lambda>n. n - 1) (set_lockword obj (old - 0x10000) s))))"

definition unlock_fat :: "nat \<Rightarrow> u32 \<Rightarrow> nat \<Rightarrow> monitors \<Rightarrow> outcome" where
  "unlock_fat t obj i s = (case mo_fats s i of
     None \<Rightarrow> faults
   | Some f \<Rightarrow>
       if fl_count f = 0 \<or> fl_owner f \<noteq> Some t then goes (leave t (Some IllegalMonitorStateException) s)
       else if fl_count f = 1 then goes (go_to t (Unlock_check obj) (count_entered t obj (\<lambda>n. n - 1) (set_fat i 0 None s)))
       else goes (leave t None (count_entered t obj (\<lambda>n. n - 1) (set_fat i (fl_count f - 1) (Some t) s))))"

text \<open>The label \<open>handle_contention\<close>, and \<open>_jc_lock_contention\<close>\<close>

definition unlock_check :: "nat \<Rightarrow> u32 \<Rightarrow> monitors \<Rightarrow> outcome" where
  "unlock_check t obj s = (if mo_contention s t then goes (go_to t (Wake_begin obj) s) else goes (leave t None s))"

definition wake_begin :: "nat \<Rightarrow> u32 \<Rightarrow> monitors \<Rightarrow> outcome" where
  "wake_begin t obj s =
    (if mo_mutex s t \<noteq> None then waits
     else goes (go_to t (Wake obj (mo_waiters s t)) (s\<lparr>mo_mutex := (mo_mutex s)(t \<mapsto> t)\<rparr>)))"

text \<open>A turn of the loop over the waiters, or what comes after it. A failure to inflate is forgotten.\<close>

definition wake :: "nat \<Rightarrow> nat \<Rightarrow> u32 \<Rightarrow> nat list \<Rightarrow> request \<Rightarrow> monitors \<Rightarrow> outcome" where
  "wake limit t obj todo r s = (case todo of
     [] \<Rightarrow> goes (leave t None (s\<lparr>mo_waiters := (mo_waiters s)(t := []), mo_contention := (mo_contention s)(t := False),
       mo_mutex := (mo_mutex s)(t := None)\<rparr>))
   | x # rest \<Rightarrow> let wobj = mo_waiting s x in
       if wobj \<noteq> obj \<and> \<not> lw_fat (mo_word s wobj)
       then (case inflate_lock limit t wobj r s of
           Inl e \<Rightarrow> goes (go_to t (Wake obj rest) s)
         | Inr s' \<Rightarrow> goes (go_to t (Wake obj rest) s'))
       else goes (go_to t (Wake obj rest) s))"

section \<open>The steps\<close>

definition advance :: "nat \<Rightarrow> nat \<Rightarrow> request \<Rightarrow> monitors \<Rightarrow> outcome" where
  "advance limit t r s = (case mo_at s t of
     Outside \<Rightarrow> (case r of
         Enter obj \<Rightarrow> goes (go_to t (Lock_read obj) s)
       | Leave obj \<Rightarrow> goes (go_to t (Unlock_read obj) s)
       | _ \<Rightarrow> waits)
   | Lock_read obj \<Rightarrow> lock_read t obj s
   | Lock_try obj old \<Rightarrow> lock_try t obj old s
   | Lock_store obj w \<Rightarrow> lock_store t obj w s
   | Lock_overflow obj \<Rightarrow> lock_overflow limit t obj r s
   | Lock_contend obj own \<Rightarrow> lock_contend t obj own s
   | Lock_check obj own flag \<Rightarrow> lock_check t obj own flag s
   | Lock_sleep obj own \<Rightarrow> lock_sleep t obj own s
   | Lock_fat obj i \<Rightarrow> lock_fat t obj i s
   | Unlock_read obj \<Rightarrow> unlock_read t obj s
   | Unlock_store obj old \<Rightarrow> unlock_store t obj old s
   | Unlock_fat obj i \<Rightarrow> unlock_fat t obj i s
   | Unlock_check obj \<Rightarrow> unlock_check t obj s
   | Wake_begin obj \<Rightarrow> wake_begin t obj s
   | Wake obj todo \<Rightarrow> wake limit t obj todo r s)"

text \<open>
  \<open>_jc_free_lock\<close>, which the collector calls for an object that no thread can reach any more; its address
  can then become that of a new object. And \<open>_jc_lock_held\<close>.
\<close>

definition free_lock :: "u32 \<Rightarrow> u32 \<Rightarrow> monitors \<Rightarrow> monitors" where
  "free_lock obj w s = s\<lparr>mo_free := lw_fat_id (mo_word s obj) # mo_free s, mo_word := (mo_word s)(obj := lw_info w)\<rparr>"

definition lock_held :: "nat \<Rightarrow> u32 \<Rightarrow> monitors \<Rightarrow> bool" where
  "lock_held t obj s = (let w = mo_word s obj in
     if \<not> lw_fat w then owned_by t w
     else (case mo_fats s (lw_fat_id w) of None \<Rightarrow> False | Some f \<Rightarrow> fl_count f > 0 \<and> fl_owner f = Some t))"

text \<open>Whether a thread is at work on an object\<close>

fun works_on :: "place \<Rightarrow> u32 \<Rightarrow> bool" where
  "works_on Outside obj = False"
| "works_on (Lock_read x) obj = (x = obj)"
| "works_on (Lock_try x _) obj = (x = obj)"
| "works_on (Lock_store x _) obj = (x = obj)"
| "works_on (Lock_overflow x) obj = (x = obj)"
| "works_on (Lock_contend x _) obj = (x = obj)"
| "works_on (Lock_check x _ _) obj = (x = obj)"
| "works_on (Lock_sleep x _) obj = (x = obj)"
| "works_on (Lock_fat x _) obj = (x = obj)"
| "works_on (Unlock_read x) obj = (x = obj)"
| "works_on (Unlock_store x _) obj = (x = obj)"
| "works_on (Unlock_fat x _) obj = (x = obj)"
| "works_on (Unlock_check x) obj = (x = obj)"
| "works_on (Wake_begin x) obj = (x = obj)"
| "works_on (Wake x _) obj = (x = obj)"

text \<open>
  The machine: a thread takes a step, or the collector frees the fat lock of an object that no thread is
  at work on or has entered.
\<close>

inductive mo_step :: "nat \<Rightarrow> monitors \<Rightarrow> monitors \<Rightarrow> bool" for limit :: nat where
  thread_step: "0 < t \<Longrightarrow> t < MAX_THREADS \<Longrightarrow> advance limit t r s = goes s' \<Longrightarrow> mo_step limit s s'"
| collect_step: "lw_fat (mo_word s obj) \<Longrightarrow> \<forall>t. \<not> works_on (mo_at s t) obj \<and> mo_entered s t obj = 0 \<Longrightarrow> mo_step limit s (free_lock obj w s)"

inductive mo_reach :: "nat \<Rightarrow> monitors \<Rightarrow> monitors \<Rightarrow> bool" for limit :: nat and start :: monitors where
  reach_start: "mo_reach limit start start"
| reach_step: "mo_reach limit start s \<Longrightarrow> mo_step limit s s' \<Longrightarrow> mo_reach limit start s'"

text \<open>At the start no object is locked and no thread is inside.\<close>

definition mo_start :: "(u32 \<Rightarrow> u32) \<Rightarrow> monitors" where
  "mo_start info = \<lparr>mo_word = (\<lambda>obj. lw_info (info obj)), mo_fats = Map.empty, mo_next = 0, mo_free = [],
     mo_contention = (\<lambda>_. False), mo_waiters = (\<lambda>_. []), mo_waiting = (\<lambda>_. 0), mo_mutex = Map.empty,
     mo_at = (\<lambda>_. Outside), mo_entered = (\<lambda>_ _. 0), mo_status = (\<lambda>_. None)\<rparr>"

end
