(* ===== verification/Lock_Word.thy ===== *)
theory Lock_Word
  imports Lock_State
begin

text \<open>
  What the macros on lockwords read after the code has written one: a lockword is a thin lock with an
  owner and a count, or a fat lock with an identity, whatever its other bits.
\<close>

definition field :: "nat \<Rightarrow> nat \<Rightarrow> u32 \<Rightarrow> u32" where
  "field a b w = take_bit b (drop_bit a w)"

lemma bit_field: "bit (field a b w) n \<longleftrightarrow> n < b \<and> bit w (a + n)"
  by (simp add: field_def bit_take_bit_iff bit_drop_bit_eq)

lemma unat_field: "unat (field a b w) = unat w div 2 ^ a mod 2 ^ b"
proof -
  have "unat (field a b w) = take_bit b (drop_bit a (unat w))"
    by (rule bit_eqI) (auto simp: bit_unsigned_iff bit_field bit_take_bit_iff bit_drop_bit_eq dest: bit_imp_le_length)
  then show ?thesis by (simp add: take_bit_eq_mod drop_bit_eq_div)
qed

lemma masked_field: "drop_bit a (w AND push_bit a (mask b)) = field a b w"
  by (rule bit_eqI) (auto simp: bit_field bit_simps dest: bit_imp_le_length)

lemma lw_masks:
  "LW_FAT_ID_MASK = push_bit 16 (mask 15)" "LW_THIN_TID_MASK = push_bit 21 (mask 10)" "LW_THIN_COUNT_MASK = push_bit 16 (mask 5)"
  "LW_INFO_MASK = mask 16" "LW_FAT_BIT = push_bit 31 1"
  by (simp_all add: mask_eq_exp_minus_1 push_bit_eq_mult)

lemma lw_fields:
  "lw_fat_id w = unat (field 16 15 w)" "lw_thin_tid w = unat (field 21 10 w)" "lw_thin_count w = unat (field 16 5 w)"
  "lw_info w = field 0 16 w" "lw_fat w \<longleftrightarrow> bit w 31"
proof -
  show "lw_fat w \<longleftrightarrow> bit w 31"
    unfolding lw_fat_def lw_masks bit_iff_and_push_bit_not_eq_0 by simp
qed (simp_all only: lw_fat_id_def lw_thin_tid_def lw_thin_count_def lw_info_def lw_masks masked_field,
  simp add: field_def take_bit_eq_mask)

lemma bit_below: "m < 2 ^ k \<Longrightarrow> bit (m :: nat) n \<Longrightarrow> n < k"
  by (metis bit_take_bit_iff take_bit_nat_eq_self)

lemma bit_of_nat_word: "bit (of_nat m :: u32) n \<longleftrightarrow> n < 32 \<and> bit m n"
  by (simp add: bit_of_nat_iff)

lemma owned_field: "t < MAX_THREADS \<Longrightarrow> owned_by t w \<longleftrightarrow> field 21 10 w = of_nat t"
proof -
  assume t: "t < MAX_THREADS"
  have a: "w AND LW_THIN_TID_MASK = push_bit 21 (field 21 10 w)"
    unfolding lw_masks by (rule bit_eqI) (auto simp: bit_field bit_simps)
  have "field 21 10 w = of_nat t \<longleftrightarrow> push_bit 21 (field 21 10 w) = push_bit 21 (of_nat t :: u32)"
  proof
    assume e: "push_bit 21 (field 21 10 w) = push_bit 21 (of_nat t :: u32)"
    show "field 21 10 w = of_nat t"
    proof (rule bit_word_eqI)
      fix n
      show "bit (field 21 10 w) n = bit (of_nat t :: u32) n"
      proof (cases "n < 10")
        case True
        have "bit (push_bit 21 (field 21 10 w)) (21 + n) = bit (push_bit 21 (of_nat t :: u32)) (21 + n)" using e by simp
        with True show ?thesis by (simp add: bit_simps bit_field)
      next
        case False
        then show ?thesis using bit_below [of t 10 n] t by (auto simp: bit_field bit_of_nat_word)
      qed
    qed
  qed simp
  then show ?thesis unfolding owned_by_def a thinlock_id_def by simp
qed

lemma field_is:
  assumes "m < 2 ^ b" and "a + b \<le> 32" and "\<And>n. n < b \<Longrightarrow> bit w (a + n) \<longleftrightarrow> bit m n"
  shows "unat (field a b w) = m"
proof -
  have "m < 2 ^ 32" using assms(1,2) power_increasing [of b 32 "2 :: nat"] by linarith
  have "field a b w = of_nat m"
  proof (rule bit_word_eqI)
    fix n assume "n < LENGTH(32)"
    then show "bit (field a b w) n = bit (of_nat m :: u32) n"
      using assms(3) [of n] bit_below [OF assms(1), of n] by (auto simp: bit_field bit_of_nat_word)
  qed
  then show ?thesis using \<open>m < 2 ^ 32\<close> by (simp add: unat_of_nat take_bit_nat_eq_self)
qed

lemma owned_tid: "t < MAX_THREADS \<Longrightarrow> owned_by t w \<longleftrightarrow> lw_thin_tid w = t"
proof -
  assume t: "t < MAX_THREADS"
  then have "unat (of_nat t :: u32) = t" by (simp add: unat_of_nat take_bit_nat_eq_self)
  then show ?thesis unfolding owned_field [OF t] lw_fields by (metis word_unat_eq_iff)
qed

text \<open>What a lockword stands for\<close>

datatype lockview = Thin nat nat | Fat nat

definition view :: "u32 \<Rightarrow> lockview" where
  "view w = (if lw_fat w then Fat (lw_fat_id w) else Thin (lw_thin_tid w) (lw_thin_count w))"

lemma view_iff: "view w = Fat i \<longleftrightarrow> lw_fat w \<and> lw_fat_id w = i"
  "view w = Thin t c \<longleftrightarrow> \<not> lw_fat w \<and> lw_thin_tid w = t \<and> lw_thin_count w = c"
  by (auto simp: view_def)

lemma field_less: "lw_thin_tid w < MAX_THREADS" "lw_thin_count w < MAX_THIN_RECURSION" "lw_fat_id w < MAX_FATLOCKS"
  by (simp_all add: lw_fields unat_field)

lemma view_less: "view w = Thin t c \<Longrightarrow> t < MAX_THREADS \<and> c < MAX_THIN_RECURSION" "view w = Fat i \<Longrightarrow> i < MAX_FATLOCKS"
  using field_less [of w] by (auto simp: view_iff)

lemma bit_info: "bit (lw_info w) n \<longleftrightarrow> n < 16 \<and> bit w n"
  by (simp add: lw_fields bit_field)

lemma bit_thinlock: "bit (thinlock_id t) n \<longleftrightarrow> 21 \<le> n \<and> n < 32 \<and> bit t (n - 21)"
  unfolding thinlock_id_def by (auto simp: bit_push_bit_iff bit_of_nat_word)

lemma view_info: "view (lw_info w) = Thin 0 0"
  unfolding view_iff lw_fields(2,3,5) by (intro conjI field_is) (simp_all add: bit_info)

lemma view_thin:
  assumes t: "t < MAX_THREADS" and c: "c < MAX_THIN_RECURSION"
  shows "view (thinlock_id t OR push_bit 16 (of_nat c) OR lw_info w) = Thin t c" (is "view ?w = _")
proof -
  have bits: "bit ?w n \<longleftrightarrow> 21 \<le> n \<and> n < 32 \<and> bit t (n - 21) \<or> 16 \<le> n \<and> n < 32 \<and> bit c (n - 16) \<or> n < 16 \<and> bit w n" for n
    by (auto simp: bit_or_iff bit_thinlock bit_info bit_push_bit_iff bit_of_nat_word)
  have "\<not> bit c (n + 5)" for n using bit_below [of c 5 "n + 5"] c by auto
  moreover have "\<not> bit t 10" "\<not> bit c 15" using bit_below [of t 10 10] bit_below [of c 5 15] t c by auto
  ultimately show ?thesis
    unfolding view_iff lw_fields(2,3,5)
    by (intro conjI field_is) (use t c in \<open>auto simp: bits add.commute\<close>)
qed

lemma view_thin_first: "t < MAX_THREADS \<Longrightarrow> view (thinlock_id t OR lw_info w) = Thin t 0"
  using view_thin [of t 0 w] by simp

lemma view_fat:
  assumes "i < MAX_FATLOCKS"
  shows "view (LW_FAT_BIT OR push_bit 16 (of_nat i) OR lw_info w) = Fat i" (is "view ?w = _")
proof -
  have e: "LW_FAT_BIT = 2 ^ 31" by simp
  have "bit (2 ^ 31 :: u32) n \<longleftrightarrow> n = 31" for n by (simp only: bit_exp_iff) auto
  then have top: "bit LW_FAT_BIT n \<longleftrightarrow> n = 31" for n unfolding e .
  have bits: "bit ?w n \<longleftrightarrow> n = 31 \<or> 16 \<le> n \<and> n < 32 \<and> bit i (n - 16) \<or> n < 16 \<and> bit w n" for n
    unfolding bit_or_iff bit_info bit_push_bit_iff bit_of_nat_word top by auto
  show ?thesis
    unfolding view_iff lw_fields(1,5)
  proof (intro conjI field_is)
    show "bit ?w 31" unfolding bits by simp
    show "bit ?w (16 + n) = bit i n" if "n < 15" for n
      unfolding bits using that by simp
  qed (use assms in simp_all)
qed

lemma view_dec:
  assumes "view w = Thin t (Suc c)"
  shows "view (w - 0x10000) = Thin t c"
proof -
  let ?n = "unat w"
  have f: "\<not> bit w 31" "?n div 2097152 mod 1024 = t" "?n div 65536 mod 32 = Suc c"
    using assms unfolding view_iff lw_fields(2,3,5) unat_field by auto
  have "\<not> bit ?n 31" using f(1) by (simp add: bit_unsigned_iff)
  then have "even (?n div 2147483648)" by (simp add: bit_iff_odd)
  moreover have "?n div 2147483648 < 2" using unsigned_less [of w] by (simp add: div_less_iff_less_mult)
  ultimately have "?n div 2147483648 = 0" by (metis One_nat_def less_2_cases odd_one)
  then have low: "?n < 2147483648" by (simp add: div_eq_0_iff)
  have big: "65536 \<le> ?n" using f(3) by (cases "?n < 65536") auto
  then have n': "unat (w - 0x10000) = ?n - 65536" by (simp add: unat_sub word_le_nat_alt)
  have d: "(?n - 65536) div 65536 = ?n div 65536 - 1" using le_div_geq [of 65536 ?n] big by simp
  have up: "k div 2097152 = k div 65536 div 32" for k :: nat by (simp flip: div_mult2_eq)
  have m: "(m - 1) mod 32 = c \<and> (m - 1) div 32 = m div 32" if "m mod 32 = Suc c" for m :: nat
  proof -
    have "m = 32 * (m div 32) + Suc c" using that by (metis mult_div_mod_eq)
    then have e: "m - 1 = c + 32 * (m div 32)" by linarith
    have "c < 32" using that mod_less_divisor [of 32 m] by simp
    then show ?thesis unfolding e by simp
  qed
  have "(?n - 65536) div 2097152 mod 1024 = t" "(?n - 65536) div 65536 mod 32 = c"
    using f(2,3) m [OF f(3)] unfolding up d by simp_all
  moreover have "\<not> bit (w - 0x10000) 31"
  proof -
    have "\<not> bit (?n - 65536) 31" using low by (simp add: bit_iff_odd)
    then show ?thesis unfolding n' [symmetric] by (simp add: bit_unsigned_iff)
  qed
  ultimately show ?thesis unfolding view_iff lw_fields(2,3,5) unat_field n' by simp
qed

end
