(* ===== verification/Lock_Safe.thy ===== *)
theory Lock_Safe
  imports Lock_Word
begin

text \<open>
  The invariant of the monitors: what the lockwords and the fat locks say is what the threads have done,
  and a thread waits in the list of a thread that holds the lock or is about to wake it up.
\<close>

section \<open>The invariant\<close>

text \<open>How often a thread holds a lock, as the lockword and the fat lock say\<close>

definition held :: "monitors \<Rightarrow> nat \<Rightarrow> u32 \<Rightarrow> nat" where
  "held s t obj = (case view (mo_word s obj) of
     Thin u c \<Rightarrow> if u = t \<and> t \<noteq> 0 then c + 1 else 0
   | Fat i \<Rightarrow> (case mo_fats s i of None \<Rightarrow> 0 | Some f \<Rightarrow> if fl_owner f = Some t then fl_count f else 0))"

definition words_ok :: "nat \<Rightarrow> monitors \<Rightarrow> bool" where
  "words_ok limit s \<longleftrightarrow> (\<forall>t obj. mo_entered s t obj = held s t obj)
     \<and> (\<forall>obj i. view (mo_word s obj) = Fat i \<longrightarrow> i \<in> dom (mo_fats s) \<and> i \<notin> set (mo_free s)
         \<and> (\<forall>obj'. view (mo_word s obj') = Fat i \<longrightarrow> obj' = obj))
     \<and> (\<forall>i f. mo_fats s i = Some f \<longrightarrow> i < mo_next s \<and> (fl_count f = 0 \<longleftrightarrow> fl_owner f = None))
     \<and> (\<forall>i \<in> set (mo_free s). i \<in> dom (mo_fats s)) \<and> distinct (mo_free s) \<and> mo_next s \<le> limit"

text \<open>What a thread knows at a place\<close>

fun place_ok :: "monitors \<Rightarrow> nat \<Rightarrow> place \<Rightarrow> bool" where
  "place_ok s t (Lock_try obj old) \<longleftrightarrow> (\<forall>c. view old = Thin t c \<longrightarrow> mo_word s obj = old)
     \<and> (\<forall>i. view old = Fat i \<longrightarrow> view (mo_word s obj) = Fat i)"
| "place_ok s t (Lock_store obj w) \<longleftrightarrow> (\<exists>c. view (mo_word s obj) = Thin t c \<and> view w = Thin t (Suc c))"
| "place_ok s t (Lock_overflow obj) \<longleftrightarrow> (\<exists>c. view (mo_word s obj) = Thin t c)"
| "place_ok s t (Lock_check obj u flag) \<longleftrightarrow> u \<noteq> 0 \<and> u < MAX_THREADS \<and> mo_mutex s u = Some t \<and> mo_contention s u \<and> (mo_waiters s u \<noteq> [] \<longrightarrow> flag)"
| "place_ok s t (Lock_contend obj u) \<longleftrightarrow> u < MAX_THREADS"
| "place_ok s t (Lock_sleep obj u) \<longleftrightarrow> mo_waiting s t = obj"
| "place_ok s t (Lock_fat obj i) \<longleftrightarrow> view (mo_word s obj) = Fat i"
| "place_ok s t (Unlock_store obj old) \<longleftrightarrow> mo_word s obj = old \<and> (\<exists>c. view old = Thin t c)"
| "place_ok s t (Unlock_fat obj i) \<longleftrightarrow> view (mo_word s obj) = Fat i"
| "place_ok s t (Wake obj todo) \<longleftrightarrow> mo_mutex s t = Some t \<and> set todo \<subseteq> set (mo_waiters s t)"
| "place_ok s t _ \<longleftrightarrow> True"

definition places_ok :: "monitors \<Rightarrow> bool" where
  "places_ok s \<longleftrightarrow> mo_at s 0 = Outside \<and> (\<forall>t. place_ok s t (mo_at s t))"

text \<open>A thread that has released the lock of an object and has not yet looked after those who wait for it\<close>

fun releasing :: "place \<Rightarrow> u32 \<Rightarrow> bool" where
  "releasing (Unlock_check x) obj = (x = obj)"
| "releasing (Wake_begin x) obj = (x = obj)"
| "releasing (Wake x _) obj = (x = obj)"
| "releasing _ obj = False"

definition waiter_ok :: "nat \<Rightarrow> monitors \<Rightarrow> nat \<Rightarrow> nat \<Rightarrow> bool" where
  "waiter_ok limit s t x \<longleftrightarrow> t \<noteq> 0 \<and> mo_at s x = Lock_sleep (mo_waiting s x) t \<and> mo_contention s t
     \<and> ((\<exists>c. view (mo_word s (mo_waiting s x)) = Thin t c) \<or> (\<exists>i. view (mo_word s (mo_waiting s x)) = Fat i)
        \<or> releasing (mo_at s t) (mo_waiting s x))
     \<and> (limit \<le> 32 \<longrightarrow> mo_entered s t (mo_waiting s x) \<noteq> 0 \<or> releasing (mo_at s t) (mo_waiting s x))"

definition queues_ok :: "nat \<Rightarrow> monitors \<Rightarrow> bool" where
  "queues_ok limit s \<longleftrightarrow> (\<forall>t. \<forall>x \<in> set (mo_waiters s t). waiter_ok limit s t x)"

definition mo_inv :: "nat \<Rightarrow> monitors \<Rightarrow> bool" where
  "mo_inv limit s \<longleftrightarrow> words_ok limit s \<and> places_ok s \<and> queues_ok limit s"

section \<open>Steps that change no lock\<close>

lemma go_to_sel [simp]:
  "mo_word (go_to t p s) = mo_word s" "mo_fats (go_to t p s) = mo_fats s" "mo_free (go_to t p s) = mo_free s"
  "mo_next (go_to t p s) = mo_next s" "mo_contention (go_to t p s) = mo_contention s" "mo_waiters (go_to t p s) = mo_waiters s"
  "mo_waiting (go_to t p s) = mo_waiting s" "mo_mutex (go_to t p s) = mo_mutex s" "mo_entered (go_to t p s) = mo_entered s"
  "mo_at (go_to t p s) = (mo_at s)(t := p)"
  by (simp_all add: go_to_def)

lemma leave_sel [simp]:
  "mo_word (leave t e s) = mo_word s" "mo_fats (leave t e s) = mo_fats s" "mo_free (leave t e s) = mo_free s"
  "mo_next (leave t e s) = mo_next s" "mo_contention (leave t e s) = mo_contention s" "mo_waiters (leave t e s) = mo_waiters s"
  "mo_waiting (leave t e s) = mo_waiting s" "mo_mutex (leave t e s) = mo_mutex s" "mo_entered (leave t e s) = mo_entered s"
  "mo_at (leave t e s) = (mo_at s)(t := Outside)"
  by (simp_all add: leave_def)

text \<open>The invariant looks at all components but the status.\<close>

definition same_locks :: "monitors \<Rightarrow> monitors \<Rightarrow> bool" where
  "same_locks s s' \<longleftrightarrow> mo_word s' = mo_word s \<and> mo_fats s' = mo_fats s \<and> mo_free s' = mo_free s \<and> mo_next s' = mo_next s
     \<and> mo_entered s' = mo_entered s"

lemma same_words: "same_locks s s' \<Longrightarrow> words_ok limit s' = words_ok limit s"
  unfolding same_locks_def words_ok_def held_def by (elim conjE) (simp only:)

lemma in_list_asleep: "queues_ok limit s \<Longrightarrow> x \<in> set (mo_waiters s t) \<Longrightarrow> mo_at s x = Lock_sleep (mo_waiting s x) t"
  by (auto simp: queues_ok_def waiter_ok_def)

text \<open>A thread that is not asleep moves on, and the queues stay as they are.\<close>

lemma inv_go:
  assumes inv: "mo_inv limit s" and t: "t \<noteq> 0" and p: "place_ok s t p" and awake: "\<And>obj u. mo_at s t \<noteq> Lock_sleep obj u"
    and release: "\<And>obj. releasing (mo_at s t) obj \<Longrightarrow> releasing p obj \<or> mo_waiters s t = []"
    and same: "same_locks s s'" "mo_contention s' = mo_contention s" "mo_waiters s' = mo_waiters s" "mo_waiting s' = mo_waiting s"
      "mo_mutex s' = mo_mutex s" "mo_at s' = (mo_at s)(t := p)"
  shows "mo_inv limit s'"
proof -
  have words: "words_ok limit s'" using inv same_words [OF same(1)] by (simp add: mo_inv_def)
  have sp: "place_ok s' u q = place_ok s u q" for u q
    using same by (cases q) (simp_all add: same_locks_def)
  have places: "places_ok s'" using inv t p by (simp add: mo_inv_def places_ok_def sp same(6))
  have "waiter_ok limit s' u x" if x: "x \<in> set (mo_waiters s' u)" for u x
  proof -
    have ok: "waiter_ok limit s u x" using inv x by (simp add: mo_inv_def queues_ok_def same(3))
    then have "x \<noteq> t" using awake by (auto simp: waiter_ok_def)
    moreover have "releasing (mo_at s u) (mo_waiting s x) \<Longrightarrow> releasing (mo_at s' u) (mo_waiting s x)"
      using release [of "mo_waiting s x"] x by (auto simp: same(3,6))
    ultimately show ?thesis using ok same by (auto simp: waiter_ok_def same_locks_def)
  qed
  with words places show ?thesis by (simp add: mo_inv_def queues_ok_def)
qed

lemma inv_go_to:
  assumes "mo_inv limit s" "t \<noteq> 0" "place_ok s t p" "\<And>obj u. mo_at s t \<noteq> Lock_sleep obj u"
    "\<And>obj. releasing (mo_at s t) obj \<Longrightarrow> releasing p obj \<or> mo_waiters s t = []"
  shows "mo_inv limit (go_to t p s)"
  by (rule inv_go [OF assms]) (simp_all add: same_locks_def)

lemma inv_leave:
  assumes "mo_inv limit s" "t \<noteq> 0" "\<And>obj u. mo_at s t \<noteq> Lock_sleep obj u"
    "\<And>obj. releasing (mo_at s t) obj \<Longrightarrow> mo_waiters s t = []"
  shows "mo_inv limit (leave t e s)"
  by (rule inv_go [of limit s t Outside]) (use assms in \<open>auto simp: same_locks_def\<close>)

section \<open>Steps on a lockword\<close>

text \<open>
  A thread writes a thin lock over one that it holds or that nobody holds; when nobody holds it any more,
  the thread is about to look after the waiters.
\<close>

lemma place_other:
  assumes p: "place_ok s u q" and u: "u \<noteq> t" "u \<noteq> 0" and old: "view (mo_word s obj) = Thin a c" "a = 0 \<or> a = t"
    and same: "mo_word s' = (mo_word s)(obj := w)" "mo_contention s' = mo_contention s" "mo_waiters s' = mo_waiters s"
      "mo_waiting s' = mo_waiting s" "mo_mutex s' = mo_mutex s"
  shows "place_ok s' u q"
  using p u old by (cases q) (auto simp: same)

lemma inv_thin:
  assumes inv: "mo_inv limit s" and t: "t \<noteq> 0" and old: "view (mo_word s obj) = Thin a c" "a = 0 \<or> a = t"
    and new: "view w = Thin b d" "b = 0 \<or> b = t" and p: "p = (if b = 0 then Unlock_check obj else Outside)"
    and awake: "\<And>obj u. mo_at s t \<noteq> Lock_sleep obj u" and calm: "\<And>obj. \<not> releasing (mo_at s t) obj"
    and s': "mo_word s' = (mo_word s)(obj := w)" "mo_fats s' = mo_fats s" "mo_free s' = mo_free s" "mo_next s' = mo_next s"
      "mo_contention s' = mo_contention s" "mo_waiters s' = mo_waiters s" "mo_waiting s' = mo_waiting s" "mo_mutex s' = mo_mutex s"
      "mo_at s' = (mo_at s)(t := p)" "mo_entered s' = (mo_entered s)(t := (mo_entered s t)(obj := if b = t then d + 1 else 0))"
  shows "mo_inv limit s'"
proof -
  have words: "words_ok limit s" and places: "places_ok s" and queues: "queues_ok limit s" using inv by (auto simp: mo_inv_def)
  have "mo_entered s' u x = held s' u x" for u x
  proof -
    have "mo_entered s u x = held s u x" using words by (simp add: words_ok_def)
    then show ?thesis using old new t by (cases "x = obj"; cases "u = t") (auto simp: s'(1,2,10) held_def split: lockview.splits)
  qed
  then have words': "words_ok limit s'"
    using words new by (auto simp: words_ok_def s'(1-4))
  have "place_ok s' t p" by (simp add: p)
  moreover have "place_ok s' u (mo_at s u)" if "u \<noteq> t" for u
  proof (cases "u = 0")
    case True
    then show ?thesis using places by (simp add: places_ok_def)
  next
    case False
    then show ?thesis
      using places that by (intro place_other [OF _ that False old s'(1,5-8)]) (simp add: places_ok_def)
  qed
  ultimately have places': "places_ok s'" using places t by (simp add: places_ok_def s'(9))
  have "waiter_ok limit s' u x" if x: "x \<in> set (mo_waiters s' u)" for u x
  proof -
    have ok: "waiter_ok limit s u x" using queues x by (simp add: queues_ok_def s'(6))
    then have xt: "x \<noteq> t" using awake by (auto simp: waiter_ok_def)
    show ?thesis
    proof (cases "mo_waiting s x = obj")
      case False
      then show ?thesis using ok xt calm by (auto simp: waiter_ok_def s')
    next
      case True
      show ?thesis
      proof (cases "u = t")
        case True
        then show ?thesis using ok xt calm \<open>mo_waiting s x = obj\<close> new t p by (auto simp: waiter_ok_def s')
      next
        case False
        have "releasing (mo_at s u) obj"
          using ok \<open>mo_waiting s x = obj\<close> old False by (auto simp: waiter_ok_def)
        then show ?thesis using ok xt False \<open>mo_waiting s x = obj\<close> by (auto simp: waiter_ok_def s')
      qed
    qed
  qed
  with words' places' show ?thesis by (simp add: mo_inv_def queues_ok_def)
qed

section \<open>Steps on a fat lock\<close>

lemma inv_fat:
  assumes inv: "mo_inv limit s" and t: "t \<noteq> 0" and old: "view (mo_word s obj) = Fat i" "mo_fats s i = Some f" "fl_owner f = None \<or> fl_owner f = Some t"
    and new: "n = 0 \<longleftrightarrow> own = None" "own = None \<or> own = Some t" and p: "p = (if n = 0 then Unlock_check obj else Outside)"
    and awake: "\<And>obj u. mo_at s t \<noteq> Lock_sleep obj u" and calm: "\<And>obj. \<not> releasing (mo_at s t) obj"
    and s': "mo_word s' = mo_word s" "mo_fats s' = (mo_fats s)(i \<mapsto> \<lparr>fl_count = n, fl_owner = own\<rparr>)" "mo_free s' = mo_free s" "mo_next s' = mo_next s"
      "mo_contention s' = mo_contention s" "mo_waiters s' = mo_waiters s" "mo_waiting s' = mo_waiting s" "mo_mutex s' = mo_mutex s"
      "mo_at s' = (mo_at s)(t := p)" "mo_entered s' = (mo_entered s)(t := (mo_entered s t)(obj := n))"
  shows "mo_inv limit s'"
proof -
  have words: "words_ok limit s" and places: "places_ok s" and queues: "queues_ok limit s" using inv by (auto simp: mo_inv_def)
  have only: "view (mo_word s x) = Fat i \<Longrightarrow> x = obj" for x using words old(1) by (auto simp: words_ok_def)
  have "mo_entered s' u x = held s' u x" for u x
  proof -
    have e: "mo_entered s u x = held s u x" using words by (simp add: words_ok_def)
    show ?thesis
    proof (cases "x = obj")
      case True
      have "held s u obj = (if fl_owner f = Some u then fl_count f else 0)" "held s' u obj = (if own = Some u then n else 0)"
        by (simp_all add: held_def s'(1,2) old)
      then show ?thesis using True e old(3) new by (cases "u = t") (auto simp: s'(10))
    next
      case False
      then have "view (mo_word s x) \<noteq> Fat i" using only by auto
      then have "held s' u x = held s u x" by (auto simp: held_def s'(1,2) split: lockview.split)
      then show ?thesis using False e by (auto simp: s'(10))
    qed
  qed
  moreover have "i < mo_next s" using words old(2) by (auto simp: words_ok_def)
  ultimately have words': "words_ok limit s'"
    using words new(1) by (auto simp: words_ok_def s'(1-4))
  have sp: "place_ok s' u q = place_ok s u q" for u q
    using s' by (cases q) simp_all
  have "place_ok s t p" by (simp add: p)
  then have places': "places_ok s'" using places t by (simp add: places_ok_def sp s'(9))
  have "waiter_ok limit s' u x" if x: "x \<in> set (mo_waiters s' u)" for u x
  proof -
    have ok: "waiter_ok limit s u x" using queues x by (simp add: queues_ok_def s'(6))
    then have xt: "x \<noteq> t" using awake by (auto simp: waiter_ok_def)
    show ?thesis
      using ok xt calm p by (cases "u = t"; cases "mo_waiting s x = obj"; cases "n = 0") (auto simp: waiter_ok_def s' old(1))
  qed
  with words' places' show ?thesis by (simp add: mo_inv_def queues_ok_def)
qed

text \<open>The owner of a thin lock makes it fat, with a lock that no object has.\<close>

lemma inv_got_lock:
  assumes inv: "mo_inv limit s" and t: "t \<noteq> 0" and old: "view (mo_word s obj) = Thin t c"
    and i: "i < MAX_FATLOCKS" "i < mo_next s1" "mo_next s1 \<le> limit" "mo_next s \<le> mo_next s1"
      "\<And>x. view (mo_word s x) \<noteq> Fat i" "i \<notin> set (mo_free s1)" "set (mo_free s1) \<subseteq> set (mo_free s)" "distinct (mo_free s1)"
    and s1: "mo_word s1 = mo_word s" "mo_fats s1 = mo_fats s" "mo_entered s1 = mo_entered s"
      "mo_contention s1 = mo_contention s" "mo_waiters s1 = mo_waiters s" "mo_waiting s1 = mo_waiting s" "mo_mutex s1 = mo_mutex s" "mo_at s1 = mo_at s"
    and p: "place_ok (got_lock t obj i s1) t p" and awake: "\<And>obj u. mo_at s t \<noteq> Lock_sleep obj u"
    and release: "\<And>obj. releasing (mo_at s t) obj \<Longrightarrow> releasing p obj \<or> mo_waiters s t = []"
  shows "mo_inv limit (go_to t p (got_lock t obj i s1))"
proof -
  have words: "words_ok limit s" and places: "places_ok s" and queues: "queues_ok limit s" using inv by (auto simp: mo_inv_def)
  have count: "lw_thin_count (mo_word s obj) = c" using old by (simp add: view_iff)
  define w where "w = LW_FAT_BIT OR push_bit 16 (of_nat i) OR lw_info (mo_word s obj)"
  have w: "view w = Fat i" unfolding w_def by (rule view_fat [OF i(1)])
  define s' where "s' = go_to t p (got_lock t obj i s1)"
  have s': "mo_word s' = (mo_word s)(obj := w)" "mo_fats s' = (mo_fats s)(i \<mapsto> \<lparr>fl_count = c + 1, fl_owner = Some t\<rparr>)"
    "mo_free s' = mo_free s1" "mo_next s' = mo_next s1" "mo_contention s' = mo_contention s" "mo_waiters s' = mo_waiters s"
    "mo_waiting s' = mo_waiting s" "mo_mutex s' = mo_mutex s" "mo_at s' = (mo_at s)(t := p)" "mo_entered s' = mo_entered s"
    by (simp_all add: s'_def got_lock_def Let_def set_lockword_def set_fat_def s1 count w_def)
  have "mo_entered s' u x = held s' u x" for u x
  proof -
    have "mo_entered s u x = held s u x" using words by (simp add: words_ok_def)
    then show ?thesis using old w i(5) [of x] t by (cases "x = obj") (auto simp: s'(1,2,10) held_def split: lockview.splits option.splits)
  qed
  moreover have "i \<notin> dom (mo_fats s) \<or> i \<in> dom (mo_fats s)" by simp
  ultimately have words': "words_ok limit s'"
    using words i w by (auto simp: words_ok_def s'(1-4)) (fastforce+)?
  have "place_ok s' t p" using p by (cases p) (simp_all add: s'_def)
  moreover have "place_ok s' u (mo_at s u)" if "u \<noteq> t" for u
  proof (cases "u = 0")
    case False
    then show ?thesis
      using places that by (intro place_other [OF _ that False old _ s'(1,5-8)]) (simp_all add: places_ok_def)
  qed (use places in \<open>simp add: places_ok_def\<close>)
  ultimately have places': "places_ok s'" using places t by (simp add: places_ok_def s'(9))
  have "waiter_ok limit s' u x" if x: "x \<in> set (mo_waiters s' u)" for u x
  proof -
    have ok: "waiter_ok limit s u x" using queues x by (simp add: queues_ok_def s'(6))
    then have xt: "x \<noteq> t" using awake by (auto simp: waiter_ok_def)
    have "releasing (mo_at s u) (mo_waiting s x) \<Longrightarrow> releasing (mo_at s' u) (mo_waiting s x)"
      using release [of "mo_waiting s x"] x by (auto simp: s'(6,9))
    then show ?thesis using ok xt w by (cases "mo_waiting s x = obj") (auto simp: waiter_ok_def s')
  qed
  with words' places' show ?thesis by (simp add: mo_inv_def queues_ok_def flip: s'_def)
qed

section \<open>The steps of a thread\<close>

lemma inflate_step:
  assumes inv: "mo_inv limit s" and lim: "limit \<le> MAX_FATLOCKS" and t: "t \<noteq> 0" and old: "view (mo_word s obj) = Thin t c"
    and run: "inflate_lock limit t obj r s = Inr s'" and p: "\<And>i s1. place_ok s t p \<Longrightarrow> mo_mutex s1 = mo_mutex s \<Longrightarrow> mo_waiters s1 = mo_waiters s \<Longrightarrow> place_ok (got_lock t obj i s1) t p"
    and p0: "place_ok s t p" and awake: "\<And>obj u. mo_at s t \<noteq> Lock_sleep obj u"
    and release: "\<And>obj. releasing (mo_at s t) obj \<Longrightarrow> releasing p obj \<or> mo_waiters s t = []"
  shows "mo_inv limit (go_to t p s')"
proof -
  have words: "words_ok limit s" using inv by (simp add: mo_inv_def)
  show ?thesis
  proof (cases "mo_free s")
    case (Cons i "is")
    let ?s1 = "s\<lparr>mo_free := is\<rparr>"
    have s': "s' = got_lock t obj i ?s1" using run by (simp add: inflate_lock_def Cons)
    have "i \<in> dom (mo_fats s)" "distinct (i # is)" using words by (auto simp: words_ok_def Cons)
    then have i: "i < mo_next s" using words by (auto simp: words_ok_def)
    moreover have "mo_next s \<le> limit" using words by (simp add: words_ok_def)
    moreover have "view (mo_word s x) \<noteq> Fat i" for x using words by (auto simp: words_ok_def Cons)
    ultimately show ?thesis
      unfolding s' using lim \<open>distinct (i # is)\<close> p0
      by (intro inv_got_lock [OF inv t old _ _ _ _ _ _ _ _ _ _ _ _ _ _ _ _ p awake release]) (auto simp: Cons)
  next
    case Nil
    let ?s1 = "s\<lparr>mo_next := mo_next s + 1\<rparr>" and ?i = "mo_next s"
    have s': "s' = got_lock t obj ?i ?s1" and room: "mo_next s < limit"
      using run by (auto simp: inflate_lock_def Nil split: if_splits)
    have "view (mo_word s x) \<noteq> Fat ?i" for x using words by (fastforce simp: words_ok_def)
    then show ?thesis
      unfolding s' using lim room p0
      by (intro inv_got_lock [OF inv t old _ _ _ _ _ _ _ _ _ _ _ _ _ _ _ _ p awake release]) (auto simp: Nil)
  qed
qed

lemma set_sel [simp]:
  "mo_word (set_lockword obj w s) = (mo_word s)(obj := w)" "mo_fats (set_lockword obj w s) = mo_fats s"
  "mo_free (set_lockword obj w s) = mo_free s" "mo_next (set_lockword obj w s) = mo_next s"
  "mo_contention (set_lockword obj w s) = mo_contention s" "mo_waiters (set_lockword obj w s) = mo_waiters s"
  "mo_waiting (set_lockword obj w s) = mo_waiting s" "mo_mutex (set_lockword obj w s) = mo_mutex s"
  "mo_at (set_lockword obj w s) = mo_at s" "mo_entered (set_lockword obj w s) = mo_entered s"
  by (simp_all add: set_lockword_def)

lemma set_fat_sel [simp]:
  "mo_word (set_fat i n own s) = mo_word s" "mo_fats (set_fat i n own s) = (mo_fats s)(i \<mapsto> \<lparr>fl_count = n, fl_owner = own\<rparr>)"
  "mo_free (set_fat i n own s) = mo_free s" "mo_next (set_fat i n own s) = mo_next s"
  "mo_contention (set_fat i n own s) = mo_contention s" "mo_waiters (set_fat i n own s) = mo_waiters s"
  "mo_waiting (set_fat i n own s) = mo_waiting s" "mo_mutex (set_fat i n own s) = mo_mutex s"
  "mo_at (set_fat i n own s) = mo_at s" "mo_entered (set_fat i n own s) = mo_entered s"
  by (simp_all add: set_fat_def)

lemma count_sel [simp]:
  "mo_word (count_entered t obj f s) = mo_word s" "mo_fats (count_entered t obj f s) = mo_fats s"
  "mo_free (count_entered t obj f s) = mo_free s" "mo_next (count_entered t obj f s) = mo_next s"
  "mo_contention (count_entered t obj f s) = mo_contention s" "mo_waiters (count_entered t obj f s) = mo_waiters s"
  "mo_waiting (count_entered t obj f s) = mo_waiting s" "mo_mutex (count_entered t obj f s) = mo_mutex s"
  "mo_at (count_entered t obj f s) = mo_at s"
  "mo_entered (count_entered t obj f s) = (mo_entered s)(t := (mo_entered s t)(obj := f (mo_entered s t obj)))"
  by (simp_all add: count_entered_def)

lemma got_lock_sel [simp]:
  "mo_mutex (got_lock t obj i s) = mo_mutex s" "mo_waiters (got_lock t obj i s) = mo_waiters s"
  by (simp_all add: got_lock_def Let_def)

lemma inv_facts:
  assumes "mo_inv limit s"
  shows "mo_entered s t obj = held s t obj" "place_ok s t (mo_at s t)" "x \<in> set (mo_waiters s t) \<Longrightarrow> waiter_ok limit s t x"
  using assms by (auto simp: mo_inv_def words_ok_def places_ok_def queues_ok_def)

lemma awake_facts: "mo_at s t = p \<Longrightarrow> (\<And>obj u. p \<noteq> Lock_sleep obj u) \<Longrightarrow> mo_at s t \<noteq> Lock_sleep obj u"
  by simp

text \<open>One lemma for each place\<close>

lemma lock_try_inv:
  assumes inv: "mo_inv limit s" and t: "t \<noteq> 0" "t < MAX_THREADS" and at: "mo_at s t = Lock_try obj old" and run: "lock_try t obj old s = goes s'"
  shows "mo_inv limit s'"
proof -
  have ok: "\<And>c. view old = Thin t c \<Longrightarrow> mo_word s obj = old" "\<And>i. view old = Fat i \<Longrightarrow> view (mo_word s obj) = Fat i"
    using inv_facts(2) [OF inv, of t] by (auto simp: at)
  consider (got) "mo_word s obj = lw_info old" | (again) c where "view old = Thin t c" "mo_word s obj \<noteq> lw_info old"
    | (other) "\<not> lw_fat old" "\<not> owned_by t old" "mo_word s obj \<noteq> lw_info old" | (fat) i where "view old = Fat i" "mo_word s obj \<noteq> lw_info old"
  proof (cases "mo_word s obj = lw_info old")
    case False
    show ?thesis
    proof (cases "lw_fat old")
      case True
      then have "view old = Fat (lw_fat_id old)" by (simp add: view_iff)
      then show ?thesis using False by (rule that(4))
    next
      case thin: False
      show ?thesis
      proof (cases "owned_by t old")
        case True
        then have "view old = Thin t (lw_thin_count old)" using thin owned_tid [OF t(2)] by (simp add: view_iff)
        then show ?thesis using False by (rule that(2))
      qed (use thin False that(3) in blast)
    qed
  qed (rule that(1))
  then show ?thesis
  proof cases
    case got
    then have free: "view (mo_word s obj) = Thin 0 0" by (simp add: view_info)
    then have none: "mo_entered s t obj = 0" using inv_facts(1) [OF inv, of t obj] t by (simp add: held_def)
    show ?thesis
      by (rule inv_thin [OF inv t(1) free _ view_thin_first [OF t(2), of old]])
        (use run got t at in \<open>auto simp: lock_try_def none\<close>)
  next
    case again
    then have c: "\<not> lw_fat old" "owned_by t old" "lw_thin_count old = c" using owned_tid [OF t(2)] by (auto simp: view_iff)
    have "place_ok s t (Lock_store obj (thinlock_id t OR push_bit 16 (of_nat (Suc c)) OR lw_info old))" if "Suc c < MAX_THIN_RECURSION"
      using view_thin [OF t(2) that, of old] again(1) ok(1) [OF again(1)] by simp
    moreover have "place_ok s t (Lock_overflow obj)" using again(1) ok(1) [OF again(1)] by auto
    ultimately show ?thesis
      using run again(2) c at by (auto simp: lock_try_def Let_def split: if_splits intro!: inv_go_to [OF inv t(1)] simp del: place_ok.simps)
  next
    case other
    then show ?thesis using run at field_less(1) [of old] by (auto simp: lock_try_def intro!: inv_go_to [OF inv t(1)])
  next
    case fat
    then have "lw_fat old" "lw_fat_id old = i" by (auto simp: view_iff)
    then show ?thesis using run at fat(2) ok(2) [OF fat(1)] by (auto simp: lock_try_def intro!: inv_go_to [OF inv t(1)])
  qed
qed

lemma lock_store_inv:
  assumes inv: "mo_inv limit s" and t: "t \<noteq> 0" and at: "mo_at s t = Lock_store obj w" and run: "lock_store t obj w s = goes s'"
  shows "mo_inv limit s'"
proof -
  obtain c where c: "view (mo_word s obj) = Thin t c" "view w = Thin t (Suc c)" using inv_facts(2) [OF inv, of t] by (auto simp: at)
  then have "mo_entered s t obj = Suc c" using inv_facts(1) [OF inv, of t obj] t by (simp add: held_def)
  then show ?thesis
    by (intro inv_thin [OF inv t c(1) _ c(2)]) (use run t at in \<open>auto simp: lock_store_def\<close>)
qed

lemma lock_overflow_inv:
  assumes inv: "mo_inv limit s" and lim: "limit \<le> MAX_FATLOCKS" and t: "t \<noteq> 0" and at: "mo_at s t = Lock_overflow obj"
    and run: "lock_overflow limit t obj r s = goes s'"
  shows "mo_inv limit s'"
proof -
  obtain c where c: "view (mo_word s obj) = Thin t c" using inv_facts(2) [OF inv, of t] by (auto simp: at)
  show ?thesis
  proof (cases "inflate_lock limit t obj r s")
    case (Inr s1)
    then show ?thesis
      using run inflate_step [OF inv lim t c Inr, of "Lock_read obj"] at by (auto simp: lock_overflow_def)
  qed (use run at in \<open>auto simp: lock_overflow_def intro!: inv_leave [OF inv t]\<close>)
qed

lemma lock_fat_inv:
  assumes inv: "mo_inv limit s" and t: "t \<noteq> 0" and at: "mo_at s t = Lock_fat obj i" and run: "lock_fat t obj i s = goes s'"
  shows "mo_inv limit s'"
proof -
  have fat: "view (mo_word s obj) = Fat i" using inv_facts(2) [OF inv, of t] by (simp add: at)
  obtain f where f: "mo_fats s i = Some f" using inv fat by (fastforce simp: mo_inv_def words_ok_def)
  have z: "fl_count f = 0 \<longleftrightarrow> fl_owner f = None" using inv f by (auto simp: mo_inv_def words_ok_def)
  have e: "mo_entered s t obj = (if fl_owner f = Some t then fl_count f else 0)"
    using inv_facts(1) [OF inv, of t obj] by (simp add: held_def fat f)
  consider (first) "fl_count f = 0" | (again) "fl_count f \<noteq> 0" "fl_owner f = Some t" "fl_count f + 1 < 2 ^ 31" | (full) "fl_count f \<noteq> 0" "\<not> fl_count f + 1 < 2 ^ 31"
    using run by (cases "fl_count f = 0") (auto simp: lock_fat_def f split: if_splits)
  then show ?thesis
  proof cases
    case first
    with z have "fl_owner f = None" by simp
    then show ?thesis
      by (intro inv_fat [OF inv t fat f, where n = 1 and own = "Some t" and p = Outside])
        (use run first at in \<open>auto simp: lock_fat_def f e\<close>)
  next
    case again
    then show ?thesis
      by (intro inv_fat [OF inv t fat f, where n = "fl_count f + 1" and own = "Some t" and p = Outside])
        (use run at in \<open>auto simp: lock_fat_def f e\<close>)
  next
    case full
    then show ?thesis
      using run at by (auto simp: lock_fat_def f split: if_splits intro!: inv_leave [OF inv t])
  qed
qed

lemma unlock_store_inv:
  assumes inv: "mo_inv limit s" and t: "t \<noteq> 0" and at: "mo_at s t = Unlock_store obj old" and run: "unlock_store t obj old s = goes s'"
  shows "mo_inv limit s'"
proof -
  obtain c where c: "mo_word s obj = old" "view (mo_word s obj) = Thin t c" using inv_facts(2) [OF inv, of t] by (auto simp: at)
  then have e: "mo_entered s t obj = Suc c"
    using inv_facts(1) [OF inv, of t obj] t by (simp add: held_def)
  have n: "lw_thin_count old = c" using c by (simp add: view_iff)
  show ?thesis
  proof (cases c)
    case 0
    then show ?thesis
      by (intro inv_thin [OF inv t c(2) _ view_info [of old]]) (use run t at e n in \<open>auto simp: unlock_store_def\<close>)
  next
    case (Suc d)
    then have "view (old - 0x10000) = Thin t d" using view_dec [of old t d] c by simp
    then show ?thesis
      by (intro inv_thin [OF inv t c(2), of "old - 0x10000" t d]) (use run t at e n Suc in \<open>auto simp: unlock_store_def\<close>)
  qed
qed

lemma unlock_fat_inv:
  assumes inv: "mo_inv limit s" and t: "t \<noteq> 0" and at: "mo_at s t = Unlock_fat obj i" and run: "unlock_fat t obj i s = goes s'"
  shows "mo_inv limit s'"
proof -
  have fat: "view (mo_word s obj) = Fat i" using inv_facts(2) [OF inv, of t] by (simp add: at)
  obtain f where f: "mo_fats s i = Some f" using inv fat by (fastforce simp: mo_inv_def words_ok_def)
  have e: "mo_entered s t obj = (if fl_owner f = Some t then fl_count f else 0)"
    using inv_facts(1) [OF inv, of t obj] by (simp add: held_def fat f)
  consider (not) "fl_count f = 0 \<or> fl_owner f \<noteq> Some t" | (last) "fl_owner f = Some t" "fl_count f = 1" | (more) "fl_owner f = Some t" "1 < fl_count f"
    by linarith
  then show ?thesis
  proof cases
    case not
    then show ?thesis using run at by (auto simp: unlock_fat_def f intro!: inv_leave [OF inv t])
  next
    case last
    then show ?thesis
      by (intro inv_fat [OF inv t fat f, where n = 0 and own = None and p = "Unlock_check obj"])
        (use run at in \<open>auto simp: unlock_fat_def f e\<close>)
  next
    case more
    then show ?thesis
      by (intro inv_fat [OF inv t fat f, where n = "fl_count f - 1" and own = "Some t" and p = Outside])
        (use run at in \<open>auto simp: unlock_fat_def f e\<close>)
  qed
qed

section \<open>The queues\<close>

lemma lock_contend_inv:
  assumes inv: "mo_inv limit s" and t: "t \<noteq> 0" and at: "mo_at s t = Lock_contend obj own" and run: "lock_contend t obj own s = goes s'"
  shows "mo_inv limit s'"
proof -
  have c: "own \<noteq> 0" "mo_mutex s own = None" and own: "own < MAX_THREADS"
    using run inv_facts(2) [OF inv, of t] by (auto simp: lock_contend_def at split: if_splits)
  let ?s1 = "s\<lparr>mo_mutex := (mo_mutex s)(own \<mapsto> t), mo_contention := (mo_contention s)(own := True)\<rparr>"
  have s': "s' = go_to t (Lock_check obj own (mo_contention s own)) ?s1" using run c by (simp add: lock_contend_def)
  have words: "words_ok limit s'" using inv same_words [of s s'] by (simp add: mo_inv_def same_locks_def s')
  have "place_ok s' t (mo_at s' t)"
    using inv_facts(3) [OF inv, of _ own] c own by (cases "mo_waiters s own") (auto simp: s' waiter_ok_def)
  moreover have "place_ok s' u (mo_at s u)" for u
    using inv_facts(2) [OF inv, of u] c by (cases "mo_at s u") (auto simp: s')
  ultimately have "places_ok s'" using inv t by (auto simp: places_ok_def mo_inv_def s')
  moreover have "waiter_ok limit s' u x" if "x \<in> set (mo_waiters s' u)" for u x
    using inv_facts(3) [OF inv, of x u] that at by (auto simp: s' waiter_ok_def)
  ultimately show ?thesis using words by (simp add: mo_inv_def queues_ok_def)
qed

text \<open>Short identities of fat locks have none of the bits of an owner.\<close>

lemma tid_of_fat: "lw_thin_tid w = lw_fat_id w div 32"
proof -
  have d: "n div 2097152 = n div 65536 div 32" for n :: nat by (simp flip: div_mult2_eq)
  have "m div 32 mod 1024 = m mod 32768 div 32" for m :: nat
    using mod_mult2_eq [of m 32 1024] by simp
  then show ?thesis unfolding lw_fields(1,2) unat_field by (simp add: d)
qed

lemma lock_check_inv:
  assumes inv: "mo_inv limit s" and t: "t \<noteq> 0" and at: "mo_at s t = Lock_check obj own flag" and run: "lock_check t obj own flag s = goes s'"
  shows "mo_inv limit s'"
proof -
  have c: "own \<noteq> 0" "own < MAX_THREADS" "mo_mutex s own = Some t" "mo_contention s own" "mo_waiters s own \<noteq> [] \<longrightarrow> flag"
    using inv_facts(2) [OF inv, of t] by (auto simp: at)
  have other: "mo_at s u \<noteq> Lock_check o' own f" "mo_at s own \<noteq> Wake o' todo" if "u \<noteq> t" for u o' f todo
    using inv_facts(2) [OF inv, of u] inv_facts(2) [OF inv, of own] c that at by auto
  show ?thesis
  proof (cases "owned_by own (mo_word s obj)")
    case True
    let ?s1 = "s\<lparr>mo_waiters := (mo_waiters s)(own := t # mo_waiters s own), mo_waiting := (mo_waiting s)(t := obj), mo_mutex := (mo_mutex s)(own := None)\<rparr>"
    have s': "s' = go_to t (Lock_sleep obj own) ?s1" using run True by (simp add: lock_check_def)
    have words: "words_ok limit s'" using inv same_words [of s s'] by (simp add: mo_inv_def same_locks_def s')
    have "place_ok s' u (mo_at s u)" if "u \<noteq> t" for u
      using inv_facts(2) [OF inv, of u] other [OF that] c that by (cases "mo_at s u") (auto simp: s')
    then have "places_ok s'" using inv t by (auto simp: places_ok_def mo_inv_def s')
    moreover have "waiter_ok limit s' own t"
    proof -
      have tid: "lw_thin_tid (mo_word s obj) = own" using True owned_tid [OF c(2)] by simp
      show ?thesis
      proof (cases "lw_fat (mo_word s obj)")
        case False
        then have thin: "view (mo_word s obj) = Thin own (lw_thin_count (mo_word s obj))" using tid by (simp add: view_iff)
        then have "mo_entered s own obj \<noteq> 0" using inv_facts(1) [OF inv, of own obj] c(1) by (simp add: held_def)
        then show ?thesis using c thin by (auto simp: waiter_ok_def s')
      next
        case True
        then have fat: "view (mo_word s obj) = Fat (lw_fat_id (mo_word s obj))" by (simp add: view_iff)
        have "lw_fat_id (mo_word s obj) < limit" using inv fat by (fastforce simp: mo_inv_def words_ok_def)
        moreover have "lw_fat_id (mo_word s obj) div 32 \<noteq> 0" using tid c(1) by (simp add: tid_of_fat)
        ultimately have "\<not> limit \<le> 32" by (auto simp: div_eq_0_iff)
        then show ?thesis using c fat by (auto simp: waiter_ok_def s')
      qed
    qed
    moreover have "waiter_ok limit s' u x" if "x \<in> set (mo_waiters s u)" for u x
      using inv_facts(3) [OF inv, OF that] at by (auto simp: s' waiter_ok_def)
    ultimately show ?thesis using words by (auto simp: mo_inv_def queues_ok_def s' split: if_splits)
  next
    case False
    let ?s1 = "s\<lparr>mo_contention := (mo_contention s)(own := flag), mo_mutex := (mo_mutex s)(own := None)\<rparr>"
    have s': "s' = go_to t (Lock_read obj) ?s1" using run False by (simp add: lock_check_def)
    have words: "words_ok limit s'" using inv same_words [of s s'] by (simp add: mo_inv_def same_locks_def s')
    have "place_ok s' u (mo_at s u)" if "u \<noteq> t" for u
      using inv_facts(2) [OF inv, of u] other [OF that] c that by (cases "mo_at s u") (auto simp: s')
    then have "places_ok s'" using inv t by (auto simp: places_ok_def mo_inv_def s')
    moreover have "waiter_ok limit s' u x" if "x \<in> set (mo_waiters s' u)" for u x
      using inv_facts(3) [OF inv, of x u] that at c by (cases "u = own") (auto simp: s' waiter_ok_def)
    ultimately show ?thesis using words by (simp add: mo_inv_def queues_ok_def)
  qed
qed

lemma lock_sleep_inv:
  assumes inv: "mo_inv limit s" and t: "t \<noteq> 0" and at: "mo_at s t = Lock_sleep obj own" and run: "lock_sleep t obj own s = goes s'"
  shows "mo_inv limit s'"
proof -
  have c: "t \<notin> set (mo_waiters s own)" and s': "s' = go_to t (Lock_read obj) (s\<lparr>mo_waiting := (mo_waiting s)(t := 0)\<rparr>)"
    using run by (auto simp: lock_sleep_def split: if_splits)
  have words: "words_ok limit s'" using inv same_words [of s s'] by (simp add: mo_inv_def same_locks_def s')
  have "place_ok s' u (mo_at s u)" if "u \<noteq> t" for u
    using inv_facts(2) [OF inv, of u] that by (cases "mo_at s u") (auto simp: s')
  then have "places_ok s'" using inv t by (auto simp: places_ok_def mo_inv_def s')
  moreover have "waiter_ok limit s' u x" if x: "x \<in> set (mo_waiters s' u)" for u x
  proof -
    have ok: "waiter_ok limit s u x" using inv_facts(3) [OF inv, of x u] x by (simp add: s')
    then have "x \<noteq> t" using x c at by (auto simp: s' waiter_ok_def)
    then show ?thesis using ok at by (auto simp: s' waiter_ok_def)
  qed
  ultimately show ?thesis using words by (simp add: mo_inv_def queues_ok_def)
qed

lemma wake_begin_inv:
  assumes inv: "mo_inv limit s" and t: "t \<noteq> 0" and at: "mo_at s t = Wake_begin obj" and run: "wake_begin t obj s = goes s'"
  shows "mo_inv limit s'"
proof -
  have c: "mo_mutex s t = None" and s': "s' = go_to t (Wake obj (mo_waiters s t)) (s\<lparr>mo_mutex := (mo_mutex s)(t \<mapsto> t)\<rparr>)"
    using run by (auto simp: wake_begin_def split: if_splits)
  have words: "words_ok limit s'" using inv same_words [of s s'] by (simp add: mo_inv_def same_locks_def s')
  have "place_ok s' u (mo_at s u)" if "u \<noteq> t" for u
    using inv_facts(2) [OF inv, of u] that c by (cases "mo_at s u") (auto simp: s')
  then have "places_ok s'" using inv t by (auto simp: places_ok_def mo_inv_def s')
  moreover have "waiter_ok limit s' u x" if "x \<in> set (mo_waiters s' u)" for u x
    using inv_facts(3) [OF inv, of x u] that at by (auto simp: s' waiter_ok_def)
  ultimately show ?thesis using words by (simp add: mo_inv_def queues_ok_def)
qed

lemma wake_end_inv:
  assumes inv: "mo_inv limit s" and t: "t \<noteq> 0" and at: "mo_at s t = Wake obj []" and run: "wake limit t obj [] r s = goes s'"
  shows "mo_inv limit s'"
proof -
  have c: "mo_mutex s t = Some t" using inv_facts(2) [OF inv, of t] by (simp add: at)
  have s': "s' = leave t None (s\<lparr>mo_waiters := (mo_waiters s)(t := []), mo_contention := (mo_contention s)(t := False), mo_mutex := (mo_mutex s)(t := None)\<rparr>)"
    using run by (simp add: wake_def)
  have words: "words_ok limit s'" using inv same_words [of s s'] by (simp add: mo_inv_def same_locks_def s')
  have "place_ok s' u (mo_at s u)" if "u \<noteq> t" for u
    using inv_facts(2) [OF inv, of u] that c by (cases "mo_at s u") (auto simp: s')
  then have "places_ok s'" using inv t by (auto simp: places_ok_def mo_inv_def s')
  moreover have "waiter_ok limit s' u x" if x: "x \<in> set (mo_waiters s' u)" for u x
  proof -
    have u: "u \<noteq> t" "x \<in> set (mo_waiters s u)" using x by (auto simp: s' split: if_splits)
    then show ?thesis using inv_facts(3) [OF inv u(2)] at by (auto simp: s' waiter_ok_def)
  qed
  ultimately show ?thesis using words by (simp add: mo_inv_def queues_ok_def)
qed

lemma wake_inv:
  assumes inv: "mo_inv limit s" and lim: "limit \<le> MAX_FATLOCKS" and t: "t \<noteq> 0" and at: "mo_at s t = Wake obj todo"
    and run: "wake limit t obj todo r s = goes s'"
  shows "mo_inv limit s'"
proof (cases todo)
  case Nil
  then show ?thesis using wake_end_inv [OF inv t] at run by simp
next
  case (Cons x rest)
  have c: "mo_mutex s t = Some t" "x \<in> set (mo_waiters s t)" "set rest \<subseteq> set (mo_waiters s t)"
    using inv_facts(2) [OF inv, of t] by (auto simp: at Cons)
  have p: "place_ok s t (Wake obj rest)" using c by simp
  have go: "mo_inv limit (go_to t (Wake obj rest) s)" using p by (intro inv_go_to [OF inv t]) (auto simp: at)
  show ?thesis
  proof (cases "mo_waiting s x \<noteq> obj \<and> \<not> lw_fat (mo_word s (mo_waiting s x))")
    case True
    then obtain d where d: "view (mo_word s (mo_waiting s x)) = Thin t d"
      using inv_facts(3) [OF inv c(2)] by (auto simp: waiter_ok_def at view_iff)
    show ?thesis
    proof (cases "inflate_lock limit t (mo_waiting s x) r s")
      case (Inr s1)
      have "mo_inv limit (go_to t (Wake obj rest) s1)"
        by (rule inflate_step [OF inv lim t d Inr]) (use c at in auto)
      then show ?thesis using run True Inr by (simp add: wake_def Cons Let_def)
    qed (use run True go in \<open>simp add: wake_def Cons Let_def\<close>)
  qed (use run go in \<open>auto simp: wake_def Cons Let_def\<close>)
qed

section \<open>Every step\<close>

lemma thread_step_inv:
  assumes inv: "mo_inv limit s" and lim: "limit \<le> MAX_FATLOCKS" and t: "0 < t" "t < MAX_THREADS" and run: "advance limit t r s = goes s'"
  shows "mo_inv limit s'"
proof -
  have t0: "t \<noteq> 0" using t by simp
  have facts: "place_ok s t (mo_at s t)" "\<And>x. x \<in> set (mo_waiters s t) \<Longrightarrow> mo_contention s t"
    using inv_facts [OF inv] by (auto simp: waiter_ok_def)
  show ?thesis
  proof (cases "mo_at s t")
    case Outside
    then show ?thesis using run by (auto simp: advance_def split: request.splits intro!: inv_go_to [OF inv t0])
  next
    case (Lock_read obj)
    then show ?thesis using run by (auto simp: advance_def lock_read_def intro!: inv_go_to [OF inv t0])
  next
    case (Unlock_read obj)
    consider (thin) "\<not> lw_fat (mo_word s obj)" "owned_by t (mo_word s obj)" | (fat) "lw_fat (mo_word s obj)"
      | (not) "\<not> lw_fat (mo_word s obj)" "\<not> owned_by t (mo_word s obj)" by blast
    then show ?thesis
    proof cases
      case thin
      then have "view (mo_word s obj) = Thin t (lw_thin_count (mo_word s obj))" using owned_tid [OF t(2)] by (simp add: view_iff)
      then have "place_ok s t (Unlock_store obj (mo_word s obj))" by auto
      from inv_go_to [OF inv t0 this] show ?thesis using run Unlock_read thin by (simp add: advance_def unlock_read_def Let_def)
    next
      case fat
      then have "place_ok s t (Unlock_fat obj (lw_fat_id (mo_word s obj)))" by (simp add: view_iff)
      from inv_go_to [OF inv t0 this] show ?thesis using run Unlock_read fat by (simp add: advance_def unlock_read_def Let_def)
    next
      case not
      then show ?thesis using run Unlock_read by (auto simp: advance_def unlock_read_def Let_def intro!: inv_leave [OF inv t0])
    qed
  next
    case (Unlock_check obj)
    have "\<not> mo_contention s t \<Longrightarrow> mo_waiters s t = []" using facts(2) by (cases "mo_waiters s t") auto
    then show ?thesis
      using run Unlock_check
      by (auto simp: advance_def unlock_check_def split: if_splits intro!: inv_go_to [OF inv t0] inv_leave [OF inv t0])
  qed (use run lock_try_inv [OF inv t0 t(2)] lock_store_inv [OF inv t0] lock_overflow_inv [OF inv lim t0] lock_contend_inv [OF inv t0]
      lock_check_inv [OF inv t0] lock_sleep_inv [OF inv t0] lock_fat_inv [OF inv t0] unlock_store_inv [OF inv t0] unlock_fat_inv [OF inv t0]
      wake_begin_inv [OF inv t0] wake_inv [OF inv lim t0] in \<open>simp_all add: advance_def\<close>)
qed

lemma collect_step_inv:
  assumes inv: "mo_inv limit s" and fat: "lw_fat (mo_word s obj)" and gone: "\<forall>t. \<not> works_on (mo_at s t) obj \<and> mo_entered s t obj = 0"
  shows "mo_inv limit (free_lock obj w s)"
proof -
  let ?i = "lw_fat_id (mo_word s obj)"
  define s' where "s' = free_lock obj w s"
  have s': "mo_word s' = (mo_word s)(obj := lw_info w)" "mo_fats s' = mo_fats s" "mo_free s' = ?i # mo_free s" "mo_next s' = mo_next s"
    "mo_contention s' = mo_contention s" "mo_waiters s' = mo_waiters s" "mo_waiting s' = mo_waiting s" "mo_mutex s' = mo_mutex s"
    "mo_at s' = mo_at s" "mo_entered s' = mo_entered s"
    by (simp_all add: s'_def free_lock_def)
  have i: "view (mo_word s obj) = Fat ?i" using fat by (simp add: view_iff)
  have words: "words_ok limit s" using inv by (simp add: mo_inv_def)
  have "mo_entered s' u x = held s' u x" for u x
  proof (cases "x = obj")
    case True
    then show ?thesis using gone by (cases "u = 0") (simp_all add: held_def s' view_info)
  next
    case False
    then have "held s' u x = held s u x" unfolding held_def s'(1,2) by simp
    then show ?thesis using inv_facts(1) [OF inv, of u x] by (simp add: s')
  qed
  moreover have "x = obj" if "view (mo_word s x) = Fat ?i" for x using words i that by (auto simp: words_ok_def)
  ultimately have words': "words_ok limit s'"
    using words i by (auto simp: words_ok_def s'(1-4) view_info)
  have "place_ok s' u (mo_at s u)" for u
    using inv_facts(2) [OF inv, of u] gone [THEN spec, of u] by (cases "mo_at s u") (auto simp: s')
  then have places': "places_ok s'" using inv by (simp add: places_ok_def mo_inv_def s')
  have "waiter_ok limit s' u x" if x: "x \<in> set (mo_waiters s' u)" for u x
  proof -
    have ok: "waiter_ok limit s u x" using inv_facts(3) [OF inv, of x u] x by (simp add: s')
    then have "mo_waiting s x \<noteq> obj" using gone [THEN spec, of x] by (auto simp: waiter_ok_def)
    then show ?thesis using ok by (simp add: waiter_ok_def s')
  qed
  with words' places' show ?thesis by (simp add: mo_inv_def queues_ok_def s'_def)
qed

lemma start_inv: "mo_inv limit (mo_start f)"
proof -
  have "held (mo_start f) t obj = 0" for t obj by (cases "t = 0") (simp_all add: held_def mo_start_def view_info)
  then show ?thesis
    by (simp add: mo_inv_def words_ok_def places_ok_def queues_ok_def) (simp add: mo_start_def view_info)
qed

lemma reach_inv:
  assumes "mo_reach limit start s" and "mo_inv limit start" and "limit \<le> MAX_FATLOCKS"
  shows "mo_inv limit s"
  using assms(1)
proof induction
  case (reach_step s s')
  from reach_step.hyps(2) show ?case
    by cases (use reach_step.IH assms(3) thread_step_inv collect_step_inv in blast)+
qed (rule assms(2))

end
