(* ===== verification/Lock_Spec.thy ===== *)
theory Lock_Spec
  imports Lock_Safe
begin

text \<open>
  What the monitors promise: one thread at a time, the answer of \<open>_jc_lock_held\<close>, and that a waiting thread
  is woken up; and where the code breaks these promises.
\<close>

section \<open>Mutual exclusion\<close>

lemma held_one: "held s t obj \<noteq> 0 \<Longrightarrow> held s u obj \<noteq> 0 \<Longrightarrow> t = u"
  by (auto simp: held_def split: lockview.splits option.splits if_splits)

lemma lock_held_held:
  assumes "mo_inv limit s" and "0 < t" and "t < MAX_THREADS"
  shows "lock_held t obj s \<longleftrightarrow> held s t obj \<noteq> 0"
proof (cases "lw_fat (mo_word s obj)")
  case True
  then have v: "view (mo_word s obj) = Fat (lw_fat_id (mo_word s obj))" by (simp add: view_iff)
  show ?thesis by (auto simp: lock_held_def held_def v True Let_def split: option.splits)
next
  case False
  then have v: "view (mo_word s obj) = Thin (lw_thin_tid (mo_word s obj)) (lw_thin_count (mo_word s obj))" by (simp add: view_iff)
  show ?thesis using assms(2) owned_tid [OF assms(3), of "mo_word s obj"] by (simp add: lock_held_def held_def v False Let_def)
qed

text \<open>
  C36: Whatever the order of the steps of the threads, with thin locks, inflation, waiting and the collector,
  when a thread has entered the monitor of an object more often than it has left it, no other thread has;
  and \<open>_jc_lock_held\<close> says exactly this.
\<close>

theorem monitors_exclude:
  assumes "mo_reach limit (mo_start info) s" and "limit \<le> MAX_FATLOCKS" and "0 < t" and "t < MAX_THREADS"
  shows "(lock_held t obj s \<longleftrightarrow> 0 < mo_entered s t obj) \<and> (0 < mo_entered s t obj \<longrightarrow> (\<forall>u. u \<noteq> t \<longrightarrow> mo_entered s u obj = 0))"
proof -
  have inv: "mo_inv limit s" by (rule reach_inv [OF assms(1) start_inv assms(2)])
  show ?thesis
    using lock_held_held [OF inv assms(3,4), of obj] held_one [of s t obj] by (auto simp: inv_facts(1) [OF inv])
qed

section \<open>Schedules\<close>

text \<open>The steps of some threads in an order; a step that has to wait cannot be taken.\<close>

fun run :: "nat \<Rightarrow> (nat \<times> request) list \<Rightarrow> monitors \<Rightarrow> monitors option" where
  "run limit [] s = Some s"
| "run limit ((t, r) # xs) s = (case advance limit t r s of Some (Inr s') \<Rightarrow> run limit xs s' | _ \<Rightarrow> None)"

lemma run_append: "run limit (xs @ ys) s = (case run limit xs s of None \<Rightarrow> None | Some s' \<Rightarrow> run limit ys s')"
  by (induction limit xs s rule: run.induct) (auto split: option.splits sum.splits)

lemma run_reach:
  "run limit xs s = Some s' \<Longrightarrow> (\<And>t r. (t, r) \<in> set xs \<Longrightarrow> 0 < t \<and> t < MAX_THREADS) \<Longrightarrow> mo_reach limit start s \<Longrightarrow> mo_reach limit start s'"
proof (induction limit xs s rule: run.induct)
  case (2 limit t r xs s)
  from "2.prems"(1) obtain s1 where s1: "advance limit t r s = goes s1" "run limit xs s1 = Some s'"
    by (auto split: option.splits sum.splits)
  have "mo_step limit s s1" using "2.prems"(2) [of t r] s1(1) by (intro thread_step) auto
  then have "mo_reach limit start s1" by (rule reach_step [OF "2.prems"(3)])
  then show ?case using "2.IH" [OF s1(1) refl s1(2)] "2.prems"(2) by (meson list.set_intros(2))
qed simp

text \<open>Executing a schedule by simplification\<close>

lemmas mo_run = advance_def lock_read_def lock_try_def lock_store_def lock_overflow_def lock_contend_def lock_check_def
  lock_sleep_def lock_fat_def unlock_read_def unlock_store_def unlock_fat_def unlock_check_def wake_begin_def wake_def
  inflate_lock_def got_lock_def go_to_def leave_def set_lockword_def set_fat_def count_entered_def Let_def
  lw_info_def lw_fat_def lw_fat_id_def lw_thin_tid_def lw_thin_count_def thinlock_id_def owned_by_def

definition enters :: "nat \<Rightarrow> u32 \<Rightarrow> (nat \<times> request) list" where
  "enters t obj = [(t, Enter obj), (t, Go), (t, Go)]"

abbreviation plain_start :: monitors where
  "plain_start \<equiv> mo_start (\<lambda>_. 1)"

lemma run_small: "mo_reach limit start s \<Longrightarrow> run limit xs s = Some s' \<Longrightarrow> list_all (\<lambda>x. 0 < fst x \<and> fst x < MAX_THREADS) xs \<Longrightarrow> mo_reach limit start s'"
  by (rule run_reach) (auto simp: list_all_iff)

lemma entered_once: "\<exists>s. run MAX_FATLOCKS (enters 1 64) plain_start = Some s \<and> mo_entered s 1 64 = 1"
  by (simp add: enters_def mo_run mo_start_def)

theorem monitors_exclude_witness:
  "\<exists>s. mo_reach MAX_FATLOCKS plain_start s \<and> mo_entered s 1 64 = 1 \<and> lock_held 1 64 s \<and> mo_entered s 2 64 = 0"
proof -
  obtain s where s: "run MAX_FATLOCKS (enters 1 64) plain_start = Some s" "mo_entered s 1 64 = 1"
    using entered_once by blast
  have "mo_reach MAX_FATLOCKS plain_start s"
    by (rule run_small [OF reach_start s(1)]) (simp add: enters_def)
  then show ?thesis using monitors_exclude [of MAX_FATLOCKS "\<lambda>_. 1" s 1 64] s(2) by auto
qed


section \<open>Waiting\<close>


text \<open>The second thread finds the monitor taken and waits in the list of the first.\<close>

definition waits_for_one :: "(nat \<times> request) list" where
  "waits_for_one = enters 1 64 @ enters 2 64 @ [(2, Go), (2, Go)]"

lemma waits_for_one_run: "\<exists>s. run 32 waits_for_one plain_start = Some s \<and> 2 \<in> set (mo_waiters s 1) \<and> mo_waiting s 2 = 64"
  by (simp add: waits_for_one_def enters_def mo_run mo_start_def)


section \<open>The one fault\<close>


definition lost_race :: "(nat \<times> request) list" where
  "lost_race = [(1, Enter 64), (1, Go)] @ enters 2 64 @ [(1, Go)]"

lemma lost_race_run: "\<exists>s. run MAX_FATLOCKS lost_race plain_start = Some s \<and> advance MAX_FATLOCKS 1 Go s = faults"
  by (simp add: lost_race_def enters_def mo_run mo_start_def)


section \<open>A release wakes the waiters\<close>

text \<open>Who has the mutex of a thread: one that is in between, and that never has to wait there\<close>

definition mutex_user :: "monitors \<Rightarrow> nat \<Rightarrow> nat \<Rightarrow> bool" where
  "mutex_user s u v \<longleftrightarrow> (\<exists>obj flag. mo_at s v = Lock_check obj u flag) \<or> v = u \<and> (\<exists>obj todo. mo_at s v = Wake obj todo)"

definition mutexes_ok :: "monitors \<Rightarrow> bool" where
  "mutexes_ok s \<longleftrightarrow> (\<forall>u v. mo_mutex s u = Some v \<longrightarrow> mutex_user s u v \<and> 0 < v \<and> v < MAX_THREADS)"

lemma inflate_same:
  "inflate_lock limit t obj r s = Inr s' \<Longrightarrow> mo_mutex s' = mo_mutex s \<and> mo_at s' = mo_at s \<and> mo_waiters s' = mo_waiters s
    \<and> mo_waiting s' = mo_waiting s \<and> mo_contention s' = mo_contention s"
  by (auto simp: inflate_lock_def got_lock_def set_lockword_def set_fat_def Let_def split: list.splits if_splits)

lemma advance_mutexes:
  assumes ok: "mutexes_ok s" and inv: "mo_inv limit s" and t: "0 < t" "t < MAX_THREADS" and run: "advance limit t r s = goes s'"
  shows "mutexes_ok s'"
proof -
  have users: "mutex_user s u v \<and> 0 < v \<and> v < MAX_THREADS" if "mo_mutex s u = Some v" for u v
    using ok that by (auto simp: mutexes_ok_def)
  have "mutex_user s' u v \<and> 0 < v \<and> v < MAX_THREADS" if m: "mo_mutex s' u = Some v" for u v
    using inv_facts(2) [OF inv, of t] run t m users [of u v] inflate_same [of limit t _ r s]
    by (cases "mo_at s t")
      (auto simp: mutex_user_def advance_def lock_read_def lock_try_def lock_store_def lock_overflow_def lock_contend_def lock_check_def
        lock_sleep_def lock_fat_def unlock_read_def unlock_store_def unlock_fat_def unlock_check_def wake_begin_def wake_def Let_def
        split: request.splits if_splits option.splits list.splits sum.splits)
  then show ?thesis by (simp add: mutexes_ok_def)
qed

lemma reach_mutexes:
  assumes "mo_reach limit (mo_start info) s" and lim: "limit \<le> MAX_FATLOCKS"
  shows "mutexes_ok s"
  using assms(1)
proof induction
  case reach_start
  show ?case by (simp add: mutexes_ok_def mo_start_def)
next
  case (reach_step s s')
  have inv: "mo_inv limit s" by (rule reach_inv [OF reach_step.hyps(1) start_inv lim])
  from reach_step.hyps(2) show ?case
  proof cases
    case (thread_step t r)
    then show ?thesis by (intro advance_mutexes [OF reach_step.IH inv])
  next
    case (collect_step obj w)
    then show ?thesis using reach_step.IH by (simp add: mutexes_ok_def mutex_user_def free_lock_def)
  qed
qed

text \<open>The loop over the waiters ends, whether there is a fat lock for every monitor or not.\<close>

lemma wake_loop:
  assumes "mo_at s t = Wake obj todo"
  shows "\<exists>s'. run limit (replicate (Suc (length todo)) (t, Go)) s = Some s' \<and> mo_at s' t = Outside \<and> mo_waiters s' t = []
    \<and> mo_mutex s' t = None \<and> (\<forall>x. x \<noteq> t \<longrightarrow> mo_at s' x = mo_at s x)"
  using assms
proof (induction todo arbitrary: s)
  case Nil
  then show ?case by (simp add: advance_def wake_def leave_def)
next
  case (Cons y ys)
  obtain s1 where s1: "advance limit t Go s = goes s1" "mo_at s1 t = Wake obj ys" "\<And>x. x \<noteq> t \<Longrightarrow> mo_at s1 x = mo_at s x"
  proof -
    have "\<exists>s1. wake limit t obj (y # ys) Go s = goes (go_to t (Wake obj ys) s1) \<and> mo_at s1 = mo_at s"
      using inflate_same [of limit t "mo_waiting s y" Go s]
      by (cases "inflate_lock limit t (mo_waiting s y) Go s") (auto simp: wake_def Let_def)
    then show ?thesis using Cons.prems that by (auto simp: advance_def)
  qed
  from Cons.IH [OF s1(2)] s1 show ?case by (auto simp del: replicate.simps simp: replicate_Suc)
qed

lemma release_free:
  assumes inv: "mo_inv limit s" and at: "mo_at s t = Unlock_check obj" and free: "mo_mutex s t = None"
  shows "\<exists>xs s'. run limit xs s = Some s' \<and> fst ` set xs \<subseteq> {t} \<and> length xs \<le> length (mo_waiters s t) + 3 \<and> mo_at s' t = Outside
    \<and> mo_waiters s' t = [] \<and> mo_mutex s' t = None \<and> (\<forall>x. x \<noteq> t \<longrightarrow> mo_at s' x = mo_at s x)"
proof (cases "mo_contention s t")
  case False
  then have "mo_waiters s t = []" using inv_facts(3) [OF inv, of _ t] by (cases "mo_waiters s t") (auto simp: waiter_ok_def)
  then show ?thesis
    using at free False by (intro exI [of _ "[(t, Go)]"]) (simp add: advance_def unlock_check_def leave_def)
next
  case True
  define s1 where "s1 = go_to t (Wake_begin obj) s"
  define s2 where "s2 = go_to t (Wake obj (mo_waiters s t)) (s1\<lparr>mo_mutex := (mo_mutex s1)(t \<mapsto> t)\<rparr>)"
  have a: "advance limit t Go s = goes s1" "advance limit t Go s1 = goes s2"
    using at free True by (simp_all add: advance_def unlock_check_def wake_begin_def s1_def s2_def)
  have "mo_at s2 t = Wake obj (mo_waiters s t)" by (simp add: s2_def)
  then obtain s' where s': "run limit (replicate (Suc (length (mo_waiters s t))) (t, Go)) s2 = Some s'" "mo_at s' t = Outside"
    "mo_waiters s' t = []" "mo_mutex s' t = None" "\<And>x. x \<noteq> t \<Longrightarrow> mo_at s' x = mo_at s2 x"
    using wake_loop by blast
  have "run limit ((t, Go) # (t, Go) # replicate (Suc (length (mo_waiters s t))) (t, Go)) s = Some s'"
    using a s'(1) by simp
  moreover have "fst ` set ((t, Go) # (t, Go) # replicate (Suc (length (mo_waiters s t))) (t, Go)) \<subseteq> {t}" by auto
  moreover have "mo_at s' x = mo_at s x" if "x \<noteq> t" for x using s'(5) [OF that] that by (simp add: s2_def s1_def)
  ultimately show ?thesis
    using s'(2-4) by (intro exI [of _ "(t, Go) # (t, Go) # replicate (Suc (length (mo_waiters s t))) (t, Go)"] exI [of _ s'] conjI) simp_all
qed

text \<open>A thread that checks the owner gives the mutex of the owner back with its next step.\<close>

lemma check_gives_back:
  assumes "mo_at s v = Lock_check obj u flag"
  shows "\<exists>s'. advance limit v Go s = goes s' \<and> mo_mutex s' u = None \<and> (\<forall>x. x \<noteq> v \<longrightarrow> mo_at s' x = mo_at s x)
    \<and> set (mo_waiters s u) \<subseteq> set (mo_waiters s' u) \<and> length (mo_waiters s' u) \<le> Suc (length (mo_waiters s u))"
  using assms by (auto simp: advance_def lock_check_def)

lemma mutex_comes:
  assumes reach: "mo_reach limit (mo_start info) s" and lim: "limit \<le> MAX_FATLOCKS" and at: "mo_at s t = Unlock_check obj"
  shows "\<exists>ys s1. run limit ys s = Some s1 \<and> fst ` set ys \<subseteq> set_option (mo_mutex s t) \<and> length ys \<le> 1 \<and> mo_inv limit s1
    \<and> mo_at s1 t = Unlock_check obj \<and> mo_mutex s1 t = None \<and> length (mo_waiters s1 t) \<le> length (mo_waiters s t) + 1
    \<and> (\<forall>x \<in> set (mo_waiters s t). mo_at s1 x = mo_at s x)"
proof -
  have inv: "mo_inv limit s" by (rule reach_inv [OF reach start_inv lim])
  show ?thesis
  proof (cases "mo_mutex s t")
    case None
    then show ?thesis using inv at by (intro exI [of _ "[]"]) simp
  next
    case (Some v)
    then have v: "mutex_user s t v" "0 < v" "v < MAX_THREADS" using reach_mutexes [OF reach lim] by (auto simp: mutexes_ok_def)
    then obtain obj' flag where c: "mo_at s v = Lock_check obj' t flag" using at by (auto simp: mutex_user_def)
    from check_gives_back [OF c] obtain s1 where s1: "advance limit v Go s = goes s1" "mo_mutex s1 t = None"
      "\<And>x. x \<noteq> v \<Longrightarrow> mo_at s1 x = mo_at s x" "length (mo_waiters s1 t) \<le> Suc (length (mo_waiters s t))" by blast
    have "mo_inv limit s1" by (rule thread_step_inv [OF inv lim v(2,3) s1(1)])
    moreover have "t \<noteq> v" using at c by auto
    moreover have "x \<noteq> v" if "x \<in> set (mo_waiters s t)" for x using inv_facts(3) [OF inv that] c by (auto simp: waiter_ok_def)
    ultimately show ?thesis using s1 at Some by (intro exI [of _ "[(v, Go)]"]) auto
  qed
qed


definition releases :: "(nat \<times> request) list" where
  "releases = waits_for_one @ [(1, Leave 64), (1, Go), (1, Go)]"

lemma releases_run: "\<exists>s. run 32 releases plain_start = Some s \<and> mo_at s 1 = Unlock_check 64 \<and> mo_waiters s 1 = [2]"
  by (simp add: releases_def waits_for_one_def enters_def mo_run mo_start_def)


end
