(* ===== verification/Lock_Lost.thy ===== *)
theory Lock_Lost
  imports Lock_Spec
begin

text \<open>
  When there are more than 32 fat locks, the identity of a fat lock has bits where a thin lock has its
  owner, and the check of the owner under its mutex in \<open>_jc_lock_object\<close> does not look at the fat bit: a
  thread can go to sleep in the list of a thread that does not have the monitor. The schedule is built
  here, from the start, out of calls of the two functions.
\<close>

section \<open>A schedule that makes 32 fat locks\<close>

lemma lw_info_or: "lw_info (a OR b) = lw_info a OR lw_info b"
  unfolding lw_info_def by (rule bit_eqI) (auto simp: bit_simps)

lemma lw_info_high: "lw_info (thinlock_id t) = 0" "lw_info (push_bit 16 x) = 0" "lw_info LW_FAT_BIT = 0" "lw_info (lw_info w) = lw_info w"
proof -
  show "lw_info (thinlock_id t) = 0" "lw_info (push_bit 16 x) = 0" "lw_info (lw_info w) = lw_info w"
    by (rule bit_eqI; auto simp: bit_info bit_thinlock bit_push_bit_iff)+
qed (simp add: lw_info_def)

definition thin_word :: "nat \<Rightarrow> u32" where
  "thin_word c = thinlock_id 1 OR push_bit 16 (of_nat c) OR lw_info 1"

definition fat_word :: "nat \<Rightarrow> u32" where
  "fat_word i = LW_FAT_BIT OR push_bit 16 (of_nat i) OR lw_info 1"

lemma info_one: "lw_info 1 = 1"
  by (simp add: lw_info_def)

lemma thin_word_facts:
  assumes "c < MAX_THIN_RECURSION"
  shows "\<not> lw_fat (thin_word c)" "lw_thin_count (thin_word c) = c" "owned_by 1 (thin_word c)" "lw_info (thin_word c) = 1" "thin_word c \<noteq> 1"
proof -
  have v: "view (thin_word c) = Thin 1 c" unfolding thin_word_def by (rule view_thin) (use assms in simp_all)
  then show "\<not> lw_fat (thin_word c)" "lw_thin_count (thin_word c) = c" by (simp_all add: view_iff)
  show "owned_by 1 (thin_word c)" using v by (subst owned_tid) (simp_all add: view_iff)
  show "lw_info (thin_word c) = 1" by (simp add: thin_word_def lw_info_or lw_info_high info_one)
  show "thin_word c \<noteq> 1" using v view_info [of 1] by (auto simp: info_one)
qed

lemma fat_word_facts:
  assumes "i < MAX_FATLOCKS"
  shows "lw_fat (fat_word i)" "lw_fat_id (fat_word i) = i" "lw_info (fat_word i) = 1" "fat_word i \<noteq> 1"
proof -
  have v: "view (fat_word i) = Fat i" unfolding fat_word_def by (rule view_fat) (rule assms)
  then show "lw_fat (fat_word i)" "lw_fat_id (fat_word i) = i" by (simp_all add: view_iff)
  show "lw_info (fat_word i) = 1" unfolding fat_word_def lw_info_or lw_info_high info_one by simp
  show "fat_word i \<noteq> 1" using v view_info [of 1] by (auto simp: info_one)
qed

lemma const_upd: "(\<lambda>_. c)(x := c) = (\<lambda>_. c)"
  by auto

text \<open>The objects at the addresses below \<open>k\<close> have fat locks; nobody is inside.\<close>

definition crowd :: "nat \<Rightarrow> monitors" where
  "crowd k = (mo_start (\<lambda>_. 1))\<lparr>mo_word := (\<lambda>obj. if unat obj < k then fat_word (unat obj) else 1),
     mo_fats := (\<lambda>i. if i < k then Some \<lparr>fl_count = 0, fl_owner = None\<rparr> else None), mo_next := k\<rparr>"

definition entered_by_one :: "u32 \<Rightarrow> nat \<Rightarrow> nat \<Rightarrow> u32 \<Rightarrow> nat" where
  "entered_by_one obj n = (\<lambda>_ _. 0)(1 := (\<lambda>_. 0)(obj := n))"

definition thin_crowd :: "nat \<Rightarrow> nat \<Rightarrow> monitors" where
  "thin_crowd k c = (crowd k)\<lparr>mo_word := (mo_word (crowd k))(of_nat k := thin_word c), mo_entered := entered_by_one (of_nat k) (Suc c)\<rparr>"

definition fat_crowd :: "nat \<Rightarrow> nat \<Rightarrow> monitors" where
  "fat_crowd k n = (crowd k)\<lparr>mo_word := (mo_word (crowd k))(of_nat k := fat_word k),
     mo_fats := (mo_fats (crowd k))(k \<mapsto> \<lparr>fl_count = n, fl_owner = Some 1\<rparr>), mo_next := Suc k, mo_entered := entered_by_one (of_nat k) n\<rparr>"

lemmas crowd_defs = crowd_def thin_crowd_def fat_crowd_def entered_by_one_def mo_start_def

lemmas mo_ops = advance_def lock_read_def lock_try_def lock_store_def lock_overflow_def lock_fat_def unlock_read_def unlock_fat_def
  unlock_check_def inflate_lock_def got_lock_def go_to_def leave_def set_lockword_def set_fat_def count_entered_def Let_def

lemma crowd_first:
  assumes "k < 32"
  shows "run MAX_FATLOCKS (enters 1 (of_nat k)) (crowd k) = Some (thin_crowd k 0)"
proof -
  have k: "unat (of_nat k :: u32) = k" using assms by (simp add: unat_of_nat take_bit_nat_eq_self)
  have w: "thin_word 0 = thinlock_id 1 OR 1" by (simp add: thin_word_def info_one)
  show ?thesis by (simp add: enters_def mo_ops crowd_defs k w info_one const_upd)
qed

lemma crowd_again:
  assumes "k < 32" and "c < 31"
  shows "run MAX_FATLOCKS (enters 1 (of_nat k) @ [(1, Go)]) (thin_crowd k c) = Some (thin_crowd k (Suc c))"
proof -
  have w: "thinlock_id 1 OR push_bit 16 (of_nat c + 1) OR 1 = thin_word (Suc c)" by (simp add: thin_word_def info_one add.commute)
  have again: "lock_try 1 obj (thin_word c) s = goes (go_to 1 (Lock_store obj (thin_word (Suc c))) s)" if "mo_word s obj = thin_word c" for s obj
    using assms(2) thin_word_facts [of c] that w by (simp add: lock_try_def del: of_nat_Suc One_nat_def)
  show ?thesis
    by (simp add: enters_def advance_def lock_read_def again lock_store_def go_to_def leave_def set_lockword_def count_entered_def crowd_defs const_upd del: One_nat_def of_nat_Suc)
qed

text \<open>The 33rd time the lock becomes fat.\<close>

lemma crowd_inflates:
  assumes "k < 32"
  shows "run MAX_FATLOCKS (enters 1 (of_nat k) @ [(1, Go), (1, Go), (1, Go), (1, Go)]) (thin_crowd k 31) = Some (fat_crowd k 33)"
proof -
  have k: "unat (of_nat k :: u32) = k" using assms by (simp add: unat_of_nat take_bit_nat_eq_self)
  have full: "lock_try 1 obj (thin_word 31) s = goes (go_to 1 (Lock_overflow obj) s)" if "mo_word s obj = thin_word 31" for s obj
    using thin_word_facts [of 31] that by (simp add: lock_try_def del: One_nat_def)
  have fat: "lock_try 1 obj (fat_word k) s = goes (go_to 1 (Lock_fat obj k) s)" if "mo_word s obj = fat_word k" for s obj
    using assms fat_word_facts [of k] that by (simp add: lock_try_def del: One_nat_def)
  have got: "got_lock 1 obj i s = set_lockword obj (fat_word i) (set_fat i 32 (Some 1) s)" if "mo_word s obj = thin_word 31" for s obj i
    using thin_word_facts [of 31] that by (simp add: got_lock_def fat_word_def info_one del: One_nat_def)
  show ?thesis
    using assms
    by (simp add: enters_def advance_def lock_read_def full fat got lock_overflow_def inflate_lock_def lock_fat_def
      go_to_def leave_def set_lockword_def set_fat_def count_entered_def crowd_defs const_upd del: of_nat_Suc One_nat_def)
qed

definition leaves :: "nat \<Rightarrow> u32 \<Rightarrow> (nat \<times> request) list" where
  "leaves t obj = [(t, Leave obj), (t, Go), (t, Go)]"

lemma fat_crowd_leave:
  assumes "k < 32"
  shows "advance MAX_FATLOCKS 1 Go (go_to 1 (Unlock_read (of_nat k)) (fat_crowd k n)) = goes (go_to 1 (Unlock_fat (of_nat k) k) (fat_crowd k n))"
  using assms fat_word_facts [of k]
  by (simp add: advance_def unlock_read_def Let_def fat_crowd_def go_to_def del: One_nat_def)

lemma fat_crowd_call: "advance MAX_FATLOCKS 1 (Leave obj) (fat_crowd k n) = goes (go_to 1 (Unlock_read obj) (fat_crowd k n))"
  by (simp add: advance_def fat_crowd_def crowd_def mo_start_def)

lemma crowd_leaves:
  assumes "k < 32"
  shows "run MAX_FATLOCKS (leaves 1 (of_nat k)) (fat_crowd k (Suc (Suc n))) = Some (fat_crowd k (Suc n))"
proof -
  have "advance MAX_FATLOCKS 1 Go (go_to 1 (Unlock_fat (of_nat k) k) (fat_crowd k (Suc (Suc n)))) = goes (fat_crowd k (Suc n))"
    by (simp add: advance_def unlock_fat_def go_to_def leave_def set_fat_def count_entered_def crowd_defs const_upd del: One_nat_def)
  then show ?thesis
    using fat_crowd_leave [OF assms] by (simp add: leaves_def fat_crowd_call del: One_nat_def)
qed

lemma crowd_last:
  assumes "k < 32"
  shows "run MAX_FATLOCKS (leaves 1 (of_nat k) @ [(1, Go)]) (fat_crowd k 1) = Some (crowd (Suc k))"
proof -
  have k: "unat (of_nat k :: u32) = k" using assms by (simp add: unat_of_nat take_bit_nat_eq_self)
  have w: "(\<lambda>obj :: u32. if unat obj < k then fat_word (unat obj) else 1)(of_nat k := fat_word k) = (\<lambda>obj. if unat obj < Suc k then fat_word (unat obj) else 1)"
    by (rule ext) (auto simp: k less_Suc_eq)
  have f: "(\<lambda>i. if i < k then Some \<lparr>fl_count = 0, fl_owner = None\<rparr> else None)(k \<mapsto> \<lparr>fl_count = 0, fl_owner = None :: nat option\<rparr>)
      = (\<lambda>i. if i < Suc k then Some \<lparr>fl_count = 0, fl_owner = None\<rparr> else None)"
    by (rule ext) auto
  have "run MAX_FATLOCKS [(1, Go), (1, Go)] (go_to 1 (Unlock_fat (of_nat k) k) (fat_crowd k 1)) = Some (crowd (Suc k))"
    by (simp add: advance_def unlock_fat_def unlock_check_def go_to_def leave_def set_fat_def count_entered_def crowd_defs const_upd w f del: One_nat_def)
  then show ?thesis
    using fat_crowd_leave [OF assms, of 1]
    by (simp add: leaves_def fat_crowd_call del: One_nat_def)
qed

text \<open>Thread 1 alone goes from one state to another.\<close>

definition one_goes :: "monitors \<Rightarrow> monitors \<Rightarrow> bool" where
  "one_goes s s' \<longleftrightarrow> (\<exists>xs. (\<forall>x \<in> set xs. fst x = 1) \<and> run MAX_FATLOCKS xs s = Some s')"

lemma one_goes_run: "run MAX_FATLOCKS xs s = Some s' \<Longrightarrow> list_all (\<lambda>x. fst x = 1) xs \<Longrightarrow> one_goes s s'"
  by (auto simp: one_goes_def list_all_iff)

lemma one_goes_refl: "one_goes s s"
  using one_goes_run [of "[]"] by simp

lemma one_goes_trans [trans]: "one_goes s s1 \<Longrightarrow> one_goes s1 s2 \<Longrightarrow> one_goes s s2"
  unfolding one_goes_def by (elim exE conjE, rule_tac x = "xs @ xsa" in exI) (auto simp: run_append)

lemma crowd_up: "k < 32 \<Longrightarrow> c < 32 \<Longrightarrow> one_goes (crowd k) (thin_crowd k c)"
proof (induction c)
  case 0
  show ?case by (rule one_goes_run [OF crowd_first [OF 0(1)]]) (simp add: enters_def)
next
  case (Suc c)
  then have "one_goes (crowd k) (thin_crowd k c)" by simp
  also have "one_goes (thin_crowd k c) (thin_crowd k (Suc c))"
    by (rule one_goes_run [OF crowd_again]) (use Suc.prems in \<open>simp_all add: enters_def\<close>)
  finally show ?case .
qed

lemma crowd_down: "k < 32 \<Longrightarrow> one_goes (fat_crowd k (Suc n)) (fat_crowd k 1)"
proof (induction n)
  case (Suc n)
  have "one_goes (fat_crowd k (Suc (Suc n))) (fat_crowd k (Suc n))"
    by (rule one_goes_run [OF crowd_leaves [OF Suc.prems]]) (simp add: leaves_def)
  also have "one_goes (fat_crowd k (Suc n)) (fat_crowd k 1)" by (rule Suc.IH [OF Suc.prems])
  finally show ?case .
qed (simp add: one_goes_refl)

lemma crowd_grows:
  assumes k: "k < 32"
  shows "one_goes (crowd k) (crowd (Suc k))"
proof -
  have "one_goes (crowd k) (thin_crowd k 31)" by (rule crowd_up [OF k]) simp
  also have "one_goes (thin_crowd k 31) (fat_crowd k 33)" by (rule one_goes_run [OF crowd_inflates [OF k]]) (simp add: enters_def)
  also have "one_goes (fat_crowd k 33) (fat_crowd k 1)" using crowd_down [OF k, of 32] by simp
  also have "one_goes (fat_crowd k 1) (crowd (Suc k))" by (rule one_goes_run [OF crowd_last [OF k]]) (simp add: leaves_def)
  finally show ?thesis .
qed

lemma crowd_start: "crowd 0 = plain_start"
  by (simp add: crowd_def mo_start_def info_one)

lemma crowd_reached: "k \<le> 32 \<Longrightarrow> mo_reach MAX_FATLOCKS plain_start (crowd k)"
proof (induction k)
  case 0
  show ?case unfolding crowd_start by (rule reach_start)
next
  case (Suc k)
  then obtain xs where "\<And>x. x \<in> set xs \<Longrightarrow> fst x = 1" "run MAX_FATLOCKS xs (crowd k) = Some (crowd (Suc k))"
    using crowd_grows [of k] by (auto simp: one_goes_def)
  then show ?case using Suc by (intro run_reach [of MAX_FATLOCKS xs "crowd k" "crowd (Suc k)"]) force+
qed

section \<open>The lost wake-up\<close>

text \<open>Only the owner of a list takes threads out of it.\<close>

lemma others_leave_list:
  assumes "advance limit u r s = goes s'" and "u \<noteq> t" and "x \<in> set (mo_waiters s t)" and "mo_at s x = Lock_sleep obj t"
  shows "x \<in> set (mo_waiters s' t) \<and> mo_at s' x = Lock_sleep obj t"
  using assms inflate_same [of limit u _ r s]
  by (cases "mo_at s u")
    (auto simp: advance_def lock_read_def lock_try_def lock_store_def lock_overflow_def lock_contend_def lock_check_def
        lock_sleep_def lock_fat_def unlock_read_def unlock_store_def unlock_fat_def unlock_check_def wake_begin_def wake_def Let_def
        split: request.splits if_splits option.splits list.splits sum.splits)

lemma run_leaves_list:
  "run limit (filter (\<lambda>y. fst y \<noteq> t) xs) s = Some s' \<Longrightarrow> x \<in> set (mo_waiters s t) \<Longrightarrow> mo_at s x = Lock_sleep obj t \<Longrightarrow> mo_at s' x = Lock_sleep obj t"
proof (induction xs arbitrary: s)
  case (Cons y ys)
  show ?case
  proof (cases "fst y = t")
    case False
    then obtain s1 where s1: "advance limit (fst y) (snd y) s = goes s1" "run limit (filter (\<lambda>y. fst y \<noteq> t) ys) s1 = Some s'"
      using Cons.prems(1) by (cases y) (auto split: option.splits sum.splits)
    show ?thesis using Cons.IH [OF s1(2)] others_leave_list [OF s1(1) False Cons.prems(2,3)] by blast
  qed (use Cons in simp)
qed simp

definition crossing :: "(nat \<times> request) list" where
  "crossing = enters 1 64 @ enters 2 64 @ enters 3 64 @ [(3, Go), (3, Go)] @ enters 1 80 @ leaves 1 80 @ [(1, Go), (1, Go), (1, Go), (1, Go)]
     @ leaves 1 64 @ [(1, Go)] @ [(2, Go), (2, Go)]"

lemma crossing_run:
  "\<exists>s. run MAX_FATLOCKS crossing (crowd 32) = Some s \<and> mo_at s 1 = Outside \<and> mo_at s 2 = Lock_sleep 64 1 \<and> 2 \<in> set (mo_waiters s 1)
     \<and> mo_entered s = (\<lambda>_ _. 0)"
  by (simp add: crossing_def enters_def leaves_def mo_run crowd_def mo_start_def const_upd)

text \<open>
  C40: With more fat locks than that a wake-up can be lost: there is a run from the start to a state in which
  no thread has entered the monitor of the object at 64 and thread 1 is outside, and thread 2 sleeps in
  the list of thread 1, where it stays whatever the other threads do.
\<close>

theorem wakeup_lost:
  "\<exists>s. mo_reach MAX_FATLOCKS plain_start s \<and> (\<forall>t. mo_entered s t 64 = 0) \<and> mo_at s 1 = Outside
     \<and> (\<forall>xs. case run MAX_FATLOCKS (filter (\<lambda>x. fst x \<noteq> 1) xs) s of None \<Rightarrow> True | Some s' \<Rightarrow> mo_at s' 2 = Lock_sleep 64 1)"
proof -
  obtain s where s: "run MAX_FATLOCKS crossing (crowd 32) = Some s" "mo_at s 1 = Outside" "mo_at s 2 = Lock_sleep 64 1"
    "2 \<in> set (mo_waiters s 1)" "mo_entered s = (\<lambda>_ _. 0)"
    using crossing_run by blast
  have "mo_reach MAX_FATLOCKS plain_start s"
    by (rule run_small [OF crowd_reached s(1)]) (simp_all add: crossing_def enters_def leaves_def)
  then show ?thesis
    using s(2,5) run_leaves_list [OF _ s(4,3)] by (intro exI [of _ s]) (auto split: option.split)
qed

end
